(* ===== verification/Prelude.thy ===== *)
theory Prelude
  imports Complex_Main "HOL-Library.Word" "HOL-Library.AList"
begin

text \<open>
  Shared vocabulary of the development: the C++ exception hierarchy as a datatype, programs
  that thread a state and may raise (the shape of every member function below), their
  reasoning rules, and the facts on 64-bit words and association lists the components share.

  Conventions used throughout.
  \<^item> A member function that may throw is a \<open>prog\<close>: it maps the object's state to a result
    (\<open>Inl\<close> the exception, \<open>Inr\<close> the value) \<^emph>\<open>and\<close> the state left behind, because an exception
    does not undo the assignments made before it.
  \<^item> \<open>std::size_t\<close> and byte counts are \<open>64 word\<close>, \<open>ExpertId\<close> and \<open>LayerId\<close> are \<open>32 word\<close>: their
    arithmetic wraps as it does in C++.
  \<^item> 64-bit counters that are only ever incremented by one from a small start (allocation ids,
    logical clocks, statistics, sequence numbers) are \<open>nat\<close>: their wrap-around is \<open>2 ^ 64\<close>
    steps away.
  \<^item> \<open>double\<close> values that the code has checked or computed from integers are \<open>real\<close>; rounding is
    not modelled. A \<open>double\<close> that arrives from outside is an \<open>fp\<close>, which has the infinities and
    NaN.
\<close>

named_theorems prog_defs \<open>the definitions of the program combinators\<close>
named_theorems prog_simps \<open>one-step equations of the program combinators\<close>

section \<open>Exceptions\<close>

datatype exn =
    InvalidArgument string
  | OutOfRange string
  | LogicError string
  | OverflowError string
  | RuntimeError string
  | StorageError string
  | MetadataError string
  | Diverged

text \<open>
  \<open>std::invalid_argument\<close> and \<open>std::out_of_range\<close> derive from \<open>std::logic_error\<close>;
  \<open>std::overflow_error\<close>, \<open>storage::StorageError\<close> and \<open>metadata::MetadataError\<close> derive from \<open>std::runtime_error\<close>. \<open>Diverged\<close> is
  not a C++ exception: a definition that carries fuel returns it when the fuel runs out, and
  no handler catches it.
\<close>

fun is_runtime_error :: "exn \<Rightarrow> bool" where
  "is_runtime_error (RuntimeError m) = True"
| "is_runtime_error (OverflowError m) = True"
| "is_runtime_error (StorageError m) = True"
| "is_runtime_error (MetadataError m) = True"
| "is_runtime_error _ = False"

fun is_cpp_exception :: "exn \<Rightarrow> bool" where
  "is_cpp_exception Diverged = False"
| "is_cpp_exception _ = True"

lemma is_runtime_error_not_Diverged [simp]: "is_runtime_error e \<Longrightarrow> e \<noteq> Diverged"
  by auto

lemma is_cpp_exception_iff: "is_cpp_exception e \<longleftrightarrow> e \<noteq> Diverged"
  by (cases e) auto

section \<open>Programs with state and exceptions\<close>

type_synonym ('s, 'a) prog = "'s \<Rightarrow> (exn + 'a) \<times> 's"

definition ret :: "'a \<Rightarrow> ('s, 'a) prog" where
  [prog_defs]: "ret x = (\<lambda>s. (Inr x, s))"

definition raise :: "exn \<Rightarrow> ('s, 'a) prog" where
  [prog_defs]: "raise e = (\<lambda>s. (Inl e, s))"

definition bindp :: "('s, 'a) prog \<Rightarrow> ('a \<Rightarrow> ('s, 'b) prog) \<Rightarrow> ('s, 'b) prog" where
  [prog_defs]: "bindp m f = (\<lambda>s. case m s of (Inl e, t) \<Rightarrow> (Inl e, t) | (Inr x, t) \<Rightarrow> f x t)"

definition thenp :: "('s, 'a) prog \<Rightarrow> ('s, 'b) prog \<Rightarrow> ('s, 'b) prog" where
  [prog_defs]: "thenp m k = bindp m (\<lambda>_. k)"

text \<open>\<open>try m catch (matching exception) h\<close>.\<close>

definition catchp :: "('s, 'a) prog \<Rightarrow> (exn \<Rightarrow> bool) \<Rightarrow> (exn \<Rightarrow> ('s, 'a) prog) \<Rightarrow> ('s, 'a) prog" where
  [prog_defs]: "catchp m p h =
     (\<lambda>s. case m s of (Inl e, t) \<Rightarrow> (if p e then h e t else (Inl e, t)) | (Inr x, t) \<Rightarrow> (Inr x, t))"

definition gets :: "('s \<Rightarrow> 'a) \<Rightarrow> ('s, 'a) prog" where
  [prog_defs]: "gets f = (\<lambda>s. (Inr (f s), s))"

definition modify :: "('s \<Rightarrow> 's) \<Rightarrow> ('s, unit) prog" where
  [prog_defs]: "modify f = (\<lambda>s. (Inr (), f s))"

text \<open>\<open>if (!b) throw e;\<close>\<close>

definition require :: "bool \<Rightarrow> exn \<Rightarrow> ('s, unit) prog" where
  [prog_defs]: "require b e = (\<lambda>s. if b then (Inr (), s) else (Inl e, s))"

text \<open>Run a program of a part of the state (a member object) inside the whole.\<close>

definition zoom :: "('s \<Rightarrow> 't) \<Rightarrow> ('t \<Rightarrow> 's \<Rightarrow> 's) \<Rightarrow> ('t, 'a) prog \<Rightarrow> ('s, 'a) prog" where
  [prog_defs]: "zoom get put m = (\<lambda>s. case m (get s) of (r, t) \<Rightarrow> (r, put t s))"

lemma ret_apply [simp, prog_simps]: "ret x s = (Inr x, s)"
  by (simp add: ret_def)

lemma raise_apply [simp, prog_simps]: "raise e s = (Inl e, s)"
  by (simp add: raise_def)

lemma gets_apply [simp, prog_simps]: "gets f s = (Inr (f s), s)"
  by (simp add: gets_def)

lemma modify_apply [simp, prog_simps]: "modify f s = (Inr (), f s)"
  by (simp add: modify_def)

lemma require_apply [simp, prog_simps]:
  "require b e s = (if b then (Inr (), s) else (Inl e, s))"
  by (simp add: require_def)

lemma bindp_Inl [simp, prog_simps]: "m s = (Inl e, t) \<Longrightarrow> bindp m f s = (Inl e, t)"
  by (simp add: bindp_def)

lemma bindp_Inr [simp, prog_simps]: "m s = (Inr x, t) \<Longrightarrow> bindp m f s = f x t"
  by (simp add: bindp_def)

lemma thenp_Inl [simp, prog_simps]: "m s = (Inl e, t) \<Longrightarrow> thenp m k s = (Inl e, t)"
  by (simp add: thenp_def)

lemma thenp_Inr [simp, prog_simps]: "m s = (Inr x, t) \<Longrightarrow> thenp m k s = k t"
  by (simp add: thenp_def)

lemma catchp_Inr [simp, prog_simps]: "m s = (Inr x, t) \<Longrightarrow> catchp m p h s = (Inr x, t)"
  by (simp add: catchp_def)

lemma catchp_Inl [simp, prog_simps]:
  "m s = (Inl e, t) \<Longrightarrow> catchp m p h s = (if p e then h e t else (Inl e, t))"
  by (simp add: catchp_def)

lemma zoom_apply [simp, prog_simps]:
  "zoom get put m s = (fst (m (get s)), put (snd (m (get s))) s)"
  by (simp add: zoom_def split: prod.split)

lemma thenp_require: "thenp (require b e) k s = (if b then k s else (Inl e, s))"
  by simp

lemma thenp_modify: "thenp (modify f) k s = k (f s)"
  by simp

lemma bindp_gets: "bindp (gets f) k s = k (f s) s"
  by simp

lemmas guard_runs = thenp_require thenp_modify bindp_gets

lemma bindp_cases:
  assumes "bindp m f s = (r, u)"
  obtains e where "m s = (Inl e, u)" and "r = Inl e"
  | x t where "m s = (Inr x, t)" and "f x t = (r, u)"
  using assms by (auto simp: bindp_def split: prod.splits sum.splits)

lemma thenp_cases:
  assumes "thenp m k s = (r, u)"
  obtains e where "m s = (Inl e, u)" and "r = Inl e"
  | x t where "m s = (Inr x, t)" and "k t = (r, u)"
  using assms by (auto simp: thenp_def elim: bindp_cases)

lemma catchp_cases:
  assumes "catchp m p h s = (r, u)"
  obtains x where "m s = (Inr x, u)" and "r = Inr x"
  | e where "m s = (Inl e, u)" and "\<not> p e" and "r = Inl e"
  | e t where "m s = (Inl e, t)" and "p e" and "h e t = (r, u)"
  using assms by (auto simp: catchp_def split: prod.splits sum.splits if_splits)

section \<open>Programs that keep a relation between the state before and after\<close>

text \<open>
  \<open>keeps I R m\<close>: from every state in \<open>I\<close>, whatever \<open>m\<close> returns or throws, the state it leaves
  is in \<open>I\<close> again and related by \<open>R\<close> to the one it started from. With \<open>R\<close> reflexive and
  transitive this composes over every combinator, so an invariant of a whole member function
  comes down to its primitive updates.
\<close>

definition keeps :: "('s \<Rightarrow> bool) \<Rightarrow> ('s \<Rightarrow> 's \<Rightarrow> bool) \<Rightarrow> ('s, 'a) prog \<Rightarrow> bool" where
  "keeps I R m \<longleftrightarrow> (\<forall>s r t. I s \<longrightarrow> m s = (r, t) \<longrightarrow> I t \<and> R s t)"

lemma keepsI: "(\<And>s r t. I s \<Longrightarrow> m s = (r, t) \<Longrightarrow> I t \<and> R s t) \<Longrightarrow> keeps I R m"
  by (auto simp: keeps_def)

lemma keepsD: "keeps I R m \<Longrightarrow> I s \<Longrightarrow> m s = (r, t) \<Longrightarrow> I t \<and> R s t"
  by (auto simp: keeps_def)

lemma keeps_pure:
  assumes "reflp R" and "\<And>s. snd (m s) = s"
  shows "keeps I R m"
  using assms by (auto simp: keeps_def reflp_def) (metis snd_conv)+

lemma keeps_ret [intro]: "reflp R \<Longrightarrow> keeps I R (ret x)"
  by (rule keeps_pure) simp_all

lemma keeps_raise [intro]: "reflp R \<Longrightarrow> keeps I R (raise e)"
  by (rule keeps_pure) simp_all

lemma keeps_gets [intro]: "reflp R \<Longrightarrow> keeps I R (gets f)"
  by (rule keeps_pure) simp_all

lemma keeps_require [intro]: "reflp R \<Longrightarrow> keeps I R (require b e)"
  by (rule keeps_pure) simp_all

lemma keeps_bindp:
  assumes "transp R" and "keeps I R m" and "\<And>x. keeps I R (f x)"
  shows "keeps I R (bindp m f)"
proof (rule keepsI)
  fix s r t
  assume "I s" and eq: "bindp m f s = (r, t)"
  from eq show "I t \<and> R s t"
  proof (cases rule: bindp_cases)
    case (1 e)
    with assms(2) \<open>I s\<close> show ?thesis by (auto dest: keepsD)
  next
    case (2 x u)
    with keepsD [OF assms(2) \<open>I s\<close>] have u: "I u" "R s u" by auto
    moreover from keepsD [OF assms(3) u(1) 2(2)] have "I t" "R u t" by auto
    ultimately show ?thesis using assms(1) by (auto dest: transpD)
  qed
qed

lemma keeps_thenp:
  "transp R \<Longrightarrow> keeps I R m \<Longrightarrow> keeps I R k \<Longrightarrow> keeps I R (thenp m k)"
  by (simp add: thenp_def keeps_bindp)

lemma keeps_catchp:
  assumes "transp R" and "keeps I R m" and "\<And>e. keeps I R (h e)"
  shows "keeps I R (catchp m p h)"
proof (rule keepsI)
  fix s r t
  assume "I s" and eq: "catchp m p h s = (r, t)"
  from eq show "I t \<and> R s t"
  proof (cases rule: catchp_cases)
    case (1 x)
    with assms(2) \<open>I s\<close> show ?thesis by (auto dest: keepsD)
  next
    case (2 e)
    with assms(2) \<open>I s\<close> show ?thesis by (auto dest: keepsD)
  next
    case (3 e u)
    with keepsD [OF assms(2) \<open>I s\<close>] have u: "I u" "R s u" by auto
    moreover from keepsD [OF assms(3) u(1) 3(3)] have "I t" "R u t" by auto
    ultimately show ?thesis using assms(1) by (auto dest: transpD)
  qed
qed

section \<open>Floating-point inputs\<close>

datatype fp = Fin real | PosInf | NegInf | NaN

fun isfinite :: "fp \<Rightarrow> bool" where
  "isfinite (Fin x) = True"
| "isfinite _ = False"

fun fp_value :: "fp \<Rightarrow> real" where
  "fp_value (Fin x) = x"
| "fp_value _ = 0"

text \<open>\<open>std::clamp(x, lo, hi)\<close>.\<close>

definition clamp :: "real \<Rightarrow> real \<Rightarrow> real \<Rightarrow> real" where
  "clamp x lo hi = (if x < lo then lo else if hi < x then hi else x)"

lemma clamp_bounds: "lo \<le> hi \<Longrightarrow> lo \<le> clamp x lo hi \<and> clamp x lo hi \<le> hi"
  by (simp add: clamp_def)

section \<open>64-bit sizes\<close>

type_synonym u8 = "8 word"
type_synonym u32 = "32 word"
type_synonym u64 = "64 word"

text \<open>\<open>std::numeric_limits<std::size_t>::max()\<close>\<close>

abbreviation u64_max :: u64 where "u64_max \<equiv> - 1"

lemma unat_add_within:
  fixes u l n :: "'a::len word"
  assumes "u \<le> l" and "n \<le> l - u"
  shows "unat (u + n) = unat u + unat n" and "u + n \<le> l"
proof -
  from assms(1) have d: "unat (l - u) = unat l - unat u" by (rule unat_sub)
  from assms have le: "unat u \<le> unat l" "unat n \<le> unat l - unat u"
    by (simp_all add: word_le_nat_alt d)
  then have "unat u + unat n \<le> unat l" by arith
  moreover have "unat l < 2 ^ LENGTH('a)" by (rule unsigned_less)
  ultimately have "unat u + unat n < 2 ^ LENGTH('a)" by (rule order.strict_trans1)
  then show eq: "unat (u + n) = unat u + unat n" by (rule unat_add_lem [THEN iffD1])
  from le show "u + n \<le> l" by (simp add: word_le_nat_alt eq)
qed

lemma unat_sub_within:
  fixes u n :: "'a::len word"
  assumes "unat n \<le> unat u"
  shows "unat (u - n) = unat u - unat n"
  using assms by (intro unat_sub) (simp add: word_le_nat_alt)

lemma unat_mult_within:
  fixes a b :: "'a::len word"
  assumes "b \<noteq> 0" and "a \<le> - 1 div b"
  shows "unat (a * b) = unat a * unat b"
proof -
  from assms(2) have "unat a \<le> unat (- 1 :: 'a word) div unat b"
    by (simp add: word_le_nat_alt unat_div)
  moreover from assms(1) have "0 < unat b" by (simp add: unat_gt_0)
  ultimately have "unat a * unat b \<le> unat (- 1 :: 'a word)"
    by (simp add: less_eq_div_iff_mult_less_eq)
  also have "\<dots> < 2 ^ LENGTH('a)" by (rule unsigned_less)
  finally show ?thesis by (rule unat_mult_lem [THEN iffD1])
qed

lemma unat_u64_max: "unat u64_max = 2 ^ 64 - 1"
  by (simp add: unsigned_minus_1_eq_mask mask_eq_exp_minus_1)

lemma unat_u64_max_minus: "unat (u64_max - x) = 2 ^ 64 - 1 - unat x"
  by (subst unat_sub) (simp_all only: unat_u64_max word_n1_ge)

lemma unat_of_nat_u64: "n < 2 ^ 64 \<Longrightarrow> unat (of_nat n :: u64) = n"
  by (simp add: unat_of_nat)

section \<open>Results without state\<close>

text \<open>A function that reads nothing but its arguments and may throw returns \<open>exn + 'a\<close>.\<close>

definition bindr :: "exn + 'a \<Rightarrow> ('a \<Rightarrow> exn + 'b) \<Rightarrow> exn + 'b" where
  "bindr m f = (case m of Inl e \<Rightarrow> Inl e | Inr x \<Rightarrow> f x)"

definition requirer :: "bool \<Rightarrow> exn \<Rightarrow> exn + unit" where
  "requirer b e = (if b then Inr () else Inl e)"

fun foldr_until :: "('a \<Rightarrow> 's \<Rightarrow> exn + 's) \<Rightarrow> 'a list \<Rightarrow> 's \<Rightarrow> exn + 's" where
  "foldr_until f [] s = Inr s"
| "foldr_until f (x # xs) s = bindr (f x s) (foldr_until f xs)"

lemma bindr_simps [simp]: "bindr (Inl e) f = Inl e" "bindr (Inr x) f = f x"
  by (simp_all add: bindr_def)

lemma bindr_eq_Inr: "bindr m f = Inr y \<longleftrightarrow> (\<exists>x. m = Inr x \<and> f x = Inr y)"
  by (cases m) simp_all

lemma requirer_eq_Inr [simp]: "requirer b e = Inr u \<longleftrightarrow> b"
  by (simp add: requirer_def)

lemma requirer_True [simp]: "requirer True e = Inr ()"
  by (simp add: requirer_def)

lemma requirer_False [simp]: "requirer False e = Inl e"
  by (simp add: requirer_def)

lemma foldr_until_append: "foldr_until f (xs @ ys) s = bindr (foldr_until f xs s) (foldr_until f ys)"
proof (induction xs arbitrary: s)
  case (Cons x xs)
  then show ?case by (cases "f x s") simp_all
qed simp

lemma foldr_until_invariant:
  assumes "foldr_until f xs s = Inr t" and "P s"
    and "\<And>x u v. x \<in> set xs \<Longrightarrow> P u \<Longrightarrow> f x u = Inr v \<Longrightarrow> P v"
  shows "P t"
  using assms
proof (induction xs arbitrary: s)
  case (Cons x xs)
  from Cons.prems(1) obtain u where u: "f x s = Inr u" "foldr_until f xs u = Inr t"
    by (auto simp: bindr_eq_Inr)
  from u(1) Cons.prems(2,3) have "P u" by auto
  with u(2) Cons.IH Cons.prems(3) show ?case by (meson list.set_intros(2))
qed simp

section \<open>Decimal text\<close>

text \<open>\<open>std::to_string\<close> of an unsigned value.\<close>

fun to_string :: "nat \<Rightarrow> string" where
  "to_string n =
     (if n < 10 then [char_of (48 + n)] else to_string (n div 10) @ [char_of (48 + n mod 10)])"

declare to_string.simps [simp del]

lemma to_string_nonempty: "to_string n \<noteq> []"
  by (subst to_string.simps) simp

section \<open>Maps\<close>

text \<open>\<open>unordered_map::emplace\<close> keeps the entry that is already there.\<close>

definition emplace :: "('k \<rightharpoonup> 'v) \<Rightarrow> 'k \<Rightarrow> 'v \<Rightarrow> ('k \<rightharpoonup> 'v)" where
  "emplace m k v = (case m k of None \<Rightarrow> m(k \<mapsto> v) | Some _ \<Rightarrow> m)"

lemma emplace_fresh [simp]: "m k = None \<Longrightarrow> emplace m k v = m(k \<mapsto> v)"
  by (simp add: emplace_def)

section \<open>Association lists with distinct keys\<close>

text \<open>
  A \<open>std::unordered_map\<close> that the code iterates over is an association list with distinct
  keys, in the order the iteration sees.
\<close>

lemma update_in_place:
  "map_of xs k = Some v \<Longrightarrow> map fst (AList.update k w xs) = map fst xs"
  by (induction xs) auto

lemma map_of_update_same [simp]: "map_of (AList.update k v xs) k = Some v"
  by (simp add: update_conv')

lemma map_of_update_other [simp]: "j \<noteq> k \<Longrightarrow> map_of (AList.update k v xs) j = map_of xs j"
  by (simp add: update_conv')

lemma in_set_update:
  assumes "distinct (map fst xs)" and "(j, w) \<in> set (AList.update k v xs)"
  shows "(j = k \<and> w = v) \<or> (j \<noteq> k \<and> (j, w) \<in> set xs)"
  using assms by (induction xs) (auto split: if_splits simp: rev_image_eqI)

end
