(* ===== verification/Expert_Types.thy ===== *)
theory Expert_Types
  imports Prelude
begin

text \<open>
  The vocabulary of the public headers: memory tiers
  (\<^verbatim>\<open>include/hypermoe/memory/memory_tier.hpp\<close>), quantization types and the expert descriptor
  (\<^verbatim>\<open>include/hypermoe/experts/expert.hpp\<close>), and the 64-bit key that packs a layer and an expert
  id. The same key function stands in \<open>ExpertManager\<close>, \<open>ExpertResidencyStateMachine\<close>,
  \<open>Scheduler\<close> and \<open>ExpertIndex\<close>; here it is defined once, with its injectivity and the two
  projections the scheduler uses to take a key apart.
\<close>

unbundle bit_operations_syntax

type_synonym expert_id = u32
type_synonym layer_id = u32
type_synonym expert_key = u64

datatype memory_tier = Vram | Ram | PinnedRam | Nvme

fun tier_toString :: "memory_tier \<Rightarrow> string" where
  "tier_toString Vram = ''VRAM''"
| "tier_toString Ram = ''RAM''"
| "tier_toString PinnedRam = ''PINNED_RAM''"
| "tier_toString Nvme = ''NVME''"

datatype quantization_type = Fp32 | Fp16 | Bf16 | Q4 | Q5 | Q6 | Int8 | Fp8

text \<open>The enumerators' underlying values, and the cast from \<open>std::uint32_t\<close> as \<open>isValid\<close> sees it.\<close>

fun quantization_code :: "quantization_type \<Rightarrow> u32" where
  "quantization_code Fp32 = 0"
| "quantization_code Fp16 = 1"
| "quantization_code Bf16 = 2"
| "quantization_code Q4 = 3"
| "quantization_code Q5 = 4"
| "quantization_code Q6 = 5"
| "quantization_code Int8 = 6"
| "quantization_code Fp8 = 7"

definition quantization_isValid :: "u32 \<Rightarrow> bool" where
  "quantization_isValid c \<longleftrightarrow>
     c = quantization_code Fp32 \<or> c = quantization_code Fp16 \<or> c = quantization_code Bf16 \<or>
     c = quantization_code Q4 \<or> c = quantization_code Q5 \<or> c = quantization_code Q6 \<or>
     c = quantization_code Int8 \<or> c = quantization_code Fp8"

fun quantization_toString :: "quantization_type \<Rightarrow> string" where
  "quantization_toString Fp32 = ''FP32''"
| "quantization_toString Fp16 = ''FP16''"
| "quantization_toString Bf16 = ''BF16''"
| "quantization_toString Q4 = ''Q4''"
| "quantization_toString Q5 = ''Q5''"
| "quantization_toString Q6 = ''Q6''"
| "quantization_toString Int8 = ''INT8''"
| "quantization_toString Fp8 = ''FP8''"

record expert =
  exp_id :: expert_id
  exp_layer :: layer_id
  exp_sizeBytes :: u64
  exp_quantization :: quantization_type
  exp_location :: memory_tier

text \<open>\<open>(static_cast<ExpertKey>(layerId) << 32U) | id\<close>\<close>

definition key :: "layer_id \<Rightarrow> expert_id \<Rightarrow> expert_key" where
  "key l i = push_bit 32 (ucast l) OR ucast i"

text \<open>\<open>static_cast<LayerId>(key >> 32U)\<close> and \<open>static_cast<ExpertId>(key)\<close>\<close>

definition key_layer :: "expert_key \<Rightarrow> layer_id" where
  "key_layer k = ucast (drop_bit 32 k)"

definition key_expert :: "expert_key \<Rightarrow> expert_id" where
  "key_expert k = ucast k"

lemma key_layer_key [simp]: "key_layer (key l i) = l"
  unfolding key_layer_def key_def
  by (rule bit_word_eqI) (auto simp: bit_simps dest: bit_imp_le_length)

lemma key_expert_key [simp]: "key_expert (key l i) = i"
  unfolding key_expert_def key_def
  by (rule bit_word_eqI) (auto simp: bit_simps dest: bit_imp_le_length)

lemma key_eq_iff [simp]: "key l i = key l' i' \<longleftrightarrow> l = l' \<and> i = i'"
  by (metis key_expert_key key_layer_key)

lemma key_surj: "key (key_layer k) (key_expert k) = k"
  unfolding key_layer_def key_def key_expert_def
  by (rule bit_word_eqI) (auto simp: bit_simps dest: bit_imp_le_length)

lemma quantization_isValid_iff: "quantization_isValid c \<longleftrightarrow> (\<exists>q. quantization_code q = c)"
proof
  assume "quantization_isValid c"
  then show "\<exists>q. quantization_code q = c" unfolding quantization_isValid_def by blast
next
  assume "\<exists>q. quantization_code q = c"
  then obtain q where "quantization_code q = c" ..
  then show "quantization_isValid c" by (cases q) (auto simp: quantization_isValid_def)
qed

end
