(* ===== verification/Memory_Manager.thy ===== *)
theory Memory_Manager
  imports Expert_Types
begin

text \<open>
  \<^verbatim>\<open>src/memory/vram_manager/memory_manager.cpp\<close>: the ledger of byte reservations in VRAM and RAM.
  \<open>PinnedRam\<close> reservations are charged to the RAM account. The invariant \<open>mm_ok\<close> says that each
  account's used bytes are exactly the bytes of the live reservations charged to it, and never
  exceed its limit; so neither \<open>availableBytes\<close> nor \<open>usedBytes += size\<close> wraps.

  The locale \<open>reservation_ledger\<close> is the contract the expert manager relies on, and
  \<open>mm\<close> its interpretation on the code's model.
\<close>

record memory_allocation =
  ma_id :: nat
  ma_tier :: memory_tier
  ma_sizeBytes :: u64
  ma_tag :: string

record tier_usage =
  usedBytes :: u64
  limitBytes :: u64

definition availableBytes :: "tier_usage \<Rightarrow> u64" where
  "availableBytes u = limitBytes u - usedBytes u"

record memory_manager =
  mm_vram :: tier_usage
  mm_ram :: tier_usage
  mm_nextId :: nat
  mm_allocations :: "nat \<rightharpoonup> memory_allocation"

definition mm_new :: "u64 \<Rightarrow> u64 \<Rightarrow> memory_manager" where
  "mm_new vramLimit ramLimit =
     \<lparr> mm_vram = \<lparr> usedBytes = 0, limitBytes = vramLimit \<rparr>,
       mm_ram = \<lparr> usedBytes = 0, limitBytes = ramLimit \<rparr>,
       mm_nextId = 1, mm_allocations = Map.empty \<rparr>"

definition usageFor :: "memory_manager \<Rightarrow> memory_tier \<Rightarrow> tier_usage" where
  "usageFor m tier = (if tier = Vram then mm_vram m else mm_ram m)"

definition setUsageFor :: "memory_tier \<Rightarrow> u64 \<Rightarrow> memory_manager \<Rightarrow> memory_manager" where
  "setUsageFor tier used m =
     (if tier = Vram then m\<lparr>mm_vram := (mm_vram m)\<lparr>usedBytes := used\<rparr>\<rparr>
      else m\<lparr>mm_ram := (mm_ram m)\<lparr>usedBytes := used\<rparr>\<rparr>)"

definition mm_allocate ::
  "memory_tier \<Rightarrow> u64 \<Rightarrow> string \<Rightarrow> (memory_manager, memory_allocation option) prog" where
  "mm_allocate tier sizeBytes tag = (\<lambda>m.
     if tier = Nvme
     then (Inl (InvalidArgument ''NVMe objects are owned by DiskStore, not MemoryManager''), m)
     else if sizeBytes = 0
     then (Inl (InvalidArgument ''cannot allocate a zero-sized buffer''), m)
     else if sizeBytes > availableBytes (usageFor m tier) then (Inr None, m)
     else
       let allocation = \<lparr> ma_id = mm_nextId m, ma_tier = tier, ma_sizeBytes = sizeBytes, ma_tag = tag \<rparr>;
           used = usedBytes (usageFor m tier) + sizeBytes
       in (Inr (Some allocation),
           setUsageFor tier used
             (m\<lparr>mm_nextId := mm_nextId m + 1,
                mm_allocations := (mm_allocations m)(ma_id allocation \<mapsto> allocation)\<rparr>)))"

definition mm_release :: "nat \<Rightarrow> (memory_manager, bool) prog" where
  "mm_release i = (\<lambda>m.
     case mm_allocations m i of
       None \<Rightarrow> (Inr False, m)
     | Some a \<Rightarrow>
         (Inr True,
          setUsageFor (ma_tier a) (usedBytes (usageFor m (ma_tier a)) - ma_sizeBytes a)
            (m\<lparr>mm_allocations := (mm_allocations m)(i := None)\<rparr>)))"

definition mm_snapshot :: "memory_manager \<Rightarrow> tier_usage \<times> tier_usage" where
  "mm_snapshot m = (mm_vram m, mm_ram m)"

definition mm_usage :: "memory_manager \<Rightarrow> memory_tier \<Rightarrow> exn + tier_usage" where
  "mm_usage m tier =
     (if tier = Nvme then Inl (InvalidArgument ''NVMe capacity is managed by DiskStore'')
      else Inr (usageFor m tier))"

definition mm_contains :: "memory_manager \<Rightarrow> nat \<Rightarrow> bool" where
  "mm_contains m i \<longleftrightarrow> mm_allocations m i \<noteq> None"

subsection \<open>Invariant\<close>

text \<open>The bytes of the live reservations charged to the VRAM (\<open>True\<close>) or RAM (\<open>False\<close>) account.\<close>

definition charged :: "bool \<Rightarrow> memory_allocation \<Rightarrow> nat" where
  "charged v a = (if (ma_tier a = Vram) = v then unat (ma_sizeBytes a) else 0)"

definition reserved :: "(nat \<rightharpoonup> memory_allocation) \<Rightarrow> bool \<Rightarrow> nat" where
  "reserved A v = (\<Sum>i\<in>dom A. charged v (the (A i)))"

definition mm_ok :: "memory_manager \<Rightarrow> bool" where
  "mm_ok m \<longleftrightarrow>
     finite (dom (mm_allocations m)) \<and>
     (\<forall>i a. mm_allocations m i = Some a \<longrightarrow>
        ma_id a = i \<and> i < mm_nextId m \<and> ma_sizeBytes a \<noteq> 0 \<and> ma_tier a \<noteq> Nvme) \<and>
     reserved (mm_allocations m) True = unat (usedBytes (mm_vram m)) \<and>
     reserved (mm_allocations m) False = unat (usedBytes (mm_ram m)) \<and>
     usedBytes (mm_vram m) \<le> limitBytes (mm_vram m) \<and>
     usedBytes (mm_ram m) \<le> limitBytes (mm_ram m)"

lemma mm_ok_new: "mm_ok (mm_new v r)"
  by (simp add: mm_ok_def mm_new_def reserved_def)

lemma reserved_insert:
  assumes "finite (dom A)" and "A i = None"
  shows "reserved (A(i \<mapsto> a)) v = reserved A v + charged v a"
proof -
  have "(\<Sum>j\<in>dom A. charged v (the ((A(i \<mapsto> a)) j))) = (\<Sum>j\<in>dom A. charged v (the (A j)))"
    using assms(2) by (intro sum.cong) auto
  moreover have "i \<notin> dom A" using assms(2) by auto
  ultimately show ?thesis using assms(1) by (simp add: reserved_def add.commute)
qed

lemma reserved_delete:
  assumes "finite (dom A)" and "A i = Some a"
  shows "reserved A v = reserved (A(i := None)) v + charged v a"
proof -
  have "reserved ((A(i := None))(i \<mapsto> a)) v = reserved (A(i := None)) v + charged v a"
    using assms(1) by (intro reserved_insert) auto
  moreover have "(A(i := None))(i \<mapsto> a) = A" using assms(2) by auto
  ultimately show ?thesis by simp
qed

lemma mm_ok_fresh: "mm_ok m \<Longrightarrow> mm_nextId m \<le> i \<Longrightarrow> mm_allocations m i = None"
  unfolding mm_ok_def by (metis leD not_None_eq)

lemma mm_ok_usage: "mm_ok m \<Longrightarrow> usedBytes (usageFor m t) \<le> limitBytes (usageFor m t)"
  by (simp add: mm_ok_def usageFor_def)

lemma mm_ok_reserved:
  "mm_ok m \<Longrightarrow> reserved (mm_allocations m) (t = Vram) = unat (usedBytes (usageFor m t))"
  by (cases "t = Vram") (simp_all add: mm_ok_def usageFor_def)

lemma mm_ok_allocate:
  assumes ok: "mm_ok m" and alloc: "mm_allocate t n tag m = (r, m')"
  shows "mm_ok m'"
proof (cases "m' = m")
  case True
  with ok show ?thesis by simp
next
  case False
  let ?a = "\<lparr> ma_id = mm_nextId m, ma_tier = t, ma_sizeBytes = n, ma_tag = tag \<rparr>"
  let ?u = "usageFor m t"
  from alloc False have g: "t \<noteq> Nvme" "n \<noteq> 0" "n \<le> availableBytes ?u"
    and m': "m' = setUsageFor t (usedBytes ?u + n)
       (m\<lparr>mm_nextId := mm_nextId m + 1, mm_allocations := (mm_allocations m)(mm_nextId m \<mapsto> ?a)\<rparr>)"
    by (auto simp: mm_allocate_def Let_def split: if_splits)
  from g(3) have n: "n \<le> limitBytes ?u - usedBytes ?u" by (simp add: availableBytes_def)
  note sum = unat_add_within [OF mm_ok_usage [OF ok] n]
  have fresh: "mm_allocations m (mm_nextId m) = None" by (rule mm_ok_fresh [OF ok]) simp
  have fin: "finite (dom (mm_allocations m))" using ok by (simp add: mm_ok_def)
  note res = reserved_insert [OF fin fresh]
  have old: "mm_allocations m i = Some a \<Longrightarrow>
      ma_id a = i \<and> i < mm_nextId m \<and> ma_sizeBytes a \<noteq> 0 \<and> ma_tier a \<noteq> Nvme" for i a
    using ok by (auto simp: mm_ok_def)
  show ?thesis
  proof (cases "t = Vram")
    case True
    with ok g(2) fin sum show ?thesis
      unfolding m' by (auto simp: mm_ok_def setUsageFor_def usageFor_def res charged_def dest: old)
  next
    case False
    with ok g fin sum show ?thesis
      unfolding m' by (auto simp: mm_ok_def setUsageFor_def usageFor_def res charged_def dest: old)
  qed
qed

lemma mm_ok_release:
  assumes ok: "mm_ok m" and rel: "mm_release i m = (r, m')"
  shows "mm_ok m'"
proof (cases "mm_allocations m i")
  case None
  with rel ok show ?thesis by (simp add: mm_release_def)
next
  case (Some a)
  let ?u = "usageFor m (ma_tier a)"
  from rel Some have m': "m' = setUsageFor (ma_tier a) (usedBytes ?u - ma_sizeBytes a)
       (m\<lparr>mm_allocations := (mm_allocations m)(i := None)\<rparr>)"
    by (simp add: mm_release_def)
  have fin: "finite (dom (mm_allocations m))" using ok by (simp add: mm_ok_def)
  note res = reserved_delete [OF fin Some]
  have "reserved (mm_allocations m) (ma_tier a = Vram) = unat (usedBytes ?u)"
    by (rule mm_ok_reserved [OF ok])
  then have le: "unat (ma_sizeBytes a) \<le> unat (usedBytes ?u)"
    using res [of "ma_tier a = Vram"] by (simp add: charged_def)
  note sub = unat_sub_within [OF le]
  have down: "usedBytes ?u - ma_sizeBytes a \<le> limitBytes ?u"
    using mm_ok_usage [OF ok, of "ma_tier a"] by (simp add: word_le_nat_alt sub)
  show ?thesis
    using ok fin res [of True] res [of False] sub down unfolding m'
    by (cases "ma_tier a = Vram") (auto simp: mm_ok_def setUsageFor_def usageFor_def charged_def)
qed

lemma mm_limit_allocate [simp]:
  "limitBytes (usageFor (snd (mm_allocate t n tag m)) t') = limitBytes (usageFor m t')"
  by (auto simp: mm_allocate_def Let_def setUsageFor_def usageFor_def)

lemma mm_limit_release [simp]:
  "limitBytes (usageFor (snd (mm_release i m)) t') = limitBytes (usageFor m t')"
  by (auto simp: mm_release_def setUsageFor_def usageFor_def split: option.splits)

subsection \<open>What the operations do to the set of reservations\<close>

lemma mm_allocate_Some:
  assumes "mm_allocate t n tag m = (Inr (Some a), m')"
  shows "a = \<lparr> ma_id = mm_nextId m, ma_tier = t, ma_sizeBytes = n, ma_tag = tag \<rparr>"
    and "mm_allocations m' = (mm_allocations m)(ma_id a \<mapsto> a)"
    and "mm_nextId m' = mm_nextId m + 1" and "t \<noteq> Nvme" and "n \<noteq> 0"
    and "n \<le> availableBytes (usageFor m t)"
  using assms by (auto simp: mm_allocate_def Let_def setUsageFor_def split: if_splits)

lemma mm_allocate_not_Some:
  assumes "mm_allocate t n tag m = (r, m')" and "\<And>a. r \<noteq> Inr (Some a)"
  shows "m' = m"
  using assms by (auto simp: mm_allocate_def Let_def split: if_splits)

lemma mm_allocate_succeeds:
  assumes "t \<noteq> Nvme" and "n \<noteq> 0" and "n \<le> availableBytes (usageFor m t)"
  shows "\<exists>a m'. mm_allocate t n tag m = (Inr (Some a), m')"
  using assms by (auto simp: mm_allocate_def Let_def)

lemma mm_release_result: "fst (mm_release i m) = Inr (mm_contains m i)"
  by (auto simp: mm_release_def mm_contains_def split: option.splits)

lemma mm_release_allocations:
  "mm_allocations (snd (mm_release i m)) = (mm_allocations m)(i := None)"
  by (auto simp: mm_release_def setUsageFor_def split: option.splits)

lemma mm_release_nextId [simp]: "mm_nextId (snd (mm_release i m)) = mm_nextId m"
  by (auto simp: mm_release_def setUsageFor_def split: option.splits)

subsection \<open>The contract the expert manager relies on\<close>

locale reservation_ledger =
  fixes alloc :: "memory_tier \<Rightarrow> u64 \<Rightarrow> string \<Rightarrow> ('m, memory_allocation option) prog"
    and rel :: "nat \<Rightarrow> ('m, bool) prog"
    and live :: "'m \<Rightarrow> (nat \<rightharpoonup> memory_allocation)"
    and invar :: "'m \<Rightarrow> bool"
  assumes alloc_invar: "invar m \<Longrightarrow> alloc t n tag m = (r, m') \<Longrightarrow> invar m'"
    and rel_invar: "invar m \<Longrightarrow> rel i m = (r', m') \<Longrightarrow> invar m'"
    and alloc_granted: "invar m \<Longrightarrow> alloc t n tag m = (Inr (Some a), m') \<Longrightarrow>
          live m (ma_id a) = None \<and> live m' = (live m)(ma_id a \<mapsto> a)"
    and alloc_refused: "alloc t n tag m = (r, m') \<Longrightarrow> (\<And>a. r \<noteq> Inr (Some a)) \<Longrightarrow> m' = m"
    and rel_result: "fst (rel i m) = Inr (live m i \<noteq> None)"
    and rel_live: "live (snd (rel i m)) = (live m)(i := None)"
begin

lemma rel_known: "live m i \<noteq> None \<Longrightarrow> \<exists>m'. rel i m = (Inr True, m') \<and> live m' = (live m)(i := None)"
  using rel_result [of i m] rel_live [of i m] by (cases "rel i m") auto

text \<open>Giving back a reservation that was just granted leaves the others as they were.\<close>

lemma alloc_then_rel:
  assumes "invar m" and "alloc t n tag m = (Inr (Some a), m1)" and "rel (ma_id a) m1 = (b, m2)"
  shows "invar m2" and "live m2 = live m" and "b = Inr True"
proof -
  from alloc_granted [OF assms(1,2)] have l: "live m (ma_id a) = None" "live m1 = (live m)(ma_id a \<mapsto> a)"
    by auto
  show "invar m2" by (rule rel_invar [OF alloc_invar [OF assms(1,2)] assms(3)])
  from rel_live [of "ma_id a" m1] assms(3) l show "live m2 = live m" by auto
  from rel_result [of "ma_id a" m1] assms(3) l show "b = Inr True" by simp
qed

text \<open>Replacing one reservation by another: the new one is granted first, then the old one goes.\<close>

lemma alloc_then_rel_other:
  assumes "invar m" and "alloc t n tag m = (Inr (Some a), m1)" and "live m i \<noteq> None"
    and "rel i m1 = (b, m2)"
  shows "invar m2" and "live m2 = (live m)(i := None, ma_id a \<mapsto> a)" and "b = Inr True" and "ma_id a \<noteq> i"
proof -
  from alloc_granted [OF assms(1,2)] have l: "live m (ma_id a) = None" "live m1 = (live m)(ma_id a \<mapsto> a)"
    by auto
  with assms(3) show ne: "ma_id a \<noteq> i" by auto
  show "invar m2" by (rule rel_invar [OF alloc_invar [OF assms(1,2)] assms(4)])
  from rel_live [of i m1] assms(4) l ne show "live m2 = (live m)(i := None, ma_id a \<mapsto> a)"
    by (auto simp: fun_upd_twist)
  from rel_result [of i m1] assms(3,4) l ne show "b = Inr True" by simp
qed

end

interpretation mm: reservation_ledger mm_allocate mm_release mm_allocations mm_ok
proof
  fix m m' :: memory_manager and t n tag a
  assume "mm_ok m" and "mm_allocate t n tag m = (Inr (Some a), m')"
  then show "mm_allocations m (ma_id a) = None \<and> mm_allocations m' = (mm_allocations m)(ma_id a \<mapsto> a)"
    using mm_allocate_Some [of t n tag m a m'] by (auto intro: mm_ok_fresh)
qed (auto intro: mm_ok_allocate mm_ok_release mm_allocate_not_Some
       simp: mm_release_result mm_contains_def mm_release_allocations)

subsection \<open>Properties of the ledger\<close>

inductive mm_reachable :: "memory_manager \<Rightarrow> bool" where
  mm_start: "mm_reachable (mm_new vramLimit ramLimit)"
| mm_allocated: "mm_reachable m \<Longrightarrow> mm_allocate t n tag m = (r, m') \<Longrightarrow> mm_reachable m'"
| mm_released: "mm_reachable m \<Longrightarrow> mm_release i m = (r', m') \<Longrightarrow> mm_reachable m'"

lemma mm_reachable_ok: "mm_reachable m \<Longrightarrow> mm_ok m"
  by (induction rule: mm_reachable.induct) (auto intro: mm_ok_new mm_ok_allocate mm_ok_release)

text \<open>C29: In every reachable ledger the used bytes of each account are, without wrap-around, the sum
  of the live reservations charged to it, and stay within the account's limit.\<close>

theorem ledger_exact_and_bounded:
  assumes "mm_reachable m"
  shows "unat (usedBytes (usageFor m tier)) = reserved (mm_allocations m) (tier = Vram) \<and>
         usedBytes (usageFor m tier) \<le> limitBytes (usageFor m tier)"
  using mm_ok_reserved mm_ok_usage mm_reachable_ok [OF assms] by metis

definition ledger_example :: memory_manager where
  "ledger_example = snd (mm_allocate Vram 60 ''b'' (snd (mm_allocate PinnedRam 40 ''a'' (mm_new 100 50))))"

theorem ledger_exact_and_bounded_witness:
  "usedBytes (usageFor ledger_example Vram) = 60 \<and> usedBytes (usageFor ledger_example Ram) = 40 \<and>
   reserved (mm_allocations ledger_example) True = 60"
proof -
  have u: "usedBytes (usageFor ledger_example Vram) = 60" "usedBytes (usageFor ledger_example Ram) = 40"
    by (simp_all add: ledger_example_def mm_allocate_def mm_new_def usageFor_def setUsageFor_def
        availableBytes_def Let_def)
  have "mm_reachable ledger_example"
    unfolding ledger_example_def by (metis mm_start mm_allocated prod.collapse)
  from ledger_exact_and_bounded [OF this, of Vram] u show ?thesis by simp
qed

text \<open>Releasing a reservation that was just granted restores the ledger exactly, up to the
  counter of reservation ids.\<close>

theorem allocate_release_roundtrip:
  assumes "mm_reachable m" and "mm_allocate tier n tag m = (Inr (Some a), m1)"
  shows "mm_release (ma_id a) m1 = (Inr True, m\<lparr>mm_nextId := mm_nextId m + 1\<rparr>)"
proof -
  have fresh: "mm_allocations m (mm_nextId m) = None"
    by (rule mm_ok_fresh [OF mm_reachable_ok [OF assms(1)]]) simp
  from assms(2) have "a = \<lparr> ma_id = mm_nextId m, ma_tier = tier, ma_sizeBytes = n, ma_tag = tag \<rparr>"
    and "m1 = setUsageFor tier (usedBytes (usageFor m tier) + n)
       (m\<lparr>mm_nextId := mm_nextId m + 1, mm_allocations := (mm_allocations m)(ma_id a \<mapsto> a)\<rparr>)"
    by (auto simp: mm_allocate_def Let_def split: if_splits)
  with fresh show ?thesis by (simp add: mm_release_def setUsageFor_def usageFor_def fun_upd_idem)
qed

text \<open>Every outcome of \<open>allocate\<close>: it refuses NVMe and empty requests with
  \<open>std::invalid_argument\<close>, returns nothing exactly when the request does not fit beside the
  reservations that are live, and otherwise grants it under an id never used before.\<close>

theorem allocate_outcomes:
  assumes "mm_reachable m" and "mm_allocate tier n tag m = (r, m')"
  shows "(\<exists>msg. r = Inl (InvalidArgument msg)) = (tier = Nvme \<or> n = 0) \<and>
    (r = Inr None) = (tier \<noteq> Nvme \<and> n \<noteq> 0 \<and>
       unat (limitBytes (usageFor m tier)) < reserved (mm_allocations m) (tier = Vram) + unat n) \<and>
    (\<forall>a. r = Inr (Some a) \<longrightarrow> mm_allocations m (ma_id a) = None \<and> ma_tier a = tier \<and> ma_sizeBytes a = n \<and>
       mm_allocations m' = (mm_allocations m)(ma_id a \<mapsto> a)) \<and>
    ((\<forall>a. r \<noteq> Inr (Some a)) \<longrightarrow> m' = m)"
proof -
  note ok = mm_reachable_ok [OF assms(1)]
  let ?u = "usageFor m tier"
  have "unat (availableBytes ?u) = unat (limitBytes ?u) - reserved (mm_allocations m) (tier = Vram)"
    unfolding availableBytes_def mm_ok_reserved [OF ok] by (rule unat_sub [OF mm_ok_usage [OF ok]])
  moreover have "reserved (mm_allocations m) (tier = Vram) \<le> unat (limitBytes ?u)"
    using mm_ok_usage [OF ok, of tier] by (simp add: mm_ok_reserved [OF ok] word_le_nat_alt)
  ultimately have full: "n > availableBytes ?u \<longleftrightarrow>
      unat (limitBytes ?u) < reserved (mm_allocations m) (tier = Vram) + unat n"
    by (auto simp: word_less_nat_alt)
  have "mm_allocations m (mm_nextId m) = None" by (rule mm_ok_fresh [OF ok]) simp
  with assms(2) full show ?thesis
    by (cases "tier = Nvme"; cases "n = 0"; cases "n > availableBytes ?u")
      (auto simp: mm_allocate_def Let_def setUsageFor_def)
qed

end
