(* ===== verification/Cache_Policy.thy ===== *)
theory Cache_Policy
  imports Expert_Types "HOL-Library.Product_Lexorder"
begin

text \<open>
  The eviction policies: the virtual class \<open>CachePolicy\<close>
  (\<^verbatim>\<open>include/hypermoe/experts/cache_policy.hpp\<close>) as a record of operations, and its three
  implementations \<open>LruCachePolicy\<close>, \<open>LFUPolicy\<close> and \<open>HybridPolicy\<close>. The locale \<open>victim_policy\<close> is
  what the expert manager needs of a policy: the victim is a candidate that is not excluded,
  there is one whenever some candidate is not excluded, and the choice does not depend on the
  order in which the candidates are listed (they come out of an \<open>unordered_map\<close>).
\<close>

record 'p policy_ops =
  onAccess :: "expert_id \<Rightarrow> 'p \<Rightarrow> 'p"
  onResident :: "expert_id \<Rightarrow> memory_tier \<Rightarrow> 'p \<Rightarrow> 'p"
  onEvict :: "expert_id \<Rightarrow> memory_tier \<Rightarrow> 'p \<Rightarrow> 'p"
  setLayerProbability :: "expert_id \<Rightarrow> real \<Rightarrow> 'p \<Rightarrow> 'p"
  setPrefetchConfidence :: "expert_id \<Rightarrow> real \<Rightarrow> 'p \<Rightarrow> 'p"
  policyScore :: "'p \<Rightarrow> expert_id \<Rightarrow> real option"
  selectVictim :: "'p \<Rightarrow> memory_tier \<Rightarrow> expert_id list \<Rightarrow> expert_id set \<Rightarrow> expert_id option"

subsection \<open>Least recently used\<close>

record lru_policy =
  lru_clock :: nat
  lru_lastAccess :: "expert_id \<rightharpoonup> nat"

definition lru_onAccess :: "expert_id \<Rightarrow> lru_policy \<Rightarrow> lru_policy" where
  "lru_onAccess i p =
     p\<lparr>lru_clock := lru_clock p + 1, lru_lastAccess := (lru_lastAccess p)(i \<mapsto> lru_clock p + 1)\<rparr>"

definition lru_onResident :: "expert_id \<Rightarrow> memory_tier \<Rightarrow> lru_policy \<Rightarrow> lru_policy" where
  "lru_onResident i t p = (if lru_lastAccess p i = None then lru_onAccess i p else p)"

definition lru_onEvict :: "expert_id \<Rightarrow> memory_tier \<Rightarrow> lru_policy \<Rightarrow> lru_policy" where
  "lru_onEvict i t p = p"

definition lru_stamp :: "lru_policy \<Rightarrow> expert_id \<Rightarrow> nat" where
  "lru_stamp p i = (case lru_lastAccess p i of None \<Rightarrow> 0 | Some s \<Rightarrow> s)"

definition lru_step :: "lru_policy \<Rightarrow> expert_id set \<Rightarrow> expert_id \<Rightarrow> expert_id option \<times> nat \<Rightarrow> expert_id option \<times> nat" where
  "lru_step p excluded i = (\<lambda>(victim, oldest).
     if i \<in> excluded then (victim, oldest)
     else let stamp = lru_stamp p i in
       if victim = None \<or> stamp < oldest \<or> (stamp = oldest \<and> i < the victim)
       then (Some i, stamp) else (victim, oldest))"

definition lru_selectVictim ::
  "lru_policy \<Rightarrow> memory_tier \<Rightarrow> expert_id list \<Rightarrow> expert_id set \<Rightarrow> expert_id option" where
  "lru_selectVictim p t candidates excluded =
     fst (fold (lru_step p excluded) candidates (None, 2 ^ 64 - 1))"

definition lru_new :: lru_policy where
  "lru_new = \<lparr> lru_clock = 0, lru_lastAccess = Map.empty \<rparr>"

text \<open>The two prediction hints and the diagnostic score are the base class's defaults.\<close>

definition lru_ops :: "lru_policy policy_ops" where
  "lru_ops = \<lparr> onAccess = lru_onAccess, onResident = lru_onResident, onEvict = lru_onEvict,
     setLayerProbability = (\<lambda>_ _ p. p), setPrefetchConfidence = (\<lambda>_ _ p. p),
     policyScore = (\<lambda>_ _. None), selectVictim = lru_selectVictim \<rparr>"

subsection \<open>Least frequently used\<close>

record lfu_policy =
  lfu_clock :: nat
  lfu_frequency :: "expert_id \<rightharpoonup> nat"
  lfu_lastAccess :: "expert_id \<rightharpoonup> nat"

definition map_or_zero :: "('k \<rightharpoonup> 'v::zero) \<Rightarrow> 'k \<Rightarrow> 'v" where
  "map_or_zero m k = (case m k of None \<Rightarrow> 0 | Some v \<Rightarrow> v)"

definition lfu_onAccess :: "expert_id \<Rightarrow> lfu_policy \<Rightarrow> lfu_policy" where
  "lfu_onAccess i p =
     p\<lparr>lfu_frequency := (lfu_frequency p)(i \<mapsto> map_or_zero (lfu_frequency p) i + 1),
       lfu_clock := lfu_clock p + 1,
       lfu_lastAccess := (lfu_lastAccess p)(i \<mapsto> lfu_clock p + 1)\<rparr>"

definition lfu_onResident :: "expert_id \<Rightarrow> memory_tier \<Rightarrow> lfu_policy \<Rightarrow> lfu_policy" where
  "lfu_onResident i t p =
     (let p1 = (if lfu_frequency p i = None then p\<lparr>lfu_frequency := (lfu_frequency p)(i \<mapsto> 0)\<rparr> else p)
      in if lfu_lastAccess p1 i = None
         then p1\<lparr>lfu_clock := lfu_clock p1 + 1, lfu_lastAccess := (lfu_lastAccess p1)(i \<mapsto> lfu_clock p1 + 1)\<rparr>
         else p1)"

definition lfu_onEvict :: "expert_id \<Rightarrow> memory_tier \<Rightarrow> lfu_policy \<Rightarrow> lfu_policy" where
  "lfu_onEvict i t p = p"

definition lfu_step ::
  "lfu_policy \<Rightarrow> expert_id set \<Rightarrow> expert_id \<Rightarrow> expert_id option \<times> nat \<times> nat \<Rightarrow> expert_id option \<times> nat \<times> nat" where
  "lfu_step p excluded i = (\<lambda>(victim, minimumFrequency, oldest).
     if i \<in> excluded then (victim, minimumFrequency, oldest)
     else let frequency = map_or_zero (lfu_frequency p) i;
              recency = map_or_zero (lfu_lastAccess p) i in
       if victim = None \<or> frequency < minimumFrequency \<or>
          (frequency = minimumFrequency \<and> recency < oldest) \<or>
          (frequency = minimumFrequency \<and> recency = oldest \<and> i < the victim)
       then (Some i, frequency, recency) else (victim, minimumFrequency, oldest))"

definition lfu_selectVictim ::
  "lfu_policy \<Rightarrow> memory_tier \<Rightarrow> expert_id list \<Rightarrow> expert_id set \<Rightarrow> expert_id option" where
  "lfu_selectVictim p t candidates excluded =
     fst (fold (lfu_step p excluded) candidates (None, 2 ^ 64 - 1, 2 ^ 64 - 1))"

definition lfu_new :: lfu_policy where
  "lfu_new = \<lparr> lfu_clock = 0, lfu_frequency = Map.empty, lfu_lastAccess = Map.empty \<rparr>"

definition lfu_ops :: "lfu_policy policy_ops" where
  "lfu_ops = \<lparr> onAccess = lfu_onAccess, onResident = lfu_onResident, onEvict = lfu_onEvict,
     setLayerProbability = (\<lambda>_ _ p. p), setPrefetchConfidence = (\<lambda>_ _ p. p),
     policyScore = (\<lambda>_ _. None), selectVictim = lfu_selectVictim \<rparr>"

subsection \<open>Hybrid score\<close>

record hybrid_policy =
  hy_clock :: nat
  hy_maximumFrequency :: nat
  hy_ageAware :: bool
  hy_observationWindow :: nat
  hy_decayedFrequency :: "expert_id \<rightharpoonup> real"
  hy_predictionUpdated :: "expert_id \<rightharpoonup> nat"
  hy_frequency :: "expert_id \<rightharpoonup> nat"
  hy_lastAccess :: "expert_id \<rightharpoonup> nat"
  hy_layerProbability :: "expert_id \<rightharpoonup> real"
  hy_prefetchConfidence :: "expert_id \<rightharpoonup> real"

definition hybrid_new :: "bool \<Rightarrow> nat \<Rightarrow> exn + hybrid_policy" where
  "hybrid_new ageAware window =
     (if window = 0
      then Inl (InvalidArgument ''hybrid residency observation window must be nonzero'')
      else Inr \<lparr> hy_clock = 0, hy_maximumFrequency = 0, hy_ageAware = ageAware,
                 hy_observationWindow = window, hy_decayedFrequency = Map.empty,
                 hy_predictionUpdated = Map.empty, hy_frequency = Map.empty,
                 hy_lastAccess = Map.empty, hy_layerProbability = Map.empty,
                 hy_prefetchConfidence = Map.empty \<rparr>)"

text \<open>\<open>std::exp2(-double(age) / double(window))\<close>\<close>

definition decay :: "nat \<Rightarrow> nat \<Rightarrow> real" where
  "decay window age = 2 powr (- (real age / real window))"

definition hybrid_onAccess :: "expert_id \<Rightarrow> hybrid_policy \<Rightarrow> hybrid_policy" where
  "hybrid_onAccess i p =
     (let p1 =
        (if hy_ageAware p then
           let age = (case hy_lastAccess p i of None \<Rightarrow> 0 | Some prev \<Rightarrow> hy_clock p + 1 - prev)
           in p\<lparr>hy_decayedFrequency := (hy_decayedFrequency p)
                  (i \<mapsto> map_or_zero (hy_decayedFrequency p) i * decay (hy_observationWindow p) age + 1)\<rparr>
         else p);
        val = map_or_zero (hy_frequency p1) i + 1
      in p1\<lparr>hy_frequency := (hy_frequency p1)(i \<mapsto> val),
            hy_maximumFrequency := max (hy_maximumFrequency p1) val,
            hy_clock := hy_clock p1 + 1,
            hy_lastAccess := (hy_lastAccess p1)(i \<mapsto> hy_clock p1 + 1)\<rparr>)"

definition hybrid_onResident :: "expert_id \<Rightarrow> memory_tier \<Rightarrow> hybrid_policy \<Rightarrow> hybrid_policy" where
  "hybrid_onResident i t p =
     (let p1 = (if hy_frequency p i = None then p\<lparr>hy_frequency := (hy_frequency p)(i \<mapsto> 0)\<rparr> else p)
      in if hy_lastAccess p1 i = None
         then p1\<lparr>hy_clock := hy_clock p1 + 1, hy_lastAccess := (hy_lastAccess p1)(i \<mapsto> hy_clock p1 + 1)\<rparr>
         else p1)"

definition hybrid_onEvict :: "expert_id \<Rightarrow> memory_tier \<Rightarrow> hybrid_policy \<Rightarrow> hybrid_policy" where
  "hybrid_onEvict i t p = p"

definition hybrid_setLayerProbability :: "expert_id \<Rightarrow> real \<Rightarrow> hybrid_policy \<Rightarrow> hybrid_policy" where
  "hybrid_setLayerProbability i probability p =
     p\<lparr>hy_layerProbability := (hy_layerProbability p)(i \<mapsto> clamp probability 0 1),
       hy_predictionUpdated := (hy_predictionUpdated p)(i \<mapsto> hy_clock p)\<rparr>"

definition hybrid_setPrefetchConfidence :: "expert_id \<Rightarrow> real \<Rightarrow> hybrid_policy \<Rightarrow> hybrid_policy" where
  "hybrid_setPrefetchConfidence i confidence p =
     p\<lparr>hy_prefetchConfidence := (hy_prefetchConfidence p)(i \<mapsto> clamp confidence 0 1),
       hy_predictionUpdated := (hy_predictionUpdated p)(i \<mapsto> hy_clock p)\<rparr>"

definition normalizedFrequency :: "hybrid_policy \<Rightarrow> expert_id \<Rightarrow> real" where
  "normalizedFrequency p i =
     (if hy_maximumFrequency p = 0 then 0
      else case hy_frequency p i of None \<Rightarrow> 0
        | Some f \<Rightarrow> real f / real (hy_maximumFrequency p))"

definition normalizedRecency :: "hybrid_policy \<Rightarrow> expert_id \<Rightarrow> real" where
  "normalizedRecency p i =
     (if hy_clock p = 0 then 0
      else case hy_lastAccess p i of None \<Rightarrow> 0 | Some s \<Rightarrow> real s / real (hy_clock p))"

definition hybrid_score :: "hybrid_policy \<Rightarrow> expert_id \<Rightarrow> real" where
  "hybrid_score p i =
     (if hy_ageAware p then
        let decayed = (\<lambda>updated. decay (hy_observationWindow p) (hy_clock p - updated));
            recency = (case hy_lastAccess p i of None \<Rightarrow> 0
              | Some s \<Rightarrow> if hy_decayedFrequency p i = None then 0 else decayed s);
            frequency = (case hy_decayedFrequency p i of None \<Rightarrow> 0 | Some c \<Rightarrow> c * recency);
            predictionDecay = (case hy_predictionUpdated p i of None \<Rightarrow> 0 | Some u \<Rightarrow> decayed u)
        in 0.4 * frequency / (frequency + 8) + 0.3 * recency +
           0.3 * map_or_zero (hy_layerProbability p) i *
             map_or_zero (hy_prefetchConfidence p) i * predictionDecay
      else 0.4 * normalizedFrequency p i + 0.3 * normalizedRecency p i +
           0.2 * map_or_zero (hy_layerProbability p) i +
           0.1 * map_or_zero (hy_prefetchConfidence p) i)"

text \<open>The first comparison is guarded by \<open>!victim\<close>, so the initial infinity is never compared;
  the model starts from 0.\<close>

definition hybrid_step ::
  "hybrid_policy \<Rightarrow> expert_id set \<Rightarrow> expert_id \<Rightarrow> expert_id option \<times> real \<Rightarrow> expert_id option \<times> real" where
  "hybrid_step p excluded i = (\<lambda>(victim, minimumScore).
     if i \<in> excluded then (victim, minimumScore)
     else let candidateScore = hybrid_score p i in
       if victim = None \<or> candidateScore < minimumScore \<or>
          (candidateScore = minimumScore \<and> i < the victim)
       then (Some i, candidateScore) else (victim, minimumScore))"

definition hybrid_selectVictim ::
  "hybrid_policy \<Rightarrow> memory_tier \<Rightarrow> expert_id list \<Rightarrow> expert_id set \<Rightarrow> expert_id option" where
  "hybrid_selectVictim p t candidates excluded =
     fst (fold (hybrid_step p excluded) candidates (None, 0))"

definition hybrid_ops :: "hybrid_policy policy_ops" where
  "hybrid_ops = \<lparr> onAccess = hybrid_onAccess, onResident = hybrid_onResident, onEvict = hybrid_onEvict,
     setLayerProbability = hybrid_setLayerProbability,
     setPrefetchConfidence = hybrid_setPrefetchConfidence,
     policyScore = (\<lambda>p i. Some (hybrid_score p i)), selectVictim = hybrid_selectVictim \<rparr>"

subsection \<open>A reference definition of the choice\<close>

text \<open>
  Candidates are ranked by a measure, ties by id. \<open>least_scan\<close> keeps the best one seen so far.
\<close>

definition before :: "(expert_id \<Rightarrow> 'k::linorder) \<Rightarrow> expert_id \<Rightarrow> expert_id \<Rightarrow> bool" where
  "before m i j \<longleftrightarrow> m i < m j \<or> (m i = m j \<and> i < j)"

definition least_scan ::
  "(expert_id \<Rightarrow> 'k::linorder) \<Rightarrow> expert_id set \<Rightarrow> expert_id \<Rightarrow> expert_id option \<Rightarrow> expert_id option" where
  "least_scan m excluded i v =
     (if i \<in> excluded then v
      else case v of None \<Rightarrow> Some i | Some w \<Rightarrow> if before m i w then Some i else v)"

definition least :: "(expert_id \<Rightarrow> 'k::linorder) \<Rightarrow> expert_id list \<Rightarrow> expert_id set \<Rightarrow> expert_id option" where
  "least m candidates excluded = fold (least_scan m excluded) candidates None"

lemma before_irrefl [simp]: "\<not> before m i i"
  by (simp add: before_def)

lemma before_trans: "before m i j \<Longrightarrow> before m j k \<Longrightarrow> before m i k"
  by (auto simp: before_def)

lemma before_total: "i \<noteq> j \<Longrightarrow> before m i j \<or> before m j i"
  by (auto simp: before_def)

lemma before_asym: "before m i j \<Longrightarrow> \<not> before m j i"
  by (auto simp: before_def)

definition is_least :: "(expert_id \<Rightarrow> 'k::linorder) \<Rightarrow> expert_id set \<Rightarrow> expert_id \<Rightarrow> bool" where
  "is_least m A v \<longleftrightarrow> v \<in> A \<and> (\<forall>j\<in>A. j \<noteq> v \<longrightarrow> before m v j)"

lemma is_least_unique: "is_least m A v \<Longrightarrow> is_least m A w \<Longrightarrow> v = w"
  unfolding is_least_def by (metis before_asym)

text \<open>What the scan has established about the set \<open>A\<close> of candidates seen so far.\<close>

definition scanned :: "(expert_id \<Rightarrow> 'k::linorder) \<Rightarrow> expert_id set \<Rightarrow> expert_id option \<Rightarrow> bool" where
  "scanned m A v \<longleftrightarrow> (v = None \<and> A = {}) \<or> (\<exists>w. v = Some w \<and> is_least m A w)"

lemma scanned_step:
  "scanned m A v \<Longrightarrow> scanned m (A \<union> ({c} - ex)) (least_scan m ex c v)"
  using before_total [of c]
  by (cases v) (auto simp: scanned_def least_scan_def is_least_def intro: before_trans)

lemma scanned_fold:
  "scanned m A v \<Longrightarrow> scanned m (A \<union> (set cs - ex)) (fold (least_scan m ex) cs v)"
proof (induction cs arbitrary: A v)
  case Nil
  then show ?case by simp
next
  case (Cons c cs)
  have "A \<union> ({c} - ex) \<union> (set cs - ex) = A \<union> (set (c # cs) - ex)" by auto
  with Cons.IH [OF scanned_step [OF Cons.prems, of c ex]] show ?case by simp
qed

lemma scanned_least: "scanned m (set cs - ex) (least m cs ex)"
  using scanned_fold [of m "{}" None cs ex] by (simp add: least_def scanned_def)

lemma least_Some: "least m cs ex = Some v \<Longrightarrow> is_least m (set cs - ex) v"
  using scanned_least [of m cs ex] by (simp add: scanned_def)

lemma least_None: "least m cs ex = None \<longleftrightarrow> set cs \<subseteq> ex"
  using scanned_least [of m cs ex] by (auto simp: scanned_def is_least_def)

lemma least_cong_set:
  assumes "set cs - ex = set cs' - ex'"
  shows "least m cs ex = least m cs' ex'"
proof (cases "least m cs ex")
  case None
  with assms show ?thesis by (metis Diff_eq_empty_iff least_None)
next
  case (Some v)
  then have "is_least m (set cs' - ex') v" using assms by (metis least_Some)
  moreover from this have "least m cs' ex' \<noteq> None" by (auto simp: least_None is_least_def)
  ultimately show ?thesis using Some by (metis is_least_unique least_Some not_None_eq)
qed

subsection \<open>Each policy's loop is that choice\<close>

text \<open>
  The loops carry the best candidate's measure next to it; as long as that second component is
  the measure of the first, a step is a step of the scan.
\<close>

lemma loop_is_least:
  assumes step: "\<And>c v n. (\<And>w. v = Some w \<Longrightarrow> n = m w) \<Longrightarrow>
      fst (st c (v, n)) = least_scan m ex c v \<and>
      (\<forall>w. fst (st c (v, n)) = Some w \<longrightarrow> snd (st c (v, n)) = m w)"
  shows "fst (fold st cs (None, n)) = least m cs ex"
proof -
  have "fst (fold st cs (v, n)) = fold (least_scan m ex) cs v"
    if "\<And>w. v = Some w \<Longrightarrow> n = m w" for v n
    using that
  proof (induction cs arbitrary: v n)
    case Nil
    then show ?case by simp
  next
    case (Cons c cs)
    obtain v' n' where s: "st c (v, n) = (v', n')" by fastforce
    from step [of v n c] Cons.prems s
    have v': "v' = least_scan m ex c v" and n': "\<And>w. v' = Some w \<Longrightarrow> n' = m w" by auto
    with Cons.IH [of v' n'] s show ?case by simp
  qed
  from this [of None n] show ?thesis by (simp add: least_def)
qed

lemma lru_selectVictim_least: "lru_selectVictim p t cs ex = least (lru_stamp p) cs ex"
  unfolding lru_selectVictim_def
  by (rule loop_is_least)
    (auto simp: lru_step_def least_scan_def before_def Let_def split: option.splits)

definition lfu_measure :: "lfu_policy \<Rightarrow> expert_id \<Rightarrow> nat \<times> nat" where
  "lfu_measure p i = (map_or_zero (lfu_frequency p) i, map_or_zero (lfu_lastAccess p) i)"

lemma lfu_selectVictim_least: "lfu_selectVictim p t cs ex = least (lfu_measure p) cs ex"
  unfolding lfu_selectVictim_def
  by (rule loop_is_least)
    (auto simp: lfu_step_def least_scan_def before_def Let_def lfu_measure_def split: option.splits)

lemma hybrid_selectVictim_least: "hybrid_selectVictim p t cs ex = least (hybrid_score p) cs ex"
  unfolding hybrid_selectVictim_def
  by (rule loop_is_least)
    (auto simp: hybrid_step_def least_scan_def before_def Let_def split: option.splits)

subsection \<open>The contract of a policy\<close>

locale victim_policy =
  fixes ops :: "'p policy_ops"
  assumes victim_sound: "selectVictim ops p t cs ex = Some v \<Longrightarrow> v \<in> set cs \<and> v \<notin> ex"
    and victim_complete: "selectVictim ops p t cs ex = None \<Longrightarrow> set cs \<subseteq> ex"
    and victim_order: "set cs = set cs' \<Longrightarrow> selectVictim ops p t cs ex = selectVictim ops p t cs' ex"
begin

lemma victim_None_iff: "selectVictim ops p t cs ex = None \<longleftrightarrow> set cs \<subseteq> ex"
  using victim_complete [of p t cs ex] victim_sound [of p t cs ex]
  by (cases "selectVictim ops p t cs ex") auto

lemma victim_ex: "c \<in> set cs \<Longrightarrow> c \<notin> ex \<Longrightarrow> \<exists>v. selectVictim ops p t cs ex = Some v"
  using victim_complete [of p t cs ex] by (cases "selectVictim ops p t cs ex") auto

end

lemma victim_policyI:
  assumes eq: "\<And>p t cs ex. selectVictim ops p t cs ex = least (m p) cs ex"
  shows "victim_policy ops"
proof
  fix p t cs ex v
  assume "selectVictim ops p t cs ex = Some v"
  then have "is_least (m p) (set cs - ex) v" unfolding eq by (rule least_Some)
  then show "v \<in> set cs \<and> v \<notin> ex" by (simp add: is_least_def)
next
  fix p t cs ex
  assume "selectVictim ops p t cs ex = None"
  then show "set cs \<subseteq> ex" unfolding eq by (rule least_None [THEN iffD1])
next
  fix p t and cs cs' :: "expert_id list" and ex
  assume "set cs = set cs'"
  then have "set cs - ex = set cs' - ex" by simp
  then show "selectVictim ops p t cs ex = selectVictim ops p t cs' ex"
    unfolding eq by (rule least_cong_set)
qed

interpretation lru: victim_policy lru_ops
  by (rule victim_policyI) (simp add: lru_ops_def lru_selectVictim_least)

interpretation lfu: victim_policy lfu_ops
  by (rule victim_policyI) (simp add: lfu_ops_def lfu_selectVictim_least)

interpretation hybrid: victim_policy hybrid_ops
  by (rule victim_policyI) (simp add: hybrid_ops_def hybrid_selectVictim_least)

subsection \<open>The policies against an access history\<close>

text \<open>The 1-based position of the last access to an expert in a history, 0 if there is none.\<close>

fun last_use :: "expert_id list \<Rightarrow> expert_id \<Rightarrow> nat" where
  "last_use [] i = 0"
| "last_use (x # h) i = (if last_use h i \<noteq> 0 then last_use h i + 1 else if x = i then 1 else 0)"

lemma last_use_snoc: "last_use (h @ [x]) i = (if x = i then length h + 1 else last_use h i)"
  by (induction h) auto

lemma lru_history:
  "lru_clock (fold lru_onAccess h lru_new) = length h \<and> lru_stamp (fold lru_onAccess h lru_new) = last_use h"
  by (induction h rule: rev_induct)
    (auto simp: lru_new_def lru_stamp_def lru_onAccess_def last_use_snoc fun_eq_iff)

lemma lfu_history:
  "lfu_clock (fold lfu_onAccess h lfu_new) = length h \<and>
   lfu_measure (fold lfu_onAccess h lfu_new) = (\<lambda>i. (count_list h i, last_use h i))"
  by (induction h rule: rev_induct)
    (auto simp: lfu_new_def lfu_measure_def lfu_onAccess_def map_or_zero_def last_use_snoc fun_eq_iff)

lemma least_before: "least m cs ex = Some v \<Longrightarrow> c \<in> set cs \<Longrightarrow> c \<notin> ex \<Longrightarrow> c \<noteq> v \<Longrightarrow> before m v c"
  by (drule least_Some) (simp add: is_least_def)

text \<open>After any history of accesses the LRU policy evicts, among the candidates that are not
  pinned, one that was accessed no later than every other, the lowest id among the never
  accessed.\<close>

theorem lru_evicts_least_recent:
  assumes "lru_selectVictim (fold lru_onAccess h lru_new) tier candidates pinned = Some v"
  shows "v \<in> set candidates - pinned \<and>
    (\<forall>c \<in> set candidates - pinned. c \<noteq> v \<longrightarrow>
       last_use h v < last_use h c \<or> (last_use h v = last_use h c \<and> v < c))"
  using assms least_Some [of "last_use h" candidates pinned v]
  by (simp add: lru_selectVictim_least lru_history is_least_def before_def)

text \<open>After any history of accesses the LFU policy evicts, among the candidates that are not
  pinned, one with the fewest accesses, and among those the one accessed longest ago.\<close>

theorem lfu_evicts_least_frequent:
  assumes "lfu_selectVictim (fold lfu_onAccess h lfu_new) tier candidates pinned = Some v"
  shows "v \<in> set candidates - pinned \<and>
    (\<forall>c \<in> set candidates - pinned. c \<noteq> v \<longrightarrow>
       count_list h v < count_list h c \<or>
       (count_list h v = count_list h c \<and>
          (last_use h v < last_use h c \<or> (last_use h v = last_use h c \<and> v < c))))"
  using assms least_Some [of "\<lambda>i. (count_list h i, last_use h i)" candidates pinned v]
  by (auto simp: lfu_selectVictim_least lfu_history is_least_def before_def less_prod_def')

subsection \<open>The hybrid score\<close>

definition unit_map :: "(expert_id \<rightharpoonup> real) \<Rightarrow> bool" where
  "unit_map m \<longleftrightarrow> (\<forall>i x. m i = Some x \<longrightarrow> 0 \<le> x \<and> x \<le> 1)"

definition hy_ok :: "hybrid_policy \<Rightarrow> bool" where
  "hy_ok p \<longleftrightarrow>
     0 < hy_observationWindow p \<and>
     (\<forall>i f. hy_frequency p i = Some f \<longrightarrow> f \<le> hy_maximumFrequency p) \<and>
     (\<forall>i s. hy_lastAccess p i = Some s \<longrightarrow> s \<le> hy_clock p) \<and>
     (\<forall>i c. hy_decayedFrequency p i = Some c \<longrightarrow> 0 \<le> c) \<and>
     unit_map (hy_layerProbability p) \<and> unit_map (hy_prefetchConfidence p)"

inductive hybrid_reachable :: "hybrid_policy \<Rightarrow> bool" where
  "hybrid_new ageAware window = Inr p \<Longrightarrow> hybrid_reachable p"
| "hybrid_reachable p \<Longrightarrow> hybrid_reachable (hybrid_onAccess i p)"
| "hybrid_reachable p \<Longrightarrow> hybrid_reachable (hybrid_onResident i t p)"
| "hybrid_reachable p \<Longrightarrow> hybrid_reachable (hybrid_onEvict i t p)"
| "hybrid_reachable p \<Longrightarrow> hybrid_reachable (hybrid_setLayerProbability i x p)"
| "hybrid_reachable p \<Longrightarrow> hybrid_reachable (hybrid_setPrefetchConfidence i x p)"

lemma decay_bounds: "0 \<le> decay w a \<and> decay w a \<le> 1"
proof -
  have "2 powr (- (real a / real w)) \<le> 2 powr 0" by (rule powr_mono) simp_all
  then show ?thesis by (simp add: decay_def)
qed

lemma unit_map_update: "unit_map m \<Longrightarrow> unit_map (m(i \<mapsto> clamp x 0 1))"
  using clamp_bounds [of 0 1 x] by (auto simp: unit_map_def)

lemma hybrid_reachable_ok: "hybrid_reachable p \<Longrightarrow> hy_ok p"
proof (induction rule: hybrid_reachable.induct)
  case (1 ageAware window p)
  then show ?case by (auto simp: hybrid_new_def hy_ok_def unit_map_def split: if_splits)
next
  case (2 p i)
  have d: "0 \<le> map_or_zero (hy_decayedFrequency p) i"
    using 2 by (auto simp: hy_ok_def map_or_zero_def split: option.split)
  have "0 \<le> map_or_zero (hy_decayedFrequency p) i * decay (hy_observationWindow p) a + 1" for a
    using mult_nonneg_nonneg [OF d, of "decay (hy_observationWindow p) a"] decay_bounds by simp
  with 2 show ?case by (auto simp: hybrid_onAccess_def hy_ok_def Let_def le_SucI intro: max.coboundedI1)
next
  case (3 p i t)
  then show ?case by (auto simp: hybrid_onResident_def hy_ok_def Let_def le_SucI)
next
  case (4 p i t)
  then show ?case by (simp add: hybrid_onEvict_def)
next
  case (5 p i x)
  then show ?case by (auto simp: hybrid_setLayerProbability_def hy_ok_def unit_map_update)
next
  case (6 p i x)
  then show ?case by (auto simp: hybrid_setPrefetchConfidence_def hy_ok_def unit_map_update)
qed

lemma map_or_zero_unit: "unit_map m \<Longrightarrow> 0 \<le> map_or_zero m i \<and> map_or_zero m i \<le> 1"
  by (auto simp: unit_map_def map_or_zero_def split: option.split)

lemma saturating_frequency: "0 \<le> f \<Longrightarrow> 0 \<le> 0.4 * f / (f + 8) \<and> 0.4 * f / (f + 8) \<le> (0.4 :: real)"
  by (simp add: field_simps)

lemma age_aware_score:
  assumes ok: "hy_ok p" and age: "hy_ageAware p"
  shows "0 \<le> hybrid_score p i \<and> hybrid_score p i \<le> 1"
proof -
  let ?d = "\<lambda>u. decay (hy_observationWindow p) (hy_clock p - u)"
  define rc where "rc = (case hy_lastAccess p i of None \<Rightarrow> 0
      | Some s \<Rightarrow> if hy_decayedFrequency p i = None then 0 else ?d s)"
  define fr where "fr = (case hy_decayedFrequency p i of None \<Rightarrow> 0 | Some c \<Rightarrow> c * rc)"
  define pd where "pd = (case hy_predictionUpdated p i of None \<Rightarrow> 0 | Some u \<Rightarrow> ?d u)"
  define lp where "lp = map_or_zero (hy_layerProbability p) i"
  define pc where "pc = map_or_zero (hy_prefetchConfidence p) i"
  have rc: "0 \<le> rc" "rc \<le> 1" using decay_bounds by (auto simp: rc_def split: option.split)
  have pd: "0 \<le> pd" "pd \<le> 1" using decay_bounds by (auto simp: pd_def split: option.split)
  have "0 \<le> lp" "lp \<le> 1" "0 \<le> pc" "pc \<le> 1"
    using ok map_or_zero_unit by (auto simp: lp_def pc_def hy_ok_def)
  with pd have pr: "0 \<le> lp * pc * pd" "lp * pc * pd \<le> 1" by (auto intro!: mult_le_one)
  have "0 \<le> fr" using ok rc(1) by (auto simp: fr_def hy_ok_def split: option.split)
  note f = saturating_frequency [OF this]
  have "hybrid_score p i = 0.4 * fr / (fr + 8) + 0.3 * rc + 0.3 * (lp * pc * pd)"
    using age by (simp add: hybrid_score_def Let_def rc_def fr_def pd_def lp_def pc_def cong: option.case_cong)
  with f rc pr show ?thesis by linarith
qed

lemma plain_score:
  assumes ok: "hy_ok p" and age: "\<not> hy_ageAware p"
  shows "0 \<le> hybrid_score p i \<and> hybrid_score p i \<le> 1"
proof -
  have nf: "0 \<le> normalizedFrequency p i \<and> normalizedFrequency p i \<le> 1"
    using ok by (auto simp: normalizedFrequency_def hy_ok_def split: option.split)
  have nr: "0 \<le> normalizedRecency p i \<and> normalizedRecency p i \<le> 1"
    using ok by (auto simp: normalizedRecency_def hy_ok_def split: option.split)
  have "0 \<le> map_or_zero (hy_layerProbability p) i \<and> map_or_zero (hy_layerProbability p) i \<le> 1"
    "0 \<le> map_or_zero (hy_prefetchConfidence p) i \<and> map_or_zero (hy_prefetchConfidence p) i \<le> 1"
    using ok map_or_zero_unit by (auto simp: hy_ok_def)
  moreover have "hybrid_score p i = 0.4 * normalizedFrequency p i + 0.3 * normalizedRecency p i +
      0.2 * map_or_zero (hy_layerProbability p) i + 0.1 * map_or_zero (hy_prefetchConfidence p) i"
    using age by (simp add: hybrid_score_def)
  ultimately show ?thesis using nf nr by linarith
qed

text \<open>In every state the hybrid policy can reach, age-aware or not, its score of every expert
  lies between 0 and 1, the range that the residency threshold 0.60 assumes.\<close>

theorem hybrid_score_in_unit:
  assumes "hybrid_reachable p"
  shows "0 \<le> hybrid_score p i \<and> hybrid_score p i \<le> 1"
  using age_aware_score plain_score hybrid_reachable_ok [OF assms] by blast

end
