(* ===== verification/Buffers.thy ===== *)
theory Buffers
  imports Expert_Types
begin

text \<open>
  The buffers that pass between the components, and the plain structs of the storage and
  transfer headers. A \<open>std::shared_ptr\<close> to a buffer is the buffer with a reference number: two
  pointers are equal when the numbers are, and a null pointer is \<open>None\<close>. Buffers are never
  mutated once they are shared, so the contents travel with the reference. Measured durations
  and bandwidths of a transfer are left out.
\<close>

type_synonym byte = u8

record host_buffer =
  hb_ref :: nat
  hb_bytes :: "byte list"

definition hb_size :: "host_buffer \<Rightarrow> u64" where
  "hb_size b = of_nat (length (hb_bytes b))"

datatype backend_kind = Cpu | Cuda

text \<open>What the callers read of a \<open>ComputeBackend\<close>; \<open>be_ref\<close> is its identity.\<close>

record compute_backend =
  be_ref :: nat
  be_kind :: backend_kind
  be_ordinal :: int
  be_available :: bool
  be_supportsPinned :: bool

text \<open>\<open>DeviceBuffer\<close>: \<open>db_live\<close> is \<open>data_ != nullptr\<close>.\<close>

record device_buffer =
  db_ref :: nat
  db_bytes :: "byte list"
  db_live :: bool
  db_backend :: "compute_backend option"

definition db_size :: "device_buffer \<Rightarrow> u64" where
  "db_size b = of_nat (length (db_bytes b))"

record pinned_buffer =
  pb_ref :: nat
  pb_bytes :: "byte list"
  pb_pinned :: bool

definition pb_size :: "pinned_buffer \<Rightarrow> u64" where
  "pb_size b = of_nat (length (pb_bytes b))"

text \<open>\<open>storage::ExpertRecord\<close>\<close>

record expert_record =
  er_layer_id :: u32
  er_expert_id :: u32
  er_offset :: u64
  er_size :: u64
  er_quantization_type :: u32
  er_checksum :: u32

definition expert_record_default :: expert_record where
  "expert_record_default = \<lparr> er_layer_id = 0, er_expert_id = 0, er_offset = 0, er_size = 0,
     er_quantization_type = 0, er_checksum = 0 \<rparr>"

text \<open>\<open>TransferRequest\<close> with the default member initialisers (the completion callback is left
  to the caller), \<open>TransferStatus\<close> and \<open>TransferResult\<close>.\<close>

record transfer_request =
  tr_layerId :: u32
  tr_expertId :: u32
  tr_destination :: memory_tier
  tr_priority :: int
  tr_source :: memory_tier
  tr_hostBuffer :: "host_buffer option"
  tr_sourcePinnedBuffer :: "pinned_buffer option"
  tr_sourceDeviceBuffer :: "device_buffer option"

definition transfer_request_default :: transfer_request where
  "transfer_request_default = \<lparr> tr_layerId = 0, tr_expertId = 0, tr_destination = Vram,
     tr_priority = 0, tr_source = Nvme, tr_hostBuffer = None, tr_sourcePinnedBuffer = None,
     tr_sourceDeviceBuffer = None \<rparr>"

datatype transfer_status = Completed | Cancelled

record transfer_result =
  ts_status :: transfer_status
  ts_record :: expert_record
  ts_buffer :: "host_buffer option"
  ts_pinnedBuffer :: "pinned_buffer option"
  ts_deviceBuffer :: "device_buffer option"
  ts_source :: memory_tier
  ts_destination :: memory_tier
  ts_usedPinnedMemory :: bool
  ts_nvmeBytes :: u64
  ts_ramToVramBytes :: u64
  ts_completionOrder :: nat
  ts_cudaTransfer :: bool

definition transfer_result_default :: transfer_result where
  "transfer_result_default = \<lparr> ts_status = Cancelled, ts_record = expert_record_default,
     ts_buffer = None, ts_pinnedBuffer = None, ts_deviceBuffer = None, ts_source = Nvme,
     ts_destination = Ram, ts_usedPinnedMemory = False, ts_nvmeBytes = 0, ts_ramToVramBytes = 0,
     ts_completionOrder = 0, ts_cudaTransfer = False \<rparr>"

end
