(* ===== verification/Expert_Manager.thy ===== *)
theory Expert_Manager
  imports Memory_Manager Cache_Policy Buffers
begin

text \<open>
  \<^verbatim>\<open>src/experts/expert_manager/expert_manager.cpp\<close>: the definitions. The state of the manager
  holds the reservation ledger it shares, the state of its cache policy, the state of the
  transfer service and its own tables. Every public member function runs under one mutex and is
  one program; dropping a lease, which takes no lock, is an operation of its own.

  The policy is called through its table of operations, the transfer service through one
  function, \<open>submit(request).future().get()\<close>, that may be absent (the two constructors). Both
  are arguments, in \<open>manager_env\<close>.

  \<open>moveExpertLocked\<close> and \<open>makeRoomLocked\<close> call each other, and the second holds a loop whose end
  depends on the policy; they carry fuel, and \<open>em_fuel\<close>, which grows with the number of
  registered experts, is shown to be enough for every policy that keeps its contract.
\<close>

record managed_expert =
  me_metadata :: expert
  me_policyId :: expert_id
  me_allocation :: "memory_allocation option"
  me_weights :: "host_buffer option"
  me_deviceWeights :: "device_buffer option"
  me_residencyLeases :: nat
  me_usageCount :: nat
  me_lastUsed :: nat
  me_predictionProbability :: real
  me_prefetchConfidence :: real

record manager_stats =
  st_requests :: nat
  st_vramHits :: nat
  st_ramHits :: nat
  st_nvmeLoads :: nat
  st_vramEvictions :: nat
  st_ramEvictions :: nat
  st_nvmeBytesRead :: u64
  st_simulatedLoadingLatencyMs :: real
  st_vramPromotions :: nat

record ('p, 't) expert_manager =
  em_memory :: memory_manager
  em_policy :: 'p
  em_transfers :: 't
  em_experts :: "(expert_key \<times> managed_expert) list"
  em_policyExperts :: "expert_id \<rightharpoonup> expert_key"
  em_legacyExperts :: "expert_id \<rightharpoonup> expert_key list"
  em_nextPolicyId :: nat
  em_accessClock :: nat
  em_stats :: manager_stats
  em_nextBuffer :: nat

text \<open>\<open>em_nextBuffer\<close> numbers the buffers that \<open>std::make_shared\<close> creates inside the manager.\<close>

record ('p, 't) manager_env =
  env_policy :: "'p policy_ops"
  env_transfers :: "(transfer_request \<Rightarrow> ('t, transfer_result) prog) option"

type_synonym ('p, 't, 'a) emp = "(('p, 't) expert_manager, 'a) prog"

definition em_new :: "memory_manager \<Rightarrow> 'p option \<Rightarrow> 't \<Rightarrow> exn + ('p, 't) expert_manager" where
  "em_new memory policy transfers =
     (case policy of
        None \<Rightarrow> Inl (InvalidArgument ''ExpertManager requires a cache policy'')
      | Some p \<Rightarrow> Inr \<lparr> em_memory = memory, em_policy = p, em_transfers = transfers, em_experts = [],
          em_policyExperts = Map.empty, em_legacyExperts = Map.empty, em_nextPolicyId = 0,
          em_accessClock = 0,
          em_stats = \<lparr> st_requests = 0, st_vramHits = 0, st_ramHits = 0, st_nvmeLoads = 0,
            st_vramEvictions = 0, st_ramEvictions = 0, st_nvmeBytesRead = 0,
            st_simulatedLoadingLatencyMs = 0, st_vramPromotions = 0 \<rparr>,
          em_nextBuffer = 0 \<rparr>)"

subsection \<open>Access to the parts\<close>

definition em_find :: "('p, 't) expert_manager \<Rightarrow> expert_key \<Rightarrow> managed_expert option" where
  "em_find s k = map_of (em_experts s) k"

definition on_memory :: "(memory_manager, 'a) prog \<Rightarrow> ('p, 't, 'a) emp" where
  [prog_defs]: "on_memory = zoom em_memory (\<lambda>m s. s\<lparr>em_memory := m\<rparr>)"

definition on_transfers :: "('t, 'a) prog \<Rightarrow> ('p, 't, 'a) emp" where
  [prog_defs]: "on_transfers = zoom em_transfers (\<lambda>t s. s\<lparr>em_transfers := t\<rparr>)"

definition em_policy_upd :: "('p \<Rightarrow> 'p) \<Rightarrow> ('p, 't) expert_manager \<Rightarrow> ('p, 't) expert_manager" where
  "em_policy_upd f s = s\<lparr>em_policy := f (em_policy s)\<rparr>"

definition em_stats_upd :: "(manager_stats \<Rightarrow> manager_stats) \<Rightarrow> ('p, 't) expert_manager \<Rightarrow> ('p, 't) expert_manager" where
  "em_stats_upd f s = s\<lparr>em_stats := f (em_stats s)\<rparr>"

text \<open>Assignment through the reference \<open>auto& managed\<close>.\<close>

definition em_set :: "expert_key \<Rightarrow> (managed_expert \<Rightarrow> managed_expert) \<Rightarrow>
    ('p, 't) expert_manager \<Rightarrow> ('p, 't) expert_manager" where
  "em_set k f s =
     (case em_find s k of None \<Rightarrow> s
      | Some m \<Rightarrow> s\<lparr>em_experts := AList.update k (f m) (em_experts s)\<rparr>)"

definition requireExpertLocked :: "layer_id \<Rightarrow> expert_id \<Rightarrow> ('p, 't, managed_expert) emp" where
  "requireExpertLocked l i = (\<lambda>s.
     case em_find s (key l i) of
       None \<Rightarrow> (Inl (OutOfRange ''unknown expert id''), s)
     | Some m \<Rightarrow> (Inr m, s))"

definition em_usage :: "memory_tier \<Rightarrow> ('p, 't, tier_usage) emp" where
  "em_usage tier = (\<lambda>s. (mm_usage (em_memory s) tier, s))"

definition candidatesLocked :: "memory_tier \<Rightarrow> ('p, 't) expert_manager \<Rightarrow> expert_id list" where
  "candidatesLocked tier s =
     map (\<lambda>(k, e). me_policyId e)
       (filter (\<lambda>(k, e). exp_location (me_metadata e) = tier \<and> me_residencyLeases e = 0) (em_experts s))"

definition resolveLegacyLayer :: "expert_id \<Rightarrow> ('p, 't, layer_id) emp" where
  "resolveLegacyLayer i = (\<lambda>s.
     case em_legacyExperts s i of
       None \<Rightarrow> (Inl (OutOfRange ''unknown expert id''), s)
     | Some ks \<Rightarrow>
         (case ks of
            [] \<Rightarrow> (Inl (OutOfRange ''unknown expert id''), s)
          | [k] \<Rightarrow> (case em_find s k of
                None \<Rightarrow> (Inl (OutOfRange ''unordered_map::at''), s)
              | Some m \<Rightarrow> (Inr (exp_layer (me_metadata m)), s))
          | _ \<Rightarrow> (Inl (LogicError ''expert id is ambiguous across layers; use the layer-aware API''), s)))"

definition recordAccess :: "('p, 't) manager_env \<Rightarrow> expert_key \<Rightarrow> ('p, 't) expert_manager \<Rightarrow> ('p, 't) expert_manager" where
  "recordAccess env k s =
     (case em_find s k of None \<Rightarrow> s
      | Some m \<Rightarrow>
          em_policy_upd (onAccess (env_policy env) (me_policyId m))
            (em_set k (\<lambda>m. m\<lparr>me_usageCount := me_usageCount m + 1, me_lastUsed := em_accessClock s + 1\<rparr>)
              (s\<lparr>em_accessClock := em_accessClock s + 1\<rparr>)))"

subsection \<open>Moving an expert between tiers\<close>

definition allocation_tag :: "layer_id \<Rightarrow> expert_id \<Rightarrow> string" where
  "allocation_tag l i = ''expert:'' @ to_string (unat l) @ '':'' @ to_string (unat i)"

definition reserve :: "memory_tier \<Rightarrow> u64 \<Rightarrow> layer_id \<Rightarrow> expert_id \<Rightarrow> string \<Rightarrow>
    ('p, 't, memory_allocation) emp" where
  "reserve tier sizeBytes l i message =
     bindp (on_memory (mm_allocate tier sizeBytes (allocation_tag l i)))
       (\<lambda>a. case a of None \<Rightarrow> raise (RuntimeError message) | Some alloc \<Rightarrow> ret alloc)"

text \<open>\<open>!managed.allocation || memory_.release(managed.allocation->id)\<close>\<close>

definition releaseHeld :: "managed_expert \<Rightarrow> ('p, 't, bool) emp" where
  "releaseHeld managed =
     (case me_allocation managed of None \<Rightarrow> ret True
      | Some a \<Rightarrow> on_memory (mm_release (ma_id a)))"

text \<open>Lines 659--691: a load from NVMe into RAM through the transfer service. The reservation is
  given back on the paths that say so; an exception thrown by the transfer itself passes
  through without doing so.\<close>

definition loadDirect :: "('p, 't) manager_env \<Rightarrow> (transfer_request \<Rightarrow> ('t, transfer_result) prog) \<Rightarrow>
    layer_id \<Rightarrow> expert_id \<Rightarrow> ('p, 't, unit) emp" where
  "loadDirect env submit l i =
     bindp (requireExpertLocked l i) (\<lambda>managed.
     bindp (reserve Ram (exp_sizeBytes (me_metadata managed)) l i ''memory reservation failed after eviction'')
       (\<lambda>allocation.
     bindp (on_transfers (submit (transfer_request_default
              \<lparr>tr_layerId := exp_layer (me_metadata managed), tr_expertId := i, tr_destination := Ram\<rparr>)))
       (\<lambda>loaded.
     if ts_status loaded \<noteq> Completed \<or> ts_buffer loaded = None then
       thenp (on_memory (mm_release (ma_id allocation)))
         (raise (RuntimeError ''expert disk transfer was cancelled''))
     else if hb_size (the (ts_buffer loaded)) \<noteq> exp_sizeBytes (me_metadata managed) then
       thenp (on_memory (mm_release (ma_id allocation)))
         (raise (RuntimeError ''expert index size does not match registered metadata''))
     else bindp (releaseHeld managed) (\<lambda>released.
       if \<not> released then
         thenp (on_memory (mm_release (ma_id allocation)))
           (raise (LogicError ''expert owns an unknown source allocation''))
       else
         modify (\<lambda>s. em_policy_upd (onResident (env_policy env) (me_policyId managed) Ram)
           (em_set (key l i) (\<lambda>m. m\<lparr>me_allocation := Some allocation, me_weights := ts_buffer loaded,
              me_deviceWeights := None,
              me_metadata := (me_metadata m)\<lparr>exp_location := Ram\<rparr>\<rparr>) s))))))"

text \<open>Lines 693--708: eviction to NVMe drops the reservation and the buffers.\<close>

definition bumpEvictions :: "memory_tier \<Rightarrow> manager_stats \<Rightarrow> manager_stats" where
  "bumpEvictions source st =
     (if source = Vram then st\<lparr>st_vramEvictions := st_vramEvictions st + 1\<rparr>
      else if source = Ram then st\<lparr>st_ramEvictions := st_ramEvictions st + 1\<rparr> else st)"

definition dropToNvme :: "('p, 't) manager_env \<Rightarrow> expert_key \<Rightarrow> managed_expert \<Rightarrow> ('p, 't, unit) emp" where
  "dropToNvme env k managed =
     bindp (releaseHeld managed) (\<lambda>released.
       if \<not> released then raise (LogicError ''expert owns an unknown memory allocation'')
       else
         let source = exp_location (me_metadata managed) in
         modify (\<lambda>s. em_set k (\<lambda>m. m\<lparr>me_allocation := None, me_weights := None, me_deviceWeights := None,
                      me_metadata := (me_metadata m)\<lparr>exp_location := Nvme\<rparr>\<rparr>)
           (em_policy_upd (onEvict (env_policy env) (me_policyId managed) source)
             (em_stats_upd (bumpEvictions source) s))))"

text \<open>\<open>std::make_shared<const std::vector<std::byte>>(*managed.weights)\<close>\<close>

definition copyWeights :: "host_buffer \<Rightarrow> ('p, 't, host_buffer) emp" where
  "copyWeights b = (\<lambda>s. (Inr \<lparr> hb_ref = em_nextBuffer s, hb_bytes = hb_bytes b \<rparr>,
                          s\<lparr>em_nextBuffer := em_nextBuffer s + 1\<rparr>))"

text \<open>Lines 718--768: the weights the expert will own at its destination.\<close>

definition destinationBuffers :: "('p, 't) manager_env \<Rightarrow> expert_id \<Rightarrow> memory_tier \<Rightarrow> memory_tier \<Rightarrow>
    managed_expert \<Rightarrow> ('p, 't, host_buffer option \<times> device_buffer option) emp" where
  "destinationBuffers env i source destination managed =
     (let request = transfer_request_default\<lparr>tr_layerId := exp_layer (me_metadata managed), tr_expertId := i\<rparr>;
          keep = (if source \<noteq> Nvme \<and> me_weights managed \<noteq> None
                  then bindp (copyWeights (the (me_weights managed)))
                         (\<lambda>c. ret (Some c, me_deviceWeights managed))
                  else ret (me_weights managed, me_deviceWeights managed))
      in case env_transfers env of
        None \<Rightarrow> keep
      | Some submit \<Rightarrow>
          if source = Nvme then
            bindp (on_transfers (submit (request\<lparr>tr_destination := Ram\<rparr>))) (\<lambda>loaded.
              if ts_status loaded \<noteq> Completed \<or> ts_buffer loaded = None
              then raise (RuntimeError ''expert disk transfer was cancelled'')
              else if hb_size (the (ts_buffer loaded)) \<noteq> exp_sizeBytes (me_metadata managed)
              then raise (RuntimeError ''expert index size does not match registered metadata'')
              else ret (ts_buffer loaded, None))
          else if source = Ram \<and> destination = Vram then
            bindp (on_transfers (submit (request\<lparr>tr_source := Ram, tr_destination := Vram,
                     tr_hostBuffer := me_weights managed\<rparr>))) (\<lambda>transferred.
              if ts_status transferred \<noteq> Completed \<or> ts_deviceBuffer transferred = None
              then raise (RuntimeError ''expert device transfer was cancelled'')
              else ret (None, ts_deviceBuffer transferred))
          else if source = Vram \<and> destination = Ram then
            bindp (on_transfers (submit (request\<lparr>tr_source := Vram, tr_destination := Ram,
                     tr_sourceDeviceBuffer := me_deviceWeights managed\<rparr>))) (\<lambda>transferred.
              if ts_status transferred \<noteq> Completed \<or> ts_buffer transferred = None
              then raise (RuntimeError ''expert device download was cancelled'')
              else ret (ts_buffer transferred, None))
          else keep)"

text \<open>Lines 779--790: the move is committed.\<close>

definition commitMove :: "('p, 't) manager_env \<Rightarrow> expert_key \<Rightarrow> memory_tier \<Rightarrow> memory_tier \<Rightarrow>
    expert_id \<Rightarrow> memory_allocation \<Rightarrow> host_buffer option \<Rightarrow> device_buffer option \<Rightarrow>
    ('p, 't) expert_manager \<Rightarrow> ('p, 't) expert_manager" where
  "commitMove env k source destination policyId allocation weights device s =
     (let s1 = (if source = Vram then em_stats_upd (\<lambda>st. st\<lparr>st_vramEvictions := st_vramEvictions st + 1\<rparr>) s else s);
          s2 = (if source \<noteq> Nvme then em_policy_upd (onEvict (env_policy env) policyId source) s1 else s1);
          s3 = em_set k (\<lambda>m. m\<lparr>me_allocation := Some allocation, me_weights := weights,
                 me_deviceWeights := device, me_metadata := (me_metadata m)\<lparr>exp_location := destination\<rparr>\<rparr>) s2;
          s4 = (if destination = Vram then em_stats_upd (\<lambda>st. st\<lparr>st_vramPromotions := st_vramPromotions st + 1\<rparr>) s3 else s3)
      in em_policy_upd (onResident (env_policy env) policyId destination) s4)"

text \<open>Lines 711--790, after room has been made at the destination.\<close>

definition relocate :: "('p, 't) manager_env \<Rightarrow> layer_id \<Rightarrow> expert_id \<Rightarrow> memory_tier \<Rightarrow> memory_tier \<Rightarrow>
    ('p, 't, unit) emp" where
  "relocate env l i source destination =
     bindp (requireExpertLocked l i) (\<lambda>managed.
     bindp (reserve destination (exp_sizeBytes (me_metadata managed)) l i ''memory reservation failed after eviction'')
       (\<lambda>allocation.
     bindp (catchp (destinationBuffers env i source destination managed) is_cpp_exception
              (\<lambda>e. thenp (on_memory (mm_release (ma_id allocation))) (raise e)))
       (\<lambda>(weights, device).
     bindp (releaseHeld managed) (\<lambda>released.
       if \<not> released then
         thenp (on_memory (mm_release (ma_id allocation)))
           (raise (LogicError ''expert owns an unknown source allocation''))
       else modify (commitMove env (key l i) source destination (me_policyId managed)
              allocation weights device)))))"

text \<open>\<open>policyExperts_.find(*victim)\<close> and \<open>experts_.at(identity->second).metadata\<close>\<close>

definition identifyVictim :: "expert_id \<Rightarrow> ('p, 't, expert) emp" where
  "identifyVictim v = (\<lambda>s.
     case em_policyExperts s v of
       None \<Rightarrow> (Inl (LogicError ''cache policy selected an unknown expert''), s)
     | Some k \<Rightarrow>
         (case em_find s k of
            None \<Rightarrow> (Inl (OutOfRange ''unordered_map::at''), s)
          | Some m \<Rightarrow> (Inr (me_metadata m), s)))"

text \<open>
  The bodies of \<open>moveExpertLocked\<close>, \<open>makeRoomLocked\<close> and the \<open>while\<close> loop of the latter, each
  with the functions it calls as its first arguments; the recursion is tied below, one unit of
  fuel for every call and every turn of the loop.
\<close>

definition moveExpertBody ::
  "(memory_tier \<Rightarrow> ('p, 't, unit) emp) \<Rightarrow> (memory_tier \<Rightarrow> u64 \<Rightarrow> ('p, 't, unit) emp) \<Rightarrow>
   ('p, 't) manager_env \<Rightarrow> layer_id \<Rightarrow> expert_id \<Rightarrow> memory_tier \<Rightarrow> ('p, 't, unit) emp" where
  "moveExpertBody moveSelf room env l i destination =
     bindp (requireExpertLocked l i) (\<lambda>managed.
       let source = exp_location (me_metadata managed) in
       if source = destination then ret ()
       else if me_residencyLeases managed \<noteq> 0
       then raise (LogicError ''cannot move expert while a residency lease is active'')
       else if source = Nvme \<and> destination = Vram then thenp (moveSelf Ram) (moveSelf Vram)
       else if source = Nvme \<and> destination = Ram \<and> env_transfers env \<noteq> None then
         thenp (room destination (exp_sizeBytes (me_metadata managed)))
           (loadDirect env (the (env_transfers env)) l i)
       else if destination = Nvme then dropToNvme env (key l i) managed
       else
         thenp (room destination (exp_sizeBytes (me_metadata managed)))
           (relocate env l i source destination))"

definition makeRoomBody ::
  "('p, 't, unit) emp \<Rightarrow> memory_tier \<Rightarrow> u64 \<Rightarrow> ('p, 't, unit) emp" where
  "makeRoomBody loop tier requiredBytes =
     (if tier = Nvme then ret ()
      else bindp (em_usage tier) (\<lambda>u.
        if requiredBytes > limitBytes u
        then raise (RuntimeError ''expert is larger than destination tier capacity'')
        else loop))"

text \<open>Lines 817--828 (and 239--250): where a victim of \<open>tier\<close> goes.\<close>

definition demote :: "(memory_tier \<Rightarrow> ('p, 't, unit) emp) \<Rightarrow> memory_tier \<Rightarrow> ('p, 't, unit) emp" where
  "demote moveVictim tier =
     (if tier = Vram then catchp (moveVictim Ram) is_runtime_error (\<lambda>_. moveVictim Nvme)
      else moveVictim Nvme)"

definition makeRoomLoopBody ::
  "(layer_id \<Rightarrow> expert_id \<Rightarrow> memory_tier \<Rightarrow> expert_id set \<Rightarrow> ('p, 't, unit) emp) \<Rightarrow> ('p, 't, unit) emp \<Rightarrow>
   ('p, 't) manager_env \<Rightarrow> memory_tier \<Rightarrow> u64 \<Rightarrow> expert_id set \<Rightarrow> ('p, 't, unit) emp" where
  "makeRoomLoopBody mv again env tier requiredBytes pinned =
     bindp (em_usage tier) (\<lambda>u.
       if availableBytes u < requiredBytes then
         bindp (gets (\<lambda>s. selectVictim (env_policy env) (em_policy s) tier (candidatesLocked tier s) pinned))
           (\<lambda>victim. case victim of
              None \<Rightarrow> raise (RuntimeError ''no evictable expert can satisfy memory request'')
            | Some v \<Rightarrow>
                bindp (identifyVictim v) (\<lambda>victimExpert.
                thenp (demote (\<lambda>t. mv (exp_layer victimExpert) (exp_id victimExpert) t (insert v pinned)) tier)
                  again))
       else ret ())"

fun moveExpertLocked :: "nat \<Rightarrow> ('p, 't) manager_env \<Rightarrow> layer_id \<Rightarrow> expert_id \<Rightarrow> memory_tier \<Rightarrow>
      expert_id set \<Rightarrow> ('p, 't, unit) emp"
  and makeRoomLocked :: "nat \<Rightarrow> ('p, 't) manager_env \<Rightarrow> memory_tier \<Rightarrow> u64 \<Rightarrow> expert_id set \<Rightarrow> ('p, 't, unit) emp"
  and makeRoomLoop :: "nat \<Rightarrow> ('p, 't) manager_env \<Rightarrow> memory_tier \<Rightarrow> u64 \<Rightarrow> expert_id set \<Rightarrow> ('p, 't, unit) emp"
where
  "moveExpertLocked 0 env l i destination pinned = raise Diverged"
| "moveExpertLocked (Suc n) env l i destination pinned =
     moveExpertBody (\<lambda>t. moveExpertLocked n env l i t pinned)
       (\<lambda>t bytes. makeRoomLocked n env t bytes pinned) env l i destination"
| "makeRoomLocked 0 env tier requiredBytes pinned = raise Diverged"
| "makeRoomLocked (Suc n) env tier requiredBytes pinned =
     makeRoomBody (makeRoomLoop n env tier requiredBytes pinned) tier requiredBytes"
| "makeRoomLoop 0 env tier requiredBytes pinned = raise Diverged"
| "makeRoomLoop (Suc n) env tier requiredBytes pinned =
     makeRoomLoopBody (\<lambda>l i t ps. moveExpertLocked n env l i t ps)
       (makeRoomLoop n env tier requiredBytes pinned) env tier requiredBytes pinned"

definition em_fuel :: "('p, 't) expert_manager \<Rightarrow> nat" where
  "em_fuel s = 2 * length (em_experts s) + 8"

text \<open>A call from a public member function, with the fuel for the state it starts in.\<close>

definition move :: "('p, 't) manager_env \<Rightarrow> layer_id \<Rightarrow> expert_id \<Rightarrow> memory_tier \<Rightarrow> expert_id set \<Rightarrow> ('p, 't, unit) emp" where
  "move env l i destination pinned = (\<lambda>s. moveExpertLocked (em_fuel s) env l i destination pinned s)"

definition makeRoom :: "('p, 't) manager_env \<Rightarrow> memory_tier \<Rightarrow> u64 \<Rightarrow> expert_id set \<Rightarrow> ('p, 't, unit) emp" where
  "makeRoom env tier requiredBytes pinned = (\<lambda>s. makeRoomLocked (em_fuel s) env tier requiredBytes pinned s)"

subsection \<open>Registration\<close>

definition managed_new :: "expert \<Rightarrow> expert_id \<Rightarrow> managed_expert" where
  "managed_new e policyId =
     \<lparr> me_metadata = e\<lparr>exp_location := Nvme\<rparr>, me_policyId = policyId, me_allocation = None,
       me_weights = None, me_deviceWeights = None, me_residencyLeases = 0, me_usageCount = 0,
       me_lastUsed = 0, me_predictionProbability = 0, me_prefetchConfidence = 0 \<rparr>"

definition insertExpert :: "expert \<Rightarrow> expert_id \<Rightarrow> ('p, 't) expert_manager \<Rightarrow> ('p, 't) expert_manager" where
  "insertExpert e policyId s =
     (let k = key (exp_layer e) (exp_id e) in
      s\<lparr>em_nextPolicyId := em_nextPolicyId s + 1,
        em_experts := em_experts s @ [(k, managed_new e policyId)],
        em_policyExperts := emplace (em_policyExperts s) policyId k,
        em_legacyExperts := (em_legacyExperts s)
          (exp_id e \<mapsto> (case em_legacyExperts s (exp_id e) of None \<Rightarrow> [k] | Some ks \<Rightarrow> ks @ [k]))\<rparr>)"

text \<open>The \<open>catch (...)\<close> block of \<open>registerExpert\<close>.\<close>

definition removeExpert :: "expert \<Rightarrow> expert_id \<Rightarrow> ('p, 't) expert_manager \<Rightarrow> ('p, 't) expert_manager" where
  "removeExpert e policyId s =
     (let k = key (exp_layer e) (exp_id e);
          remaining = (case em_legacyExperts s (exp_id e) of None \<Rightarrow> [] | Some ks \<Rightarrow> removeAll k ks)
      in s\<lparr>em_experts := AList.delete k (em_experts s),
           em_policyExperts := (em_policyExperts s)(policyId := None),
           em_legacyExperts := (em_legacyExperts s)
             (exp_id e := (if remaining = [] then None else Some remaining))\<rparr>)"

definition registerExpert :: "('p, 't) manager_env \<Rightarrow> expert \<Rightarrow> ('p, 't, unit) emp" where
  "registerExpert env e =
     (let k = key (exp_layer e) (exp_id e) in
      thenp (require (exp_sizeBytes e \<noteq> 0) (InvalidArgument ''expert size must be greater than zero'')) (
      bindp (gets (\<lambda>s. em_find s k)) (\<lambda>existing.
      thenp (require (existing = None) (InvalidArgument ''duplicate layer/expert id'')) (
      bindp (gets em_nextPolicyId) (\<lambda>nextId.
      thenp (require (nextId \<le> 2 ^ 32 - 1) (OverflowError ''cache policy expert ID space exhausted'')) (
      let policyId = of_nat nextId in
      thenp (modify (insertExpert e policyId))
        (if exp_location e \<noteq> Nvme then
           catchp (move env (exp_layer e) (exp_id e) (exp_location e) {policyId}) is_cpp_exception
             (\<lambda>error. bindp (requireExpertLocked (exp_layer e) (exp_id e)) (\<lambda>inserted.
                thenp (releaseHeld inserted)
                  (thenp (modify (removeExpert e policyId)) (raise error))))
         else ret ())))))))"

subsection \<open>Requests\<close>

datatype request_source = VramHit | RamHit | NvmeLoad

record request_result =
  rr_expert :: expert
  rr_source :: request_source
  rr_simulatedLatencyMs :: real

definition nvmeLatency :: "u64 \<Rightarrow> real" where
  "nvmeLatency bytes = 0.18 + real (unat bytes) / (2.5 * 1024 * 1024)"

definition pcieLatency :: "u64 \<Rightarrow> real" where
  "pcieLatency bytes = 0.03 + real (unat bytes) / (12 * 1024 * 1024)"

definition countRequest :: "request_source \<Rightarrow> u64 \<Rightarrow> real \<Rightarrow> manager_stats \<Rightarrow> manager_stats" where
  "countRequest source bytes latency st =
     (let st1 = st\<lparr>st_requests := st_requests st + 1\<rparr>;
          st2 = (case source of
             VramHit \<Rightarrow> st1\<lparr>st_vramHits := st_vramHits st1 + 1\<rparr>
           | RamHit \<Rightarrow> st1\<lparr>st_ramHits := st_ramHits st1 + 1\<rparr>
           | NvmeLoad \<Rightarrow> st1\<lparr>st_nvmeLoads := st_nvmeLoads st1 + 1,
                             st_nvmeBytesRead := st_nvmeBytesRead st1 + bytes\<rparr>)
      in st2\<lparr>st_simulatedLoadingLatencyMs := st_simulatedLoadingLatencyMs st2 + latency\<rparr>)"

text \<open>\<open>elapsedMs\<close> is what the steady clock measures around the move.\<close>

definition requestExpert :: "('p, 't) manager_env \<Rightarrow> real \<Rightarrow> layer_id \<Rightarrow> expert_id \<Rightarrow> ('p, 't, request_result) emp" where
  "requestExpert env elapsedMs l i =
     bindp (requireExpertLocked l i) (\<lambda>managed.
     let sourceTier = exp_location (me_metadata managed);
         bytes = exp_sizeBytes (me_metadata managed);
         source = (if sourceTier = Vram then VramHit else if sourceTier = Ram then RamHit else NvmeLoad);
         simulated = (if sourceTier = Vram then 0 else if sourceTier = Ram then pcieLatency bytes
                      else nvmeLatency bytes + pcieLatency bytes);
         latency = (if env_transfers env \<noteq> None \<and> sourceTier \<noteq> Vram then elapsedMs else simulated)
     in thenp (move env l i Vram {me_policyId managed})
       (thenp (modify (\<lambda>s. em_stats_upd (countRequest source bytes latency) (recordAccess env (key l i) s)))
         (bindp (requireExpertLocked l i) (\<lambda>m.
            ret \<lparr> rr_expert = me_metadata m, rr_source = source, rr_simulatedLatencyMs = latency \<rparr>))))"

definition requestExpertLegacy :: "('p, 't) manager_env \<Rightarrow> real \<Rightarrow> expert_id \<Rightarrow> ('p, 't, request_result) emp" where
  "requestExpertLegacy env elapsedMs i =
     bindp (resolveLegacyLayer i) (\<lambda>l. requestExpert env elapsedMs l i)"

definition moveExpert :: "('p, 't) manager_env \<Rightarrow> layer_id \<Rightarrow> expert_id \<Rightarrow> memory_tier \<Rightarrow> ('p, 't, unit) emp" where
  "moveExpert env l i destination =
     bindp (requireExpertLocked l i) (\<lambda>managed. move env l i destination {me_policyId managed})"

definition moveExpertLegacy :: "('p, 't) manager_env \<Rightarrow> expert_id \<Rightarrow> memory_tier \<Rightarrow> ('p, 't, unit) emp" where
  "moveExpertLegacy env i destination =
     bindp (resolveLegacyLayer i) (\<lambda>l. moveExpert env l i destination)"

fun evictLoop :: "nat \<Rightarrow> ('p, 't) manager_env \<Rightarrow> memory_tier \<Rightarrow> u64 \<Rightarrow> nat \<Rightarrow> ('p, 't, nat) emp" where
  "evictLoop 0 env tier maximumUsedBytes evicted = raise Diverged"
| "evictLoop (Suc n) env tier maximumUsedBytes evicted =
     bindp (em_usage tier) (\<lambda>u.
       if usedBytes u > maximumUsedBytes then
         bindp (gets (\<lambda>s. selectVictim (env_policy env) (em_policy s) tier (candidatesLocked tier s) {}))
           (\<lambda>victim. case victim of
              None \<Rightarrow> ret evicted
            | Some v \<Rightarrow>
                bindp (identifyVictim v) (\<lambda>victimExpert.
                thenp (demote (\<lambda>t. move env (exp_layer victimExpert) (exp_id victimExpert) t {v}) tier)
                  (evictLoop n env tier maximumUsedBytes (evicted + 1))))
       else ret evicted)"

definition evictUntilWithin :: "('p, 't) manager_env \<Rightarrow> memory_tier \<Rightarrow> u64 \<Rightarrow> ('p, 't, nat) emp" where
  "evictUntilWithin env tier maximumUsedBytes =
     thenp (require (tier \<noteq> Nvme) (InvalidArgument ''NVMe does not use MemoryManager capacity''))
       (\<lambda>s. evictLoop (em_fuel s) env tier maximumUsedBytes 0 s)"

subsection \<open>Queries\<close>

definition findExpert :: "('p, 't) expert_manager \<Rightarrow> layer_id \<Rightarrow> expert_id \<Rightarrow> expert option" where
  "findExpert s l i = map_option me_metadata (em_find s (key l i))"

definition findExpertLegacy :: "expert_id \<Rightarrow> ('p, 't, expert option) emp" where
  "findExpertLegacy i =
     catchp (bindp (resolveLegacyLayer i) (\<lambda>l. gets (\<lambda>s. findExpert s l i)))
       (\<lambda>e. case e of OutOfRange _ \<Rightarrow> True | _ \<Rightarrow> False) (\<lambda>_. ret None)"

definition residentWeights :: "layer_id \<Rightarrow> expert_id \<Rightarrow> ('p, 't, host_buffer option) emp" where
  "residentWeights l i = bindp (requireExpertLocked l i) (\<lambda>m. ret (me_weights m))"

definition residentDeviceWeights :: "layer_id \<Rightarrow> expert_id \<Rightarrow> ('p, 't, device_buffer option) emp" where
  "residentDeviceWeights l i = bindp (requireExpertLocked l i) (\<lambda>m. ret (me_deviceWeights m))"

definition expertCount :: "('p, 't) expert_manager \<Rightarrow> nat" where
  "expertCount s = length (em_experts s)"

definition memorySnapshot :: "('p, 't) expert_manager \<Rightarrow> tier_usage \<times> tier_usage" where
  "memorySnapshot s = mm_snapshot (em_memory s)"

subsection \<open>Adoption, preparation and leases\<close>

text \<open>Lines 440--446 and 506--511, and the reservation swap both adoptions begin with.\<close>

definition adopt :: "('p, 't) manager_env \<Rightarrow> layer_id \<Rightarrow> expert_id \<Rightarrow> memory_tier \<Rightarrow> string \<Rightarrow>
    (memory_tier \<Rightarrow> manager_stats \<Rightarrow> manager_stats) \<Rightarrow> host_buffer option \<Rightarrow> device_buffer option \<Rightarrow>
    ('p, 't, unit) emp" where
  "adopt env l i tier message count weights device =
     bindp (requireExpertLocked l i) (\<lambda>managed.
     bindp (reserve tier (exp_sizeBytes (me_metadata managed)) l i message) (\<lambda>allocation.
     bindp (releaseHeld managed) (\<lambda>released.
       if \<not> released then
         thenp (on_memory (mm_release (ma_id allocation)))
           (raise (LogicError ''expert owns an unknown source allocation''))
       else
         let source = exp_location (me_metadata managed) in
         modify (\<lambda>s. recordAccess env (key l i)
           (em_policy_upd (onResident (env_policy env) (me_policyId managed) tier)
             (em_set (key l i) (\<lambda>m. m\<lparr>me_allocation := Some allocation, me_weights := weights,
                 me_deviceWeights := device, me_metadata := (me_metadata m)\<lparr>exp_location := tier\<rparr>\<rparr>)
               (em_stats_upd (count source)
                 (if source \<noteq> Nvme then em_policy_upd (onEvict (env_policy env) (me_policyId managed) source) s
                  else s))))))))"

definition device_usable :: "device_buffer option \<Rightarrow> bool" where
  "device_usable b =
     (case b of None \<Rightarrow> False
      | Some d \<Rightarrow> db_live d \<and> (case db_backend d of None \<Rightarrow> False | Some be \<Rightarrow> be_available be))"

definition adoptDeviceWeights :: "('p, 't) manager_env \<Rightarrow> layer_id \<Rightarrow> expert_id \<Rightarrow> device_buffer option \<Rightarrow>
    ('p, 't, unit) emp" where
  "adoptDeviceWeights env l i buffer =
     thenp (require (device_usable buffer) (InvalidArgument ''adopted expert buffer is unavailable'')) (
     bindp (requireExpertLocked l i) (\<lambda>managed.
     thenp (require (db_size (the buffer) = exp_sizeBytes (me_metadata managed))
              (InvalidArgument ''adopted expert buffer size does not match metadata''))
       (if exp_location (me_metadata managed) = Vram then
          (if map_option db_ref (me_deviceWeights managed) \<noteq> map_option db_ref buffer
           then raise (LogicError ''expert already owns a different device buffer'')
           else modify (recordAccess env (key l i)))
        else
          thenp (makeRoom env Vram (exp_sizeBytes (me_metadata managed)) {me_policyId managed})
            (adopt env l i Vram ''failed reserving adopted expert memory''
               (\<lambda>_ st. st\<lparr>st_vramPromotions := st_vramPromotions st + 1\<rparr>) None buffer))))"

definition prepareResidency :: "('p, 't) manager_env \<Rightarrow> layer_id \<Rightarrow> expert_id \<Rightarrow> memory_tier \<Rightarrow> ('p, 't, unit) emp" where
  "prepareResidency env l i destination =
     thenp (require (destination = Ram \<or> destination = Vram)
              (InvalidArgument ''expert preparation requires RAM or VRAM''))
       (bindp (requireExpertLocked l i) (\<lambda>e.
          if exp_location (me_metadata e) \<noteq> destination
          then makeRoom env destination (exp_sizeBytes (me_metadata e)) {me_policyId e}
          else ret ()))"

definition adoptHostWeights :: "('p, 't) manager_env \<Rightarrow> layer_id \<Rightarrow> expert_id \<Rightarrow> host_buffer option \<Rightarrow>
    ('p, 't, unit) emp" where
  "adoptHostWeights env l i buffer =
     thenp (require (buffer \<noteq> None \<and> hb_bytes (the buffer) \<noteq> [])
              (InvalidArgument ''adopted host expert buffer is unavailable'')) (
     bindp (requireExpertLocked l i) (\<lambda>managed.
     thenp (require (hb_size (the buffer) = exp_sizeBytes (me_metadata managed))
              (InvalidArgument ''adopted host expert buffer size does not match metadata'')) (
     thenp (require (me_residencyLeases managed = 0)
              (LogicError ''cannot adopt host expert weights while a residency lease is active''))
       (if exp_location (me_metadata managed) = Ram then
          (if map_option hb_ref (me_weights managed) \<noteq> map_option hb_ref buffer
           then raise (LogicError ''expert already owns a different host buffer'')
           else modify (recordAccess env (key l i)))
        else
          thenp (makeRoom env Ram (exp_sizeBytes (me_metadata managed)) {me_policyId managed})
            (adopt env l i Ram ''failed reserving adopted expert host memory''
               (\<lambda>source st. if source = Vram then st\<lparr>st_vramEvictions := st_vramEvictions st + 1\<rparr> else st)
               buffer None)))))"

text \<open>An \<open>ExpertResidencyLease\<close>: the counter it shares with an expert, named by the expert's key,
  and the buffer it keeps alive.\<close>

record residency_lease =
  ls_leaseCount :: "expert_key option"
  ls_deviceBuffer :: "device_buffer option"
  ls_hostBuffer :: "host_buffer option"

definition lease_empty :: residency_lease where
  "lease_empty = \<lparr> ls_leaseCount = None, ls_deviceBuffer = None, ls_hostBuffer = None \<rparr>"

definition lease_valid :: "residency_lease \<Rightarrow> bool" where
  "lease_valid ls \<longleftrightarrow> ls_leaseCount ls \<noteq> None \<and> (ls_deviceBuffer ls \<noteq> None \<or> ls_hostBuffer ls \<noteq> None)"

definition takeLease :: "expert_key \<Rightarrow> ('p, 't) expert_manager \<Rightarrow> ('p, 't) expert_manager" where
  "takeLease k = em_set k (\<lambda>m. m\<lparr>me_residencyLeases := me_residencyLeases m + 1\<rparr>)"

definition lease_reset :: "residency_lease \<Rightarrow> ('p, 't) expert_manager \<Rightarrow> ('p, 't) expert_manager" where
  "lease_reset ls s =
     (case ls_leaseCount ls of None \<Rightarrow> s
      | Some k \<Rightarrow> em_set k (\<lambda>m. m\<lparr>me_residencyLeases := me_residencyLeases m - 1\<rparr>) s)"

text \<open>Move assignment of two distinct leases: (the target, the emptied source).\<close>

definition lease_move_assign :: "residency_lease \<Rightarrow> residency_lease \<Rightarrow> ('p, 't) expert_manager \<Rightarrow>
    residency_lease \<times> residency_lease \<times> ('p, 't) expert_manager" where
  "lease_move_assign target other s = (other, lease_empty, lease_reset target s)"

definition acquireResidentExpert :: "('p, 't) manager_env \<Rightarrow> layer_id \<Rightarrow> expert_id \<Rightarrow> ('p, 't, residency_lease) emp" where
  "acquireResidentExpert env l i =
     bindp (requireExpertLocked l i) (\<lambda>managed.
     thenp (if exp_location (me_metadata managed) \<noteq> Vram \<or> me_deviceWeights managed = None
            then move env l i Vram {me_policyId managed} else ret ())
     (bindp (requireExpertLocked l i) (\<lambda>m.
        if exp_location (me_metadata m) \<noteq> Vram \<or> me_deviceWeights m = None
        then raise (LogicError ''expert does not own a resident device buffer'')
        else thenp (modify (takeLease (key l i)))
          (ret \<lparr> ls_leaseCount = Some (key l i), ls_deviceBuffer = me_deviceWeights m, ls_hostBuffer = None \<rparr>))))"

definition acquireHostExpert :: "('p, 't) manager_env \<Rightarrow> layer_id \<Rightarrow> expert_id \<Rightarrow> ('p, 't, residency_lease) emp" where
  "acquireHostExpert env l i =
     bindp (requireExpertLocked l i) (\<lambda>managed.
     thenp (if exp_location (me_metadata managed) = Nvme then move env l i Ram {me_policyId managed}
            else if exp_location (me_metadata managed) = Vram then move env l i Ram {me_policyId managed}
            else ret ())
     (bindp (requireExpertLocked l i) (\<lambda>m.
        if exp_location (me_metadata m) \<noteq> Ram \<or> me_weights m = None
        then raise (LogicError ''expert does not own a resident host buffer'')
        else thenp (modify (takeLease (key l i)))
          (ret \<lparr> ls_leaseCount = Some (key l i), ls_deviceBuffer = None, ls_hostBuffer = me_weights m \<rparr>))))"

subsection \<open>Predictions and scores\<close>

definition updatePrediction :: "('p, 't) manager_env \<Rightarrow> layer_id \<Rightarrow> expert_id \<Rightarrow> fp \<Rightarrow> fp \<Rightarrow> ('p, 't, unit) emp" where
  "updatePrediction env l i probability confidence =
     thenp (require (isfinite probability \<and> isfinite confidence)
              (InvalidArgument ''expert prediction values must be finite''))
     (bindp (requireExpertLocked l i) (\<lambda>managed.
        let pr = clamp (fp_value probability) 0 1; co = clamp (fp_value confidence) 0 1 in
        modify (\<lambda>s. em_policy_upd (\<lambda>p. setPrefetchConfidence (env_policy env) (me_policyId managed) co
                        (setLayerProbability (env_policy env) (me_policyId managed) pr p))
          (em_set (key l i) (\<lambda>m. m\<lparr>me_predictionProbability := pr, me_prefetchConfidence := co\<rparr>) s))))"

definition maximumUsage :: "('p, 't) expert_manager \<Rightarrow> nat" where
  "maximumUsage s = fold (\<lambda>(k, m) u. max u (me_usageCount m)) (em_experts s) 0"

definition residencyScoreLocked :: "('p, 't) manager_env \<Rightarrow> ('p, 't) expert_manager \<Rightarrow> managed_expert \<Rightarrow> nat \<Rightarrow> real" where
  "residencyScoreLocked env s m maximum =
     (case policyScore (env_policy env) (em_policy s) (me_policyId m) of
        Some score \<Rightarrow> score
      | None \<Rightarrow>
          let frequency = (if maximum = 0 then 0 else real (me_usageCount m) / real maximum);
              recency = (if em_accessClock s = 0 then 0 else real (me_lastUsed m) / real (em_accessClock s))
          in 0.4 * frequency + 0.3 * recency + 0.2 * me_predictionProbability m +
             0.1 * me_prefetchConfidence m)"

definition residencyScore :: "('p, 't) manager_env \<Rightarrow> layer_id \<Rightarrow> expert_id \<Rightarrow> ('p, 't, real) emp" where
  "residencyScore env l i =
     bindp (requireExpertLocked l i) (\<lambda>m. gets (\<lambda>s. residencyScoreLocked env s m (maximumUsage s)))"

record residency_info =
  ri_layerId :: layer_id
  ri_expertId :: expert_id
  ri_location :: memory_tier
  ri_sizeBytes :: u64
  ri_usageCount :: nat
  ri_lastUsed :: nat
  ri_predictionProbability :: real
  ri_prefetchConfidence :: real
  ri_residencyScore :: real
  ri_hot :: bool

definition residencyInfo :: "('p, 't) manager_env \<Rightarrow> ('p, 't) expert_manager \<Rightarrow> managed_expert \<Rightarrow> residency_info" where
  "residencyInfo env s m =
     (let score = residencyScoreLocked env s m (maximumUsage s) in
      \<lparr> ri_layerId = exp_layer (me_metadata m), ri_expertId = exp_id (me_metadata m),
        ri_location = exp_location (me_metadata m), ri_sizeBytes = exp_sizeBytes (me_metadata m),
        ri_usageCount = me_usageCount m, ri_lastUsed = me_lastUsed m,
        ri_predictionProbability = me_predictionProbability m,
        ri_prefetchConfidence = me_prefetchConfidence m,
        ri_residencyScore = score, ri_hot = (0.60 \<le> score) \<rparr>)"

definition residencySnapshot :: "('p, 't) manager_env \<Rightarrow> ('p, 't) expert_manager \<Rightarrow> residency_info list" where
  "residencySnapshot env s =
     sort_key (\<lambda>r. (ri_layerId r, ri_expertId r)) (map (\<lambda>(k, m). residencyInfo env s m) (em_experts s))"

definition vramHitRate :: "manager_stats \<Rightarrow> real" where
  "vramHitRate st = (if st_requests st = 0 then 0 else real (st_vramHits st) / real (st_requests st))"

end
