(* ===== verification/Expert_Manager_Inv.thy ===== *)
theory Expert_Manager_Inv
  imports Expert_Manager
begin

text \<open>
  The invariant of the expert manager and its preservation by the moves between tiers.
  \<open>em_ok\<close> ties the manager's tables to the reservation ledger: an expert off NVMe holds exactly
  one live reservation, of its own size and in its own tier, no two experts share one, and the
  policy ids and expert keys name each other. \<open>frame\<close> says what a move may change: the
  experts outside the given set of keys either stay as they are or, if they hold no lease and
  are not pinned, are demoted towards NVMe.
\<close>

abbreviation loc :: "managed_expert \<Rightarrow> memory_tier" where
  "loc e \<equiv> exp_location (me_metadata e)"

subsection \<open>The invariant\<close>

definition holds_ok :: "(nat \<rightharpoonup> memory_allocation) \<Rightarrow> managed_expert \<Rightarrow> bool" where
  "holds_ok A e \<longleftrightarrow>
     (case me_allocation e of
        None \<Rightarrow> loc e = Nvme
      | Some a \<Rightarrow> loc e \<noteq> Nvme \<and> A (ma_id a) = Some a \<and> ma_tier a = loc e \<and>
          ma_sizeBytes a = exp_sizeBytes (me_metadata e))"

definition em_inv :: "memory_manager \<Rightarrow> (expert_key \<times> managed_expert) list \<Rightarrow>
    (expert_id \<rightharpoonup> expert_key) \<Rightarrow> nat \<Rightarrow> bool" where
  "em_inv mem xs pe np \<longleftrightarrow>
     mm_ok mem \<and> distinct (map fst xs) \<and> np \<le> 2 ^ 32 \<and>
     (\<forall>k e. map_of xs k = Some e \<longrightarrow>
        k = key (exp_layer (me_metadata e)) (exp_id (me_metadata e)) \<and>
        exp_sizeBytes (me_metadata e) \<noteq> 0 \<and> holds_ok (mm_allocations mem) e \<and>
        pe (me_policyId e) = Some k \<and> unat (me_policyId e) < np) \<and>
     (\<forall>p k. pe p = Some k \<longrightarrow> (\<exists>e. map_of xs k = Some e \<and> me_policyId e = p)) \<and>
     (\<forall>k k' e e' a a'. map_of xs k = Some e \<longrightarrow> map_of xs k' = Some e' \<longrightarrow>
        me_allocation e = Some a \<longrightarrow> me_allocation e' = Some a' \<longrightarrow> ma_id a = ma_id a' \<longrightarrow> k = k')"

definition em_ok :: "('p, 't) expert_manager \<Rightarrow> bool" where
  "em_ok s \<longleftrightarrow> em_inv (em_memory s) (em_experts s) (em_policyExperts s) (em_nextPolicyId s)"

text \<open>What no move changes of an expert.\<close>

definition same_identity :: "managed_expert \<Rightarrow> managed_expert \<Rightarrow> bool" where
  "same_identity e e' \<longleftrightarrow>
     exp_id (me_metadata e') = exp_id (me_metadata e) \<and>
     exp_layer (me_metadata e') = exp_layer (me_metadata e) \<and>
     exp_sizeBytes (me_metadata e') = exp_sizeBytes (me_metadata e) \<and>
     exp_quantization (me_metadata e') = exp_quantization (me_metadata e) \<and>
     me_policyId e' = me_policyId e \<and> me_residencyLeases e' = me_residencyLeases e \<and>
     me_usageCount e' = me_usageCount e \<and> me_lastUsed e' = me_lastUsed e \<and>
     me_predictionProbability e' = me_predictionProbability e \<and>
     me_prefetchConfidence e' = me_prefetchConfidence e"

lemma same_identity_refl [simp]: "same_identity e e"
  by (simp add: same_identity_def)

lemma same_identity_trans: "same_identity a b \<Longrightarrow> same_identity b c \<Longrightarrow> same_identity a c"
  by (simp add: same_identity_def)

lemma em_invD:
  assumes "em_inv mem xs pe np" and "map_of xs k = Some e"
  shows "k = key (exp_layer (me_metadata e)) (exp_id (me_metadata e))"
    and "exp_sizeBytes (me_metadata e) \<noteq> 0" and "holds_ok (mm_allocations mem) e"
    and "pe (me_policyId e) = Some k" and "unat (me_policyId e) < np"
  using assms unfolding em_inv_def by blast+

lemma em_inv_policy:
  "em_inv mem xs pe np \<Longrightarrow> pe p = Some k \<Longrightarrow> \<exists>e. map_of xs k = Some e \<and> me_policyId e = p"
  unfolding em_inv_def by blast

lemma em_inv_unshared:
  "em_inv mem xs pe np \<Longrightarrow> map_of xs k = Some e \<Longrightarrow> map_of xs k' = Some e' \<Longrightarrow>
   me_allocation e = Some a \<Longrightarrow> me_allocation e' = Some a' \<Longrightarrow> ma_id a = ma_id a' \<Longrightarrow> k = k'"
  unfolding em_inv_def by blast

lemma em_inv_parts:
  assumes "em_inv mem xs pe np"
  shows "mm_ok mem" and "distinct (map fst xs)" and "np \<le> 2 ^ 32"
  using assms unfolding em_inv_def by blast+

text \<open>The ledger may gain reservations and otherwise keep what it has.\<close>

lemma em_inv_ledger_grows:
  assumes inv: "em_inv mem xs pe np" and ok: "mm_ok mem'"
    and keep: "\<And>j b. mm_allocations mem j = Some b \<Longrightarrow> mm_allocations mem' j = Some b"
  shows "em_inv mem' xs pe np"
proof -
  have "holds_ok (mm_allocations mem') e" if "map_of xs k = Some e" for k e
    using em_invD(3) [OF inv that] keep by (auto simp: holds_ok_def split: option.splits)
  with inv ok show ?thesis unfolding em_inv_def by blast
qed

text \<open>One expert changes its holdings, and the ledger with it.\<close>

lemma em_inv_swap:
  assumes inv: "em_inv mem xs pe np" and e: "map_of xs k = Some e"
    and ok: "mm_ok mem'" and same: "same_identity e e'"
    and holds: "holds_ok (mm_allocations mem') e'"
    and keep: "\<And>j b. mm_allocations mem j = Some b \<Longrightarrow> (\<forall>a. me_allocation e = Some a \<longrightarrow> j \<noteq> ma_id a) \<Longrightarrow>
        mm_allocations mem' j = Some b"
    and fresh: "\<And>a. me_allocation e' = Some a \<Longrightarrow> mm_allocations mem (ma_id a) = None"
  shows "em_inv mem' (AList.update k e' xs) pe np"
proof -
  let ?xs = "AList.update k e' xs"
  note D = em_invD [OF inv]
  have look: "map_of ?xs j = (if j = k then Some e' else map_of xs j)" for j
    by (simp add: update_conv')
  have other: "holds_ok (mm_allocations mem') f" if f: "map_of xs j = Some f" "j \<noteq> k" for j f
  proof (cases "me_allocation f")
    case None
    with D(3) [OF f(1)] show ?thesis by (simp add: holds_ok_def)
  next
    case (Some b)
    have "\<forall>a. me_allocation e = Some a \<longrightarrow> ma_id b \<noteq> ma_id a"
      using em_inv_unshared [OF inv f(1) e Some] f(2) by metis
    with keep D(3) [OF f(1)] Some show ?thesis by (auto simp: holds_ok_def)
  qed
  have unshared: "ma_id b \<noteq> ma_id a'"
    if "map_of xs j = Some f" "me_allocation f = Some b" "me_allocation e' = Some a'" for j f b a'
    using D(3) [OF that(1)] that fresh [OF that(3)] by (auto simp: holds_ok_def)
  have ids: "k = key (exp_layer (me_metadata e')) (exp_id (me_metadata e'))"
      "exp_sizeBytes (me_metadata e') \<noteq> 0" "pe (me_policyId e') = Some k" "unat (me_policyId e') < np"
    using D [OF e] same by (simp_all add: same_identity_def)
  have "distinct (map fst ?xs)" using inv e by (simp add: update_in_place em_inv_def)
  moreover have "\<exists>f. map_of ?xs j = Some f \<and> me_policyId f = p" if "pe p = Some j" for p j
    using em_inv_policy [OF inv that] e same look by (auto simp: same_identity_def)
  moreover have "j = j'" if "map_of ?xs j = Some f" "map_of ?xs j' = Some f'"
      "me_allocation f = Some b" "me_allocation f' = Some b'" "ma_id b = ma_id b'" for j j' f f' b b'
  proof (cases "j = k"; cases "j' = k")
    assume "j = k" "j' \<noteq> k"
    with that have "f = e'" "map_of xs j' = Some f'" by (simp_all add: look)
    with unshared [of j' f' b' b] that show ?thesis by simp
  next
    assume "j \<noteq> k" "j' = k"
    with that have "f' = e'" "map_of xs j = Some f" by (simp_all add: look)
    with unshared [of j f b b'] that show ?thesis by simp
  next
    assume "j \<noteq> k" "j' \<noteq> k"
    with that have "map_of xs j = Some f" "map_of xs j' = Some f'" by (simp_all add: look)
    from em_inv_unshared [OF inv this that(3-5)] show ?thesis .
  qed simp
  moreover have "np \<le> 2 ^ 32" using inv by (simp add: em_inv_def)
  moreover have "j = key (exp_layer (me_metadata f)) (exp_id (me_metadata f)) \<and>
      exp_sizeBytes (me_metadata f) \<noteq> 0 \<and> holds_ok (mm_allocations mem') f \<and>
      pe (me_policyId f) = Some j \<and> unat (me_policyId f) < np" if "map_of ?xs j = Some f" for j f
  proof (cases "j = k")
    case True
    with that have "f = e'" by (simp add: look)
    with True ids holds show ?thesis by simp
  next
    case False
    with that have f: "map_of xs j = Some f" by (simp add: look)
    from D [OF f] other [OF f False] show ?thesis by blast
  qed
  ultimately show ?thesis using ok unfolding em_inv_def by blast
qed

subsection \<open>What a move may change\<close>

fun demoted :: "memory_tier \<Rightarrow> memory_tier \<Rightarrow> bool" where
  "demoted a Nvme = (a \<noteq> Nvme)"
| "demoted a Ram = (a = Vram)"
| "demoted a _ = False"

lemma demoted_trans: "demoted a b \<Longrightarrow> demoted b c \<Longrightarrow> demoted a c"
  by (cases a; cases b; cases c) auto

lemma demoted_irrefl [simp]: "\<not> demoted a a"
  by (cases a) auto

definition core :: "('p, 't) expert_manager \<Rightarrow> ('p, 't) expert_manager \<Rightarrow> bool" where
  "core s t \<longleftrightarrow>
     map fst (em_experts t) = map fst (em_experts s) \<and> em_policyExperts t = em_policyExperts s \<and>
     em_legacyExperts t = em_legacyExperts s \<and> em_nextPolicyId t = em_nextPolicyId s \<and>
     em_accessClock t = em_accessClock s \<and>
     (\<forall>x. limitBytes (usageFor (em_memory t) x) = limitBytes (usageFor (em_memory s) x))"

text \<open>An expert after a step, given what may have happened to it.\<close>

definition evolved :: "bool \<Rightarrow> expert_id set \<Rightarrow> managed_expert \<Rightarrow> managed_expert \<Rightarrow> bool" where
  "evolved free pinned e e' \<longleftrightarrow>
     same_identity e e' \<and>
     (e' = e \<or> (me_residencyLeases e = 0 \<and>
        (free \<or> (me_policyId e \<notin> pinned \<and> demoted (loc e) (loc e')))))"

definition frame :: "expert_key set \<Rightarrow> expert_id set \<Rightarrow> ('p, 't) expert_manager \<Rightarrow> ('p, 't) expert_manager \<Rightarrow> bool" where
  "frame X pinned s t \<longleftrightarrow> core s t \<and>
     (\<forall>k e. em_find s k = Some e \<longrightarrow> (\<exists>e'. em_find t k = Some e' \<and> evolved (k \<in> X) pinned e e'))"

lemma evolved_refl [simp]: "evolved free pinned e e"
  by (simp add: evolved_def)

lemma evolved_trans: "evolved free pinned a b \<Longrightarrow> evolved free pinned b c \<Longrightarrow> evolved free pinned a c"
  unfolding evolved_def
  by (elim conjE disjE) (auto intro: same_identity_trans demoted_trans simp: same_identity_def)

lemma core_refl [simp]: "core s s"
  by (simp add: core_def)

lemma core_trans: "core s t \<Longrightarrow> core t u \<Longrightarrow> core s u"
  by (simp add: core_def)

lemma frame_refl [simp]: "frame X P s s"
  by (simp add: frame_def)

lemma frame_trans: "frame X P s t \<Longrightarrow> frame X P t u \<Longrightarrow> frame X P s u"
  unfolding frame_def by (meson core_trans evolved_trans)

lemma reflp_frame: "reflp (frame X P)"
  by (simp add: reflp_def)

lemma transp_frame: "transp (frame X P)"
  unfolding transp_def by (blast intro: frame_trans)

lemma frame_mono: "frame X P s t \<Longrightarrow> X \<subseteq> Y \<Longrightarrow> Q \<subseteq> P \<Longrightarrow> frame Y Q s t"
  unfolding frame_def evolved_def by (meson subsetD)

lemma frame_find:
  "frame X P s t \<Longrightarrow> em_find s k = Some e \<Longrightarrow> \<exists>e'. em_find t k = Some e' \<and> evolved (k \<in> X) P e e'"
  unfolding frame_def by blast

lemma frame_pinned:
  "frame {} P s t \<Longrightarrow> em_find s k = Some e \<Longrightarrow> me_policyId e \<in> P \<Longrightarrow> em_find t k = Some e"
  by (drule (1) frame_find) (auto simp: evolved_def)

lemma frame_leased:
  "frame X P s t \<Longrightarrow> em_find s k = Some e \<Longrightarrow> me_residencyLeases e \<noteq> 0 \<Longrightarrow> em_find t k = Some e"
  by (drule (1) frame_find) (auto simp: evolved_def)

lemma frame_core: "frame X P s t \<Longrightarrow> core s t"
  by (simp add: frame_def)

subsection \<open>The primitive updates\<close>

lemma em_find_simps [simp]:
  "em_find (em_policy_upd f s) = em_find s" "em_find (em_stats_upd g s) = em_find s"
  "em_find (s\<lparr>em_memory := m\<rparr>) = em_find s" "em_find (s\<lparr>em_transfers := tr\<rparr>) = em_find s"
  "em_find (s\<lparr>em_nextBuffer := b\<rparr>) = em_find s" "em_find (s\<lparr>em_accessClock := c\<rparr>) = em_find s"
  by (simp_all add: em_find_def em_policy_upd_def em_stats_upd_def fun_eq_iff)

lemma em_fields_policy_upd [simp]:
  "em_memory (em_policy_upd f s) = em_memory s" "em_experts (em_policy_upd f s) = em_experts s"
  "em_policyExperts (em_policy_upd f s) = em_policyExperts s"
  "em_nextPolicyId (em_policy_upd f s) = em_nextPolicyId s"
  "em_legacyExperts (em_policy_upd f s) = em_legacyExperts s"
  "em_accessClock (em_policy_upd f s) = em_accessClock s"
  "em_stats (em_policy_upd f s) = em_stats s"
  by (simp_all add: em_policy_upd_def)

lemma em_fields_stats_upd [simp]:
  "em_memory (em_stats_upd f s) = em_memory s" "em_experts (em_stats_upd f s) = em_experts s"
  "em_policyExperts (em_stats_upd f s) = em_policyExperts s"
  "em_nextPolicyId (em_stats_upd f s) = em_nextPolicyId s"
  "em_legacyExperts (em_stats_upd f s) = em_legacyExperts s"
  "em_accessClock (em_stats_upd f s) = em_accessClock s"
  by (simp_all add: em_stats_upd_def)

lemma em_fields_set [simp]:
  "em_memory (em_set k f s) = em_memory s"
  "em_policyExperts (em_set k f s) = em_policyExperts s"
  "em_nextPolicyId (em_set k f s) = em_nextPolicyId s"
  "em_legacyExperts (em_set k f s) = em_legacyExperts s"
  "em_accessClock (em_set k f s) = em_accessClock s"
  by (simp_all add: em_set_def split: option.split)

lemma em_experts_set:
  "em_find s k = Some e \<Longrightarrow> em_experts (em_set k f s) = AList.update k (f e) (em_experts s)"
  by (simp add: em_set_def)

lemma em_find_set:
  "em_find (em_set k f s) j = (if j = k then map_option f (em_find s k) else em_find s j)"
  by (cases "em_find s k") (auto simp: em_set_def em_find_def update_conv')

lemma em_okD:
  assumes "em_ok s" and "em_find s k = Some e"
  shows "k = key (exp_layer (me_metadata e)) (exp_id (me_metadata e))"
    and "exp_sizeBytes (me_metadata e) \<noteq> 0" and "holds_ok (mm_allocations (em_memory s)) e"
    and "em_policyExperts s (me_policyId e) = Some k"
  using assms by (auto simp: em_ok_def em_find_def dest: em_invD)

lemma em_ok_ledger: "em_ok s \<Longrightarrow> mm_ok (em_memory s)"
  by (simp add: em_ok_def em_inv_parts)

text \<open>Only the ledger changed, and it kept every reservation.\<close>

lemma em_ok_ledger_step:
  assumes "em_ok s" and "mm_ok m"
    and "\<And>j b. mm_allocations (em_memory s) j = Some b \<Longrightarrow> mm_allocations m j = Some b"
    and "em_memory t = m" "em_experts t = em_experts s" "em_policyExperts t = em_policyExperts s"
      "em_nextPolicyId t = em_nextPolicyId s"
  shows "em_ok t"
  using assms by (auto simp: em_ok_def intro: em_inv_ledger_grows)

lemma frame_same_experts:
  assumes "em_experts t = em_experts s" "em_policyExperts t = em_policyExperts s"
    "em_legacyExperts t = em_legacyExperts s" "em_nextPolicyId t = em_nextPolicyId s"
    "em_accessClock t = em_accessClock s"
    "\<And>x. limitBytes (usageFor (em_memory t) x) = limitBytes (usageFor (em_memory s) x)"
  shows "frame X P s t"
  using assms by (auto simp: frame_def core_def em_find_def)

text \<open>One expert without a lease changed its holdings.\<close>

lemma em_ok_swap_step:
  assumes ok: "em_ok s" and e: "em_find s k = Some e" and mm: "mm_ok (em_memory t)"
    and same: "same_identity e e'" and holds: "holds_ok (mm_allocations (em_memory t)) e'"
    and keep: "\<And>j b. mm_allocations (em_memory s) j = Some b \<Longrightarrow>
        (\<forall>a. me_allocation e = Some a \<longrightarrow> j \<noteq> ma_id a) \<Longrightarrow> mm_allocations (em_memory t) j = Some b"
    and fresh: "\<And>a. me_allocation e' = Some a \<Longrightarrow> mm_allocations (em_memory s) (ma_id a) = None"
    and t: "em_experts t = AList.update k e' (em_experts s)" "em_policyExperts t = em_policyExperts s"
      "em_nextPolicyId t = em_nextPolicyId s"
  shows "em_ok t"
  unfolding em_ok_def t
  by (rule em_inv_swap [OF ok [unfolded em_ok_def] e [unfolded em_find_def] mm same holds keep fresh])

lemma frame_swap_step:
  assumes e: "em_find s k = Some e" and same: "same_identity e e'" and nl: "me_residencyLeases e = 0"
    and t: "em_experts t = AList.update k e' (em_experts s)" "em_policyExperts t = em_policyExperts s"
      "em_legacyExperts t = em_legacyExperts s" "em_nextPolicyId t = em_nextPolicyId s"
      "em_accessClock t = em_accessClock s"
      "\<And>x. limitBytes (usageFor (em_memory t) x) = limitBytes (usageFor (em_memory s) x)"
  shows "frame {k} P s t"
proof -
  have "em_find t j = (if j = k then Some e' else em_find s j)" for j
    by (simp add: em_find_def t(1) update_conv')
  moreover have "map fst (em_experts t) = map fst (em_experts s)"
    using e by (simp add: t(1) em_find_def update_in_place)
  ultimately show ?thesis using e same nl t by (auto simp: frame_def core_def evolved_def)
qed

subsection \<open>Reserving and releasing\<close>

lemma on_memory_apply:
  "on_memory m s = (fst (m (em_memory s)), s\<lparr>em_memory := snd (m (em_memory s))\<rparr>)"
  by (simp add: on_memory_def)

lemma on_transfers_apply:
  "on_transfers m s = (fst (m (em_transfers s)), s\<lparr>em_transfers := snd (m (em_transfers s))\<rparr>)"
  by (simp add: on_transfers_def)

lemma requireExpertLocked_find [simp]:
  "em_find s (key l i) = Some e \<Longrightarrow> requireExpertLocked l i s = (Inr e, s)"
  by (simp add: requireExpertLocked_def)

lemma requireExpertLocked_pure: "requireExpertLocked l i s = (r, t) \<Longrightarrow> t = s"
  by (auto simp: requireExpertLocked_def split: option.splits)

lemma reserve_cases:
  assumes "reserve tier n l i msg s = (r, t)"
  obtains (refused) e where "r = Inl e" and "t = s" and "is_cpp_exception e"
  | (granted) a m1 where "r = Inr a" and "t = s\<lparr>em_memory := m1\<rparr>"
      and "mm_allocate tier n (allocation_tag l i) (em_memory s) = (Inr (Some a), m1)"
proof (cases "mm_allocate tier n (allocation_tag l i) (em_memory s)")
  case (Pair x m1)
  show ?thesis
  proof (cases "\<exists>a. x = Inr (Some a)")
    case True
    then obtain a where "x = Inr (Some a)" ..
    with Pair assms show ?thesis
      by (intro granted) (auto simp: reserve_def on_memory_apply bindp_def)
  next
    case False
    with Pair have "m1 = em_memory s" by (auto dest: mm_allocate_not_Some)
    moreover from Pair have "x = Inl e \<Longrightarrow> is_cpp_exception e" for e
      by (auto simp: mm_allocate_def Let_def split: if_splits)
    ultimately show ?thesis using False Pair assms
      by (intro refused [of "case r of Inl e \<Rightarrow> e | Inr _ \<Rightarrow> Diverged"])
        (auto simp: reserve_def on_memory_apply bindp_def split: sum.splits option.splits)
  qed
qed

lemma mm_granted_facts:
  assumes "mm_ok m" and "mm_allocate t n tag m = (Inr (Some a), m1)"
  shows "mm_ok m1" and "mm_allocations m (ma_id a) = None"
    and "mm_allocations m1 = (mm_allocations m)(ma_id a \<mapsto> a)"
    and "ma_tier a = t" and "ma_sizeBytes a = n" and "t \<noteq> Nvme"
  using mm.alloc_granted [OF assms] mm.alloc_invar [OF assms] mm_allocate_Some [OF assms(2)] by auto

lemma mm_granted_limit:
  "mm_allocate t n tag m = (Inr (Some a), m1) \<Longrightarrow>
   limitBytes (usageFor m1 x) = limitBytes (usageFor m x)"
  by (metis mm_limit_allocate mm_allocate_Some(4) snd_conv usageFor_def memory_tier.distinct(1))

lemma releaseHeld_live:
  assumes ok: "mm_ok (em_memory u)" and h: "holds_ok (mm_allocations A) e"
    and sub: "\<And>j b. mm_allocations A j = Some b \<Longrightarrow> mm_allocations (em_memory u) j = Some b"
  obtains m2 where "releaseHeld e u = (Inr True, u\<lparr>em_memory := m2\<rparr>)" and "mm_ok m2"
    and "mm_allocations m2 = (case me_allocation e of None \<Rightarrow> mm_allocations (em_memory u)
           | Some b \<Rightarrow> (mm_allocations (em_memory u))(ma_id b := None))"
    and "\<forall>x. limitBytes (usageFor m2 x) = limitBytes (usageFor (em_memory u) x)"
proof (cases "me_allocation e")
  case None
  then show ?thesis using ok by (intro that [of "em_memory u"]) (simp_all add: releaseHeld_def)
next
  case (Some b)
  with h sub have "mm_allocations (em_memory u) (ma_id b) \<noteq> None" by (auto simp: holds_ok_def)
  from mm.rel_known [OF this] obtain m2 where m2: "mm_release (ma_id b) (em_memory u) = (Inr True, m2)"
    and A: "mm_allocations m2 = (mm_allocations (em_memory u))(ma_id b := None)" by blast
  moreover have "limitBytes (usageFor m2 x) = limitBytes (usageFor (em_memory u) x)" for x
    using mm_limit_release [of "ma_id b" "em_memory u" x] m2 by simp
  ultimately show ?thesis using Some mm.rel_invar [OF ok m2]
    by (intro that [of m2]) (simp_all add: releaseHeld_def on_memory_apply)
qed

text \<open>Giving a fresh reservation back before an exception leaves.\<close>

lemma giveBack:
  assumes ok: "mm_ok m" and g: "mm_allocate x n tag m = (Inr (Some a), m1)" and u: "em_memory u = m1"
  obtains m2 where "thenp (on_memory (mm_release (ma_id a))) (raise e) u = (Inl e, u\<lparr>em_memory := m2\<rparr>)"
    and "mm_ok m2" and "mm_allocations m2 = mm_allocations m"
    and "\<forall>x. limitBytes (usageFor m2 x) = limitBytes (usageFor m x)"
proof -
  obtain b m2 where r: "mm_release (ma_id a) m1 = (b, m2)" by fastforce
  note F = mm.alloc_then_rel [OF ok g r]
  have "limitBytes (usageFor m2 x) = limitBytes (usageFor m x)" for x
    using mm_limit_release [of "ma_id a" m1 x] r mm_granted_limit [OF g, of x] by simp
  with F r u show ?thesis by (intro that [of m2]) (simp_all add: thenp_def bindp_def on_memory_apply)
qed

text \<open>The transfer service and the buffer counter are all that fetching the weights touches.\<close>

definition only_env :: "('p, 't) expert_manager \<Rightarrow> ('p, 't) expert_manager \<Rightarrow> bool" where
  "only_env s t \<longleftrightarrow> (\<exists>tr b. t = s\<lparr>em_transfers := tr, em_nextBuffer := b\<rparr>)"

lemma reflp_only_env: "reflp only_env"
  by (rule reflpI, unfold only_env_def) (metis expert_manager.surjective expert_manager.update_convs(3,10))

lemma transp_only_env: "transp only_env"
  by (rule transpI, clarsimp simp: only_env_def) blast

lemma keeps_on_transfers: "keeps (\<lambda>_. True) only_env (on_transfers m)"
proof (rule keepsI)
  fix s r t
  assume "on_transfers m s = (r, t)"
  then have "t = s\<lparr>em_transfers := snd (m (em_transfers s)), em_nextBuffer := em_nextBuffer s\<rparr>"
    by (auto simp: on_transfers_apply)
  then show "True \<and> only_env s t" unfolding only_env_def by blast
qed

lemma keeps_copyWeights: "keeps (\<lambda>_. True) only_env (copyWeights b)"
proof (rule keepsI)
  fix s :: "('p, 't) expert_manager" and r t
  assume "copyWeights b s = (r, t)"
  then have "t = s\<lparr>em_transfers := em_transfers s, em_nextBuffer := em_nextBuffer s + 1\<rparr>"
    by (auto simp: copyWeights_def)
  then show "True \<and> only_env s t" unfolding only_env_def by blast
qed

lemmas keeps_env_rules =
  keeps_bindp [OF transp_only_env] keeps_on_transfers keeps_copyWeights
  keeps_ret [OF reflp_only_env] keeps_raise [OF reflp_only_env]

lemma keeps_destinationBuffers: "keeps (\<lambda>_. True) only_env (destinationBuffers env i source dest e)"
  unfolding destinationBuffers_def Let_def
  by (auto split: option.split intro!: keeps_env_rules)

lemma only_envD:
  assumes "only_env s t"
  shows "em_memory t = em_memory s" "em_experts t = em_experts s"
    "em_policyExperts t = em_policyExperts s" "em_nextPolicyId t = em_nextPolicyId s"
    "em_legacyExperts t = em_legacyExperts s" "em_accessClock t = em_accessClock s"
    "em_find t = em_find s" "em_stats t = em_stats s" "em_policy t = em_policy s"
  using assms by (auto simp: only_env_def em_find_def)

subsection \<open>The three ways an expert changes its tier\<close>

definition moved :: "expert_key \<Rightarrow> memory_tier \<Rightarrow> ('p, 't) expert_manager \<Rightarrow> exn + unit \<Rightarrow>
    ('p, 't) expert_manager \<Rightarrow> bool" where
  "moved k dest s r t \<longleftrightarrow>
     (\<forall>e. em_find s k = Some e \<longrightarrow>
       (\<exists>e'. em_find t k = Some e' \<and> (r = Inr () \<longrightarrow> loc e' = dest) \<and>
         (e' = e \<or> loc e' = dest \<or> (loc e = Nvme \<and> dest = Vram \<and> loc e' = Ram))))"

lemma moved_unchanged: "em_find t k = em_find s k \<Longrightarrow> moved k dest s (Inl x) t"
  by (simp add: moved_def)

lemma dropToNvme_step:
  assumes ok: "em_ok s" and e: "em_find s k = Some e" and nl: "me_residencyLeases e = 0"
    and run: "dropToNvme env k e s = (r, t)"
  shows "em_ok t" and "frame {k} P s t" and "moved k Nvme s r t" and "r = Inr ()"
proof -
  obtain m2 where rel: "releaseHeld e s = (Inr True, s\<lparr>em_memory := m2\<rparr>)" and m2: "mm_ok m2"
    and A: "mm_allocations m2 = (case me_allocation e of None \<Rightarrow> mm_allocations (em_memory s)
           | Some b \<Rightarrow> (mm_allocations (em_memory s))(ma_id b := None))"
    and lim: "\<forall>x. limitBytes (usageFor m2 x) = limitBytes (usageFor (em_memory s) x)"
    using releaseHeld_live [OF em_ok_ledger [OF ok] em_okD(3) [OF ok e]] by blast
  let ?f = "\<lambda>m. m\<lparr>me_allocation := None, me_weights := None, me_deviceWeights := None,
              me_metadata := (me_metadata m)\<lparr>exp_location := Nvme\<rparr>\<rparr>"
  let ?u = "em_policy_upd (onEvict (env_policy env) (me_policyId e) (loc e))
             (em_stats_upd (bumpEvictions (loc e)) (s\<lparr>em_memory := m2\<rparr>))"
  have eq: "r = Inr ()" "t = em_set k ?f ?u"
    using run by (simp_all add: dropToNvme_def rel Let_def)
  have eu: "em_find ?u k = Some e" using e by simp
  have te: "em_experts t = AList.update k (?f e) (em_experts s)"
    unfolding eq using em_experts_set [OF eu, of ?f] by simp
  have si: "same_identity e (?f e)" by (simp add: same_identity_def)
  show "em_ok t"
    by (rule em_ok_swap_step [OF ok e _ si _ _ _ te])
      (simp_all add: eq m2 A holds_ok_def split: option.split)
  show "frame {k} P s t"
    by (rule frame_swap_step [OF e si nl te]) (simp_all add: eq lim)
  show "moved k Nvme s r t" using e eu by (simp add: moved_def eq em_find_set)
  show "r = Inr ()" by (rule eq)
qed

lemma commitMove_fields:
  "em_memory (commitMove env k src dst p a w d s) = em_memory s"
  "em_policyExperts (commitMove env k src dst p a w d s) = em_policyExperts s"
  "em_nextPolicyId (commitMove env k src dst p a w d s) = em_nextPolicyId s"
  "em_legacyExperts (commitMove env k src dst p a w d s) = em_legacyExperts s"
  "em_accessClock (commitMove env k src dst p a w d s) = em_accessClock s"
  by (simp_all add: commitMove_def Let_def)

definition placed :: "memory_tier \<Rightarrow> memory_allocation \<Rightarrow> host_buffer option \<Rightarrow> device_buffer option \<Rightarrow>
    managed_expert \<Rightarrow> managed_expert" where
  "placed dst a w d m = m\<lparr>me_allocation := Some a, me_weights := w, me_deviceWeights := d,
     me_metadata := (me_metadata m)\<lparr>exp_location := dst\<rparr>\<rparr>"

lemma placed_simps [simp]:
  "me_allocation (placed dst a w d m) = Some a" "loc (placed dst a w d m) = dst"
  "exp_sizeBytes (me_metadata (placed dst a w d m)) = exp_sizeBytes (me_metadata m)"
  "me_weights (placed dst a w d m) = w" "me_deviceWeights (placed dst a w d m) = d"
  "me_policyId (placed dst a w d m) = me_policyId m"
  by (simp_all add: placed_def)

lemma placed_identity [simp]: "same_identity m (placed dst a w d m)"
  by (simp add: same_identity_def placed_def)

lemma commitMove_experts:
  assumes "em_find s k = Some e"
  shows "em_experts (commitMove env k src dst p a w d s) = AList.update k (placed dst a w d e) (em_experts s)"
  using assms by (simp add: commitMove_def Let_def em_set_def placed_def)

text \<open>A reservation is granted and the expert takes it up in place of the one it held: the end of
  a relocation, of a direct load and of an adoption.\<close>

lemma place_ok:
  assumes ok: "em_ok s" and e: "em_find s k = Some e"
    and g: "mm_allocate dst (exp_sizeBytes (me_metadata e)) tag (em_memory s) = (Inr (Some a), m1)"
    and A2: "mm_allocations (em_memory t) = (case me_allocation e of None \<Rightarrow> mm_allocations m1
           | Some b \<Rightarrow> (mm_allocations m1)(ma_id b := None))"
    and ok2: "mm_ok (em_memory t)"
    and t: "em_experts t = AList.update k (placed dst a w d e) (em_experts s)"
      "em_policyExperts t = em_policyExperts s" "em_nextPolicyId t = em_nextPolicyId s"
  shows "em_ok t"
proof -
  note G = mm_granted_facts [OF em_ok_ledger [OF ok] g]
  have live: "me_allocation e = Some b \<Longrightarrow> mm_allocations (em_memory s) (ma_id b) = Some b" for b
    using em_okD(3) [OF ok e] by (simp add: holds_ok_def)
  then have ne: "me_allocation e = Some b \<Longrightarrow> ma_id b \<noteq> ma_id a" for b using G(2) by force
  show ?thesis
  proof (rule em_ok_swap_step [OF ok e ok2 placed_identity _ _ _ t(1-3)])
    show "holds_ok (mm_allocations (em_memory t)) (placed dst a w d e)"
      using G ne by (auto simp: holds_ok_def A2 split: option.split)
    show "mm_allocations (em_memory t) j = Some b"
      if "mm_allocations (em_memory s) j = Some b" "\<forall>a. me_allocation e = Some a \<longrightarrow> j \<noteq> ma_id a" for j b
      using that G(2,3) by (auto simp: A2 split: option.split)
    show "mm_allocations (em_memory s) (ma_id b) = None" if "me_allocation (placed dst a w d e) = Some b" for b
      using that G(2) by simp
  qed
qed

lemma place_step:
  assumes ok: "em_ok s" and e: "em_find s k = Some e" and nl: "me_residencyLeases e = 0"
    and g: "mm_allocate dst (exp_sizeBytes (me_metadata e)) tag (em_memory s) = (Inr (Some a), m1)"
    and A2: "mm_allocations (em_memory t) = (case me_allocation e of None \<Rightarrow> mm_allocations m1
           | Some b \<Rightarrow> (mm_allocations m1)(ma_id b := None))"
    and ok2: "mm_ok (em_memory t)"
    and lim: "\<forall>x. limitBytes (usageFor (em_memory t) x) = limitBytes (usageFor m1 x)"
    and t: "em_experts t = AList.update k (placed dst a w d e) (em_experts s)"
      "em_policyExperts t = em_policyExperts s" "em_nextPolicyId t = em_nextPolicyId s"
      "em_legacyExperts t = em_legacyExperts s" "em_accessClock t = em_accessClock s"
  shows "em_ok t" and "frame {k} P s t" and "em_find t k = Some (placed dst a w d e)"
proof -
  show "em_ok t" by (rule place_ok [OF ok e g A2 ok2 t(1-3)])
  show "frame {k} P s t"
    by (rule frame_swap_step [OF e placed_identity nl t(1,2,4,3,5)]) (simp add: lim mm_granted_limit [OF g])
  show "em_find t k = Some (placed dst a w d e)" by (simp add: em_find_def t(1))
qed

text \<open>
  After a reservation was granted and the transfer service was consulted, one of three things
  happens: the reservation is given back, it is left behind, or the expert takes it up.
\<close>

lemma granted_returned:
  fixes s :: "('p, 't) expert_manager" and r :: "exn + 'a"
  assumes ok: "em_ok s" and g: "mm_allocate x n tag (em_memory s) = (Inr (Some a), m1)"
    and v: "only_env (s\<lparr>em_memory := m1\<rparr>) v"
    and run: "thenp (on_memory (mm_release (ma_id a))) (raise er) v = (r, t)"
  shows "r = Inl er \<and> em_ok t \<and> frame X P s t \<and> moved k dest s (Inl er) t"
proof -
  note V = only_envD [OF v]
  have "em_memory v = m1" using V(1) by simp
  from giveBack [OF em_ok_ledger [OF ok] g this]
  obtain m2 where gb: "(thenp (on_memory (mm_release (ma_id a))) (raise er) :: ('p, 't, 'a) emp) v = (Inl er, v\<lparr>em_memory := m2\<rparr>)"
    and "mm_ok m2" and A: "mm_allocations m2 = mm_allocations (em_memory s)"
    and lim: "\<forall>x. limitBytes (usageFor m2 x) = limitBytes (usageFor (em_memory s) x)" by blast
  from gb run have "r = Inl er" and t: "t = v\<lparr>em_memory := m2\<rparr>" by simp_all
  moreover have "em_ok t" using V by (intro em_ok_ledger_step [OF ok \<open>mm_ok m2\<close>]) (simp_all add: A t)
  moreover have "frame X P s t" using V lim by (intro frame_same_experts) (simp_all add: t)
  ultimately show ?thesis using V by (simp add: moved_def)
qed

lemma granted_leaked:
  assumes ok: "em_ok s" and g: "mm_allocate x n tag (em_memory s) = (Inr (Some a), m1)"
    and v: "only_env (s\<lparr>em_memory := m1\<rparr>) v"
  shows "em_ok v \<and> frame X P s v \<and> moved k dest s (Inl er) v"
proof -
  note V = only_envD [OF v] and G = mm_granted_facts [OF em_ok_ledger [OF ok] g]
  have "em_ok v" by (rule em_ok_ledger_step [OF ok G(1)]) (use G V in auto)
  moreover have "frame X P s v"
    using V mm_granted_limit [OF g] by (intro frame_same_experts) simp_all
  ultimately show ?thesis using V by (simp add: moved_def)
qed

lemma granted_used:
  fixes s :: "('p, 't) expert_manager"
  assumes ok: "em_ok s" and e: "em_find s k = Some e" and nl: "me_residencyLeases e = 0"
    and g: "mm_allocate dst (exp_sizeBytes (me_metadata e)) tag (em_memory s) = (Inr (Some a), m1)"
    and v: "only_env (s\<lparr>em_memory := m1\<rparr>) v"
  obtains m2 where "releaseHeld e v = (Inr True, v\<lparr>em_memory := m2\<rparr>)"
    and "\<forall>t w d. em_memory t = m2 \<longrightarrow> em_experts t = AList.update k (placed dst a w d e) (em_experts s) \<longrightarrow>
      em_policyExperts t = em_policyExperts s \<longrightarrow> em_nextPolicyId t = em_nextPolicyId s \<longrightarrow>
      em_legacyExperts t = em_legacyExperts s \<longrightarrow> em_accessClock t = em_accessClock s \<longrightarrow>
      em_ok t \<and> frame {k} P s t \<and> moved k dst s (Inr ()) t"
proof -
  note V = only_envD [OF v] and G = mm_granted_facts [OF em_ok_ledger [OF ok] g]
  have vm: "em_memory v = m1" using V(1) by simp
  have sub: "\<And>j b. mm_allocations (em_memory s) j = Some b \<Longrightarrow> mm_allocations (em_memory v) j = Some b"
    using G(2,3) vm by auto
  from G(1) have "mm_ok (em_memory v)" by (simp add: vm)
  from releaseHeld_live [OF this em_okD(3) [OF ok e] sub]
  obtain m2 where rel: "releaseHeld e v = (Inr True, v\<lparr>em_memory := m2\<rparr>)" and m2: "mm_ok m2"
    and A: "mm_allocations m2 = (case me_allocation e of None \<Rightarrow> mm_allocations (em_memory v)
         | Some b \<Rightarrow> (mm_allocations (em_memory v))(ma_id b := None))"
    and lim: "\<forall>x. limitBytes (usageFor m2 x) = limitBytes (usageFor (em_memory v) x)" by blast
  show ?thesis
  proof (rule that [OF rel], intro allI impI)
    fix t :: "('p, 't) expert_manager" and w d
    assume t: "em_memory t = m2" "em_experts t = AList.update k (placed dst a w d e) (em_experts s)"
      "em_policyExperts t = em_policyExperts s" "em_nextPolicyId t = em_nextPolicyId s"
      "em_legacyExperts t = em_legacyExperts s" "em_accessClock t = em_accessClock s"
    have "\<forall>x. limitBytes (usageFor (em_memory t) x) = limitBytes (usageFor m1 x)" using lim by (simp add: t vm)
    from place_step [OF ok e nl g A [unfolded vm, folded t(1)] m2 [folded t(1)] this t(2-6)]
    show "em_ok t \<and> frame {k} P s t \<and> moved k dst s (Inr ()) t"
      using e by (simp add: moved_def)
  qed
qed

lemma relocate_step:
  fixes s :: "('p, 't) expert_manager"
  assumes ok: "em_ok s" and e: "em_find s (key l i) = Some e" and nl: "me_residencyLeases e = 0"
    and run: "relocate env l i source dest s = (r, t)"
  shows "em_ok t \<and> frame {key l i} P s t \<and> moved (key l i) dest s r t"
proof -
  obtain rr u where res: "reserve dest (exp_sizeBytes (me_metadata e)) l i
      ''memory reservation failed after eviction'' s = (rr, u)" by fastforce
  from res show ?thesis
  proof (cases rule: reserve_cases)
    case (refused x)
    then have "r = Inl x" "t = s" using run res e by (simp_all add: relocate_def)
    then show ?thesis using ok by (simp add: moved_unchanged)
  next
    case (granted a m1)
    obtain br v where bufs: "destinationBuffers env i source dest e (s\<lparr>em_memory := m1\<rparr>) = (br, v)"
      by fastforce
    have v: "only_env (s\<lparr>em_memory := m1\<rparr>) v" using keepsD [OF keeps_destinationBuffers _ bufs] by simp
    note start = run [unfolded relocate_def] res e granted(1,2) bufs
    show ?thesis
    proof (cases br)
      case (Inl x)
      let ?undo = "thenp (on_memory (mm_release (ma_id a))) (raise x)
          :: ('p, 't, host_buffer option \<times> device_buffer option) emp"
      obtain r' t' where bk: "?undo v = (r', t')" by fastforce
      note B = granted_returned [OF ok granted(3) v bk, of "{key l i}" P "key l i" dest]
      show ?thesis
      proof (cases "is_cpp_exception x")
        case True
        then have "r = Inl x" "t = t'" using start Inl bk B by simp_all
        with B show ?thesis by simp
      next
        case False
        then have "r = Inl x" "t = v" using start Inl by simp_all
        with granted_leaked [OF ok granted(3) v] show ?thesis by simp
      qed
    next
      case (Inr wd)
      obtain w d where wd: "wd = (w, d)" by fastforce
      obtain m2 where rel: "releaseHeld e v = (Inr True, v\<lparr>em_memory := m2\<rparr>)"
        and used: "\<forall>t w d. em_memory t = m2 \<longrightarrow> em_experts t = AList.update (key l i) (placed dest a w d e) (em_experts s) \<longrightarrow>
          em_policyExperts t = em_policyExperts s \<longrightarrow> em_nextPolicyId t = em_nextPolicyId s \<longrightarrow>
          em_legacyExperts t = em_legacyExperts s \<longrightarrow> em_accessClock t = em_accessClock s \<longrightarrow>
          em_ok t \<and> frame {key l i} P s t \<and> moved (key l i) dest s (Inr ()) t"
        using granted_used [OF ok e nl granted(3) v, of P] by blast
      note V = only_envD [OF v]
      have "em_find (v\<lparr>em_memory := m2\<rparr>) (key l i) = Some e" using e V by simp
      note E = commitMove_experts [OF this]
      have "r = Inr ()" and t: "t = commitMove env (key l i) source dest (me_policyId e) a w d (v\<lparr>em_memory := m2\<rparr>)"
        using start Inr wd rel by simp_all
      moreover have "em_experts t = AList.update (key l i) (placed dest a w d e) (em_experts s)"
        using E V by (simp add: t)
      ultimately show ?thesis using used [rule_format, of t w d] V by (simp add: commitMove_fields)
    qed
  qed
qed

lemma loadDirect_step:
  fixes s :: "('p, 't) expert_manager"
  assumes ok: "em_ok s" and e: "em_find s (key l i) = Some e" and nl: "me_residencyLeases e = 0"
    and run: "loadDirect env submit l i s = (r, t)"
  shows "em_ok t \<and> frame {key l i} P s t \<and> moved (key l i) Ram s r t"
proof -
  let ?req = "transfer_request_default\<lparr>tr_layerId := exp_layer (me_metadata e), tr_expertId := i, tr_destination := Ram\<rparr>"
  obtain rr u where res: "reserve Ram (exp_sizeBytes (me_metadata e)) l i
      ''memory reservation failed after eviction'' s = (rr, u)" by fastforce
  from res show ?thesis
  proof (cases rule: reserve_cases)
    case (refused x)
    then have "r = Inl x" "t = s" using run res e by (simp_all add: loadDirect_def)
    then show ?thesis using ok by (simp add: moved_unchanged)
  next
    case (granted a m1)
    obtain br v where tr: "on_transfers (submit ?req) (s\<lparr>em_memory := m1\<rparr>) = (br, v)" by fastforce
    have v: "only_env (s\<lparr>em_memory := m1\<rparr>) v" using keepsD [OF keeps_on_transfers _ tr] by simp
    note start = run [unfolded loadDirect_def] res e granted(1,2) tr
    note bk = granted_returned [OF ok granted(3) v, of _ r t "{key l i}" P "key l i" Ram]
    show ?thesis
    proof (cases br)
      case (Inl x)
      then have "r = Inl x" "t = v" using start by simp_all
      with granted_leaked [OF ok granted(3) v] show ?thesis by simp
    next
      case (Inr loaded)
      obtain m2 where rel: "releaseHeld e v = (Inr True, v\<lparr>em_memory := m2\<rparr>)"
        and used: "\<forall>t w d. em_memory t = m2 \<longrightarrow> em_experts t = AList.update (key l i) (placed Ram a w d e) (em_experts s) \<longrightarrow>
          em_policyExperts t = em_policyExperts s \<longrightarrow> em_nextPolicyId t = em_nextPolicyId s \<longrightarrow>
          em_legacyExperts t = em_legacyExperts s \<longrightarrow> em_accessClock t = em_accessClock s \<longrightarrow>
          em_ok t \<and> frame {key l i} P s t \<and> moved (key l i) Ram s (Inr ()) t"
        using granted_used [OF ok e nl granted(3) v, of P] by blast
      note V = only_envD [OF v]
      have ev: "em_find v (key l i) = Some e" using e V by simp
      show ?thesis
      proof (cases "ts_status loaded = Completed \<and> ts_buffer loaded \<noteq> None \<and>
          hb_size (the (ts_buffer loaded)) = exp_sizeBytes (me_metadata e)")
        case False
        then obtain er where "thenp (on_memory (mm_release (ma_id a))) (raise er) v = (r, t)"
          using start Inr by (cases "ts_status loaded = Completed \<and> ts_buffer loaded \<noteq> None") auto
        from bk [OF this] show ?thesis by simp
      next
        case True
        with start Inr rel have "r = Inr ()" and t: "t = em_policy_upd (onResident (env_policy env) (me_policyId e) Ram)
            (em_set (key l i) (placed Ram a (ts_buffer loaded) None) (v\<lparr>em_memory := m2\<rparr>))"
          by (simp_all add: placed_def [abs_def])
        moreover from t ev V have "em_experts t = AList.update (key l i) (placed Ram a (ts_buffer loaded) None e) (em_experts s)"
          by (simp add: em_set_def)
        ultimately show ?thesis using used [rule_format, of t "ts_buffer loaded" None] V by simp
      qed
    qed
  qed
qed

subsection \<open>Victims\<close>

lemma candidate_expert:
  assumes ok: "em_ok s" and v: "v \<in> set (candidatesLocked tier s)"
  obtains k e where "em_find s k = Some e" and "me_policyId e = v" and "loc e = tier"
    and "me_residencyLeases e = 0" and "k = key (exp_layer (me_metadata e)) (exp_id (me_metadata e))"
    and "identifyVictim v s = (Inr (me_metadata e), s)"
proof -
  from v obtain k e where ke: "(k, e) \<in> set (em_experts s)" "me_policyId e = v" "loc e = tier"
      "me_residencyLeases e = 0"
    by (auto simp: candidatesLocked_def)
  have "distinct (map fst (em_experts s))" using ok by (simp add: em_ok_def em_inv_parts)
  with ke(1) have f: "em_find s k = Some e" by (simp add: em_find_def)
  from em_okD(1,4) [OF ok f] ke f show ?thesis
    by (intro that [OF f]) (simp_all add: identifyVictim_def)
qed

lemma candidateI:
  assumes "em_find s k = Some e" and "loc e = tier" and "me_residencyLeases e = 0"
  shows "me_policyId e \<in> set (candidatesLocked tier s)"
  using map_of_SomeD [OF assms(1) [unfolded em_find_def]] assms(2,3)
  by (force simp: candidatesLocked_def)

text \<open>The victim itself was demoted, so its move is one that pinning did not forbid.\<close>

lemma frame_victim:
  assumes fr: "frame {k} (insert v P) s t" and e: "em_find s k = Some e" and t: "em_find t k = Some e'"
    and v: "me_policyId e = v" "v \<notin> P" "me_residencyLeases e = 0" and d: "e' = e \<or> demoted (loc e) (loc e')"
  shows "frame {} P s t"
  unfolding frame_def
proof (intro conjI allI impI)
  show "core s t" by (rule frame_core [OF fr])
  fix j f
  assume f: "em_find s j = Some f"
  from frame_find [OF fr f] obtain f' where f': "em_find t j = Some f'" "evolved (j \<in> {k}) (insert v P) f f'" by blast
  show "\<exists>f'. em_find t j = Some f' \<and> evolved (j \<in> {}) P f f'"
  proof (cases "j = k")
    case True
    with f f' e t v d show ?thesis by (auto simp: evolved_def)
  next
    case False
    with f' show ?thesis by (auto simp: evolved_def)
  qed
qed

definition move_spec :: "expert_key \<Rightarrow> expert_id set \<Rightarrow> memory_tier \<Rightarrow> ('p, 't, unit) emp \<Rightarrow> bool" where
  "move_spec k P dest m \<longleftrightarrow>
     (\<forall>s r t. em_ok s \<longrightarrow> (\<forall>e. em_find s k = Some e \<longrightarrow> me_policyId e \<in> P) \<longrightarrow> m s = (r, t) \<longrightarrow>
        em_ok t \<and> frame {k} P s t \<and> moved k dest s r t)"

definition room_spec :: "expert_id set \<Rightarrow> memory_tier \<Rightarrow> u64 \<Rightarrow> ('p, 't, unit) emp \<Rightarrow> bool" where
  "room_spec P tier bytes m \<longleftrightarrow>
     (\<forall>s r t. em_ok s \<longrightarrow> m s = (r, t) \<longrightarrow>
        em_ok t \<and> frame {} P s t \<and>
        (r = Inr () \<longrightarrow> tier \<noteq> Nvme \<longrightarrow> bytes \<le> availableBytes (usageFor (em_memory t) tier)))"

lemma move_specD:
  "move_spec k P dest m \<Longrightarrow> em_ok s \<Longrightarrow> (\<And>e. em_find s k = Some e \<Longrightarrow> me_policyId e \<in> P) \<Longrightarrow> m s = (r, t) \<Longrightarrow>
   em_ok t \<and> frame {k} P s t \<and> moved k dest s r t"
  unfolding move_spec_def by blast

lemma room_specD:
  "room_spec P tier bytes m \<Longrightarrow> em_ok s \<Longrightarrow> m s = (r, t) \<Longrightarrow> em_ok t \<and> frame {} P s t"
  unfolding room_spec_def by blast

lemma frame_policyId:
  "frame X P s t \<Longrightarrow> em_find s k = Some e \<Longrightarrow> em_find t k = Some e' \<Longrightarrow> me_policyId e' = me_policyId e"
  by (drule (1) frame_find) (auto simp: evolved_def same_identity_def)

lemma demote_step:
  assumes mv: "\<And>d. d = Ram \<or> d = Nvme \<Longrightarrow> move_spec k (insert v P) d (mv d)"
    and ok: "em_ok s" and e: "em_find s k = Some e" and v: "me_policyId e = v" "v \<notin> P"
    and nl: "me_residencyLeases e = 0" and tier: "loc e = tier" "tier \<noteq> Nvme"
    and run: "demote mv tier s = (r, t)"
  shows "em_ok t \<and> frame {} P s t \<and> (r = Inr () \<longrightarrow> (\<exists>e'. em_find t k = Some e' \<and> demoted tier (loc e')))"
proof -
  have final: "em_ok t \<and> frame {} P s t \<and> (r = Inr () \<longrightarrow> (\<exists>e'. em_find t k = Some e' \<and> demoted tier (loc e')))"
    if "em_ok t" "frame {k} (insert v P) s t" "em_find t k = Some f" "f = e \<or> demoted (loc e) (loc f)"
      "r = Inr () \<longrightarrow> demoted tier (loc f)" for f
    using that frame_victim [OF that(2) e that(3) v nl that(4)] by auto
  have one: "em_ok u \<and> frame {k} (insert v P) s u \<and>
      (\<exists>f. em_find u k = Some f \<and> (f = e \<or> demoted (loc e) (loc f)) \<and> (r' = Inr () \<longrightarrow> demoted tier (loc f)))"
    if "mv d s = (r', u)" "d = Nvme \<or> (d = Ram \<and> tier = Vram)" for d r' u
    using move_specD [OF mv ok _ that(1)] that(2) e v tier by (fastforce simp: moved_def)
  show ?thesis
  proof (cases "tier = Vram")
    case False
    with run have "mv Nvme s = (r, t)" by (simp add: demote_def)
    from one [OF this] final show ?thesis by blast
  next
    case True
    with run have "catchp (mv Ram) is_runtime_error (\<lambda>_. mv Nvme) s = (r, t)" by (simp add: demote_def)
    then show ?thesis
    proof (cases rule: catchp_cases)
      case (3 x u)
      from one [OF 3(1)] True obtain f where u: "em_ok u" "frame {k} (insert v P) s u"
        and f: "em_find u k = Some f" "f = e \<or> demoted (loc e) (loc f)" by blast
      from frame_policyId [OF u(2) e f(1)] v have pf: "me_policyId f = v" by simp
      from move_specD [OF mv [of Nvme] u(1) _ 3(3)] f pf
      have w: "em_ok t" "frame {k} (insert v P) u t" "moved k Nvme u r t" by auto
      from w(3) f tier obtain g where g: "em_find t k = Some g" "g = f \<or> loc g = Nvme"
          "r = Inr () \<longrightarrow> loc g = Nvme"
        by (auto simp: moved_def)
      have "g = e \<or> demoted (loc e) (loc g)" using g f tier True by auto
      with final [OF w(1) frame_trans [OF u(2) w(2)] g(1)] g(3) True show ?thesis by auto
    qed (use one True final in blast)+
  qed
qed

subsection \<open>The mutual recursion keeps the invariant\<close>

lemma moved_after:
  "em_find u k = em_find s k \<Longrightarrow> moved k dest u r t \<Longrightarrow> moved k dest s r t"
  by (simp add: moved_def)

lemma room_then:
  assumes room: "room_spec P dest bytes rm" and ok: "em_ok s" and e: "em_find s k = Some e"
    and p: "me_policyId e \<in> P"
    and step: "\<And>u r t. em_ok u \<Longrightarrow> em_find u k = Some e \<Longrightarrow> next_step u = (r, t) \<Longrightarrow>
        em_ok t \<and> frame {k} P u t \<and> moved k dest u r t"
    and run: "thenp rm next_step s = (r, t)"
  shows "em_ok t \<and> frame {k} P s t \<and> moved k dest s r t"
  using run
proof (cases rule: thenp_cases)
  case (1 x)
  with room_specD [OF room ok] frame_pinned [OF _ e p]
  have "em_ok t" "frame {} P s t" "em_find t k = Some e" by blast+
  with 1 e show ?thesis by (auto simp: moved_def intro: frame_mono)
next
  case (2 x u)
  from room_specD [OF room ok 2(1)] have u: "em_ok u" "frame {} P s u" by auto
  from frame_pinned [OF u(2) e p] have eu: "em_find u k = Some e" .
  from step [OF u(1) eu 2(2)] have "em_ok t" "frame {k} P u t" "moved k dest u r t" by auto
  with frame_mono [OF u(2), of "{k}" P] eu e show ?thesis
    by (auto intro: frame_trans moved_after)
qed

lemma staged_moves:
  assumes mv: "\<And>d. move_spec k P d (mv d)" and ok: "em_ok s" and e: "em_find s k = Some e"
    and p: "me_policyId e \<in> P" and cold: "loc e = Nvme"
    and run: "thenp (mv Ram) (mv Vram) s = (r, t)"
  shows "em_ok t \<and> frame {k} P s t \<and> moved k Vram s r t"
  using run
proof (cases rule: thenp_cases)
  case (1 x)
  from move_specD [OF mv ok _ 1(1)] e p cold 1(2) show ?thesis by (auto simp: moved_def)
next
  case (2 x u)
  from move_specD [OF mv ok _ 2(1)] e p have u: "em_ok u" "frame {k} P s u" "moved k Ram s (Inr x) u" by auto
  from u(3) e obtain f where f: "em_find u k = Some f" "loc f = Ram" by (auto simp: moved_def)
  from frame_policyId [OF u(2) e f(1)] p have "me_policyId f \<in> P" by simp
  with move_specD [OF mv u(1) _ 2(2)] f have "em_ok t" "frame {k} P u t" "moved k Vram u r t" by auto
  with u(2) f e cold show ?thesis by (auto simp: moved_def intro: frame_trans)
qed

lemma moveExpertBody_spec:
  assumes mv: "\<And>d. move_spec (key l i) P d (mv d)" and room: "\<And>d b. room_spec P d b (room d b)"
  shows "move_spec (key l i) P dest (moveExpertBody mv room env l i dest)"
  unfolding move_spec_def
proof (intro allI impI)
  fix s r t
  let ?k = "key l i"
  assume ok: "em_ok s" and pin: "\<forall>e. em_find s ?k = Some e \<longrightarrow> me_policyId e \<in> P"
    and run: "moveExpertBody mv room env l i dest s = (r, t)"
  show "em_ok t \<and> frame {?k} P s t \<and> moved ?k dest s r t"
  proof (cases "em_find s ?k")
    case None
    with run ok show ?thesis by (auto simp: moveExpertBody_def requireExpertLocked_def bindp_def moved_def)
  next
    case (Some e)
    note run' = run [unfolded moveExpertBody_def Let_def,
        unfolded bindp_Inr [where m = "requireExpertLocked l i" and s = s and x = e and t = s,
          OF requireExpertLocked_find [OF Some]]]
    from pin Some have p: "me_policyId e \<in> P" by blast
    consider "loc e = dest" | "me_residencyLeases e \<noteq> 0" "loc e \<noteq> dest"
      | "me_residencyLeases e = 0" "loc e = Nvme" "dest = Vram"
      | "me_residencyLeases e = 0" "loc e = Nvme" "dest = Ram" "env_transfers env \<noteq> None"
      | "me_residencyLeases e = 0" "loc e \<noteq> dest" "dest = Nvme"
      | "me_residencyLeases e = 0" "loc e \<noteq> dest" "dest \<noteq> Nvme" "\<not> (loc e = Nvme \<and> dest = Vram)"
        "\<not> (loc e = Nvme \<and> dest = Ram \<and> env_transfers env \<noteq> None)" by blast
    then show ?thesis
    proof cases
      case 3
      with run' have "thenp (mv Ram) (mv Vram) s = (r, t)" by simp
      from staged_moves [OF mv ok Some p 3(2) this] 3(3) show ?thesis by simp
    next
      case 4
      with run' have "thenp (room Ram (exp_sizeBytes (me_metadata e))) (loadDirect env (the (env_transfers env)) l i) s = (r, t)"
        by simp
      from room_then [OF room ok Some p loadDirect_step [OF _ _ 4(1)] this] 4(3) show ?thesis by simp
    next
      case 5
      with run' have "dropToNvme env ?k e s = (r, t)" by simp
      from dropToNvme_step [OF ok Some 5(1) this] 5(3) show ?thesis by simp
    next
      case 6
      with run' have "thenp (room dest (exp_sizeBytes (me_metadata e))) (relocate env l i (loc e) dest) s = (r, t)"
        by (auto split: if_splits)
      from room_then [OF room ok Some p relocate_step [OF _ _ 6(1)] this] show ?thesis by simp
    qed (use run' ok Some in \<open>auto simp: moved_def\<close>)
  qed
qed

context victim_policy
begin

lemma makeRoomLoopBody_spec:
  assumes env: "env_policy env = ops" and tier: "tier \<noteq> Nvme"
    and mv: "\<And>l i d ps. move_spec (key l i) ps d (mv l i d ps)"
    and again: "room_spec P tier bytes again"
  shows "room_spec P tier bytes (makeRoomLoopBody mv again env tier bytes P)"
  unfolding room_spec_def
proof (intro allI impI)
  fix s r t
  assume ok: "em_ok s" and run: "makeRoomLoopBody mv again env tier bytes P s = (r, t)"
  have us: "em_usage tier s = (Inr (usageFor (em_memory s) tier), s)"
    using tier by (simp add: em_usage_def mm_usage_def)
  let ?room = "\<lambda>t. bytes \<le> availableBytes (usageFor (em_memory t) tier)"
  note run' = run [unfolded makeRoomLoopBody_def,
      unfolded bindp_Inr [where m = "em_usage tier" and s = s and t = s, OF us]]
  show "em_ok t \<and> frame {} P s t \<and> (r = Inr () \<longrightarrow> tier \<noteq> Nvme \<longrightarrow> ?room t)"
  proof (cases "availableBytes (usageFor (em_memory s) tier) < bytes")
    case False
    with run' have "t = s" by simp
    with ok False show ?thesis by (simp add: not_less)
  next
    case full: True
    let ?sel = "selectVictim (env_policy env) (em_policy s) tier (candidatesLocked tier s) P"
    show ?thesis
    proof (cases ?sel)
      case None
      with run' full have "t = s" "r \<noteq> Inr ()" by auto
      with ok show ?thesis by simp
    next
      case (Some v)
      with env have v: "v \<in> set (candidatesLocked tier s)" "v \<notin> P" using victim_sound by blast+
      from candidate_expert [OF ok v(1)] obtain k e where e: "em_find s k = Some e" "me_policyId e = v"
        "loc e = tier" "me_residencyLeases e = 0" and k: "k = key (exp_layer (me_metadata e)) (exp_id (me_metadata e))"
        and idv: "identifyVictim v s = (Inr (me_metadata e), s)" by blast
      let ?d = "demote (\<lambda>t. mv (exp_layer (me_metadata e)) (exp_id (me_metadata e)) t (insert v P)) tier"
      have "thenp ?d again s = (r, t)" using run' full Some idv by simp
      then show ?thesis
      proof (cases rule: thenp_cases)
        case (1 x)
        from demote_step [OF mv [of "exp_layer (me_metadata e)" "exp_id (me_metadata e)", folded k] ok e(1,2) v(2) e(4,3) tier 1(1)] 1(2)
        show ?thesis by simp
      next
        case (2 x u)
        from demote_step [OF mv [of "exp_layer (me_metadata e)" "exp_id (me_metadata e)", folded k] ok e(1,2) v(2) e(4,3) tier 2(1)]
        have u: "em_ok u" "frame {} P s u" by auto
        from again u(1) 2(2) have "em_ok t" "frame {} P u t" "r = Inr () \<longrightarrow> ?room t"
          using tier unfolding room_spec_def by blast+
        with u(2) show ?thesis by (blast intro: frame_trans)
      qed
    qed
  qed
qed

lemma recursion_spec:
  assumes env: "env_policy env = ops"
  shows "move_spec (key l i) P dest (moveExpertLocked n env l i dest P)"
    and "room_spec P tier bytes (makeRoomLocked n env tier bytes P)"
    and "tier \<noteq> Nvme \<Longrightarrow> room_spec P tier bytes (makeRoomLoop n env tier bytes P)"
proof (induction n arbitrary: l i P dest tier bytes)
  case 0
  {
    case 1
    show ?case by (simp add: move_spec_def moved_def)
  next
    case 2
    show ?case by (simp add: room_spec_def)
  next
    case 3
    show ?case by (simp add: room_spec_def)
  }
next
  case (Suc n)
  {
    case 1
    show ?case by (simp add: moveExpertBody_spec Suc.IH)
  next
    case 2
    show ?case
    proof (cases "tier = Nvme")
      case True
      then show ?thesis by (auto simp: room_spec_def makeRoomBody_def)
    next
      case False
      from Suc.IH(3) [OF this, of P bytes] False show ?thesis
        by (auto simp: room_spec_def makeRoomBody_def em_usage_def mm_usage_def bindp_def)
    qed
  next
    case 3
    then show ?case by (simp add: makeRoomLoopBody_spec [OF env] Suc.IH)
  }
qed

end

end
