(* ===== verification/Expert_Manager_Fuel.thy ===== *)
theory Expert_Manager_Fuel
  imports Expert_Manager_Inv
begin

text \<open>
  Termination of the mutual recursion between \<open>moveExpertLocked\<close> and \<open>makeRoomLocked\<close>. Every
  victim goes down towards NVMe, so the work left is bounded by \<open>pend\<close>: two for each expert in
  VRAM and one for each in RAM, of those that hold no lease and are not pinned. \<open>em_fuel\<close> is above
  that bound, so with a policy that keeps its contract no public operation runs out of fuel.
\<close>

subsection \<open>The measure\<close>

fun height :: "memory_tier \<Rightarrow> nat" where
  "height Nvme = 0"
| "height Vram = 2"
| "height _ = 1"

lemma demoted_height: "demoted a b \<Longrightarrow> height b < height a"
  by (cases a; cases b) auto

lemma height_le: "height t \<le> 2"
  by (cases t) auto

definition cost :: "expert_id set \<Rightarrow> managed_expert option \<Rightarrow> nat" where
  "cost P m = (case m of None \<Rightarrow> 0
     | Some e \<Rightarrow> if me_residencyLeases e = 0 \<and> me_policyId e \<notin> P then height (loc e) else 0)"

definition pend :: "expert_id set \<Rightarrow> ('p, 't) expert_manager \<Rightarrow> nat" where
  "pend P s = (\<Sum>k\<in>set (map fst (em_experts s)). cost P (em_find s k))"

lemma pend_bound: "pend P s \<le> 2 * length (em_experts s)"
proof -
  have "pend P s \<le> (\<Sum>k\<in>set (map fst (em_experts s)). 2)"
    unfolding pend_def by (rule sum_mono) (auto simp: cost_def height_le split: option.split)
  also have "\<dots> = 2 * card (set (map fst (em_experts s)))" by simp
  also have "\<dots> \<le> 2 * length (em_experts s)" using card_length [of "map fst (em_experts s)"] by simp
  finally show ?thesis .
qed

lemma find_listed: "em_find s k = Some e \<Longrightarrow> k \<in> set (map fst (em_experts s))"
  by (force simp: em_find_def dest: map_of_SomeD)

lemma frame_cost:
  assumes fr: "frame X P s t" and X: "\<And>k e. k \<in> X \<Longrightarrow> em_find s k = Some e \<Longrightarrow> me_policyId e \<in> P"
    and k: "k \<in> set (map fst (em_experts s))"
  shows "cost P (em_find t k) \<le> cost P (em_find s k)"
proof -
  from k obtain e where e: "em_find s k = Some e"
    by (cases "em_find s k") (auto simp: em_find_def map_of_eq_None_iff)
  from frame_find [OF fr e] obtain e' where e': "em_find t k = Some e'" "evolved (k \<in> X) P e e'" by blast
  with e X [OF _ e] show ?thesis
    by (auto simp: cost_def evolved_def same_identity_def dest: demoted_height)
qed

lemma frame_pend:
  assumes fr: "frame X P s t" and X: "\<And>k e. k \<in> X \<Longrightarrow> em_find s k = Some e \<Longrightarrow> me_policyId e \<in> P"
  shows "pend P t \<le> pend P s"
proof -
  have "map fst (em_experts t) = map fst (em_experts s)" using fr by (simp add: frame_def core_def)
  then show ?thesis unfolding pend_def by (simp only:) (intro sum_mono frame_cost [OF fr X])
qed

lemma frame_pend_less:
  assumes fr: "frame {} P s t" and e: "em_find s k = Some e" and e': "em_find t k = Some e'"
    and d: "demoted (loc e) (loc e')" and free: "me_residencyLeases e = 0" "me_policyId e \<notin> P"
  shows "pend P t < pend P s"
proof -
  have "map fst (em_experts t) = map fst (em_experts s)" using fr by (simp add: frame_def core_def)
  moreover from frame_find [OF fr e] e' have "same_identity e e'" by (auto simp: evolved_def)
  with e e' d free have "cost P (em_find t k) < cost P (em_find s k)"
    by (auto simp: cost_def same_identity_def dest: demoted_height)
  ultimately show ?thesis unfolding pend_def using find_listed [OF e]
    by (simp only:) (intro sum_strict_mono_ex1 ballI frame_cost [OF fr] bexI [of _ k], auto)
qed

lemma pend_pin_victim:
  assumes e: "em_find s k = Some e" and free: "me_residencyLeases e = 0" "me_policyId e \<notin> P" and v: "loc e = Vram"
  shows "pend (insert (me_policyId e) P) s + 2 \<le> pend P s"
proof -
  let ?K = "set (map fst (em_experts s))" and ?Q = "insert (me_policyId e) P"
  have "pend ?Q s = cost ?Q (em_find s k) + (\<Sum>j\<in>?K - {k}. cost ?Q (em_find s j))"
    unfolding pend_def by (rule sum.remove) (use find_listed [OF e] in simp_all)
  moreover have "pend P s = cost P (em_find s k) + (\<Sum>j\<in>?K - {k}. cost P (em_find s j))"
    unfolding pend_def by (rule sum.remove) (use find_listed [OF e] in simp_all)
  moreover have "(\<Sum>j\<in>?K - {k}. cost ?Q (em_find s j)) \<le> (\<Sum>j\<in>?K - {k}. cost P (em_find s j))"
    by (rule sum_mono) (auto simp: cost_def split: option.split)
  ultimately show ?thesis using e free v by (simp add: cost_def)
qed

lemma pend_pos:
  assumes e: "em_find s k = Some e" and free: "me_residencyLeases e = 0" "me_policyId e \<notin> P" and v: "loc e \<noteq> Nvme"
  shows "0 < pend P s"
proof -
  have "0 < height (loc e)" using v by (cases "loc e") auto
  then have "0 < cost P (em_find s k)" using e free by (simp add: cost_def)
  also have "\<dots> \<le> pend P s"
    unfolding pend_def using find_listed [OF e] by (intro member_le_sum) simp_all
  finally show ?thesis .
qed

lemma pend_mono: "P \<subseteq> Q \<Longrightarrow> pend Q s \<le> pend P s"
  unfolding pend_def by (rule sum_mono) (auto simp: cost_def split: option.split)

subsection \<open>Programs that return or throw\<close>

definition ends :: "('s, 'a) prog \<Rightarrow> 's \<Rightarrow> bool" where
  "ends m s \<longleftrightarrow> fst (m s) \<noteq> Inl Diverged"

lemma ends_thenp:
  assumes "ends m s" and "\<And>x u. m s = (Inr x, u) \<Longrightarrow> ends k u"
  shows "ends (thenp m k) s"
  using assms by (cases "m s"; cases "fst (m s)") (auto simp: ends_def)

lemma ends_bindp:
  assumes "ends m s" and "\<And>x u. m s = (Inr x, u) \<Longrightarrow> ends (f x) u"
  shows "ends (bindp m f) s"
  using assms by (cases "m s"; cases "fst (m s)") (auto simp: ends_def)

lemma ends_catchp:
  assumes "ends m s" and "\<And>e u. m s = (Inl e, u) \<Longrightarrow> p e \<Longrightarrow> ends (h e) u"
  shows "ends (catchp m p h) s"
  using assms by (cases "m s"; cases "fst (m s)") (auto simp: ends_def)

lemma ends_simps [simp]:
  "ends (ret x) s" "ends (gets f) s" "ends (modify g) s"
  "ends (raise e) s \<longleftrightarrow> e \<noteq> Diverged" "ends (require b e) s \<longleftrightarrow> b \<or> e \<noteq> Diverged"
  by (simp_all add: ends_def)

lemma ends_requireExpertLocked [simp]: "ends (requireExpertLocked l i) s"
  by (simp add: ends_def requireExpertLocked_def split: option.split)

lemma ends_release [simp]: "ends (on_memory (mm_release i)) s"
  by (simp add: ends_def on_memory_apply mm_release_result)

lemma ends_reserve [simp]: "ends (reserve tier n l i msg) s"
proof (cases "reserve tier n l i msg s")
  case (Pair r t)
  from Pair show ?thesis
    by (cases rule: reserve_cases) (auto simp: ends_def is_cpp_exception_iff Pair)
qed

lemma ends_releaseHeld [simp]: "ends (releaseHeld e) s"
  by (simp add: releaseHeld_def split: option.split)

lemma ends_identifyVictim [simp]: "ends (identifyVictim v) s"
  by (simp add: ends_def identifyVictim_def split: option.split)

lemma ends_em_usage [simp]: "ends (em_usage tier) s"
  by (simp add: ends_def em_usage_def mm_usage_def)

lemma ends_copyWeights [simp]: "ends (copyWeights b) s"
  by (simp add: ends_def copyWeights_def)

text \<open>What is relied on of the transfer service: a submission is answered, by a result or by an
  exception.\<close>

definition transfers_end :: "('p, 't) manager_env \<Rightarrow> bool" where
  "transfers_end env \<longleftrightarrow> (\<forall>submit req t. env_transfers env = Some submit \<longrightarrow> fst (submit req t) \<noteq> Inl Diverged)"

lemma ends_on_transfers [simp]:
  "transfers_end env \<Longrightarrow> env_transfers env = Some submit \<Longrightarrow> ends (on_transfers (submit req)) s"
  by (simp add: transfers_end_def ends_def on_transfers_apply)

lemmas ends_rules = ends_thenp ends_bindp ends_catchp

lemma ends_loadDirect:
  "transfers_end env \<Longrightarrow> env_transfers env = Some submit \<Longrightarrow> ends (loadDirect env submit l i) s"
  unfolding loadDirect_def by (auto intro!: ends_rules)

lemma ends_dropToNvme: "ends (dropToNvme env k e) s"
  unfolding dropToNvme_def by (auto intro!: ends_rules simp: Let_def)

lemma ends_destinationBuffers:
  "transfers_end env \<Longrightarrow> ends (destinationBuffers env i source dest e) s"
  unfolding destinationBuffers_def Let_def
  by (auto split: option.split intro!: ends_rules)

lemma ends_relocate: "transfers_end env \<Longrightarrow> ends (relocate env l i source dest) s"
  unfolding relocate_def
  by (auto intro!: ends_rules simp: ends_destinationBuffers is_cpp_exception_iff split: prod.split)

subsection \<open>Enough fuel\<close>

lemma moveExpertBody_ends:
  assumes te: "transfers_end env" and ok: "em_ok s"
    and pin: "\<And>e. em_find s (key l i) = Some e \<Longrightarrow> me_policyId e \<in> P"
    and self: "\<And>d. move_spec (key l i) P d (mv d)"
    and ram: "dest = Vram \<Longrightarrow> ends (mv Ram) s"
    and vram: "\<And>u e. dest = Vram \<Longrightarrow> em_find s (key l i) = Some e \<Longrightarrow> loc e = Nvme \<Longrightarrow> em_ok u \<Longrightarrow> frame {key l i} P s u \<Longrightarrow>
      (\<exists>e. em_find u (key l i) = Some e \<and> loc e = Ram) \<Longrightarrow> ends (mv Vram) u"
    and room: "\<And>b. dest \<noteq> Nvme \<Longrightarrow>
      dest = Vram \<longrightarrow> (\<exists>e. em_find s (key l i) = Some e \<and> loc e \<noteq> Nvme) \<Longrightarrow> ends (room dest b) s"
  shows "ends (moveExpertBody mv room env l i dest) s"
proof (cases "em_find s (key l i)")
  case None
  then show ?thesis
    by (simp add: ends_def moveExpertBody_def requireExpertLocked_def bindp_def)
next
  case (Some e)
  have staged: "ends (thenp (mv Ram) (mv Vram)) s" if "dest = Vram" "loc e = Nvme"
  proof (rule ends_thenp [OF ram [OF that(1)]])
    fix x u
    assume "mv Ram s = (Inr x, u)"
    from move_specD [OF self ok pin this] Some show "ends (mv Vram) u"
      by (intro vram [OF that(1) Some that(2)]) (auto simp: moved_def)
  qed
  have direct: "ends (thenp (room dest b) (loadDirect env (the (env_transfers env)) l i)) s"
    if "dest = Ram" "env_transfers env \<noteq> None" for b
    using that by (intro ends_thenp room) (auto intro: ends_loadDirect [OF te])
  have two: "ends (thenp (room dest b) (relocate env l i (loc e) dest)) s"
    if "dest \<noteq> Nvme" "\<not> (loc e = Nvme \<and> dest = Vram)" for b
    using that Some by (intro ends_thenp room ends_relocate [OF te]) auto
  show ?thesis unfolding moveExpertBody_def
  proof (rule ends_bindp, simp)
    fix m u
    assume "requireExpertLocked l i s = (Inr m, u)"
    with Some have "m = e" "u = s" by simp_all
    then show "ends (let source = loc m in
       if source = dest then ret ()
       else if me_residencyLeases m \<noteq> 0
       then raise (LogicError ''cannot move expert while a residency lease is active'')
       else if source = Nvme \<and> dest = Vram then thenp (mv Ram) (mv Vram)
       else if source = Nvme \<and> dest = Ram \<and> env_transfers env \<noteq> None then
         thenp (room dest (exp_sizeBytes (me_metadata m)))
           (loadDirect env (the (env_transfers env)) l i)
       else if dest = Nvme then dropToNvme env (key l i) m
       else
         thenp (room dest (exp_sizeBytes (me_metadata m)))
           (relocate env l i source dest)) u"
      using staged direct two by (simp add: Let_def ends_dropToNvme)
  qed
qed

lemma moveExpertBody_Nvme_ends: "ends (moveExpertBody mv room env l i Nvme) s"
  unfolding moveExpertBody_def by (rule ends_bindp) (simp_all add: Let_def ends_dropToNvme)

lemma em_usage_pure: "em_usage tier s = (r, t) \<Longrightarrow> t = s"
  by (simp add: em_usage_def)

context victim_policy
begin

lemma makeRoomLoopBody_ends:
  assumes env: "env_policy env = ops" and tier: "tier \<noteq> Nvme" and ok: "em_ok s"
    and spec: "\<And>l i d ps. move_spec (key l i) ps d (mv l i d ps)"
    and ram: "\<And>k e. em_find s k = Some e \<Longrightarrow> k = key (exp_layer (me_metadata e)) (exp_id (me_metadata e)) \<Longrightarrow>
        loc e = Vram \<Longrightarrow> me_residencyLeases e = 0 \<Longrightarrow> me_policyId e \<notin> P \<Longrightarrow> tier = Vram \<Longrightarrow>
        ends (mv (exp_layer (me_metadata e)) (exp_id (me_metadata e)) Ram (insert (me_policyId e) P)) s"
    and nvme: "\<And>l i ps u. 0 < pend P s \<Longrightarrow> ends (mv l i Nvme ps) u"
    and again: "\<And>u. em_ok u \<Longrightarrow> pend P u < pend P s \<Longrightarrow> ends again u"
  shows "ends (makeRoomLoopBody mv again env tier bytes P) s"
  unfolding makeRoomLoopBody_def
proof (rule ends_bindp, simp)
  fix us w
  assume "em_usage tier s = (Inr us, w)"
  with tier have [simp]: "w = s" by (simp add: em_usage_def mm_usage_def)
  let ?sel = "selectVictim (env_policy env) (em_policy s) tier (candidatesLocked tier s) P"
  show "ends (if availableBytes us < bytes then
         bindp (gets (\<lambda>s. selectVictim (env_policy env) (em_policy s) tier (candidatesLocked tier s) P))
           (\<lambda>victim. case victim of
              None \<Rightarrow> raise (RuntimeError ''no evictable expert can satisfy memory request'')
            | Some v \<Rightarrow>
                bindp (identifyVictim v) (\<lambda>victimExpert.
                thenp (demote (\<lambda>t. mv (exp_layer victimExpert) (exp_id victimExpert) t (insert v P)) tier)
                  again))
       else ret ()) w"
  proof (cases ?sel)
    case None
    then show ?thesis by (auto simp: ends_def)
  next
    case (Some v)
    with env have v: "v \<in> set (candidatesLocked tier s)" "v \<notin> P" using victim_sound by blast+
    from candidate_expert [OF ok v(1)] obtain k e where e: "em_find s k = Some e" "me_policyId e = v"
      "loc e = tier" "me_residencyLeases e = 0" and k: "k = key (exp_layer (me_metadata e)) (exp_id (me_metadata e))"
      and idv: "identifyVictim v s = (Inr (me_metadata e), s)" by blast
    let ?mv = "\<lambda>t. mv (exp_layer (me_metadata e)) (exp_id (me_metadata e)) t (insert v P)"
    have "0 < pend P s" using pend_pos [OF e(1,4)] e(2,3) v(2) tier by simp
    then have "ends (demote ?mv tier) s"
      using ram [OF e(1) k] e v by (auto simp: demote_def nvme intro!: ends_catchp)
    moreover have "ends again u" if "demote ?mv tier s = (Inr x, u)" for x u
    proof -
      from demote_step [OF spec [of "exp_layer (me_metadata e)" "exp_id (me_metadata e)", folded k]
          ok e(1,2) v(2) e(4,3) tier that]
      obtain e' where "em_ok u" "frame {} P s u" "em_find u k = Some e'" "demoted tier (loc e')" by auto
      with e v show ?thesis by (intro again frame_pend_less [of P s u k e e']) auto
    qed
    ultimately have "ends (thenp (demote ?mv tier) again) s" by (rule ends_thenp)
    then show ?thesis using Some idv by (simp add: ends_def)
  qed
qed

lemma recursion_ends:
  assumes env: "env_policy env = ops" and te: "transfers_end env"
  shows "em_ok s \<Longrightarrow> (\<forall>e. em_find s (key l i) = Some e \<longrightarrow> me_policyId e \<in> P) \<Longrightarrow>
      (if dest = Nvme then 1 \<le> n else if dest \<noteq> Vram then pend P s + 3 \<le> n
       else pend P s + (if \<exists>e. em_find s (key l i) = Some e \<and> loc e \<noteq> Nvme then 4 else 5) \<le> n) \<Longrightarrow>
      ends (moveExpertLocked n env l i dest P) s"
    and "em_ok s \<Longrightarrow> pend P s + (if tier = Vram then 3 else 2) \<le> n \<Longrightarrow> ends (makeRoomLocked n env tier bytes P) s"
    and "em_ok s \<Longrightarrow> tier \<noteq> Nvme \<Longrightarrow> pend P s + (if tier = Vram then 2 else 1) \<le> n \<Longrightarrow>
      ends (makeRoomLoop n env tier bytes P) s"
proof (induction n arbitrary: s l i P dest tier bytes)
  case 0
  {
    case 1
    then show ?case by (auto split: if_splits)
  next
    case 2
    then show ?case by (auto split: if_splits)
  next
    case 3
    then show ?case by (auto split: if_splits)
  }
next
  case (Suc n)
  {
    case 1
    have mono: "pend P u \<le> pend P s" if "frame {key l i} P s u" for u
      using 1(2) by (intro frame_pend [OF that]) blast
    have pinned: "\<forall>e. em_find u (key l i) = Some e \<longrightarrow> me_policyId e \<in> P" if "frame {key l i} P s u" for u
    proof (intro allI impI)
      fix f
      assume f: "em_find u (key l i) = Some f"
      have "map fst (em_experts u) = map fst (em_experts s)" using that by (simp add: frame_def core_def)
      with find_listed [OF f] have "key l i \<in> set (map fst (em_experts s))" by (simp only:)
      then obtain e where e: "em_find s (key l i) = Some e"
        by (cases "em_find s (key l i)") (auto simp: em_find_def map_of_eq_None_iff)
      from frame_policyId [OF that e f] 1(2) e show "me_policyId f \<in> P" by simp
    qed
    show ?case unfolding moveExpertLocked.simps
    proof (rule moveExpertBody_ends [OF te 1(1)])
      show "ends (moveExpertLocked n env l i Ram P) s" if "dest = Vram"
        using 1 that by (intro Suc.IH(1)) (auto split: if_splits)
      show "ends (moveExpertLocked n env l i Vram P) u"
        if "dest = Vram" "em_find s (key l i) = Some e" "loc e = Nvme" "em_ok u" "frame {key l i} P s u"
          "\<exists>e. em_find u (key l i) = Some e \<and> loc e = Ram" for u e
        using 1(3) that mono [OF that(5)] pinned [OF that(5)]
        by (intro Suc.IH(1)) (auto split: if_splits)
    qed (use 1 in \<open>auto intro!: Suc.IH(2) recursion_spec [OF env] split: if_splits\<close>)
  next
    case 2
    then show ?case unfolding makeRoomLocked.simps makeRoomBody_def
      by (auto intro!: ends_bindp Suc.IH(3) split: if_splits dest!: em_usage_pure)
  next
    case 3
    show ?case unfolding makeRoomLoop.simps
    proof (rule makeRoomLoopBody_ends [OF env 3(2,1) recursion_spec(1) [OF env]])
      fix k e
      assume e: "em_find s k = Some e" "k = key (exp_layer (me_metadata e)) (exp_id (me_metadata e))" "loc e = Vram"
        "me_residencyLeases e = 0" "me_policyId e \<notin> P" "tier = Vram"
      from pend_pin_victim [OF e(1,4,5,3)] 3(1,3) e
      show "ends (moveExpertLocked n env (exp_layer (me_metadata e)) (exp_id (me_metadata e)) Ram (insert (me_policyId e) P)) s"
        by (intro Suc.IH(1)) auto
    next
      fix l i ps u
      assume "0 < pend P s"
      with 3(3) obtain m where "n = Suc m" by (cases n) (auto split: if_splits)
      then show "ends (moveExpertLocked n env l i Nvme ps) u" by (simp add: moveExpertBody_Nvme_ends)
    next
      show "ends (makeRoomLoop n env tier bytes P) u" if "em_ok u" "pend P u < pend P s" for u
        using 3 that by (intro Suc.IH(3)) auto
    qed
  }
qed

lemma makeRoom_spec: "env_policy env = ops \<Longrightarrow> room_spec P tier bytes (makeRoom env tier bytes P)"
  using recursion_spec(2) unfolding room_spec_def makeRoom_def by blast

lemma move_move_spec: "env_policy env = ops \<Longrightarrow> move_spec (key l i) P dest (move env l i dest P)"
  using recursion_spec(1) unfolding move_spec_def move_def by blast

lemma makeRoom_ends:
  assumes "env_policy env = ops" "transfers_end env" "em_ok s"
  shows "ends (makeRoom env tier bytes P) s"
proof -
  have "ends (makeRoomLocked (em_fuel s) env tier bytes P) s"
    using pend_bound [of P s] by (intro recursion_ends(2) [OF assms]) (auto simp: em_fuel_def)
  then show ?thesis by (simp add: ends_def makeRoom_def)
qed

lemma move_ends:
  assumes "env_policy env = ops" "transfers_end env" "em_ok s"
    and "\<forall>e. em_find s (key l i) = Some e \<longrightarrow> me_policyId e \<in> P"
  shows "ends (move env l i dest P) s"
proof -
  have "ends (moveExpertLocked (em_fuel s) env l i dest P) s"
    using pend_bound [of P s] by (intro recursion_ends(1) [OF assms]) (auto simp: em_fuel_def)
  then show ?thesis by (simp add: ends_def move_def)
qed

end

end
