(* ===== verification/Expert_Manager_Ops.thy ===== *)
theory Expert_Manager_Ops
  imports Expert_Manager_Fuel
begin

text \<open>
  Every public operation of the expert manager: it keeps the invariant \<open>em_ok\<close>, it leaves an
  expert that holds a residency lease where it is (\<open>steady\<close>), and it returns or throws. The
  operations are reduced to the moves of the previous theories by composition rules for
  \<open>step_ok\<close>.
\<close>

subsection \<open>Steps that keep the invariant and the leases\<close>

definition same_place :: "managed_expert \<Rightarrow> managed_expert \<Rightarrow> bool" where
  "same_place e e' \<longleftrightarrow>
     me_metadata e' = me_metadata e \<and> me_policyId e' = me_policyId e \<and>
     me_allocation e' = me_allocation e \<and> me_weights e' = me_weights e \<and>
     me_deviceWeights e' = me_deviceWeights e \<and> me_residencyLeases e \<le> me_residencyLeases e'"

definition steady :: "('p, 't) expert_manager \<Rightarrow> ('p, 't) expert_manager \<Rightarrow> bool" where
  "steady s t \<longleftrightarrow>
     (\<forall>x. limitBytes (usageFor (em_memory t) x) = limitBytes (usageFor (em_memory s) x)) \<and>
     (\<forall>k e. em_find s k = Some e \<longrightarrow> me_residencyLeases e \<noteq> 0 \<longrightarrow>
        (\<exists>e'. em_find t k = Some e' \<and> same_place e e'))"

lemma same_place_refl [simp]: "same_place e e"
  by (simp add: same_place_def)

lemma steady_refl [simp]: "steady s s"
  by (simp add: steady_def)

lemma steadyD:
  "steady s t \<Longrightarrow> em_find s k = Some e \<Longrightarrow> me_residencyLeases e \<noteq> 0 \<Longrightarrow>
   \<exists>e'. em_find t k = Some e' \<and> same_place e e'"
  unfolding steady_def by blast

lemma steady_trans:
  assumes "steady s t" and "steady t u"
  shows "steady s u"
proof -
  have "\<exists>e''. em_find u k = Some e'' \<and> same_place e e''" if "em_find s k = Some e" "me_residencyLeases e \<noteq> 0" for k e
  proof -
    from steadyD [OF assms(1) that] obtain e' where e': "em_find t k = Some e'" "same_place e e'" by blast
    with that have "me_residencyLeases e' \<noteq> 0" by (auto simp: same_place_def)
    from steadyD [OF assms(2) e'(1) this] obtain e'' where "em_find u k = Some e''" "same_place e' e''" by blast
    with e'(2) show ?thesis by (auto simp: same_place_def)
  qed
  with assms show ?thesis unfolding steady_def by simp
qed

lemma frame_steady:
  assumes "frame X P s t"
  shows "steady s t"
  using frame_leased [OF assms] frame_core [OF assms] unfolding steady_def core_def
  by (blast intro: same_place_refl)

definition step_ok :: "('p, 't, 'a) emp \<Rightarrow> ('p, 't) expert_manager \<Rightarrow> bool" where
  "step_ok m s \<longleftrightarrow> (\<forall>r t. m s = (r, t) \<longrightarrow> em_ok t \<and> steady s t)"

lemma step_okD: "step_ok m s \<Longrightarrow> m s = (r, t) \<Longrightarrow> em_ok t \<and> steady s t"
  by (simp add: step_ok_def)

lemma step_ok_bindp:
  assumes m: "step_ok m s"
    and f: "\<And>x u. m s = (Inr x, u) \<Longrightarrow> em_ok u \<Longrightarrow> step_ok (f x) u"
  shows "step_ok (bindp m f) s"
  unfolding step_ok_def
proof (intro allI impI)
  fix r t
  assume "bindp m f s = (r, t)"
  then show "em_ok t \<and> steady s t"
  proof (cases rule: bindp_cases)
    case (1 e)
    with m show ?thesis by (auto dest: step_okD)
  next
    case (2 x u)
    from step_okD [OF m 2(1)] have "em_ok u" "steady s u" by auto
    with step_okD [OF f [OF 2(1)] 2(2)] show ?thesis by (auto intro: steady_trans)
  qed
qed

lemma step_ok_thenp:
  assumes "step_ok m s" and "\<And>x u. m s = (Inr x, u) \<Longrightarrow> em_ok u \<Longrightarrow> step_ok k u"
  shows "step_ok (thenp m k) s"
  unfolding thenp_def using assms by (rule step_ok_bindp)

lemma step_ok_simple [simp]:
  "em_ok s \<Longrightarrow> step_ok (ret x) s" "em_ok s \<Longrightarrow> step_ok (raise e) s"
  "em_ok s \<Longrightarrow> step_ok (gets f) s" "em_ok s \<Longrightarrow> step_ok (require b e) s"
  "em_ok s \<Longrightarrow> step_ok (em_usage tier) s" "em_ok s \<Longrightarrow> step_ok (identifyVictim v) s"
  by (auto simp: step_ok_def em_usage_def identifyVictim_def split: if_splits option.splits)

lemma step_ok_require:
  assumes "em_ok s" and "b \<Longrightarrow> step_ok m s"
  shows "step_ok (thenp (require b x) m) s"
  using assms by (intro step_ok_thenp) (auto split: if_splits)

lemma step_ok_modify: "em_ok (f s) \<Longrightarrow> steady s (f s) \<Longrightarrow> step_ok (modify f) s"
  by (simp add: step_ok_def)

lemma step_ok_expert:
  assumes ok: "em_ok s" and f: "\<And>e. em_find s (key l i) = Some e \<Longrightarrow> step_ok (f e) s"
  shows "step_ok (bindp (requireExpertLocked l i) f) s"
proof (cases "em_find s (key l i)")
  case None
  with ok show ?thesis by (auto simp: step_ok_def requireExpertLocked_def bindp_def)
next
  case (Some e)
  with f [OF Some] show ?thesis by (simp add: step_ok_def)
qed

lemma step_ok_reserve:
  assumes ok: "em_ok s"
  shows "step_ok (reserve tier n l i msg) s"
  unfolding step_ok_def
proof (intro allI impI)
  fix r t
  assume "reserve tier n l i msg s = (r, t)"
  then show "em_ok t \<and> steady s t"
  proof (cases rule: reserve_cases)
    case (refused e)
    with ok show ?thesis by simp
  next
    case (granted a m1)
    have "only_env (s\<lparr>em_memory := m1\<rparr>) t" using reflpD [OF reflp_only_env] granted(2) by simp
    from granted_leaked [OF ok granted(3) this] have "em_ok t" "frame {} {} s t" by blast+
    then show ?thesis by (blast intro: frame_steady)
  qed
qed

subsection \<open>Updates that leave the holdings alone\<close>

definition touched :: "managed_expert \<Rightarrow> managed_expert \<Rightarrow> bool" where
  "touched e e' \<longleftrightarrow> me_metadata e' = me_metadata e \<and> me_policyId e' = me_policyId e \<and>
     me_allocation e' = me_allocation e"

lemma em_inv_touch:
  assumes inv: "em_inv mem xs pe np" and e: "map_of xs k = Some e" and t: "touched e e'"
  shows "em_inv mem (AList.update k e' xs) pe np"
proof -
  have was: "\<exists>g. map_of xs j = Some g \<and> touched g f" if "map_of (AList.update k e' xs) j = Some f" for j f
    using that e t by (cases "j = k") (auto simp: update_conv' touched_def)
  have "\<exists>f. map_of (AList.update k e' xs) j = Some f \<and> me_policyId f = p" if "pe p = Some j" for p j
    using em_inv_policy [OF inv that] e t by (auto simp: update_conv' touched_def)
  moreover have "j = j'" if "map_of (AList.update k e' xs) j = Some f" "map_of (AList.update k e' xs) j' = Some f'"
      "me_allocation f = Some b" "me_allocation f' = Some b'" "ma_id b = ma_id b'" for j j' f f' b b'
  proof -
    from was [OF that(1)] was [OF that(2)] that(3,4) obtain g g'
      where "map_of xs j = Some g" "map_of xs j' = Some g'" "me_allocation g = Some b" "me_allocation g' = Some b'"
      by (auto simp: touched_def)
    from em_inv_unshared [OF inv this that(5)] show ?thesis .
  qed
  moreover have "j = key (exp_layer (me_metadata f)) (exp_id (me_metadata f)) \<and>
      exp_sizeBytes (me_metadata f) \<noteq> 0 \<and> holds_ok (mm_allocations mem) f \<and>
      pe (me_policyId f) = Some j \<and> unat (me_policyId f) < np"
    if "map_of (AList.update k e' xs) j = Some f" for j f
  proof -
    from was [OF that] obtain g where g: "map_of xs j = Some g" "touched g f" by blast
    from em_invD [OF inv g(1)] g(2) show ?thesis by (simp add: touched_def holds_ok_def split: option.splits)
  qed
  moreover have "distinct (map fst (AList.update k e' xs))" using inv e by (simp add: update_in_place em_inv_def)
  ultimately show ?thesis using inv unfolding em_inv_def by blast
qed

lemma em_ok_touch:
  assumes ok: "em_ok s" and f: "\<And>e. touched e (f e)"
  shows "em_ok (em_set k f s)"
proof (cases "em_find s k")
  case None
  with ok show ?thesis by (simp add: em_set_def)
next
  case (Some e)
  from em_inv_touch [OF ok [unfolded em_ok_def] Some [unfolded em_find_def] f] Some
  show ?thesis by (simp add: em_ok_def em_experts_set)
qed

lemma steady_touch:
  assumes "\<And>e. same_place e (f e)"
  shows "steady s (em_set k f s)"
  using assms by (auto simp: steady_def em_find_set)

lemma em_ok_cong:
  "em_memory t = em_memory s \<Longrightarrow> em_experts t = em_experts s \<Longrightarrow> em_policyExperts t = em_policyExperts s \<Longrightarrow>
   em_nextPolicyId t = em_nextPolicyId s \<Longrightarrow> em_ok t = em_ok s"
  by (simp add: em_ok_def)

lemma em_ok_upd [simp]:
  "em_ok (em_policy_upd f s) = em_ok s" "em_ok (em_stats_upd g s) = em_ok s"
  "em_ok (s\<lparr>em_accessClock := c\<rparr>) = em_ok s"
  by (rule em_ok_cong; simp)+

lemma steady_upd [simp]:
  "steady s (em_policy_upd f t) = steady s t" "steady s (em_stats_upd g t) = steady s t"
  "steady s (t\<lparr>em_accessClock := c\<rparr>) = steady s t" "steady (s\<lparr>em_accessClock := c\<rparr>) t = steady s t"
  by (simp_all add: steady_def)

lemma recordAccess_ok:
  assumes "em_ok s"
  shows "em_ok (recordAccess env k s)" and "steady s (recordAccess env k s)"
proof -
  let ?f = "\<lambda>m. m\<lparr>me_usageCount := me_usageCount m + 1, me_lastUsed := em_accessClock s + 1\<rparr>"
  have "em_ok (em_set k ?f (s\<lparr>em_accessClock := em_accessClock s + 1\<rparr>))"
    using assms by (intro em_ok_touch) (simp_all add: touched_def)
  with assms show "em_ok (recordAccess env k s)" by (simp add: recordAccess_def split: option.split)
  have "steady (s\<lparr>em_accessClock := em_accessClock s + 1\<rparr>) (em_set k ?f (s\<lparr>em_accessClock := em_accessClock s + 1\<rparr>))"
    by (rule steady_touch) (simp add: same_place_def)
  then show "steady s (recordAccess env k s)" by (simp add: recordAccess_def split: option.split)
qed

lemma recordAccess_find:
  "em_find (recordAccess env k s) j =
     (if j = k then map_option (\<lambda>m. m\<lparr>me_usageCount := me_usageCount m + 1, me_lastUsed := em_accessClock s + 1\<rparr>)
        (em_find s k) else em_find s j)"
  by (auto simp: recordAccess_def em_find_set split: option.split)

subsection \<open>Adoption\<close>

lemma placed_counts [simp]:
  "me_usageCount (placed dst a w d m) = me_usageCount m"
  "me_residencyLeases (placed dst a w d m) = me_residencyLeases m"
  by (simp_all add: placed_def)

lemma releaseHeld_ok_step:
  assumes "em_ok s" and "em_find s k = Some e"
  obtains m2 where "releaseHeld e s = (Inr True, s\<lparr>em_memory := m2\<rparr>)"
  using releaseHeld_live [OF em_ok_ledger [OF assms(1)] em_okD(3) [OF assms]] by blast

text \<open>The adoption swaps the reservation, whether or not the expert is leased.\<close>

lemma adopt_cases:
  fixes s :: "('p, 't) expert_manager"
  assumes ok: "em_ok s" and e: "em_find s (key l i) = Some e"
    and run: "adopt env l i tier msg count w d s = (r, t)"
  obtains (refused) x where "r = Inl x" and "t = s" and "is_cpp_exception x"
      and "\<forall>a m1. mm_allocate tier (exp_sizeBytes (me_metadata e)) (allocation_tag l i) (em_memory s) \<noteq> (Inr (Some a), m1)"
  | (adopted) a m1 where "r = Inr ()"
      and "mm_allocate tier (exp_sizeBytes (me_metadata e)) (allocation_tag l i) (em_memory s) = (Inr (Some a), m1)"
      and "em_ok t"
      and "em_find t (key l i) = Some ((placed tier a w d e)
             \<lparr>me_usageCount := me_usageCount e + 1, me_lastUsed := em_accessClock s + 1\<rparr>)"
      and "\<forall>j. j \<noteq> key l i \<longrightarrow> em_find t j = em_find s j"
      and "\<forall>x. limitBytes (usageFor (em_memory t) x) = limitBytes (usageFor (em_memory s) x)"
proof -
  let ?k = "key l i" and ?n = "exp_sizeBytes (me_metadata e)"
  let ?cont = "\<lambda>allocation. bindp (releaseHeld e) (\<lambda>released.
       if \<not> released then
         thenp (on_memory (mm_release (ma_id allocation)))
           (raise (LogicError ''expert owns an unknown source allocation''))
       else
         let source = loc e in
         modify (\<lambda>s. recordAccess env ?k
           (em_policy_upd (onResident (env_policy env) (me_policyId e) tier)
             (em_set ?k (\<lambda>m. m\<lparr>me_allocation := Some allocation, me_weights := w,
                 me_deviceWeights := d, me_metadata := (me_metadata m)\<lparr>exp_location := tier\<rparr>\<rparr>)
               (em_stats_upd (count source)
                 (if source \<noteq> Nvme then em_policy_upd (onEvict (env_policy env) (me_policyId e) source) s
                  else s))))))"
  have "bindp (reserve tier ?n l i msg) ?cont s = (r, t)" using run e by (simp add: adopt_def)
  then show ?thesis
  proof (cases rule: bindp_cases)
    case (1 x)
    have "mm_allocate tier ?n (allocation_tag l i) (em_memory s) \<noteq> (Inr (Some a), m1)" for a m1
      using 1(1) by (auto simp: reserve_def on_memory_apply)
    with 1 show ?thesis by (cases rule: reserve_cases [OF 1(1)]) (use refused in auto)
  next
    case (2 a u)
    from 2(1) obtain m1 where u: "u = s\<lparr>em_memory := m1\<rparr>"
      and g: "mm_allocate tier ?n (allocation_tag l i) (em_memory s) = (Inr (Some a), m1)"
      by (cases rule: reserve_cases) auto
    note G = mm_granted_facts [OF em_ok_ledger [OF ok] g]
    have sub: "\<And>j b. mm_allocations (em_memory s) j = Some b \<Longrightarrow> mm_allocations (em_memory u) j = Some b"
      using G(2,3) u by auto
    have um: "em_memory u = m1" using u by simp
    then have "mm_ok (em_memory u)" using G(1) by simp
    from releaseHeld_live [OF this em_okD(3) [OF ok e] sub, unfolded um] obtain m2
      where rel: "releaseHeld e u = (Inr True, u\<lparr>em_memory := m2\<rparr>)" and m2: "mm_ok m2"
        and A: "mm_allocations m2 = (case me_allocation e of None \<Rightarrow> mm_allocations m1
           | Some b \<Rightarrow> (mm_allocations m1)(ma_id b := None))"
        and lim: "\<forall>x. limitBytes (usageFor m2 x) = limitBytes (usageFor m1 x)" by blast
    let ?v = "em_policy_upd (onResident (env_policy env) (me_policyId e) tier)
        (em_set ?k (placed tier a w d) (em_stats_upd (count (loc e))
           (if loc e \<noteq> Nvme then em_policy_upd (onEvict (env_policy env) (me_policyId e) (loc e)) (u\<lparr>em_memory := m2\<rparr>)
            else (u\<lparr>em_memory := m2\<rparr>))))"
    have t: "r = Inr ()" "t = recordAccess env ?k ?v"
      using 2(2) rel by (auto simp: Let_def placed_def [abs_def])
    have vf: "em_find ?v j = (if j = ?k then Some (placed tier a w d e) else em_find s j)" for j
      using e u by (simp add: em_find_set)
    have ve: "em_experts ?v = AList.update ?k (placed tier a w d e) (em_experts s)"
      using e u by (simp add: em_set_def em_find_def)
    have "em_ok ?v" by (rule place_ok [OF ok e g _ _ ve]) (simp_all add: A m2 u)
    moreover have "em_accessClock ?v = em_accessClock s" using u by simp
    moreover have "limitBytes (usageFor (em_memory t) x) = limitBytes (usageFor (em_memory s) x)" for x
      using lim mm_granted_limit [OF g, of x] by (simp add: t recordAccess_def split: option.split)
    ultimately show ?thesis using vf
      by (intro adopted [OF t(1) g]) (simp_all add: t(2) recordAccess_ok recordAccess_find)
  qed
qed

lemma step_ok_adopt:
  assumes ok: "em_ok s" and e: "em_find s (key l i) = Some e" and nl: "me_residencyLeases e = 0"
  shows "step_ok (adopt env l i tier msg count w d) s"
  unfolding step_ok_def
proof (intro allI impI)
  fix r t
  assume "adopt env l i tier msg count w d s = (r, t)"
  with ok e show "em_ok t \<and> steady s t"
  proof (cases rule: adopt_cases)
    case (refused x)
    with ok show ?thesis by simp
  next
    case (adopted a m1)
    have "\<exists>f'. em_find t k = Some f' \<and> same_place f f'" if "em_find s k = Some f" "me_residencyLeases f \<noteq> 0" for k f
      using that e nl adopted(5) by (cases "k = key l i") auto
    with adopted show ?thesis unfolding steady_def by blast
  qed
qed

subsection \<open>Registration\<close>

lemma em_inv_insert:
  assumes inv: "em_inv mem xs pe np" and k: "map_of xs k = None" "k = key (exp_layer (me_metadata e)) (exp_id (me_metadata e))"
    and e: "exp_sizeBytes (me_metadata e) \<noteq> 0" "me_allocation e = None" "loc e = Nvme"
    and p: "me_policyId e = p" "unat p = np" "np < 2 ^ 32"
  shows "em_inv mem (xs @ [(k, e)]) (emplace pe p k) (np + 1)"
proof -
  have look: "map_of (xs @ [(k, e)]) j = (if j = k then Some e else map_of xs j)" for j
    using k(1) by (auto simp: map_add_def split: option.split)
  have "pe p = None"
  proof (rule ccontr)
    assume "pe p \<noteq> None"
    then obtain j where "pe p = Some j" by blast
    from em_inv_policy [OF inv this] obtain f where "map_of xs j = Some f" "me_policyId f = p" by blast
    with em_invD(5) [OF inv this(1)] p show False by simp
  qed
  then have pe: "emplace pe p k = pe(p \<mapsto> k)" by simp
  have old: "me_policyId f \<noteq> p" if "map_of xs j = Some f" for j f
    using em_invD(5) [OF inv that] p by auto
  have "distinct (map fst (xs @ [(k, e)]))"
    using em_inv_parts(2) [OF inv] k(1) by (simp add: map_of_eq_None_iff)
  moreover have "\<exists>f. map_of (xs @ [(k, e)]) j = Some f \<and> me_policyId f = q" if "(pe(p \<mapsto> k)) q = Some j" for q j
  proof (cases "q = p")
    case True
    with that look p(1) show ?thesis by simp
  next
    case False
    with that have "pe q = Some j" by simp
    from em_inv_policy [OF inv this] look k(1) show ?thesis by auto
  qed
  moreover have "j = j'" if "map_of (xs @ [(k, e)]) j = Some f" "map_of (xs @ [(k, e)]) j' = Some f'"
      "me_allocation f = Some b" "me_allocation f' = Some b'" "ma_id b = ma_id b'" for j j' f f' b b'
  proof -
    from that e(2) have "map_of xs j = Some f" "map_of xs j' = Some f'"
      unfolding look by (auto split: if_splits)
    from em_inv_unshared [OF inv this that(3-5)] show ?thesis .
  qed
  moreover have "j = key (exp_layer (me_metadata f)) (exp_id (me_metadata f)) \<and>
      exp_sizeBytes (me_metadata f) \<noteq> 0 \<and> holds_ok (mm_allocations mem) f \<and>
      (pe(p \<mapsto> k)) (me_policyId f) = Some j \<and> unat (me_policyId f) < np + 1"
    if "map_of (xs @ [(k, e)]) j = Some f" for j f
  proof (cases "j = k")
    case True
    with that k e p show ?thesis unfolding look by (simp add: holds_ok_def)
  next
    case False
    with that have f: "map_of xs j = Some f" unfolding look by simp
    from em_invD [OF inv f] old [OF f] show ?thesis by (auto simp: less_Suc_eq)
  qed
  moreover have "np + 1 \<le> 2 ^ 32" using p(3) by simp
  ultimately show ?thesis unfolding em_inv_def pe using em_inv_parts(1) [OF inv] by blast
qed

lemma insertExpert_ok:
  assumes ok: "em_ok s" and new: "em_find s (key (exp_layer e) (exp_id e)) = None"
    and size: "exp_sizeBytes e \<noteq> 0" and room: "em_nextPolicyId s \<le> 2 ^ 32 - 1"
  shows "em_ok (insertExpert e (of_nat (em_nextPolicyId s)) s)"
    and "em_find (insertExpert e p s) = (em_find s)(key (exp_layer e) (exp_id e) \<mapsto> managed_new e p)"
    and "steady s (insertExpert e p s)"
proof -
  have "unat (of_nat (em_nextPolicyId s) :: expert_id) = em_nextPolicyId s"
    using room by (simp add: unat_of_nat take_bit_nat_eq_self_iff)
  with em_inv_insert [OF ok [unfolded em_ok_def] new [unfolded em_find_def],
      of "managed_new e (of_nat (em_nextPolicyId s))" "of_nat (em_nextPolicyId s)"] size room
  show "em_ok (insertExpert e (of_nat (em_nextPolicyId s)) s)"
    by (simp add: em_ok_def insertExpert_def Let_def managed_new_def)
  show f: "em_find (insertExpert e p s) = (em_find s)(key (exp_layer e) (exp_id e) \<mapsto> managed_new e p)"
    using new by (auto simp: em_find_def insertExpert_def Let_def map_add_def fun_eq_iff split: option.split)
  show "steady s (insertExpert e p s)"
    unfolding steady_def f using new by (auto simp: insertExpert_def Let_def)
qed

lemma em_inv_remove:
  assumes inv: "em_inv mem xs pe np" and e: "map_of xs k = Some e" and ok: "mm_ok mem'"
    and A: "mm_allocations mem' = (case me_allocation e of None \<Rightarrow> mm_allocations mem
           | Some b \<Rightarrow> (mm_allocations mem)(ma_id b := None))"
  shows "em_inv mem' (AList.delete k xs) (pe(me_policyId e := None)) np"
proof -
  let ?xs = "AList.delete k xs" and ?pe = "pe(me_policyId e := None)"
  have look: "map_of ?xs j = (if j = k then None else map_of xs j)" for j
    by (simp add: delete_conv')
  have other: "holds_ok (mm_allocations mem') f \<and> me_policyId f \<noteq> me_policyId e"
    if f: "map_of xs j = Some f" "j \<noteq> k" for j f
  proof
    show "holds_ok (mm_allocations mem') f"
    proof (cases "me_allocation f")
      case None
      with em_invD(3) [OF inv f(1)] show ?thesis by (simp add: holds_ok_def)
    next
      case (Some b)
      with em_inv_unshared [OF inv f(1) e Some] f(2)
      have "me_allocation e = Some a \<Longrightarrow> ma_id b \<noteq> ma_id a" for a by blast
      with em_invD(3) [OF inv f(1)] Some show ?thesis by (auto simp: holds_ok_def A split: option.splits)
    qed
    from em_invD(4) [OF inv f(1)] em_invD(4) [OF inv e] f(2) show "me_policyId f \<noteq> me_policyId e" by auto
  qed
  have "distinct (map fst ?xs)" using em_inv_parts(2) [OF inv] by (simp add: distinct_delete)
  moreover have "\<exists>f. map_of ?xs j = Some f \<and> me_policyId f = p" if "?pe p = Some j" for p j
  proof -
    from that have p: "p \<noteq> me_policyId e" "pe p = Some j" by (auto split: if_splits)
    from em_inv_policy [OF inv p(2)] e p(1) show ?thesis unfolding look by auto
  qed
  moreover have "j = j'" if "map_of ?xs j = Some f" "map_of ?xs j' = Some f'"
      "me_allocation f = Some b" "me_allocation f' = Some b'" "ma_id b = ma_id b'" for j j' f f' b b'
  proof -
    from that(1,2) have "map_of xs j = Some f" "map_of xs j' = Some f'" unfolding look by (auto split: if_splits)
    from em_inv_unshared [OF inv this that(3-5)] show ?thesis .
  qed
  moreover have "j = key (exp_layer (me_metadata f)) (exp_id (me_metadata f)) \<and>
      exp_sizeBytes (me_metadata f) \<noteq> 0 \<and> holds_ok (mm_allocations mem') f \<and>
      ?pe (me_policyId f) = Some j \<and> unat (me_policyId f) < np" if "map_of ?xs j = Some f" for j f
  proof -
    from that have f: "map_of xs j = Some f" "j \<noteq> k" unfolding look by (auto split: if_splits)
    from em_invD [OF inv f(1)] other [OF f] show ?thesis by simp
  qed
  ultimately show ?thesis using ok em_inv_parts(3) [OF inv] unfolding em_inv_def by blast
qed

text \<open>The rollback of a failed registration takes the new expert out again.\<close>

lemma rollback_ok:
  fixes s :: "('p, 't) expert_manager"
  assumes ok: "em_ok s" and e: "em_find s (key (exp_layer x) (exp_id x)) = Some e"
    and p: "me_policyId e = p" and nl: "me_residencyLeases e = 0"
    and run: "bindp (requireExpertLocked (exp_layer x) (exp_id x)) (\<lambda>inserted.
                thenp (releaseHeld inserted) (thenp (modify (removeExpert x p)) (raise error))) s = (r, t)"
  shows "em_ok t" and "steady s t" and "r = Inl error"
    and "em_find t = (em_find s)(key (exp_layer x) (exp_id x) := None)"
    and "em_memory t = em_memory (snd (releaseHeld e s))"
proof -
  obtain m2 where rel: "releaseHeld e s = (Inr True, s\<lparr>em_memory := m2\<rparr>)" and m2: "mm_ok m2"
    and A: "mm_allocations m2 = (case me_allocation e of None \<Rightarrow> mm_allocations (em_memory s)
           | Some b \<Rightarrow> (mm_allocations (em_memory s))(ma_id b := None))"
    and lim: "\<forall>x. limitBytes (usageFor m2 x) = limitBytes (usageFor (em_memory s) x)"
    using releaseHeld_live [OF em_ok_ledger [OF ok] em_okD(3) [OF ok e]] by blast
  have t: "r = Inl error" "t = removeExpert x p (s\<lparr>em_memory := m2\<rparr>)"
    using run e rel by simp_all
  show "r = Inl error" by (rule t)
  show f: "em_find t = (em_find s)(key (exp_layer x) (exp_id x) := None)"
    by (simp add: t(2) removeExpert_def Let_def em_find_def fun_eq_iff delete_conv')
  show "em_ok t"
    using em_inv_remove [OF ok [unfolded em_ok_def] e [unfolded em_find_def] m2 A] p
    by (simp add: em_ok_def t(2) removeExpert_def Let_def)
  have mem: "em_memory t = m2" by (simp add: t(2) removeExpert_def Let_def)
  then show "em_memory t = em_memory (snd (releaseHeld e s))" by (simp add: rel)
  show "steady s t" unfolding steady_def f mem using lim e nl by auto
qed

context victim_policy
begin

lemma move_step:
  assumes "env_policy env = ops" and "em_ok s" and "em_find s (key l i) = Some e" and "me_policyId e \<in> P"
  shows "step_ok (move env l i dest P) s"
  unfolding step_ok_def
proof (intro allI impI)
  fix r t
  assume "move env l i dest P s = (r, t)"
  from move_specD [OF move_move_spec [OF assms(1)] assms(2) _ this] assms(3,4)
  have "em_ok t" "frame {key l i} P s t" by auto
  then show "em_ok t \<and> steady s t" by (blast intro: frame_steady)
qed

lemma makeRoom_step:
  assumes "env_policy env = ops" and "em_ok s"
  shows "step_ok (makeRoom env tier bytes P) s"
  unfolding step_ok_def
  using room_specD [OF makeRoom_spec [OF assms(1)] assms(2)] by (blast intro: frame_steady)

text \<open>A registration succeeds with the expert where it asked to be, or leaves no trace of it.\<close>

lemma registerExpert_result:
  assumes env: "env_policy env = ops" and te: "transfers_end env" and ok: "em_ok s"
    and run: "registerExpert env e s = (r, t)"
  shows "em_ok t \<and> steady s t \<and>
    (if r = Inr () then \<exists>m. em_find t (key (exp_layer e) (exp_id e)) = Some m \<and> loc m = exp_location e
     else em_find t (key (exp_layer e) (exp_id e)) = em_find s (key (exp_layer e) (exp_id e)))"
proof -
  let ?k = "key (exp_layer e) (exp_id e)" and ?p = "of_nat (em_nextPolicyId s) :: expert_id"
  let ?u = "insertExpert e ?p s"
  show ?thesis
  proof (cases "exp_sizeBytes e \<noteq> 0 \<and> em_find s ?k = None \<and> em_nextPolicyId s \<le> 2 ^ 32 - 1")
    case False
    with run have "t = s" "r \<noteq> Inr ()"
      by (auto simp: registerExpert_def Let_def thenp_def bindp_def split: if_splits)
    with ok show ?thesis by simp
  next
    case True
    then have new: "em_find s ?k = None" by simp
    note I = insertExpert_ok [OF ok new] 
    from True have u: "em_ok ?u" "steady s ?u" "em_find ?u ?k = Some (managed_new e ?p)" by (simp_all add: I)
    show ?thesis
    proof (cases "exp_location e = Nvme")
      case nv: True
      with run True have "t = ?u" "r = Inr ()"
        by (simp_all add: registerExpert_def Let_def thenp_def bindp_def)
      with u nv show ?thesis by (simp add: managed_new_def)
    next
      case False
      let ?h = "\<lambda>error. bindp (requireExpertLocked (exp_layer e) (exp_id e)) (\<lambda>inserted.
                thenp (releaseHeld inserted) (thenp (modify (removeExpert e ?p)) (raise error)))"
      have "catchp (move env (exp_layer e) (exp_id e) (exp_location e) {?p}) is_cpp_exception ?h ?u = (r, t)"
        using run True False by (simp add: registerExpert_def Let_def thenp_def bindp_def)
      then show ?thesis
      proof (cases rule: catchp_cases)
        case (1 x)
        from move_specD [OF move_move_spec [OF env] u(1) _ 1(1)] u(3)
        have "em_ok t" "frame {?k} {?p} ?u t" "moved ?k (exp_location e) ?u (Inr x) t"
          by (auto simp: managed_new_def)
        with 1(2) u show ?thesis by (auto simp: moved_def intro: steady_trans frame_steady)
      next
        case (2 x)
        have "ends (move env (exp_layer e) (exp_id e) (exp_location e) {?p}) ?u"
          using u(3) by (intro move_ends [OF env te u(1)]) (simp add: managed_new_def)
        with 2 show ?thesis by (simp add: ends_def is_cpp_exception_iff)
      next
        case (3 x v)
        from move_specD [OF move_move_spec [OF env] u(1) _ 3(1)] u(3)
        have v: "em_ok v" "frame {?k} {?p} ?u v" by (auto simp: managed_new_def)
        from frame_find [OF v(2) u(3)] obtain m where m: "em_find v ?k = Some m" "same_identity (managed_new e ?p) m"
          by (auto simp: evolved_def)
        then have "me_policyId m = ?p" "me_residencyLeases m = 0" by (simp_all add: same_identity_def managed_new_def)
        from rollback_ok [OF v(1) m(1) this 3(3)] frame_steady [OF v(2)] u(2) new show ?thesis
          by (auto intro: steady_trans)
      qed
    qed
  qed
qed

lemma requestExpert_step:
  "env_policy env = ops \<Longrightarrow> em_ok s \<Longrightarrow> step_ok (requestExpert env elapsedMs l i) s"
  unfolding requestExpert_def Let_def
  by (intro step_ok_expert step_ok_thenp step_ok_bindp move_step step_ok_modify) 
    (auto simp: recordAccess_ok)

lemma moveExpert_step:
  "env_policy env = ops \<Longrightarrow> em_ok s \<Longrightarrow> step_ok (moveExpert env l i dest) s"
  unfolding moveExpert_def by (intro step_ok_expert move_step) auto

lemma prepareResidency_step:
  "env_policy env = ops \<Longrightarrow> em_ok s \<Longrightarrow> step_ok (prepareResidency env l i dest) s"
  unfolding prepareResidency_def
  by (intro step_ok_require step_ok_expert) (auto intro: makeRoom_step)

lemma adoptHostWeights_step:
  assumes env: "env_policy env = ops" and ok: "em_ok s"
  shows "step_ok (adoptHostWeights env l i buffer) s"
  unfolding adoptHostWeights_def
proof (intro step_ok_require step_ok_expert ok)
  fix e
  assume e: "em_find s (key l i) = Some e" and nl: "me_residencyLeases e = 0"
  have "step_ok (adopt env l i Ram msg count buffer None) u"
    if "makeRoom env Ram bytes {me_policyId e} s = (Inr x, u)" for msg count u x bytes
  proof -
    from room_specD [OF makeRoom_spec [OF env] ok that] have u: "em_ok u" "frame {} {me_policyId e} s u" by auto
    from frame_pinned [OF u(2) e] have "em_find u (key l i) = Some e" by simp
    from step_ok_adopt [OF u(1) this nl] show ?thesis .
  qed
  then show "step_ok
     (if loc e = Ram then
        (if map_option hb_ref (me_weights e) \<noteq> map_option hb_ref buffer
         then raise (LogicError ''expert already owns a different host buffer'')
         else modify (recordAccess env (key l i)))
      else
        thenp (makeRoom env Ram (exp_sizeBytes (me_metadata e)) {me_policyId e})
          (adopt env l i Ram ''failed reserving adopted expert host memory''
             (\<lambda>source st. if source = Vram then st\<lparr>st_vramEvictions := st_vramEvictions st + 1\<rparr> else st)
             buffer None)) s"
    using ok by (auto simp: recordAccess_ok intro!: step_ok_thenp makeRoom_step [OF env] step_ok_modify)
qed

lemma takeLease_ok: "em_ok s \<Longrightarrow> em_ok (takeLease k s)"
  unfolding takeLease_def by (rule em_ok_touch) (simp_all add: touched_def)

lemma steady_takeLease: "steady s (takeLease k s)"
  unfolding takeLease_def by (rule steady_touch) (simp add: same_place_def)

lemma acquireResidentExpert_step:
  "env_policy env = ops \<Longrightarrow> em_ok s \<Longrightarrow> step_ok (acquireResidentExpert env l i) s"
  unfolding acquireResidentExpert_def
  by (intro step_ok_expert step_ok_thenp)
    (auto intro!: move_step step_ok_thenp step_ok_modify simp: takeLease_ok steady_takeLease)

lemma acquireHostExpert_step:
  "env_policy env = ops \<Longrightarrow> em_ok s \<Longrightarrow> step_ok (acquireHostExpert env l i) s"
  unfolding acquireHostExpert_def
  by (intro step_ok_expert step_ok_thenp)
    (auto intro!: move_step step_ok_thenp step_ok_modify simp: takeLease_ok steady_takeLease)

lemma updatePrediction_step: "em_ok s \<Longrightarrow> step_ok (updatePrediction env l i p c) s"
  unfolding updatePrediction_def Let_def
  by (intro step_ok_require step_ok_expert step_ok_modify)
    (auto intro!: em_ok_touch steady_touch simp: touched_def same_place_def)

lemma adoptDeviceWeights_ok:
  assumes env: "env_policy env = ops" and ok: "em_ok s" and run: "adoptDeviceWeights env l i buffer s = (r, t)"
  shows "em_ok t"
proof (cases "em_find s (key l i)")
  case None
  with run ok show ?thesis
    by (auto simp: adoptDeviceWeights_def requireExpertLocked_def thenp_def bindp_def split: if_splits)
next
  case (Some e)
  let ?room = "makeRoom env Vram (exp_sizeBytes (me_metadata e)) {me_policyId e}"
  let ?adopt = "adopt env l i Vram ''failed reserving adopted expert memory''
               (\<lambda>_ st. st\<lparr>st_vramPromotions := st_vramPromotions st + 1\<rparr>) None buffer"
  have "t = s \<or> t = recordAccess env (key l i) s \<or> thenp ?room ?adopt s = (r, t)"
    using run Some
    by (cases "device_usable buffer"; cases "db_size (the buffer) = exp_sizeBytes (me_metadata e)";
        cases "loc e = Vram") (auto simp: adoptDeviceWeights_def split: if_splits)
  moreover have "em_ok t" if "thenp ?room ?adopt s = (r, t)"
    using that
  proof (cases rule: thenp_cases)
    case (1 x)
    with room_specD [OF makeRoom_spec [OF env] ok] show ?thesis by blast
  next
    case (2 x u)
    from room_specD [OF makeRoom_spec [OF env] ok 2(1)] have u: "em_ok u" "frame {} {me_policyId e} s u" by auto
    from frame_pinned [OF u(2) Some] have eu: "em_find u (key l i) = Some e" by simp
    from u(1) eu 2(2) show ?thesis by (cases rule: adopt_cases) (use u in auto)
  qed
  ultimately show ?thesis using ok by (auto simp: recordAccess_ok)
qed

subsection \<open>Eviction down to a bound\<close>

lemma evictLoop_result:
  assumes env: "env_policy env = ops" and te: "transfers_end env" and tier: "tier \<noteq> Nvme" and ok: "em_ok s"
    and fuel: "pend {} s < n" and run: "evictLoop n env tier bound c s = (r, t)"
  shows "em_ok t \<and> frame {} {} s t \<and> r \<noteq> Inl Diverged \<and>
    (\<forall>m. r = Inr m \<longrightarrow> c \<le> m \<and> (usedBytes (usageFor (em_memory t) tier) \<le> bound \<or> candidatesLocked tier t = []))"
  using ok fuel run
proof (induction n arbitrary: s c)
  case (Suc n)
  have us: "em_usage tier s = (Inr (usageFor (em_memory s) tier), s)"
    using tier by (simp add: em_usage_def mm_usage_def)
  let ?sel = "selectVictim (env_policy env) (em_policy s) tier (candidatesLocked tier s) {}"
  show ?case
  proof (cases "usedBytes (usageFor (em_memory s) tier) > bound")
    case False
    with Suc.prems(3) us have "t = s" "r = Inr c" by simp_all
    with False Suc.prems(1) show ?thesis by (simp add: not_less)
  next
    case full: True
    show ?thesis
    proof (cases ?sel)
      case None
      with Suc.prems(3) us full have "t = s" "r = Inr c" by simp_all
      moreover from None env have "candidatesLocked tier s = []" by (metis victim_complete subset_empty set_empty)
      ultimately show ?thesis using Suc.prems(1) by simp
    next
      case (Some v)
      with env have v: "v \<in> set (candidatesLocked tier s)" using victim_sound by blast
      from candidate_expert [OF Suc.prems(1) v] obtain k e where e: "em_find s k = Some e" "me_policyId e = v"
        "loc e = tier" "me_residencyLeases e = 0" and k: "k = key (exp_layer (me_metadata e)) (exp_id (me_metadata e))"
        and idv: "identifyVictim v s = (Inr (me_metadata e), s)" by blast
      let ?mv = "\<lambda>d. move env (exp_layer (me_metadata e)) (exp_id (me_metadata e)) d {v}"
      have spec: "move_spec k (insert v {}) d (?mv d)" for d using move_move_spec [OF env] k by simp
      have pin: "\<forall>f. em_find u (key (exp_layer (me_metadata e)) (exp_id (me_metadata e))) = Some f \<longrightarrow> me_policyId f \<in> {v}"
        if "frame {k} (insert v {}) s u" for u
        using frame_policyId [OF that e(1)] e(2) k by auto
      have now: "ends (?mv d) s" for d by (rule move_ends [OF env te Suc.prems(1) pin [OF frame_refl]])
      have "ends (catchp (?mv Ram) is_runtime_error (\<lambda>_. ?mv Nvme)) s"
      proof (rule ends_catchp [OF now])
        fix x u
        assume "?mv Ram s = (Inl x, u)"
        from move_specD [OF spec Suc.prems(1) _ this] e have "em_ok u" "frame {k} (insert v {}) s u" by auto
        then show "ends (?mv Nvme) u" by (intro move_ends [OF env te] pin)
      qed
      with now [of Nvme] have "ends (demote ?mv tier) s" by (simp add: demote_def)
      moreover have "thenp (demote ?mv tier) (evictLoop n env tier bound (c + 1)) s = (r, t)"
        using Suc.prems(3) us full Some idv by simp
      then consider x where "demote ?mv tier s = (Inl x, t)" "r = Inl x"
        | x u where "demote ?mv tier s = (Inr x, u)" "evictLoop n env tier bound (c + 1) u = (r, t)"
        by (cases rule: thenp_cases) blast+
      then show ?thesis
      proof cases
        case 1
        from demote_step [OF spec Suc.prems(1) e(1,2) _ e(4,3) tier 1(1)] 1 calculation
        show ?thesis by (auto simp: ends_def)
      next
        case 2
        from demote_step [OF spec Suc.prems(1) e(1,2) _ e(4,3) tier 2(1)]
        obtain e' where u: "em_ok u" "frame {} {} s u" "em_find u k = Some e'" "demoted tier (loc e')" by auto
        with frame_pend_less [OF u(2) e(1) u(3)] e have "pend {} u < pend {} s" by auto
        with Suc.IH [OF u(1) _ 2(2)] Suc.prems(2) have "em_ok t" "frame {} {} u t" "r \<noteq> Inl Diverged"
          "\<forall>m. r = Inr m \<longrightarrow> c + 1 \<le> m \<and> (usedBytes (usageFor (em_memory t) tier) \<le> bound \<or> candidatesLocked tier t = [])"
          by auto
        with frame_trans [OF u(2)] show ?thesis by force
      qed
    qed
  qed
qed simp

lemma evictUntilWithin_result:
  assumes env: "env_policy env = ops" and te: "transfers_end env" and ok: "em_ok s" and tier: "tier \<noteq> Nvme"
    and run: "evictUntilWithin env tier bound s = (r, t)"
  shows "em_ok t \<and> frame {} {} s t \<and> r \<noteq> Inl Diverged \<and>
    (\<forall>m. r = Inr m \<longrightarrow> usedBytes (usageFor (em_memory t) tier) \<le> bound \<or> candidatesLocked tier t = [])"
proof -
  from run tier have "evictLoop (em_fuel s) env tier bound 0 s = (r, t)" by (simp add: evictUntilWithin_def)
  from evictLoop_result [OF env te tier ok _ this] pend_bound [of "{}" s] show ?thesis by (auto simp: em_fuel_def)
qed

end

end
