(* ===== verification/Expert_Manager_Props.thy ===== *)
theory Expert_Manager_Props
  imports Expert_Manager_Ops
begin

text \<open>
  What the expert manager guarantees: the step relation of its public operations, the invariant of
  every reachable state and the capacity bound that follows, the fate of leased experts, the
  results of requests, registrations and evictions, termination, and two behaviours that fall
  short of what the surrounding code promises (a reservation that a failed direct load leaves
  behind, and the adoption of device weights by a leased expert).
\<close>

subsection \<open>The public operations as steps\<close>

inductive em_op :: "('p, 't) manager_env \<Rightarrow> ('p, 't) expert_manager \<Rightarrow> ('p, 't) expert_manager \<Rightarrow> bool"
  for env :: "('p, 't) manager_env" where
  op_register: "registerExpert env e s = (r, t) \<Longrightarrow> em_op env s t"
| op_request: "requestExpert env ms l i s = (r', t) \<Longrightarrow> em_op env s t"
| op_move: "moveExpert env l i dest s = (r, t) \<Longrightarrow> em_op env s t"
| op_evict: "evictUntilWithin env tier bound s = (n, t) \<Longrightarrow> em_op env s t"
| op_adopt_host: "adoptHostWeights env l i host s = (r, t) \<Longrightarrow> em_op env s t"
| op_prepare: "prepareResidency env l i dest s = (r, t) \<Longrightarrow> em_op env s t"
| op_acquire_device: "acquireResidentExpert env l i s = (ls, t) \<Longrightarrow> em_op env s t"
| op_acquire_host: "acquireHostExpert env l i s = (ls, t) \<Longrightarrow> em_op env s t"
| op_predict: "updatePrediction env l i p c s = (r, t) \<Longrightarrow> em_op env s t"

inductive em_step :: "('p, 't) manager_env \<Rightarrow> ('p, 't) expert_manager \<Rightarrow> ('p, 't) expert_manager \<Rightarrow> bool"
  for env :: "('p, 't) manager_env" where
  step_op: "em_op env s t \<Longrightarrow> em_step env s t"
| step_adopt_device: "adoptDeviceWeights env l i device s = (r, t) \<Longrightarrow> em_step env s t"
| step_drop_lease: "em_step env s (lease_reset ls s)"

inductive em_reachable :: "('p, 't) manager_env \<Rightarrow> ('p, 't) expert_manager \<Rightarrow> bool"
  for env :: "('p, 't) manager_env" where
  reach_new: "em_new (mm_new vram ram) (Some p) tr = Inr s \<Longrightarrow> em_reachable env s"
| reach_step: "em_reachable env s \<Longrightarrow> em_step env s t \<Longrightarrow> em_reachable env t"

lemma em_ok_new: "em_new (mm_new vram ram) (Some p) tr = Inr s \<Longrightarrow> em_ok s"
  by (auto simp: em_new_def em_ok_def em_inv_def mm_ok_new)

lemma em_ok_lease_reset: "em_ok s \<Longrightarrow> em_ok (lease_reset ls s)"
  unfolding lease_reset_def by (auto intro!: em_ok_touch simp: touched_def split: option.split)

context victim_policy
begin

lemma evictUntilWithin_step:
  assumes "env_policy env = ops" and "transfers_end env" and "em_ok s"
    and run: "evictUntilWithin env tier bound s = (r, t)"
  shows "em_ok t \<and> steady s t"
proof (cases "tier = Nvme")
  case True
  with run assms(3) show ?thesis by (simp add: evictUntilWithin_def)
next
  case False
  from evictUntilWithin_result [OF assms(1-3) False run] show ?thesis by (blast intro: frame_steady)
qed

lemma em_op_ok:
  assumes env: "env_policy env = ops" and te: "transfers_end env" and ok: "em_ok s" and op: "em_op env s t"
  shows "em_ok t \<and> steady s t"
  using op
proof cases
  case (op_register e r)
  from registerExpert_result [OF env te ok this] show ?thesis by blast
next
  case op_evict
  from evictUntilWithin_step [OF env te ok this] show ?thesis .
next
  case op_request
  from step_okD [OF requestExpert_step [OF env ok] this] show ?thesis .
next
  case op_move
  from step_okD [OF moveExpert_step [OF env ok] this] show ?thesis .
next
  case op_adopt_host
  from step_okD [OF adoptHostWeights_step [OF env ok] this] show ?thesis .
next
  case op_prepare
  from step_okD [OF prepareResidency_step [OF env ok] this] show ?thesis .
next
  case op_acquire_device
  from step_okD [OF acquireResidentExpert_step [OF env ok] this] show ?thesis .
next
  case op_acquire_host
  from step_okD [OF acquireHostExpert_step [OF env ok] this] show ?thesis .
next
  case op_predict
  from step_okD [OF updatePrediction_step [OF ok] this] show ?thesis .
qed

lemma em_reachable_ok:
  assumes env: "env_policy env = ops" and te: "transfers_end env" and r: "em_reachable env s"
  shows "em_ok s"
  using r
proof induction
  case (reach_new vram ram p tr s)
  then show ?case by (rule em_ok_new)
next
  case (reach_step s t)
  from reach_step.hyps(2) show ?case
  proof cases
    case step_op
    with em_op_ok [OF env te reach_step.IH] show ?thesis by blast
  next
    case step_adopt_device
    from adoptDeviceWeights_ok [OF env reach_step.IH this] show ?thesis .
  next
    case step_drop_lease
    with em_ok_lease_reset [OF reach_step.IH] show ?thesis by simp
  qed
qed

end

subsection \<open>Capacity\<close>

text \<open>The bytes of the experts whose tier is charged to the VRAM (\<open>True\<close>) or the RAM (\<open>False\<close>)
  account.\<close>

definition onAccount :: "bool \<Rightarrow> managed_expert \<Rightarrow> bool" where
  "onAccount v e \<longleftrightarrow> loc e \<noteq> Nvme \<and> (loc e = Vram) = v"

definition residentBytes :: "bool \<Rightarrow> ('p, 't) expert_manager \<Rightarrow> nat" where
  "residentBytes v s =
     sum_list (map (\<lambda>(k, e). if onAccount v e then unat (exp_sizeBytes (me_metadata e)) else 0) (em_experts s))"

lemma residentBytes_keys:
  assumes dist: "distinct (map fst (em_experts s))"
  shows "residentBytes v s = (\<Sum>k\<in>{k. \<exists>e. em_find s k = Some e \<and> onAccount v e}.
           unat (exp_sizeBytes (me_metadata (the (em_find s k)))))"
proof -
  let ?size = "\<lambda>e. unat (exp_sizeBytes (me_metadata e))"
  have "residentBytes v s = (\<Sum>(k, e)\<in>set (em_experts s). if onAccount v e then ?size e else 0)"
    unfolding residentBytes_def using dist by (simp add: sum_list_distinct_conv_sum_set distinct_map)
  also have "\<dots> = (\<Sum>k\<in>fst ` set (em_experts s). if onAccount v (the (em_find s k)) then ?size (the (em_find s k)) else 0)"
    using dist by (subst sum.reindex) (auto simp: distinct_map em_find_def intro!: sum.cong)
  also have "\<dots> = (\<Sum>k\<in>{k. \<exists>e. em_find s k = Some e \<and> onAccount v e}. ?size (the (em_find s k)))"
    by (rule sum.mono_neutral_cong_right)
      (auto simp: em_find_def dist intro: rev_image_eqI dest: map_of_SomeD)
  finally show ?thesis .
qed

lemma em_ok_resident:
  assumes ok: "em_ok s"
  shows "residentBytes v s \<le> reserved (mm_allocations (em_memory s)) v"
proof -
  let ?A = "mm_allocations (em_memory s)" and ?K = "{k. \<exists>e. em_find s k = Some e \<and> onAccount v e}"
  let ?f = "\<lambda>k. ma_id (the (me_allocation (the (em_find s k))))"
  have inv: "em_inv (em_memory s) (em_experts s) (em_policyExperts s) (em_nextPolicyId s)"
    using ok by (simp add: em_ok_def)
  have held: "\<exists>e a. em_find s k = Some e \<and> me_allocation e = Some a \<and> ?A (ma_id a) = Some a \<and>
      (ma_tier a = Vram) = v \<and> ma_sizeBytes a = exp_sizeBytes (me_metadata e)" if "k \<in> ?K" for k
  proof -
    from that obtain e where e: "em_find s k = Some e" "onAccount v e" by blast
    with em_okD(3) [OF ok e(1)] show ?thesis
      by (cases "me_allocation e") (auto simp: holds_ok_def onAccount_def)
  qed
  have "residentBytes v s = (\<Sum>k\<in>?K. charged v (the (?A (?f k))))"
    unfolding residentBytes_keys [OF em_inv_parts(2) [OF inv]]
  proof (rule sum.cong [OF refl])
    fix k
    assume "k \<in> ?K"
    from held [OF this] show "unat (exp_sizeBytes (me_metadata (the (em_find s k)))) = charged v (the (?A (?f k)))"
      by (auto simp: charged_def)
  qed
  also have "\<dots> = (\<Sum>i\<in>?f ` ?K. charged v (the (?A i)))"
  proof (rule sum.reindex_cong [symmetric])
    show "inj_on ?f ?K"
    proof (rule inj_onI)
      fix k k'
      assume k: "k \<in> ?K" "k' \<in> ?K" and eq: "?f k = ?f k'"
      from held [OF k(1)] held [OF k(2)] obtain e a e' a' where f: "em_find s k = Some e" "em_find s k' = Some e'"
        and a: "me_allocation e = Some a" "me_allocation e' = Some a'" by blast
      from eq f a have "ma_id a = ma_id a'" by simp
      from em_inv_unshared [OF inv f [unfolded em_find_def] a this] show "k = k'" .
    qed
  qed auto
  also have "\<dots> \<le> reserved ?A v" unfolding reserved_def
  proof (rule sum_mono2)
    show "finite (dom ?A)" using em_ok_ledger [OF ok] by (simp add: mm_ok_def)
    show "?f ` ?K \<subseteq> dom ?A"
    proof (rule image_subsetI)
      fix k
      assume "k \<in> ?K"
      from held [OF this] show "?f k \<in> dom ?A" by auto
    qed
  qed simp
  finally show ?thesis .
qed

lemma em_ok_capacity:
  assumes ok: "em_ok s"
  shows "residentBytes True s \<le> unat (limitBytes (mm_vram (em_memory s)))"
    and "residentBytes False s \<le> unat (limitBytes (mm_ram (em_memory s)))"
  using em_ok_resident [OF ok, of True] em_ok_resident [OF ok, of False] em_ok_ledger [OF ok]
  by (auto simp: mm_ok_def word_le_nat_alt)

subsection \<open>Every operation returns or throws\<close>

lemma ends_expert:
  assumes "\<And>e. em_find s (key l i) = Some e \<Longrightarrow> ends (f e) s"
  shows "ends (bindp (requireExpertLocked l i) f) s"
  using assms by (cases "em_find s (key l i)") (auto simp: ends_def requireExpertLocked_def bindp_def)

lemma ends_require: "e \<noteq> Diverged \<Longrightarrow> (b \<Longrightarrow> ends m s) \<Longrightarrow> ends (thenp (require b e) m) s"
  by (cases b) (auto simp: ends_def)

lemma ends_adopt: "ends (adopt env l i tier msg count w d) s"
  unfolding adopt_def Let_def by (intro ends_expert ends_bindp) (auto intro!: ends_rules)

context victim_policy
begin

lemma ends_register:
  assumes env: "env_policy env = ops" and te: "transfers_end env" and ok: "em_ok s"
  shows "ends (registerExpert env e) s"
proof -
  let ?p = "of_nat (em_nextPolicyId s) :: expert_id"
  have "ends (move env (exp_layer e) (exp_id e) (exp_location e) {?p}) (insertExpert e ?p s)"
    if "exp_sizeBytes e \<noteq> 0" "em_find s (key (exp_layer e) (exp_id e)) = None" "em_nextPolicyId s \<le> 2 ^ 32 - 1"
    using insertExpert_ok [OF ok that(2) that(1,3)]
    by (intro move_ends [OF env te]) (simp_all add: managed_new_def)
  then show ?thesis
    unfolding registerExpert_def Let_def
    by (intro ends_require ends_bindp ends_thenp)
      (auto intro!: ends_catchp ends_expert ends_rules simp: is_cpp_exception_iff)
qed

lemma ends_move_pinned:
  assumes "env_policy env = ops" "transfers_end env" "em_ok s" "em_find s (key l i) = Some e"
  shows "ends (move env l i dest {me_policyId e}) s"
  using assms by (intro move_ends) auto

lemma operations_end:
  assumes env: "env_policy env = ops" and te: "transfers_end env" and ok: "em_ok s"
  shows "ends (requestExpert env ms l i) s" and "ends (moveExpert env l i dest) s"
    and "ends (evictUntilWithin env tier bound) s"
    and "ends (adoptHostWeights env l i host) s" and "ends (adoptDeviceWeights env l i device) s"
    and "ends (prepareResidency env l i dest) s" and "ends (acquireResidentExpert env l i) s"
    and "ends (acquireHostExpert env l i) s" and "ends (updatePrediction env l i p c) s"
proof -
  note mv = ends_move_pinned [OF env te ok] and room = makeRoom_ends [OF env te ok]
  show "ends (requestExpert env ms l i) s" unfolding requestExpert_def Let_def
    by (intro ends_expert ends_thenp mv) (auto intro!: ends_rules ends_expert)
  show "ends (moveExpert env l i dest) s" unfolding moveExpert_def by (intro ends_expert mv)
  show "ends (evictUntilWithin env tier bound) s"
  proof (cases "tier = Nvme")
    case True
    then show ?thesis by (simp add: ends_def evictUntilWithin_def)
  next
    case False
    obtain r t where "evictUntilWithin env tier bound s = (r, t)" by fastforce
    with evictUntilWithin_result [OF env te ok False this] show ?thesis by (simp add: ends_def)
  qed
  show "ends (adoptHostWeights env l i host) s" unfolding adoptHostWeights_def
    by (intro ends_require ends_expert) (auto intro!: ends_thenp room ends_adopt)
  show "ends (adoptDeviceWeights env l i device) s" unfolding adoptDeviceWeights_def
    by (intro ends_require ends_expert) (auto intro!: ends_thenp room ends_adopt)
  show "ends (prepareResidency env l i dest) s" unfolding prepareResidency_def
    by (intro ends_require ends_expert) (auto intro!: room)
  show "ends (acquireResidentExpert env l i) s" unfolding acquireResidentExpert_def
    by (intro ends_expert ends_thenp) (auto intro!: mv ends_rules ends_expert)
  show "ends (acquireHostExpert env l i) s" unfolding acquireHostExpert_def
    by (intro ends_expert ends_thenp) (auto intro!: mv ends_rules ends_expert)
  show "ends (updatePrediction env l i p c) s" unfolding updatePrediction_def Let_def
    by (intro ends_require ends_expert) simp_all
qed

end

subsection \<open>Adoption by an expert that fits\<close>

lemma recordAccess_clock:
  "em_accessClock (recordAccess env k s) = em_accessClock s + (if em_find s k = None then 0 else 1)"
  by (auto simp: recordAccess_def split: option.split)

lemma makeRoomLocked_fits:
  assumes ok: "em_ok s" and tier: "tier \<noteq> Nvme" and fits: "bytes \<le> availableBytes (usageFor (em_memory s) tier)"
  shows "makeRoomLocked (Suc (Suc n)) env tier bytes P s = (Inr (), s)"
proof -
  let ?u = "usageFor (em_memory s) tier"
  have "availableBytes ?u \<le> limitBytes ?u"
    using unat_sub [OF mm_ok_usage [OF em_ok_ledger [OF ok], of tier]]
    by (simp add: availableBytes_def word_le_nat_alt)
  with fits have "bytes \<le> limitBytes ?u" by (rule order_trans)
  then have "\<not> limitBytes ?u < bytes" "\<not> availableBytes ?u < bytes" using fits by (simp_all add: not_less)
  with tier show ?thesis
    by (simp add: makeRoomBody_def makeRoomLoopBody_def em_usage_def mm_usage_def bindp_def)
qed

lemma em_fuel_Suc: "em_fuel s = Suc (Suc (Suc (2 * length (em_experts s) + 5)))"
  by (simp add: em_fuel_def)

lemma makeRoom_fits:
  "em_ok s \<Longrightarrow> tier \<noteq> Nvme \<Longrightarrow> bytes \<le> availableBytes (usageFor (em_memory s) tier) \<Longrightarrow>
   makeRoom env tier bytes P s = (Inr (), s)"
  unfolding makeRoom_def em_fuel_Suc by (rule makeRoomLocked_fits)

lemma adopt_fits:
  assumes ok: "em_ok s" and e: "em_find s (key l i) = Some e" and tier: "tier \<noteq> Nvme"
    and fits: "exp_sizeBytes (me_metadata e) \<le> availableBytes (usageFor (em_memory s) tier)"
  obtains a t where "adopt env l i tier msg count w d s = (Inr (), t)" and "em_ok t"
    and "em_find t (key l i) = Some ((placed tier a w d e)
           \<lparr>me_usageCount := me_usageCount e + 1, me_lastUsed := em_accessClock s + 1\<rparr>)"
proof -
  obtain r t where run: "adopt env l i tier msg count w d s = (r, t)" by fastforce
  from mm_allocate_succeeds [OF tier em_okD(2) [OF ok e] fits]
  have g: "\<exists>a m1. mm_allocate tier (exp_sizeBytes (me_metadata e)) (allocation_tag l i) (em_memory s) = (Inr (Some a), m1)" .
  from ok e run show ?thesis
  proof (cases rule: adopt_cases)
    case (refused x)
    with g show ?thesis by blast
  next
    case (adopted b m2)
    with run that show ?thesis by blast
  qed
qed

lemma adoptDevice_fits:
  assumes ok: "em_ok s" and e: "em_find s (key l i) = Some e" "loc e \<noteq> Vram"
    and d: "device_usable (Some d)" "db_size d = exp_sizeBytes (me_metadata e)"
    and fits: "exp_sizeBytes (me_metadata e) \<le> availableBytes (usageFor (em_memory s) Vram)"
  obtains a t where "adoptDeviceWeights env l i (Some d) s = (Inr (), t)"
    and "em_find t (key l i) = Some ((placed Vram a None (Some d) e)
           \<lparr>me_usageCount := me_usageCount e + 1, me_lastUsed := em_accessClock s + 1\<rparr>)"
proof -
  obtain a t where "adopt env l i Vram ''failed reserving adopted expert memory''
      (\<lambda>_ st. st\<lparr>st_vramPromotions := st_vramPromotions st + 1\<rparr>) None (Some d) s = (Inr (), t)"
    and "em_find t (key l i) = Some ((placed Vram a None (Some d) e)
           \<lparr>me_usageCount := me_usageCount e + 1, me_lastUsed := em_accessClock s + 1\<rparr>)"
    by (rule adopt_fits [OF ok e(1) _ fits]) auto
  with that e d makeRoom_fits [OF ok _ fits] show ?thesis by (simp add: adoptDeviceWeights_def)
qed

lemma adoptHost_fits:
  assumes ok: "em_ok s" and e: "em_find s (key l i) = Some e" "loc e \<noteq> Ram" "me_residencyLeases e = 0"
    and h: "hb_bytes h \<noteq> []" "hb_size h = exp_sizeBytes (me_metadata e)"
    and fits: "exp_sizeBytes (me_metadata e) \<le> availableBytes (usageFor (em_memory s) Ram)"
  obtains a t where "adoptHostWeights env l i (Some h) s = (Inr (), t)"
    and "em_find t (key l i) = Some ((placed Ram a (Some h) None e)
           \<lparr>me_usageCount := me_usageCount e + 1, me_lastUsed := em_accessClock s + 1\<rparr>)"
proof -
  obtain a t where "adopt env l i Ram ''failed reserving adopted expert host memory''
      (\<lambda>source st. if source = Vram then st\<lparr>st_vramEvictions := st_vramEvictions st + 1\<rparr> else st)
      (Some h) None s = (Inr (), t)"
    and "em_find t (key l i) = Some ((placed Ram a (Some h) None e)
           \<lparr>me_usageCount := me_usageCount e + 1, me_lastUsed := em_accessClock s + 1\<rparr>)"
    by (rule adopt_fits [OF ok e(1) _ fits]) auto
  with that e h makeRoom_fits [OF ok _ fits] show ?thesis by (simp add: adoptHostWeights_def)
qed

subsection \<open>Properties\<close>

text \<open>A small configuration for the witnesses: an LRU manager over 100 bytes of VRAM and 200 of
  RAM, with and without a transfer service whose disk always fails.\<close>

definition plain_env :: "(lru_policy, unit) manager_env" where
  "plain_env = \<lparr> env_policy = lru_ops, env_transfers = None \<rparr>"

definition failing_env :: "(lru_policy, unit) manager_env" where
  "failing_env = \<lparr> env_policy = lru_ops, env_transfers = Some (\<lambda>req t. (Inl (StorageError ''read failed''), t)) \<rparr>"

definition manager0 :: "(lru_policy, unit) expert_manager" where
  "manager0 = projr (em_new (mm_new 100 200) (Some lru_new) ())"

definition expertA :: expert where
  "expertA = \<lparr> exp_id = 7, exp_layer = 1, exp_sizeBytes = 60, exp_quantization = Fp16, exp_location = Nvme \<rparr>"

definition expertB :: expert where
  "expertB = \<lparr> exp_id = 8, exp_layer = 1, exp_sizeBytes = 50, exp_quantization = Fp16, exp_location = Vram \<rparr>"

definition managerA :: "('p, 't) manager_env \<Rightarrow> ('p, 't) expert_manager \<Rightarrow> ('p, 't) expert_manager" where
  "managerA env s = snd (registerExpert env expertA s)"

definition managerAB :: "(lru_policy, unit) expert_manager" where
  "managerAB = snd (registerExpert plain_env expertB (managerA plain_env manager0))"

lemma example_hypotheses [simp]:
  "victim_policy (env_policy plain_env)" "victim_policy (env_policy failing_env)"
  "transfers_end plain_env" "transfers_end failing_env"
  by (simp_all add: plain_env_def failing_env_def transfers_end_def lru.victim_policy_axioms)

lemma example_reachable0: "em_reachable env manager0"
  by (rule reach_new [of 100 200 lru_new "()"]) (simp add: manager0_def em_new_def)

lemma reach_register: "em_reachable env s \<Longrightarrow> em_reachable env (snd (registerExpert env e s))"
  by (erule reach_step, rule step_op, rule op_register, rule prod.collapse [symmetric])

lemma example_reachableA: "em_reachable env s \<Longrightarrow> em_reachable env (managerA env s)"
  unfolding managerA_def by (rule reach_register)

lemma example_reachableAB: "em_reachable plain_env managerAB"
  unfolding managerAB_def by (intro reach_register example_reachableA example_reachable0)

lemma example_registered:
  "em_find (managerA plain_env manager0) (key 1 7) = Some (managed_new expertA 0)"
  "em_find (managerA failing_env manager0) (key 1 7) = Some (managed_new expertA 0)"
  by (simp_all add: managerA_def manager0_def em_new_def registerExpert_def expertA_def em_find_def
      insertExpert_def Let_def)

text \<open>The example's expert given host weights and leased.\<close>

definition hostA :: host_buffer where
  "hostA = \<lparr> hb_ref = 1, hb_bytes = replicate 60 0 \<rparr>"

definition deviceA :: device_buffer where
  "deviceA = \<lparr> db_ref = 2, db_bytes = replicate 60 0, db_live = True,
     db_backend = Some \<lparr> be_ref = 3, be_kind = Cpu, be_ordinal = 0, be_available = True, be_supportsPinned = False \<rparr> \<rparr>"

definition managerH :: "(lru_policy, unit) expert_manager" where
  "managerH = snd (adoptHostWeights plain_env 1 7 (Some hostA) (managerA plain_env manager0))"

definition managerL :: "(lru_policy, unit) expert_manager" where
  "managerL = snd (acquireHostExpert plain_env 1 7 managerH)"

lemma example_okA: "em_ok (managerA plain_env manager0)" "em_ok (managerA failing_env manager0)"
  using victim_policy.em_reachable_ok [OF example_hypotheses(1) refl example_hypotheses(3)
      example_reachableA [OF example_reachable0]]
    victim_policy.em_reachable_ok [OF example_hypotheses(2) refl example_hypotheses(4)
      example_reachableA [OF example_reachable0]] by blast+

lemma example_free:
  "availableBytes (usageFor (em_memory (managerA plain_env manager0)) Ram) = 200"
  "availableBytes (usageFor (em_memory (managerA plain_env manager0)) Vram) = 100"
  "availableBytes (usageFor (em_memory (managerA failing_env manager0)) Ram) = 200"
  by (simp_all add: managerA_def manager0_def em_new_def registerExpert_def expertA_def em_find_def
      insertExpert_def Let_def mm_new_def usageFor_def availableBytes_def)

lemma example_hosted:
  "\<exists>a. em_find managerH (key 1 7) = Some ((placed Ram a (Some hostA) None (managed_new expertA 0))
     \<lparr>me_usageCount := 1, me_lastUsed := 1\<rparr>)"
  "em_reachable plain_env managerH"
proof -
  have "em_accessClock (managerA plain_env manager0) = 0"
    by (simp add: managerA_def manager0_def em_new_def registerExpert_def expertA_def em_find_def
        insertExpert_def Let_def)
  moreover obtain a t where "adoptHostWeights plain_env 1 7 (Some hostA) (managerA plain_env manager0) = (Inr (), t)"
    and "em_find t (key 1 7) = Some ((placed Ram a (Some hostA) None (managed_new expertA 0))
      \<lparr>me_usageCount := me_usageCount (managed_new expertA 0) + 1,
        me_lastUsed := em_accessClock (managerA plain_env manager0) + 1\<rparr>)"
    by (rule adoptHost_fits [OF example_okA(1) example_registered(1), of hostA])
      (auto simp: managed_new_def hostA_def hb_size_def expertA_def example_free)
  ultimately show "\<exists>a. em_find managerH (key 1 7) = Some ((placed Ram a (Some hostA) None (managed_new expertA 0))
     \<lparr>me_usageCount := 1, me_lastUsed := 1\<rparr>)" by (auto simp: managerH_def managed_new_def)
  show "em_reachable plain_env managerH" unfolding managerH_def
    by (rule reach_step [OF example_reachableA [OF example_reachable0]], rule step_op, rule op_adopt_host,
        rule prod.collapse [symmetric])
qed

lemma example_leased:
  "\<exists>e. em_find managerL (key 1 7) = Some e \<and> loc e = Ram \<and> me_residencyLeases e = 1 \<and> me_weights e = Some hostA \<and>
     exp_sizeBytes (me_metadata e) = 60"
  "em_reachable plain_env managerL"
proof -
  obtain a where "em_find managerH (key 1 7) = Some ((placed Ram a (Some hostA) None (managed_new expertA 0))
     \<lparr>me_usageCount := 1, me_lastUsed := 1\<rparr>)" using example_hosted(1) by blast
  then show "\<exists>e. em_find managerL (key 1 7) = Some e \<and> loc e = Ram \<and> me_residencyLeases e = 1 \<and> me_weights e = Some hostA \<and>
     exp_sizeBytes (me_metadata e) = 60"
    by (simp add: managerL_def acquireHostExpert_def takeLease_def em_find_set managed_new_def expertA_def placed_def)
  show "em_reachable plain_env managerL" unfolding managerL_def
    by (rule reach_step [OF example_hosted(2)], rule step_op, rule op_acquire_host, rule prod.collapse [symmetric])
qed

text \<open>C1: In every state the manager can reach through its public operations, an expert off NVMe
  holds exactly one live reservation, of its own size and in its own tier, no two experts share a
  reservation, and policy ids and expert keys name each other.\<close>

theorem manager_invariant:
  assumes "victim_policy (env_policy env)" and "transfers_end env" and "em_reachable env s"
  shows "em_ok s"
  using victim_policy.em_reachable_ok [OF assms(1) refl assms(2,3)] .

theorem manager_invariant_witness: "em_ok managerAB"
  by (rule manager_invariant [OF example_hypotheses(1,3) example_reachableAB])

text \<open>C4: In every reachable state the experts resident in VRAM fit in the VRAM limit, and those in RAM
  or pinned RAM together fit in the RAM limit; the sums are over naturals, so no wrap-around hides
  an overcommitment.\<close>

theorem residency_within_capacity:
  assumes "victim_policy (env_policy env)" and "transfers_end env" and "em_reachable env s"
  shows "residentBytes True s \<le> unat (limitBytes (mm_vram (em_memory s))) \<and>
         residentBytes False s \<le> unat (limitBytes (mm_ram (em_memory s)))"
  using em_ok_capacity [OF victim_policy.em_reachable_ok [OF assms(1) refl assms(2,3)]] by blast

theorem residency_within_capacity_witness:
  "residentBytes True managerAB \<le> unat (limitBytes (mm_vram (em_memory managerAB)))"
  using residency_within_capacity [OF example_hypotheses(1,3) example_reachableAB] by blast

text \<open>C13: No public operation other than \<open>adoptDeviceWeights\<close> moves an expert that holds a residency
  lease: its tier, reservation and buffers are what they were, and it still holds the lease.\<close>

theorem leased_expert_stays:
  assumes "victim_policy (env_policy env)" and "transfers_end env" and "em_reachable env s"
    and "em_op env s t" and "em_find s k = Some e" and "me_residencyLeases e \<noteq> 0"
  shows "\<exists>e'. em_find t k = Some e' \<and> me_metadata e' = me_metadata e \<and>
    me_allocation e' = me_allocation e \<and> me_weights e' = me_weights e \<and>
    me_deviceWeights e' = me_deviceWeights e \<and> me_residencyLeases e \<le> me_residencyLeases e'"
proof -
  from victim_policy.em_op_ok [OF assms(1) refl assms(2) victim_policy.em_reachable_ok [OF assms(1) refl assms(2,3)] assms(4)]
  have "steady s t" by blast
  from steadyD [OF this assms(5,6)] show ?thesis by (auto simp: same_place_def)
qed

theorem leased_expert_stays_witness:
  "\<exists>e'. em_find (snd (moveExpert plain_env 1 7 Nvme managerL)) (key 1 7) = Some e' \<and>
     exp_location (me_metadata e') = Ram \<and> me_weights e' = Some hostA"
proof -
  obtain e where e: "em_find managerL (key 1 7) = Some e" "loc e = Ram" "me_residencyLeases e = 1" "me_weights e = Some hostA"
    using example_leased(1) by blast
  have "em_op plain_env managerL (snd (moveExpert plain_env 1 7 Nvme managerL))"
    by (rule op_move, rule prod.collapse [symmetric])
  from leased_expert_stays [OF example_hypotheses(1,3) example_leased(2) this e(1)] e show ?thesis by auto
qed

text \<open>C12: Every public operation returns or throws a C++ exception: the recursion between moving an
  expert and making room for it, and both eviction loops, end within \<open>em_fuel\<close> steps.\<close>

theorem manager_operations_end:
  assumes "victim_policy (env_policy env)" and "transfers_end env" and "em_reachable env s"
  shows "fst (registerExpert env x s) \<noteq> Inl Diverged \<and> fst (requestExpert env ms l i s) \<noteq> Inl Diverged \<and>
    fst (moveExpert env l i dest s) \<noteq> Inl Diverged \<and> fst (evictUntilWithin env tier bound s) \<noteq> Inl Diverged \<and>
    fst (adoptHostWeights env l i host s) \<noteq> Inl Diverged \<and>
    fst (adoptDeviceWeights env l i device s) \<noteq> Inl Diverged \<and>
    fst (prepareResidency env l i dest s) \<noteq> Inl Diverged \<and>
    fst (acquireResidentExpert env l i s) \<noteq> Inl Diverged \<and> fst (acquireHostExpert env l i s) \<noteq> Inl Diverged"
proof -
  note ok = victim_policy.em_reachable_ok [OF assms(1) refl assms(2,3)]
  note E = victim_policy.operations_end [OF assms(1) refl assms(2) ok] victim_policy.ends_register [OF assms(1) refl assms(2) ok]
  show ?thesis by (intro conjI E [unfolded ends_def])
qed

theorem manager_operations_end_witness:
  "fst (requestExpert plain_env 0 1 8 managerAB) \<noteq> Inl Diverged \<and>
   fst (evictUntilWithin plain_env Vram 0 managerAB) \<noteq> Inl Diverged"
  using manager_operations_end [OF example_hypotheses(1,3) example_reachableAB] by blast

text \<open>A request that returns leaves the expert in VRAM, reports its metadata and the tier it was
  found in, and counts one use at the new logical time.\<close>

theorem request_brings_to_vram:
  assumes "victim_policy (env_policy env)" and "transfers_end env" and "em_reachable env s"
    and run: "requestExpert env ms l i s = (Inr rr, t)"
  shows "\<exists>e e'. em_find s (key l i) = Some e \<and> em_find t (key l i) = Some e' \<and>
    exp_location (me_metadata e') = Vram \<and> rr_expert rr = me_metadata e' \<and>
    rr_source rr = (if exp_location (me_metadata e) = Vram then VramHit
                    else if exp_location (me_metadata e) = Ram then RamHit else NvmeLoad) \<and>
    me_usageCount e' = me_usageCount e + 1 \<and> me_lastUsed e' = em_accessClock s + 1 \<and>
    em_accessClock t = em_accessClock s + 1"
proof -
  note ok = victim_policy.em_reachable_ok [OF assms(1) refl assms(2,3)]
  obtain e where e: "em_find s (key l i) = Some e"
    using run by (cases "em_find s (key l i)") (auto simp: requestExpert_def requireExpertLocked_def bindp_def)
  obtain u where u: "move env l i Vram {me_policyId e} s = (Inr (), u)"
    using run e by (auto simp: requestExpert_def Let_def elim!: thenp_cases)
  from move_specD [OF victim_policy.move_move_spec [OF assms(1) refl] ok _ u] e
  have fr: "frame {key l i} {me_policyId e} s u" and mv: "moved (key l i) Vram s (Inr ()) u" by auto
  from mv e obtain f where f: "em_find u (key l i) = Some f" "loc f = Vram" by (auto simp: moved_def)
  from frame_find [OF fr e] f(1) have "same_identity e f" by (auto simp: evolved_def)
  then have "me_usageCount f = me_usageCount e" by (simp add: same_identity_def)
  moreover have "em_accessClock u = em_accessClock s" using fr by (simp add: frame_def core_def)
  ultimately show ?thesis using run e u f
    by (auto simp: requestExpert_def Let_def recordAccess_find recordAccess_clock split: if_splits)
qed

text \<open>A registration either succeeds, with the expert in the tier it asked for, or throws and
  leaves the table of experts without it (or with the earlier expert of that layer and id).\<close>

theorem register_all_or_nothing:
  assumes "victim_policy (env_policy env)" and "transfers_end env" and "em_reachable env s"
    and "registerExpert env x s = (r, t)"
  shows "if r = Inr ()
    then \<exists>e. em_find t (key (exp_layer x) (exp_id x)) = Some e \<and> exp_location (me_metadata e) = exp_location x
    else em_find t (key (exp_layer x) (exp_id x)) = em_find s (key (exp_layer x) (exp_id x))"
  using victim_policy.registerExpert_result [OF assms(1) refl assms(2)
      victim_policy.em_reachable_ok [OF assms(1) refl assms(2,3)] assms(4)] by auto

text \<open>When \<open>evictUntilWithin\<close> returns, the tier's account is within the requested bound or no
  expert without a lease is left in the tier; and no expert was promoted.\<close>

theorem evict_until_within:
  assumes "victim_policy (env_policy env)" and "transfers_end env" and "em_reachable env s"
    and "tier \<noteq> Nvme" and "evictUntilWithin env tier bound s = (Inr n, t)"
  shows "(usedBytes (usageFor (em_memory t) tier) \<le> bound \<or>
      (\<forall>k e. em_find t k = Some e \<longrightarrow> exp_location (me_metadata e) = tier \<longrightarrow> me_residencyLeases e \<noteq> 0)) \<and>
    (\<forall>k e. em_find s k = Some e \<longrightarrow>
       (\<exists>e'. em_find t k = Some e' \<and>
          (e' = e \<or> demoted (exp_location (me_metadata e)) (exp_location (me_metadata e')))))"
proof -
  from victim_policy.evictUntilWithin_result [OF assms(1) refl assms(2)
      victim_policy.em_reachable_ok [OF assms(1) refl assms(2,3)] assms(4,5)]
  have fr: "frame {} {} s t"
    and b: "usedBytes (usageFor (em_memory t) tier) \<le> bound \<or> candidatesLocked tier t = []" by auto
  have "\<exists>e'. em_find t k = Some e' \<and> (e' = e \<or> demoted (loc e) (loc e'))" if "em_find s k = Some e" for k e
    using frame_find [OF fr that] by (auto simp: evolved_def)
  moreover have "me_residencyLeases e \<noteq> 0" if "candidatesLocked tier t = []" "em_find t k = Some e" "loc e = tier" for k e
    using candidateI [OF that(2,3)] that(1) by auto
  ultimately show ?thesis using b by blast
qed

text \<open>A device lease that is granted is valid, holds the device buffer of an expert that is now in
  VRAM, and adds one to the expert's lease count; dropping it takes that one away again.\<close>

theorem acquire_device_lease:
  assumes "victim_policy (env_policy env)" and "transfers_end env" and "em_reachable env s"
    and run: "acquireResidentExpert env l i s = (Inr ls, t)"
  shows "\<exists>e e'. em_find s (key l i) = Some e \<and> em_find t (key l i) = Some e' \<and> lease_valid ls \<and>
    exp_location (me_metadata e') = Vram \<and> me_deviceWeights e' \<noteq> None \<and> ls_deviceBuffer ls = me_deviceWeights e' \<and>
    me_residencyLeases e' = me_residencyLeases e + 1 \<and>
    em_find (lease_reset ls t) (key l i) = Some (e'\<lparr>me_residencyLeases := me_residencyLeases e\<rparr>)"
proof -
  note ok = victim_policy.em_reachable_ok [OF assms(1) refl assms(2,3)]
  obtain e where e: "em_find s (key l i) = Some e"
    using run by (cases "em_find s (key l i)") (auto simp: acquireResidentExpert_def requireExpertLocked_def bindp_def)
  let ?mv = "if loc e \<noteq> Vram \<or> me_deviceWeights e = None then move env l i Vram {me_policyId e} else ret ()"
  obtain u where u: "?mv s = (Inr (), u)"
    using run e by (auto simp: acquireResidentExpert_def elim!: thenp_cases split: if_splits)
  have fr: "frame {key l i} {me_policyId e} s u"
  proof (cases "loc e \<noteq> Vram \<or> me_deviceWeights e = None")
    case True
    with u have "move env l i Vram {me_policyId e} s = (Inr (), u)" by (simp split: if_splits)
    from move_specD [OF victim_policy.move_move_spec [OF assms(1) refl] ok _ this] e show ?thesis by auto
  next
    case False
    with u show ?thesis by auto
  qed
  from frame_find [OF fr e] obtain f where f: "em_find u (key l i) = Some f" "me_residencyLeases f = me_residencyLeases e"
    by (auto simp: evolved_def same_identity_def)
  have "thenp ?mv (bindp (requireExpertLocked l i) (\<lambda>m.
        if loc m \<noteq> Vram \<or> me_deviceWeights m = None
        then raise (LogicError ''expert does not own a resident device buffer'')
        else thenp (modify (takeLease (key l i)))
          (ret \<lparr> ls_leaseCount = Some (key l i), ls_deviceBuffer = me_deviceWeights m, ls_hostBuffer = None \<rparr>))) s = (Inr ls, t)"
    using run e by (simp add: acquireResidentExpert_def)
  with u f have "loc f = Vram" "me_deviceWeights f \<noteq> None" "t = takeLease (key l i) u"
    "ls = \<lparr> ls_leaseCount = Some (key l i), ls_deviceBuffer = me_deviceWeights f, ls_hostBuffer = None \<rparr>"
    by (auto split: if_splits)
  with e f show ?thesis
    by (auto simp: takeLease_def em_find_set lease_valid_def lease_reset_def)
qed

subsection \<open>Two shortfalls\<close>

text \<open>C27: A direct load from NVMe into RAM whose transfer throws leaves its reservation behind: the
  expert stays on NVMe, no expert holds the reservation, and the RAM account stays charged with
  its bytes.\<close>

theorem direct_load_leaks_reservation:
  assumes "victim_policy (env_policy env)" and "transfers_end env" and "em_reachable env s"
    and e: "em_find s (key l i) = Some e" "exp_location (me_metadata e) = Nvme" "me_residencyLeases e = 0"
    and submit: "env_transfers env = Some submit"
      "\<forall>req tr. \<exists>x. fst (submit req tr) = Inl x"
    and fits: "exp_sizeBytes (me_metadata e) \<le> availableBytes (usageFor (em_memory s) Ram)"
  shows "\<exists>x t a. moveExpert env l i Ram s = (Inl x, t) \<and> em_experts t = em_experts s \<and>
    usedBytes (mm_ram (em_memory t)) = usedBytes (mm_ram (em_memory s)) + exp_sizeBytes (me_metadata e) \<and>
    mm_allocations (em_memory t) (ma_id a) = Some a \<and>
    (\<forall>k e'. em_find t k = Some e' \<longrightarrow> me_allocation e' \<noteq> Some a)"
proof -
  note ok = victim_policy.em_reachable_ok [OF assms(1) refl assms(2,3)]
  let ?n = "exp_sizeBytes (me_metadata e)"
  let ?req = "transfer_request_default\<lparr>tr_layerId := exp_layer (me_metadata e), tr_expertId := i, tr_destination := Ram\<rparr>"
  obtain a m1 where g: "mm_allocate Ram ?n (allocation_tag l i) (em_memory s) = (Inr (Some a), m1)"
    using mm_allocate_succeeds [OF _ em_okD(2) [OF ok e(1)] fits] by blast
  note G = mm_granted_facts [OF em_ok_ledger [OF ok] g]
  have used: "usedBytes (mm_ram m1) = usedBytes (mm_ram (em_memory s)) + ?n"
    using g by (auto simp: mm_allocate_def Let_def setUsageFor_def usageFor_def split: if_splits)
  obtain x tr where sub: "submit ?req (em_transfers s) = (Inl x, tr)"
    using submit(2) by (metis prod.collapse)
  let ?t = "s\<lparr>em_memory := m1, em_transfers := tr\<rparr>"
  have "loadDirect env submit l i s = (Inl x, ?t)"
    using e g sub by (simp add: loadDirect_def reserve_def on_memory_apply on_transfers_apply)
  moreover obtain n where n: "em_fuel s = Suc (Suc (Suc n))" using em_fuel_Suc by blast
  moreover have "makeRoomLocked (Suc (Suc n)) env Ram ?n {me_policyId e} s = (Inr (), s)"
    by (rule makeRoomLocked_fits [OF ok _ fits]) simp
  ultimately have "moveExpert env l i Ram s = (Inl x, ?t)"
    using e submit(1) by (simp add: moveExpert_def move_def moveExpertBody_def del: makeRoomLocked.simps)
  moreover have "me_allocation f \<noteq> Some a" if "em_find s k = Some f" for k f
    using em_okD(3) [OF ok that] G(2) by (auto simp: holds_ok_def)
  ultimately show ?thesis using used G(3) by (intro exI [of _ x] exI [of _ ?t] exI [of _ a]) auto
qed

theorem direct_load_leaks_reservation_witness:
  "\<exists>x t. moveExpert failing_env 1 7 Ram (managerA failing_env manager0) = (Inl x, t) \<and>
     usedBytes (mm_ram (em_memory t)) = usedBytes (mm_ram (em_memory (managerA failing_env manager0))) + 60"
proof -
  have sub: "env_transfers failing_env = Some (\<lambda>req t. (Inl (StorageError ''read failed''), t))"
    by (simp add: failing_env_def)
  from direct_load_leaks_reservation [OF example_hypotheses(2,4) example_reachableA [OF example_reachable0]
      example_registered(2) _ _ sub]
  show ?thesis by (fastforce simp: managed_new_def expertA_def example_free(3) [unfolded expertA_def])
qed

text \<open>C28: The device adoption does not look at residency leases: an expert leased in RAM whose device
  copy fits in VRAM is moved there, its host weights and its RAM reservation are dropped while the
  lease is still counted.\<close>

theorem adopt_device_ignores_lease:
  assumes "victim_policy (env_policy env)" and "transfers_end env" and "em_reachable env s"
    and e: "em_find s (key l i) = Some e" "exp_location (me_metadata e) = Ram" "me_residencyLeases e \<noteq> 0"
    and d: "device_usable (Some d)" "db_size d = exp_sizeBytes (me_metadata e)"
    and fits: "exp_sizeBytes (me_metadata e) \<le> availableBytes (usageFor (em_memory s) Vram)"
  shows "\<exists>t e'. adoptDeviceWeights env l i (Some d) s = (Inr (), t) \<and> em_find t (key l i) = Some e' \<and>
    exp_location (me_metadata e') = Vram \<and> me_weights e' = None \<and> me_residencyLeases e' = me_residencyLeases e"
proof -
  note ok = victim_policy.em_reachable_ok [OF assms(1) refl assms(2,3)]
  have "loc e \<noteq> Vram" using e(2) by simp
  from adoptDevice_fits [OF ok e(1) this d fits] obtain a t where
    "adoptDeviceWeights env l i (Some d) s = (Inr (), t)"
    "em_find t (key l i) = Some ((placed Vram a None (Some d) e)
       \<lparr>me_usageCount := me_usageCount e + 1, me_lastUsed := em_accessClock s + 1\<rparr>)" by blast
  then show ?thesis by auto
qed

theorem adopt_device_ignores_lease_witness:
  "\<exists>t e'. adoptDeviceWeights plain_env 1 7 (Some deviceA) managerL = (Inr (), t) \<and>
     em_find t (key 1 7) = Some e' \<and> exp_location (me_metadata e') = Vram \<and> me_residencyLeases e' = 1"
proof -
  obtain e where e: "em_find managerL (key 1 7) = Some e" "loc e = Ram" "me_residencyLeases e = 1"
    "exp_sizeBytes (me_metadata e) = 60" using example_leased(1) by blast
  let ?A = "managerA plain_env manager0"
  have room: "makeRoom plain_env Ram 60 {0} ?A = (Inr (), ?A)"
    by (rule makeRoom_fits [OF example_okA(1)]) (simp_all add: example_free)
  have A: "mm_vram (em_memory ?A) = \<lparr> usedBytes = 0, limitBytes = 100 \<rparr>" "mm_ram (em_memory ?A) = \<lparr> usedBytes = 0, limitBytes = 200 \<rparr>"
    by (simp_all add: managerA_def manager0_def em_new_def registerExpert_def expertA_def em_find_def insertExpert_def
        Let_def mm_new_def)
  have "mm_vram (em_memory managerH) = \<lparr> usedBytes = 0, limitBytes = 100 \<rparr>"
    by (simp add: managerH_def adoptHostWeights_def hostA_def hb_size_def requireExpertLocked_def example_registered(1)
        managed_new_def expertA_def room adopt_def reserve_def on_memory_def mm_allocate_def usageFor_def A availableBytes_def
        Let_def setUsageFor_def releaseHeld_def em_set_def em_policy_upd_def em_stats_upd_def recordAccess_def split: option.split)
  then have "availableBytes (usageFor (em_memory managerL) Vram) = 100"
    using example_hosted(1) by (auto simp: managerL_def acquireHostExpert_def takeLease_def usageFor_def availableBytes_def
        managed_new_def expertA_def requireExpertLocked_def placed_def)
  with adopt_device_ignores_lease [OF example_hypotheses(1,3) example_leased(2) e(1,2), of deviceA] e
  show ?thesis by (auto simp: device_usable_def deviceA_def db_size_def)
qed

end
