(* ===== verification/Memory_Pressure.thy ===== *)
theory Memory_Pressure
  imports Expert_Manager_Props
begin

text \<open>
  \<^verbatim>\<open>src/memory/MemoryPressureController.cpp\<close>: a poll compares the two byte accounts with their limits
  less a safety margin and evicts down to the difference, VRAM first because its victims land in
  RAM. The controller refers to the memory manager that the expert manager uses, so its state is the
  expert manager's; the depth of the transfer queue is read through \<open>queueDepth\<close>.
\<close>

record pressure_config =
  vramSafetyMarginBytes :: u64
  ramSafetyMarginBytes :: u64
  storageQueueHighWatermark :: nat

record pressure_report =
  vramPressure :: bool
  ramPressure :: bool
  storageQueuePressure :: bool
  vramExpertsMoved :: nat
  ramExpertsMoved :: nat
  storageQueueDepth :: nat

record pressure_stats =
  polls :: nat
  vramPressureEvents :: nat
  ramPressureEvents :: nat
  storageQueuePressureEvents :: nat

record ('p, 't) pressure_controller =
  mpc_experts :: "('p, 't) expert_manager"
  mpc_config :: pressure_config
  mpc_stats :: pressure_stats

type_synonym ('p, 't, 'a) mpcp = "(('p, 't) pressure_controller, 'a) prog"

definition mpc_new :: "('p, 't) expert_manager \<Rightarrow> pressure_config \<Rightarrow> ('p, 't) pressure_controller" where
  "mpc_new experts config =
     \<lparr> mpc_experts = experts, mpc_config = config,
       mpc_stats = \<lparr> polls = 0, vramPressureEvents = 0, ramPressureEvents = 0, storageQueuePressureEvents = 0 \<rparr> \<rparr>"

definition on_experts :: "('p, 't, 'a) emp \<Rightarrow> ('p, 't, 'a) mpcp" where
  "on_experts = zoom mpc_experts (\<lambda>m s. s\<lparr>mpc_experts := m\<rparr>)"

definition count_stats :: "(pressure_stats \<Rightarrow> pressure_stats) \<Rightarrow> ('p, 't, unit) mpcp" where
  "count_stats f = modify (\<lambda>s. s\<lparr>mpc_stats := f (mpc_stats s)\<rparr>)"

text \<open>\<open>limit > margin ? limit - margin : 0\<close>\<close>

definition pressureTarget :: "tier_usage \<Rightarrow> u64 \<Rightarrow> u64" where
  "pressureTarget u margin = (if limitBytes u > margin then limitBytes u - margin else 0)"

text \<open>One of the two guarded evictions: whether there was pressure and how many experts moved.\<close>

definition relieve :: "('p, 't) manager_env \<Rightarrow> memory_tier \<Rightarrow> u64 \<Rightarrow> (pressure_stats \<Rightarrow> pressure_stats) \<Rightarrow>
    ('p, 't, bool \<times> nat) mpcp" where
  "relieve env tier target count =
     bindp (gets (\<lambda>s. usedBytes (usageFor (em_memory (mpc_experts s)) tier) > target)) (\<lambda>pressure.
       if pressure then
         thenp (count_stats count)
           (bindp (on_experts (evictUntilWithin env tier target)) (\<lambda>n. ret (True, n)))
       else ret (False, 0))"

definition poll :: "('p, 't) manager_env \<Rightarrow> ('t \<Rightarrow> nat) \<Rightarrow> ('p, 't, pressure_report) mpcp" where
  "poll env queueDepth =
     thenp (count_stats (\<lambda>st. st\<lparr>polls := polls st + 1\<rparr>))
     (bindp (gets (\<lambda>s. (memorySnapshot (mpc_experts s), mpc_config s))) (\<lambda>(initial, config).
      let vramTarget = pressureTarget (fst initial) (vramSafetyMarginBytes config);
          ramTarget = pressureTarget (snd initial) (ramSafetyMarginBytes config) in
      bindp (relieve env Vram vramTarget (\<lambda>st. st\<lparr>vramPressureEvents := vramPressureEvents st + 1\<rparr>)) (\<lambda>(vp, vn).
      bindp (relieve env Ram ramTarget (\<lambda>st. st\<lparr>ramPressureEvents := ramPressureEvents st + 1\<rparr>)) (\<lambda>(rp, rn).
      bindp (gets (\<lambda>s. queueDepth (em_transfers (mpc_experts s)))) (\<lambda>depth.
      let qp = (depth \<ge> storageQueueHighWatermark config) in
      thenp (if qp then count_stats (\<lambda>st. st\<lparr>storageQueuePressureEvents := storageQueuePressureEvents st + 1\<rparr>)
             else ret ())
        (ret \<lparr> vramPressure = vp, ramPressure = rp, storageQueuePressure = qp, vramExpertsMoved = vn,
               ramExpertsMoved = rn, storageQueueDepth = depth \<rparr>))))))"

subsection \<open>Warm evictions leave the VRAM account alone\<close>

lemma mm_release_other_account:
  assumes "mm_allocations m i = Some a" and "ma_tier a \<noteq> Vram"
  shows "mm_vram (snd (mm_release i m)) = mm_vram m"
  using assms by (simp add: mm_release_def setUsageFor_def)

lemma dropToNvme_vram:
  assumes ok: "em_ok s" and e: "em_find s k = Some e" and loc: "loc e \<noteq> Vram"
    and run: "dropToNvme env k e s = (r, t)"
  shows "mm_vram (em_memory t) = mm_vram (em_memory s)"
proof -
  obtain m2 where rel: "releaseHeld e s = (Inr True, s\<lparr>em_memory := m2\<rparr>)" by (rule releaseHeld_ok_step [OF ok e])
  have "mm_vram m2 = mm_vram (em_memory s)"
  proof (cases "me_allocation e")
    case None
    with rel show ?thesis by (simp add: releaseHeld_def) (metis expert_manager.ext_inject expert_manager.surjective expert_manager.update_convs(1))
  next
    case (Some a)
    with em_okD(3) [OF ok e] loc have "mm_allocations (em_memory s) (ma_id a) = Some a" "ma_tier a \<noteq> Vram"
      by (auto simp: holds_ok_def)
    from mm_release_other_account [OF this] rel Some show ?thesis
      by (simp add: releaseHeld_def on_memory_apply)
        (metis expert_manager.ext_inject expert_manager.surjective expert_manager.update_convs(1))
  qed
  with run rel show ?thesis by (auto simp: dropToNvme_def Let_def)
qed

lemma move_Nvme_vram:
  assumes ok: "em_ok s" and e: "em_find s (key l i) = Some e" and loc: "loc e \<noteq> Vram"
    and run: "move env l i Nvme P s = (r, t)"
  shows "mm_vram (em_memory t) = mm_vram (em_memory s)"
proof -
  obtain n where "em_fuel s = Suc n" using em_fuel_Suc by blast
  with run e have "t = s \<or> dropToNvme env (key l i) e s = (r, t)"
    by (auto simp: move_def moveExpertBody_def Let_def split: if_splits)
  with dropToNvme_vram [OF ok e loc] show ?thesis by auto
qed

context victim_policy
begin

lemma evictLoop_Ram_vram:
  assumes env: "env_policy env = ops" and ok: "em_ok s" and run: "evictLoop n env Ram bound c s = (r, t)"
  shows "mm_vram (em_memory t) = mm_vram (em_memory s)"
  using ok run
proof (induction n arbitrary: s c)
  case (Suc n)
  have us: "em_usage Ram s = (Inr (usageFor (em_memory s) Ram), s)" by (simp add: em_usage_def mm_usage_def)
  let ?sel = "selectVictim (env_policy env) (em_policy s) Ram (candidatesLocked Ram s) {}"
  show ?case
  proof (cases "usedBytes (usageFor (em_memory s) Ram) > bound \<and> ?sel \<noteq> None")
    case False
    with Suc.prems(2) us have "t = s" by (auto split: if_splits)
    then show ?thesis by simp
  next
    case True
    then obtain v where v: "?sel = Some v" by auto
    with env have "v \<in> set (candidatesLocked Ram s)" using victim_sound by blast
    from candidate_expert [OF Suc.prems(1) this] obtain k e where e: "em_find s k = Some e" "me_policyId e = v"
      "loc e = Ram" and k: "k = key (exp_layer (me_metadata e)) (exp_id (me_metadata e))"
      and idv: "identifyVictim v s = (Inr (me_metadata e), s)" by blast
    let ?mv = "move env (exp_layer (me_metadata e)) (exp_id (me_metadata e)) Nvme {v}"
    have "thenp ?mv (evictLoop n env Ram bound (c + 1)) s = (r, t)"
      using Suc.prems(2) us True v idv by (simp add: demote_def)
    then show ?thesis
    proof (cases rule: thenp_cases)
      case (1 x)
      from move_Nvme_vram [OF Suc.prems(1) e(1) [unfolded k] _ 1(1)] e(3) show ?thesis by simp
    next
      case (2 x u)
      from move_Nvme_vram [OF Suc.prems(1) e(1) [unfolded k] _ 2(1)] e(3)
      have "mm_vram (em_memory u) = mm_vram (em_memory s)" by simp
      moreover have "em_ok u"
        using step_okD [OF move_step [OF env Suc.prems(1) e(1) [unfolded k]] 2(1)] e(2) by simp
      ultimately show ?thesis using Suc.IH [OF _ 2(2)] by simp
    qed
  qed
qed simp

lemma relieve_result:
  assumes env: "env_policy env = ops" and te: "transfers_end env" and ok: "em_ok (mpc_experts s)"
    and tier: "tier = Vram \<or> tier = Ram" and run: "relieve env tier target count s = (r, t)"
  shows "em_ok (mpc_experts t) \<and> frame {} {} (mpc_experts s) (mpc_experts t) \<and> mpc_config t = mpc_config s \<and>
    (tier = Ram \<longrightarrow> mm_vram (em_memory (mpc_experts t)) = mm_vram (em_memory (mpc_experts s))) \<and>
    (\<forall>x. r = Inr x \<longrightarrow> usedBytes (usageFor (em_memory (mpc_experts t)) tier) \<le> target \<or>
       candidatesLocked tier (mpc_experts t) = [])"
proof (cases "usedBytes (usageFor (em_memory (mpc_experts s)) tier) > target")
  case False
  with run have "t = s" by (simp add: relieve_def)
  with False ok show ?thesis by (auto simp: not_less)
next
  case True
  obtain r' u where ev: "evictUntilWithin env tier target (mpc_experts s) = (r', u)" by fastforce
  from run True ev have t: "t = s\<lparr>mpc_stats := count (mpc_stats s), mpc_experts := u\<rparr>"
    and r: "\<And>x. r = Inr x \<Longrightarrow> \<exists>n. r' = Inr n"
    by (auto simp: relieve_def count_stats_def on_experts_def bindp_def thenp_def split: sum.splits)
  from tier have "tier \<noteq> Nvme" by auto
  from evictUntilWithin_result [OF env te ok this ev]
  have res: "em_ok u" "frame {} {} (mpc_experts s) u"
    "\<And>m. r' = Inr m \<Longrightarrow> usedBytes (usageFor (em_memory u) tier) \<le> target \<or> candidatesLocked tier u = []" by auto
  have "mm_vram (em_memory u) = mm_vram (em_memory (mpc_experts s))" if "tier = Ram"
    using evictLoop_Ram_vram [OF env ok, of "em_fuel (mpc_experts s)" target 0 r' u] ev that
    by (simp add: evictUntilWithin_def)
  with res r t show ?thesis by auto
qed

lemma poll_result:
  assumes env: "env_policy env = ops" and te: "transfers_end env" and ok: "em_ok (mpc_experts s)"
    and run: "poll env depth s = (Inr report, t)"
  defines "vt \<equiv> pressureTarget (mm_vram (em_memory (mpc_experts s))) (vramSafetyMarginBytes (mpc_config s))"
  defines "rt \<equiv> pressureTarget (mm_ram (em_memory (mpc_experts s))) (ramSafetyMarginBytes (mpc_config s))"
  shows "em_ok (mpc_experts t) \<and>
    (usedBytes (mm_vram (em_memory (mpc_experts t))) \<le> vt \<or> candidatesLocked Vram (mpc_experts t) = []) \<and>
    (usedBytes (mm_ram (em_memory (mpc_experts t))) \<le> rt \<or> candidatesLocked Ram (mpc_experts t) = [])"
proof -
  let ?s0 = "s\<lparr>mpc_stats := (mpc_stats s)\<lparr>polls := polls (mpc_stats s) + 1\<rparr>\<rparr>"
  let ?cv = "\<lambda>st. st\<lparr>vramPressureEvents := vramPressureEvents st + 1\<rparr>"
  let ?cr = "\<lambda>st. st\<lparr>ramPressureEvents := ramPressureEvents st + 1\<rparr>"
  obtain r1 s1 where r1: "relieve env Vram vt ?cv ?s0 = (r1, s1)" by fastforce
  obtain r2 s2 where r2: "relieve env Ram rt ?cr s1 = (r2, s2)" by fastforce
  from run r1 r2 have "\<exists>x. r1 = Inr x" "\<exists>x. r2 = Inr x" and t: "mpc_experts t = mpc_experts s2"
    unfolding vt_def rt_def
    by (auto simp: poll_def count_stats_def memorySnapshot_def mm_snapshot_def Let_def thenp_def bindp_def
        split: sum.splits prod.splits if_splits)
  moreover have "em_ok (mpc_experts ?s0)" using ok by simp
  note R1 = relieve_result [OF env te this _ r1, simplified]
  note R2 = relieve_result [OF env te conjunct1 [OF R1] _ r2, simplified]
  moreover have "candidatesLocked Vram (mpc_experts s2) = []" if none: "candidatesLocked Vram (mpc_experts s1) = []"
  proof (rule ccontr)
    assume "candidatesLocked Vram (mpc_experts s2) \<noteq> []"
    then obtain v where "v \<in> set (candidatesLocked Vram (mpc_experts s2))" using hd_in_set by blast
    from candidate_expert [OF conjunct1 [OF R2] this] obtain k e
      where e: "em_find (mpc_experts s2) k = Some e" "loc e = Vram" "me_residencyLeases e = 0" by blast
    have fr: "frame {} {} (mpc_experts s1) (mpc_experts s2)" using R2 by blast
    have "map fst (em_experts (mpc_experts s2)) = map fst (em_experts (mpc_experts s1))"
      using fr by (simp add: frame_def core_def)
    with find_listed [OF e(1)] obtain f where f: "em_find (mpc_experts s1) k = Some f"
      by (cases "em_find (mpc_experts s1) k") (simp_all add: em_find_def map_of_eq_None_iff)
    from frame_find [OF fr f] e have "e = f" by (auto simp: evolved_def)
    with candidateI [OF f] e none show False by simp
  qed
  ultimately show ?thesis using R1 R2 by (auto simp: usageFor_def)
qed

end

text \<open>When a poll returns, each account is within its limit less the safety margin, or every
  expert left in that tier is held by a residency lease; demoting VRAM victims into RAM does not
  undo this, because RAM is relieved afterwards.\<close>

theorem poll_relieves_pressure:
  assumes "victim_policy (env_policy env)" and "transfers_end env" and "em_reachable env (mpc_experts s)"
    and "poll env depth s = (Inr report, t)"
  shows "(usedBytes (mm_vram (em_memory (mpc_experts t))) \<le>
        pressureTarget (mm_vram (em_memory (mpc_experts s))) (vramSafetyMarginBytes (mpc_config s)) \<or>
      (\<forall>k e. em_find (mpc_experts t) k = Some e \<longrightarrow> exp_location (me_metadata e) = Vram \<longrightarrow> me_residencyLeases e \<noteq> 0)) \<and>
    (usedBytes (mm_ram (em_memory (mpc_experts t))) \<le>
        pressureTarget (mm_ram (em_memory (mpc_experts s))) (ramSafetyMarginBytes (mpc_config s)) \<or>
      (\<forall>k e. em_find (mpc_experts t) k = Some e \<longrightarrow> exp_location (me_metadata e) = Ram \<longrightarrow> me_residencyLeases e \<noteq> 0))"
proof -
  have none: "me_residencyLeases e \<noteq> 0"
    if "candidatesLocked tier u = []" "em_find u k = Some e" "loc e = tier" for tier k e and u :: "('a, 'b) expert_manager"
    using candidateI [OF that(2,3)] that(1) by auto
  from victim_policy.poll_result [OF assms(1) refl assms(2)
      victim_policy.em_reachable_ok [OF assms(1) refl assms(2,3)] assms(4)] none
  show ?thesis by blast
qed

end
