(* ===== verification/Residency_State.thy ===== *)
theory Residency_State
  imports Expert_Types
begin

text \<open>
  \<^verbatim>\<open>src/scheduler/ExpertState.cpp\<close>: the life cycle of each expert as the scheduler sees it. The table
  of states is an association list in iteration order; the steady clock's reading is the argument
  \<open>now\<close> of the operations that store it. Each operation locks the table for its whole body, so it is
  one program; it throws without changing anything when the expert is unknown or not in a state
  the operation accepts. The overloads without a layer fix the layer to 0.
\<close>

datatype lifecycle = Requested | Queued | Loading | Ready | InUse | Evicting | Failed

fun lifecycle_toString :: "lifecycle \<Rightarrow> string" where
  "lifecycle_toString Requested = ''REQUESTED''"
| "lifecycle_toString Queued = ''QUEUED''"
| "lifecycle_toString Loading = ''LOADING''"
| "lifecycle_toString Ready = ''READY''"
| "lifecycle_toString InUse = ''IN_USE''"
| "lifecycle_toString Evicting = ''EVICTING''"
| "lifecycle_toString Failed = ''FAILED''"

record expert_state =
  es_layerId :: layer_id
  es_id :: expert_id
  es_currentLocation :: memory_tier
  es_targetLocation :: memory_tier
  es_state :: lifecycle
  es_lastUsed :: nat
  es_usageCount :: nat

type_synonym residency_states = "(expert_key \<times> expert_state) list"
type_synonym 'a rsp = "(residency_states, 'a) prog"

definition rs_registerExpert :: "nat \<Rightarrow> layer_id \<Rightarrow> expert_id \<Rightarrow> memory_tier \<Rightarrow> unit rsp" where
  "rs_registerExpert now l i location = (\<lambda>st.
     if map_of st (key l i) \<noteq> None
     then (Inl (InvalidArgument ''expert state is already registered''), st)
     else (Inr (), st @ [(key l i, \<lparr> es_layerId = l, es_id = i, es_currentLocation = location,
             es_targetLocation = location, es_state = Ready, es_lastUsed = now, es_usageCount = 0 \<rparr>)]))"

text \<open>\<open>requireLocked\<close>, a guard on the state, then an update through the reference.\<close>

definition rs_requireLocked :: "layer_id \<Rightarrow> expert_id \<Rightarrow> expert_state rsp" where
  "rs_requireLocked l i = (\<lambda>st.
     case map_of st (key l i) of
       None \<Rightarrow> (Inl (OutOfRange ''expert state is not registered''), st)
     | Some e \<Rightarrow> (Inr e, st))"

definition rs_change :: "layer_id \<Rightarrow> expert_id \<Rightarrow> lifecycle set \<Rightarrow> string \<Rightarrow> (expert_state \<Rightarrow> expert_state) \<Rightarrow> unit rsp" where
  "rs_change l i accepted message f =
     bindp (rs_requireLocked l i) (\<lambda>e.
     thenp (require (es_state e \<in> accepted) (LogicError message))
       (modify (AList.update (key l i) (f e))))"

definition rs_request :: "layer_id \<Rightarrow> expert_id \<Rightarrow> memory_tier \<Rightarrow> unit rsp" where
  "rs_request l i target =
     rs_change l i {Ready, Failed} ''expert cannot be requested during its current transition''
       (\<lambda>e. e\<lparr>es_targetLocation := target, es_state := Requested\<rparr>)"

definition rs_markQueued :: "layer_id \<Rightarrow> expert_id \<Rightarrow> unit rsp" where
  "rs_markQueued l i =
     rs_change l i {Requested} ''only a requested expert can become queued'' (\<lambda>e. e\<lparr>es_state := Queued\<rparr>)"

definition rs_markLoading :: "layer_id \<Rightarrow> expert_id \<Rightarrow> unit rsp" where
  "rs_markLoading l i =
     rs_change l i {Queued} ''only a queued expert can start loading'' (\<lambda>e. e\<lparr>es_state := Loading\<rparr>)"

definition rs_markReady :: "nat \<Rightarrow> layer_id \<Rightarrow> expert_id \<Rightarrow> memory_tier \<Rightarrow> unit rsp" where
  "rs_markReady now l i location =
     rs_change l i {Loading, Evicting, Requested} ''expert cannot become ready from its current state''
       (\<lambda>e. e\<lparr>es_currentLocation := location, es_targetLocation := location, es_state := Ready, es_lastUsed := now\<rparr>)"

definition rs_acquire :: "nat \<Rightarrow> layer_id \<Rightarrow> expert_id \<Rightarrow> unit rsp" where
  "rs_acquire now l i =
     rs_change l i {Ready} ''only a ready expert can enter use''
       (\<lambda>e. e\<lparr>es_state := InUse, es_lastUsed := now, es_usageCount := es_usageCount e + 1\<rparr>)"

definition rs_release :: "nat \<Rightarrow> layer_id \<Rightarrow> expert_id \<Rightarrow> unit rsp" where
  "rs_release now l i =
     rs_change l i {InUse} ''only an in-use expert can be released'' (\<lambda>e. e\<lparr>es_state := Ready, es_lastUsed := now\<rparr>)"

definition rs_beginEviction :: "layer_id \<Rightarrow> expert_id \<Rightarrow> memory_tier \<Rightarrow> unit rsp" where
  "rs_beginEviction l i target =
     rs_change l i {Ready} ''only a ready expert can be evicted''
       (\<lambda>e. e\<lparr>es_targetLocation := target, es_state := Evicting\<rparr>)"

definition rs_markFailed :: "layer_id \<Rightarrow> expert_id \<Rightarrow> unit rsp" where
  "rs_markFailed l i =
     bindp (rs_requireLocked l i) (\<lambda>e. modify (AList.update (key l i) (e\<lparr>es_state := Failed\<rparr>)))"

definition rs_reconcile :: "layer_id \<Rightarrow> expert_id \<Rightarrow> memory_tier \<Rightarrow> unit rsp" where
  "rs_reconcile l i location =
     rs_change l i (- {InUse, Loading, Queued, Evicting}) ''cannot reconcile an active expert''
       (\<lambda>e. e\<lparr>es_currentLocation := location, es_targetLocation := location, es_state := Ready\<rparr>)"

definition rs_snapshot :: "layer_id \<Rightarrow> expert_id \<Rightarrow> expert_state rsp" where
  "rs_snapshot l i = (\<lambda>st.
     case map_of st (key l i) of
       None \<Rightarrow> (Inl (OutOfRange ''expert state is not registered''), st)
     | Some e \<Rightarrow> (Inr e, st))"

definition rs_snapshots :: "residency_states \<Rightarrow> expert_state list" where
  "rs_snapshots st = map snd st"

text \<open>The overloads for experts registered under an id alone.\<close>

definition rs_registerExpert0 :: "nat \<Rightarrow> expert_id \<Rightarrow> memory_tier \<Rightarrow> unit rsp" where
  "rs_registerExpert0 now i location = rs_registerExpert now 0 i location"

definition rs_request0 :: "expert_id \<Rightarrow> memory_tier \<Rightarrow> unit rsp" where
  "rs_request0 i target = rs_request 0 i target"

definition rs_snapshot0 :: "expert_id \<Rightarrow> expert_state rsp" where
  "rs_snapshot0 i = rs_snapshot 0 i"

subsection \<open>One rule for every guarded operation\<close>

lemma rs_change_run:
  "rs_change l i A msg f st =
     (case map_of st (key l i) of
        None \<Rightarrow> (Inl (OutOfRange ''expert state is not registered''), st)
      | Some e \<Rightarrow> if es_state e \<in> A then (Inr (), AList.update (key l i) (f e) st) else (Inl (LogicError msg), st))"
  by (simp add: rs_change_def rs_requireLocked_def bindp_def thenp_def split: option.split)

lemma rs_change_ok:
  "map_of st (key l i) = Some e \<Longrightarrow> es_state e \<in> A \<Longrightarrow>
   rs_change l i A msg f st = (Inr (), AList.update (key l i) (f e) st)"
  by (simp add: rs_change_run)

lemma rs_change_refused:
  "map_of st (key l i) = Some e \<Longrightarrow> es_state e \<notin> A \<Longrightarrow> rs_change l i A msg f st = (Inl (LogicError msg), st)"
  by (simp add: rs_change_run)

lemmas rs_ops =
  rs_request_def rs_markQueued_def rs_markLoading_def rs_markReady_def rs_acquire_def rs_release_def
  rs_beginEviction_def rs_reconcile_def

lemma rs_markFailed_run:
  "rs_markFailed l i st =
     (case map_of st (key l i) of
        None \<Rightarrow> (Inl (OutOfRange ''expert state is not registered''), st)
      | Some e \<Rightarrow> (Inr (), AList.update (key l i) (e\<lparr>es_state := Failed\<rparr>) st))"
  by (simp add: rs_markFailed_def rs_requireLocked_def bindp_def split: option.split)

subsection \<open>The life cycle\<close>

datatype rs_op =
    OpRegister nat layer_id expert_id memory_tier
  | OpRequest layer_id expert_id memory_tier
  | OpMarkQueued layer_id expert_id
  | OpMarkLoading layer_id expert_id
  | OpMarkReady nat layer_id expert_id memory_tier
  | OpAcquire nat layer_id expert_id
  | OpRelease nat layer_id expert_id
  | OpBeginEviction layer_id expert_id memory_tier
  | OpMarkFailed layer_id expert_id
  | OpReconcile layer_id expert_id memory_tier

fun rs_run :: "rs_op \<Rightarrow> unit rsp" where
  "rs_run (OpRegister now l i t) = rs_registerExpert now l i t"
| "rs_run (OpRequest l i t) = rs_request l i t"
| "rs_run (OpMarkQueued l i) = rs_markQueued l i"
| "rs_run (OpMarkLoading l i) = rs_markLoading l i"
| "rs_run (OpMarkReady now l i t) = rs_markReady now l i t"
| "rs_run (OpAcquire now l i) = rs_acquire now l i"
| "rs_run (OpRelease now l i) = rs_release now l i"
| "rs_run (OpBeginEviction l i t) = rs_beginEviction l i t"
| "rs_run (OpMarkFailed l i) = rs_markFailed l i"
| "rs_run (OpReconcile l i t) = rs_reconcile l i t"

definition es_ok :: "expert_key \<Rightarrow> expert_state \<Rightarrow> bool" where
  "es_ok k e \<longleftrightarrow> k = key (es_layerId e) (es_id e) \<and>
     (es_state e \<in> {Ready, InUse} \<longrightarrow> es_targetLocation e = es_currentLocation e)"

definition rs_ok :: "residency_states \<Rightarrow> bool" where
  "rs_ok st \<longleftrightarrow> distinct (map fst st) \<and> (\<forall>k e. map_of st k = Some e \<longrightarrow> es_ok k e)"

inductive rs_reachable :: "residency_states \<Rightarrow> bool" where
  rs_empty: "rs_reachable []"
| rs_after: "rs_reachable st \<Longrightarrow> rs_run op st = (r, st') \<Longrightarrow> rs_reachable st'"

text \<open>What one operation does to one expert: its identity stays, and an expert that is ready or in use afterwards is where
  it was asked to be, either because it has just arrived there or because it was so before and has not moved.\<close>

definition rs_evolves :: "expert_state \<Rightarrow> expert_state \<Rightarrow> bool" where
  "rs_evolves e e' \<longleftrightarrow> e' = e \<or>
     (es_layerId e' = es_layerId e \<and> es_id e' = es_id e \<and>
      (es_state e' \<in> {Ready, InUse} \<longrightarrow> es_targetLocation e' = es_currentLocation e' \<or>
         es_state e \<in> {Ready, InUse} \<and> es_currentLocation e' = es_currentLocation e \<and> es_targetLocation e' = es_targetLocation e))"

lemma rs_change_evolves:
  assumes "rs_change l i A msg f st = (r, st')" and "map_of st k = Some e"
    and "\<And>e. es_state e \<in> A \<Longrightarrow> rs_evolves e (f e)"
  shows "\<exists>e'. map_of st' k = Some e' \<and> rs_evolves e e'"
  using assms by (cases "k = key l i") (auto simp: rs_change_run rs_evolves_def split: option.splits if_splits)

lemma rs_run_evolves:
  assumes "rs_run op st = (r, st')" and "map_of st k = Some e"
  shows "\<exists>e'. map_of st' k = Some e' \<and> rs_evolves e e'"
proof (cases op)
  case (OpRegister now l i t)
  with assms show ?thesis by (auto simp: rs_registerExpert_def rs_evolves_def split: if_splits)
next
  case (OpMarkFailed l i)
  with assms show ?thesis
    by (cases "k = key l i") (auto simp: rs_markFailed_run rs_evolves_def split: option.splits)
next
  case (OpReconcile l i t)
  have "rs_evolves e (e\<lparr>es_currentLocation := t, es_targetLocation := t, es_state := Ready\<rparr>)"
    if "es_state e \<in> - {InUse, Loading, Queued, Evicting}" for e
    using that by (cases "es_state e") (auto simp: rs_evolves_def)
  moreover have "rs_change l i (- {InUse, Loading, Queued, Evicting}) ''cannot reconcile an active expert''
      (\<lambda>e. e\<lparr>es_currentLocation := t, es_targetLocation := t, es_state := Ready\<rparr>) st = (r, st')"
    using assms(1) OpReconcile by (simp add: rs_reconcile_def)
  ultimately show ?thesis by (intro rs_change_evolves [OF _ assms(2)])
qed (insert assms(1), simp_all only: rs_run.simps rs_ops,
     (erule rs_change_evolves [OF _ assms(2)], force simp: rs_evolves_def)+)

lemma rs_run_fresh:
  assumes "rs_run op st = (r, st')" and "map_of st k = None" and "map_of st' k = Some e"
  shows "\<exists>now l i t. op = OpRegister now l i t \<and> k = key l i \<and> es_layerId e = l \<and> es_id e = i \<and>
    es_state e = Ready \<and> es_currentLocation e = t \<and> es_targetLocation e = t"
proof (cases op)
  case (OpRegister now l i t)
  with assms show ?thesis by (auto simp: rs_registerExpert_def map_add_def split: if_splits)
qed (use assms in \<open>auto simp: rs_ops rs_change_run rs_markFailed_run update_conv' split: option.splits if_splits\<close>)

lemma rs_run_distinct:
  assumes "rs_run op st = (r, st')" and "distinct (map fst st)"
  shows "distinct (map fst st')"
proof (cases op)
  case (OpRegister now l i t)
  with assms show ?thesis by (auto simp: rs_registerExpert_def map_of_eq_None_iff split: if_splits)
qed (use assms in \<open>auto simp: rs_ops rs_change_run rs_markFailed_run distinct_update split: option.splits if_splits\<close>)

lemma evolves_ok:
  assumes "es_ok k e" and "rs_evolves e e'"
  shows "es_ok k e'"
proof (cases "e' = e")
  case False
  with assms show ?thesis by (auto simp: es_ok_def rs_evolves_def)
qed (use assms in simp)

lemma rs_run_ok:
  assumes ok: "rs_ok st" and run: "rs_run op st = (r, st')"
  shows "rs_ok st'"
proof -
  have "es_ok k e'" if e': "map_of st' k = Some e'" for k e'
  proof (cases "map_of st k")
    case None
    from rs_run_fresh [OF run None e'] show ?thesis by (auto simp: es_ok_def)
  next
    case (Some e)
    obtain f where "map_of st' k = Some f" "rs_evolves e f" using rs_run_evolves [OF run Some] by blast
    with e' have ev: "rs_evolves e e'" by simp
    from ok Some have "es_ok k e" unfolding rs_ok_def by blast
    from evolves_ok [OF this ev] show ?thesis .
  qed
  with rs_run_distinct [OF run] ok show ?thesis by (simp add: rs_ok_def)
qed

lemma rs_reachable_ok: "rs_reachable st \<Longrightarrow> rs_ok st"
  by (induction rule: rs_reachable.induct) (auto simp: rs_ok_def [of "[]"] intro: rs_run_ok)

subsection \<open>Properties\<close>

text \<open>The design has an expert at rest (ready, requested or failed) or active: queued, loading, in use or being evicted. An
  activity is begun by one operation and ended by one other, or by the report of a failure.\<close>

fun op_key :: "rs_op \<Rightarrow> expert_key" where
  "op_key (OpRegister now l i t) = key l i"
| "op_key (OpRequest l i t) = key l i"
| "op_key (OpMarkQueued l i) = key l i"
| "op_key (OpMarkLoading l i) = key l i"
| "op_key (OpMarkReady now l i t) = key l i"
| "op_key (OpAcquire now l i) = key l i"
| "op_key (OpRelease now l i) = key l i"
| "op_key (OpBeginEviction l i t) = key l i"
| "op_key (OpMarkFailed l i) = key l i"
| "op_key (OpReconcile l i t) = key l i"

fun begins :: "rs_op \<Rightarrow> lifecycle option" where
  "begins (OpMarkQueued l i) = Some Queued"
| "begins (OpMarkLoading l i) = Some Loading"
| "begins (OpAcquire now l i) = Some InUse"
| "begins (OpBeginEviction l i t) = Some Evicting"
| "begins _ = None"

fun ends_activity :: "lifecycle \<Rightarrow> rs_op \<Rightarrow> bool" where
  "ends_activity s (OpMarkLoading l i) = (s = Queued)"
| "ends_activity s (OpMarkReady now l i t) = (s = Loading \<or> s = Evicting)"
| "ends_activity s (OpRelease now l i) = (s = InUse)"
| "ends_activity s (OpMarkFailed l i) = True"
| "ends_activity s _ = False"

definition rs_after_all :: "rs_op list \<Rightarrow> residency_states \<Rightarrow> residency_states" where
  "rs_after_all ops st = fold (\<lambda>op st. snd (rs_run op st)) ops st"

abbreviation active :: "lifecycle \<Rightarrow> bool" where
  "active s \<equiv> s \<in> {Queued, Loading, InUse, Evicting}"

lemma other_expert_untouched: "op_key op \<noteq> k \<Longrightarrow> map_of (snd (rs_run op st)) k = map_of st k"
  by (cases op) (auto simp: rs_ops rs_change_run rs_markFailed_run rs_registerExpert_def update_conv' map_add_def split: option.splits)

lemma active_refuses:
  assumes "map_of st k = Some e" and "active (es_state e)" and "op_key op = k" and "\<not> ends_activity (es_state e) op"
  shows "\<exists>x. rs_run op st = (Inl x, st)"
  using assms by (cases op) (auto simp: rs_ops rs_change_run rs_registerExpert_def)

lemma active_ends:
  assumes "map_of st k = Some e" and "active (es_state e)" and "op_key op = k" and "ends_activity (es_state e) op"
  shows "fst (rs_run op st) = Inr ()"
  using assms by (cases op) (auto simp: rs_ops rs_change_run rs_markFailed_run)

lemma active_stays:
  assumes "map_of st k = Some e" and "active (es_state e)" and "\<forall>op \<in> set ops. op_key op = k \<longrightarrow> \<not> ends_activity (es_state e) op"
  shows "map_of (rs_after_all ops st) k = Some e"
  using assms
proof (induction ops arbitrary: st)
  case (Cons op ops)
  have "map_of (snd (rs_run op st)) k = Some e"
  proof (cases "op_key op = k")
    case True
    with Cons.prems active_refuses [OF Cons.prems(1,2) True] show ?thesis by auto
  next
    case False
    with other_expert_untouched Cons.prems(1) show ?thesis by simp
  qed
  with Cons show ?case by (simp add: rs_after_all_def)
qed (simp add: rs_after_all_def)

lemma begun:
  assumes "rs_run start st = (Inr (), st1)" and "begins start = Some s"
  obtains e e1 where "map_of st (op_key start) = Some e" and "map_of st1 (op_key start) = Some e1" and "es_state e1 = s" and "active s"
    and "es_currentLocation e1 = es_currentLocation e"
  using assms by (cases start) (auto simp: rs_ops rs_change_run split: option.splits if_splits)

text \<open>C30: Once an operation has made an expert queued, loading, in use or evicting, its record stays exactly as it is, however
  other operations follow on this or on other experts, until the one operation that ends this activity, or the report of its
  failure: every other operation on it is refused and changes nothing, while those that end the activity are accepted. Its
  current location stays the last valid one all along.\<close>

theorem active_expert_undisturbed:
  assumes "rs_run start st = (Inr (), st1)" and "begins start = Some s"
    and "\<forall>op \<in> set ops. op_key op = op_key start \<longrightarrow> \<not> ends_activity s op"
  defines "k \<equiv> op_key start" and "st2 \<equiv> rs_after_all ops st1"
  shows "\<exists>e e1. map_of st k = Some e \<and> map_of st1 k = Some e1 \<and> es_state e1 = s \<and>
    es_currentLocation e1 = es_currentLocation e \<and> map_of st2 k = Some e1 \<and>
    (\<forall>op. op_key op = k \<longrightarrow> (if ends_activity s op then fst (rs_run op st2) = Inr () else \<exists>x. rs_run op st2 = (Inl x, st2)))"
proof -
  obtain e e1 where e: "map_of st k = Some e" "map_of st1 k = Some e1" "es_state e1 = s" "active s" "es_currentLocation e1 = es_currentLocation e"
    using begun [OF assms(1,2)] unfolding k_def by metis
  then have "map_of st2 k = Some e1" unfolding st2_def using assms(3) by (intro active_stays) (simp_all add: k_def)
  with e active_refuses active_ends show ?thesis by (metis (no_types, lifting))
qed

definition rs_example :: residency_states where
  "rs_example = snd (rs_registerExpert 0 2 5 Nvme [])"

theorem active_expert_undisturbed_witness:
  "rs_run (OpReconcile 2 5 Vram) (rs_after_all [OpBeginEviction 2 5 Ram, OpRelease 3 2 6] (snd (rs_run (OpAcquire 1 2 5) rs_example))) =
     (Inl (LogicError ''cannot reconcile an active expert''),
      rs_after_all [OpBeginEviction 2 5 Ram, OpRelease 3 2 6] (snd (rs_run (OpAcquire 1 2 5) rs_example)))"
proof -
  let ?st1 = "snd (rs_run (OpAcquire 1 2 5) rs_example)" and ?ops = "[OpBeginEviction 2 5 Ram, OpRelease 3 2 6]"
  have run: "rs_run (OpAcquire 1 2 5) rs_example = (Inr (), ?st1)"
    by (simp add: rs_example_def rs_registerExpert_def rs_acquire_def rs_change_run)
  have "key 2 6 \<noteq> key 2 5" by (simp add: key_def)
  then have "\<forall>op \<in> set ?ops. op_key op = op_key (OpAcquire 1 2 5) \<longrightarrow> \<not> ends_activity InUse op" by simp
  from active_expert_undisturbed [OF run _ this]
  obtain e1 where e1: "map_of (rs_after_all ?ops ?st1) (key 2 5) = Some e1" "es_state e1 = InUse" by auto
  then show ?thesis by (simp add: rs_reconcile_def rs_change_run)
qed

text \<open>In every reachable table an expert that is ready or in use is where it was last asked to be:
  its current and target locations agree, and the record stands under its own key.\<close>

theorem ready_means_at_target:
  assumes "rs_reachable st" and "map_of st k = Some e" and "es_state e = Ready \<or> es_state e = InUse"
  shows "es_currentLocation e = es_targetLocation e \<and> k = key (es_layerId e) (es_id e)"
  using rs_reachable_ok [OF assms(1)] assms(2,3) by (auto simp: rs_ok_def es_ok_def)

text \<open>While an expert is in use only its release or the report of a failure changes it: every other
  operation leaves its record as it is.\<close>

theorem in_use_is_protected:
  assumes "map_of st (key l i) = Some e" and "es_state e = InUse" and "rs_run op st = (r, st')"
    and "\<forall>now. op \<noteq> OpRelease now l i" and "op \<noteq> OpMarkFailed l i"
  shows "map_of st' (key l i) = Some e"
proof (cases op)
  case (OpRegister now l' i' t)
  with assms show ?thesis by (auto simp: rs_registerExpert_def split: if_splits)
next
  case (OpRelease now l' i')
  with assms show ?thesis
    by (cases "key l' i' = key l i") (auto simp: rs_release_def rs_change_run split: option.splits if_splits)
next
  case (OpMarkFailed l' i')
  with assms show ?thesis
    by (cases "key l' i' = key l i") (auto simp: rs_markFailed_run split: option.splits)
qed (use assms(1-3) in \<open>auto simp: rs_ops rs_change_run update_conv' split: option.splits if_splits\<close>)

end
