(* ===== verification/Runtime_Event.thy ===== *)
theory Runtime_Event
  imports Expert_Types
begin

text \<open>
  \<^verbatim>\<open>src/scheduler/RuntimeEvent.cpp\<close>: the event bus of the scheduler. A subscriber is a program on the
  world outside the bus; \<open>publish\<close> copies the subscribers before it calls them, swallows every
  exception they throw, and leaves the bus itself alone. Timestamps and durations are not part of
  the model of an event.
\<close>

datatype event_type =
    ExpertRequested | TransferStarted | TransferCompleted | ExpertReady | CacheEvicted | TransferFailed
  | CudaTransferStarted | CudaTransferCompleted | CudaKernelStarted | CudaKernelCompleted

fun event_toString :: "event_type \<Rightarrow> string" where
  "event_toString ExpertRequested = ''EXPERT_REQUESTED''"
| "event_toString TransferStarted = ''TRANSFER_STARTED''"
| "event_toString TransferCompleted = ''TRANSFER_COMPLETED''"
| "event_toString ExpertReady = ''EXPERT_READY''"
| "event_toString CacheEvicted = ''CACHE_EVICTED''"
| "event_toString TransferFailed = ''TRANSFER_FAILED''"
| "event_toString CudaTransferStarted = ''CUDA_TRANSFER_STARTED''"
| "event_toString CudaTransferCompleted = ''CUDA_TRANSFER_COMPLETED''"
| "event_toString CudaKernelStarted = ''CUDA_KERNEL_STARTED''"
| "event_toString CudaKernelCompleted = ''CUDA_KERNEL_COMPLETED''"

record runtime_event =
  ev_type :: event_type
  ev_expertId :: expert_id
  ev_layerId :: layer_id
  ev_source :: memory_tier
  ev_destination :: memory_tier
  ev_message :: string

type_synonym 'w event_callback = "runtime_event \<Rightarrow> ('w, unit) prog"

record 'w event_bus =
  eb_subscribers :: "(nat \<times> 'w event_callback) list"
  eb_nextId :: nat

definition eb_new :: "'w event_bus" where
  "eb_new = \<lparr> eb_subscribers = [], eb_nextId = 1 \<rparr>"

text \<open>An empty \<open>std::function\<close> is \<open>None\<close>.\<close>

definition subscribe :: "'w event_callback option \<Rightarrow> ('w event_bus, nat) prog" where
  "subscribe callback = (\<lambda>b.
     case callback of
       None \<Rightarrow> (Inl (InvalidArgument ''event callback must be callable''), b)
     | Some f \<Rightarrow> (Inr (eb_nextId b),
                 b\<lparr>eb_nextId := eb_nextId b + 1, eb_subscribers := eb_subscribers b @ [(eb_nextId b, f)]\<rparr>))"

definition unsubscribe :: "nat \<Rightarrow> ('w event_bus, bool) prog" where
  "unsubscribe i = (\<lambda>b.
     (Inr (map_of (eb_subscribers b) i \<noteq> None), b\<lparr>eb_subscribers := AList.delete i (eb_subscribers b)\<rparr>))"

definition notify :: "runtime_event \<Rightarrow> 'w event_callback \<Rightarrow> 'w \<Rightarrow> 'w" where
  "notify event callback w = snd (catchp (callback event) (\<lambda>_. True) (\<lambda>_. ret ()) w)"

definition publish :: "'w event_bus \<Rightarrow> runtime_event \<Rightarrow> 'w \<Rightarrow> 'w" where
  "publish b event w = fold (notify event) (map snd (eb_subscribers b)) w"

definition eb_ok :: "'w event_bus \<Rightarrow> bool" where
  "eb_ok b \<longleftrightarrow> distinct (map fst (eb_subscribers b)) \<and> (\<forall>(i, f) \<in> set (eb_subscribers b). i < eb_nextId b)"

inductive eb_reachable :: "'w event_bus \<Rightarrow> bool" where
  eb_start: "eb_reachable eb_new"
| eb_subscribed: "eb_reachable b \<Longrightarrow> subscribe f b = (r, b') \<Longrightarrow> eb_reachable b'"
| eb_unsubscribed: "eb_reachable b \<Longrightarrow> unsubscribe i b = (r', b') \<Longrightarrow> eb_reachable b'"

lemma set_delete_subset: "set (AList.delete k xs) \<subseteq> set xs"
  by (induction xs) auto

lemma eb_reachable_ok: "eb_reachable b \<Longrightarrow> eb_ok b"
proof (induction rule: eb_reachable.induct)
  case eb_start
  show ?case by (simp add: eb_ok_def eb_new_def)
next
  case (eb_subscribed b f r b')
  then show ?case by (fastforce simp: subscribe_def eb_ok_def split: option.splits)
next
  case (eb_unsubscribed b i r' b')
  then show ?case
    by (fastforce simp: unsubscribe_def eb_ok_def distinct_delete dest: subsetD [OF set_delete_subset])
qed

lemma notify_run: "notify event f w = snd (f event w)"
  by (cases "f event w"; cases "fst (f event w)") (auto simp: notify_def catchp_def)

text \<open>A published event reaches every subscriber exactly once, in the table's order, whatever the
  subscribers before it threw. Each subscriber here appends its id to a log, and any of them may
  throw.\<close>

theorem publish_reaches_all:
  assumes "\<forall>(i, f) \<in> set (eb_subscribers b). \<forall>w. snd (f event w) = w @ [i]"
  shows "publish b event w = w @ map fst (eb_subscribers b)"
proof -
  have "fold (notify event) (map snd xs) w = w @ map fst xs"
    if "\<forall>(i, f) \<in> set xs. \<forall>w. snd (f event w) = w @ [i]" for xs :: "(nat \<times> nat list event_callback) list"
    using that by (induction xs arbitrary: w) (auto simp: notify_run)
  from this [OF assms] show ?thesis by (simp add: publish_def)
qed

text \<open>A subscription id is never given out twice: in every reachable bus a new subscription gets an id
  that no live subscriber has, and unsubscribing it restores the table.\<close>

theorem subscribe_unsubscribe:
  assumes "eb_reachable b" and "subscribe (Some f) b = (Inr i, b1)"
  shows "map_of (eb_subscribers b) i = None \<and>
    unsubscribe i b1 = (Inr True, b1\<lparr>eb_subscribers := eb_subscribers b\<rparr>)"
proof -
  from assms(2) have i: "i = eb_nextId b" and b1: "b1 = b\<lparr>eb_nextId := i + 1, eb_subscribers := eb_subscribers b @ [(i, f)]\<rparr>"
    by (auto simp: subscribe_def)
  have fresh: "i \<notin> fst ` set (eb_subscribers b)" using eb_reachable_ok [OF assms(1)] i by (auto simp: eb_ok_def)
  then have "map_of (eb_subscribers b) i = None" by (simp add: map_of_eq_None_iff)
  moreover have "AList.delete i (xs @ [(i, f)]) = xs" if "i \<notin> fst ` set xs" for xs :: "(nat \<times> 'a event_callback) list"
    using that by (induction xs) auto
  ultimately show ?thesis using fresh by (simp add: unsubscribe_def b1 map_add_def)
qed

end
