(* ===== verification/Prefetcher.thy ===== *)
theory Prefetcher
  imports Expert_Types "HOL-Library.Product_Lexorder"
begin

text \<open>
  \<^verbatim>\<open>src/scheduler/Prefetcher.cpp\<close>: the locality prefetcher. It scores the experts that the workload
  pattern lists for the next layer and the recently used ones, and returns the best few. The score
  table is an association list; the final order is by confidence, then by expert id, so it does not
  depend on the table's iteration order.
\<close>

type_synonym workload_pattern = "layer_id \<rightharpoonup> expert_id list"

record prediction_input =
  pi_currentLayer :: layer_id
  pi_recentExperts :: "expert_id list"
  pi_workloadPattern :: workload_pattern

record predicted_request =
  pr_layerId :: layer_id
  pr_expertId :: expert_id
  pr_confidence :: real
  pr_probability :: real

type_synonym score_table = "(expert_id \<times> real) list"

definition locality_new :: "nat \<Rightarrow> exn + nat" where
  "locality_new maximumPredictions =
     (if maximumPredictions = 0 then Inl (InvalidArgument ''prefetcher must permit at least one prediction'')
      else Inr maximumPredictions)"

text \<open>\<open>scores[id] += weight\<close>\<close>

definition add_score :: "expert_id \<Rightarrow> real \<Rightarrow> score_table \<Rightarrow> score_table" where
  "add_score i w scores = AList.update i ((case map_of scores i of None \<Rightarrow> 0 | Some x \<Rightarrow> x) + w) scores"

definition pattern_scores :: "expert_id list \<Rightarrow> score_table \<Rightarrow> score_table" where
  "pattern_scores ids =
     fold (\<lambda>(index, i). add_score i (0.6 * (1 - 0.25 * real index / real (max 1 (length ids)))))
       (enumerate 0 ids)"

definition recent_scores :: "expert_id list \<Rightarrow> score_table \<Rightarrow> score_table" where
  "recent_scores ids =
     fold (\<lambda>(index, i). add_score i (0.4 * (real (index + 1) / real (length ids)))) (enumerate 0 ids)"

definition locality_scores :: "prediction_input \<Rightarrow> score_table" where
  "locality_scores inp =
     recent_scores (pi_recentExperts inp)
       (case pi_workloadPattern inp (pi_currentLayer inp + 1) of None \<Rightarrow> [] | Some ids \<Rightarrow> pattern_scores ids [])"

definition rank :: "predicted_request \<Rightarrow> real \<times> expert_id" where
  "rank p = (- pr_confidence p, pr_expertId p)"

definition all_predictions :: "prediction_input \<Rightarrow> predicted_request list" where
  "all_predictions inp =
     map (\<lambda>(i, score). \<lparr> pr_layerId = pi_currentLayer inp + 1, pr_expertId = i,
            pr_confidence = clamp score 0 1, pr_probability = 0 \<rparr>) (locality_scores inp)"

definition locality_predict :: "nat \<Rightarrow> prediction_input \<Rightarrow> predicted_request list" where
  "locality_predict maximumPredictions inp =
     take maximumPredictions (sort_key rank (all_predictions inp))"

subsection \<open>The score table\<close>

lemma add_score_keys: "fst ` set (add_score i w sc) = insert i (fst ` set sc)"
  by (simp add: add_score_def dom_update)

lemma add_score_distinct: "distinct (map fst sc) \<Longrightarrow> distinct (map fst (add_score i w sc))"
  by (simp add: add_score_def distinct_update)

lemma fold_add_score:
  "fst ` set (fold (\<lambda>(x, i). add_score i (g x)) (enumerate n ids) sc) = set ids \<union> fst ` set sc \<and>
   (distinct (map fst sc) \<longrightarrow> distinct (map fst (fold (\<lambda>(x, i). add_score i (g x)) (enumerate n ids) sc)))"
  by (induction ids arbitrary: n sc) (auto simp: add_score_keys add_score_distinct)

lemma locality_scores_table:
  "distinct (map fst (locality_scores inp))"
  "fst ` set (locality_scores inp) = set (pi_recentExperts inp) \<union>
     (case pi_workloadPattern inp (pi_currentLayer inp + 1) of None \<Rightarrow> {} | Some ids \<Rightarrow> set ids)"
  unfolding locality_scores_def recent_scores_def pattern_scores_def
  by (auto simp: fold_add_score split: option.split)

lemma distinct_rank: "distinct (map rank (all_predictions inp))"
proof -
  have "map pr_expertId (all_predictions inp) = map fst (locality_scores inp)"
    by (simp add: all_predictions_def comp_def case_prod_beta')
  with locality_scores_table(1) [of inp] have "distinct (map pr_expertId (all_predictions inp))" by simp
  moreover have "pr_expertId = snd \<circ> rank" by (auto simp: rank_def)
  ultimately show ?thesis by (metis distinct_map list.map_comp)
qed

text \<open>The locality prefetcher returns at most the permitted number of predictions, all for the
  layer after the current one (modulo the 32-bit layer id), each for an expert of the next
  layer's pattern or of the recent list, with a confidence in [0, 1].\<close>

theorem predictions_sound:
  "length (locality_predict n inp) \<le> n \<and>
   (\<forall>p \<in> set (locality_predict n inp). pr_layerId p = pi_currentLayer inp + 1 \<and>
      0 \<le> pr_confidence p \<and> pr_confidence p \<le> 1 \<and>
      (pr_expertId p \<in> set (pi_recentExperts inp) \<or>
       (\<exists>ids. pi_workloadPattern inp (pi_currentLayer inp + 1) = Some ids \<and> pr_expertId p \<in> set ids)))"
proof -
  have "pr_layerId p = pi_currentLayer inp + 1 \<and> 0 \<le> pr_confidence p \<and> pr_confidence p \<le> 1 \<and>
      (pr_expertId p \<in> set (pi_recentExperts inp) \<or>
       (\<exists>ids. pi_workloadPattern inp (pi_currentLayer inp + 1) = Some ids \<and> pr_expertId p \<in> set ids))"
    if "p \<in> set (locality_predict n inp)" for p
  proof -
    from that have "p \<in> set (all_predictions inp)" by (auto simp: locality_predict_def dest: in_set_takeD)
    then obtain i x where ix: "(i, x) \<in> set (locality_scores inp)" and p: "p = \<lparr> pr_layerId = pi_currentLayer inp + 1,
        pr_expertId = i, pr_confidence = clamp x 0 1, pr_probability = 0 \<rparr>"
      by (auto simp: all_predictions_def)
    from ix have "i \<in> fst ` set (locality_scores inp)" by force
    with p clamp_bounds [of 0 1 x] show ?thesis
      unfolding locality_scores_table(2) by (auto split: option.splits)
  qed
  then show ?thesis by (auto simp: locality_predict_def)
qed

text \<open>The predictions are the best ones: they are in strictly decreasing rank (higher confidence
  first, then lower id), and no scored expert that was left out ranks above one that was kept.\<close>

theorem predictions_are_the_best:
  "sorted_wrt (\<lambda>p q. rank p < rank q) (locality_predict n inp) \<and>
   (\<forall>p \<in> set (locality_predict n inp). \<forall>q \<in> set (all_predictions inp) - set (locality_predict n inp). rank p < rank q)"
proof -
  let ?s = "sort_key rank (all_predictions inp)"
  have d: "distinct (map rank ?s)"
    using distinct_rank [of inp] by (simp add: distinct_map)
  have "sorted (map rank ?s)" by simp
  with d have strict: "sorted_wrt (<) (map rank ?s)" by (simp add: strict_sorted_iff)
  then have s: "sorted_wrt (\<lambda>p q. rank p < rank q) ?s" by (simp add: sorted_wrt_map)
  have "rank p < rank q" if "p \<in> set (take n ?s)" "q \<in> set ?s" "q \<notin> set (take n ?s)" for p q
  proof -
    from that(2,3) have "q \<in> set (drop n ?s)" by (metis append_take_drop_id set_append UnE)
    moreover have "sorted_wrt (\<lambda>p q. rank p < rank q) (take n ?s @ drop n ?s)" using s by simp
    ultimately show ?thesis using that(1) unfolding sorted_wrt_append by blast
  qed
  moreover have "set ?s = set (all_predictions inp)" by simp
  moreover have "sorted_wrt (\<lambda>p q. rank p < rank q) (take n ?s)" using s by (rule sorted_wrt_take)
  ultimately show ?thesis unfolding locality_predict_def by blast
qed

end
