(* ===== verification/Tensor_Shape.thy ===== *)
theory Tensor_Shape
  imports Expert_Types
begin

text \<open>
  Element types and shapes: \<^verbatim>\<open>src/tensor/DType.hpp\<close> and \<^verbatim>\<open>src/tensor/Shape.cpp\<close>. A \<open>DType\<close> read
  from a file is a cast of a 32-bit code, so the functions of the header are defined on codes
  and answer \<open>false\<close> and 0 outside the enumeration. The lemmas show that a shape the
  constructors accept counts its elements without wrap-around, and that the offset of every
  valid index stays below the storage the shape claims.
\<close>

section \<open>Element types\<close>

datatype dtype = FP32 | FP16 | BF16 | INT8

fun dtype_code :: "dtype \<Rightarrow> u32" where
  "dtype_code FP32 = 0"
| "dtype_code FP16 = 1"
| "dtype_code BF16 = 2"
| "dtype_code INT8 = 3"

definition dtype_of :: "u32 \<Rightarrow> dtype option" where
  "dtype_of c = (if c = 0 then Some FP32 else if c = 1 then Some FP16
                 else if c = 2 then Some BF16 else if c = 3 then Some INT8 else None)"

definition dtype_isValid :: "u32 \<Rightarrow> bool" where
  "dtype_isValid c = (case dtype_of c of Some _ \<Rightarrow> True | None \<Rightarrow> False)"

definition alignmentOf :: "u32 \<Rightarrow> u64" where
  "alignmentOf c = (case dtype_of c of Some FP32 \<Rightarrow> 4 | Some FP16 \<Rightarrow> 2 | Some BF16 \<Rightarrow> 2
                    | Some INT8 \<Rightarrow> 1 | None \<Rightarrow> 0)"

definition sizeOf :: "u32 \<Rightarrow> u64" where
  "sizeOf c = (case dtype_of c of Some FP32 \<Rightarrow> 4 | Some FP16 \<Rightarrow> 2 | Some BF16 \<Rightarrow> 2
               | Some INT8 \<Rightarrow> 1 | None \<Rightarrow> 0)"

definition dtype_toString :: "u32 \<Rightarrow> string" where
  "dtype_toString c = (case dtype_of c of Some FP32 \<Rightarrow> ''FP32'' | Some FP16 \<Rightarrow> ''FP16''
     | Some BF16 \<Rightarrow> ''BF16'' | Some INT8 \<Rightarrow> ''INT8'' | None \<Rightarrow> ''UNKNOWN'')"

lemma dtype_of_code [simp]: "dtype_of (dtype_code d) = Some d"
  by (cases d) (simp_all add: dtype_of_def)

lemma dtype_of_Some: "dtype_of c = Some d \<Longrightarrow> c = dtype_code d"
  by (auto simp: dtype_of_def split: if_splits)

lemma sizeOf_nonzero [simp]: "sizeOf c \<noteq> 0 \<longleftrightarrow> dtype_isValid c"
  by (auto simp: sizeOf_def dtype_isValid_def split: option.splits dtype.splits)

lemma sizeOf_zero_iff: "sizeOf c = 0 \<longleftrightarrow> \<not> dtype_isValid c"
  using sizeOf_nonzero by blast

lemma alignmentOf_nonzero: "alignmentOf c \<noteq> 0 \<longleftrightarrow> dtype_isValid c"
  by (auto simp: alignmentOf_def dtype_isValid_def split: option.splits dtype.splits)

lemma sizeOf_alignmentOf: "sizeOf c = alignmentOf c"
  by (simp add: sizeOf_def alignmentOf_def)

section \<open>Shapes\<close>

record shape =
  sh_dimensions :: "u64 list"
  sh_strides :: "u64 list"
  sh_elementCount :: u64
  sh_storageElementCount :: u64

definition shape_default :: shape where
  "shape_default = \<lparr> sh_dimensions = [], sh_strides = [], sh_elementCount = 1,
     sh_storageElementCount = 1 \<rparr>"

definition count_dimension :: "u64 \<Rightarrow> u64 \<Rightarrow> exn + u64" where
  "count_dimension d n =
     (if d = 0 then Inl (InvalidArgument ''tensor dimensions must be nonzero'')
      else if n > u64_max div d then Inl (OverflowError ''tensor element count overflow'')
      else Inr (n * d))"

definition validateAndCount :: "u64 list \<Rightarrow> exn + u64" where
  "validateAndCount ds = foldr_until count_dimension ds 1"

text \<open>The loop runs from the last dimension to the first; the pair is the strides of the suffix
  and the running product.\<close>

fun contiguous_from :: "u64 list \<Rightarrow> u64 list \<times> u64" where
  "contiguous_from [] = ([], 1)"
| "contiguous_from (d # ds) = (case contiguous_from ds of (ss, w) \<Rightarrow> (w # ss, w * d))"

definition makeContiguousStrides :: "u64 list \<Rightarrow> u64 list" where
  "makeContiguousStrides ds = fst (contiguous_from ds)"

definition shape_make :: "u64 list \<Rightarrow> exn + shape" where
  "shape_make ds = bindr (validateAndCount ds) (\<lambda>n.
     Inr \<lparr> sh_dimensions = ds, sh_strides = makeContiguousStrides ds, sh_elementCount = n,
           sh_storageElementCount = n \<rparr>)"

definition extend_span :: "u64 \<times> u64 \<Rightarrow> u64 \<Rightarrow> exn + u64" where
  "extend_span ds n = (case ds of (d, s) \<Rightarrow>
     if d - 1 \<noteq> 0 \<and> s > (u64_max - n) div (d - 1)
     then Inl (OverflowError ''strided tensor storage span overflow'')
     else Inr (n + (d - 1) * s))"

definition shape_strided :: "u64 list \<Rightarrow> u64 list \<Rightarrow> exn + shape" where
  "shape_strided ds ss = bindr (validateAndCount ds) (\<lambda>n.
     if length ss \<noteq> length ds
     then Inl (InvalidArgument ''shape dimensions and strides must have equal rank'')
     else if n > 1 \<and> 0 \<in> set ss
     then Inl (InvalidArgument ''non-scalar tensor strides must be nonzero'')
     else bindr (foldr_until extend_span (zip ds ss) 1) (\<lambda>m.
       Inr \<lparr> sh_dimensions = ds, sh_strides = ss, sh_elementCount = n,
             sh_storageElementCount = m \<rparr>))"

definition sh_rank :: "shape \<Rightarrow> nat" where
  "sh_rank sh = length (sh_dimensions sh)"

text \<open>Both loops below go from the last dimension to the first, so they walk the reversed lists.\<close>

fun contiguous_strides :: "(u64 \<times> u64) list \<Rightarrow> u64 \<Rightarrow> bool" where
  "contiguous_strides [] w = True"
| "contiguous_strides ((d, s) # r) w = (if s \<noteq> w then False else contiguous_strides r (w * d))"

definition isContiguous :: "shape \<Rightarrow> bool" where
  "isContiguous sh =
     contiguous_strides (rev (zip (sh_dimensions sh) (sh_strides sh))) 1"

section \<open>Counting without wrap-around\<close>

definition product :: "u64 list \<Rightarrow> nat" where
  "product ds = prod_list (map unat ds)"

lemma product_simps [simp]:
  "product [] = 1" "product (d # ds) = unat d * product ds"
  by (simp_all add: product_def)

lemma product_append [simp]: "product (xs @ ys) = product xs * product ys"
  by (simp add: product_def)

lemma count_dimension_Inr:
  "count_dimension d n = Inr m \<Longrightarrow> d \<noteq> 0 \<and> unat m = unat n * unat d"
  by (auto simp: count_dimension_def not_less unat_mult_within split: if_splits)

lemma foldr_count:
  "foldr_until count_dimension ds n = Inr m \<Longrightarrow> 0 \<notin> set ds \<and> unat m = unat n * product ds"
proof (induction ds arbitrary: n)
  case (Cons d ds)
  from Cons.prems obtain k where k: "count_dimension d n = Inr k"
    and rest: "foldr_until count_dimension ds k = Inr m" by (auto simp: bindr_eq_Inr)
  from count_dimension_Inr [OF k] Cons.IH [OF rest] show ?case by simp
qed simp

lemma validateAndCount_Inr:
  assumes "validateAndCount ds = Inr n"
  shows "0 \<notin> set ds" and "unat n = product ds"
  using foldr_count [of ds 1 n] assms by (simp_all add: validateAndCount_def)

lemma product_pos: "0 \<notin> set ds \<Longrightarrow> 0 < product ds"
  by (induction ds) (auto simp: unat_gt_0)

lemma count_dimension_ok:
  assumes "d \<noteq> 0" and "unat n * unat d < 2 ^ 64"
  shows "count_dimension d n = Inr (n * d)"
proof -
  from assms(1) have pos: "0 < unat d" by (simp add: unat_gt_0)
  have "unat (- 1 :: u64) = 2 ^ 64 - 1" by (simp add: unsigned_minus_1_eq_mask mask_eq_exp_minus_1)
  with assms(2) have "unat n * unat d \<le> unat (- 1 :: u64)" by linarith
  with pos have "unat n \<le> unat (- 1 :: u64) div unat d"
    by (simp only: less_eq_div_iff_mult_less_eq)
  then have "n \<le> u64_max div d" by (simp add: word_le_nat_alt unat_div)
  with assms(1) show ?thesis by (simp add: count_dimension_def not_less)
qed

lemma foldr_count_ok:
  assumes "0 \<notin> set ds" and "unat n * product ds < 2 ^ 64"
  shows "\<exists>m. foldr_until count_dimension ds n = Inr m"
  using assms
proof (induction ds arbitrary: n)
  case (Cons d ds)
  from Cons.prems have d: "d \<noteq> 0" and ds: "0 < product ds" by (auto intro: product_pos)
  have "unat n * unat d \<le> unat n * product (d # ds)" using ds by simp
  with Cons.prems(2) have lt: "unat n * unat d < 2 ^ 64" by linarith
  from count_dimension_ok [OF d lt] have c: "count_dimension d n = Inr (n * d)" .
  from count_dimension_Inr [OF c] have u: "unat (n * d) = unat n * unat d" by simp
  have "unat (n * d) * product ds < 2 ^ 64" using Cons.prems(2) u by (simp add: mult.assoc)
  with Cons.IH [of "n * d"] Cons.prems(1) c show ?case by simp
qed simp

lemma validateAndCount_iff:
  "(\<exists>n. validateAndCount ds = Inr n) \<longleftrightarrow> 0 \<notin> set ds \<and> product ds < 2 ^ 64"
proof
  assume "\<exists>n. validateAndCount ds = Inr n"
  then obtain n where n: "validateAndCount ds = Inr n" ..
  have "unat n < 2 ^ 64" using unsigned_less [of n] by simp
  with validateAndCount_Inr [OF n] show "0 \<notin> set ds \<and> product ds < 2 ^ 64" by simp
next
  assume "0 \<notin> set ds \<and> product ds < 2 ^ 64"
  then show "\<exists>n. validateAndCount ds = Inr n"
    using foldr_count_ok [of ds 1] by (simp add: validateAndCount_def)
qed

section \<open>Offsets\<close>

text \<open>The element offset of a multi-index, as the kernels compute it.\<close>

definition index_within :: "nat list \<Rightarrow> u64 list \<Rightarrow> bool" where
  "index_within ix ds \<longleftrightarrow> list_all2 (\<lambda>i d. i < unat d) ix ds"

fun element_offset :: "nat list \<Rightarrow> u64 list \<Rightarrow> nat" where
  "element_offset (i # ix) (s # ss) = i * unat s + element_offset ix ss"
| "element_offset _ _ = 0"

fun span_sum :: "(u64 \<times> u64) list \<Rightarrow> nat" where
  "span_sum [] = 0"
| "span_sum ((d, s) # r) = (unat d - 1) * unat s + span_sum r"

lemma unat_minus_one: "d \<noteq> (0 :: u64) \<Longrightarrow> unat (d - 1) = unat d - 1"
  by (metis unat_minus_one)

lemma extend_span_Inr:
  assumes "extend_span (d, s) n = Inr m" and "d \<noteq> 0"
  shows "unat m = unat n + (unat d - 1) * unat s"
proof (cases "d - 1 = 0")
  case True
  then have "unat d - 1 = 0" using unat_minus_one [OF assms(2)] by simp
  with True assms(1) show ?thesis by (simp add: extend_span_def)
next
  case False
  with assms(1) have le: "s \<le> (u64_max - n) div (d - 1)" and m: "m = n + (d - 1) * s"
    by (auto simp: extend_span_def not_less split: if_splits)
  have "(u64_max - n) div (d - 1) \<le> u64_max div (d - 1)"
    unfolding word_le_nat_alt unat_div
    by (intro div_le_mono) (use word_n1_ge [of "u64_max - n"] in \<open>simp only: word_le_nat_alt\<close>)
  with le have "s \<le> u64_max div (d - 1)" by (rule order_trans)
  from unat_mult_within [OF False this] have mul: "unat ((d - 1) * s) = unat (d - 1) * unat s"
    by (simp add: mult.commute)
  from le have "unat s \<le> unat (u64_max - n) div unat (d - 1)"
    by (simp add: word_le_nat_alt unat_div)
  moreover have "0 < unat (d - 1)" using False by (simp add: unat_gt_0)
  ultimately have "unat s * unat (d - 1) \<le> unat (u64_max - n)"
    by (simp only: less_eq_div_iff_mult_less_eq)
  then have "(d - 1) * s \<le> u64_max - n" unfolding word_le_nat_alt mul by (simp only: mult.commute)
  from unat_add_within(1) [OF _ this] have "unat m = unat n + unat ((d - 1) * s)"
    by (simp add: m)
  then show ?thesis by (simp add: mul unat_minus_one [OF assms(2)])
qed

lemma foldr_span:
  assumes "foldr_until extend_span ps n = Inr m" and "\<forall>p \<in> set ps. fst p \<noteq> 0"
  shows "unat m = unat n + span_sum ps"
  using assms
proof (induction ps arbitrary: n)
  case (Cons p ps)
  obtain d s where p: "p = (d, s)" by (cases p)
  from Cons.prems(1) obtain k where k: "extend_span (d, s) n = Inr k"
    and rest: "foldr_until extend_span ps k = Inr m" by (auto simp: p bindr_eq_Inr)
  have "d \<noteq> 0" using Cons.prems(2) by (simp add: p)
  from extend_span_Inr [OF k this] Cons.IH [OF rest] Cons.prems(2) show ?case by (simp add: p)
qed simp

lemma element_offset_le_span:
  assumes "index_within ix ds" and "length ss = length ds"
  shows "element_offset ix ss \<le> span_sum (zip ds ss)"
  using assms unfolding index_within_def
proof (induction arbitrary: ss rule: list_all2_induct)
  case (Cons i ix d ds)
  then obtain s ss' where ss: "ss = s # ss'" by (cases ss) auto
  have "i * unat s \<le> (unat d - 1) * unat s" using Cons.hyps(1) by (intro mult_right_mono) auto
  moreover have "element_offset ix ss' \<le> span_sum (zip ds ss')" using Cons.IH Cons.prems ss by simp
  ultimately show ?case unfolding ss by (simp only: element_offset.simps span_sum.simps zip_Cons_Cons)
qed simp

section \<open>Contiguous shapes\<close>

lemma contiguous_from_length [simp]: "length (fst (contiguous_from ds)) = length ds"
  by (induction ds) (auto split: prod.splits)

lemma contiguous_strides_append:
  "contiguous_strides (xs @ ys) w \<longleftrightarrow>
     contiguous_strides xs w \<and> contiguous_strides ys (foldl (\<lambda>v p. v * fst p) w xs)"
proof (induction xs arbitrary: w)
  case (Cons p xs)
  then show ?case by (cases p) simp
qed simp

lemma foldl_mult_rev:
  "length ss = length ds \<Longrightarrow>
     foldl (\<lambda>v p. v * fst p) (w :: u64) (rev (zip ds ss)) = w * prod_list ds"
proof (induction ds arbitrary: ss)
  case (Cons d ds)
  then obtain s ss' where ss: "ss = s # ss'" "length ss' = length ds" by (cases ss) auto
  with Cons.IH [of ss'] show ?case by (simp add: ac_simps)
qed simp

lemma contiguous_from_snd: "snd (contiguous_from ds) = prod_list ds"
  by (induction ds) (auto split: prod.splits simp: mult.commute)

lemma makeContiguous_isContiguous:
  "contiguous_strides (rev (zip ds (makeContiguousStrides ds))) 1"
proof (induction ds)
  case (Cons d ds)
  have step: "makeContiguousStrides (d # ds) = prod_list ds # makeContiguousStrides ds"
    using contiguous_from_snd [of ds] by (auto simp: makeContiguousStrides_def split: prod.splits)
  have len: "length (makeContiguousStrides ds) = length ds" by (simp add: makeContiguousStrides_def)
  show ?case using Cons.IH foldl_mult_rev [OF len, of 1]
    by (simp add: step contiguous_strides_append)
qed simp

text \<open>Strides that pass the contiguity test are the suffix products, so the span of a contiguous
  shape is its element count.\<close>

lemma contiguous_strides_Cons:
  assumes "length ss = length ds" and "contiguous_strides (rev (zip (d # ds) (s # ss))) 1"
  shows "s = prod_list ds" and "contiguous_strides (rev (zip ds ss)) 1"
  using assms foldl_mult_rev [OF assms(1), of 1]
  by (simp_all add: contiguous_strides_append split: if_splits)

lemma prod_list_word: "product ds < 2 ^ 64 \<Longrightarrow> 0 \<notin> set ds \<Longrightarrow> unat (prod_list ds) = product ds"
proof (induction ds)
  case (Cons d ds)
  have pos: "0 < unat d" using Cons.prems(2) by (auto simp: unat_gt_0)
  then have "product ds \<le> product (d # ds)" by simp
  with Cons.prems(1) have lt: "product ds < 2 ^ 64" by linarith
  with Cons have "unat (prod_list ds) = product ds" by simp
  with Cons.prems(1) have "unat d * unat (prod_list ds) < 2 ^ LENGTH(64)" by simp
  then have "unat (d * prod_list ds) = unat d * unat (prod_list ds)"
    by (rule unat_mult_lem [THEN iffD1])
  with \<open>unat (prod_list ds) = product ds\<close> show ?case by simp
qed simp

lemma contiguous_span:
  assumes "length ss = length ds" and "0 \<notin> set ds" and "product ds < 2 ^ 64"
    and "contiguous_strides (rev (zip ds ss)) 1"
  shows "span_sum (zip ds ss) + 1 = product ds"
  using assms
proof (induction ds arbitrary: ss)
  case (Cons d ds)
  then obtain s ss' where ss: "ss = s # ss'" by (cases ss) auto
  note step = contiguous_strides_Cons [of ss' ds d s]
  have len: "length ss' = length ds" using Cons.prems(1) ss by simp
  have s: "s = prod_list ds" and rest: "contiguous_strides (rev (zip ds ss')) 1"
    using step [OF len] Cons.prems(4) ss by simp_all
  have nz: "0 \<notin> set ds" and pos: "0 < unat d" using Cons.prems(2) by (auto simp: unat_gt_0)
  then have "product ds \<le> product (d # ds)" by simp
  with Cons.prems(3) have lt: "product ds < 2 ^ 64" by linarith
  have "unat s = product ds" using prod_list_word [OF lt nz] s by simp
  moreover have "span_sum (zip ds ss') + 1 = product ds" by (rule Cons.IH [OF len nz lt rest])
  ultimately have "span_sum (zip (d # ds) ss) + 1 = (unat d - 1) * product ds + product ds"
    by (simp add: ss)
  also have "\<dots> = product (d # ds)" using pos by (cases "unat d") simp_all
  finally show ?case .
qed simp

section \<open>Well-formed shapes\<close>

definition shape_ok :: "shape \<Rightarrow> bool" where
  "shape_ok sh \<longleftrightarrow> length (sh_strides sh) = length (sh_dimensions sh) \<and> 0 \<notin> set (sh_dimensions sh) \<and>
     unat (sh_elementCount sh) = product (sh_dimensions sh) \<and>
     unat (sh_storageElementCount sh) = span_sum (zip (sh_dimensions sh) (sh_strides sh)) + 1"

lemma shape_ok_default: "shape_ok shape_default"
  by (simp add: shape_ok_def shape_default_def)

lemma shape_make_ok:
  assumes "shape_make ds = Inr sh"
  shows "shape_ok sh" and "isContiguous sh" and "sh_dimensions sh = ds"
proof -
  from assms obtain n where n: "validateAndCount ds = Inr n"
    and sh: "sh = \<lparr> sh_dimensions = ds, sh_strides = makeContiguousStrides ds, sh_elementCount = n,
                    sh_storageElementCount = n \<rparr>"
    by (auto simp: shape_make_def bindr_eq_Inr)
  have len: "length (makeContiguousStrides ds) = length ds" by (simp add: makeContiguousStrides_def)
  have lt: "product ds < 2 ^ 64" and nz: "0 \<notin> set ds"
    using validateAndCount_iff [of ds] n by blast+
  from contiguous_span [OF len nz lt makeContiguous_isContiguous] validateAndCount_Inr [OF n] len
  show "shape_ok sh" by (simp add: shape_ok_def sh)
  show "isContiguous sh" by (simp add: isContiguous_def sh makeContiguous_isContiguous)
  show "sh_dimensions sh = ds" by (simp add: sh)
qed

lemma shape_strided_ok:
  assumes "shape_strided ds ss = Inr sh"
  shows "shape_ok sh" and "sh_dimensions sh = ds" and "sh_strides sh = ss"
proof -
  from assms obtain n m where n: "validateAndCount ds = Inr n" and len: "length ss = length ds"
    and m: "foldr_until extend_span (zip ds ss) 1 = Inr m"
    and sh: "sh = \<lparr> sh_dimensions = ds, sh_strides = ss, sh_elementCount = n,
                    sh_storageElementCount = m \<rparr>"
    by (auto simp: shape_strided_def bindr_eq_Inr split: if_splits)
  have nz: "\<forall>p \<in> set (zip ds ss). fst p \<noteq> 0"
    using validateAndCount_Inr(1) [OF n] by (auto dest: set_zip_leftD)
  from foldr_span [OF m nz] validateAndCount_Inr [OF n] len show "shape_ok sh"
    by (simp add: shape_ok_def sh)
  show "sh_dimensions sh = ds" "sh_strides sh = ss" by (simp_all add: sh)
qed

lemma shape_ok_contiguous_storage:
  assumes "shape_ok sh" and "isContiguous sh"
  shows "sh_storageElementCount sh = sh_elementCount sh"
proof -
  have lt: "unat (sh_elementCount sh) < 2 ^ 64" using unsigned_less [of "sh_elementCount sh"] by simp
  from assms contiguous_span [of "sh_strides sh" "sh_dimensions sh"] lt
  show ?thesis by (simp add: shape_ok_def isContiguous_def word_unat_eq_iff)
qed

text \<open>A shape that either constructor accepts has nonzero dimensions, its element count is
  the exact product of the dimensions, and every multi-index within the dimensions has an
  element offset below the storage element count: bounds the constructor established once
  cover every access.\<close>
theorem shape_offsets_in_storage:
  assumes "shape_make ds = Inr sh \<or> shape_strided ds ss = Inr sh"
    and "index_within ix ds"
  shows "0 \<notin> set ds \<and> unat (sh_elementCount sh) = prod_list (map unat ds) \<and>
         element_offset ix (sh_strides sh) < unat (sh_storageElementCount sh)"
proof -
  have ok: "shape_ok sh" and ds: "sh_dimensions sh = ds"
    using assms(1) shape_make_ok shape_strided_ok(1,2) by blast+
  from ok ds element_offset_le_span [OF assms(2), of "sh_strides sh"] show ?thesis
    by (simp add: shape_ok_def product_def)
qed

text \<open>The constructor from dimensions accepts exactly the dimension lists without a zero
  whose product fits in 64 bits; the shape it makes is contiguous, and its storage is its
  element count.\<close>
theorem shape_make_accepts:
  "(\<exists>sh. shape_make ds = Inr sh \<and> isContiguous sh \<and>
         sh_storageElementCount sh = sh_elementCount sh) \<longleftrightarrow>
   0 \<notin> set ds \<and> prod_list (map unat ds) < 2 ^ 64"
proof -
  have "(\<exists>sh. shape_make ds = Inr sh) \<longleftrightarrow> (\<exists>n. validateAndCount ds = Inr n)"
    by (auto simp: shape_make_def bindr_eq_Inr)
  then have "(\<exists>sh. shape_make ds = Inr sh) \<longleftrightarrow> 0 \<notin> set ds \<and> prod_list (map unat ds) < 2 ^ 64"
    by (simp only: validateAndCount_iff product_def)
  moreover have "isContiguous sh \<and> sh_storageElementCount sh = sh_elementCount sh"
    if "shape_make ds = Inr sh" for sh
    using shape_make_ok [OF that] shape_ok_contiguous_storage by blast
  ultimately show ?thesis by blast
qed

end
