(* ===== verification/Tensor.thy ===== *)
theory Tensor
  imports Tensor_Shape Buffers
begin

text \<open>
  \<^verbatim>\<open>src/tensor/Tensor.cpp\<close> and \<^verbatim>\<open>src/tensor/TensorView.cpp\<close>. A pointer is a 64-bit address with 0 as
  the null pointer; \<open>addr\<close>, an argument where buffers become tensors, says at which address
  the storage of a buffer starts. A \<open>shared_ptr\<close> owner is the reference number of the buffer; a
  \<open>weak_ptr\<close> is expired when its number is not in the set \<open>alive\<close>. The lemmas show that every view
  derived from a view by reshaping and slicing stays inside the parent's storage, and that no
  index of an accepted shape reaches outside.
\<close>

section \<open>Devices\<close>

text \<open>\<open>DeviceType\<close> has an 8-bit representation; values other than the enumerators can be cast in.\<close>

abbreviation device_CPU :: u8 where "device_CPU \<equiv> 0"
abbreviation device_CUDA :: u8 where "device_CUDA \<equiv> 1"

definition device_isValid :: "u8 \<Rightarrow> bool" where
  "device_isValid t \<longleftrightarrow> t = device_CPU \<or> t = device_CUDA"

record device =
  dv_type :: u8
  dv_ordinal :: int

definition device_cpu :: device where
  "device_cpu = \<lparr> dv_type = device_CPU, dv_ordinal = 0 \<rparr>"

definition device_cuda :: "int \<Rightarrow> device" where
  "device_cuda n = \<lparr> dv_type = device_CUDA, dv_ordinal = n \<rparr>"

section \<open>Tensors\<close>

record tensor =
  tn_shape :: shape
  tn_dtype :: u32
  tn_device :: device
  tn_data :: u64
  tn_bytes :: u64
  tn_storageBytes :: u64
  tn_owner :: "nat option"

definition tensor_default :: tensor where
  "tensor_default = \<lparr> tn_shape = shape_default, tn_dtype = 0, tn_device = device_cpu, tn_data = 0,
     tn_bytes = 0, tn_storageBytes = 0, tn_owner = None \<rparr>"

definition validateStorageMetadata :: "u32 \<Rightarrow> device \<Rightarrow> u64 \<Rightarrow> exn + unit" where
  "validateStorageMetadata t d p =
     (if \<not> dtype_isValid t then Inl (InvalidArgument ''tensor dtype is invalid'')
      else if \<not> device_isValid (dv_type d) \<or> dv_ordinal d < 0
      then Inl (InvalidArgument ''tensor device metadata is invalid'')
      else if dv_type d = device_CPU \<and> dv_ordinal d \<noteq> 0
      then Inl (InvalidArgument ''CPU tensors must use device ordinal zero'')
      else if p \<noteq> 0 \<and> p mod alignmentOf t \<noteq> 0
      then Inl (InvalidArgument ''tensor storage is not aligned for its dtype'')
      else Inr ())"

text \<open>\<open>requiredBytes\<close> and \<open>logicalBytes\<close> differ in the count they take.\<close>

definition tensor_bytes :: "u64 \<Rightarrow> u32 \<Rightarrow> exn + u64" where
  "tensor_bytes n t =
     (if sizeOf t = 0 then Inl (InvalidArgument ''tensor dtype is invalid'')
      else if n > u64_max div sizeOf t then Inl (OverflowError ''tensor byte size overflow'')
      else Inr (n * sizeOf t))"

definition tn_requiredBytes :: "shape \<Rightarrow> u32 \<Rightarrow> exn + u64" where
  "tn_requiredBytes sh t = tensor_bytes (sh_storageElementCount sh) t"

definition tn_logicalBytes :: "shape \<Rightarrow> u32 \<Rightarrow> exn + u64" where
  "tn_logicalBytes sh t = tensor_bytes (sh_elementCount sh) t"

definition tensor_make :: "shape \<Rightarrow> u32 \<Rightarrow> device \<Rightarrow> u64 \<Rightarrow> u64 \<Rightarrow> nat option \<Rightarrow> exn + tensor" where
  "tensor_make sh t d p n own =
     bindr (tn_logicalBytes sh t) (\<lambda>b.
     bindr (validateStorageMetadata t d p) (\<lambda>_.
     bindr (requirer (p \<noteq> 0 \<and> own \<noteq> None)
              (InvalidArgument ''tensor storage and owner must be present'')) (\<lambda>_.
     bindr (tn_requiredBytes sh t) (\<lambda>r.
     bindr (requirer (\<not> n < r)
              (InvalidArgument ''tensor storage is smaller than its metadata requires'')) (\<lambda>_.
     Inr \<lparr> tn_shape = sh, tn_dtype = t, tn_device = d, tn_data = p, tn_bytes = b,
           tn_storageBytes = n, tn_owner = own \<rparr>)))))"

definition tensor_fromStorage :: "shape \<Rightarrow> u32 \<Rightarrow> device \<Rightarrow> u64 \<Rightarrow> u64 \<Rightarrow> nat option \<Rightarrow> exn + tensor" where
  "tensor_fromStorage = tensor_make"

text \<open>\<open>buffer->data()\<close>\<close>

definition db_data :: "(nat \<Rightarrow> u64) \<Rightarrow> device_buffer \<Rightarrow> u64" where
  "db_data addr b = (if db_live b then addr (db_ref b) else 0)"

definition device_mismatch :: "device \<Rightarrow> compute_backend \<Rightarrow> bool" where
  "device_mismatch d be \<longleftrightarrow>
     (dv_type d = device_CPU \<and> be_kind be \<noteq> Cpu) \<or>
     (dv_type d = device_CUDA \<and> (be_kind be \<noteq> Cuda \<or> be_ordinal be \<noteq> dv_ordinal d))"

definition tensor_fromDeviceBuffer ::
  "(nat \<Rightarrow> u64) \<Rightarrow> shape \<Rightarrow> u32 \<Rightarrow> device \<Rightarrow> device_buffer option \<Rightarrow> exn + tensor" where
  "tensor_fromDeviceBuffer addr sh t d buf =
     (case buf of
        None \<Rightarrow> Inl (InvalidArgument ''tensor device buffer is empty'')
      | Some b \<Rightarrow>
          (case db_backend b of
             None \<Rightarrow> Inl (InvalidArgument ''tensor device buffer is empty'')
           | Some be \<Rightarrow>
               bindr (requirer (db_live b) (InvalidArgument ''tensor device buffer is empty'')) (\<lambda>_.
               bindr (validateStorageMetadata t d (db_data addr b)) (\<lambda>_.
               bindr (requirer (\<not> device_mismatch d be)
                 (InvalidArgument ''tensor device metadata does not match its buffer'')) (\<lambda>_.
               tensor_make sh t d (db_data addr b) (db_size b) (Some (db_ref b)))))))"

definition tensor_valid :: "tensor \<Rightarrow> bool" where
  "tensor_valid x \<longleftrightarrow> tn_data x \<noteq> 0 \<and> tn_owner x \<noteq> None \<and> tn_bytes x \<noteq> 0"

definition tensor_reshape :: "tensor \<Rightarrow> shape \<Rightarrow> exn + tensor" where
  "tensor_reshape x sh =
     (if \<not> tensor_valid x then Inl (LogicError ''cannot reshape an empty tensor'')
      else if \<not> isContiguous (tn_shape x) \<or> \<not> isContiguous sh
      then Inl (InvalidArgument ''reshape currently requires contiguous tensors'')
      else if sh_elementCount sh \<noteq> sh_elementCount (tn_shape x)
      then Inl (InvalidArgument ''reshape must preserve the element count'')
      else tensor_make sh (tn_dtype x) (tn_device x) (tn_data x) (tn_storageBytes x) (tn_owner x))"

section \<open>Views\<close>

record tensor_view =
  tv_shape :: shape
  tv_dtype :: u32
  tv_device :: device
  tv_data :: u64
  tv_mutableData :: u64
  tv_bytes :: u64
  tv_storageBytes :: u64
  tv_lifetime :: "nat option"

definition view_default :: tensor_view where
  "view_default = \<lparr> tv_shape = shape_default, tv_dtype = 0, tv_device = device_cpu, tv_data = 0,
     tv_mutableData = 0, tv_bytes = 0, tv_storageBytes = 0, tv_lifetime = None \<rparr>"

definition expired :: "nat set \<Rightarrow> nat option \<Rightarrow> bool" where
  "expired alive w = (case w of None \<Rightarrow> True | Some r \<Rightarrow> r \<notin> alive)"

definition validateDevice :: "device \<Rightarrow> exn + unit" where
  "validateDevice d =
     (if \<not> device_isValid (dv_type d) \<or> dv_ordinal d < 0
      then Inl (InvalidArgument ''tensor view device metadata is invalid'')
      else if dv_type d = device_CPU \<and> dv_ordinal d \<noteq> 0
      then Inl (InvalidArgument ''CPU tensor views must use device ordinal zero'')
      else Inr ())"

definition validateBufferDevice :: "device_buffer \<Rightarrow> device \<Rightarrow> exn + unit" where
  "validateBufferDevice b d =
     bindr (validateDevice d) (\<lambda>_.
     case db_backend b of
       None \<Rightarrow> Inl (InvalidArgument ''tensor view buffer has no backend'')
     | Some be \<Rightarrow> requirer (\<not> device_mismatch d be)
         (InvalidArgument ''tensor view device metadata does not match its buffer''))"

definition view_of_tensor :: "tensor \<Rightarrow> tensor_view" where
  "view_of_tensor x = \<lparr> tv_shape = tn_shape x, tv_dtype = tn_dtype x, tv_device = tn_device x,
     tv_data = tn_data x, tv_mutableData = tn_data x, tv_bytes = tn_bytes x,
     tv_storageBytes = tn_storageBytes x, tv_lifetime = tn_owner x \<rparr>"

definition view_of_const_tensor :: "tensor \<Rightarrow> tensor_view" where
  "view_of_const_tensor x = (view_of_tensor x)\<lparr> tv_mutableData := 0 \<rparr>"

definition view_bytes :: "u64 \<Rightarrow> u32 \<Rightarrow> string \<Rightarrow> exn + u64" where
  "view_bytes n t msg =
     (if sizeOf t = 0 \<or> n > u64_max div sizeOf t then Inl (OverflowError msg)
      else Inr (n * sizeOf t))"

definition tv_requiredBytes :: "shape \<Rightarrow> u32 \<Rightarrow> exn + u64" where
  "tv_requiredBytes sh t =
     view_bytes (sh_storageElementCount sh) t ''tensor view storage size overflow''"

definition tv_logicalBytes :: "shape \<Rightarrow> u32 \<Rightarrow> exn + u64" where
  "tv_logicalBytes sh t = view_bytes (sh_elementCount sh) t ''tensor view byte size overflow''"

definition view_make ::
  "nat set \<Rightarrow> shape \<Rightarrow> u32 \<Rightarrow> device \<Rightarrow> u64 \<Rightarrow> u64 \<Rightarrow> u64 \<Rightarrow> nat option \<Rightarrow> exn + tensor_view" where
  "view_make alive sh t d p mp n w =
     bindr (tv_logicalBytes sh t) (\<lambda>b.
     bindr (validateDevice d) (\<lambda>_.
     bindr (requirer (\<not> (p = 0 \<or> expired alive w))
              (InvalidArgument ''tensor view storage must be alive'')) (\<lambda>_.
     bindr (requirer (\<not> (alignmentOf t = 0 \<or> p mod alignmentOf t \<noteq> 0))
              (InvalidArgument ''tensor view storage is not aligned for its dtype'')) (\<lambda>_.
     bindr (tv_requiredBytes sh t) (\<lambda>r.
     bindr (requirer (\<not> n < r)
              (InvalidArgument ''tensor view storage is smaller than its metadata requires'')) (\<lambda>_.
     Inr \<lparr> tv_shape = sh, tv_dtype = t, tv_device = d, tv_data = p, tv_mutableData = mp,
           tv_bytes = b, tv_storageBytes = n, tv_lifetime = w \<rparr>))))))"

definition view_fromDeviceBuffer ::
  "(nat \<Rightarrow> u64) \<Rightarrow> nat set \<Rightarrow> shape \<Rightarrow> u32 \<Rightarrow> device \<Rightarrow> device_buffer option \<Rightarrow> bool \<Rightarrow> exn + tensor_view" where
  "view_fromDeviceBuffer addr alive sh t d buf writable =
     (case buf of
        None \<Rightarrow> Inl (InvalidArgument ''tensor view buffer is empty'')
      | Some b \<Rightarrow>
          bindr (requirer (db_live b) (InvalidArgument ''tensor view buffer is empty'')) (\<lambda>_.
          bindr (validateBufferDevice b d) (\<lambda>_.
          view_make alive sh t d (db_data addr b) (if writable then db_data addr b else 0)
            (db_size b) (Some (db_ref b)))))"

definition view_fromHostBuffer ::
  "(nat \<Rightarrow> u64) \<Rightarrow> nat set \<Rightarrow> shape \<Rightarrow> u32 \<Rightarrow> host_buffer option \<Rightarrow> bool \<Rightarrow> exn + tensor_view" where
  "view_fromHostBuffer addr alive sh t buf writable =
     (case buf of
        None \<Rightarrow> Inl (InvalidArgument ''tensor view host buffer is empty'')
      | Some b \<Rightarrow>
          bindr (requirer (hb_bytes b \<noteq> [])
                   (InvalidArgument ''tensor view host buffer is empty'')) (\<lambda>_.
          bindr (validateDevice device_cpu) (\<lambda>_.
          view_make alive sh t device_cpu (addr (hb_ref b)) (if writable then addr (hb_ref b) else 0)
            (hb_size b) (Some (hb_ref b)))))"

definition view_data :: "nat set \<Rightarrow> tensor_view \<Rightarrow> u64" where
  "view_data alive v = (if expired alive (tv_lifetime v) then 0 else tv_data v)"

definition view_mutableData :: "nat set \<Rightarrow> tensor_view \<Rightarrow> u64" where
  "view_mutableData alive v = (if expired alive (tv_lifetime v) then 0 else tv_mutableData v)"

definition view_writable :: "nat set \<Rightarrow> tensor_view \<Rightarrow> bool" where
  "view_writable alive v \<longleftrightarrow> tv_mutableData v \<noteq> 0 \<and> \<not> expired alive (tv_lifetime v)"

definition view_valid :: "nat set \<Rightarrow> tensor_view \<Rightarrow> bool" where
  "view_valid alive v \<longleftrightarrow> tv_data v \<noteq> 0 \<and> tv_bytes v \<noteq> 0 \<and> \<not> expired alive (tv_lifetime v)"

definition view_lockOwner :: "nat set \<Rightarrow> tensor_view \<Rightarrow> nat option" where
  "view_lockOwner alive v = (if expired alive (tv_lifetime v) then None else tv_lifetime v)"

definition view_reshape :: "nat set \<Rightarrow> tensor_view \<Rightarrow> shape \<Rightarrow> exn + tensor_view" where
  "view_reshape alive v sh =
     (if \<not> view_valid alive v then Inl (LogicError ''cannot reshape an invalid tensor view'')
      else if \<not> isContiguous (tv_shape v) \<or> \<not> isContiguous sh
      then Inl (InvalidArgument ''reshape currently requires contiguous tensor views'')
      else if sh_elementCount sh \<noteq> sh_elementCount (tv_shape v)
      then Inl (InvalidArgument ''reshape must preserve the element count'')
      else view_make alive sh (tv_dtype v) (tv_device v) (tv_data v) (tv_mutableData v)
             (tv_storageBytes v) (tv_lifetime v))"

definition view_sliceBytes :: "nat set \<Rightarrow> tensor_view \<Rightarrow> u64 \<Rightarrow> shape \<Rightarrow> u32 \<Rightarrow> exn + tensor_view" where
  "view_sliceBytes alive v off sh t =
     (if \<not> view_valid alive v then Inl (LogicError ''cannot slice an invalid tensor view'')
      else if sizeOf t = 0 then Inl (InvalidArgument ''tensor view dtype is invalid'')
      else if off mod sizeOf t \<noteq> 0
      then Inl (InvalidArgument ''tensor view slice offset is not element-aligned'')
      else if off > tv_storageBytes v
      then Inl (OutOfRange ''tensor view slice offset exceeds storage'')
      else bindr (tv_requiredBytes sh t) (\<lambda>n.
        if tv_storageBytes v - off < n
        then Inl (OutOfRange ''tensor view slice exceeds storage'')
        else view_make alive sh t (tv_device v) (tv_data v + off)
               (if tv_mutableData v = 0 then 0 else tv_mutableData v + off) n (tv_lifetime v)))"

section \<open>Well-formed views\<close>

lemma view_bytes_Inr:
  "view_bytes n t msg = Inr m \<Longrightarrow> dtype_isValid t \<and> unat m = unat n * unat (sizeOf t)"
  by (auto simp: view_bytes_def sizeOf_zero_iff not_less unat_mult_within split: if_splits)

definition view_ok :: "tensor_view \<Rightarrow> bool" where
  "view_ok v \<longleftrightarrow> shape_ok (tv_shape v) \<and> dtype_isValid (tv_dtype v) \<and>
     unat (sh_storageElementCount (tv_shape v)) * unat (sizeOf (tv_dtype v)) \<le> unat (tv_storageBytes v) \<and>
     unat (tv_bytes v) = unat (sh_elementCount (tv_shape v)) * unat (sizeOf (tv_dtype v)) \<and>
     unat (tv_data v) + unat (tv_storageBytes v) \<le> 2 ^ 64 \<and>
     (tv_mutableData v = 0 \<or> tv_mutableData v = tv_data v)"

lemma view_make_Inr:
  assumes "view_make alive sh t d p mp n w = Inr v"
  shows "v = \<lparr> tv_shape = sh, tv_dtype = t, tv_device = d, tv_data = p, tv_mutableData = mp,
           tv_bytes = tv_bytes v, tv_storageBytes = n, tv_lifetime = w \<rparr>"
    and "unat (tv_bytes v) = unat (sh_elementCount sh) * unat (sizeOf t)"
    and "unat (sh_storageElementCount sh) * unat (sizeOf t) \<le> unat n"
    and "dtype_isValid t" and "p \<noteq> 0" and "\<not> expired alive w" and "p mod alignmentOf t = 0"
proof -
  from assms obtain b r where b: "tv_logicalBytes sh t = Inr b" and r: "tv_requiredBytes sh t = Inr r"
    and le: "\<not> n < r" and p: "p \<noteq> 0" "\<not> expired alive w" and dv: "p mod alignmentOf t = 0"
    and v: "v = \<lparr> tv_shape = sh, tv_dtype = t, tv_device = d, tv_data = p, tv_mutableData = mp,
           tv_bytes = b, tv_storageBytes = n, tv_lifetime = w \<rparr>"
    by (auto simp: view_make_def bindr_eq_Inr del: mod_0_imp_dvd)
  note bb = view_bytes_Inr [OF b [unfolded tv_logicalBytes_def]]
  note rr = view_bytes_Inr [OF r [unfolded tv_requiredBytes_def]]
  show "v = \<lparr> tv_shape = sh, tv_dtype = t, tv_device = d, tv_data = p, tv_mutableData = mp,
           tv_bytes = tv_bytes v, tv_storageBytes = n, tv_lifetime = w \<rparr>" by (simp add: v)
  show "unat (tv_bytes v) = unat (sh_elementCount sh) * unat (sizeOf t)" using bb by (simp add: v)
  show "unat (sh_storageElementCount sh) * unat (sizeOf t) \<le> unat n"
    using rr le by (simp add: not_less word_le_nat_alt)
  show "dtype_isValid t" using bb by simp
  show "p \<noteq> 0" "\<not> expired alive w" by (rule p)+
  show "p mod alignmentOf t = 0" by (rule dv)
qed

lemma view_make_fields:
  assumes "view_make alive sh t d p mp n w = Inr v"
  shows "tv_shape v = sh" "tv_dtype v = t" "tv_device v = d" "tv_data v = p"
    "tv_mutableData v = mp" "tv_storageBytes v = n" "tv_lifetime v = w"
  by (subst view_make_Inr(1) [OF assms], simp)+

lemma view_make_ok:
  assumes "view_make alive sh t d p mp n w = Inr v" and "shape_ok sh"
    and "unat p + unat n \<le> 2 ^ 64" and "mp = 0 \<or> mp = p"
  shows "view_ok v"
  unfolding view_ok_def view_make_fields [OF assms(1)]
  using view_make_Inr(2-4) [OF assms(1)] assms(2-4) by blast

text \<open>Where a view lies inside another: the byte range, the device, the owner and the right to
  write.\<close>

definition view_within :: "tensor_view \<Rightarrow> tensor_view \<Rightarrow> bool" where
  "view_within w v \<longleftrightarrow> unat (tv_data v) \<le> unat (tv_data w) \<and>
     unat (tv_data w) + unat (tv_storageBytes w) \<le> unat (tv_data v) + unat (tv_storageBytes v) \<and>
     tv_device w = tv_device v \<and> tv_lifetime w = tv_lifetime v \<and>
     (tv_mutableData w \<noteq> 0 \<longrightarrow> tv_mutableData v \<noteq> 0)"

lemma view_within_refl: "view_within v v"
  by (simp add: view_within_def)

lemma view_within_trans: "view_within u w \<Longrightarrow> view_within w v \<Longrightarrow> view_within u v"
  by (auto simp: view_within_def)

lemma view_reshape_Inr:
  assumes "view_reshape alive v sh = Inr w" and "view_ok v" and "shape_ok sh"
  shows "view_ok w" and "view_within w v"
proof -
  from assms(1) have m: "view_make alive sh (tv_dtype v) (tv_device v) (tv_data v)
      (tv_mutableData v) (tv_storageBytes v) (tv_lifetime v) = Inr w"
    by (simp add: view_reshape_def split: if_splits)
  from view_make_ok [OF m assms(3)] assms(2) show "view_ok w" by (simp add: view_ok_def)
  show "view_within w v" by (simp add: view_within_def view_make_fields [OF m])
qed

lemma view_sliceBytes_Inr:
  assumes "view_sliceBytes alive v off sh t = Inr w" and "view_ok v" and "shape_ok sh"
  shows "view_ok w" and "view_within w v" and "tv_data w = tv_data v + off"
    and "unat (tv_data w) = unat (tv_data v) + unat off"
proof -
  define mp where "mp = (if tv_mutableData v = 0 then 0 else tv_mutableData v + off)"
  from assms(1) obtain n where n: "tv_requiredBytes sh t = Inr n"
    and off: "off \<le> tv_storageBytes v" and le: "n \<le> tv_storageBytes v - off"
    and m: "view_make alive sh t (tv_device v) (tv_data v + off) mp n (tv_lifetime v) = Inr w"
    by (auto simp: view_sliceBytes_def bindr_eq_Inr not_less mp_def split: if_splits)
  have ok: "unat (tv_data v) + unat (tv_storageBytes v) \<le> 2 ^ 64"
    "tv_mutableData v = 0 \<or> tv_mutableData v = tv_data v" using assms(2) by (simp_all add: view_ok_def)
  have d: "unat (tv_storageBytes v - off) = unat (tv_storageBytes v) - unat off"
    using off by (rule unat_sub)
  have sum: "unat off + unat n \<le> unat (tv_storageBytes v)"
    using off le by (simp add: word_le_nat_alt d)
  have pos: "0 < unat n"
  proof -
    have "0 < unat (sh_storageElementCount sh)" using assms(3) by (simp add: shape_ok_def)
    moreover have "0 < unat (sizeOf t)" using view_make_Inr(4) [OF m] sizeOf_nonzero
      by (simp add: unat_gt_0)
    ultimately have "0 < unat (sh_storageElementCount sh) * unat (sizeOf t)" by simp
    with view_make_Inr(3) [OF m] show ?thesis by linarith
  qed
  with sum ok(1) have "unat (tv_data v) + unat off < 2 ^ LENGTH(64)" by simp
  then have add: "unat (tv_data v + off) = unat (tv_data v) + unat off"
    by (rule unat_add_lem [THEN iffD1])
  show "tv_data w = tv_data v + off" "unat (tv_data w) = unat (tv_data v) + unat off"
    by (simp_all add: view_make_fields [OF m] add)
  have "mp = 0 \<or> mp = tv_data v + off" using ok(2) by (auto simp: mp_def)
  moreover have "unat (tv_data v + off) + unat n \<le> 2 ^ 64" using add sum ok(1) by linarith
  ultimately show "view_ok w" using view_make_ok [OF m assms(3)] by blast
  show "view_within w v" using add sum
    by (auto simp: view_within_def view_make_fields [OF m] mp_def)
qed

text \<open>Views obtained from a view by the two deriving operations, with shapes the constructors
  of \<open>Shape\<close> made.\<close>

inductive derived :: "nat set \<Rightarrow> tensor_view \<Rightarrow> tensor_view \<Rightarrow> bool" for alive v where
  derived_self: "derived alive v v"
| derived_reshape: "derived alive v w \<Longrightarrow> shape_ok sh \<Longrightarrow> view_reshape alive w sh = Inr u \<Longrightarrow>
    derived alive v u"
| derived_slice: "derived alive v w \<Longrightarrow> shape_ok sh \<Longrightarrow> view_sliceBytes alive w off sh t = Inr u \<Longrightarrow>
    derived alive v u"

lemma derived_within:
  assumes "derived alive v w" and "view_ok v"
  shows "view_ok w \<and> view_within w v"
  using assms
proof (induction rule: derived.induct)
  case derived_self
  then show ?case by (simp add: view_within_refl)
next
  case (derived_reshape w sh u)
  then show ?case using view_reshape_Inr view_within_trans by blast
next
  case (derived_slice w sh off t u)
  then show ?case using view_sliceBytes_Inr(1,2) view_within_trans by blast
qed

lemma view_ok_element:
  assumes "view_ok v" and "index_within ix (sh_dimensions (tv_shape v))"
  shows "(element_offset ix (sh_strides (tv_shape v)) + 1) * unat (sizeOf (tv_dtype v)) \<le>
         unat (tv_storageBytes v)"
proof -
  let ?sh = "tv_shape v" and ?z = "unat (sizeOf (tv_dtype v))"
  have sh: "shape_ok ?sh" and le: "unat (sh_storageElementCount ?sh) * ?z \<le> unat (tv_storageBytes v)"
    using assms(1) by (simp_all add: view_ok_def)
  from sh element_offset_le_span [OF assms(2), of "sh_strides ?sh"]
  have "element_offset ix (sh_strides ?sh) + 1 \<le> unat (sh_storageElementCount ?sh)"
    by (simp add: shape_ok_def)
  then have "(element_offset ix (sh_strides ?sh) + 1) * ?z \<le> unat (sh_storageElementCount ?sh) * ?z"
    by (rule mult_right_mono) simp
  with le show ?thesis by (rule order_trans [rotated])
qed

lemma view_fromDeviceBuffer_Inr:
  assumes "view_fromDeviceBuffer addr alive sh t d (Some b) wr = Inr v" and "shape_ok sh"
    and "unat (addr (db_ref b)) + length (db_bytes b) \<le> 2 ^ 64"
  shows "view_ok v" and "tv_data v = addr (db_ref b)" and "unat (tv_storageBytes v) = length (db_bytes b)"
    and "tv_lifetime v = Some (db_ref b)" and "tv_mutableData v = (if wr then addr (db_ref b) else 0)"
proof -
  from assms(1) have live: "db_live b"
    and m: "view_make alive sh t d (addr (db_ref b)) (if wr then addr (db_ref b) else 0)
              (db_size b) (Some (db_ref b)) = Inr v"
    by (auto simp: view_fromDeviceBuffer_def bindr_eq_Inr db_data_def)
  from view_make_Inr(5) [OF m] have "0 < unat (addr (db_ref b))" by (simp add: unat_gt_0)
  with assms(3) have "length (db_bytes b) < 2 ^ 64" by linarith
  then have sz: "unat (db_size b) = length (db_bytes b)" by (simp add: db_size_def unat_of_nat)
  from view_make_ok [OF m assms(2)] assms(3) sz show "view_ok v" by simp
  show "tv_data v = addr (db_ref b)" "unat (tv_storageBytes v) = length (db_bytes b)"
    "tv_lifetime v = Some (db_ref b)" "tv_mutableData v = (if wr then addr (db_ref b) else 0)"
    by (simp_all add: view_make_fields [OF m] sz)
qed

text \<open>C26: Take a view of a device buffer that does not straddle the end of the address space,
  and derive views from it by any sequence of reshapes and byte slices. Every element that the
  final view's shape can address lies inside the buffer; the view still refers to that buffer's
  owner, and it is writable only if the first view was made writable.\<close>
theorem derived_view_in_bounds:
  assumes "view_fromDeviceBuffer addr alive sh t d (Some b) wr = Inr v" and "shape_ok sh"
    and "unat (addr (db_ref b)) + length (db_bytes b) \<le> 2 ^ 64"
    and "derived alive v w" and "index_within ix (sh_dimensions (tv_shape w))"
  shows "let z = unat (sizeOf (tv_dtype w));
             a = unat (tv_data w) + element_offset ix (sh_strides (tv_shape w)) * z
         in unat (addr (db_ref b)) \<le> a \<and>
            a + z \<le> unat (addr (db_ref b)) + length (db_bytes b) \<and>
            tv_lifetime w = Some (db_ref b) \<and> (view_writable alive w \<longrightarrow> wr)"
proof -
  note v = view_fromDeviceBuffer_Inr [OF assms(1-3)]
  from derived_within [OF assms(4) v(1)] have ok: "view_ok w" and wi: "view_within w v" by simp_all
  from view_ok_element [OF ok assms(5)]
  have el: "element_offset ix (sh_strides (tv_shape w)) * unat (sizeOf (tv_dtype w)) +
            unat (sizeOf (tv_dtype w)) \<le> unat (tv_storageBytes w)" by (simp add: distrib_right)
  have "unat (addr (db_ref b)) \<le> unat (tv_data w)"
    and "unat (tv_data w) + unat (tv_storageBytes w) \<le> unat (addr (db_ref b)) + length (db_bytes b)"
    using wi v(2,3) by (simp_all add: view_within_def)
  moreover have "tv_lifetime w = Some (db_ref b)" and "view_writable alive w \<longrightarrow> wr"
    using wi v(4,5) by (auto simp: view_within_def view_writable_def split: if_splits)
  ultimately show ?thesis using el by (simp add: Let_def)
qed

definition buffer_example :: device_buffer where
  "buffer_example = \<lparr> db_ref = 7, db_bytes = replicate 12 0, db_live = True,
     db_backend = Some \<lparr> be_ref = 0, be_kind = Cpu, be_ordinal = 0, be_available = True,
       be_supportsPinned = False \<rparr> \<rparr>"

definition shape_example :: "u64 \<Rightarrow> shape" where
  "shape_example n = \<lparr> sh_dimensions = [n], sh_strides = [1], sh_elementCount = n,
     sh_storageElementCount = n \<rparr>"

definition view_example :: "u64 \<Rightarrow> u64 \<Rightarrow> tensor_view" where
  "view_example p n = \<lparr> tv_shape = shape_example n, tv_dtype = 0, tv_device = device_cpu,
     tv_data = p, tv_mutableData = p, tv_bytes = n * 4, tv_storageBytes = n * 4,
     tv_lifetime = Some 7 \<rparr>"

lemmas view_eval = view_fromDeviceBuffer_def view_sliceBytes_def view_make_def tv_logicalBytes_def
  tv_requiredBytes_def view_bytes_def validateBufferDevice_def validateDevice_def db_data_def
  db_size_def device_mismatch_def device_isValid_def expired_def view_valid_def sizeOf_def
  alignmentOf_def dtype_of_def buffer_example_def shape_example_def view_example_def device_cpu_def

theorem derived_view_in_bounds_witness:
  "view_fromDeviceBuffer (\<lambda>_. 64) {7} (shape_example 3) 0 device_cpu (Some buffer_example) True =
     Inr (view_example 64 3) \<and>
   derived {7} (view_example 64 3) (view_example 68 2) \<and>
   unat (tv_data (view_example 68 2)) + 1 * 4 + 4 \<le> 64 + 12"
proof -
  have v: "view_fromDeviceBuffer (\<lambda>_. 64) {7} (shape_example 3) 0 device_cpu (Some buffer_example) True =
     Inr (view_example 64 3)" by (simp add: view_eval)
  have sh: "shape_ok (shape_example 3)" "shape_ok (shape_example 2)"
    by (simp_all add: shape_ok_def shape_example_def)
  have "view_sliceBytes {7} (view_example 64 3) 4 (shape_example 2) 0 = Inr (view_example 68 2)"
    by (simp add: view_eval)
  with sh derived_self have d: "derived {7} (view_example 64 3) (view_example 68 2)"
    by (blast intro: derived_slice)
  have fits: "unat ((\<lambda>_ :: nat. 64 :: u64) (db_ref buffer_example)) + length (db_bytes buffer_example) \<le> 2 ^ 64"
    by (simp add: buffer_example_def)
  have ix: "index_within [1] (sh_dimensions (tv_shape (view_example 68 2)))"
    by (simp add: index_within_def view_example_def shape_example_def)
  from derived_view_in_bounds [OF v sh(1) fits d ix] v d show ?thesis
    by (simp add: view_eval Let_def)
qed

section \<open>Tensors and their storage\<close>

lemma tensor_bytes_Inr:
  "tensor_bytes n t = Inr m \<Longrightarrow> dtype_isValid t \<and> unat m = unat n * unat (sizeOf t)"
  by (auto simp: tensor_bytes_def sizeOf_zero_iff not_less unat_mult_within split: if_splits)

lemma tensor_make_Inr:
  assumes "tensor_make sh t d p n own = Inr x"
  shows "tn_shape x = sh" "tn_dtype x = t" "tn_device x = d" "tn_data x = p" "tn_storageBytes x = n"
    "tn_owner x = own"
    and "unat (tn_bytes x) = unat (sh_elementCount sh) * unat (sizeOf t)"
    and "unat (sh_storageElementCount sh) * unat (sizeOf t) \<le> unat n"
    and "dtype_isValid t" and "p \<noteq> 0" and "own \<noteq> None" and "p mod alignmentOf t = 0"
    and "device_isValid (dv_type d)"
proof -
  from assms obtain b r where b: "tn_logicalBytes sh t = Inr b" and r: "tn_requiredBytes sh t = Inr r"
    and le: "\<not> n < r" and meta: "validateStorageMetadata t d p = Inr ()"
    and p: "p \<noteq> 0" "own \<noteq> None"
    and x: "x = \<lparr> tn_shape = sh, tn_dtype = t, tn_device = d, tn_data = p, tn_bytes = b,
           tn_storageBytes = n, tn_owner = own \<rparr>"
    by (auto simp: tensor_make_def bindr_eq_Inr)
  note bb = tensor_bytes_Inr [OF b [unfolded tn_logicalBytes_def]]
  note rr = tensor_bytes_Inr [OF r [unfolded tn_requiredBytes_def]]
  show "tn_shape x = sh" "tn_dtype x = t" "tn_device x = d" "tn_data x = p" "tn_storageBytes x = n"
    "tn_owner x = own" "unat (tn_bytes x) = unat (sh_elementCount sh) * unat (sizeOf t)"
    using bb by (simp_all add: x)
  show "unat (sh_storageElementCount sh) * unat (sizeOf t) \<le> unat n"
    using rr le by (simp add: not_less word_le_nat_alt)
  show "dtype_isValid t" using bb by simp
  show "p \<noteq> 0" "own \<noteq> None" by (rule p)+
  from meta p(1) show "p mod alignmentOf t = 0" "device_isValid (dv_type d)"
    by (simp_all add: validateStorageMetadata_def split: if_splits)
qed

text \<open>Reshaping a tensor to a contiguous shape with the same number of elements always
  succeeds when the tensor came from a constructor, shares its storage and owner, keeps the
  logical byte count, and reshaping back gives the tensor itself.\<close>
theorem tensor_reshape_roundtrip:
  assumes "tensor_make sh t d p n own = Inr x" and "shape_ok sh" and "isContiguous sh"
    and "shape_ok sh'" and "isContiguous sh'" and "sh_elementCount sh' = sh_elementCount sh"
  shows "\<exists>y. tensor_reshape x sh' = Inr y \<and> tn_data y = tn_data x \<and> tn_owner y = tn_owner x \<and>
             tn_bytes y = tn_bytes x \<and> tensor_reshape y sh = Inr x"
proof -
  note x = tensor_make_Inr [OF assms(1)]
  have st: "sh_storageElementCount sh' = sh_storageElementCount sh"
    using shape_ok_contiguous_storage [OF assms(2,3)] shape_ok_contiguous_storage [OF assms(4,5)] assms(6)
    by simp
  define y where "y = x\<lparr> tn_shape := sh' \<rparr>"
  have x_eq: "x = \<lparr> tn_shape = sh, tn_dtype = t, tn_device = d, tn_data = p, tn_bytes = tn_bytes x,
           tn_storageBytes = n, tn_owner = own \<rparr>" by (simp add: x)
  have mk: "tensor_make sh' t d p n own = Inr y"
    using assms(1) assms(6) st
    by (auto simp: tensor_make_def tn_logicalBytes_def tn_requiredBytes_def bindr_eq_Inr y_def)
  have pos: "tn_bytes x \<noteq> 0"
  proof -
    have "0 < unat (sh_elementCount sh)" using assms(2) product_pos by (auto simp: shape_ok_def)
    moreover have "0 < unat (sizeOf t)" using x(9) by (simp add: unat_gt_0)
    ultimately have "0 < unat (tn_bytes x)" by (simp only: x(7) nat_0_less_mult_iff)
    then show ?thesis by (simp only: unat_gt_0 not_False_eq_True)
  qed
  have valid: "tensor_valid x" "tensor_valid y" using pos x by (auto simp: tensor_valid_def y_def)
  have "tensor_reshape x sh' = Inr y" using valid(1) assms x mk by (simp add: tensor_reshape_def)
  moreover have "tensor_reshape y sh = Inr x"
    using valid(2) assms x by (simp add: tensor_reshape_def y_def)
  ultimately show ?thesis by (intro exI [of _ y]) (simp add: y_def)
qed

end
