(* ===== verification/Byte_Codec.thy ===== *)
theory Byte_Codec
  imports Buffers
begin

text \<open>
  The little-endian codec of \<^verbatim>\<open>src/storage/ExpertIndex.cpp\<close>: \<open>writeLittleEndian<T>\<close> and
  \<open>readLittleEndian<T>\<close>, for every word type whose width is a multiple of eight. An input stream
  is the list of bytes not read yet. Reading back what was written gives the value and leaves
  the rest of the stream, and whatever a read accepts is what a write of the value produces.
\<close>

unbundle bit_operations_syntax

section \<open>Writing and reading\<close>

definition writeLittleEndian :: "'a::len word \<Rightarrow> byte list" where
  "writeLittleEndian v = map (\<lambda>i. ucast (drop_bit (i * 8) v AND 0xff)) [0..<LENGTH('a) div 8]"

text \<open>The loop \<open>value |= static_cast<T>(bytes[index]) << (index * 8U)\<close>.\<close>

fun combine_bytes :: "nat \<Rightarrow> byte list \<Rightarrow> 'a::len word \<Rightarrow> 'a word" where
  "combine_bytes i [] v = v"
| "combine_bytes i (b # bs) v = combine_bytes (Suc i) bs (v OR push_bit (i * 8) (ucast b))"

definition readLittleEndian :: "(byte list, 'a::len word) prog" where
  "readLittleEndian input =
     (if length input < LENGTH('a) div 8
      then (Inl (StorageError ''truncated expert index''), [])
      else (Inr (combine_bytes 0 (take (LENGTH('a) div 8) input) 0), drop (LENGTH('a) div 8) input))"

section \<open>Bits\<close>

lemma length_writeLittleEndian [simp]:
  "length (writeLittleEndian (v :: 'a::len word)) = LENGTH('a) div 8"
  by (simp add: writeLittleEndian_def)

lemma bit_combine_bytes:
  "bit (combine_bytes i bs (v :: 'a::len word)) n \<longleftrightarrow>
     bit v n \<or> (n < LENGTH('a) \<and> i * 8 \<le> n \<and> n < (i + length bs) * 8 \<and>
                bit (bs ! (n div 8 - i)) (n mod 8))"
proof (induction bs arbitrary: i v)
  case (Cons b bs)
  let ?P = "n < LENGTH('a)"
  have head: "bit (push_bit (i * 8) (ucast b) :: 'a word) n \<longleftrightarrow>
      ?P \<and> i * 8 \<le> n \<and> n < i * 8 + 8 \<and> bit b (n - i * 8)"
    by (auto simp: bit_simps dest: bit_imp_le_length)
  have "n div 8 = i \<and> n mod 8 = n - i * 8" if "i * 8 \<le> n" "n < i * 8 + 8"
    using that by (simp add: div_nat_eqI modulo_nat_def mult.commute)
  moreover have "n div 8 - i = Suc (n div 8 - Suc i)" if "Suc i * 8 \<le> n"
  proof -
    from that have "Suc i \<le> n div 8" by (simp only: less_eq_div_iff_mult_less_eq zero_less_numeral)
    then show ?thesis by simp
  qed
  ultimately show ?case
    by (cases "n < i * 8 + 8") (auto simp: Cons.IH bit_or_iff head)
qed (auto simp: bit_simps)

lemma bit_written_byte:
  assumes "i < LENGTH('a) div 8"
  shows "bit (writeLittleEndian (v :: 'a::len word) ! i) n \<longleftrightarrow> n < 8 \<and> bit v (i * 8 + n)"
proof -
  have "(0xff :: 'a word) = mask 8" by (simp add: mask_eq_exp_minus_1)
  with assms have "writeLittleEndian v ! i = ucast (drop_bit (i * 8) v AND mask 8)"
    by (simp only: writeLittleEndian_def) simp
  then show ?thesis by (auto simp: bit_simps add.commute dest: bit_imp_le_length)
qed

lemma combine_write:
  assumes "8 dvd LENGTH('a::len)"
  shows "combine_bytes 0 (writeLittleEndian v) 0 = (v :: 'a word)"
proof (rule bit_word_eqI)
  fix n
  assume n: "n < LENGTH('a)"
  from assms have d: "n div 8 < LENGTH('a) div 8" using n
    by (auto elim!: dvdE simp: less_mult_imp_div_less mult.commute)
  moreover have "LENGTH('a) div 8 * 8 = LENGTH('a)" using assms by simp
  ultimately show "bit (combine_bytes 0 (writeLittleEndian v) 0 :: 'a word) n = bit v n"
    using n by (simp add: bit_combine_bytes bit_written_byte)
qed

lemma write_combine:
  assumes "length bs = LENGTH('a::len) div 8"
  shows "writeLittleEndian (combine_bytes 0 bs 0 :: 'a word) = bs"
proof (rule nth_equalityI)
  fix i
  assume "i < length (writeLittleEndian (combine_bytes 0 bs 0 :: 'a word))"
  then have i: "i < LENGTH('a) div 8" by simp
  show "writeLittleEndian (combine_bytes 0 bs 0 :: 'a word) ! i = bs ! i"
  proof (rule bit_word_eqI)
    fix n
    assume "n < LENGTH(8)"
    then have n: "n < 8" by simp
    have "Suc i * 8 \<le> LENGTH('a)" using i by (simp add: less_eq_div_iff_mult_less_eq Suc_leI)
    with n have "i * 8 + n < LENGTH('a)" by simp
    moreover have "i * 8 + n < LENGTH('a) div 8 * 8" using i n by (simp add: Suc_leI)
    moreover have "(i * 8 + n) div 8 = i" "(i * 8 + n) mod 8 = n" using n by simp_all
    ultimately show "bit (writeLittleEndian (combine_bytes 0 bs 0 :: 'a word) ! i) n = bit (bs ! i) n"
      using n assms by (simp add: bit_written_byte [OF i] bit_combine_bytes)
  qed
qed (simp add: assms)

section \<open>Round trips\<close>

text \<open>A codec: a writer and a reader of one kind of value, where the reader takes exactly what
  the writer wrote, and accepts nothing else.\<close>

locale codec =
  fixes wr :: "'v \<Rightarrow> byte list" and rd :: "(byte list, 'v) prog" and ok :: "'v \<Rightarrow> bool"
  assumes rd_wr: "ok v \<Longrightarrow> rd (wr v @ rest) = (Inr v, rest)"
    and wr_rd: "rd s = (Inr v, rest) \<Longrightarrow> s = wr v @ rest \<and> ok v"

lemma read_write:
  "8 dvd LENGTH('a::len) \<Longrightarrow> readLittleEndian (writeLittleEndian (v :: 'a word) @ rest) = (Inr v, rest)"
  by (simp add: readLittleEndian_def combine_write)

lemma write_read:
  assumes "readLittleEndian s = (Inr (v :: 'a::len word), rest)"
  shows "s = writeLittleEndian v @ rest"
proof -
  have len: "LENGTH('a) div 8 \<le> length s" and v: "v = combine_bytes 0 (take (LENGTH('a) div 8) s) 0"
    and r: "rest = drop (LENGTH('a) div 8) s"
    using assms by (auto simp: readLittleEndian_def split: if_splits)
  have "writeLittleEndian v = take (LENGTH('a) div 8) s" using len by (simp add: v write_combine)
  then show ?thesis by (simp add: r)
qed

interpretation le32: codec "writeLittleEndian :: u32 \<Rightarrow> byte list" readLittleEndian "\<lambda>_. True"
  by unfold_locales (auto simp: read_write dest: write_read)

interpretation le64: codec "writeLittleEndian :: u64 \<Rightarrow> byte list" readLittleEndian "\<lambda>_. True"
  by unfold_locales (auto simp: read_write dest: write_read)

section \<open>Sequences\<close>

text \<open>A counted sequence of values, one after the other.\<close>

primrec read_many :: "(byte list, 'v) prog \<Rightarrow> nat \<Rightarrow> (byte list, 'v list) prog" where
  "read_many rd 0 = ret []"
| "read_many rd (Suc n) = bindp rd (\<lambda>v. bindp (read_many rd n) (\<lambda>vs. ret (v # vs)))"

context codec
begin

lemma many_rd_wr:
  "list_all ok vs \<Longrightarrow> read_many rd (length vs) (concat (map wr vs) @ rest) = (Inr vs, rest)"
  by (induction vs) (simp_all add: rd_wr)

lemma many_wr_rd:
  "read_many rd n s = (Inr vs, rest) \<Longrightarrow>
     s = concat (map wr vs) @ rest \<and> length vs = n \<and> list_all ok vs"
proof (induction n arbitrary: s vs)
  case (Suc n)
  from Suc.prems obtain v t us where v: "rd s = (Inr v, t)" and us: "read_many rd n t = (Inr us, rest)"
    and vs: "vs = v # us"
    by (auto elim!: bindp_cases)
  from wr_rd [OF v] Suc.IH [OF us] vs show ?case by simp
qed simp

end

end
