(* ===== verification/Expert_Index.thy ===== *)
theory Expert_Index
  imports Byte_Codec Tensor_Shape
begin

text \<open>
  \<^verbatim>\<open>src/storage/ExpertIndex.cpp\<close>: the binary index of an expert store. A file is its list of
  bytes (\<open>None\<close> when it cannot be opened); \<open>file_size\<close> is the length of that list, and failures of
  \<open>file_size\<close> itself and of the write calls are not modelled. \<open>projection_type\<close> is the 32-bit
  code that a cast can put there. The sentinel \<open>std::numeric_limits<std::size_t>::max()\<close> of the
  projection table is \<open>None\<close>.
\<close>

section \<open>Records\<close>

datatype projection_type = Gate | Up | Down

fun projection_code :: "projection_type \<Rightarrow> u32" where
  "projection_code Gate = 0"
| "projection_code Up = 1"
| "projection_code Down = 2"

record projection_record =
  pr_layer_id :: u32
  pr_expert_id :: u32
  pr_projection_type :: u32
  pr_dtype :: u32
  pr_rank :: u32
  pr_reserved :: u32
  pr_offset :: u64
  pr_size :: u64
  pr_shape :: "u64 list"
  pr_checksum :: u32
  pr_trailing_reserved :: u32

record expert_index =
  ix_records :: "expert_record list"
  ix_projections :: "projection_record list"
  ix_lookup :: "u64 \<rightharpoonup> nat"
  ix_projectionLookup :: "u64 \<rightharpoonup> nat option list"

definition kMagic :: "byte list" where
  "kMagic = [0x48, 0x4D, 0x4F, 0x45, 0x49, 0x44, 0x58, 0]"

definition kEndianMarker :: u32 where "kEndianMarker = 0x01020304"
definition kHeaderSize :: u64 where "kHeaderSize = 32"
definition formatVersion :: u32 where "formatVersion = 2"
definition legacyFormatVersion :: u32 where "legacyFormatVersion = 1"
definition serializedRecordSize :: u64 where "serializedRecordSize = 32"
definition serializedProjectionRecordSize :: u64 where "serializedProjectionRecordSize = 80"

text \<open>\<open>std::numeric_limits<std::streamsize>::max()\<close>\<close>

definition streamsize_max :: u64 where "streamsize_max = 0x7fffffffffffffff"

section \<open>Lookup tables\<close>

definition add_record :: "nat \<times> expert_record \<Rightarrow> (u64 \<rightharpoonup> nat) \<Rightarrow> exn + (u64 \<rightharpoonup> nat)" where
  "add_record ir m = (case ir of (i, r) \<Rightarrow>
     if er_size r = 0 \<or> \<not> quantization_isValid (er_quantization_type r)
     then Inl (StorageError ''expert index contains an invalid size or quantization code'')
     else if er_offset r > u64_max - er_size r
     then Inl (StorageError ''expert index record range overflows'')
     else if m (key (er_layer_id r) (er_expert_id r)) \<noteq> None
     then Inl (StorageError ''expert index contains a duplicate layer/expert key'')
     else Inr (m(key (er_layer_id r) (er_expert_id r) \<mapsto> i)))"

definition find_in :: "expert_record list \<Rightarrow> (u64 \<rightharpoonup> nat) \<Rightarrow> layer_id \<Rightarrow> expert_id \<Rightarrow> expert_record option" where
  "find_in rs m l e = (case m (key l e) of None \<Rightarrow> None | Some i \<Rightarrow> Some (rs ! i))"

definition count_projection_dimension :: "u64 \<Rightarrow> u64 \<Rightarrow> exn + u64" where
  "count_projection_dimension d n =
     (if d = 0 then Inl (StorageError ''projection record contains a zero dimension'')
      else if n > u64_max div d then Inl (StorageError ''projection shape size overflows'')
      else Inr (n * d))"

definition check_projection_shape :: "projection_record \<Rightarrow> exn + unit" where
  "check_projection_shape p =
     bindr (foldr_until count_projection_dimension (take (unat (pr_rank p)) (pr_shape p)) 1) (\<lambda>n.
     if \<exists>d \<in> set (drop (unat (pr_rank p)) (pr_shape p)). d \<noteq> 0
     then Inl (StorageError ''projection has dimensions beyond its declared rank'')
     else if n > u64_max div sizeOf (pr_dtype p) \<or> n * sizeOf (pr_dtype p) \<noteq> pr_size p
     then Inl (StorageError ''projection shape and dtype do not match its size'')
     else Inr ())"

definition add_projection ::
  "expert_record list \<Rightarrow> (u64 \<rightharpoonup> nat) \<Rightarrow> nat \<times> projection_record \<Rightarrow> (u64 \<rightharpoonup> nat option list) \<Rightarrow>
   exn + (u64 \<rightharpoonup> nat option list)" where
  "add_projection rs m ip pm = (case ip of (i, p) \<Rightarrow>
     if pr_size p = 0 \<or> pr_rank p = 0 \<or> pr_rank p > 4 \<or> \<not> dtype_isValid (pr_dtype p) \<or>
        pr_reserved p \<noteq> 0 \<or> pr_trailing_reserved p \<noteq> 0 \<or>
        pr_projection_type p > projection_code Down
     then Inl (StorageError ''expert index contains an invalid projection record'')
     else (case find_in rs m (pr_layer_id p) (pr_expert_id p) of
       None \<Rightarrow> Inl (StorageError ''projection record escapes its expert payload'')
     | Some x \<Rightarrow>
         if pr_offset p < er_offset x \<or> pr_offset p > u64_max - pr_size p \<or>
            pr_offset p + pr_size p > er_offset x + er_size x
         then Inl (StorageError ''projection record escapes its expert payload'')
         else (let k = key (pr_layer_id p) (pr_expert_id p);
                   row = (case pm k of None \<Rightarrow> replicate 3 None | Some row \<Rightarrow> row);
                   t = unat (pr_projection_type p)
               in if row ! t \<noteq> None
                  then Inl (StorageError ''expert index contains a duplicate projection record'')
                  else bindr (check_projection_shape p) (\<lambda>_. Inr (pm(k \<mapsto> row[t := Some i]))))))"

definition rebuildLookup :: "expert_record list \<Rightarrow> projection_record list \<Rightarrow> exn + expert_index" where
  "rebuildLookup rs ps =
     bindr (foldr_until add_record (enumerate 0 rs) Map.empty) (\<lambda>m.
     bindr (foldr_until (add_projection rs m) (enumerate 0 ps) Map.empty) (\<lambda>pm.
     Inr \<lparr> ix_records = rs, ix_projections = ps, ix_lookup = m, ix_projectionLookup = pm \<rparr>))"

definition index_make :: "expert_record list \<Rightarrow> projection_record list \<Rightarrow> exn + expert_index" where
  "index_make = rebuildLookup"

definition ix_find :: "expert_index \<Rightarrow> layer_id \<Rightarrow> expert_id \<Rightarrow> expert_record option" where
  "ix_find ix l e = find_in (ix_records ix) (ix_lookup ix) l e"

definition ix_findProjection :: "expert_index \<Rightarrow> layer_id \<Rightarrow> expert_id \<Rightarrow> u32 \<Rightarrow> projection_record option" where
  "ix_findProjection ix l e t =
     (case ix_projectionLookup ix (key l e) of
        None \<Rightarrow> None
      | Some row \<Rightarrow>
          if unat t \<ge> length row then None
          else (case row ! unat t of None \<Rightarrow> None | Some i \<Rightarrow> Some (ix_projections ix ! i)))"

definition ix_size :: "expert_index \<Rightarrow> nat" where
  "ix_size ix = length (ix_records ix)"

section \<open>Saving\<close>

definition write_record :: "expert_record \<Rightarrow> byte list" where
  "write_record r = writeLittleEndian (er_layer_id r) @ writeLittleEndian (er_expert_id r) @
     writeLittleEndian (er_offset r) @ writeLittleEndian (er_size r) @
     writeLittleEndian (er_quantization_type r) @ writeLittleEndian (er_checksum r)"

definition write_projection :: "projection_record \<Rightarrow> byte list" where
  "write_projection p = writeLittleEndian (pr_layer_id p) @ writeLittleEndian (pr_expert_id p) @
     writeLittleEndian (pr_projection_type p) @ writeLittleEndian (pr_dtype p) @
     writeLittleEndian (pr_rank p) @ writeLittleEndian (pr_reserved p) @
     writeLittleEndian (pr_offset p) @ writeLittleEndian (pr_size p) @
     concat (map writeLittleEndian (pr_shape p)) @
     writeLittleEndian (pr_checksum p) @ writeLittleEndian (pr_trailing_reserved p)"

definition write_header :: "u32 \<Rightarrow> nat \<Rightarrow> byte list" where
  "write_header version n = kMagic @ writeLittleEndian version @ writeLittleEndian kEndianMarker @
     writeLittleEndian (ucast serializedRecordSize :: u32) @
     writeLittleEndian (if version = legacyFormatVersion then 0 else ucast serializedProjectionRecordSize :: u32) @
     writeLittleEndian (of_nat n :: u64)"

text \<open>The layout with a given version; \<open>save\<close> takes the legacy version when there are no
  projections.\<close>

definition encode :: "u32 \<Rightarrow> expert_record list \<Rightarrow> projection_record list \<Rightarrow> byte list" where
  "encode version rs ps = write_header version (length rs) @ concat (map write_record rs) @
     (if version = legacyFormatVersion then []
      else writeLittleEndian (of_nat (length ps) :: u64) @ concat (map write_projection ps))"

definition ix_save :: "expert_index \<Rightarrow> byte list" where
  "ix_save ix = encode (if ix_projections ix = [] then legacyFormatVersion else formatVersion)
     (ix_records ix) (ix_projections ix)"

section \<open>Loading\<close>

definition read_magic :: "(byte list, unit) prog" where
  "read_magic input =
     (if length input < 8 \<or> take 8 input \<noteq> kMagic
      then (Inl (StorageError ''invalid expert index magic''), drop 8 input)
      else (Inr (), drop 8 input))"

definition read_record :: "(byte list, expert_record) prog" where
  "read_record =
     bindp readLittleEndian (\<lambda>l. bindp readLittleEndian (\<lambda>e. bindp readLittleEndian (\<lambda>off.
     bindp readLittleEndian (\<lambda>sz. bindp readLittleEndian (\<lambda>q. bindp readLittleEndian (\<lambda>c.
     ret \<lparr> er_layer_id = l, er_expert_id = e, er_offset = off, er_size = sz,
           er_quantization_type = q, er_checksum = c \<rparr>))))))"

definition read_projection :: "(byte list, projection_record) prog" where
  "read_projection =
     bindp readLittleEndian (\<lambda>l. bindp readLittleEndian (\<lambda>e. bindp readLittleEndian (\<lambda>t.
     bindp readLittleEndian (\<lambda>d. bindp readLittleEndian (\<lambda>r. bindp readLittleEndian (\<lambda>z.
     bindp readLittleEndian (\<lambda>off. bindp readLittleEndian (\<lambda>sz.
     bindp (read_many readLittleEndian 4) (\<lambda>sh.
     bindp readLittleEndian (\<lambda>c. bindp readLittleEndian (\<lambda>tz.
     ret \<lparr> pr_layer_id = l, pr_expert_id = e, pr_projection_type = t, pr_dtype = d, pr_rank = r,
           pr_reserved = z, pr_offset = off, pr_size = sz, pr_shape = sh, pr_checksum = c,
           pr_trailing_reserved = tz \<rparr>)))))))))))"

text \<open>Lines 83 to 110: what the header must say; the result is the size of header and records.\<close>

definition check_header :: "u64 \<Rightarrow> u32 \<Rightarrow> u32 \<Rightarrow> u32 \<Rightarrow> u32 \<Rightarrow> u64 \<Rightarrow> (byte list, u64) prog" where
  "check_header fileSize version endian recordSize extensionSize count =
     thenp (require (version = legacyFormatVersion \<or> version = formatVersion)
              (StorageError ''unsupported expert index version''))
    (thenp (require (endian = kEndianMarker) (StorageError ''invalid expert index endian marker''))
    (thenp (require (\<not> (recordSize \<noteq> ucast serializedRecordSize \<or>
                        (version = legacyFormatVersion \<and> extensionSize \<noteq> 0) \<or>
                        (version = formatVersion \<and> extensionSize \<noteq> ucast serializedProjectionRecordSize)))
              (StorageError ''unsupported expert index record size''))
    (thenp (require (\<not> (count > streamsize_max div serializedRecordSize))
              (StorageError ''expert index record count is too large''))
    (thenp (require (\<not> (count > (u64_max - kHeaderSize) div serializedRecordSize))
              (StorageError ''expert index size does not match its record count''))
    (let baseSize = kHeaderSize + count * serializedRecordSize
     in thenp (require (\<not> (fileSize < baseSize \<or>
                           (version = legacyFormatVersion \<and> fileSize \<noteq> baseSize)))
                 (StorageError ''expert index size does not match its record count''))
          (ret baseSize))))))"

text \<open>Lines 122 to 158.\<close>

definition read_projections :: "u64 \<Rightarrow> u64 \<Rightarrow> u32 \<Rightarrow> (byte list, projection_record list) prog" where
  "read_projections fileSize baseSize version =
     (if version \<noteq> formatVersion then ret []
      else bindp readLittleEndian (\<lambda>count.
        thenp (require (\<not> (baseSize > u64_max - 8))
                 (StorageError ''expert projection index size is invalid''))
        (let projectionBase = baseSize + 8
         in thenp (require (\<not> (count > (u64_max - projectionBase) div serializedProjectionRecordSize \<or>
                               fileSize \<noteq> projectionBase + count * serializedProjectionRecordSize))
                     (StorageError ''expert projection index size is invalid''))
              (read_many read_projection (unat count)))))"

definition read_index :: "u64 \<Rightarrow> (byte list, expert_record list \<times> projection_record list) prog" where
  "read_index fileSize =
     thenp read_magic
    (bindp readLittleEndian (\<lambda>version. bindp readLittleEndian (\<lambda>endian.
     bindp readLittleEndian (\<lambda>recordSize. bindp readLittleEndian (\<lambda>extensionSize.
     bindp readLittleEndian (\<lambda>count.
     bindp (check_header fileSize version endian recordSize extensionSize count) (\<lambda>baseSize.
     bindp (read_many read_record (unat count)) (\<lambda>rs.
     bindp (read_projections fileSize baseSize version) (\<lambda>ps.
     bindp (gets (\<lambda>rest. rest)) (\<lambda>rest.
     thenp (require (rest = []) (StorageError ''expert index contains trailing data''))
       (ret (rs, ps))))))))))))"

definition ix_load :: "byte list option \<Rightarrow> exn + expert_index" where
  "ix_load file =
     (case file of
        None \<Rightarrow> Inl (StorageError ''cannot open expert index'')
      | Some bs \<Rightarrow> bindr (fst (read_index (of_nat (length bs)) bs)) (\<lambda>(rs, ps). index_make rs ps))"

section \<open>The codec\<close>

interpretation rec: codec write_record read_record "\<lambda>_. True"
proof
  fix v rest
  show "read_record (write_record v @ rest) = (Inr v, rest)"
    by (simp add: read_record_def write_record_def le32.rd_wr le64.rd_wr)
next
  fix s v rest
  assume "read_record s = (Inr v, rest)"
  then show "s = write_record v @ rest \<and> True"
    unfolding read_record_def
    by (auto elim!: bindp_cases dest!: le32.wr_rd le64.wr_rd simp: write_record_def)
qed

interpretation prj: codec write_projection read_projection "\<lambda>p. length (pr_shape p) = 4"
proof
  fix v :: projection_record and rest
  assume "length (pr_shape v) = 4"
  then have "read_many readLittleEndian 4 (concat (map writeLittleEndian (pr_shape v)) @ r) = (Inr (pr_shape v), r)" for r
    using le64.many_rd_wr [of "pr_shape v"] by (simp add: list_all_iff)
  then show "read_projection (write_projection v @ rest) = (Inr v, rest)"
    by (simp add: read_projection_def write_projection_def le32.rd_wr le64.rd_wr)
next
  fix s v rest
  assume "read_projection s = (Inr v, rest)"
  then show "s = write_projection v @ rest \<and> length (pr_shape v) = 4"
    unfolding read_projection_def
    by (auto elim!: bindp_cases dest!: le32.wr_rd le64.wr_rd le64.many_wr_rd simp: write_projection_def)
qed

lemma length_write_record [simp]: "length (write_record r) = 32"
  by (simp add: write_record_def)

lemma length_concat_const:
  "(\<And>x. x \<in> set xs \<Longrightarrow> length (f x) = n) \<Longrightarrow> length (concat (map f xs)) = n * length xs"
  by (induction xs) simp_all

lemma length_write_projection: "length (pr_shape p) = 4 \<Longrightarrow> length (write_projection p) = 80"
  by (simp add: write_projection_def length_concat_const [where n = 8])

lemma length_write_header [simp]: "length (write_header v n) = 32"
  by (simp add: write_header_def kMagic_def)

lemma length_encode:
  assumes "list_all (\<lambda>p. length (pr_shape p) = 4) ps"
  shows "length (encode v rs ps) =
         32 + 32 * length rs + (if v = legacyFormatVersion then 0 else 8 + 80 * length ps)"
  using assms
  by (simp add: encode_def length_concat_const [where n = 32] length_concat_const [where n = 80]
      length_write_projection list_all_iff)

lemmas index_consts = kEndianMarker_def kHeaderSize_def formatVersion_def legacyFormatVersion_def
  serializedRecordSize_def serializedProjectionRecordSize_def streamsize_max_def

lemma check_header_run:
  assumes "version = legacyFormatVersion \<or> version = formatVersion"
    and "32 + 32 * n \<le> sz" and "sz < 2 ^ 63"
    and "version = legacyFormatVersion \<longrightarrow> sz = 32 + 32 * n"
  shows "check_header (of_nat sz) version kEndianMarker (ucast serializedRecordSize)
           (if version = legacyFormatVersion then 0 else ucast serializedProjectionRecordSize) (of_nat n) s =
         (Inr (of_nat (32 + 32 * n)), s)"
proof -
  have n: "unat (of_nat n :: u64) = n" using assms(2,3) by (intro unat_of_nat_u64) simp
  have base: "kHeaderSize + of_nat n * serializedRecordSize = (of_nat (32 + 32 * n) :: u64)"
    by (simp add: index_consts mult.commute)
  have ub: "unat (of_nat (32 + 32 * n) :: u64) = 32 + 32 * n"
    using assms(2,3) by (intro unat_of_nat_u64) simp
  have us: "unat (of_nat sz :: u64) = sz" using assms(3) by (intro unat_of_nat_u64) simp
  have a: "\<not> (of_nat n > streamsize_max div serializedRecordSize)"
    using assms(2,3) n by (simp add: index_consts word_less_nat_alt unat_div)
  have b: "\<not> (of_nat n > (u64_max - kHeaderSize) div serializedRecordSize)"
  proof -
    have "(u64_max - kHeaderSize) div serializedRecordSize = 0x07fffffffffffffe"
      by (simp add: index_consts)
    then show ?thesis using assms(2,3) n by (simp add: word_less_nat_alt)
  qed
  have c: "\<not> ((of_nat sz :: u64) < of_nat (32 + 32 * n))"
    unfolding word_less_nat_alt us ub using assms(2) by simp
  show ?thesis using assms(1,4) a b c
    unfolding check_header_def base
    by (auto simp: Let_def formatVersion_def legacyFormatVersion_def)
qed

lemma read_projections_run:
  assumes "list_all (\<lambda>p. length (pr_shape p) = 4) ps"
    and "base + 8 + 80 * length ps < 2 ^ 63"
  shows "read_projections (of_nat (base + 8 + 80 * length ps)) (of_nat base) formatVersion
           (writeLittleEndian (of_nat (length ps) :: u64) @ concat (map write_projection ps) @ rest) =
         (Inr ps, rest)"
proof -
  let ?n = "length ps"
  have n: "unat (of_nat ?n :: u64) = ?n" using assms(2) by (intro unat_of_nat_u64) simp
  have b: "unat (of_nat base :: u64) = base" using assms(2) by (intro unat_of_nat_u64) simp
  have pb: "unat (of_nat base + 8 :: u64) = base + 8"
  proof -
    have "unat (of_nat (base + 8) :: u64) = base + 8" using assms(2) by (intro unat_of_nat_u64) simp
    then show ?thesis by simp
  qed
  have first: "\<not> ((of_nat base :: u64) > u64_max - 8)"
    unfolding word_less_nat_alt unat_u64_max_minus b using assms(2) by simp
  have second: "\<not> ((of_nat ?n :: u64) > (u64_max - (of_nat base + 8)) div serializedProjectionRecordSize)"
    unfolding word_less_nat_alt unat_div unat_u64_max_minus pb n
    using assms(2) by (simp add: serializedProjectionRecordSize_def less_eq_div_iff_mult_less_eq not_less)
  have total: "(of_nat (base + 8 + 80 * ?n) :: u64) =
      of_nat base + 8 + of_nat ?n * serializedProjectionRecordSize"
    by (simp add: serializedProjectionRecordSize_def mult.commute)
  from prj.many_rd_wr [OF assms(1)] first second total show ?thesis
    by (simp add: read_projections_def le64.rd_wr n Let_def)
qed

lemma read_index_encode:
  assumes "version = legacyFormatVersion \<or> version = formatVersion"
    and "version = legacyFormatVersion \<longrightarrow> ps = []"
    and "list_all (\<lambda>p. length (pr_shape p) = 4) ps"
    and "length (encode version rs ps) < 2 ^ 63"
  shows "read_index (of_nat (length (encode version rs ps))) (encode version rs ps) = (Inr (rs, ps), [])"
proof -
  define sz where "sz = length (encode version rs ps)"
  have sz: "sz = 32 + 32 * length rs + (if version = legacyFormatVersion then 0 else 8 + 80 * length ps)"
    unfolding sz_def by (rule length_encode [OF assms(3)])
  have n: "unat (of_nat (length rs) :: u64) = length rs"
    using assms(4) sz by (intro unat_of_nat_u64) (simp add: sz_def [symmetric])
  have magic: "read_magic (kMagic @ r) = (Inr (), r)" for r by (simp add: read_magic_def kMagic_def)
  have hd: "check_header (of_nat sz) version kEndianMarker (ucast serializedRecordSize)
      (if version = legacyFormatVersion then 0 else ucast serializedProjectionRecordSize)
      (of_nat (length rs)) s = (Inr (of_nat (32 + 32 * length rs)), s)" for s
    by (rule check_header_run [OF assms(1)]) (use assms(4) sz in \<open>auto simp: sz_def [symmetric]\<close>)
  have recs: "read_many read_record (length rs) (concat (map write_record rs) @ r) = (Inr rs, r)" for r
    by (rule rec.many_rd_wr) (simp add: list_all_iff)
  have pr: "read_projections (of_nat sz) (of_nat (32 + 32 * length rs)) version
      (if version = legacyFormatVersion then []
       else writeLittleEndian (of_nat (length ps) :: u64) @ concat (map write_projection ps)) = (Inr ps, [])"
  proof (cases "version = legacyFormatVersion")
    case True
    with assms(2) show ?thesis by (simp add: read_projections_def formatVersion_def legacyFormatVersion_def)
  next
    case False
    with assms(1) have v: "version = formatVersion" by simp
    from False sz have eq: "sz = 32 + 32 * length rs + 8 + 80 * length ps" by simp
    with assms(4) have lt: "32 + 32 * length rs + 8 + 80 * length ps < 2 ^ 63" by (simp add: sz_def)
    from read_projections_run [OF assms(3) lt, of "[]"] False v show ?thesis by (simp add: eq)
  qed
  define base where "base = (of_nat (32 + 32 * length rs) :: u64)"
  define tail where "tail = (if version = legacyFormatVersion then []
     else writeLittleEndian (of_nat (length ps) :: u64) @ concat (map write_projection ps))"
  note steps = hd [folded base_def] pr [folded base_def tail_def]
  show ?thesis
    unfolding sz_def [symmetric] read_index_def
    unfolding encode_def write_header_def append_assoc tail_def [symmetric]
    by (simp add: magic le32.rd_wr le64.rd_wr steps n recs)
qed

lemma index_make_fields:
  "index_make rs ps = Inr ix \<Longrightarrow> ix_records ix = rs \<and> ix_projections ix = ps"
  by (auto simp: index_make_def rebuildLookup_def bindr_eq_Inr)

lemma ix_load_save:
  assumes "index_make rs ps = Inr ix" and "list_all (\<lambda>p. length (pr_shape p) = 4) ps"
    and "length (ix_save ix) < 2 ^ 63"
  shows "ix_load (Some (ix_save ix)) = Inr ix"
proof -
  note f = index_make_fields [OF assms(1)]
  let ?v = "if ps = [] then legacyFormatVersion else formatVersion"
  have s: "ix_save ix = encode ?v rs ps" using f by (simp add: ix_save_def)
  have "read_index (of_nat (length (encode ?v rs ps))) (encode ?v rs ps) = (Inr (rs, ps), [])"
    by (rule read_index_encode)
      (use assms s in \<open>auto simp: formatVersion_def legacyFormatVersion_def\<close>)
  with assms(1) show ?thesis by (simp add: ix_load_def s)
qed

text \<open>C24: An index that a constructor accepted, saved and loaded again, is the same index, with
  the same lookup tables, for every file shorter than the stream limit.\<close>
theorem index_save_load:
  assumes "index_make rs ps = Inr ix" and "\<forall>p \<in> set ps. length (pr_shape p) = 4"
    and "length (ix_save ix) < 2 ^ 63"
  shows "ix_load (Some (ix_save ix)) = Inr ix"
  using assms by (intro ix_load_save) (auto simp: list_all_iff)

section \<open>What loading accepts\<close>

lemma read_magic_Inr: "read_magic s = (Inr u, r) \<Longrightarrow> s = kMagic @ r"
  by (auto simp: read_magic_def split: if_splits) (metis append_take_drop_id)

lemma check_header_Inr:
  assumes "check_header fileSize version endian recordSize extensionSize count s = (Inr base, r)"
  shows "r = s" and "version = legacyFormatVersion \<or> version = formatVersion" and "endian = kEndianMarker"
    and "recordSize = ucast serializedRecordSize"
    and "extensionSize = (if version = legacyFormatVersion then 0 else ucast serializedProjectionRecordSize)"
  using assms by (auto simp: check_header_def Let_def formatVersion_def legacyFormatVersion_def
      elim!: thenp_cases split: if_splits)

lemma read_projections_Inr:
  assumes "read_projections fileSize base version s = (Inr ps, r)"
  shows "version \<noteq> formatVersion \<and> ps = [] \<and> r = s \<or>
         version = formatVersion \<and>
         s = writeLittleEndian (of_nat (length ps) :: u64) @ concat (map write_projection ps) @ r"
proof (cases "version = formatVersion")
  case False
  with assms show ?thesis by (simp add: read_projections_def)
next
  case True
  with assms obtain count t where c: "readLittleEndian s = (Inr (count :: u64), t)"
    and ps: "read_many read_projection (unat count) t = (Inr ps, r)"
    by (auto simp: read_projections_def Let_def elim!: bindp_cases thenp_cases split: if_splits)
  from prj.many_wr_rd [OF ps] have "t = concat (map write_projection ps) @ r" "length ps = unat count"
    by simp_all
  with le64.wr_rd [OF c] True show ?thesis by simp
qed

lemma read_index_Inr:
  assumes "read_index fileSize s = (Inr (rs, ps), r)"
  shows "\<exists>version. (version = legacyFormatVersion \<or> version = formatVersion) \<and>
           (version = legacyFormatVersion \<longrightarrow> ps = []) \<and> s = encode version rs ps"
proof -
  from assms obtain s1 version s2 endian s3 recordSize s4 extensionSize s5 count s6 base s7 s8 u
    where m: "read_magic s = (Inr u, s1)"
      and h: "readLittleEndian s1 = (Inr version, s2)" "readLittleEndian s2 = (Inr endian, s3)"
        "readLittleEndian s3 = (Inr recordSize, s4)" "readLittleEndian s4 = (Inr extensionSize, s5)"
        "readLittleEndian s5 = (Inr count, s6)"
      and c: "check_header fileSize version endian recordSize extensionSize count s6 = (Inr base, s7)"
      and rs: "read_many read_record (unat count) s7 = (Inr rs, s8)"
      and ps: "read_projections fileSize base version s8 = (Inr ps, [])"
    unfolding read_index_def
    by (elim bindp_cases thenp_cases) (simp_all split: if_splits)
  note ck = check_header_Inr [OF c]
  from rec.many_wr_rd [OF rs] have r8: "s7 = concat (map write_record rs) @ s8" and n: "length rs = unat count"
    by simp_all
  have s: "s = write_header version (length rs) @ s7"
    using read_magic_Inr [OF m] le32.wr_rd [OF h(1)] le32.wr_rd [OF h(2)] le32.wr_rd [OF h(3)]
      le32.wr_rd [OF h(4)] le64.wr_rd [OF h(5)] ck n
    by (simp add: write_header_def)
  from read_projections_Inr [OF ps] show ?thesis
  proof
    assume "version \<noteq> formatVersion \<and> ps = [] \<and> [] = s8"
    with s r8 ck(2) show ?thesis
      by (intro exI [of _ version]) (auto simp: encode_def)
  next
    assume "version = formatVersion \<and>
      s8 = writeLittleEndian (of_nat (length ps) :: u64) @ concat (map write_projection ps) @ []"
    with s r8 show ?thesis
      by (intro exI [of _ version]) (auto simp: encode_def formatVersion_def legacyFormatVersion_def)
  qed
qed

text \<open>Loading accepts nothing but canonical files: the bytes of an accepted file are the
  encoding of the records and projections it returned, in the legacy layout (then without
  projections) or in the current one. So no two accepted files of the same version decode to
  the same index, and no byte of an accepted file is ignored.\<close>
theorem load_accepts_canonical:
  assumes "ix_load (Some bs) = Inr ix"
  shows "\<exists>version. (version = legacyFormatVersion \<or> version = formatVersion) \<and>
           (version = legacyFormatVersion \<longrightarrow> ix_projections ix = []) \<and>
           bs = encode version (ix_records ix) (ix_projections ix)"
proof -
  from assms obtain rs ps where r: "fst (read_index (of_nat (length bs)) bs) = Inr (rs, ps)"
    and ix: "index_make rs ps = Inr ix"
    by (auto simp: ix_load_def bindr_eq_Inr)
  then obtain t where "read_index (of_nat (length bs)) bs = (Inr (rs, ps), t)"
    by (cases "read_index (of_nat (length bs)) bs") simp
  from read_index_Inr [OF this] show ?thesis by (simp only: index_make_fields [OF ix])
qed

section \<open>Lookups\<close>

lemma add_record_Inr:
  assumes "add_record (i, r) m = Inr m'"
  shows "m' = m(key (er_layer_id r) (er_expert_id r) \<mapsto> i)" and "m (key (er_layer_id r) (er_expert_id r)) = None"
    and "er_size r \<noteq> 0" and "quantization_isValid (er_quantization_type r)"
    and "er_offset r \<le> u64_max - er_size r"
  using assms by (auto simp: add_record_def not_less split: if_splits)

text \<open>A table that leads every key to the position of the one element with that key.\<close>

definition indexes :: "('x \<Rightarrow> 'k) \<Rightarrow> 'x list \<Rightarrow> ('k \<rightharpoonup> nat) \<Rightarrow> bool" where
  "indexes f xs m \<longleftrightarrow> (\<forall>k i. m k = Some i \<longleftrightarrow> i < length xs \<and> f (xs ! i) = k)"

lemma indexes_empty: "indexes f [] Map.empty"
  by (simp add: indexes_def)

lemma indexes_snoc:
  assumes "indexes f xs m" and "m (f x) = None"
  shows "indexes f (xs @ [x]) (m(f x \<mapsto> length xs))"
proof -
  have other: "f (xs ! i) \<noteq> f x" if "i < length xs" for i
    using assms that by (metis option.distinct(1) indexes_def)
  show ?thesis unfolding indexes_def
  proof (intro allI)
    fix k i
    have old: "m k = Some i \<longleftrightarrow> i < length xs \<and> f (xs ! i) = k"
      using assms(1) by (simp only: indexes_def)
    consider "i < length xs" | "i = length xs" | "length xs < i" by linarith
    then show "(m(f x \<mapsto> length xs)) k = Some i \<longleftrightarrow> i < length (xs @ [x]) \<and> f ((xs @ [x]) ! i) = k"
      by cases (use old other in \<open>auto simp: nth_append\<close>)
  qed
qed

lemma indexes_lookup:
  assumes "indexes f xs m"
  shows "(\<exists>i. m k = Some i \<and> xs ! i = x) \<longleftrightarrow> x \<in> set xs \<and> f x = k"
  using assms by (auto simp: indexes_def in_set_conv_nth)

abbreviation record_key :: "expert_record \<Rightarrow> u64" where
  "record_key r \<equiv> key (er_layer_id r) (er_expert_id r)"

lemma foldr_add_record:
  assumes "foldr_until add_record (enumerate n rs) m = Inr m'" and "indexes record_key pre m" and "n = length pre"
    and "\<forall>r \<in> set pre. P r"
    and "\<And>r. er_size r \<noteq> 0 \<Longrightarrow> quantization_isValid (er_quantization_type r) \<Longrightarrow>
           er_offset r \<le> u64_max - er_size r \<Longrightarrow> P r"
  shows "indexes record_key (pre @ rs) m' \<and> (\<forall>r \<in> set (pre @ rs). P r)"
  using assms(1-4)
proof (induction rs arbitrary: n pre m)
  case (Cons r rs)
  from Cons.prems(1) obtain m1 where a: "add_record (n, r) m = Inr m1"
    and rest: "foldr_until add_record (enumerate (Suc n) rs) m1 = Inr m'"
    by (auto simp: bindr_eq_Inr)
  note r = add_record_Inr [OF a]
  from indexes_snoc [OF Cons.prems(2) r(2)] have t: "indexes record_key (pre @ [r]) m1"
    using Cons.prems(3) r(1) by simp
  have p: "\<forall>x \<in> set (pre @ [r]). P x" using Cons.prems(4) assms(5) [OF r(3-5)] by auto
  from Cons.IH [OF rest t _ p] Cons.prems(3) show ?case by simp
qed simp

definition record_ok :: "expert_record \<Rightarrow> bool" where
  "record_ok r \<longleftrightarrow> er_size r \<noteq> 0 \<and> quantization_isValid (er_quantization_type r) \<and>
     unat (er_offset r) + unat (er_size r) < 2 ^ 64"

lemma record_okI:
  assumes "er_size r \<noteq> 0" and "quantization_isValid (er_quantization_type r)"
    and "er_offset r \<le> u64_max - er_size r"
  shows "record_ok r"
proof -
  have "unat (er_offset r) \<le> 2 ^ 64 - 1 - unat (er_size r)"
    using assms(3) by (simp only: word_le_nat_alt unat_u64_max_minus)
  moreover have "unat (er_size r) < 2 ^ 64" using unsigned_less [of "er_size r"] by simp
  ultimately show ?thesis using assms(1,2) by (simp add: record_ok_def)
qed

lemma index_make_records:
  assumes "index_make rs ps = Inr ix"
  shows "indexes record_key (ix_records ix) (ix_lookup ix)" and "\<forall>r \<in> set (ix_records ix). record_ok r"
proof -
  from assms have "foldr_until add_record (enumerate 0 rs) Map.empty = Inr (ix_lookup ix)"
    and rs: "ix_records ix = rs"
    by (auto simp: index_make_def rebuildLookup_def bindr_eq_Inr)
  from foldr_add_record [OF this(1), of "[]" record_ok] record_okI rs
  show "indexes record_key (ix_records ix) (ix_lookup ix)" "\<forall>r \<in> set (ix_records ix). record_ok r"
    by (simp_all add: indexes_empty)
qed

lemma find_in_iff:
  assumes "indexes record_key rs m"
  shows "find_in rs m l e = Some r \<longleftrightarrow> r \<in> set rs \<and> er_layer_id r = l \<and> er_expert_id r = e"
proof -
  have "find_in rs m l e = Some r \<longleftrightarrow> (\<exists>i. m (key l e) = Some i \<and> rs ! i = r)"
    by (auto simp: find_in_def split: option.splits)
  also have "\<dots> \<longleftrightarrow> r \<in> set rs \<and> er_layer_id r = l \<and> er_expert_id r = e"
    by (simp add: indexes_lookup [OF assms])
  finally show ?thesis .
qed

text \<open>In an index that was accepted, by a constructor or from a file, \<open>find\<close> is exactly
  membership by layer and expert id: it returns the one record with those ids and nothing when
  there is none. Every record has a nonzero size, a known quantization code and a byte range
  that does not wrap.\<close>
theorem find_is_membership:
  assumes "index_make rs ps = Inr ix \<or> ix_load file = Inr ix"
  shows "(ix_find ix l e = Some r \<longleftrightarrow>
            r \<in> set (ix_records ix) \<and> er_layer_id r = l \<and> er_expert_id r = e) \<and>
         (r \<in> set (ix_records ix) \<longrightarrow> er_size r \<noteq> 0 \<and>
            quantization_isValid (er_quantization_type r) \<and>
            unat (er_offset r) + unat (er_size r) < 2 ^ 64)"
proof -
  obtain rs' ps' where ix: "index_make rs' ps' = Inr ix"
    using assms by (auto simp: ix_load_def bindr_eq_Inr split: option.splits)
  note t = index_make_records [OF ix]
  from find_in_iff [OF t(1)] t(2) show ?thesis unfolding ix_find_def record_ok_def by blast
qed

section \<open>Projections\<close>

lemma count_projection_dimension_Inr:
  "count_projection_dimension d n = Inr m \<Longrightarrow> unat m = unat n * unat d"
  by (auto simp: count_projection_dimension_def not_less unat_mult_within split: if_splits)

lemma foldr_projection_count:
  "foldr_until count_projection_dimension ds n = Inr m \<Longrightarrow> unat m = unat n * product ds"
proof (induction ds arbitrary: n)
  case (Cons d ds)
  from Cons.prems obtain k where k: "count_projection_dimension d n = Inr k"
    and rest: "foldr_until count_projection_dimension ds k = Inr m" by (auto simp: bindr_eq_Inr)
  from count_projection_dimension_Inr [OF k] Cons.IH [OF rest] show ?case by simp
qed simp

text \<open>What an accepted projection says: it lies inside the payload of its expert, and its shape
  and element type account for its bytes exactly.\<close>

definition projection_ok :: "expert_record list \<Rightarrow> projection_record \<Rightarrow> bool" where
  "projection_ok rs p \<longleftrightarrow>
     (\<exists>x \<in> set rs. er_layer_id x = pr_layer_id p \<and> er_expert_id x = pr_expert_id p \<and>
        unat (er_offset x) \<le> unat (pr_offset p) \<and>
        unat (pr_offset p) + unat (pr_size p) \<le> unat (er_offset x) + unat (er_size x)) \<and>
     pr_size p \<noteq> 0 \<and> unat (pr_rank p) \<in> {1..4} \<and> unat (pr_projection_type p) < 3 \<and>
     unat (pr_size p) = product (take (unat (pr_rank p)) (pr_shape p)) * unat (sizeOf (pr_dtype p))"

lemma check_projection_shape_Inr:
  assumes "check_projection_shape p = Inr u" and "dtype_isValid (pr_dtype p)"
  shows "unat (pr_size p) = product (take (unat (pr_rank p)) (pr_shape p)) * unat (sizeOf (pr_dtype p))"
proof -
  from assms(1) obtain n where
    n: "foldr_until count_projection_dimension (take (unat (pr_rank p)) (pr_shape p)) 1 = Inr n"
    and le: "n \<le> u64_max div sizeOf (pr_dtype p)" and eq: "n * sizeOf (pr_dtype p) = pr_size p"
    by (auto simp: check_projection_shape_def bindr_eq_Inr not_less split: if_splits)
  have "unat (pr_size p) = unat n * unat (sizeOf (pr_dtype p))"
    unfolding eq [symmetric] by (rule unat_mult_within [OF _ le]) (simp add: assms(2))
  with foldr_projection_count [OF n] show ?thesis by simp
qed

abbreviation slot :: "(u64 \<rightharpoonup> nat option list) \<Rightarrow> u64 \<times> nat \<Rightarrow> nat option" where
  "slot pm kt \<equiv> (case pm (fst kt) of None \<Rightarrow> None
     | Some row \<Rightarrow> if snd kt < length row then row ! snd kt else None)"

abbreviation projection_key :: "projection_record \<Rightarrow> u64 \<times> nat" where
  "projection_key p \<equiv> (key (pr_layer_id p) (pr_expert_id p), unat (pr_projection_type p))"

definition rows_of_three :: "(u64 \<rightharpoonup> nat option list) \<Rightarrow> bool" where
  "rows_of_three pm \<longleftrightarrow> (\<forall>row \<in> ran pm. length row = 3)"

lemma add_projection_Inr:
  assumes a: "add_projection rs m (i, p) pm = Inr pm'" and t: "indexes record_key rs m"
    and ok: "\<forall>r \<in> set rs. record_ok r" and rows: "rows_of_three pm"
  shows "projection_ok rs p" and "slot pm (projection_key p) = None"
    and "slot pm' = (slot pm)(projection_key p \<mapsto> i)" and "rows_of_three pm'"
proof -
  let ?k = "key (pr_layer_id p) (pr_expert_id p)" and ?t = "unat (pr_projection_type p)"
  define row where "row = (case pm ?k of None \<Rightarrow> replicate 3 None | Some row \<Rightarrow> row)"
  from a have basic: "pr_size p \<noteq> 0" "pr_rank p \<noteq> 0" "pr_rank p \<le> 4" "dtype_isValid (pr_dtype p)"
      "pr_projection_type p \<le> projection_code Down"
    by (auto simp: add_projection_def not_less split: if_splits)
  from a obtain x where x: "find_in rs m (pr_layer_id p) (pr_expert_id p) = Some x"
    and r: "er_offset x \<le> pr_offset p" "pr_offset p \<le> u64_max - pr_size p"
      "pr_offset p + pr_size p \<le> er_offset x + er_size x"
    and free: "row ! ?t = None" and chk: "check_projection_shape p = Inr ()"
    and pm': "pm' = pm(?k \<mapsto> row[?t := Some i])"
    by (auto simp: add_projection_def row_def [symmetric] bindr_eq_Inr Let_def not_less
        split: if_splits option.splits)
  have t3: "?t < 3" using basic(5) by (simp add: word_le_nat_alt)
  have len: "length row = 3" using rows by (auto simp: row_def rows_of_three_def ran_def split: option.splits)
  from x find_in_iff [OF t] have xs: "x \<in> set rs" "er_layer_id x = pr_layer_id p"
    "er_expert_id x = pr_expert_id p" by simp_all
  have "unat (pr_offset p + pr_size p) = unat (pr_offset p) + unat (pr_size p)"
    using unat_add_within(1) [of "pr_size p" u64_max "pr_offset p"] r(2) by (simp add: add.commute)
  moreover have "unat (er_offset x + er_size x) = unat (er_offset x) + unat (er_size x)"
    using ok xs(1) by (intro unat_add_lem [THEN iffD1]) (auto simp: record_ok_def)
  ultimately have "unat (pr_offset p) + unat (pr_size p) \<le> unat (er_offset x) + unat (er_size x)"
    using r(3) by (simp add: word_le_nat_alt)
  moreover have "unat (pr_rank p) \<in> {1..4}"
    using basic(2,3) by (simp add: word_le_nat_alt unat_gt_0 Suc_le_eq)
  ultimately show "projection_ok rs p"
    using xs r(1) basic t3 check_projection_shape_Inr [OF chk basic(4)]
    unfolding projection_ok_def word_le_nat_alt by blast
  show "slot pm (projection_key p) = None"
    using free by (auto simp: row_def split: option.splits)
  show "rows_of_three pm'" using rows len by (auto simp: rows_of_three_def pm' ran_def)
  show "slot pm' = (slot pm)(projection_key p \<mapsto> i)"
  proof
    fix kt
    show "slot pm' kt = ((slot pm)(projection_key p \<mapsto> i)) kt"
    proof (cases "fst kt = ?k")
      case True
      have "slot pm kt = (if snd kt < 3 then row ! snd kt else None)"
        using True len by (auto simp: row_def nth_Cons' split: option.splits)
      moreover have "kt = projection_key p \<longleftrightarrow> snd kt = ?t" using True by (cases kt) auto
      ultimately show ?thesis using True t3 len by (auto simp: pm' nth_list_update)
    next
      case False
      then show ?thesis by (cases kt) (auto simp: pm')
    qed
  qed
qed

lemma foldr_add_projection:
  assumes "foldr_until (add_projection rs m) (enumerate n ps) pm = Inr pm'"
    and "indexes record_key rs m" and "\<forall>r \<in> set rs. record_ok r"
    and "indexes projection_key pre (slot pm)" and "n = length pre" and "rows_of_three pm"
    and "\<forall>p \<in> set pre. projection_ok rs p"
  shows "indexes projection_key (pre @ ps) (slot pm') \<and> (\<forall>p \<in> set (pre @ ps). projection_ok rs p) \<and>
         rows_of_three pm'"
  using assms(1,4-7)
proof (induction ps arbitrary: n pre pm)
  case (Cons p ps)
  from Cons.prems(1) obtain pm1 where a: "add_projection rs m (n, p) pm = Inr pm1"
    and rest: "foldr_until (add_projection rs m) (enumerate (Suc n) ps) pm1 = Inr pm'"
    by (auto simp: bindr_eq_Inr)
  note p = add_projection_Inr [OF a assms(2,3) Cons.prems(4)]
  from indexes_snoc [OF Cons.prems(2) p(2)] have t: "indexes projection_key (pre @ [p]) (slot pm1)"
    by (simp only: p(3) Cons.prems(3))
  have q: "\<forall>x \<in> set (pre @ [p]). projection_ok rs x" using Cons.prems(5) p(1) by auto
  from Cons.IH [OF rest t _ p(4) q] Cons.prems(3) show ?case by simp
qed simp

lemma index_make_projections:
  assumes "index_make rs ps = Inr ix"
  shows "indexes projection_key (ix_projections ix) (slot (ix_projectionLookup ix))"
    and "\<forall>p \<in> set (ix_projections ix). projection_ok (ix_records ix) p"
proof -
  note f = index_make_fields [OF assms] and t = index_make_records [OF assms]
  from assms have "foldr_until (add_projection rs (ix_lookup ix)) (enumerate 0 ps) Map.empty =
      Inr (ix_projectionLookup ix)"
    by (auto simp: index_make_def rebuildLookup_def bindr_eq_Inr)
  then have "foldr_until (add_projection (ix_records ix) (ix_lookup ix)) (enumerate 0 ps) Map.empty =
      Inr (ix_projectionLookup ix)" by (simp only: f)
  from foldr_add_projection [OF this t, of "[]"] f
  show "indexes projection_key (ix_projections ix) (slot (ix_projectionLookup ix))"
    "\<forall>p \<in> set (ix_projections ix). projection_ok (ix_records ix) p"
    by (simp_all add: indexes_empty rows_of_three_def)
qed

lemma ix_findProjection_slot:
  "ix_findProjection ix l e t = map_option (nth (ix_projections ix)) (slot (ix_projectionLookup ix) (key l e, unat t))"
  by (auto simp: ix_findProjection_def split: option.splits)

text \<open>In an accepted index \<open>findProjection\<close> returns the one projection record with that
  layer, expert and type. Its bytes lie inside the payload of that expert, and their number is
  exactly the product of its dimensions times the size of its element type.\<close>
theorem find_projection_in_payload:
  assumes "index_make rs ps = Inr ix \<or> ix_load file = Inr ix"
  shows "(ix_findProjection ix l e t = Some p \<longleftrightarrow> p \<in> set (ix_projections ix) \<and>
            pr_layer_id p = l \<and> pr_expert_id p = e \<and> pr_projection_type p = t) \<and>
         (ix_findProjection ix l e t = Some p \<longrightarrow> (\<exists>x. ix_find ix l e = Some x \<and>
            unat (er_offset x) \<le> unat (pr_offset p) \<and>
            unat (pr_offset p) + unat (pr_size p) \<le> unat (er_offset x) + unat (er_size x) \<and>
            unat (pr_size p) = prod_list (map unat (take (unat (pr_rank p)) (pr_shape p))) *
                               unat (sizeOf (pr_dtype p))))"
proof -
  obtain rs' ps' where ix: "index_make rs' ps' = Inr ix"
    using assms by (auto simp: ix_load_def bindr_eq_Inr split: option.splits)
  note p = index_make_projections [OF ix]
  have "ix_findProjection ix l e t = Some p \<longleftrightarrow>
      (\<exists>i. slot (ix_projectionLookup ix) (key l e, unat t) = Some i \<and> ix_projections ix ! i = p)"
    unfolding ix_findProjection_slot map_option_eq_Some by blast
  also have "\<dots> \<longleftrightarrow> p \<in> set (ix_projections ix) \<and> projection_key p = (key l e, unat t)"
    by (rule indexes_lookup [OF p(1)])
  finally have iff: "ix_findProjection ix l e t = Some p \<longleftrightarrow> p \<in> set (ix_projections ix) \<and>
           pr_layer_id p = l \<and> pr_expert_id p = e \<and> pr_projection_type p = t"
    by (simp add: word_unat_eq_iff [of "pr_projection_type p"])
  moreover from p(2) have "projection_ok (ix_records ix) p" if "p \<in> set (ix_projections ix)"
    using that by simp
  ultimately show ?thesis using find_in_iff [OF index_make_records(1) [OF ix]]
    unfolding projection_ok_def product_def ix_find_def by blast
qed

section \<open>An index with one expert and one projection\<close>

definition record_example :: expert_record where
  "record_example = \<lparr> er_layer_id = 1, er_expert_id = 2, er_offset = 4096, er_size = 16,
     er_quantization_type = 0, er_checksum = 77 \<rparr>"

definition projection_example :: projection_record where
  "projection_example = \<lparr> pr_layer_id = 1, pr_expert_id = 2, pr_projection_type = 1, pr_dtype = 0,
     pr_rank = 2, pr_reserved = 0, pr_offset = 4096, pr_size = 16, pr_shape = [2, 2, 0, 0],
     pr_checksum = 5, pr_trailing_reserved = 0 \<rparr>"

definition index_example :: expert_index where
  "index_example = \<lparr> ix_records = [record_example], ix_projections = [projection_example],
     ix_lookup = [key 1 2 \<mapsto> 0], ix_projectionLookup = [key 1 2 \<mapsto> [None, Some 0, None]] \<rparr>"

lemma index_example_make: "index_make [record_example] [projection_example] = Inr index_example"
proof -
  have r: "add_record (0, record_example) Map.empty = Inr [key 1 2 \<mapsto> 0]"
    by (simp add: add_record_def record_example_def quantization_isValid_def)
  have p: "check_projection_shape projection_example = Inr ()"
    by (simp add: check_projection_shape_def projection_example_def count_projection_dimension_def
        sizeOf_def dtype_of_def)
  have "add_projection [record_example] [key 1 2 \<mapsto> 0] (0, projection_example) Map.empty =
      Inr [key 1 2 \<mapsto> [None, Some 0, None]]"
    using p by (simp add: add_projection_def find_in_def projection_example_def record_example_def
        dtype_isValid_def dtype_of_def numeral_3_eq_3)
  with r show ?thesis by (simp add: index_make_def rebuildLookup_def index_example_def)
qed

theorem index_save_load_witness:
  "index_make [record_example] [projection_example] = Inr index_example \<and>
   length (ix_save index_example) = 152 \<and> ix_load (Some (ix_save index_example)) = Inr index_example"
proof -
  have four: "\<forall>p \<in> set [projection_example]. length (pr_shape p) = 4"
    by (simp add: projection_example_def)
  have len: "length (ix_save index_example) = 152"
    unfolding ix_save_def
    by (subst length_encode) (simp_all add: index_example_def projection_example_def index_consts)
  then have "length (ix_save index_example) < 2 ^ 63" by simp
  from index_save_load [OF index_example_make four this] len index_example_make show ?thesis by simp
qed

end
