(* ===== verification/Expert_Store.thy ===== *)
theory Expert_Store
  imports Expert_Index
begin

text \<open>
  \<^verbatim>\<open>src/storage/ExpertStore.cpp\<close>, \<^verbatim>\<open>src/storage/DiskLoader.cpp\<close> and the range arithmetic of
  \<^verbatim>\<open>src/storage/MappedFile.cpp\<close>. A model directory maps file names to contents. The operating
  system is assumed to open, read, write and map what exists: its failures are not modelled,
  every check the code makes itself is. A write stream appends to its file as the code goes,
  so an exception leaves the bytes written so far.
\<close>

text \<open>The \<open>char\<close> values of a text as bytes, and back.\<close>

definition to_bytes :: "string \<Rightarrow> byte list" where
  "to_bytes s = map (\<lambda>c. of_nat (of_char c)) s"

definition to_text :: "byte list \<Rightarrow> string" where
  "to_text bs = map (\<lambda>b. char_of (unat b)) bs"

type_synonym model_dir = "string \<rightharpoonup> byte list"

section \<open>Mapped files\<close>

record mapped_file =
  mf_data :: "byte list option"

definition mf_closed :: mapped_file where
  "mf_closed = \<lparr> mf_data = None \<rparr>"

definition mf_isOpen :: "mapped_file \<Rightarrow> bool" where
  "mf_isOpen m \<longleftrightarrow> mf_data m \<noteq> None"

definition mf_size :: "mapped_file \<Rightarrow> u64" where
  "mf_size m = (case mf_data m of None \<Rightarrow> 0 | Some bs \<Rightarrow> of_nat (length bs))"

definition mf_bytes :: "mapped_file \<Rightarrow> byte list" where
  "mf_bytes m = (case mf_data m of None \<Rightarrow> [] | Some bs \<Rightarrow> bs)"

definition mf_open :: "byte list option \<Rightarrow> (mapped_file, unit) prog" where
  "mf_open file =
     bindp (gets mf_isOpen) (\<lambda>opened.
     thenp (require (\<not> opened) (StorageError ''mapped file is already open''))
     (case file of
        None \<Rightarrow> raise (StorageError ''cannot open mapped file'')
      | Some bs \<Rightarrow>
          thenp (require (bs \<noteq> []) (StorageError ''invalid mapped file size''))
                (modify (mf_data_update (\<lambda>_. Some bs)))))"

definition mf_close :: "mapped_file \<Rightarrow> mapped_file" where
  "mf_close m = m\<lparr> mf_data := None \<rparr>"

definition mf_view :: "mapped_file \<Rightarrow> u64 \<Rightarrow> u64 \<Rightarrow> exn + byte list" where
  "mf_view m off len =
     (if \<not> mf_isOpen m then Inl (StorageError ''mapped file is not open'')
      else if off > mf_size m \<or> len > mf_size m - off
      then Inl (StorageError ''mapped file range is out of bounds'')
      else Inr (take (unat len) (drop (unat off) (mf_bytes m))))"

section \<open>Checksums and alignment\<close>

definition crc_bit :: "u32 \<Rightarrow> u32" where
  "crc_bit c = drop_bit 1 c XOR (0xedb88320 AND (0 - (c AND 1)))"

definition crc_byte :: "u32 \<Rightarrow> byte \<Rightarrow> u32" where
  "crc_byte c b = (crc_bit ^^ 8) (c XOR ucast b)"

definition crc32 :: "byte list \<Rightarrow> u32" where
  "crc32 bs = NOT (foldl crc_byte 0xffffffff bs)"

definition kAlignment :: u64 where "kAlignment = 4096"

definition alignUp :: "u64 \<Rightarrow> exn + u64" where
  "alignUp v =
     (if v > u64_max - (kAlignment - 1) then Inl (StorageError ''expert data offset overflow'')
      else Inr ((v + kAlignment - 1) AND NOT (kAlignment - 1)))"

section \<open>Creating a store\<close>

record expert_blob =
  eb_layerId :: u32
  eb_expertId :: u32
  eb_quantizationType :: u32
  eb_data :: "byte list"

definition append_file :: "string \<Rightarrow> byte list \<Rightarrow> (model_dir, unit) prog" where
  "append_file f bs = modify (\<lambda>d. d(f \<mapsto> (case d f of None \<Rightarrow> [] | Some old \<Rightarrow> old) @ bs))"

definition blob_record :: "expert_blob \<Rightarrow> u64 \<Rightarrow> expert_record" where
  "blob_record b off = \<lparr> er_layer_id = eb_layerId b, er_expert_id = eb_expertId b, er_offset = off,
     er_size = of_nat (length (eb_data b)), er_quantization_type = eb_quantizationType b,
     er_checksum = crc32 (eb_data b) \<rparr>"

fun write_blobs :: "expert_blob list \<Rightarrow> u64 \<Rightarrow> expert_record list \<Rightarrow> (model_dir, expert_record list) prog" where
  "write_blobs [] cursor rs = ret rs"
| "write_blobs (b # bs) cursor rs =
     thenp (require (eb_data b \<noteq> []) (StorageError ''cannot store an empty expert''))
     (case alignUp cursor of
        Inl e \<Rightarrow> raise e
      | Inr off \<Rightarrow>
          thenp (append_file ''experts.bin'' (replicate (unat (off - cursor)) 0))
         (thenp (require (\<not> (length (eb_data b) > unat streamsize_max))
                   (StorageError ''expert is too large for stream I/O''))
         (thenp (append_file ''experts.bin'' (eb_data b))
            (write_blobs bs (off + of_nat (length (eb_data b))) (rs @ [blob_record b off])))))"

definition st_create :: "expert_blob list \<Rightarrow> string \<Rightarrow> (model_dir, unit) prog" where
  "st_create blobs metadata =
     thenp (require (blobs \<noteq> []) (StorageError ''cannot create an expert store without experts''))
    (thenp (require (metadata \<noteq> []) (StorageError ''metadata JSON must not be empty''))
    (bindp (gets (\<lambda>d. d ''experts.bin'' \<noteq> None \<or> d ''experts.index'' \<noteq> None \<or> d ''metadata.json'' \<noteq> None)) (\<lambda>present.
     thenp (require (\<not> present) (StorageError ''refusing to overwrite an existing expert store''))
    (thenp (modify (\<lambda>d. d(''experts.bin'' \<mapsto> [])))
    (bindp (write_blobs blobs 0 []) (\<lambda>rs.
     case index_make rs [] of
       Inl e \<Rightarrow> raise e
     | Inr ix \<Rightarrow>
         thenp (modify (\<lambda>d. d(''experts.index'' \<mapsto> ix_save ix)))
               (modify (\<lambda>d. d(''metadata.json'' \<mapsto> to_bytes metadata)))))))))"

section \<open>Opening and reading\<close>

record expert_store =
  st_index :: expert_index
  st_mappedData :: mapped_file
  st_metadataJson :: string

definition readStoreMetadata :: "model_dir \<Rightarrow> exn + string" where
  "readStoreMetadata d =
     (case d ''metadata.json'' of
        Some bs \<Rightarrow> Inr (to_text bs)
      | None \<Rightarrow> (case d ''manifest.json'' of
                   Some bs \<Rightarrow> Inr (to_text bs)
                 | None \<Rightarrow> Inl (StorageError ''cannot open model metadata'')))"

definition record_outside :: "mapped_file \<Rightarrow> expert_record \<Rightarrow> bool" where
  "record_outside m r \<longleftrightarrow> er_offset r > mf_size m \<or> er_size r > mf_size m - er_offset r"

definition st_open :: "model_dir \<Rightarrow> exn + expert_store" where
  "st_open d =
     bindr (ix_load (d ''experts.index'')) (\<lambda>ix.
     case mf_open (d ''experts.bin'') mf_closed of
       (Inl e, _) \<Rightarrow> Inl e
     | (Inr _, m) \<Rightarrow>
         bindr (readStoreMetadata d) (\<lambda>meta.
         if meta = [] then Inl (StorageError ''model metadata manifest is empty'')
         else if list_ex (record_outside m) (ix_records ix)
         then Inl (StorageError ''expert index references data outside experts.bin'')
         else Inr \<lparr> st_index = ix, st_mappedData = m, st_metadataJson = meta \<rparr>))"

definition st_validate :: "byte list \<Rightarrow> expert_record \<Rightarrow> exn + unit" where
  "st_validate bs r = requirer (crc32 bs = er_checksum r)
     (StorageError ''expert checksum mismatch: data is corrupted'')"

definition st_requireRecord :: "expert_store \<Rightarrow> layer_id \<Rightarrow> expert_id \<Rightarrow> exn + expert_record" where
  "st_requireRecord st l e = (case ix_find (st_index st) l e of
     None \<Rightarrow> Inl (StorageError ''expert is not present in the index'') | Some r \<Rightarrow> Inr r)"

definition st_mappedExpert :: "expert_store \<Rightarrow> layer_id \<Rightarrow> expert_id \<Rightarrow> bool \<Rightarrow> exn + byte list" where
  "st_mappedExpert st l e validateChecksum =
     bindr (st_requireRecord st l e) (\<lambda>r.
     bindr (mf_view (st_mappedData st) (er_offset r) (er_size r)) (\<lambda>bs.
     bindr (if validateChecksum then st_validate bs r else Inr ()) (\<lambda>_. Inr bs)))"

definition st_mappedProjection :: "expert_store \<Rightarrow> layer_id \<Rightarrow> expert_id \<Rightarrow> u32 \<Rightarrow> bool \<Rightarrow> exn + byte list" where
  "st_mappedProjection st l e t validateChecksum =
     (case ix_findProjection (st_index st) l e t of
        None \<Rightarrow> Inl (StorageError ''expert projection is not present in the index'')
      | Some p \<Rightarrow>
          bindr (mf_view (st_mappedData st) (pr_offset p) (pr_size p)) (\<lambda>bs.
          if validateChecksum \<and> crc32 bs \<noteq> pr_checksum p
          then Inl (StorageError ''expert projection checksum mismatch: data is corrupted'')
          else Inr bs))"

text \<open>The range read goes to the file again, so it sees the directory as it is then.\<close>

definition st_readExpert :: "expert_store \<Rightarrow> model_dir \<Rightarrow> layer_id \<Rightarrow> expert_id \<Rightarrow> bool \<Rightarrow> exn + byte list" where
  "st_readExpert st d l e validateChecksum =
     bindr (st_requireRecord st l e) (\<lambda>r.
     case d ''experts.bin'' of
       None \<Rightarrow> Inl (StorageError ''cannot open expert data file for range read'')
     | Some file \<Rightarrow>
         if er_offset r > streamsize_max \<or> er_size r > streamsize_max
         then Inl (StorageError ''expert range is too large for stream I/O'')
         else if length file < unat (er_offset r) + unat (er_size r)
         then Inl (StorageError ''short range read from experts.bin'')
         else (let bs = take (unat (er_size r)) (drop (unat (er_offset r)) file)
               in bindr (if validateChecksum then st_validate bs r else Inr ()) (\<lambda>_. Inr bs)))"

section \<open>The disk loader\<close>

datatype disk_read_mode = MemoryMap | RangeRead

record loaded_expert =
  le_record :: expert_record
  le_bytes :: "byte list"

record disk_loader =
  dl_store :: expert_store
  dl_mode :: disk_read_mode

definition dl_make :: "expert_store option \<Rightarrow> disk_read_mode \<Rightarrow> exn + disk_loader" where
  "dl_make st mode = (case st of
     None \<Rightarrow> Inl (InvalidArgument ''DiskLoader requires an ExpertStore'')
   | Some s \<Rightarrow> Inr \<lparr> dl_store = s, dl_mode = mode \<rparr>)"

definition dl_load :: "disk_loader \<Rightarrow> model_dir \<Rightarrow> layer_id \<Rightarrow> expert_id \<Rightarrow> exn + loaded_expert" where
  "dl_load dl d l e =
     (case ix_find (st_index (dl_store dl)) l e of
        None \<Rightarrow> Inl (StorageError ''requested expert does not exist'')
      | Some r \<Rightarrow>
          (case dl_mode dl of
             RangeRead \<Rightarrow> bindr (st_readExpert (dl_store dl) d l e True)
                            (\<lambda>bs. Inr \<lparr> le_record = r, le_bytes = bs \<rparr>)
           | MemoryMap \<Rightarrow> bindr (st_mappedExpert (dl_store dl) l e True)
                            (\<lambda>bs. Inr \<lparr> le_record = r, le_bytes = bs \<rparr>)))"

section \<open>Checksums detect a changed byte\<close>

lemma xor_left_cancel: "(x :: 'a::len word) XOR y = x XOR z \<Longrightarrow> y = z"
  by (metis xor.assoc xor.left_neutral xor_self_eq)

lemma xor_right_cancel: "(y :: 'a::len word) XOR x = z XOR x \<Longrightarrow> y = z"
  by (metis xor.commute xor_left_cancel)

lemma bit_poly_31: "bit (0xedb88320 :: u32) 31"
  by simp

lemma mask_of_low_bit: "0 - (c AND 1) = (if bit c 0 then - 1 else (0 :: u32))"
  by (simp add: and_one_eq bit_0 odd_iff_mod_2_eq_one even_iff_mod_2_eq_zero)

lemma crc_bit_alt: "crc_bit c = drop_bit 1 c XOR (if bit c 0 then 0xedb88320 else 0)"
  unfolding crc_bit_def mask_of_low_bit by simp

lemma crc_bit_inj: "crc_bit c = crc_bit d \<Longrightarrow> c = d"
proof -
  assume eq: "crc_bit c = crc_bit d"
  have top: "bit (crc_bit x) 31 = bit x 0" for x
    by (simp add: crc_bit_alt bit_xor_iff bit_drop_bit_eq) (auto dest: bit_imp_le_length)
  from eq top have low: "bit c 0 = bit d 0" by metis
  with eq have dd: "drop_bit 1 c = drop_bit 1 d"
    by (auto simp: crc_bit_alt dest: xor_right_cancel split: if_splits)
  have up: "bit c (Suc m) = bit d (Suc m)" for m
  proof -
    have "bit (drop_bit 1 c) m = bit (drop_bit 1 d) m" by (simp only: dd)
    then show ?thesis by (simp add: bit_drop_bit_eq)
  qed
  show "c = d"
  proof (rule bit_word_eqI)
    fix n
    show "bit c n = bit d n" using low up by (cases n) simp_all
  qed
qed

lemma crc_bit_power_inj: "(crc_bit ^^ n) c = (crc_bit ^^ n) d \<Longrightarrow> c = d"
  by (induction n) (auto dest: crc_bit_inj)

lemma ucast_byte_inj: "(ucast (a :: byte) :: u32) = ucast b \<Longrightarrow> a = b"
proof (rule bit_word_eqI)
  fix n
  assume eq: "(ucast a :: u32) = ucast b" and n: "n < LENGTH(8)"
  from eq have "bit (ucast a :: u32) n = bit (ucast b :: u32) n" by simp
  with n show "bit a n = bit b n" by (simp add: bit_ucast_iff)
qed

lemma crc_byte_inj_state: "crc_byte c b = crc_byte d b \<Longrightarrow> c = d"
proof -
  assume "crc_byte c b = crc_byte d b"
  then have "ucast b XOR c = ucast b XOR d"
    unfolding crc_byte_def by (simp add: xor.commute crc_bit_power_inj)
  then show "c = d" by (rule xor_left_cancel)
qed

lemma crc_byte_inj_byte: "crc_byte c a = crc_byte c b \<Longrightarrow> a = b"
  unfolding crc_byte_def by (drule crc_bit_power_inj) (rule ucast_byte_inj, erule xor_left_cancel)

lemma foldl_crc_inj_state: "foldl crc_byte c bs = foldl crc_byte d bs \<Longrightarrow> c = d"
  by (induction bs arbitrary: c d) (auto dest: crc_byte_inj_state)

text \<open>A checksum catches every change of a single byte: two buffers that differ in exactly
  one position never have the same CRC, whatever that position and the bytes around it.\<close>
theorem crc_detects_one_byte:
  "crc32 (pre @ a # post) = crc32 (pre @ b # post) \<longleftrightarrow> a = b"
proof
  assume "crc32 (pre @ a # post) = crc32 (pre @ b # post)"
  then have "foldl crc_byte (crc_byte (foldl crc_byte 0xffffffff pre) a) post =
      foldl crc_byte (crc_byte (foldl crc_byte 0xffffffff pre) b) post"
    by (simp add: crc32_def)
  then show "a = b" by (blast dest: foldl_crc_inj_state crc_byte_inj_byte)
qed simp

section \<open>Alignment\<close>

lemma and_not_mask: "(x :: 'a::len word) AND NOT (mask n) = push_bit n (drop_bit n x)"
  by (rule bit_word_eqI) (auto simp: bit_simps)

lemma alignUp_Inr:
  assumes "alignUp v = Inr off"
  shows "unat off = (unat v + 4095) div 4096 * 4096"
proof -
  from assms have le: "v \<le> u64_max - 4095" and off: "off = (v + 4095) AND NOT 4095"
    by (auto simp: alignUp_def kAlignment_def not_less add.commute split: if_splits)
  have lt: "unat v + 4095 < 2 ^ 64"
    using le unsigned_less [of v] by (simp add: word_le_nat_alt unat_u64_max_minus)
  then have x: "unat (v + 4095) = unat v + 4095"
    by (subst unat_add_lem [THEN iffD1]) simp_all
  have "(4095 :: u64) = mask 12" by (simp add: mask_eq_exp_minus_1)
  then have "off = push_bit 12 (drop_bit 12 (v + 4095))" by (simp only: off and_not_mask)
  then have "off = drop_bit 12 (v + 4095) * 4096" by (simp add: push_bit_eq_mult)
  moreover have "unat (drop_bit 12 (v + 4095)) = (unat v + 4095) div 4096"
    by (simp add: drop_bit_eq_div unat_div x)
  moreover have "(unat v + 4095) div 4096 * 4096 \<le> unat v + 4095" by simp
  ultimately show ?thesis using lt
    by (simp add: unat_mult_lem [THEN iffD1])
qed

lemma alignUp_bounds:
  assumes "alignUp v = Inr off"
  shows "v \<le> off" and "unat off < unat v + 4096" and "4096 dvd unat off"
  using alignUp_Inr [OF assms] by (auto simp: word_le_nat_alt)

section \<open>What a store holds\<close>

lemma to_text_to_bytes [simp]: "to_text (to_bytes s) = s"
proof -
  have "char_of (unat (of_nat (of_char c) :: byte)) = c" for c :: char
    using of_char_mod_256 [of c, where ?'a = nat] by (simp add: unat_of_nat)
  then show ?thesis by (simp add: to_text_def to_bytes_def comp_def)
qed

lemma to_bytes_empty [simp]: "to_bytes s = [] \<longleftrightarrow> s = []"
  by (simp add: to_bytes_def)

lemma append_file_run [simp]:
  "d f = Some old \<Longrightarrow> append_file f bs d = (Inr (), d(f \<mapsto> old @ bs))"
  by (simp add: append_file_def)

lemma write_blobs_appends:
  assumes "write_blobs bs c rs d = (r, d')" and "d ''experts.bin'' = Some B"
  shows "\<exists>X. d' = d(''experts.bin'' \<mapsto> B @ X)"
  using assms
proof (induction bs arbitrary: c rs d B)
  case Nil
  then show ?case by (auto intro!: exI [of _ "[]"])
next
  case (Cons b bs)
  consider "eb_data b = []" | e where "eb_data b \<noteq> []" "alignUp c = Inl e"
    | off where "eb_data b \<noteq> []" "alignUp c = Inr off"
    by (cases "alignUp c") auto
  then show ?case
  proof cases
    case 1
    with Cons.prems show ?thesis by (auto simp: thenp_require intro!: exI [of _ "[]"])
  next
    case 2
    with Cons.prems show ?thesis by (auto simp: thenp_require intro!: exI [of _ "[]"])
  next
    case 3
    let ?pad = "replicate (unat (off - c)) (0 :: byte)"
    show ?thesis
    proof (cases "length (eb_data b) > unat streamsize_max")
      case True
      with 3 Cons.prems have "d' = d(''experts.bin'' \<mapsto> B @ ?pad)" by (simp add: thenp_require)
      then show ?thesis by blast
    next
      case False
      with 3 Cons.prems have
        "write_blobs bs (off + of_nat (length (eb_data b))) (rs @ [blob_record b off])
           (d(''experts.bin'' \<mapsto> (B @ ?pad) @ eb_data b)) = (r, d')"
        by simp
      from Cons.IH [OF this, of "(B @ ?pad) @ eb_data b"] obtain X where
        "d' = d(''experts.bin'' \<mapsto> ((B @ ?pad) @ eb_data b) @ X)" by fastforce
      then show ?thesis by (intro exI [of _ "?pad @ eb_data b @ X"]) simp
    qed
  qed
qed

definition stored :: "byte list \<Rightarrow> expert_blob \<Rightarrow> expert_record \<Rightarrow> bool" where
  "stored B b r \<longleftrightarrow> er_layer_id r = eb_layerId b \<and> er_expert_id r = eb_expertId b \<and>
     er_quantization_type r = eb_quantizationType b \<and> er_checksum r = crc32 (eb_data b) \<and>
     unat (er_size r) = length (eb_data b) \<and> eb_data b \<noteq> [] \<and> 4096 dvd unat (er_offset r) \<and>
     unat (er_offset r) + length (eb_data b) \<le> length B \<and>
     take (length (eb_data b)) (drop (unat (er_offset r)) B) = eb_data b"

lemma stored_append: "stored B b r \<Longrightarrow> stored (B @ X) b r"
  by (auto simp: stored_def)

lemma list_all2_stored_append: "list_all2 (stored B) bs rs \<Longrightarrow> list_all2 (stored (B @ X)) bs rs"
  by (erule list_all2_mono) (rule stored_append)

lemma write_blobs_stored:
  assumes "write_blobs bs c rs d = (Inr rs', d')" and "d ''experts.bin'' = Some B"
    and "length B = unat c" and "list_all2 (stored B) pre rs"
    and "d' ''experts.bin'' = Some B'" and "length B' < 2 ^ 63"
  shows "list_all2 (stored B') (pre @ bs) rs'"
  using assms(1-4)
proof (induction bs arbitrary: c rs d B pre)
  case Nil
  with assms(5) show ?case by simp
next
  case (Cons b bs)
  from Cons.prems(1) have ne: "eb_data b \<noteq> []" by (auto simp: thenp_require)
  with Cons.prems(1) obtain off where off: "alignUp c = Inr off"
    by (cases "alignUp c") auto
  let ?pad = "replicate (unat (off - c)) (0 :: byte)"
  let ?B = "(B @ ?pad) @ eb_data b" and ?n = "length (eb_data b)"
  have run: "write_blobs bs (off + of_nat ?n) (rs @ [blob_record b off])
      (d(''experts.bin'' \<mapsto> ?B)) = (Inr rs', d')"
    using Cons.prems(1,2) ne off by (simp add: thenp_require split: if_splits)
  from write_blobs_appends [OF run, of ?B] assms(5) obtain X where X: "B' = ?B @ X" by auto
  have pad: "length (B @ ?pad) = unat off"
    using alignUp_bounds(1) [OF off] Cons.prems(3) by (simp add: unat_sub word_le_nat_alt)
  then have len: "length ?B = unat off + ?n" by simp
  with X assms(6) have lt: "unat off + ?n < 2 ^ 63" by simp
  then have n: "unat (of_nat ?n :: u64) = ?n" by (intro unat_of_nat_u64) simp
  have "unat (off + of_nat ?n) = unat off + ?n"
    using unat_add_lem [of off "of_nat ?n"] lt by (simp add: n)
  with len have len': "length ?B = unat (off + of_nat ?n)" by simp
  have "drop (unat off) ?B = eb_data b" using pad by simp
  with len n ne alignUp_bounds(3) [OF off] have "stored ?B b (blob_record b off)"
    by (simp add: stored_def blob_record_def)
  with Cons.prems(4) have "list_all2 (stored ?B) (pre @ [b]) (rs @ [blob_record b off])"
    using list_all2_stored_append [of B pre rs "?pad @ eb_data b"] by (simp add: list_all2_appendI)
  from Cons.IH [OF run _ len' this] show ?case by simp
qed

lemma st_create_Inr:
  assumes "st_create blobs meta d = (Inr (), d')"
  obtains rs ix B where "write_blobs blobs 0 [] (d(''experts.bin'' \<mapsto> [])) = (Inr rs, d(''experts.bin'' \<mapsto> B))"
    and "index_make rs [] = Inr ix" and "blobs \<noteq> []" and "meta \<noteq> []"
    and "d' = d(''experts.bin'' \<mapsto> B, ''experts.index'' \<mapsto> ix_save ix, ''metadata.json'' \<mapsto> to_bytes meta)"
proof -
  from assms have ne: "blobs \<noteq> []" "meta \<noteq> []"
    by (auto simp: st_create_def guard_runs split: if_splits)
  with assms have run: "bindp (write_blobs blobs 0 []) (\<lambda>rs. case index_make rs [] of
       Inl e \<Rightarrow> raise e
     | Inr ix \<Rightarrow> thenp (modify (\<lambda>d. d(''experts.index'' \<mapsto> ix_save ix)))
               (modify (\<lambda>d. d(''metadata.json'' \<mapsto> to_bytes meta)))) (d(''experts.bin'' \<mapsto> [])) = (Inr (), d')"
    by (simp add: st_create_def guard_runs split: if_splits)
  then obtain rs d1 where w: "write_blobs blobs 0 [] (d(''experts.bin'' \<mapsto> [])) = (Inr rs, d1)"
    and rest: "(case index_make rs [] of
       Inl e \<Rightarrow> raise e
     | Inr ix \<Rightarrow> thenp (modify (\<lambda>d. d(''experts.index'' \<mapsto> ix_save ix)))
               (modify (\<lambda>d. d(''metadata.json'' \<mapsto> to_bytes meta)))) d1 = (Inr (), d')"
    by (auto elim: bindp_cases)
  from write_blobs_appends [OF w, of "[]"] obtain B where d1: "d1 = d(''experts.bin'' \<mapsto> B)" by auto
  from rest obtain ix where "index_make rs [] = Inr ix" by (cases "index_make rs []") simp_all
  with rest ne w d1 that show thesis by simp
qed

lemma mf_open_closed:
  "mf_open file mf_closed = (case file of
     None \<Rightarrow> (Inl (StorageError ''cannot open mapped file''), mf_closed)
   | Some bs \<Rightarrow> if bs = [] then (Inl (StorageError ''invalid mapped file size''), mf_closed)
       else (Inr (), \<lparr> mf_data = Some bs \<rparr>))"
  by (auto simp: mf_open_def mf_closed_def mf_isOpen_def guard_runs split: option.splits)

text \<open>A view inside a mapped file whose size fits.\<close>

lemma mf_view_within:
  assumes "unat off + n \<le> length B" and "unat len = n" and "length B < 2 ^ 64"
  shows "mf_view \<lparr> mf_data = Some B \<rparr> off len = Inr (take n (drop (unat off) B))"
proof -
  have B: "unat (of_nat (length B) :: u64) = length B" using assms(3) by (rule unat_of_nat_u64)
  have o: "\<not> off > of_nat (length B)" using assms(1) by (simp add: word_less_nat_alt B)
  then have "unat (of_nat (length B) - off) = length B - unat off"
    by (simp add: unat_sub B not_less)
  with assms(1,2) have "\<not> len > of_nat (length B) - off" by (simp add: word_less_nat_alt)
  with o assms(2) show ?thesis by (simp add: mf_view_def mf_isOpen_def mf_size_def mf_bytes_def)
qed

lemma record_inside:
  assumes "unat (er_offset r) + unat (er_size r) \<le> length B" and "length B < 2 ^ 64"
  shows "\<not> record_outside \<lparr> mf_data = Some B \<rparr> r"
  using mf_view_within [OF assms(1) refl assms(2)]
  by (auto simp: record_outside_def mf_view_def mf_isOpen_def split: if_splits)

text \<open>An open store whose index and data agree with a list of blobs.\<close>

definition holds_blobs :: "expert_store \<Rightarrow> byte list \<Rightarrow> expert_blob list \<Rightarrow> bool" where
  "holds_blobs st B blobs \<longleftrightarrow> st_mappedData st = \<lparr> mf_data = Some B \<rparr> \<and> length B < 2 ^ 63 \<and>
     (\<forall>b \<in> set blobs. \<exists>r. ix_find (st_index st) (eb_layerId b) (eb_expertId b) = Some r \<and> stored B b r)"

lemma st_create_open:
  assumes c: "st_create blobs meta d = (Inr (), d')" and small: "\<forall>bs \<in> ran d'. length bs < 2 ^ 63"
  shows "\<exists>st B. st_open d' = Inr st \<and> d' ''experts.bin'' = Some B \<and> holds_blobs st B blobs \<and>
                st_metadataJson st = meta \<and> map er_layer_id (ix_records (st_index st)) = map eb_layerId blobs"
proof -
  from c obtain rs ix B where
    w: "write_blobs blobs 0 [] (d(''experts.bin'' \<mapsto> [])) = (Inr rs, d(''experts.bin'' \<mapsto> B))"
    and ix: "index_make rs [] = Inr ix" and ne: "blobs \<noteq> []" "meta \<noteq> []"
    and d': "d' = d(''experts.bin'' \<mapsto> B, ''experts.index'' \<mapsto> ix_save ix, ''metadata.json'' \<mapsto> to_bytes meta)"
    by (rule st_create_Inr)
  have lens: "length B < 2 ^ 63" "length (ix_save ix) < 2 ^ 63"
    using small ranI [of d' "''experts.bin''" B] ranI [of d' "''experts.index''" "ix_save ix"]
    by (simp_all add: d')
  have all: "list_all2 (stored B) blobs rs"
    using write_blobs_stored [OF w, of "[]" "[]" B] lens(1) by simp
  have load: "ix_load (Some (ix_save ix)) = Inr ix"
    using lens(2) by (intro ix_load_save [OF ix]) simp_all
  have recs: "ix_records ix = rs" using index_make_fields [OF ix] by simp
  have inside: "\<not> list_ex (record_outside \<lparr> mf_data = Some B \<rparr>) (ix_records ix)"
  proof -
    have "\<not> record_outside \<lparr> mf_data = Some B \<rparr> r" if "r \<in> set rs" for r
    proof -
      from that all obtain b where "stored B b r" by (auto simp: list_all2_conv_all_nth in_set_conv_nth)
      with lens(1) show ?thesis by (intro record_inside) (auto simp: stored_def)
    qed
    with recs show ?thesis by (simp add: list_ex_iff)
  qed
  have nonempty: "B \<noteq> []" using all ne(1) by (cases blobs) (auto simp: list_all2_Cons1 stored_def)
  define st where "st = \<lparr> st_index = ix, st_mappedData = \<lparr> mf_data = Some B \<rparr>, st_metadataJson = meta \<rparr>"
  have "st_open d' = Inr st"
    using load inside nonempty ne by (simp add: st_open_def d' mf_open_closed readStoreMetadata_def st_def)
  moreover have "holds_blobs st B blobs"
  proof -
    have "\<exists>r. ix_find ix (eb_layerId b) (eb_expertId b) = Some r \<and> stored B b r" if "b \<in> set blobs" for b
    proof -
      from that all obtain r where r: "r \<in> set rs" "stored B b r"
        by (auto simp: list_all2_conv_all_nth in_set_conv_nth) (metis nth_mem)
      with find_in_iff [OF index_make_records(1) [OF ix]] recs show ?thesis
        by (auto simp: ix_find_def stored_def)
    qed
    then show ?thesis using lens(1) by (simp add: holds_blobs_def st_def)
  qed
  moreover have "map er_layer_id rs = map eb_layerId blobs"
    using all by (induction rule: list_all2_induct) (simp_all add: stored_def)
  ultimately show ?thesis using recs by (intro exI [of _ st] exI [of _ B]) (simp add: d' st_def)
qed

lemma holds_blobs_read:
  assumes "holds_blobs st B blobs" and "b \<in> set blobs" and "d ''experts.bin'' = Some B"
  shows "st_mappedExpert st (eb_layerId b) (eb_expertId b) v = Inr (eb_data b)"
    and "st_readExpert st d (eb_layerId b) (eb_expertId b) v = Inr (eb_data b)"
proof -
  from assms(1,2) obtain r where r: "ix_find (st_index st) (eb_layerId b) (eb_expertId b) = Some r"
    and s: "stored B b r" and m: "st_mappedData st = \<lparr> mf_data = Some B \<rparr>" and len: "length B < 2 ^ 63"
    by (auto simp: holds_blobs_def)
  have sz: "unat (er_size r) = length (eb_data b)" and
    data: "take (length (eb_data b)) (drop (unat (er_offset r)) B) = eb_data b" and
    fits: "unat (er_offset r) + length (eb_data b) \<le> length B" and crc: "er_checksum r = crc32 (eb_data b)"
    using s by (simp_all add: stored_def)
  have req: "st_requireRecord st (eb_layerId b) (eb_expertId b) = Inr r"
    by (simp add: st_requireRecord_def r)
  have val: "(if v then st_validate (eb_data b) r else Inr ()) = Inr ()"
    by (simp add: st_validate_def crc)
  have "mf_view (st_mappedData st) (er_offset r) (er_size r) = Inr (eb_data b)"
    using mf_view_within [OF fits sz] len by (simp add: m data)
  with req val show "st_mappedExpert st (eb_layerId b) (eb_expertId b) v = Inr (eb_data b)"
    by (simp add: st_mappedExpert_def)
  have "\<not> er_offset r > streamsize_max" "\<not> er_size r > streamsize_max"
    using fits sz len by (simp_all add: word_less_nat_alt streamsize_max_def)
  with req val fits sz show "st_readExpert st d (eb_layerId b) (eb_expertId b) v = Inr (eb_data b)"
    by (simp add: st_readExpert_def assms(3) data Let_def)
qed

text \<open>Whatever \<open>ExpertStore::create\<close> wrote, opening the directory accepts it, with the
  metadata it was given, and the disk loader returns for every expert exactly the bytes that
  went in, both through the mapping and by a range read, checksums verified.\<close>
theorem create_then_load:
  assumes "st_create blobs meta d = (Inr (), d')" and "\<forall>bs \<in> ran d'. length bs < 2 ^ 63"
    and "b \<in> set blobs"
  shows "\<exists>st. st_open d' = Inr st \<and> st_metadataJson st = meta \<and>
           (\<forall>mode. \<exists>x. dl_load \<lparr> dl_store = st, dl_mode = mode \<rparr> d' (eb_layerId b) (eb_expertId b) = Inr x \<and>
              le_bytes x = eb_data b \<and> er_quantization_type (le_record x) = eb_quantizationType b)"
proof -
  from st_create_open [OF assms(1,2)] obtain st B where st: "st_open d' = Inr st"
    and B: "d' ''experts.bin'' = Some B" and h: "holds_blobs st B blobs" and meta: "st_metadataJson st = meta"
    by blast
  from h assms(3) obtain r where r: "ix_find (st_index st) (eb_layerId b) (eb_expertId b) = Some r"
    and s: "stored B b r" by (auto simp: holds_blobs_def)
  note rd = holds_blobs_read [where d = d' and v = True, OF h assms(3) B]
  have "\<exists>x. dl_load \<lparr> dl_store = st, dl_mode = mode \<rparr> d' (eb_layerId b) (eb_expertId b) = Inr x \<and>
              le_bytes x = eb_data b \<and> er_quantization_type (le_record x) = eb_quantizationType b" for mode
    using r s rd by (cases mode) (simp_all add: dl_load_def stored_def)
  with st meta show ?thesis by blast
qed

definition blob_example :: expert_blob where
  "blob_example = \<lparr> eb_layerId = 1, eb_expertId = 2, eb_quantizationType = 0, eb_data = [9, 8, 7] \<rparr>"

lemma create_example:
  obtains d' where "st_create [blob_example] ''{}'' Map.empty = (Inr (), d')"
    and "\<forall>bs \<in> ran d'. length bs < 2 ^ 63"
proof -
  let ?r = "blob_record blob_example 0"
  define ix where "ix = \<lparr> ix_records = [?r], ix_projections = [], ix_lookup = [key 1 2 \<mapsto> 0],
    ix_projectionLookup = Map.empty \<rparr>"
  have a: "alignUp 0 = Inr 0" by (simp add: alignUp_def kAlignment_def)
  have w: "write_blobs [blob_example] 0 [] [''experts.bin'' \<mapsto> []] =
      (Inr [?r], [''experts.bin'' \<mapsto> [9, 8, 7]])"
    by (simp add: thenp_require a blob_example_def streamsize_max_def)
  have ix: "index_make [?r] [] = Inr ix"
    by (simp add: index_make_def rebuildLookup_def add_record_def ix_def blob_record_def blob_example_def
        quantization_isValid_def)
  have len: "length (ix_save ix) = 64"
    unfolding ix_save_def by (subst length_encode) (simp_all add: ix_def)
  have "st_create [blob_example] ''{}'' Map.empty = (Inr (), [''experts.bin'' \<mapsto> [9, 8, 7],
      ''experts.index'' \<mapsto> ix_save ix, ''metadata.json'' \<mapsto> to_bytes ''{}''])"
    by (simp add: st_create_def guard_runs w ix del: write_blobs.simps)
  then show thesis
  proof (rule that)
    show "\<forall>bs \<in> ran [''experts.bin'' \<mapsto> [9, 8, 7], ''experts.index'' \<mapsto> ix_save ix,
        ''metadata.json'' \<mapsto> to_bytes ''{}'']. length bs < 2 ^ 63"
      by (simp add: ran_map_upd len to_bytes_def)
  qed
qed

theorem create_then_load_witness:
  "\<exists>d' st x. st_create [blob_example] ''{}'' Map.empty = (Inr (), d') \<and> st_open d' = Inr st \<and>
     dl_load \<lparr> dl_store = st, dl_mode = RangeRead \<rparr> d' 1 2 = Inr x \<and> le_bytes x = [9, 8, 7]"
proof -
  obtain d' where d': "st_create [blob_example] ''{}'' Map.empty = (Inr (), d')"
    and small: "\<forall>bs \<in> ran d'. length bs < 2 ^ 63" by (rule create_example)
  have "blob_example \<in> set [blob_example]" by simp
  from create_then_load [OF d' small this] d' show ?thesis by (fastforce simp: blob_example_def)
qed

section \<open>Both read modes\<close>

lemma st_open_Inr:
  assumes "st_open d = Inr st"
  obtains B where "d ''experts.bin'' = Some B" and "st_mappedData st = \<lparr> mf_data = Some B \<rparr>"
    and "\<forall>r \<in> set (ix_records (st_index st)). \<not> record_outside \<lparr> mf_data = Some B \<rparr> r"
    and "ix_load (d ''experts.index'') = Inr (st_index st)"
proof -
  from assms obtain ix where ix: "ix_load (d ''experts.index'') = Inr ix"
    by (auto simp: st_open_def bindr_eq_Inr)
  with assms obtain B where B: "d ''experts.bin'' = Some B" "B \<noteq> []"
    by (auto simp: st_open_def mf_open_closed split: option.splits if_splits)
  with assms ix have "st_mappedData st = \<lparr> mf_data = Some B \<rparr>" "st_index st = ix"
    "\<not> list_ex (record_outside \<lparr> mf_data = Some B \<rparr>) (ix_records ix)"
    by (auto simp: st_open_def mf_open_closed bindr_eq_Inr split: if_splits)
  with B ix that show thesis by (auto simp: list_ex_iff)
qed

lemma not_outside_nat:
  assumes "\<not> record_outside \<lparr> mf_data = Some B \<rparr> r" and "length B < 2 ^ 64"
  shows "unat (er_offset r) + unat (er_size r) \<le> length B"
proof -
  have B: "unat (of_nat (length B) :: u64) = length B" using assms(2) by (rule unat_of_nat_u64)
  have o: "er_offset r \<le> of_nat (length B)" and s: "er_size r \<le> of_nat (length B) - er_offset r"
    using assms(1) by (simp_all add: record_outside_def mf_size_def not_less)
  from o have "unat (of_nat (length B) - er_offset r) = length B - unat (er_offset r)"
    by (simp add: unat_sub B)
  with o s show ?thesis by (simp add: word_le_nat_alt B)
qed

text \<open>On a store opened from a directory, as long as its data file is unchanged, the two
  read modes of the disk loader are the same function of the layer and expert ids: the same
  bytes, and the same error for an unknown expert or a checksum mismatch.\<close>
theorem read_modes_agree:
  assumes "st_open d = Inr st" and "\<forall>bs \<in> ran d. length bs < 2 ^ 63"
  shows "dl_load \<lparr> dl_store = st, dl_mode = MemoryMap \<rparr> d l e =
         dl_load \<lparr> dl_store = st, dl_mode = RangeRead \<rparr> d l e"
proof (cases "ix_find (st_index st) l e")
  case None
  then show ?thesis by (simp add: dl_load_def)
next
  case (Some r)
  from assms(1) obtain B where B: "d ''experts.bin'' = Some B" and m: "st_mappedData st = \<lparr> mf_data = Some B \<rparr>"
    and out: "\<forall>r \<in> set (ix_records (st_index st)). \<not> record_outside \<lparr> mf_data = Some B \<rparr> r"
    and ix: "ix_load (d ''experts.index'') = Inr (st_index st)"
    by (rule st_open_Inr)
  from ix obtain rs ps where mk: "index_make rs ps = Inr (st_index st)"
    by (auto simp: ix_load_def bindr_eq_Inr split: option.splits)
  from Some find_in_iff [OF index_make_records(1) [OF mk]] have "r \<in> set (ix_records (st_index st))"
    by (simp add: ix_find_def)
  with out have r: "\<not> record_outside \<lparr> mf_data = Some B \<rparr> r" by blast
  have lt: "length B < 2 ^ 63" using assms(2) ranI [of d, OF B] by blast
  then have lt64: "length B < 2 ^ 64" by simp
  note fits = not_outside_nat [OF r lt64]
  have "\<not> er_offset r > streamsize_max" "\<not> er_size r > streamsize_max"
    using fits lt by (simp_all add: word_less_nat_alt streamsize_max_def)
  with Some fits mf_view_within [OF fits refl lt64] show ?thesis
    by (simp add: dl_load_def st_readExpert_def st_mappedExpert_def st_requireRecord_def B m Let_def)
qed

text \<open>A creation that fails after it has touched the directory leaves \<open>experts.bin\<close> behind;
  every later creation in that directory is then refused and changes nothing.\<close>
theorem failed_create_blocks_retry:
  assumes "st_create blobs meta d = (Inl e, d')" and "d' \<noteq> d" and "blobs' \<noteq> []" and "meta' \<noteq> []"
  shows "d' ''experts.bin'' \<noteq> None \<and>
         st_create blobs' meta' d' =
           (Inl (StorageError ''refusing to overwrite an existing expert store''), d')"
proof -
  let ?k = "\<lambda>rs. case index_make rs [] of
       Inl e \<Rightarrow> raise e
     | Inr ix \<Rightarrow> thenp (modify (\<lambda>d. d(''experts.index'' \<mapsto> ix_save ix)))
               (modify (\<lambda>d. d(''metadata.json'' \<mapsto> to_bytes meta)))"
  from assms(1,2) have "bindp (write_blobs blobs 0 []) ?k (d(''experts.bin'' \<mapsto> [])) = (Inl e, d')"
    by (auto simp: st_create_def guard_runs split: if_splits)
  then obtain r d1 where w: "write_blobs blobs 0 [] (d(''experts.bin'' \<mapsto> [])) = (r, d1)"
    and d1: "d' = d1 \<or> (\<exists>rs. ?k rs d1 = (Inl e, d'))"
    by (auto elim!: bindp_cases)
  have "d1 = d2" if "?k rs d1 = (Inl e, d2)" for rs d2
    using that by (cases "index_make rs []") simp_all
  with d1 have "d' = d1" by blast
  with write_blobs_appends [OF w, of "[]"] have "d' ''experts.bin'' \<noteq> None" by auto
  with assms(3,4) show ?thesis by (simp add: st_create_def guard_runs)
qed

end
