(* ===== verification/Transfer_Manager.thy ===== *)
theory Transfer_Manager
  imports Expert_Store "HOL-Library.Multiset"
begin

text \<open>
  \<^verbatim>\<open>src/memory/TransferManager.cpp\<close> with the buffer constructors it calls
  (\<^verbatim>\<open>src/memory/PinnedBuffer.cpp\<close>, \<^verbatim>\<open>src/backend/Backend.cpp\<close>). The manager's state is the queue,
  the tasks its workers hold and the tasks whose promise is fulfilled; a handle is the task's
  sequence number, and the shared cancellation flags are the set of cancelled sequence numbers.

  A worker's run through one task is cut where it reads the cancellation flag: \<open>Taken\<close> (just
  popped), \<open>Loaded\<close> (source resolved) and \<open>Delivered\<close> (copied, before the last check). Between two
  cuts the worker reads only its own task and the immutable store, so each piece is one step
  and all interleavings of workers and callers are sequences of steps. The back end is the
  parameter \<open>te_fault\<close>: for each kind of call the exception it throws, if any; a copy that
  does not throw copies the bytes. Times and bandwidths are left out.
\<close>

section \<open>Buffers\<close>

datatype backend_call = AllocatePinned u64 | AllocateDevice u64 | OpenStream | CopyToDevice u64
  | CopyFromDevice u64

record transfer_env =
  te_loader :: disk_loader
  te_dir :: model_dir
  te_backend :: compute_backend
  te_fault :: "backend_call \<Rightarrow> exn option"

definition call_backend :: "transfer_env \<Rightarrow> backend_call \<Rightarrow> exn + unit" where
  "call_backend env c = (case te_fault env c of None \<Rightarrow> Inr () | Some e \<Rightarrow> Inl e)"

text \<open>\<open>PinnedBuffer(size, backend)\<close> and \<open>DeviceBuffer(backend, size)\<close>, with the contents that the
  copy following the construction puts there.\<close>

definition pinned_new :: "transfer_env \<Rightarrow> nat \<Rightarrow> u64 \<Rightarrow> byte list \<Rightarrow> exn + pinned_buffer" where
  "pinned_new env ref n bs =
     (if n = 0 then Inl (InvalidArgument ''PinnedBuffer size must be nonzero'')
      else bindr (call_backend env (AllocatePinned n)) (\<lambda>_.
        Inr \<lparr> pb_ref = ref, pb_bytes = bs, pb_pinned = be_supportsPinned (te_backend env) \<rparr>))"

definition device_new :: "transfer_env \<Rightarrow> nat \<Rightarrow> u64 \<Rightarrow> byte list \<Rightarrow> exn + device_buffer" where
  "device_new env ref n bs =
     (if n = 0 then Inl (InvalidArgument ''DeviceBuffer size must be nonzero'')
      else bindr (call_backend env (AllocateDevice n)) (\<lambda>_.
        Inr \<lparr> db_ref = ref, db_bytes = bs, db_live = True, db_backend = Some (te_backend env) \<rparr>))"

definition pinned_reset :: "pinned_buffer \<Rightarrow> pinned_buffer" where
  "pinned_reset b = b\<lparr> pb_bytes := [], pb_pinned := False \<rparr>"

definition device_reset :: "device_buffer \<Rightarrow> device_buffer" where
  "device_reset b = b\<lparr> db_bytes := [], db_live := False, db_backend := None \<rparr>"

section \<open>One transfer\<close>

datatype transfer_source = FromHost host_buffer | FromPinned pinned_buffer | FromDevice device_buffer

definition resolveSource :: "transfer_env \<Rightarrow> transfer_request \<Rightarrow> nat \<Rightarrow> exn + (expert_record \<times> transfer_source)" where
  "resolveSource env q ref =
     (if tr_source q = Nvme
      then bindr (dl_load (te_loader env) (te_dir env) (tr_layerId q) (tr_expertId q)) (\<lambda>x.
             Inr (le_record x, FromHost \<lparr> hb_ref = ref, hb_bytes = le_bytes x \<rparr>))
      else (case ix_find (st_index (dl_store (te_loader env))) (tr_layerId q) (tr_expertId q) of
        None \<Rightarrow> Inl (StorageError ''transfer expert is not indexed'')
      | Some r \<Rightarrow>
          if tr_source q = PinnedRam
          then (case tr_sourcePinnedBuffer q of
                  None \<Rightarrow> Inl (InvalidArgument ''pinned source buffer size mismatch'')
                | Some p \<Rightarrow> if pb_size p \<noteq> er_size r
                    then Inl (InvalidArgument ''pinned source buffer size mismatch'')
                    else Inr (r, FromPinned p))
          else if tr_source q = Vram
          then (case tr_sourceDeviceBuffer q of
                  None \<Rightarrow> Inl (InvalidArgument ''device source buffer size mismatch'')
                | Some b \<Rightarrow> if db_size b \<noteq> er_size r
                    then Inl (InvalidArgument ''device source buffer size mismatch'')
                    else if map_option be_ref (db_backend b) \<noteq> Some (be_ref (te_backend env))
                    then Inl (InvalidArgument ''device source belongs to another backend'')
                    else Inr (r, FromDevice b))
          else (case tr_hostBuffer q of
                  None \<Rightarrow> Inl (InvalidArgument ''RAM source buffer size mismatch'')
                | Some h \<Rightarrow> if hb_size h \<noteq> er_size r
                    then Inl (InvalidArgument ''RAM source buffer size mismatch'')
                    else Inr (r, FromHost h))))"

text \<open>Lines 207 to 217.\<close>

definition newResult :: "transfer_request \<Rightarrow> expert_record \<Rightarrow> transfer_result" where
  "newResult q r = transfer_result_default\<lparr> ts_status := Completed, ts_record := r,
     ts_source := tr_source q, ts_destination := tr_destination q,
     ts_nvmeBytes := (if tr_source q = Nvme then er_size r else 0) \<rparr>"

text \<open>Opening a stream, the copy with its completion event, and closing the stream: the bytes
  that arrive.\<close>

definition streamCopy :: "transfer_env \<Rightarrow> backend_call \<Rightarrow> u64 \<Rightarrow> byte list \<Rightarrow> exn + byte list" where
  "streamCopy env c n bs =
     bindr (call_backend env OpenStream) (\<lambda>_. bindr (call_backend env c) (\<lambda>_. Inr (take (unat n) bs)))"

definition is_cuda :: "transfer_env \<Rightarrow> bool" where
  "is_cuda env \<longleftrightarrow> be_kind (te_backend env) = Cuda"

definition deliverRam :: "transfer_env \<Rightarrow> transfer_result \<Rightarrow> u64 \<Rightarrow> transfer_source \<Rightarrow> nat \<Rightarrow> exn + transfer_result" where
  "deliverRam env res n src ref = (case src of
     FromDevice b \<Rightarrow>
       bindr (pinned_new env ref n []) (\<lambda>p.
       bindr (streamCopy env (CopyFromDevice n) n (db_bytes b)) (\<lambda>bs.
       Inr (res\<lparr> ts_cudaTransfer := is_cuda env, ts_buffer := Some \<lparr> hb_ref = ref + 1, hb_bytes = bs \<rparr>,
                 ts_usedPinnedMemory := pb_pinned p \<rparr>)))
   | FromHost h \<Rightarrow> Inr (res\<lparr> ts_buffer := Some h \<rparr>)
   | FromPinned p \<Rightarrow> Inr (res\<lparr> ts_buffer := Some \<lparr> hb_ref = ref + 1, hb_bytes = pb_bytes p \<rparr> \<rparr>))"

definition deliverPinned :: "transfer_env \<Rightarrow> transfer_result \<Rightarrow> u64 \<Rightarrow> transfer_source \<Rightarrow> nat \<Rightarrow> exn + transfer_result" where
  "deliverPinned env res n src ref =
     bindr (pinned_new env ref n []) (\<lambda>p.
     bindr (case src of
              FromDevice b \<Rightarrow> streamCopy env (CopyFromDevice n) n (db_bytes b)
            | FromPinned s \<Rightarrow> Inr (take (unat n) (pb_bytes s))
            | FromHost h \<Rightarrow> Inr (take (unat n) (hb_bytes h))) (\<lambda>bs.
     Inr (res\<lparr> ts_cudaTransfer := (case src of FromDevice _ \<Rightarrow> is_cuda env | _ \<Rightarrow> ts_cudaTransfer res),
               ts_usedPinnedMemory := pb_pinned p, ts_pinnedBuffer := Some (p\<lparr> pb_bytes := bs \<rparr>) \<rparr>)))"

definition deliverVram :: "transfer_env \<Rightarrow> transfer_result \<Rightarrow> u64 \<Rightarrow> transfer_source \<Rightarrow> nat \<Rightarrow> exn + transfer_result" where
  "deliverVram env res n src ref = (case src of
     FromDevice b \<Rightarrow> Inr (res\<lparr> ts_deviceBuffer := Some b, ts_usedPinnedMemory := False \<rparr>)
   | _ \<Rightarrow>
       bindr (case src of
                FromPinned p \<Rightarrow> Inr p
              | FromHost h \<Rightarrow> pinned_new env ref n (take (unat n) (hb_bytes h))
              | FromDevice b \<Rightarrow> Inl (LogicError ''unreachable'')) (\<lambda>staging.
       bindr (device_new env (ref + 1) n []) (\<lambda>d.
       bindr (streamCopy env (CopyToDevice (pb_size staging)) (pb_size staging) (pb_bytes staging)) (\<lambda>bs.
       Inr (res\<lparr> ts_ramToVramBytes := n, ts_cudaTransfer := is_cuda env,
                 ts_usedPinnedMemory := pb_pinned staging,
                 ts_deviceBuffer := Some (d\<lparr> db_bytes := bs \<rparr>) \<rparr>)))))"

definition deliver :: "transfer_env \<Rightarrow> transfer_request \<Rightarrow> expert_record \<Rightarrow> transfer_source \<Rightarrow> nat \<Rightarrow> exn + transfer_result" where
  "deliver env q r src ref = (case tr_destination q of
     Ram \<Rightarrow> deliverRam env (newResult q r) (er_size r) src ref
   | PinnedRam \<Rightarrow> deliverPinned env (newResult q r) (er_size r) src ref
   | Vram \<Rightarrow> deliverVram env (newResult q r) (er_size r) src ref
   | Nvme \<Rightarrow> Inl (InvalidArgument ''transfer destination cannot be NVMe''))"

definition cancelledResult :: transfer_result where
  "cancelledResult = transfer_result_default\<lparr> ts_status := Cancelled \<rparr>"

section \<open>The manager\<close>

record transfer_task =
  tk_request :: transfer_request
  tk_callback :: "(transfer_result \<Rightarrow> exn option) option"
  tk_sequence :: nat

datatype transfer_phase = Taken | Loaded expert_record transfer_source | Delivered transfer_result

record transfer_manager =
  tm_workers :: nat
  tm_queue :: "transfer_task list"
  tm_running :: "(transfer_task \<times> transfer_phase) list"
  tm_finished :: "(transfer_task \<times> (exn + transfer_result)) list"
  tm_cancelled :: "nat set"
  tm_nextSequence :: nat
  tm_nextCompletion :: nat
  tm_nextBuffer :: nat
  tm_stopping :: bool

definition tm_new :: "disk_loader option \<Rightarrow> compute_backend option \<Rightarrow> nat \<Rightarrow> bool \<Rightarrow> exn + transfer_manager" where
  "tm_new loader be workers runtimeAvailable =
     (if loader = None then Inl (InvalidArgument ''TransferManager requires a DiskLoader'')
      else if workers = 0 then Inl (InvalidArgument ''TransferManager requires at least one worker'')
      else (case be of
        None \<Rightarrow> Inl (InvalidArgument ''TransferManager requires an available backend'')
      | Some b \<Rightarrow>
          if \<not> be_available b then Inl (InvalidArgument ''TransferManager requires an available backend'')
          else if be_kind b = Cuda \<and> \<not> runtimeAvailable
          then Inl (RuntimeError ''CUDA backend has no matching runtime device'')
          else Inr \<lparr> tm_workers = workers, tm_queue = [], tm_running = [], tm_finished = [],
                 tm_cancelled = {}, tm_nextSequence = 0, tm_nextCompletion = 0, tm_nextBuffer = 0,
                 tm_stopping = False \<rparr>))"

definition tm_submit :: "transfer_request \<Rightarrow> (transfer_result \<Rightarrow> exn option) option \<Rightarrow> (transfer_manager, nat) prog" where
  "tm_submit q cb =
     thenp (require (tr_destination q \<noteq> Nvme) (InvalidArgument ''a load destination cannot be NVMe''))
    (bindp (gets tm_stopping) (\<lambda>stopping.
     thenp (require (\<not> stopping) (RuntimeError ''TransferManager is shutting down''))
    (bindp (gets tm_nextSequence) (\<lambda>n.
     thenp (modify (\<lambda>s. s\<lparr> tm_nextSequence := Suc n,
              tm_queue := tm_queue s @ [\<lparr> tk_request = q, tk_callback = cb, tk_sequence = n \<rparr>] \<rparr>))
           (ret n)))))"

definition tm_cancel :: "nat \<Rightarrow> transfer_manager \<Rightarrow> transfer_manager" where
  "tm_cancel h s = s\<lparr> tm_cancelled := insert h (tm_cancelled s) \<rparr>"

definition tm_pending :: "transfer_manager \<Rightarrow> nat" where
  "tm_pending s = length (tm_queue s)"

definition tm_shutdown :: "transfer_manager \<Rightarrow> transfer_manager" where
  "tm_shutdown s = (if tm_stopping s then s
     else s\<lparr> tm_stopping := True,
             tm_cancelled := tm_cancelled s \<union> set (map tk_sequence (tm_queue s)) \<rparr>)"

definition higherPriority :: "transfer_task \<Rightarrow> transfer_task \<Rightarrow> bool" where
  "higherPriority l r =
     (if tr_priority (tk_request l) \<noteq> tr_priority (tk_request r)
      then tr_priority (tk_request l) < tr_priority (tk_request r)
      else tk_sequence l > tk_sequence r)"

text \<open>\<open>std::priority_queue::top\<close>: an element that the comparison puts below no other.\<close>

fun queue_top :: "transfer_task \<Rightarrow> transfer_task list \<Rightarrow> transfer_task" where
  "queue_top t [] = t"
| "queue_top t (u # us) = queue_top (if higherPriority t u then u else t) us"

text \<open>An idle worker pops the top of the queue.\<close>

definition tm_take :: "transfer_manager \<Rightarrow> transfer_manager option" where
  "tm_take s = (case tm_queue s of
     [] \<Rightarrow> None
   | t # ts \<Rightarrow>
       if length (tm_running s) < tm_workers s
       then (let top = queue_top t ts
             in Some (s\<lparr> tm_queue := remove1 top (t # ts), tm_running := (top, Taken) # tm_running s \<rparr>))
       else None)"

definition fulfil :: "transfer_task \<Rightarrow> transfer_phase \<Rightarrow> exn + transfer_result \<Rightarrow> transfer_manager \<Rightarrow> transfer_manager" where
  "fulfil t ph r s = s\<lparr> tm_running := remove1 (t, ph) (tm_running s), tm_finished := (t, r) # tm_finished s \<rparr>"

text \<open>Lines 362 to 365 and 305 to 309: the completion number, the callback, the promise.\<close>

definition complete :: "transfer_task \<Rightarrow> transfer_phase \<Rightarrow> transfer_result \<Rightarrow> transfer_manager \<Rightarrow> transfer_manager" where
  "complete t ph res s =
     (let res' = res\<lparr> ts_completionOrder := tm_nextCompletion s \<rparr>;
          s' = s\<lparr> tm_nextCompletion := Suc (tm_nextCompletion s) \<rparr>
      in case tk_callback t of
           None \<Rightarrow> fulfil t ph (Inr res') s'
         | Some cb \<Rightarrow> (case cb res' of
             None \<Rightarrow> fulfil t ph (Inr res') s'
           | Some e \<Rightarrow> fulfil t ph (Inl e) s'))"

definition setPhase :: "transfer_task \<Rightarrow> transfer_phase \<Rightarrow> transfer_phase \<Rightarrow> transfer_manager \<Rightarrow> transfer_manager" where
  "setPhase t ph ph' s = s\<lparr> tm_running := (t, ph') # remove1 (t, ph) (tm_running s),
     tm_nextBuffer := tm_nextBuffer s + 2 \<rparr>"

definition early_completion :: "transfer_request \<Rightarrow> transfer_source \<Rightarrow> bool" where
  "early_completion q src = (case src of FromDevice _ \<Rightarrow> tr_destination q = Vram | _ \<Rightarrow> False)"

text \<open>The next piece of a worker's run through a task it holds.\<close>

fun tm_work :: "transfer_env \<Rightarrow> transfer_task \<Rightarrow> transfer_phase \<Rightarrow> transfer_manager \<Rightarrow> transfer_manager" where
  "tm_work env t Taken s =
     (if tk_sequence t \<in> tm_cancelled s then fulfil t Taken (Inr cancelledResult) s
      else case resolveSource env (tk_request t) (tm_nextBuffer s) of
             Inl e \<Rightarrow> fulfil t Taken (Inl e) s
           | Inr (r, src) \<Rightarrow> setPhase t Taken (Loaded r src) s)"
| "tm_work env t (Loaded r src) s =
     (if tk_sequence t \<in> tm_cancelled s then fulfil t (Loaded r src) (Inr cancelledResult) s
      else case deliver env (tk_request t) r src (tm_nextBuffer s) of
             Inl e \<Rightarrow> fulfil t (Loaded r src) (Inl e) s
           | Inr res \<Rightarrow>
               if early_completion (tk_request t) src then complete t (Loaded r src) res s
               else setPhase t (Loaded r src) (Delivered res) s)"
| "tm_work env t (Delivered res) s =
     (if tk_sequence t \<in> tm_cancelled s then fulfil t (Delivered res) (Inr cancelledResult) s
      else complete t (Delivered res) res s)"

section \<open>Steps\<close>

text \<open>A worker step; the back end may fail differently at each.\<close>

inductive worker_step :: "transfer_env \<Rightarrow> transfer_manager \<Rightarrow> transfer_manager \<Rightarrow> bool" for env where
  worker_take: "tm_take s = Some s' \<Longrightarrow> worker_step env s s'"
| worker_work: "(t, ph) \<in> set (tm_running s) \<Longrightarrow>
    worker_step env s (tm_work (env\<lparr> te_fault := fault \<rparr>) t ph s)"

text \<open>Buffers a caller passes in are memory objects, so their lengths fit a \<open>std::size_t\<close>.\<close>

definition request_fits :: "transfer_request \<Rightarrow> bool" where
  "request_fits q \<longleftrightarrow>
     (\<forall>h. tr_hostBuffer q = Some h \<longrightarrow> length (hb_bytes h) < 2 ^ 64) \<and>
     (\<forall>p. tr_sourcePinnedBuffer q = Some p \<longrightarrow> length (pb_bytes p) < 2 ^ 64) \<and>
     (\<forall>b. tr_sourceDeviceBuffer q = Some b \<longrightarrow> length (db_bytes b) < 2 ^ 64)"

inductive tm_step :: "transfer_env \<Rightarrow> transfer_manager \<Rightarrow> transfer_manager \<Rightarrow> bool" for env where
  step_submit: "request_fits q \<Longrightarrow> tm_submit q cb s = (r, s') \<Longrightarrow> tm_step env s s'"
| step_cancel: "tm_step env s (tm_cancel h s)"
| step_shutdown: "tm_step env s (tm_shutdown s)"
| step_worker: "worker_step env s s' \<Longrightarrow> tm_step env s s'"

inductive tm_reachable :: "transfer_env \<Rightarrow> transfer_manager \<Rightarrow> bool" for env where
  tm_start: "tm_new (Some (te_loader env)) (Some (te_backend env)) n ok = Inr s \<Longrightarrow> tm_reachable env s"
| tm_next: "tm_reachable env s \<Longrightarrow> tm_step env s s' \<Longrightarrow> tm_reachable env s'"

end
