(* ===== verification/Priority_Queue.thy ===== *)
theory Priority_Queue
  imports Prelude
begin

text \<open>
  The contract of \<open>std::priority_queue\<close> that the transfer manager and the scheduler rely on. Both
  order their entries by a comparison object and take the top; the locale says what a top is,
  once for both.
\<close>

text \<open>What \<open>std::priority_queue\<close> promises of \<open>top\<close> for a strict weak ordering: an element of the queue
  that is below no other. The recursion equations are those of a left-to-right selection.\<close>

locale queue_selection =
  fixes below :: "'a \<Rightarrow> 'a \<Rightarrow> bool" and top :: "'a \<Rightarrow> 'a list \<Rightarrow> 'a"
  assumes below_trans: "below x y \<Longrightarrow> below y z \<Longrightarrow> below x z"
    and below_irrefl: "\<not> below x x"
    and below_weak: "below x z \<Longrightarrow> below x y \<or> below y z"
    and top_Nil: "top t [] = t"
    and top_Cons: "top t (u # us) = top (if below t u then u else t) us"
begin

lemma top_in: "top t ts \<in> set (t # ts)"
proof (induction ts arbitrary: t)
  case (Cons u us)
  from Cons.IH [of "if below t u then u else t"] show ?case
    by (auto simp: top_Cons split: if_splits)
qed (simp add: top_Nil)

lemma top_max: "u \<in> set (t # ts) \<Longrightarrow> \<not> below (top t ts) u"
proof (induction ts arbitrary: t u)
  case Nil
  then show ?case by (simp add: top_Nil below_irrefl)
next
  case (Cons v vs)
  let ?w = "if below t v then v else t"
  have best: "\<not> below (top ?w vs) x" if "x \<in> set (?w # vs)" for x using Cons.IH that by blast
  have "\<not> below (top ?w vs) ?w" using best [of ?w] by simp
  then have "\<not> below (top ?w vs) t" "\<not> below (top ?w vs) v"
    using below_trans [of "top v vs" t v] below_weak [of "top t vs" v t] by (auto split: if_splits)
  with best Cons.prems show ?case by (auto simp: top_Cons)
qed

end

end
