(* ===== verification/Transfer_Props.thy ===== *)
theory Transfer_Props
  imports Transfer_Manager Priority_Queue
begin

text \<open>
  Properties of the transfer manager over every interleaving of submitters, cancellations,
  shutdown and workers: no task is lost or answered twice, a completed transfer carries the
  payload of its source, the queue serves the highest priority first, every promise is
  fulfilled in the end, and shutdown turns what is queued into cancellations.
\<close>

section \<open>The queue\<close>

lemma higherPriority_iff:
  "higherPriority l r \<longleftrightarrow> tr_priority (tk_request l) < tr_priority (tk_request r) \<or>
     (tr_priority (tk_request l) = tr_priority (tk_request r) \<and> tk_sequence r < tk_sequence l)"
  by (auto simp: higherPriority_def)

interpretation tq: queue_selection higherPriority queue_top
  by unfold_locales (auto simp: higherPriority_iff)

lemma tm_take_Some:
  assumes "tm_take s = Some s'"
  obtains t where "t \<in> set (tm_queue s)" and "\<forall>u \<in> set (tm_queue s). \<not> higherPriority t u"
    and "s' = s\<lparr> tm_queue := remove1 t (tm_queue s), tm_running := (t, Taken) # tm_running s \<rparr>"
    and "length (tm_running s) < tm_workers s"
proof -
  from assms obtain t ts where q: "tm_queue s = t # ts" and w: "length (tm_running s) < tm_workers s"
    and s': "s' = s\<lparr> tm_queue := remove1 (queue_top t ts) (t # ts),
      tm_running := (queue_top t ts, Taken) # tm_running s \<rparr>"
    by (auto simp: tm_take_def Let_def split: list.splits if_splits)
  show thesis
    by (rule that [of "queue_top t ts"]) (use tq.top_in [of t ts] tq.top_max [of _ t ts] q w s' in \<open>simp_all\<close>)
qed

text \<open>An idle worker takes a task such that no queued task has a higher priority, and none
  of the same priority was submitted earlier.\<close>
theorem take_serves_priority:
  assumes "tm_take s = Some s'"
  shows "\<exists>t \<in> set (tm_queue s). tm_running s' = (t, Taken) # tm_running s \<and>
           tm_queue s' = remove1 t (tm_queue s) \<and>
           (\<forall>u \<in> set (tm_queue s). tr_priority (tk_request u) \<le> tr_priority (tk_request t) \<and>
              (tr_priority (tk_request u) = tr_priority (tk_request t) \<longrightarrow> tk_sequence t \<le> tk_sequence u))"
  using assms by (rule tm_take_Some) (fastforce simp: higherPriority_iff not_less)

section \<open>No task is lost, none is answered twice\<close>

definition tm_tickets :: "transfer_manager \<Rightarrow> nat multiset" where
  "tm_tickets s = image_mset tk_sequence (mset (tm_queue s)) +
     image_mset (tk_sequence \<circ> fst) (mset (tm_running s)) +
     image_mset (tk_sequence \<circ> fst) (mset (tm_finished s))"

definition tm_conserved :: "transfer_manager \<Rightarrow> bool" where
  "tm_conserved s \<longleftrightarrow> tm_tickets s = mset [0..<tm_nextSequence s]"

lemma image_mset_remove1:
  assumes "x \<in> set xs"
  shows "image_mset f (mset xs) = add_mset (f x) (image_mset f (mset (remove1 x xs)))"
proof -
  have "mset xs = add_mset x (mset (remove1 x xs))" using assms by simp
  then show ?thesis by (metis image_mset_add_mset)
qed

lemma fulfil_tickets:
  assumes "(t, ph) \<in> set (tm_running s)"
  shows "tm_tickets (fulfil t ph r s) = tm_tickets s"
  using image_mset_remove1 [OF assms, of "tk_sequence \<circ> fst"] by (simp add: tm_tickets_def fulfil_def)

lemma setPhase_tickets:
  assumes "(t, ph) \<in> set (tm_running s)"
  shows "tm_tickets (setPhase t ph ph' s) = tm_tickets s"
  using image_mset_remove1 [OF assms, of "tk_sequence \<circ> fst"] by (simp add: tm_tickets_def setPhase_def)

lemma fulfil_fields [simp]:
  "tm_nextSequence (fulfil t ph r s) = tm_nextSequence s" "tm_queue (fulfil t ph r s) = tm_queue s"
  "tm_cancelled (fulfil t ph r s) = tm_cancelled s" "tm_stopping (fulfil t ph r s) = tm_stopping s"
  "tm_workers (fulfil t ph r s) = tm_workers s"
  "tm_running (fulfil t ph r s) = remove1 (t, ph) (tm_running s)"
  "tm_finished (fulfil t ph r s) = (t, r) # tm_finished s"
  by (simp_all add: fulfil_def)

lemma setPhase_fields [simp]:
  "tm_nextSequence (setPhase t ph ph' s) = tm_nextSequence s" "tm_queue (setPhase t ph ph' s) = tm_queue s"
  "tm_cancelled (setPhase t ph ph' s) = tm_cancelled s" "tm_stopping (setPhase t ph ph' s) = tm_stopping s"
  "tm_workers (setPhase t ph ph' s) = tm_workers s"
  "tm_running (setPhase t ph ph' s) = (t, ph') # remove1 (t, ph) (tm_running s)"
  "tm_finished (setPhase t ph ph' s) = tm_finished s"
  by (simp_all add: setPhase_def)

text \<open>What a work step can do to the manager: answer the task, or move it to its next phase.\<close>

inductive worked :: "transfer_env \<Rightarrow> transfer_task \<Rightarrow> transfer_phase \<Rightarrow> transfer_manager \<Rightarrow> transfer_manager \<Rightarrow> bool"
  for env t ph s where
  worked_cancelled: "tk_sequence t \<in> tm_cancelled s \<Longrightarrow> worked env t ph s (fulfil t ph (Inr cancelledResult) s)"
| worked_error: "tk_sequence t \<notin> tm_cancelled s \<Longrightarrow> worked env t ph s (fulfil t ph (Inl e) (s\<lparr> tm_nextCompletion := n \<rparr>))"
| worked_loaded: "tk_sequence t \<notin> tm_cancelled s \<Longrightarrow> ph = Taken \<Longrightarrow>
    resolveSource env (tk_request t) (tm_nextBuffer s) = Inr (r, src) \<Longrightarrow>
    worked env t ph s (setPhase t ph (Loaded r src) s)"
| worked_delivered: "tk_sequence t \<notin> tm_cancelled s \<Longrightarrow> ph = Loaded r src \<Longrightarrow>
    deliver env (tk_request t) r src (tm_nextBuffer s) = Inr res \<Longrightarrow>
    worked env t ph s (setPhase t ph (Delivered res) s)"
| worked_completed: "tk_sequence t \<notin> tm_cancelled s \<Longrightarrow>
    ph = Delivered res \<or> (\<exists>r src. ph = Loaded r src \<and> deliver env (tk_request t) r src (tm_nextBuffer s) = Inr res) \<Longrightarrow>
    worked env t ph s (fulfil t ph (Inr (res\<lparr> ts_completionOrder := tm_nextCompletion s \<rparr>))
      (s\<lparr> tm_nextCompletion := Suc (tm_nextCompletion s) \<rparr>))"

lemma complete_worked:
  assumes "tk_sequence t \<notin> tm_cancelled s"
    and "ph = Delivered res \<or> (\<exists>r src. ph = Loaded r src \<and> deliver env (tk_request t) r src (tm_nextBuffer s) = Inr res)"
  shows "worked env t ph s (complete t ph res s)"
  using worked_completed [OF assms] worked_error [OF assms(1)]
  by (auto simp: complete_def Let_def split: option.splits)

lemma tm_work_worked: "worked env t ph s (tm_work env t ph s)"
proof (cases ph)
  case Taken
  show ?thesis
    using worked_error [of t s env Taken _ "tm_nextCompletion s"] unfolding Taken
    by (auto intro: worked.intros split: sum.splits)
next
  case (Loaded r src)
  show ?thesis
    using worked_error [of t s env "Loaded r src" _ "tm_nextCompletion s"] unfolding Loaded
    by (auto intro: worked.intros complete_worked split: sum.splits)
next
  case (Delivered res)
  then show ?thesis by (auto intro: worked.intros complete_worked)
qed

lemma tickets_update [simp]: "tm_tickets (s\<lparr> tm_nextCompletion := n \<rparr>) = tm_tickets s"
  by (simp add: tm_tickets_def)

lemma worked_tickets:
  assumes "worked env t ph s s'" and "(t, ph) \<in> set (tm_running s)"
  shows "tm_tickets s' = tm_tickets s \<and> tm_nextSequence s' = tm_nextSequence s"
  using assms by cases (simp_all add: fulfil_tickets setPhase_tickets)

lemma take_tickets:
  assumes "tm_take s = Some s'"
  shows "tm_tickets s' = tm_tickets s \<and> tm_nextSequence s' = tm_nextSequence s"
  using assms by (rule tm_take_Some) (simp add: tm_tickets_def image_mset_Diff insert_DiffM)

lemma worker_step_tickets:
  "worker_step env s s' \<Longrightarrow> tm_tickets s' = tm_tickets s \<and> tm_nextSequence s' = tm_nextSequence s"
proof (induction rule: worker_step.induct)
  case (worker_work t ph s fault)
  show ?case by (rule worked_tickets [OF tm_work_worked worker_work])
qed (rule take_tickets)

lemma tm_submit_cases:
  assumes "tm_submit q cb s = (r, s')"
  obtains e where "r = Inl e" and "s' = s"
  | "r = Inr (tm_nextSequence s)" and "tr_destination q \<noteq> Nvme" and "\<not> tm_stopping s"
    and "s' = s\<lparr> tm_nextSequence := Suc (tm_nextSequence s), tm_queue := tm_queue s @
       [\<lparr> tk_request = q, tk_callback = cb, tk_sequence = tm_nextSequence s \<rparr>] \<rparr>"
  using assms by (auto simp: tm_submit_def guard_runs split: if_splits)

lemma tm_step_conserved: "tm_step env s s' \<Longrightarrow> tm_conserved s \<Longrightarrow> tm_conserved s'"
proof (induction rule: tm_step.induct)
  case (step_submit q cb s r s')
  from step_submit(2) show ?case
    by (cases rule: tm_submit_cases) (use step_submit(3) in \<open>auto simp: tm_conserved_def tm_tickets_def\<close>)
next
  case (step_worker s s')
  then show ?case using worker_step_tickets by (simp add: tm_conserved_def)
qed (auto simp: tm_conserved_def tm_tickets_def tm_cancel_def tm_shutdown_def)

lemma tm_new_Inr:
  assumes "tm_new l b n ok = Inr s"
  shows "s = \<lparr> tm_workers = n, tm_queue = [], tm_running = [], tm_finished = [],
     tm_cancelled = {}, tm_nextSequence = 0, tm_nextCompletion = 0, tm_nextBuffer = 0,
     tm_stopping = False \<rparr>" and "0 < n"
  using assms by (auto simp: tm_new_def split: if_splits option.splits)

lemma reachable_conserved: "tm_reachable env s \<Longrightarrow> tm_conserved s"
proof (induction rule: tm_reachable.induct)
  case (tm_start n ok s)
  from tm_new_Inr(1) [OF tm_start] show ?case by (simp add: tm_conserved_def tm_tickets_def)
qed (rule tm_step_conserved)

text \<open>C18: In every reachable state, under any interleaving, the sequence numbers handed out so
  far are exactly, each once, those of the queued tasks, of the tasks the workers hold and of
  the tasks with a fulfilled promise: no submitted transfer is lost and none is answered twice.\<close>
theorem no_transfer_lost:
  assumes "tm_reachable env s"
  shows "image_mset tk_sequence (mset (tm_queue s)) +
         image_mset (tk_sequence \<circ> fst) (mset (tm_running s)) +
         image_mset (tk_sequence \<circ> fst) (mset (tm_finished s)) = mset [0..<tm_nextSequence s]"
  using reachable_conserved [OF assms] by (simp only: tm_conserved_def tm_tickets_def)

section \<open>Completed transfers carry the payload\<close>

fun src_bytes :: "transfer_source \<Rightarrow> byte list" where
  "src_bytes (FromHost h) = hb_bytes h"
| "src_bytes (FromPinned p) = pb_bytes p"
| "src_bytes (FromDevice b) = db_bytes b"

text \<open>The bytes that a request asks to move, and the bytes that a result delivers.\<close>

definition payload :: "transfer_env \<Rightarrow> transfer_request \<Rightarrow> byte list option" where
  "payload env q = (case tr_source q of
     Nvme \<Rightarrow> (case dl_load (te_loader env) (te_dir env) (tr_layerId q) (tr_expertId q) of
                Inl _ \<Rightarrow> None | Inr x \<Rightarrow> Some (le_bytes x))
   | Ram \<Rightarrow> map_option hb_bytes (tr_hostBuffer q)
   | PinnedRam \<Rightarrow> map_option pb_bytes (tr_sourcePinnedBuffer q)
   | Vram \<Rightarrow> map_option db_bytes (tr_sourceDeviceBuffer q))"

definition delivered :: "transfer_result \<Rightarrow> byte list option" where
  "delivered res = (case ts_destination res of
     Ram \<Rightarrow> map_option hb_bytes (ts_buffer res)
   | PinnedRam \<Rightarrow> map_option pb_bytes (ts_pinnedBuffer res)
   | Vram \<Rightarrow> map_option db_bytes (ts_deviceBuffer res)
   | Nvme \<Rightarrow> None)"

abbreviation env_find :: "transfer_env \<Rightarrow> transfer_request \<Rightarrow> expert_record option" where
  "env_find env q \<equiv> ix_find (st_index (dl_store (te_loader env))) (tr_layerId q) (tr_expertId q)"

definition good_result :: "transfer_env \<Rightarrow> transfer_request \<Rightarrow> transfer_result \<Rightarrow> bool" where
  "good_result env q res \<longleftrightarrow> ts_status res = Completed \<and> ts_destination res = tr_destination q \<and>
     env_find env q = Some (ts_record res) \<and>
     (\<exists>bs. payload env q = Some bs \<and> length bs = unat (er_size (ts_record res)) \<and> delivered res = Some bs)"

text \<open>The store the loader reads from was opened from the directory, whose files are within the
  stream limit.\<close>

definition loader_ok :: "transfer_env \<Rightarrow> bool" where
  "loader_ok env \<longleftrightarrow> st_open (te_dir env) = Inr (dl_store (te_loader env)) \<and>
     (\<forall>bs \<in> ran (te_dir env). length bs < 2 ^ 63)"

lemma loader_ok_fault [simp]: "loader_ok (env\<lparr> te_fault := f \<rparr>) = loader_ok env"
  by (simp add: loader_ok_def)

lemma payload_fault [simp]: "payload (env\<lparr> te_fault := f \<rparr>) = payload env"
  by (simp add: payload_def fun_eq_iff split: memory_tier.splits)

lemma good_result_fault [simp]: "good_result (env\<lparr> te_fault := f \<rparr>) = good_result env"
  by (simp add: good_result_def fun_eq_iff)

lemma dl_load_Inr:
  assumes "st_open d = Inr (dl_store dl)" and "\<forall>bs \<in> ran d. length bs < 2 ^ 63"
    and "dl_load dl d l e = Inr x"
  shows "ix_find (st_index (dl_store dl)) l e = Some (le_record x)"
    and "length (le_bytes x) = unat (er_size (le_record x))"
proof -
  from assms(3) obtain r where r: "ix_find (st_index (dl_store dl)) l e = Some r" and x: "le_record x = r"
    by (auto simp: dl_load_def bindr_eq_Inr split: option.splits disk_read_mode.splits)
  then show "ix_find (st_index (dl_store dl)) l e = Some (le_record x)" by simp
  from assms(1) obtain B where B: "d ''experts.bin'' = Some B"
    and m: "st_mappedData (dl_store dl) = \<lparr> mf_data = Some B \<rparr>"
    and out: "\<forall>r \<in> set (ix_records (st_index (dl_store dl))). \<not> record_outside \<lparr> mf_data = Some B \<rparr> r"
    and ix: "ix_load (d ''experts.index'') = Inr (st_index (dl_store dl))"
    by (rule st_open_Inr)
  from ix obtain rs ps where mk: "index_make rs ps = Inr (st_index (dl_store dl))"
    by (auto simp: ix_load_def bindr_eq_Inr split: option.splits)
  from r find_in_iff [OF index_make_records(1) [OF mk]] have "r \<in> set (ix_records (st_index (dl_store dl)))"
    by (simp add: ix_find_def)
  with out have "\<not> record_outside \<lparr> mf_data = Some B \<rparr> r" by blast
  moreover have lt64: "length B < 2 ^ 64" using assms(2) ranI [of d, OF B] by fastforce
  ultimately have fits: "unat (er_offset r) + unat (er_size r) \<le> length B" by (rule not_outside_nat)
  have "le_bytes x = take (unat (er_size r)) (drop (unat (er_offset r)) B)"
    using assms(3) r mf_view_within [OF fits refl lt64]
    by (auto simp: dl_load_def st_readExpert_def st_mappedExpert_def st_requireRecord_def B m Let_def
        bindr_eq_Inr split: disk_read_mode.splits if_splits)
  with fits x show "length (le_bytes x) = unat (er_size (le_record x))" by simp
qed

lemma of_nat_eq_unat: "(of_nat n :: u64) = w \<Longrightarrow> n < 2 ^ 64 \<Longrightarrow> n = unat w"
  by (auto simp: unat_of_nat_u64)

lemma resolveSource_Inr:
  assumes "resolveSource env q ref = Inr (r, src)" and "loader_ok env" and "request_fits q"
  shows "env_find env q = Some r" and "payload env q = Some (src_bytes src)"
    and "length (src_bytes src) = unat (er_size r)"
proof -
  have "env_find env q = Some r \<and> payload env q = Some (src_bytes src) \<and>
      length (src_bytes src) = unat (er_size r)"
  proof (cases "tr_source q")
    case Nvme
    with assms(1) obtain x where x: "dl_load (te_loader env) (te_dir env) (tr_layerId q) (tr_expertId q) = Inr x"
      and "r = le_record x" "src = FromHost \<lparr> hb_ref = ref, hb_bytes = le_bytes x \<rparr>"
      by (auto simp: resolveSource_def bindr_eq_Inr)
    with dl_load_Inr [OF _ _ x] assms(2) Nvme show ?thesis by (simp add: payload_def loader_ok_def)
  next
    case Vram
    with assms(1,3) show ?thesis
      by (auto simp: resolveSource_def payload_def request_fits_def db_size_def intro: of_nat_eq_unat
          split: option.splits if_splits)
  next
    case Ram
    with assms(1,3) show ?thesis
      by (auto simp: resolveSource_def payload_def request_fits_def hb_size_def intro: of_nat_eq_unat
          split: option.splits if_splits)
  next
    case PinnedRam
    with assms(1,3) show ?thesis
      by (auto simp: resolveSource_def payload_def request_fits_def pb_size_def intro: of_nat_eq_unat
          split: option.splits if_splits)
  qed
  then show "env_find env q = Some r" "payload env q = Some (src_bytes src)"
    "length (src_bytes src) = unat (er_size r)" by simp_all
qed

lemma pinned_new_Inr: "pinned_new env ref n bs = Inr p \<Longrightarrow> pb_bytes p = bs"
  by (auto simp: pinned_new_def bindr_eq_Inr split: if_splits)

lemma device_new_Inr: "device_new env ref n bs = Inr d \<Longrightarrow> db_bytes d = bs"
  by (auto simp: device_new_def bindr_eq_Inr split: if_splits)

lemma streamCopy_Inr: "streamCopy env c n bs = Inr xs \<Longrightarrow> xs = take (unat n) bs"
  by (auto simp: streamCopy_def bindr_eq_Inr)

lemma newResult_fields [simp]:
  "ts_status (newResult q r) = Completed" "ts_record (newResult q r) = r"
  "ts_destination (newResult q r) = tr_destination q"
  by (simp_all add: newResult_def)

text \<open>What the three ways of delivering have in common.\<close>

abbreviation same_header :: "transfer_result \<Rightarrow> transfer_result \<Rightarrow> bool" where
  "same_header res res' \<equiv> ts_status res' = ts_status res \<and> ts_record res' = ts_record res \<and>
     ts_destination res' = ts_destination res"

lemma deliverRam_Inr:
  assumes "deliverRam env res n src ref = Inr res'" and "length (src_bytes src) = unat n"
  shows "same_header res res' \<and> map_option hb_bytes (ts_buffer res') = Some (src_bytes src)"
  using assms by (cases src) (auto simp: deliverRam_def bindr_eq_Inr dest!: streamCopy_Inr)

lemma deliverPinned_Inr:
  assumes "deliverPinned env res n src ref = Inr res'" and "length (src_bytes src) = unat n"
  shows "same_header res res' \<and> map_option pb_bytes (ts_pinnedBuffer res') = Some (src_bytes src)"
  using assms by (cases src) (auto simp: deliverPinned_def bindr_eq_Inr dest!: streamCopy_Inr)

lemma deliverVram_Inr:
  assumes "deliverVram env res n src ref = Inr res'" and "length (src_bytes src) = unat n"
  shows "same_header res res' \<and> map_option db_bytes (ts_deviceBuffer res') = Some (src_bytes src)"
proof -
  have sz: "unat (pb_size p) = length (pb_bytes p)" if "length (pb_bytes p) = unat n" for p :: pinned_buffer
    using that by (simp add: pb_size_def)
  show ?thesis using assms
    by (cases src) (auto simp: deliverVram_def bindr_eq_Inr sz dest!: streamCopy_Inr pinned_new_Inr)
qed

lemma deliver_good:
  assumes "deliver env q r src ref = Inr res" and "env_find env q = Some r"
    and "payload env q = Some (src_bytes src)" and len: "length (src_bytes src) = unat (er_size r)"
  shows "good_result env q res"
proof -
  have "same_header (newResult q r) res \<and> delivered res = Some (src_bytes src)"
    using assms(1) deliverRam_Inr [OF _ len] deliverPinned_Inr [OF _ len] deliverVram_Inr [OF _ len]
    by (cases "tr_destination q") (fastforce simp: deliver_def delivered_def)+
  with assms(2-4) show ?thesis by (simp add: good_result_def)
qed

fun phase_ok :: "transfer_env \<Rightarrow> transfer_request \<Rightarrow> transfer_phase \<Rightarrow> bool" where
  "phase_ok env q Taken = True"
| "phase_ok env q (Loaded r src) = (env_find env q = Some r \<and> payload env q = Some (src_bytes src) \<and>
     length (src_bytes src) = unat (er_size r))"
| "phase_ok env q (Delivered res) = good_result env q res"

lemma phase_ok_fault [simp]: "phase_ok (env\<lparr> te_fault := f \<rparr>) q ph = phase_ok env q ph"
  by (cases ph) simp_all

definition tm_faithful :: "transfer_env \<Rightarrow> transfer_manager \<Rightarrow> bool" where
  "tm_faithful env s \<longleftrightarrow> (\<forall>t \<in> set (tm_queue s). request_fits (tk_request t)) \<and>
     (\<forall>(t, ph) \<in> set (tm_running s). request_fits (tk_request t) \<and> phase_ok env (tk_request t) ph) \<and>
     (\<forall>(t, r) \<in> set (tm_finished s). \<forall>res. r = Inr res \<longrightarrow> ts_status res = Completed \<longrightarrow>
        good_result env (tk_request t) res)"

lemma tm_faithful_frame:
  "tm_faithful env (s\<lparr> tm_nextCompletion := n \<rparr>) = tm_faithful env s"
  by (simp add: tm_faithful_def)

lemma in_remove1D: "x \<in> set (remove1 y xs) \<Longrightarrow> x \<in> set xs"
  by (meson notin_set_remove1)

lemma faithful_fulfil:
  assumes "tm_faithful env s"
    and "\<forall>res. r = Inr res \<longrightarrow> ts_status res = Completed \<longrightarrow> good_result env (tk_request t) res"
  shows "tm_faithful env (fulfil t ph r s)"
  using assms unfolding tm_faithful_def fulfil_fields
  by (auto simp del: set_remove1_eq dest!: in_remove1D)

lemma faithful_setPhase:
  assumes "tm_faithful env s" and "(t, ph) \<in> set (tm_running s)" and "phase_ok env (tk_request t) ph'"
  shows "tm_faithful env (setPhase t ph ph' s)"
  using assms unfolding tm_faithful_def setPhase_fields
  by (auto simp del: set_remove1_eq dest!: in_remove1D)

lemma good_result_order [simp]:
  "good_result env q (res\<lparr> ts_completionOrder := n \<rparr>) = good_result env q res"
  by (simp add: good_result_def delivered_def split: memory_tier.splits)

lemma worked_faithful:
  assumes "worked env t ph s s'" and "(t, ph) \<in> set (tm_running s)" and "tm_faithful env s" and "loader_ok env"
  shows "tm_faithful env s'"
proof -
  have q: "request_fits (tk_request t)" and ph: "phase_ok env (tk_request t) ph"
    using assms(2,3) by (auto simp: tm_faithful_def)
  from assms(1) show ?thesis
  proof cases
    case worked_cancelled
    then show ?thesis using assms(3) by (simp add: faithful_fulfil cancelledResult_def)
  next
    case (worked_error e n)
    then show ?thesis using assms(3) by (simp add: faithful_fulfil tm_faithful_frame)
  next
    case (worked_loaded r src)
    from resolveSource_Inr [OF worked_loaded(4) assms(4) q] show ?thesis
      unfolding worked_loaded(1) by (intro faithful_setPhase assms(2,3)) simp
  next
    case (worked_delivered r src res)
    from deliver_good [OF worked_delivered(4)] ph worked_delivered(3) show ?thesis
      unfolding worked_delivered(1) by (intro faithful_setPhase assms(2,3)) simp
  next
    case (worked_completed res)
    have "good_result env (tk_request t) res" using worked_completed(3) ph deliver_good by auto
    then show ?thesis unfolding worked_completed(1)
      by (intro faithful_fulfil) (simp_all add: tm_faithful_frame assms(3))
  qed
qed

lemma take_faithful: "tm_take s = Some s' \<Longrightarrow> tm_faithful env s \<Longrightarrow> tm_faithful env s'"
  by (erule tm_take_Some) (auto simp: tm_faithful_def simp del: set_remove1_eq dest!: in_remove1D)

lemma worker_step_faithful:
  assumes "worker_step env s s'" and "tm_faithful env s" and "loader_ok env"
  shows "tm_faithful env s'"
  using assms(1)
proof cases
  case worker_take
  with assms(2) show ?thesis using take_faithful by blast
next
  case (worker_work t ph fault)
  have "tm_faithful (env\<lparr> te_fault := fault \<rparr>) (tm_work (env\<lparr> te_fault := fault \<rparr>) t ph s)"
    by (rule worked_faithful [OF tm_work_worked worker_work(2)])
      (use assms(2,3) in \<open>simp_all add: tm_faithful_def\<close>)
  with worker_work(1) show ?thesis by (simp add: tm_faithful_def)
qed

lemma tm_step_faithful:
  assumes "tm_step env s s'" and "tm_faithful env s" and "loader_ok env"
  shows "tm_faithful env s'"
  using assms(1)
proof cases
  case (step_submit q cb r)
  from step_submit(2) show ?thesis
    by (cases rule: tm_submit_cases) (use step_submit(1) assms(2) in \<open>auto simp: tm_faithful_def\<close>)
next
  case step_worker
  then show ?thesis using worker_step_faithful assms(2,3) by blast
qed (use assms(2) in \<open>simp_all add: tm_faithful_def tm_cancel_def tm_shutdown_def\<close>)

lemma reachable_faithful: "tm_reachable env s \<Longrightarrow> loader_ok env \<Longrightarrow> tm_faithful env s"
proof (induction rule: tm_reachable.induct)
  case (tm_start n ok s)
  from tm_new_Inr(1) [OF tm_start(1)] show ?case by (simp add: tm_faithful_def)
next
  case (tm_next s s')
  then show ?case using tm_step_faithful by blast
qed

text \<open>C14: A transfer that completed delivered the right bytes: its record is the index entry of
  the requested expert, and the buffer it hands over in the destination tier holds exactly the
  bytes of the source tier (the checked payload on disk, or the buffer the caller passed), as
  many as the record says. This holds under any interleaving, with any back-end failures.\<close>
theorem transfer_delivers_payload:
  assumes "tm_reachable env s" and "loader_ok env"
    and "(t, Inr res) \<in> set (tm_finished s)" and "ts_status res = Completed"
  shows "ts_destination res = tr_destination (tk_request t) \<and>
         ix_find (st_index (dl_store (te_loader env))) (tr_layerId (tk_request t)) (tr_expertId (tk_request t)) =
           Some (ts_record res) \<and>
         (\<exists>bs. payload env (tk_request t) = Some bs \<and> delivered res = Some bs \<and>
               length bs = unat (er_size (ts_record res)))"
proof -
  have "tm_faithful env s" by (rule reachable_faithful [OF assms(1,2)])
  with assms(3,4) have "good_result env (tk_request t) res" unfolding tm_faithful_def by blast
  then show ?thesis unfolding good_result_def by blast
qed

section \<open>Every promise is fulfilled\<close>

fun phase_weight :: "transfer_phase \<Rightarrow> nat" where
  "phase_weight Taken = 3"
| "phase_weight (Loaded r src) = 2"
| "phase_weight (Delivered res) = 1"

definition tm_work_left :: "transfer_manager \<Rightarrow> nat" where
  "tm_work_left s = 4 * length (tm_queue s) + sum_list (map (phase_weight \<circ> snd) (tm_running s))"

lemma work_left_remove1:
  assumes "(t, ph) \<in> set (tm_running s)"
  shows "tm_work_left s = 4 * length (tm_queue s) + phase_weight ph +
           sum_list (map (phase_weight \<circ> snd) (remove1 (t, ph) (tm_running s)))"
  using sum_list_map_remove1 [OF assms, of "phase_weight \<circ> snd"] by (simp add: tm_work_left_def)

lemma worker_step_progress:
  assumes "worker_step env s s'"
  shows "tm_work_left s' < tm_work_left s"
  using assms
proof cases
  case worker_take
  then obtain t where t: "t \<in> set (tm_queue s)"
    and s': "s' = s\<lparr> tm_queue := remove1 t (tm_queue s), tm_running := (t, Taken) # tm_running s \<rparr>"
    by (rule tm_take_Some)
  from t obtain n where "length (tm_queue s) = Suc n" by (cases "tm_queue s") auto
  with t show ?thesis by (simp add: s' tm_work_left_def length_remove1)
next
  case (worker_work t ph fault)
  have pos: "0 < phase_weight ph" by (cases ph) simp_all
  from tm_work_worked [of "env\<lparr> te_fault := fault \<rparr>" t ph s] show ?thesis
    unfolding worker_work(1)
    by cases (use pos work_left_remove1 [OF worker_work(2)] in \<open>simp_all add: tm_work_left_def\<close>)
qed

lemma worker_step_workers: "worker_step env s s' \<Longrightarrow> tm_workers s' = tm_workers s"
proof (induction rule: worker_step.induct)
  case (worker_take s s')
  then show ?case by (rule tm_take_Some) simp
next
  case (worker_work t ph s fault)
  from tm_work_worked [of "env\<lparr> te_fault := fault \<rparr>" t ph s] show ?case by cases simp_all
qed

lemma reachable_workers: "tm_reachable env s \<Longrightarrow> 0 < tm_workers s"
proof (induction rule: tm_reachable.induct)
  case (tm_start n ok s)
  then show ?case using tm_new_Inr by fastforce
next
  case (tm_next s s')
  from tm_next(2) show ?case
  proof cases
    case (step_submit q cb r)
    from step_submit(2) show ?thesis by (cases rule: tm_submit_cases) (use tm_next.IH in auto)
  next
    case step_worker
    with tm_next.IH show ?thesis by (simp add: worker_step_workers)
  qed (use tm_next.IH in \<open>simp_all add: tm_cancel_def tm_shutdown_def\<close>)
qed

lemma quiescent_empty:
  assumes "0 < tm_workers s" and "\<nexists>u. worker_step env s u"
  shows "tm_queue s = []" and "tm_running s = []"
proof -
  show r: "tm_running s = []"
  proof (rule ccontr)
    assume "tm_running s \<noteq> []"
    then obtain t ph where "(t, ph) \<in> set (tm_running s)" by (cases "tm_running s") auto
    from worker_work [OF this] assms(2) show False by blast
  qed
  show "tm_queue s = []"
  proof (rule ccontr)
    assume "tm_queue s \<noteq> []"
    with r assms(1) obtain u where "tm_take s = Some u" by (cases "tm_queue s") (auto simp: tm_take_def Let_def)
    from worker_take [OF this] assms(2) show False by blast
  qed
qed

lemma worker_steps_reachable:
  "(worker_step env)\<^sup>*\<^sup>* s s' \<Longrightarrow> tm_reachable env s \<Longrightarrow> tm_reachable env s' \<and> tm_nextSequence s' = tm_nextSequence s"
proof (induction rule: rtranclp_induct)
  case (step u v)
  from step.IH [OF step.prems] have "tm_reachable env v"
    using tm_next step_worker [OF step.hyps(2)] by blast
  with step.IH [OF step.prems] worker_step_tickets [OF step.hyps(2)] show ?case by simp
qed simp

text \<open>C19: From any reachable state the workers, left to themselves, always come to rest, however
  their steps interleave and whatever the back end throws; and at rest every transfer ever
  submitted has its promise fulfilled, so no future waits forever.\<close>
theorem every_promise_fulfilled:
  assumes "tm_reachable env s"
  shows "(\<nexists>f. f 0 = s \<and> (\<forall>i. worker_step env (f i) (f (Suc i)))) \<and>
         (\<forall>s'. (worker_step env)\<^sup>*\<^sup>* s s' \<and> (\<nexists>u. worker_step env s' u) \<longrightarrow>
            tm_queue s' = [] \<and> tm_running s' = [] \<and>
            (\<forall>n < tm_nextSequence s. \<exists>t r. (t, r) \<in> set (tm_finished s') \<and> tk_sequence t = n))"
proof (intro conjI allI impI)
  show "\<nexists>f. f 0 = s \<and> (\<forall>i. worker_step env (f i) (f (Suc i)))"
  proof
    assume "\<exists>f. f 0 = s \<and> (\<forall>i. worker_step env (f i) (f (Suc i)))"
    then obtain f where "\<forall>i. worker_step env (f i) (f (Suc i))" by blast
    then have dec: "tm_work_left (f (Suc i)) < tm_work_left (f i)" for i using worker_step_progress by blast
    have "tm_work_left (f i) + i \<le> tm_work_left (f 0)" for i
    proof (induction i)
      case (Suc i)
      with dec [of i] show ?case by simp
    qed simp
    from this [of "Suc (tm_work_left (f 0))"] show False by simp
  qed
  fix s'
  assume a: "(worker_step env)\<^sup>*\<^sup>* s s' \<and> (\<nexists>u. worker_step env s' u)"
  from worker_steps_reachable a assms have r: "tm_reachable env s'" and n: "tm_nextSequence s' = tm_nextSequence s"
    by blast+
  from quiescent_empty [OF reachable_workers [OF r]] a
  show q: "tm_queue s' = []" "tm_running s' = []" by blast+
  fix k
  assume k: "k < tm_nextSequence s"
  from reachable_conserved [OF r] q n
  have "image_mset (tk_sequence \<circ> fst) (mset (tm_finished s')) = mset [0..<tm_nextSequence s]"
    by (simp add: tm_conserved_def tm_tickets_def)
  from arg_cong [OF this, of set_mset] have "(tk_sequence \<circ> fst) ` set (tm_finished s') = {0..<tm_nextSequence s}"
    by simp
  with k have "k \<in> (tk_sequence \<circ> fst) ` set (tm_finished s')" by simp
  then show "\<exists>t r. (t, r) \<in> set (tm_finished s') \<and> tk_sequence t = k" by fastforce
qed

section \<open>Shutdown\<close>

text \<open>Ticket \<open>n\<close> can only end in a cancellation: its flag is set, and no worker is past the first
  check with it.\<close>

definition doomed :: "nat \<Rightarrow> transfer_manager \<Rightarrow> bool" where
  "doomed n s \<longleftrightarrow> tm_stopping s \<and> n \<in> tm_cancelled s \<and>
     (\<forall>(t, ph) \<in> set (tm_running s). tk_sequence t = n \<longrightarrow> ph = Taken) \<and>
     (\<forall>(t, r) \<in> set (tm_finished s). tk_sequence t = n \<longrightarrow> r = Inr cancelledResult)"

lemma doomed_fulfil:
  "doomed n s \<Longrightarrow> tk_sequence t = n \<longrightarrow> r = Inr cancelledResult \<Longrightarrow> doomed n (fulfil t ph r s)"
  unfolding doomed_def fulfil_fields by (auto simp del: set_remove1_eq dest!: in_remove1D)

lemma doomed_setPhase: "doomed n s \<Longrightarrow> tk_sequence t \<noteq> n \<Longrightarrow> doomed n (setPhase t ph ph' s)"
  unfolding doomed_def setPhase_fields by (auto simp del: set_remove1_eq dest!: in_remove1D)

lemma doomed_frame: "doomed n (s\<lparr> tm_nextCompletion := m \<rparr>) = doomed n s"
  by (simp add: doomed_def)

lemma worker_step_doomed:
  assumes "worker_step env s s'" and d: "doomed n s"
  shows "doomed n s'"
  using assms(1)
proof cases
  case worker_take
  then show ?thesis by (rule tm_take_Some) (use d in \<open>auto simp: doomed_def\<close>)
next
  case (worker_work t ph fault)
  have c: "n \<in> tm_cancelled s" using d by (simp add: doomed_def)
  from tm_work_worked [of "env\<lparr> te_fault := fault \<rparr>" t ph s] show ?thesis
    unfolding worker_work(1)
    by cases (use d c in \<open>auto intro!: doomed_fulfil doomed_setPhase simp: doomed_frame\<close>)
qed

lemma tm_step_doomed:
  assumes "tm_step env s s'" and d: "doomed n s"
  shows "doomed n s'"
  using assms(1)
proof cases
  case (step_submit q cb r)
  from step_submit(2) show ?thesis by (cases rule: tm_submit_cases) (use d in \<open>auto simp: doomed_def\<close>)
next
  case step_worker
  then show ?thesis using worker_step_doomed d by blast
qed (use d in \<open>simp_all add: doomed_def tm_cancel_def tm_shutdown_def\<close>)

text \<open>When the manager stops, everything queued is cancelled.\<close>

lemma reachable_stopping:
  "tm_reachable env s \<Longrightarrow> tm_stopping s \<longrightarrow> (\<forall>t \<in> set (tm_queue s). tk_sequence t \<in> tm_cancelled s)"
proof (induction rule: tm_reachable.induct)
  case (tm_start n ok s)
  then show ?case using tm_new_Inr by fastforce
next
  case (tm_next s s')
  from tm_next(2) show ?case
  proof cases
    case (step_submit q cb r)
    from step_submit(2) show ?thesis by (cases rule: tm_submit_cases) (use tm_next.IH in auto)
  next
    case step_worker
    then show ?thesis
    proof cases
      case worker_take
      then show ?thesis
        by (rule tm_take_Some) (use tm_next.IH in \<open>auto simp del: set_remove1_eq dest!: in_remove1D\<close>)
    next
      case (worker_work t ph fault)
      from tm_work_worked [of "env\<lparr> te_fault := fault \<rparr>" t ph s] tm_next.IH show ?thesis
        unfolding worker_work(1) by cases simp_all
    qed
  qed (use tm_next.IH in \<open>auto simp: tm_cancel_def tm_shutdown_def\<close>)
qed

lemma queued_doomed:
  assumes "tm_reachable env s" and "tm_stopping s" and t: "t \<in> set (tm_queue s)"
  shows "doomed (tk_sequence t) s"
proof -
  let ?n = "tk_sequence t"
  have "count (mset [0..<tm_nextSequence s]) ?n \<le> 1"
    using distinct_upt [of 0 "tm_nextSequence s", unfolded distinct_count_atmost_1] by simp
  then have "count (tm_tickets s) ?n \<le> 1"
    using reachable_conserved [OF assms(1)] by (simp only: tm_conserved_def)
  moreover have "1 \<le> count (image_mset tk_sequence (mset (tm_queue s))) ?n"
    using t by (metis One_nat_def Suc_leI count_greater_zero_iff image_eqI set_image_mset set_mset_mset)
  ultimately have "count (image_mset (tk_sequence \<circ> fst) (mset (tm_running s))) ?n = 0 \<and>
      count (image_mset (tk_sequence \<circ> fst) (mset (tm_finished s))) ?n = 0"
    unfolding tm_tickets_def count_union by linarith
  then have "?n \<notin># image_mset (tk_sequence \<circ> fst) (mset (tm_running s)) \<and>
      ?n \<notin># image_mset (tk_sequence \<circ> fst) (mset (tm_finished s))"
    unfolding count_eq_zero_iff .
  then have "\<forall>(u, ph) \<in> set (tm_running s). tk_sequence u \<noteq> ?n" "\<forall>(u, r) \<in> set (tm_finished s). tk_sequence u \<noteq> ?n"
    by (auto simp: rev_image_eqI)
  with reachable_stopping [OF assms(1)] assms(2,3) show ?thesis unfolding doomed_def by blast
qed

text \<open>After shutdown has begun, \<open>submit\<close> is refused and changes nothing, and every task that
  was still queued then is answered, if at all, with the cancelled result, through whatever
  steps follow.\<close>
theorem shutdown_cancels_queued:
  assumes "tm_reachable env s" and "tm_stopping s" and "t \<in> set (tm_queue s)"
    and "(tm_step env)\<^sup>*\<^sup>* s s'" and "(u, r) \<in> set (tm_finished s')" and "tk_sequence u = tk_sequence t"
  shows "r = Inr cancelledResult \<and>
         (\<forall>q cb. \<exists>e. tm_submit q cb s' = (Inl e, s'))"
proof -
  have "doomed (tk_sequence t) s'"
    using assms(4) queued_doomed [OF assms(1-3)]
    by (induction rule: rtranclp_induct) (blast intro: tm_step_doomed)+
  then have "tm_stopping s'" "r = Inr cancelledResult" using assms(5,6) by (auto simp: doomed_def)
  then show ?thesis by (simp add: tm_submit_def guard_runs)
qed

section \<open>A run\<close>

definition cpu_example :: compute_backend where
  "cpu_example = \<lparr> be_ref = 0, be_kind = Cpu, be_ordinal = 0, be_available = True, be_supportsPinned = False \<rparr>"

definition task_example :: "int \<Rightarrow> nat \<Rightarrow> transfer_task" where
  "task_example p n = \<lparr> tk_request = transfer_request_default\<lparr> tr_layerId := 1, tr_expertId := 2,
     tr_destination := Ram, tr_priority := p \<rparr>, tk_callback = None, tk_sequence = n \<rparr>"

definition tm_example :: transfer_manager where
  "tm_example = \<lparr> tm_workers = 1, tm_queue = [task_example 0 0], tm_running = [], tm_finished = [],
     tm_cancelled = {}, tm_nextSequence = 1, tm_nextCompletion = 0, tm_nextBuffer = 0,
     tm_stopping = False \<rparr>"

lemma tm_example_reachable:
  assumes "te_backend env = cpu_example"
  shows "tm_reachable env tm_example"
proof -
  define s0 where "s0 = tm_example\<lparr> tm_queue := [], tm_nextSequence := 0 \<rparr>"
  have "tm_new (Some (te_loader env)) (Some (te_backend env)) 1 True = Inr s0"
    by (simp add: tm_new_def assms cpu_example_def s0_def tm_example_def)
  then have "tm_reachable env s0" by (rule tm_start)
  moreover have "tm_submit (tk_request (task_example 0 0)) None s0 = (Inr 0, tm_example)"
    by (simp add: tm_submit_def guard_runs s0_def tm_example_def task_example_def)
  moreover have "request_fits (tk_request (task_example 0 0))"
    by (simp add: request_fits_def task_example_def transfer_request_default_def)
  ultimately show ?thesis by (blast intro: tm_next step_submit)
qed

abbreviation tm_held :: "transfer_phase \<Rightarrow> nat \<Rightarrow> transfer_manager" where
  "tm_held ph n \<equiv> tm_example\<lparr> tm_queue := [], tm_running := [(task_example 0 0, ph)], tm_nextBuffer := n \<rparr>"

lemma tm_example_take: "tm_take tm_example = Some (tm_held Taken 0)"
  by (simp add: tm_take_def tm_example_def)

lemma tm_example_completes:
  assumes "te_backend env = cpu_example" and "dl_load (te_loader env) (te_dir env) 1 2 = Inr x"
  obtains s res where "tm_reachable env s" and "tm_finished s = [(task_example 0 0, Inr res)]"
    and "ts_status res = Completed"
proof -
  let ?t = "task_example 0 0"
  let ?h = "FromHost \<lparr> hb_ref = 0, hb_bytes = le_bytes x \<rparr>"
  define res where "res = (newResult (tk_request ?t) (le_record x))\<lparr> ts_buffer := Some \<lparr> hb_ref = 0, hb_bytes = le_bytes x \<rparr> \<rparr>"
  have work: "tm_reachable env (tm_work env ?t ph s)" if "tm_reachable env s" "(?t, ph) \<in> set (tm_running s)" for ph s
    using worker_work [OF that(2), of env "te_fault env"] that(1) by (auto intro: tm_next step_worker)
  have 1: "tm_reachable env (tm_held Taken 0)"
    using tm_example_reachable [OF assms(1)] tm_example_take by (blast intro: tm_next step_worker worker_take)
  have "tm_work env ?t Taken (tm_held Taken 0) = tm_held (Loaded (le_record x) ?h) 2"
    using assms(2) by (simp add: resolveSource_def setPhase_def task_example_def transfer_request_default_def tm_example_def)
  with work [OF 1] have 2: "tm_reachable env (tm_held (Loaded (le_record x) ?h) 2)" by simp
  have "tm_work env ?t (Loaded (le_record x) ?h) (tm_held (Loaded (le_record x) ?h) 2) = tm_held (Delivered res) 4"
    by (simp add: deliver_def deliverRam_def setPhase_def task_example_def transfer_request_default_def tm_example_def
        early_completion_def res_def)
  with work [OF 2] have 3: "tm_reachable env (tm_held (Delivered res) 4)" by simp
  let ?s = "tm_work env ?t (Delivered res) (tm_held (Delivered res) 4)"
  have "tm_reachable env ?s" by (rule work [OF 3]) simp
  moreover have "tm_finished ?s = [(?t, Inr (res\<lparr> ts_completionOrder := 0 \<rparr>))]"
    by (simp add: complete_def Let_def task_example_def tm_example_def)
  ultimately show thesis by (rule that) (simp add: res_def)
qed

text \<open>A store with one expert, created, opened and handed to a loader.\<close>

lemma env_example:
  obtains env x where "te_backend env = cpu_example" and "loader_ok env"
    and "dl_load (te_loader env) (te_dir env) 1 2 = Inr x" and "le_bytes x = [9, 8, 7]"
proof -
  obtain d' where d': "st_create [blob_example] ''{}'' Map.empty = (Inr (), d')"
    and small: "\<forall>bs \<in> ran d'. length bs < 2 ^ 63" by (rule create_example)
  from st_create_open [OF d' small] obtain st B where st: "st_open d' = Inr st"
    and B: "d' ''experts.bin'' = Some B" and h: "holds_blobs st B [blob_example]" by blast
  define env where "env = \<lparr> te_loader = \<lparr> dl_store = st, dl_mode = MemoryMap \<rparr>, te_dir = d',
    te_backend = cpu_example, te_fault = \<lambda>_. None \<rparr>"
  have "st_mappedExpert st 1 2 True = Inr [9, 8, 7]"
    using holds_blobs_read(1) [where d = d' and v = True, OF h _ B, of blob_example]
    by (simp add: blob_example_def)
  moreover obtain r where "ix_find (st_index st) 1 2 = Some r"
    using h by (auto simp: holds_blobs_def blob_example_def)
  ultimately have "dl_load (te_loader env) (te_dir env) 1 2 = Inr \<lparr> le_record = r, le_bytes = [9, 8, 7] \<rparr>"
    by (simp add: dl_load_def env_def)
  then show thesis
    by (rule that [of env, rotated 2]) (use st small in \<open>simp_all add: env_def loader_ok_def\<close>)
qed

theorem no_transfer_lost_witness:
  "\<exists>env s res. tm_reachable env s \<and> tm_finished s = [(task_example 0 0, Inr res)] \<and>
     image_mset tk_sequence (mset (tm_queue s)) +
     image_mset (tk_sequence \<circ> fst) (mset (tm_running s)) +
     image_mset (tk_sequence \<circ> fst) (mset (tm_finished s)) = mset [0..<tm_nextSequence s]"
proof -
  obtain env x where be: "te_backend env = cpu_example"
    and "loader_ok env" and x: "dl_load (te_loader env) (te_dir env) 1 2 = Inr x"
    and "le_bytes x = [9, 8, 7]" by (rule env_example)
  obtain s res where s: "tm_reachable env s" "tm_finished s = [(task_example 0 0, Inr res)]"
    by (rule tm_example_completes [OF be x])
  from no_transfer_lost [OF s(1)] s show ?thesis by blast
qed

theorem transfer_delivers_payload_witness:
  "\<exists>env s res. tm_reachable env s \<and> (task_example 0 0, Inr res) \<in> set (tm_finished s) \<and>
     ts_status res = Completed \<and> delivered res = Some [9, 8, 7]"
proof -
  obtain env x where be: "te_backend env = cpu_example" and ok: "loader_ok env"
    and x: "dl_load (te_loader env) (te_dir env) 1 2 = Inr x" and bs: "le_bytes x = [9, 8, 7]"
    by (rule env_example)
  obtain s res where s: "tm_reachable env s" "tm_finished s = [(task_example 0 0, Inr res)]"
    "ts_status res = Completed" by (rule tm_example_completes [OF be x])
  have f: "(task_example 0 0, Inr res) \<in> set (tm_finished s)" by (simp add: s(2))
  have "payload env (tk_request (task_example 0 0)) = Some [9, 8, 7]"
    using x bs by (simp add: payload_def task_example_def transfer_request_default_def)
  with transfer_delivers_payload [OF s(1) ok f s(3)] have "delivered res = Some [9, 8, 7]" by simp
  with s f show ?thesis by blast
qed

theorem every_promise_fulfilled_witness:
  "\<exists>env. tm_reachable env tm_example \<and>
     (\<nexists>f. f 0 = tm_example \<and> (\<forall>i. worker_step env (f i) (f (Suc i))))"
proof -
  obtain env x where "te_backend env = cpu_example"
    and "loader_ok env" and "dl_load (te_loader env) (te_dir env) 1 2 = Inr x"
    and "le_bytes x = [9, 8, 7]" by (rule env_example)
  then have r: "tm_reachable env tm_example" by (simp add: tm_example_reachable)
  from every_promise_fulfilled [OF r] r show ?thesis by blast
qed

end
