(* ===== verification/Scheduler.thy ===== *)
theory Scheduler
  imports Residency_State Runtime_Event Prefetcher Buffers Priority_Queue
begin

text \<open>
  \<^verbatim>\<open>src/scheduler/Scheduler.cpp\<close>. Tasks live in a store and are named by their position in it, so
  a \<open>shared_ptr<Task>\<close> is that number; the promise of a task, the callbacks and the published
  events are entries of a log, in the order they happen. A callback is a number: what it does
  with its result is outside the scheduler, and the code swallows what it throws.

  A worker's run through one task is cut at its lock operations: \<open>Picked\<close> (popped, not yet
  begun), \<open>Waiting\<close> (the transfer is submitted), \<open>Arrived\<close> (marked ready), \<open>Finishing\<close> (a result is
  there) and \<open>Answering\<close> (before the critical section of \<open>complete\<close>). The outcome of the transfer
  is an argument of the step that receives it. The profiler is the counters of prefetching;
  the other measurements are left out. \<open>readyResult\<close> takes the lock a second time; here it reads
  in the same step.
\<close>

section \<open>Requests and results\<close>

datatype transfer_priority = BackgroundMaintenance | CacheWarming | PredictedNextLayer | ActiveInference

fun priority_code :: "transfer_priority \<Rightarrow> int" where
  "priority_code BackgroundMaintenance = 100"
| "priority_code CacheWarming = 200"
| "priority_code PredictedNextLayer = 300"
| "priority_code ActiveInference = 400"

record schedule_request =
  sq_layerId :: layer_id
  sq_expertId :: expert_id
  sq_source :: memory_tier
  sq_destination :: memory_tier
  sq_priority :: transfer_priority
  sq_hostBuffer :: "host_buffer option"
  sq_pinnedBuffer :: "pinned_buffer option"
  sq_deviceBuffer :: "device_buffer option"
  sq_eviction :: bool
  sq_priorityScore :: real

definition schedule_request_default :: schedule_request where
  "schedule_request_default = \<lparr> sq_layerId = 0, sq_expertId = 0, sq_source = Nvme,
     sq_destination = Vram, sq_priority = ActiveInference, sq_hostBuffer = None,
     sq_pinnedBuffer = None, sq_deviceBuffer = None, sq_eviction = False, sq_priorityScore = 0 \<rparr>"

record schedule_result =
  sr_success :: bool
  sr_cancelled :: bool
  sr_transfer :: "transfer_result option"
  sr_state :: "expert_state option"
  sr_error :: "exn option"

definition schedule_result_default :: schedule_result where
  "schedule_result_default = \<lparr> sr_success = False, sr_cancelled = False, sr_transfer = None,
     sr_state = None, sr_error = None \<rparr>"

section \<open>State\<close>

record sched_task =
  sk_request :: schedule_request
  sk_callbacks :: "nat list"
  sk_cancelled :: bool
  sk_generation :: nat
  sk_started :: bool
  sk_completed :: bool
  sk_prefetchRequest :: bool
  sk_activeConsumer :: bool

record queue_entry =
  qe_task :: nat
  qe_priority :: transfer_priority
  qe_sequence :: nat
  qe_generation :: nat
  qe_priorityScore :: real

datatype sched_phase = Picked | Waiting | Arrived transfer_result | Finishing schedule_result
  | Answering schedule_result

datatype sched_effect = Notified nat schedule_result | Published runtime_event | Resolved nat schedule_result

record prefetch_counters =
  pf_requests :: nat
  pf_hits :: nat
  pf_misses :: nat
  pf_useful :: nat
  pf_wasted :: nat
  pf_late :: nat

record scheduler =
  sc_workers :: nat
  sc_prefetchDestination :: memory_tier
  sc_maximumPrefetchBytes :: u64
  sc_profiler :: "prefetch_counters option"
  sc_cudaBackend :: bool
  sc_states :: residency_states
  sc_tasks :: "sched_task list"
  sc_queue :: "queue_entry list"
  sc_pending :: "(expert_key \<times> nat) list"
  sc_resident :: "expert_key \<rightharpoonup> transfer_result"
  sc_prefetchedReady :: "expert_key list"
  sc_running :: "(nat \<times> sched_phase) list"
  sc_nextSequence :: nat
  sc_stopping :: bool
  sc_log :: "sched_effect list"

type_synonym 'a scp = "(scheduler, 'a) prog"

definition sc_new :: "bool \<Rightarrow> bool \<Rightarrow> prefetch_counters option \<Rightarrow> nat \<Rightarrow> memory_tier \<Rightarrow> u64 \<Rightarrow> exn + scheduler" where
  "sc_new hasTransfers cuda profiler workers dest maxBytes =
     (if \<not> hasTransfers then Inl (InvalidArgument ''Scheduler requires a TransferManager'')
      else if workers = 0 then Inl (InvalidArgument ''Scheduler requires a worker'')
      else if (dest \<noteq> Ram \<and> dest \<noteq> Vram) \<or> maxBytes = 0
      then Inl (InvalidArgument ''invalid scheduler prefetch budget or tier'')
      else Inr \<lparr> sc_workers = workers, sc_prefetchDestination = dest, sc_maximumPrefetchBytes = maxBytes,
             sc_profiler = profiler, sc_cudaBackend = cuda, sc_states = [], sc_tasks = [],
             sc_queue = [], sc_pending = [], sc_resident = Map.empty, sc_prefetchedReady = [],
             sc_running = [], sc_nextSequence = 0, sc_stopping = False, sc_log = [] \<rparr>)"

definition on_states :: "'a rsp \<Rightarrow> 'a scp" where
  [prog_defs]: "on_states = zoom sc_states (\<lambda>st s. s\<lparr> sc_states := st \<rparr>)"

abbreviation request_key :: "schedule_request \<Rightarrow> expert_key" where
  "request_key q \<equiv> key (sq_layerId q) (sq_expertId q)"

definition sc_event :: "event_type \<Rightarrow> schedule_request \<Rightarrow> sched_effect" where
  "sc_event t q = Published \<lparr> ev_type = t, ev_expertId = sq_expertId q, ev_layerId = sq_layerId q,
     ev_source = sq_source q, ev_destination = sq_destination q, ev_message = [] \<rparr>"

definition log_effects :: "sched_effect list \<Rightarrow> scheduler \<Rightarrow> scheduler" where
  "log_effects es s = s\<lparr> sc_log := sc_log s @ es \<rparr>"

definition set_task :: "nat \<Rightarrow> (sched_task \<Rightarrow> sched_task) \<Rightarrow> scheduler \<Rightarrow> scheduler" where
  "set_task i f s = s\<lparr> sc_tasks := (sc_tasks s)[i := f (sc_tasks s ! i)] \<rparr>"

definition count_prefetch :: "(prefetch_counters \<Rightarrow> prefetch_counters) \<Rightarrow> scheduler \<Rightarrow> scheduler" where
  "count_prefetch f s = s\<lparr> sc_profiler := map_option f (sc_profiler s) \<rparr>"

section \<open>Scheduling a request\<close>

definition sc_registerExpert :: "nat \<Rightarrow> layer_id \<Rightarrow> expert_id \<Rightarrow> memory_tier \<Rightarrow> unit scp" where
  "sc_registerExpert now l i t = on_states (rs_registerExpert now l i t)"

definition hit_useful :: "prefetch_counters \<Rightarrow> prefetch_counters" where
  "hit_useful c = c\<lparr> pf_hits := pf_hits c + 1, pf_useful := pf_useful c + 1 \<rparr>"

definition miss_late :: "prefetch_counters \<Rightarrow> prefetch_counters" where
  "miss_late c = c\<lparr> pf_misses := pf_misses c + 1, pf_late := pf_late c + 1 \<rparr>"

text \<open>Lines 70 to 89: what the profiler is told, and, only when there is one, that an active
  request takes the expert out of the set of unused prefetches.\<close>

definition account_request :: "schedule_request \<Rightarrow> expert_state \<Rightarrow> nat option \<Rightarrow> scheduler \<Rightarrow> scheduler" where
  "account_request q init existing s =
     (if sc_profiler s = None then s
      else
        (let k = request_key q;
             ready = (es_currentLocation init = sq_destination q \<and> es_state init = Ready);
             s1 = (if sq_priority q = PredictedNextLayer
                   then count_prefetch (\<lambda>c. c\<lparr> pf_requests := pf_requests c + 1 \<rparr>) s else s)
         in if sq_priority q \<noteq> ActiveInference then s1
            else
              (let was = (k \<in> set (sc_prefetchedReady s1));
                   s2 = s1\<lparr> sc_prefetchedReady := removeAll k (sc_prefetchedReady s1) \<rparr>
               in if was \<and> ready then count_prefetch hit_useful s2
                  else (case existing of
                    None \<Rightarrow> s2
                  | Some i \<Rightarrow>
                      if \<not> sk_prefetchRequest (sc_tasks s2 ! i) then s2
                      else if ready then count_prefetch hit_useful (set_task i (\<lambda>t. t\<lparr> sk_activeConsumer := True \<rparr>) s2)
                      else count_prefetch miss_late s2))))"

definition insert_ready :: "expert_key \<Rightarrow> scheduler \<Rightarrow> scheduler" where
  "insert_ready k s = s\<lparr> sc_prefetchedReady := List.insert k (sc_prefetchedReady s) \<rparr>"

definition push_entry :: "nat \<Rightarrow> scheduler \<Rightarrow> scheduler" where
  "push_entry i s =
     (let t = sc_tasks s ! i
      in s\<lparr> sc_queue := sc_queue s @ [\<lparr> qe_task = i, qe_priority = sq_priority (sk_request t),
                qe_sequence = sc_nextSequence s, qe_generation = sk_generation t,
                qe_priorityScore = sq_priorityScore (sk_request t) \<rparr>],
            sc_nextSequence := Suc (sc_nextSequence s) \<rparr>)"

text \<open>Lines 102 to 121: joining a pending task.\<close>

definition join_task :: "nat \<Rightarrow> schedule_request \<Rightarrow> nat option \<Rightarrow> scheduler \<Rightarrow> scheduler" where
  "join_task i q cb s =
     (let s1 = set_task i (\<lambda>t. t\<lparr> sk_callbacks := sk_callbacks t @ (case cb of None \<Rightarrow> [] | Some c \<Rightarrow> [c]),
                  sk_activeConsumer := (sk_activeConsumer t \<or> sq_priority q = ActiveInference) \<rparr>) s;
          t = sc_tasks s1 ! i;
          higher = priority_code (sq_priority q) > priority_code (sq_priority (sk_request t));
          better = (sq_priority q = sq_priority (sk_request t) \<and>
                    sq_priorityScore q > sq_priorityScore (sk_request t))
      in if (higher \<or> better) \<and> \<not> sk_started t
         then push_entry i (set_task i (\<lambda>t. t\<lparr> sk_generation := Suc (sk_generation t),
                sk_request := (sk_request t)\<lparr>
                  sq_priority := (if higher then sq_priority q else sq_priority (sk_request t)),
                  sq_priorityScore := max (sq_priorityScore (sk_request t)) (sq_priorityScore q) \<rparr> \<rparr>) s1)
         else s1)"

text \<open>Lines 132 to 145: a new task for the request.\<close>

definition new_task :: "schedule_request \<Rightarrow> nat option \<Rightarrow> sched_task" where
  "new_task q cb = \<lparr> sk_request = q, sk_callbacks = (case cb of None \<Rightarrow> [] | Some c \<Rightarrow> [c]),
     sk_cancelled = False, sk_generation = 0, sk_started = False, sk_completed = False,
     sk_prefetchRequest = (sq_priority q = PredictedNextLayer),
     sk_activeConsumer = (sq_priority q = ActiveInference) \<rparr>"

definition enqueue_task :: "schedule_request \<Rightarrow> nat option \<Rightarrow> scheduler \<Rightarrow> scheduler" where
  "enqueue_task q cb s =
     (let i = length (sc_tasks s)
      in push_entry i (s\<lparr> sc_tasks := sc_tasks s @ [new_task q cb],
                          sc_pending := AList.update (request_key q) i (sc_pending s) \<rparr>))"

definition readyResult :: "schedule_request \<Rightarrow> nat option \<Rightarrow> schedule_result scp" where
  "readyResult q cb =
     bindp (on_states (rs_snapshot (sq_layerId q) (sq_expertId q))) (\<lambda>st.
     bindp (gets (\<lambda>s. schedule_result_default\<lparr> sr_success := True,
              sr_transfer := sc_resident s (request_key q), sr_state := Some st \<rparr>)) (\<lambda>r.
     thenp (modify (log_effects ((case cb of None \<Rightarrow> [] | Some c \<Rightarrow> [Notified c r]) @ [sc_event ExpertReady q])))
           (ret r)))"

datatype schedule_handle = Ticket nat | Immediate schedule_result

definition is_immediate :: "schedule_request \<Rightarrow> expert_state \<Rightarrow> nat option \<Rightarrow> bool" where
  "is_immediate q init existing \<longleftrightarrow> existing = None \<and> \<not> sq_eviction q \<and>
     es_currentLocation init = sq_destination q \<and> es_state init \<in> {Ready, InUse}"

definition schedule :: "schedule_request \<Rightarrow> nat option \<Rightarrow> schedule_handle scp" where
  "schedule q cb =
     thenp (modify (log_effects [sc_event ExpertRequested q]))
    (bindp (gets sc_stopping) (\<lambda>stopping.
     thenp (require (\<not> stopping) (RuntimeError ''Scheduler is shutting down''))
    (bindp (on_states (rs_snapshot (sq_layerId q) (sq_expertId q))) (\<lambda>init.
     bindp (gets (\<lambda>s. map_of (sc_pending s) (request_key q))) (\<lambda>existing.
     thenp (modify (account_request q init existing))
    (if is_immediate q init existing
     then thenp (modify (\<lambda>s. if sq_priority q = PredictedNextLayer then insert_ready (request_key q) s else s))
               (bindp (readyResult q cb) (\<lambda>r. ret (Immediate r)))
     else (case existing of
       Some i \<Rightarrow>
         bindp (gets (\<lambda>s. sq_destination (sk_request (sc_tasks s ! i)))) (\<lambda>d.
         thenp (require (d = sq_destination q) (LogicError ''expert already has a different pending target''))
        (thenp (modify (join_task i q cb)) (ret (Ticket i))))
     | None \<Rightarrow>
         thenp (on_states (if sq_eviction q
                  then rs_beginEviction (sq_layerId q) (sq_expertId q) (sq_destination q)
                  else thenp (rs_request (sq_layerId q) (sq_expertId q) (sq_destination q))
                             (rs_markQueued (sq_layerId q) (sq_expertId q))))
        (bindp (gets (\<lambda>s. length (sc_tasks s))) (\<lambda>i.
         thenp (modify (enqueue_task q cb)) (ret (Ticket i)))))))))))"

definition prefetch_request :: "memory_tier \<Rightarrow> predicted_request \<Rightarrow> schedule_request" where
  "prefetch_request dest p = schedule_request_default\<lparr> sq_layerId := pr_layerId p,
     sq_expertId := pr_expertId p, sq_source := Nvme, sq_destination := dest,
     sq_priority := PredictedNextLayer,
     sq_priorityScore := clamp (0.7 * pr_probability p + 0.3 * pr_confidence p) 0 1 \<rparr>"

definition prefetch :: "predicted_request \<Rightarrow> nat option \<Rightarrow> schedule_handle scp" where
  "prefetch p cb = bindp (gets sc_prefetchDestination) (\<lambda>dest. schedule (prefetch_request dest p) cb)"

fun prefetch_all :: "predicted_request list \<Rightarrow> nat option \<Rightarrow> schedule_handle list scp" where
  "prefetch_all [] cb = ret []"
| "prefetch_all (p # ps) cb = bindp (prefetch p cb) (\<lambda>h. bindp (prefetch_all ps cb) (\<lambda>hs. ret (h # hs)))"

section \<open>The other operations of callers\<close>

definition sc_acquire :: "nat \<Rightarrow> layer_id \<Rightarrow> expert_id \<Rightarrow> unit scp" where
  "sc_acquire now l i = on_states (rs_acquire now l i)"

definition sc_release :: "nat \<Rightarrow> layer_id \<Rightarrow> expert_id \<Rightarrow> unit scp" where
  "sc_release now l i = on_states (rs_release now l i)"

definition sc_state :: "layer_id \<Rightarrow> expert_id \<Rightarrow> expert_state scp" where
  "sc_state l i = on_states (rs_snapshot l i)"

definition sc_pendingCount :: "scheduler \<Rightarrow> nat" where
  "sc_pendingCount s = length (sc_pending s)"

text \<open>\<open>ScheduleHandle::cancel\<close>\<close>

definition sc_cancel :: "nat \<Rightarrow> scheduler \<Rightarrow> scheduler" where
  "sc_cancel i s = set_task i (\<lambda>t. t\<lparr> sk_cancelled := True \<rparr>) s"

text \<open>The loop over the prefetched keys; the list is what the iterator has still to visit, and an
  exception of \<open>reconcile\<close> leaves the loop with the erasures made so far.\<close>

fun expire_loop :: "layer_id \<Rightarrow> expert_key list \<Rightarrow> nat \<Rightarrow> nat scp" where
  "expire_loop l [] wasted = ret wasted"
| "expire_loop l (k # ks) wasted =
     (if key_layer k < l
      then thenp (modify (\<lambda>s. s\<lparr> sc_resident := (sc_resident s)(k := None) \<rparr>))
          (thenp (on_states (rs_reconcile (key_layer k) (key_expert k) Nvme))
          (thenp (modify (\<lambda>s. s\<lparr> sc_prefetchedReady := removeAll k (sc_prefetchedReady s) \<rparr>))
             (expire_loop l ks (Suc wasted))))
      else expire_loop l ks wasted)"

definition expirePrefetchesBefore :: "layer_id \<Rightarrow> unit scp" where
  "expirePrefetchesBefore l =
     bindp (gets sc_prefetchedReady) (\<lambda>ks.
     bindp (expire_loop l ks 0) (\<lambda>wasted.
     modify (count_prefetch (\<lambda>c. c\<lparr> pf_wasted := pf_wasted c + wasted \<rparr>))))"

definition cachedTransfer :: "layer_id \<Rightarrow> expert_id \<Rightarrow> scheduler \<Rightarrow> transfer_result option" where
  "cachedTransfer l i s =
     (if map_of (sc_pending s) (key l i) \<noteq> None then None else sc_resident s (key l i))"

definition acknowledgeResidency :: "layer_id \<Rightarrow> expert_id \<Rightarrow> memory_tier \<Rightarrow> unit scp" where
  "acknowledgeResidency l i location =
     bindp (gets (\<lambda>s. map_of (sc_pending s) (key l i))) (\<lambda>p.
     thenp (require (p = None) (LogicError ''cannot adopt a pending scheduler transfer''))
    (thenp (modify (\<lambda>s. s\<lparr> sc_resident := (sc_resident s)(key l i := None) \<rparr>))
    (thenp (modify (\<lambda>s. if key l i \<in> set (sc_prefetchedReady s)
              then count_prefetch hit_useful (s\<lparr> sc_prefetchedReady := removeAll (key l i) (sc_prefetchedReady s) \<rparr>)
              else s))
       (on_states (rs_reconcile l i location)))))"

definition reconcileResidency :: "layer_id \<Rightarrow> expert_id \<Rightarrow> memory_tier \<Rightarrow> unit scp" where
  "reconcileResidency l i location =
     bindp (gets (\<lambda>s. map_of (sc_pending s) (key l i) = None \<and> sc_resident s (key l i) = None)) (\<lambda>idle.
     if idle then on_states (rs_reconcile l i location) else ret ())"

definition sc_shutdown :: "scheduler \<Rightarrow> scheduler" where
  "sc_shutdown s = (if sc_stopping s then s
     else fold sc_cancel (map snd (sc_pending s)) (s\<lparr> sc_stopping := True \<rparr>))"

section \<open>Workers\<close>

definition sc_higherPriority :: "queue_entry \<Rightarrow> queue_entry \<Rightarrow> bool" where
  "sc_higherPriority l r =
     (if qe_priority l \<noteq> qe_priority r then priority_code (qe_priority l) < priority_code (qe_priority r)
      else if qe_priorityScore l \<noteq> qe_priorityScore r then qe_priorityScore l < qe_priorityScore r
      else qe_sequence l > qe_sequence r)"

fun sc_top :: "queue_entry \<Rightarrow> queue_entry list \<Rightarrow> queue_entry" where
  "sc_top e [] = e"
| "sc_top e (f # fs) = sc_top (if sc_higherPriority e f then f else e) fs"

definition entry_live :: "sched_task list \<Rightarrow> queue_entry \<Rightarrow> bool" where
  "entry_live ts e \<longleftrightarrow>
     (let t = ts ! qe_task e
      in \<not> sk_completed t \<and> \<not> sk_started t \<and> qe_generation e = sk_generation t)"

lemma priority_code_inj [simp]: "priority_code a = priority_code b \<longleftrightarrow> a = b"
  by (cases a; cases b) simp_all

lemma sc_higherPriority_iff:
  "sc_higherPriority l r \<longleftrightarrow> priority_code (qe_priority l) < priority_code (qe_priority r) \<or>
     (qe_priority l = qe_priority r \<and> (qe_priorityScore l < qe_priorityScore r \<or>
        (qe_priorityScore l = qe_priorityScore r \<and> qe_sequence r < qe_sequence l)))"
  by (auto simp: sc_higherPriority_def)

interpretation sq: queue_selection sc_higherPriority sc_top
proof
  fix x y z
  show "sc_higherPriority x y \<Longrightarrow> sc_higherPriority y z \<Longrightarrow> sc_higherPriority x z"
    unfolding sc_higherPriority_iff by auto
  show "sc_higherPriority x z \<Longrightarrow> sc_higherPriority x y \<or> sc_higherPriority y z"
    unfolding sc_higherPriority_iff
    by (cases "priority_code (qe_priority x)" "priority_code (qe_priority y)" rule: linorder_cases;
        cases "priority_code (qe_priority y)" "priority_code (qe_priority z)" rule: linorder_cases) auto
qed (auto simp: sc_higherPriority_iff)

lemma length_pop [simp]: "length (remove1 (sc_top e es) (e # es)) = length es"
  using sq.top_in [of e es] by (simp only: length_remove1) simp

text \<open>Lines 316 to 325: pop until an entry is live. The result is the rest of the queue and the
  entry found.\<close>

function (sequential) pop_live :: "sched_task list \<Rightarrow> queue_entry list \<Rightarrow> queue_entry list \<times> queue_entry option" where
  "pop_live ts [] = ([], None)"
| "pop_live ts (e # es) =
     (if entry_live ts (sc_top e es) then (remove1 (sc_top e es) (e # es), Some (sc_top e es))
      else pop_live ts (remove1 (sc_top e es) (e # es)))"
  by pat_completeness auto
termination
  by (relation "measure (length \<circ> snd)") (simp_all del: remove1.simps)

text \<open>Lines 311 to 330: an idle worker takes a task.\<close>

definition sc_take :: "scheduler \<Rightarrow> scheduler" where
  "sc_take s = (case pop_live (sc_tasks s) (sc_queue s) of
     (rest, None) \<Rightarrow> s\<lparr> sc_queue := rest \<rparr>
   | (rest, Some e) \<Rightarrow> set_task (qe_task e) (\<lambda>t. t\<lparr> sk_started := True \<rparr>)
        (s\<lparr> sc_queue := rest, sc_running := (qe_task e, Picked) # sc_running s \<rparr>))"

definition set_phase :: "nat \<Rightarrow> sched_phase \<Rightarrow> sched_phase \<Rightarrow> scheduler \<Rightarrow> scheduler" where
  "set_phase i ph ph' s = s\<lparr> sc_running := (i, ph') # remove1 (i, ph) (sc_running s) \<rparr>"

definition failure :: "bool \<Rightarrow> exn \<Rightarrow> schedule_result" where
  "failure cancelled e = schedule_result_default\<lparr> sr_cancelled := cancelled, sr_error := Some e \<rparr>"

definition task_request :: "nat \<Rightarrow> scheduler \<Rightarrow> schedule_request" where
  "task_request i s = sk_request (sc_tasks s ! i)"

text \<open>Lines 335 to 353. The call of \<open>markLoading\<close> stands outside the handler: what it throws leaves
  the thread function.\<close>

definition sc_begin :: "nat \<Rightarrow> unit scp" where
  "sc_begin i =
     bindp (gets (\<lambda>s. sc_tasks s ! i)) (\<lambda>t.
     if sk_cancelled t
     then modify (set_phase i Picked (Finishing (failure True (RuntimeError ''schedule request cancelled before transfer''))))
     else
       (let q = sk_request t
        in thenp (if sq_eviction q then ret () else on_states (rs_markLoading (sq_layerId q) (sq_expertId q)))
          (bindp (gets sc_cudaBackend) (\<lambda>cuda.
           modify (log_effects ([sc_event TransferStarted q] @
             (if cuda \<and> (sq_source q = Vram \<or> sq_destination q = Vram)
              then [sc_event CudaTransferStarted q] else [])) \<circ> set_phase i Picked Waiting)))))"

definition transfer_of :: "schedule_request \<Rightarrow> transfer_request" where
  "transfer_of q = \<lparr> tr_layerId = sq_layerId q, tr_expertId = sq_expertId q,
     tr_destination = sq_destination q, tr_priority = priority_code (sq_priority q),
     tr_source = sq_source q, tr_hostBuffer = sq_hostBuffer q,
     tr_sourcePinnedBuffer = sq_pinnedBuffer q, tr_sourceDeviceBuffer = sq_deviceBuffer q \<rparr>"

text \<open>Lines 354 to 378: \<open>outcome\<close> is what submitting \<open>transfer_of\<close> the request and waiting for its
  future gave.\<close>

definition sc_receive :: "nat \<Rightarrow> nat \<Rightarrow> exn + transfer_result \<Rightarrow> scheduler \<Rightarrow> scheduler" where
  "sc_receive now i outcome s =
     (case outcome of
        Inl e \<Rightarrow> set_phase i Waiting (Finishing (failure False e)) s
      | Inr res \<Rightarrow>
          if ts_status res = Cancelled
          then set_phase i Waiting (Finishing (failure True (RuntimeError ''transfer cancelled''))) s
          else (let q = task_request i s
                in case on_states (rs_markReady now (sq_layerId q) (sq_expertId q) (sq_destination q)) s of
                     (Inl e, s') \<Rightarrow> set_phase i Waiting (Finishing (failure False e)) s'
                   | (Inr _, s') \<Rightarrow> set_phase i Waiting (Arrived res) s'))"

text \<open>Lines 400 to 421: keeping the speculative transfers within the byte budget, in key order.\<close>

fun trim_loop :: "expert_key \<Rightarrow> expert_key list \<Rightarrow> u64 \<Rightarrow> unit scp" where
  "trim_loop own [] cached = ret ()"
| "trim_loop own (c # cs) cached =
     bindp (gets (\<lambda>s. (sc_resident s c, sc_maximumPrefetchBytes s))) (\<lambda>(found, maximum).
     case found of
       None \<Rightarrow> trim_loop own cs cached
     | Some res \<Rightarrow>
         if er_size (ts_record res) > maximum - cached
         then thenp (modify (\<lambda>s. s\<lparr> sc_resident := (sc_resident s)(c := None),
                               sc_prefetchedReady := removeAll c (sc_prefetchedReady s) \<rparr>))
             (thenp (if c \<noteq> own then on_states (rs_reconcile (key_layer c) (key_expert c) Nvme) else ret ())
             (thenp (modify (count_prefetch (\<lambda>p. p\<lparr> pf_wasted := pf_wasted p + 1 \<rparr>)))
                (trim_loop own cs cached)))
         else trim_loop own cs (cached + er_size (ts_record res)))"

text \<open>Lines 387 to 423.\<close>

definition store_transfer :: "nat \<Rightarrow> transfer_result \<Rightarrow> unit scp" where
  "store_transfer i res =
     bindp (gets (\<lambda>s. sc_tasks s ! i)) (\<lambda>t.
     let k = request_key (sk_request t)
     in thenp (modify (\<lambda>s. s\<lparr> sc_resident := (if sq_destination (sk_request t) = Nvme then (sc_resident s)(k := None)
                                             else (sc_resident s)(k \<mapsto> res)) \<rparr>))
       (if sk_prefetchRequest t \<and> \<not> sk_activeConsumer t
        then thenp (modify (insert_ready k))
            (bindp (gets sc_prefetchedReady) (\<lambda>ks. trim_loop k (sort ks) 0))
        else ret ()))"

definition completion_events :: "schedule_request \<Rightarrow> transfer_result \<Rightarrow> sched_effect list" where
  "completion_events q res = [sc_event TransferCompleted q] @
     (if ts_cudaTransfer res then [sc_event CudaTransferCompleted q] else []) @
     (if sq_eviction q then [sc_event CacheEvicted q] else []) @ [sc_event ExpertReady q]"

text \<open>Lines 387 to 448 inside the handler: an exception turns into a failed result.\<close>

definition sc_store :: "nat \<Rightarrow> transfer_result \<Rightarrow> scheduler \<Rightarrow> scheduler" where
  "sc_store i res s =
     (case store_transfer i res s of
        (Inl e, s') \<Rightarrow> set_phase i (Arrived res) (Finishing (failure False e)) s'
      | (Inr _, s') \<Rightarrow>
          (let q = task_request i s'; s2 = log_effects (completion_events q res) s'
           in case on_states (rs_snapshot (sq_layerId q) (sq_expertId q)) s2 of
                (Inl e, s3) \<Rightarrow> set_phase i (Arrived res) (Finishing (failure False e)) s3
              | (Inr st, s3) \<Rightarrow> set_phase i (Arrived res)
                   (Finishing (schedule_result_default\<lparr> sr_success := True, sr_transfer := Some res, sr_state := Some st \<rparr>)) s3))"

text \<open>\<open>complete\<close>, lines 454 to 459: it may throw when the expert is unknown, outside any handler.\<close>

definition sc_fail :: "nat \<Rightarrow> schedule_result \<Rightarrow> unit scp" where
  "sc_fail i r =
     (if sr_success r then modify (set_phase i (Finishing r) (Answering r))
      else bindp (gets (task_request i)) (\<lambda>q.
        thenp (on_states (rs_markFailed (sq_layerId q) (sq_expertId q)))
       (bindp (on_states (rs_snapshot (sq_layerId q) (sq_expertId q))) (\<lambda>st.
        modify (set_phase i (Finishing r) (Answering (r\<lparr> sr_state := Some st \<rparr>)))))))"

text \<open>\<open>complete\<close>, lines 460 to 482.\<close>

definition sc_answer :: "nat \<Rightarrow> schedule_result \<Rightarrow> scheduler \<Rightarrow> scheduler" where
  "sc_answer i r s =
     (let t = sc_tasks s ! i; k = request_key (sk_request t);
          s1 = s\<lparr> sc_running := remove1 (i, Answering r) (sc_running s) \<rparr>
      in if sk_completed t then s1
         else log_effects (map (\<lambda>c. Notified c r) (sk_callbacks t) @
                (if sr_success r then [] else [sc_event TransferFailed (sk_request t)]) @ [Resolved i r])
              (set_task i (\<lambda>t. t\<lparr> sk_completed := True \<rparr>)
                (if map_of (sc_pending s1) k = Some i
                 then s1\<lparr> sc_pending := AList.delete k (sc_pending s1) \<rparr> else s1)))"

end
