(* ===== verification/Scheduler_Inv.thy ===== *)
theory Scheduler_Inv
  imports Scheduler
begin

text \<open>
  The scheduler as a transition system: callers and workers take turns at its critical sections.
  The invariant ties together the task store, the queue, the table of pending experts, the
  workers, the states of the experts and the answers given so far, and every step keeps it.
\<close>

section \<open>Steps\<close>

inductive sched_worker_step :: "scheduler \<Rightarrow> scheduler \<Rightarrow> bool" where
  sw_take: "sc_queue s \<noteq> [] \<Longrightarrow> length (sc_running s) < sc_workers s \<Longrightarrow> sched_worker_step s (sc_take s)"
| sw_begin: "(i, Picked) \<in> set (sc_running s) \<Longrightarrow> sc_begin i s = (Inr (), s') \<Longrightarrow> sched_worker_step s s'"
| sw_receive: "(i, Waiting) \<in> set (sc_running s) \<Longrightarrow> sched_worker_step s (sc_receive now i outcome s)"
| sw_store: "(i, Arrived res) \<in> set (sc_running s) \<Longrightarrow> sched_worker_step s (sc_store i res s)"
| sw_fail: "(i, Finishing r) \<in> set (sc_running s) \<Longrightarrow> sc_fail i r s = (Inr (), s') \<Longrightarrow> sched_worker_step s s'"
| sw_answer: "(i, Answering r) \<in> set (sc_running s) \<Longrightarrow> sched_worker_step s (sc_answer i r s)"

text \<open>The operations of callers.\<close>

datatype sched_op =
    DoRegister nat layer_id expert_id memory_tier
  | DoSchedule schedule_request "nat option"
  | DoAcquire nat layer_id expert_id
  | DoRelease nat layer_id expert_id
  | DoExpire layer_id
  | DoAcknowledge layer_id expert_id memory_tier
  | DoReconcile layer_id expert_id memory_tier
  | DoCancel nat
  | DoShutdown

fun sched_run :: "sched_op \<Rightarrow> unit scp" where
  "sched_run (DoRegister now l i t) = sc_registerExpert now l i t"
| "sched_run (DoSchedule q cb) = bindp (schedule q cb) (\<lambda>_. ret ())"
| "sched_run (DoAcquire now l i) = sc_acquire now l i"
| "sched_run (DoRelease now l i) = sc_release now l i"
| "sched_run (DoExpire l) = expirePrefetchesBefore l"
| "sched_run (DoAcknowledge l i t) = acknowledgeResidency l i t"
| "sched_run (DoReconcile l i t) = reconcileResidency l i t"
| "sched_run (DoCancel i) = modify (sc_cancel i)"
| "sched_run DoShutdown = modify sc_shutdown"

inductive sched_step :: "scheduler \<Rightarrow> scheduler \<Rightarrow> bool" where
  st_call: "sched_run op s = (r, s') \<Longrightarrow> sched_step s s'"
| st_worker: "sched_worker_step s s' \<Longrightarrow> sched_step s s'"

inductive sched_reachable :: "scheduler \<Rightarrow> bool" where
  sr_start: "sc_new True cuda profiler workers dest maxBytes = Inr s \<Longrightarrow> sched_reachable s"
| sr_next: "sched_reachable s \<Longrightarrow> sched_step s s' \<Longrightarrow> sched_reachable s'"

section \<open>The invariant\<close>

definition resolved :: "sched_effect list \<Rightarrow> nat list" where
  "resolved es = List.map_filter (\<lambda>e. case e of Resolved i r \<Rightarrow> Some i | _ \<Rightarrow> None) es"

lemma resolved_simps [simp]:
  "resolved [] = []"
  "resolved (es @ fs) = resolved es @ resolved fs"
  "resolved (Resolved i r # es) = i # resolved es"
  "resolved (Notified c r # es) = resolved es"
  "resolved (Published ev # es) = resolved es"
  "resolved (sc_event t q # es) = resolved es"
  "resolved (map (\<lambda>c. Notified c r) cs) = []"
  by (simp_all add: resolved_def List.map_filter_def sc_event_def)

definition task_key :: "sched_task \<Rightarrow> expert_key" where
  "task_key t = request_key (sk_request t)"

text \<open>The states an expert may be in, by the progress of its task.\<close>

fun life :: "bool \<Rightarrow> sched_phase option \<Rightarrow> lifecycle set" where
  "life evicts None = {if evicts then Evicting else Queued}"
| "life evicts (Some Picked) = {if evicts then Evicting else Queued}"
| "life evicts (Some Waiting) = {if evicts then Evicting else Loading}"
| "life evicts (Some _) = UNIV"

definition workers_ok :: "sched_task list \<Rightarrow> (nat \<times> sched_phase) list \<Rightarrow> bool" where
  "workers_ok ts run \<longleftrightarrow> distinct (map fst run) \<and>
     fst ` set run = {i. i < length ts \<and> sk_started (ts ! i) \<and> \<not> sk_completed (ts ! i)}"

definition answers_ok :: "sched_task list \<Rightarrow> nat list \<Rightarrow> bool" where
  "answers_ok ts ids \<longleftrightarrow> distinct ids \<and> set ids = {i. i < length ts \<and> sk_completed (ts ! i)}"

definition pending_ok :: "sched_task list \<Rightarrow> (expert_key \<times> nat) list \<Rightarrow> bool" where
  "pending_ok ts p \<longleftrightarrow> distinct (map fst p) \<and>
     (\<forall>k i. map_of p k = Some i \<longleftrightarrow> i < length ts \<and> \<not> sk_completed (ts ! i) \<and> task_key (ts ! i) = k)"

text \<open>An entry of the current generation carries the current urgency of its task.\<close>

definition entry_fresh :: "sched_task \<Rightarrow> queue_entry \<Rightarrow> bool" where
  "entry_fresh t e \<longleftrightarrow> qe_generation e \<le> sk_generation t \<and>
     (qe_generation e = sk_generation t \<longrightarrow> qe_priority e = sq_priority (sk_request t) \<and>
        qe_priorityScore e = sq_priorityScore (sk_request t))"

definition queue_ok :: "sched_task list \<Rightarrow> queue_entry list \<Rightarrow> bool" where
  "queue_ok ts q \<longleftrightarrow> (\<forall>e \<in> set q. qe_task e < length ts \<and> entry_fresh (ts ! qe_task e) e) \<and>
     (\<forall>i < length ts. \<not> sk_started (ts ! i) \<longrightarrow> \<not> sk_completed (ts ! i) \<and>
        (\<exists>e \<in> set q. qe_task e = i \<and> qe_generation e = sk_generation (ts ! i)))"

definition life_ok :: "sched_task list \<Rightarrow> (nat \<times> sched_phase) list \<Rightarrow> residency_states \<Rightarrow> bool" where
  "life_ok ts run st \<longleftrightarrow> (\<forall>i < length ts. \<not> sk_completed (ts ! i) \<longrightarrow>
     (\<exists>e. map_of st (task_key (ts ! i)) = Some e \<and>
        es_state e \<in> life (sq_eviction (sk_request (ts ! i))) (map_of run i)))"

definition sched_inv :: "scheduler \<Rightarrow> bool" where
  "sched_inv s \<longleftrightarrow> workers_ok (sc_tasks s) (sc_running s) \<and>
     answers_ok (sc_tasks s) (resolved (sc_log s)) \<and> pending_ok (sc_tasks s) (sc_pending s) \<and>
     queue_ok (sc_tasks s) (sc_queue s) \<and> life_ok (sc_tasks s) (sc_running s) (sc_states s) \<and>
     sc_workers s > 0"

subsection \<open>Steps that leave the bookkeeping alone\<close>

text \<open>Experts under way keep their record; nobody is unregistered.\<close>

definition rs_keeps :: "residency_states \<Rightarrow> residency_states \<Rightarrow> bool" where
  "rs_keeps st st' \<longleftrightarrow> (\<forall>k e. map_of st k = Some e \<longrightarrow> (\<exists>e'. map_of st' k = Some e' \<and>
     (es_state e \<in> {Queued, Loading, Evicting} \<longrightarrow> e' = e)))"

lemma rs_keeps_refl [simp]: "rs_keeps st st"
  by (simp add: rs_keeps_def)

lemma rs_keeps_trans: "rs_keeps a b \<Longrightarrow> rs_keeps b c \<Longrightarrow> rs_keeps a c"
  unfolding rs_keeps_def by (metis (no_types, lifting))

lemma rs_change_keeps:
  assumes "A \<inter> {Queued, Loading, Evicting} = {}"
  shows "rs_keeps st (snd (rs_change l i A msg f st))"
  using assms by (auto simp: rs_keeps_def rs_change_run update_conv' split: option.split)

lemma rs_quiet_ops:
  "rs_keeps st (snd (rs_registerExpert now l i t st))"
  "rs_keeps st (snd (rs_acquire now l i st))"
  "rs_keeps st (snd (rs_release now l i st))"
  "rs_keeps st (snd (rs_reconcile l i t st))"
  "snd (rs_snapshot l i st) = st"
  by (auto simp: rs_ops intro!: rs_change_keeps)
     (auto simp: rs_keeps_def rs_registerExpert_def rs_snapshot_def split: option.split)

text \<open>The fields of a task the invariant reads.\<close>

definition strip :: "sched_task \<Rightarrow> sched_task" where
  "strip t = t\<lparr> sk_callbacks := [], sk_cancelled := False, sk_prefetchRequest := False, sk_activeConsumer := False \<rparr>"

definition quiet :: "scheduler \<Rightarrow> scheduler \<Rightarrow> bool" where
  "quiet s t \<longleftrightarrow> map strip (sc_tasks t) = map strip (sc_tasks s) \<and> sc_queue t = sc_queue s \<and>
     sc_pending t = sc_pending s \<and> sc_running t = sc_running s \<and> sc_workers t = sc_workers s \<and>
     resolved (sc_log t) = resolved (sc_log s) \<and> rs_keeps (sc_states s) (sc_states t)"

lemma quiet_refl [simp]: "quiet s s"
  by (simp add: quiet_def)

lemma quiet_trans: "quiet a b \<Longrightarrow> quiet b c \<Longrightarrow> quiet a c"
  by (auto simp: quiet_def intro: rs_keeps_trans)

lemma strip_eqD:
  assumes "map strip ts' = map strip ts"
  shows "length ts' = length ts" and "i < length ts \<Longrightarrow> sk_request (ts' ! i) = sk_request (ts ! i) \<and>
    sk_generation (ts' ! i) = sk_generation (ts ! i) \<and> sk_started (ts' ! i) = sk_started (ts ! i) \<and>
    sk_completed (ts' ! i) = sk_completed (ts ! i)"
proof -
  show len: "length ts' = length ts" using assms by (rule map_eq_imp_length_eq)
  assume "i < length ts"
  with assms len have "strip (ts' ! i) = strip (ts ! i)" by (metis nth_map)
  then show "sk_request (ts' ! i) = sk_request (ts ! i) \<and>
    sk_generation (ts' ! i) = sk_generation (ts ! i) \<and> sk_started (ts' ! i) = sk_started (ts ! i) \<and>
    sk_completed (ts' ! i) = sk_completed (ts ! i)"
    by (cases "ts' ! i"; cases "ts ! i") (simp add: strip_def)
qed

lemma life_protected:
  "x \<in> life ev ph \<Longrightarrow> x \<in> {Queued, Loading, Evicting} \<or> life ev ph = UNIV"
  by (cases "(ev, ph)" rule: life.cases) (auto split: if_splits)

lemma life_ok_keeps: "life_ok ts run st \<Longrightarrow> rs_keeps st st' \<Longrightarrow> life_ok ts run st'"
  unfolding life_ok_def rs_keeps_def by (metis UNIV_I life_protected)

lemma quiet_inv:
  assumes "quiet s t" and "sched_inv s"
  shows "sched_inv t"
proof -
  from assms(1) have m: "map strip (sc_tasks t) = map strip (sc_tasks s)" by (simp add: quiet_def)
  note eq = strip_eqD [OF m]
  have "workers_ok (sc_tasks t) run = workers_ok (sc_tasks s) run"
    and "answers_ok (sc_tasks t) ids = answers_ok (sc_tasks s) ids"
    and "pending_ok (sc_tasks t) p = pending_ok (sc_tasks s) p"
    and "queue_ok (sc_tasks t) q = queue_ok (sc_tasks s) q"
    and "life_ok (sc_tasks t) run st = life_ok (sc_tasks s) run st" for run ids p q st
    using eq
    by (auto simp: workers_ok_def answers_ok_def pending_ok_def queue_ok_def life_ok_def task_key_def entry_fresh_def)
  with assms show ?thesis by (auto simp: sched_inv_def quiet_def intro: life_ok_keeps)
qed

abbreviation calm :: "'a scp \<Rightarrow> bool" where
  "calm m \<equiv> keeps (\<lambda>_. True) quiet m"

lemma quiet_rules: "reflp quiet" "transp quiet"
  by (auto simp: reflp_def transp_def intro: quiet_trans)

lemma calmD: "calm m \<Longrightarrow> m s = (r, t) \<Longrightarrow> quiet s t"
  by (auto simp: keeps_def)

lemma calm_modify: "(\<And>s. quiet s (f s)) \<Longrightarrow> calm (modify f)"
  by (auto simp: keeps_def)

lemma calm_on_states: "(\<And>st. rs_keeps st (snd (m st))) \<Longrightarrow> calm (on_states m)"
  by (auto simp: keeps_def on_states_def quiet_def)

lemmas calm_rules = calm_modify calm_on_states rs_quiet_ops
  keeps_thenp [OF quiet_rules(2)] keeps_bindp [OF quiet_rules(2)] keeps_ret [OF quiet_rules(1)]
  keeps_gets [OF quiet_rules(1)] keeps_require [OF quiet_rules(1)]

lemma calm_snapshot: "calm (on_states (rs_snapshot l i))"
  by (rule calm_on_states) (simp add: rs_quiet_ops)

lemma strip_set_task:
  assumes "\<And>t. strip (f t) = strip t"
  shows "map strip (sc_tasks (set_task i f s)) = map strip (sc_tasks s)"
proof (cases "i < length (sc_tasks s)")
  case True
  then show ?thesis by (simp add: set_task_def map_update assms list_update_same_conv)
qed (simp add: set_task_def list_update_beyond)

lemma set_task_frame [simp]:
  "sc_queue (set_task i f s) = sc_queue s" "sc_pending (set_task i f s) = sc_pending s"
  "sc_running (set_task i f s) = sc_running s" "sc_workers (set_task i f s) = sc_workers s"
  "sc_log (set_task i f s) = sc_log s" "sc_states (set_task i f s) = sc_states s"
  "sc_nextSequence (set_task i f s) = sc_nextSequence s" "sc_stopping (set_task i f s) = sc_stopping s"
  by (simp_all add: set_task_def)

lemma quiet_set_task: "(\<And>t. strip (f t) = strip t) \<Longrightarrow> quiet s (set_task i f s)"
  by (simp add: quiet_def strip_set_task)

lemma quiet_count: "quiet s (count_prefetch f s)"
  by (simp add: quiet_def count_prefetch_def)

lemma quiet_ready: "quiet s (s\<lparr> sc_prefetchedReady := ks \<rparr>)" "quiet s (s\<lparr> sc_resident := m \<rparr>)"
  "quiet s (s\<lparr> sc_resident := m, sc_prefetchedReady := ks \<rparr>)"
  by (simp_all add: quiet_def)

lemma quiet_cancel: "quiet s (sc_cancel i s)"
  unfolding sc_cancel_def by (rule quiet_set_task) (simp add: strip_def)

lemma quiet_shutdown: "quiet s (sc_shutdown s)"
proof -
  have "quiet s (fold sc_cancel is s)" for "is" s
    by (induction "is" arbitrary: s) (auto intro: quiet_trans quiet_cancel)
  moreover have "quiet s (s\<lparr> sc_stopping := True \<rparr>)" by (simp add: quiet_def)
  ultimately show ?thesis by (auto simp: sc_shutdown_def intro: quiet_trans)
qed

lemma quiet_account: "quiet s (account_request q init existing s)"
proof -
  have act: "strip (t\<lparr> sk_activeConsumer := b \<rparr>) = strip t" for t b by (simp add: strip_def)
  show ?thesis
    unfolding account_request_def Let_def
    by (auto split: option.split
        intro: quiet_count quiet_ready quiet_set_task [OF act]
          quiet_trans [OF quiet_ready(1)] quiet_trans [OF quiet_count]
          quiet_trans [OF quiet_trans [OF quiet_ready(1) quiet_set_task [OF act]]]
          quiet_trans [OF quiet_set_task [OF act]])
qed

lemma quiet_log: "resolved es = [] \<Longrightarrow> quiet s (log_effects es s)"
  by (simp add: quiet_def log_effects_def)

lemma calm_expire_loop: "calm (expire_loop l ks n)"
  by (induction ks arbitrary: n) (auto intro!: calm_rules quiet_ready)

lemma calm_trim_loop: "calm (trim_loop own cs cached)"
proof (induction cs arbitrary: cached)
  case (Cons c cs)
  show ?case
    unfolding trim_loop.simps
  proof (rule keeps_bindp [OF quiet_rules(2) keeps_gets [OF quiet_rules(1)]])
    fix x :: "transfer_result option \<times> u64"
    show "calm (case x of (found, maximum) \<Rightarrow> (case found of
       None \<Rightarrow> trim_loop own cs cached
     | Some res \<Rightarrow>
         if er_size (ts_record res) > maximum - cached
         then thenp (modify (\<lambda>s. s\<lparr> sc_resident := (sc_resident s)(c := None),
                               sc_prefetchedReady := removeAll c (sc_prefetchedReady s) \<rparr>))
             (thenp (if c \<noteq> own then on_states (rs_reconcile (key_layer c) (key_expert c) Nvme) else ret ())
             (thenp (modify (count_prefetch (\<lambda>p. p\<lparr> pf_wasted := pf_wasted p + 1 \<rparr>)))
                (trim_loop own cs cached)))
         else trim_loop own cs (cached + er_size (ts_record res))))"
      using Cons.IH by (auto intro!: calm_rules quiet_ready quiet_count split: option.split prod.split)
  qed
qed (auto intro: calm_rules)

lemma calm_ops:
  "calm (sc_registerExpert now l i t)" "calm (sc_acquire now l i)" "calm (sc_release now l i)"
  "calm (expirePrefetchesBefore l)" "calm (acknowledgeResidency l i t)" "calm (reconcileResidency l i t)"
  "calm (readyResult q cb)" "calm (store_transfer n res)"
  unfolding sc_registerExpert_def sc_acquire_def sc_release_def expirePrefetchesBefore_def
    acknowledgeResidency_def reconcileResidency_def readyResult_def store_transfer_def Let_def insert_ready_def
  by (auto intro!: calm_rules calm_expire_loop calm_trim_loop quiet_ready quiet_count calm_snapshot
      quiet_log split: option.split intro: quiet_trans [OF quiet_ready(1) quiet_count])

subsection \<open>Queueing\<close>

lemma nth_set_task [simp]:
  "i < length (sc_tasks s) \<Longrightarrow>
   sc_tasks (set_task i f s) ! j = (if j = i then f (sc_tasks s ! i) else sc_tasks s ! j)"
  "length (sc_tasks (set_task i f s)) = length (sc_tasks s)"
  by (simp_all add: set_task_def nth_list_update)

lemma push_entry_fields [simp]:
  "sc_tasks (push_entry i s) = sc_tasks s" "sc_pending (push_entry i s) = sc_pending s"
  "sc_running (push_entry i s) = sc_running s" "sc_workers (push_entry i s) = sc_workers s"
  "sc_log (push_entry i s) = sc_log s" "sc_states (push_entry i s) = sc_states s"
  by (simp_all add: push_entry_def Let_def)

lemma push_entry_queue:
  "\<exists>e. sc_queue (push_entry i s) = sc_queue s @ [e] \<and> qe_task e = i \<and>
     qe_generation e = sk_generation (sc_tasks s ! i) \<and> entry_fresh (sc_tasks s ! i) e"
  by (simp add: push_entry_def Let_def entry_fresh_def)

lemma queue_ok_push:
  assumes "queue_ok ts q" and "length ts' = length ts \<or> length ts' = Suc (length ts)"
    and "\<And>j. j < length ts \<Longrightarrow> j \<noteq> i \<Longrightarrow> sk_started (ts' ! j) = sk_started (ts ! j) \<and>
       sk_completed (ts' ! j) = sk_completed (ts ! j) \<and> sk_generation (ts' ! j) = sk_generation (ts ! j) \<and>
       sk_request (ts' ! j) = sk_request (ts ! j)"
    and "i < length ts \<longrightarrow> sk_generation (ts ! i) < sk_generation (ts' ! i)" and "entry_fresh (ts' ! i) e"
    and "length ts' = Suc (length ts) \<longrightarrow> i = length ts"
    and "qe_task e = i" and "i < length ts'" and "qe_generation e = sk_generation (ts' ! i)"
    and "\<not> sk_completed (ts' ! i)"
  shows "queue_ok ts' (q @ [e])"
  unfolding queue_ok_def
proof (intro conjI ballI allI impI)
  fix x
  assume "x \<in> set (q @ [e])"
  then consider "x = e" | "x \<in> set q" by auto
  then show "qe_task x < length ts'" and "entry_fresh (ts' ! qe_task x) x"
  proof (atomize (full), cases)
    case 1
    with assms(5,7,8) show "qe_task x < length ts' \<and> entry_fresh (ts' ! qe_task x) x" by simp
  next
    case 2
    with assms(1) have x: "qe_task x < length ts" "entry_fresh (ts ! qe_task x) x" by (auto simp: queue_ok_def)
    with assms(2,3,4) show "qe_task x < length ts' \<and> entry_fresh (ts' ! qe_task x) x"
      by (cases "qe_task x = i") (auto simp: entry_fresh_def)
  qed
next
  fix j
  assume j: "j < length ts'" "\<not> sk_started (ts' ! j)"
  show "\<not> sk_completed (ts' ! j)"
    and "\<exists>x \<in> set (q @ [e]). qe_task x = j \<and> qe_generation x = sk_generation (ts' ! j)"
  proof (atomize (full), cases "j = i")
    case True
    with assms show "\<not> sk_completed (ts' ! j) \<and>
      (\<exists>x \<in> set (q @ [e]). qe_task x = j \<and> qe_generation x = sk_generation (ts' ! j))" by simp
  next
    case False
    with j assms(2,6) have "j < length ts" by auto
    with False j assms(1,3) show "\<not> sk_completed (ts' ! j) \<and>
      (\<exists>x \<in> set (q @ [e]). qe_task x = j \<and> qe_generation x = sk_generation (ts' ! j))"
      by (auto simp: queue_ok_def)
  qed
qed

lemma push_inv:
  assumes inv: "sched_inv s" and i: "i < length (sc_tasks s)" "\<not> sk_started (sc_tasks s ! i)"
    and f: "\<And>t. task_key (f t) = task_key t" "\<And>t. sq_eviction (sk_request (f t)) = sq_eviction (sk_request t)"
      "\<And>t. sk_started (f t) = sk_started t" "\<And>t. sk_completed (f t) = sk_completed t"
      "\<And>t. sk_generation (f t) = Suc (sk_generation t)"
  shows "sched_inv (push_entry i (set_task i f s))"
proof -
  let ?ts = "sc_tasks (set_task i f s)"
  obtain e where e: "sc_queue (push_entry i (set_task i f s)) = sc_queue s @ [e]" "qe_task e = i"
      "qe_generation e = sk_generation (?ts ! i)" "entry_fresh (?ts ! i) e"
    using push_entry_queue [of i "set_task i f s"] by auto
  have nc: "\<not> sk_completed (sc_tasks s ! i)" using inv i by (auto simp: sched_inv_def queue_ok_def)
  have "queue_ok ?ts (sc_queue s @ [e])"
    by (rule queue_ok_push [of "sc_tasks s" _ _ i]) (use inv i e nc f in \<open>auto simp: sched_inv_def\<close>)
  moreover have eq: "length ?ts = length (sc_tasks s)" by simp
  moreover have "task_key (?ts ! j) = task_key (sc_tasks s ! j)"
    "sq_eviction (sk_request (?ts ! j)) = sq_eviction (sk_request (sc_tasks s ! j))"
    "sk_started (?ts ! j) = sk_started (sc_tasks s ! j)" "sk_completed (?ts ! j) = sk_completed (sc_tasks s ! j)" for j
    using i f by auto
  ultimately show ?thesis
    using inv e unfolding sched_inv_def workers_ok_def answers_ok_def pending_ok_def life_ok_def by simp
qed

lemma join_inv:
  assumes inv: "sched_inv s" and i: "i < length (sc_tasks s)"
  shows "sched_inv (join_task i q cb s)"
proof -
  let ?f = "\<lambda>t. t\<lparr> sk_callbacks := sk_callbacks t @ (case cb of None \<Rightarrow> [] | Some c \<Rightarrow> [c]),
                  sk_activeConsumer := (sk_activeConsumer t \<or> sq_priority q = ActiveInference) \<rparr>"
  have "quiet s (set_task i ?f s)" by (rule quiet_set_task) (simp add: strip_def)
  from quiet_inv [OF this inv] have inv1: "sched_inv (set_task i ?f s)" .
  with i show ?thesis
    unfolding join_task_def Let_def by (auto intro!: push_inv simp: task_key_def)
qed

lemma enqueue_inv:
  assumes inv: "sched_inv s" and fresh: "map_of (sc_pending s) (request_key q) = None"
    and st: "\<And>k. k \<noteq> request_key q \<Longrightarrow> map_of st k = map_of (sc_states s) k"
      "map_of st (request_key q) = Some e" "es_state e = (if sq_eviction q then Evicting else Queued)"
  shows "sched_inv (enqueue_task q cb (s\<lparr> sc_states := st \<rparr>))"
proof -
  let ?ts = "sc_tasks s" let ?n = "length ?ts" let ?us = "?ts @ [new_task q cb]"
  let ?s = "s\<lparr> sc_states := st, sc_tasks := ?us, sc_pending := AList.update (request_key q) ?n (sc_pending s) \<rparr>"
  have new: "task_key (new_task q cb) = request_key q" "\<not> sk_started (new_task q cb)"
    "\<not> sk_completed (new_task q cb)" "sk_request (new_task q cb) = q"
    by (simp_all add: new_task_def task_key_def)
  have old: "j < ?n \<Longrightarrow> ?us ! j = ?ts ! j" for j by (simp add: nth_append)
  from inv have w: "workers_ok ?ts (sc_running s)" and a: "answers_ok ?ts (resolved (sc_log s))"
    and p: "pending_ok ?ts (sc_pending s)" and qk: "queue_ok ?ts (sc_queue s)"
    and l: "life_ok ?ts (sc_running s) (sc_states s)" and pos: "sc_workers s > 0"
    by (simp_all add: sched_inv_def)
  have other: "task_key (?ts ! j) \<noteq> request_key q" if "j < ?n" "\<not> sk_completed (?ts ! j)" for j
    using p fresh that by (fastforce simp: pending_ok_def)
  obtain x where x: "sc_queue (push_entry ?n ?s) = sc_queue s @ [x]" "qe_task x = ?n"
      "qe_generation x = sk_generation (?us ! ?n)" "entry_fresh (?us ! ?n) x"
    using push_entry_queue [of ?n ?s] by auto
  have "queue_ok ?us (sc_queue s @ [x])"
    by (rule queue_ok_push [OF qk, where i = ?n]) (use x new in \<open>auto simp: nth_append\<close>)
  moreover have "workers_ok ?us (sc_running s)" "answers_ok ?us (resolved (sc_log s))"
    using w a new by (auto simp: workers_ok_def answers_ok_def less_Suc_eq nth_append)
  moreover have "pending_ok ?us (AList.update (request_key q) ?n (sc_pending s))"
    using p other new by (auto simp: pending_ok_def distinct_update update_conv' nth_append less_Suc_eq split: if_splits)
  moreover have idle: "map_of (sc_running s) ?n = None"
    using w by (auto simp: workers_ok_def map_of_eq_None_iff)
  moreover have "life_ok ?us (sc_running s) st"
    unfolding life_ok_def
  proof (intro allI impI)
    fix j
    assume j: "j < length ?us" "\<not> sk_completed (?us ! j)"
    show "\<exists>e. map_of st (task_key (?us ! j)) = Some e \<and>
        es_state e \<in> life (sq_eviction (sk_request (?us ! j))) (map_of (sc_running s) j)"
    proof (cases "j = ?n")
      case True
      with st new idle show ?thesis by simp
    next
      case False
      with j have "j < ?n" by simp
      with j l other st(1) old show ?thesis by (auto simp: life_ok_def)
    qed
  qed
  ultimately show ?thesis
    using x pos by (simp add: sched_inv_def enqueue_task_def Let_def)
qed

text \<open>What \<open>schedule\<close> does, one case per way out.\<close>

lemma begin_states:
  assumes "on_states (if sq_eviction q
      then rs_beginEviction (sq_layerId q) (sq_expertId q) (sq_destination q)
      else thenp (rs_request (sq_layerId q) (sq_expertId q) (sq_destination q))
                 (rs_markQueued (sq_layerId q) (sq_expertId q))) s = (r, s')"
  shows "(\<exists>e. r = Inl e \<and> s' = s) \<or>
    (\<exists>st e. r = Inr () \<and> s' = s\<lparr> sc_states := st \<rparr> \<and>
       (\<forall>k. k \<noteq> request_key q \<longrightarrow> map_of st k = map_of (sc_states s) k) \<and>
       map_of st (request_key q) = Some e \<and> es_state e = (if sq_eviction q then Evicting else Queued) \<and>
       es_targetLocation e = sq_destination q)"
  using assms
  by (auto simp: on_states_def rs_ops rs_change_run thenp_def bindp_def update_conv'
      split: option.splits if_splits)

lemma schedule_cases:
  assumes "schedule q cb s = (r, s')"
  obtains (refused) e where "r = Inl e" and "quiet s s'"
  | (immediate) x where "r = Inr (Immediate x)" and "quiet s s'"
  | (joined) i u where "r = Inr (Ticket i)" and "quiet s u" and "map_of (sc_pending s) (request_key q) = Some i"
      and "sq_destination (sk_request (sc_tasks u ! i)) = sq_destination q" and "s' = join_task i q cb u"
  | (queued) u st e where "r = Inr (Ticket (length (sc_tasks u)))" and "quiet s u"
      and "map_of (sc_pending s) (request_key q) = None"
      and "\<And>k. k \<noteq> request_key q \<Longrightarrow> map_of st k = map_of (sc_states u) k"
      and "map_of st (request_key q) = Some e" and "es_state e = (if sq_eviction q then Evicting else Queued)"
      and "s' = enqueue_task q cb (u\<lparr> sc_states := st \<rparr>)"
proof -
  let ?k = "request_key q"
  let ?s1 = "log_effects [sc_event ExpertRequested q] s"
  have q1: "quiet s ?s1" by (rule quiet_log) simp
  have snap: "on_states (rs_snapshot (sq_layerId q) (sq_expertId q)) ?s1 =
      (case map_of (sc_states ?s1) ?k of None \<Rightarrow> (Inl (OutOfRange ''expert state is not registered''), ?s1)
       | Some init \<Rightarrow> (Inr init, ?s1))"
    by (simp add: on_states_def rs_snapshot_def split: option.split)
  show thesis
  proof (cases "sc_stopping ?s1 \<or> map_of (sc_states ?s1) ?k = None")
    case True
    with assms q1 refused show ?thesis
      by (auto simp: schedule_def guard_runs bindp_def snap split: option.splits if_splits)
  next
    case False
    then obtain init where init: "map_of (sc_states ?s1) ?k = Some init" and ns: "\<not> sc_stopping ?s1" by auto
    let ?ex = "map_of (sc_pending ?s1) ?k"
    let ?u = "account_request q init ?ex ?s1"
    have pend: "?ex = map_of (sc_pending s) ?k" by (simp add: log_effects_def)
    have qu: "quiet s ?u" using q1 quiet_account quiet_trans by blast
    have run: "schedule q cb s = (if is_immediate q init ?ex
        then thenp (modify (\<lambda>s. if sq_priority q = PredictedNextLayer then insert_ready ?k s else s))
               (bindp (readyResult q cb) (\<lambda>r. ret (Immediate r))) ?u
        else (case ?ex of
          Some i \<Rightarrow> if sq_destination (sk_request (sc_tasks ?u ! i)) = sq_destination q
            then (Inr (Ticket i), join_task i q cb ?u)
            else (Inl (LogicError ''expert already has a different pending target''), ?u)
        | None \<Rightarrow> thenp (on_states (if sq_eviction q
                  then rs_beginEviction (sq_layerId q) (sq_expertId q) (sq_destination q)
                  else thenp (rs_request (sq_layerId q) (sq_expertId q) (sq_destination q))
                             (rs_markQueued (sq_layerId q) (sq_expertId q))))
               (bindp (gets (\<lambda>s. length (sc_tasks s))) (\<lambda>i. thenp (modify (enqueue_task q cb)) (ret (Ticket i)))) ?u))"
      unfolding schedule_def guard_runs
      using init ns snap by (simp add: guard_runs split: option.split)
    show ?thesis
    proof (cases "is_immediate q init ?ex")
      case True
      have c: "calm (thenp (modify (\<lambda>s. if sq_priority q = PredictedNextLayer then insert_ready ?k s else s))
               (bindp (readyResult q cb) (\<lambda>r. ret (Immediate r))))"
        by (intro calm_rules calm_ops) (simp add: insert_ready_def quiet_ready)
      from True assms run have e: "thenp (modify (\<lambda>s. if sq_priority q = PredictedNextLayer then insert_ready ?k s else s))
               (bindp (readyResult q cb) (\<lambda>r. ret (Immediate r))) ?u = (r, s')" by simp
      from calmD [OF c e] qu have "quiet s s'" using quiet_trans by blast
      moreover from e have "(\<exists>x. r = Inl x) \<or> (\<exists>x. r = Inr (Immediate x))"
        by (auto elim!: thenp_cases bindp_cases)
      ultimately show ?thesis using refused immediate by blast
    next
      case nimm: False
      show ?thesis
      proof (cases ?ex)
        case (Some i)
        have p: "map_of (sc_pending s) ?k = Some i" using Some pend by simp
        show ?thesis
        proof (cases "sq_destination (sk_request (sc_tasks ?u ! i)) = sq_destination q")
          case True
          with nimm Some assms run have "r = Inr (Ticket i)" "s' = join_task i q cb ?u" by simp_all
          from joined [OF this(1) qu p True this(2)] show ?thesis .
        next
          case False
          with nimm Some assms run
          have "r = Inl (LogicError ''expert already has a different pending target'')" "s' = ?u" by simp_all
          with qu refused show ?thesis by simp
        qed
      next
        case None
        from nimm None assms run have e: "thenp (on_states (if sq_eviction q
                  then rs_beginEviction (sq_layerId q) (sq_expertId q) (sq_destination q)
                  else thenp (rs_request (sq_layerId q) (sq_expertId q) (sq_destination q))
                             (rs_markQueued (sq_layerId q) (sq_expertId q))))
               (bindp (gets (\<lambda>s. length (sc_tasks s))) (\<lambda>i. thenp (modify (enqueue_task q cb)) (ret (Ticket i)))) ?u = (r, s')"
          by simp
        then show ?thesis
        proof (cases rule: thenp_cases)
          case (1 x)
          from begin_states [OF 1(1)] 1(2) qu refused show ?thesis by auto
        next
          case (2 x t)
          from begin_states [OF 2(1)] obtain st e where
            "t = ?u\<lparr> sc_states := st \<rparr>" "\<forall>k. k \<noteq> ?k \<longrightarrow> map_of st k = map_of (sc_states ?u) k"
            "map_of st ?k = Some e" "es_state e = (if sq_eviction q then Evicting else Queued)" by auto
          with 2(2) qu None pend queued [of ?u st e] show ?thesis by (simp add: guard_runs)
        qed
      qed
    qed
  qed
qed

lemma schedule_inv:
  assumes inv: "sched_inv s" and run: "schedule q cb s = (r, s')"
  shows "sched_inv s'"
  using run
proof (cases rule: schedule_cases)
  case (joined i u)
  from quiet_inv [OF joined(2) inv] have u: "sched_inv u" .
  from inv joined(3) have "i < length (sc_tasks s)" by (auto simp: sched_inv_def pending_ok_def)
  moreover from joined(2) have "map strip (sc_tasks u) = map strip (sc_tasks s)" by (simp add: quiet_def)
  then have "length (sc_tasks u) = length (sc_tasks s)" by (rule strip_eqD(1))
  ultimately show ?thesis unfolding joined(5) by (intro join_inv [OF u]) simp
next
  case (queued u st e)
  from quiet_inv [OF queued(2) inv] have u: "sched_inv u" .
  from queued(2,3) have "map_of (sc_pending u) (request_key q) = None" by (simp add: quiet_def)
  from enqueue_inv [OF u this queued(4,5,6)] show ?thesis unfolding queued(7) .
qed (use quiet_inv inv in blast)+

subsection \<open>Taking a task\<close>

lemma pop_live_cases:
  assumes "pop_live ts q = (rest, found)"
  obtains "found = None" "rest = []" "\<forall>x \<in> set q. \<not> entry_live ts x"
  | e where "found = Some e" "e \<in> set q" "entry_live ts e" "length rest < length q"
      "set rest \<subseteq> set q" "\<forall>x \<in> set q. entry_live ts x \<longrightarrow> x = e \<or> x \<in> set rest"
      "\<forall>x \<in> set q. entry_live ts x \<longrightarrow> \<not> sc_higherPriority e x"
  using assms
proof (induction ts q arbitrary: thesis rule: pop_live.induct)
  case (1 ts)
  then show ?case by simp
next
  case (2 ts e es)
  let ?m = "sc_top e es"
  have m: "?m \<in> set (e # es)" by (rule sq.top_in)
  have split: "x = ?m \<or> x \<in> set (remove1 ?m (e # es))" if "x \<in> set (e # es)" for x
    using that in_set_remove1 by (metis set_ConsD)
  show ?case
  proof (cases "entry_live ts ?m")
    case True
    with 2(4) have r: "rest = remove1 ?m (e # es)" "found = Some ?m" by (simp_all del: remove1.simps)
    have "length rest < length (e # es)" unfolding r(1) length_pop by simp
    moreover have "set rest \<subseteq> set (e # es)" unfolding r(1) by (rule set_remove1_subset)
    ultimately show ?thesis
      using 2(3) [OF r(2) m True] split sq.top_max unfolding r(1) by blast
  next
    case False
    with 2(4) have r: "pop_live ts (remove1 ?m (e # es)) = (rest, found)" by (simp del: remove1.simps)
    have live: "x \<in> set (remove1 ?m (e # es))" if "x \<in> set (e # es)" "entry_live ts x" for x
      using split [OF that(1)] that(2) False by blast
    have sub: "set (remove1 ?m (e # es)) \<subseteq> set (e # es)" by (rule set_remove1_subset)
    show ?thesis
    proof (rule 2(1) [OF False _ _ r])
      assume "found = None" "rest = []" "\<forall>x \<in> set (remove1 ?m (e # es)). \<not> entry_live ts x"
      with 2(2) live show ?thesis by blast
    next
      fix x
      assume x: "found = Some x" "x \<in> set (remove1 ?m (e # es))" "entry_live ts x"
        "length rest < length (remove1 ?m (e # es))" "set rest \<subseteq> set (remove1 ?m (e # es))"
        "\<forall>y \<in> set (remove1 ?m (e # es)). entry_live ts y \<longrightarrow> y = x \<or> y \<in> set rest"
        "\<forall>y \<in> set (remove1 ?m (e # es)). entry_live ts y \<longrightarrow> \<not> sc_higherPriority x y"
      from x(2,5) sub have "x \<in> set (e # es)" "set rest \<subseteq> set (e # es)" by blast+
      moreover from x(4) have "length rest < length (e # es)" unfolding length_pop by simp
      ultimately show ?thesis using 2(3) [OF x(1)] x(3,6,7) live by blast
    qed
  qed
qed

lemma take_inv:
  assumes inv: "sched_inv s"
  shows "sched_inv (sc_take s)"
proof -
  obtain rest found where pop: "pop_live (sc_tasks s) (sc_queue s) = (rest, found)" by fastforce
  from inv have qk: "queue_ok (sc_tasks s) (sc_queue s)" and w: "workers_ok (sc_tasks s) (sc_running s)"
    and l: "life_ok (sc_tasks s) (sc_running s) (sc_states s)" by (simp_all add: sched_inv_def)
  have live: "\<exists>e \<in> set (sc_queue s). entry_live (sc_tasks s) e \<and> qe_task e = i \<and> qe_generation e = sk_generation (sc_tasks s ! i)"
    if "i < length (sc_tasks s)" "\<not> sk_started (sc_tasks s ! i)" for i
  proof -
    from qk that obtain e where "\<not> sk_completed (sc_tasks s ! i)" "e \<in> set (sc_queue s)" "qe_task e = i"
      "qe_generation e = sk_generation (sc_tasks s ! i)" by (auto simp: queue_ok_def)
    with that show ?thesis by (auto simp: entry_live_def Let_def)
  qed
  from pop show ?thesis
  proof (cases rule: pop_live_cases)
    case 1
    then have "queue_ok (sc_tasks s) []" using live unfolding queue_ok_def by fastforce
    with inv pop 1 show ?thesis by (simp add: sc_take_def sched_inv_def)
  next
    case (2 e)
    let ?i = "qe_task e" and ?f = "\<lambda>t. t\<lparr> sk_started := True \<rparr>"
    let ?s = "s\<lparr> sc_queue := rest, sc_running := (?i, Picked) # sc_running s \<rparr>"
    let ?ts = "sc_tasks (set_task ?i ?f ?s)"
    have i: "?i < length (sc_tasks s)" "\<not> sk_started (sc_tasks s ! ?i)" "\<not> sk_completed (sc_tasks s ! ?i)"
      using 2 qk by (auto simp: queue_ok_def entry_live_def Let_def)
    have ts: "?ts ! j = (if j = ?i then ?f (sc_tasks s ! ?i) else sc_tasks s ! j)" "length ?ts = length (sc_tasks s)" for j
      using i nth_set_task [where s = ?s and i = ?i and f = ?f] by simp_all
    have idle: "?i \<notin> fst ` set (sc_running s)" using w i by (auto simp: workers_ok_def)
    then have none: "map_of (sc_running s) ?i = None" by (simp add: map_of_eq_None_iff)
    have "workers_ok ?ts ((?i, Picked) # sc_running s)"
      unfolding workers_ok_def ts(2) using w i idle by (auto simp: workers_ok_def ts)
    moreover have "answers_ok ?ts (resolved (sc_log s))" "pending_ok ?ts (sc_pending s)"
      using inv by (auto simp: sched_inv_def answers_ok_def pending_ok_def ts task_key_def)
    moreover have "queue_ok ?ts rest"
      unfolding queue_ok_def
    proof (intro conjI ballI allI impI)
      fix x
      assume "x \<in> set rest"
      with 2(5) qk have "qe_task x < length (sc_tasks s)" "entry_fresh (sc_tasks s ! qe_task x) x"
        by (auto simp: queue_ok_def)
      then show "qe_task x < length ?ts" "entry_fresh (?ts ! qe_task x) x"
        by (auto simp: ts entry_fresh_def)
    next
      fix j
      assume j: "j < length ?ts" "\<not> sk_started (?ts ! j)"
      then have ne: "j \<noteq> ?i" by (auto simp: ts)
      with j have j': "j < length (sc_tasks s)" "\<not> sk_started (sc_tasks s ! j)" by (simp_all add: ts)
      from qk j' ne show "\<not> sk_completed (?ts ! j)" by (simp add: queue_ok_def ts)
      from live [OF j'] obtain x where "x \<in> set (sc_queue s)" "entry_live (sc_tasks s) x" "qe_task x = j"
        "qe_generation x = sk_generation (sc_tasks s ! j)" by blast
      with 2(6) ne show "\<exists>x \<in> set rest. qe_task x = j \<and> qe_generation x = sk_generation (?ts ! j)"
        by (auto simp: ts)
    qed
    moreover have "life_ok ?ts ((?i, Picked) # sc_running s) (sc_states s)"
      using l i none by (auto simp: life_ok_def ts task_key_def)
    ultimately show ?thesis
      using inv pop 2(1) by (simp add: sc_take_def sched_inv_def)
  qed
qed

subsection \<open>A worker's progress\<close>

lemma remove_run:
  assumes "distinct (map fst run)" and "(i, ph) \<in> set run"
  shows "distinct (map fst (remove1 (i, ph) run)) \<and> fst ` set (remove1 (i, ph) run) = fst ` set run - {i} \<and>
    map_of (remove1 (i, ph) run) = (map_of run)(i := None)"
  using assms
proof (induction run)
  case (Cons x run)
  show ?case
  proof (cases "x = (i, ph)")
    case True
    with Cons.prems(1) show ?thesis by (auto simp: fun_eq_iff map_of_eq_None_iff)
  next
    case False
    with Cons.prems have "(i, ph) \<in> set run" "fst x \<noteq> i" by (auto simp: rev_image_eqI)
    moreover from this(1) have "distinct (map fst (remove1 (i, ph) run)) \<and>
      fst ` set (remove1 (i, ph) run) = fst ` set run - {i} \<and>
      map_of (remove1 (i, ph) run) = (map_of run)(i := None)"
      by (intro Cons.IH) (use Cons.prems in simp_all)
    ultimately show ?thesis using Cons.prems(1) False by (cases x) (auto simp: fun_upd_twist)
  qed
qed simp

lemma same_key_same_task:
  assumes "pending_ok ts p" and "i < length ts" "\<not> sk_completed (ts ! i)" and "j < length ts" "\<not> sk_completed (ts ! j)"
    and "task_key (ts ! i) = task_key (ts ! j)"
  shows "i = j"
proof -
  from assms(1) have eq: "map_of p k = Some n \<longleftrightarrow> n < length ts \<and> \<not> sk_completed (ts ! n) \<and> task_key (ts ! n) = k" for k n
    by (simp add: pending_ok_def)
  have "map_of p (task_key (ts ! j)) = Some i" by (rule eq [THEN iffD2]) (intro conjI assms)
  moreover have "map_of p (task_key (ts ! j)) = Some j" by (rule eq [THEN iffD2]) (intro conjI assms refl)
  ultimately show ?thesis by simp
qed

lemma running_task:
  assumes "sched_inv s" and "(i, ph) \<in> set (sc_running s)"
  shows "i < length (sc_tasks s)" and "sk_started (sc_tasks s ! i)" and "\<not> sk_completed (sc_tasks s ! i)"
    and "map_of (sc_running s) i = Some ph"
proof -
  from assms have w: "workers_ok (sc_tasks s) (sc_running s)" by (simp add: sched_inv_def)
  from assms(2) have "i \<in> fst ` set (sc_running s)" by force
  with w show "i < length (sc_tasks s)" "sk_started (sc_tasks s ! i)" "\<not> sk_completed (sc_tasks s ! i)"
    by (auto simp: workers_ok_def)
  from w assms(2) show "map_of (sc_running s) i = Some ph" by (auto simp: workers_ok_def)
qed

lemma phase_inv:
  assumes inv: "sched_inv s" and mem: "(i, ph) \<in> set (sc_running s)"
    and frame: "sc_tasks t = sc_tasks s" "sc_queue t = sc_queue s" "sc_pending t = sc_pending s"
      "sc_workers t = sc_workers s" "resolved (sc_log t) = resolved (sc_log s)"
    and run: "sc_running t = (i, ph') # remove1 (i, ph) (sc_running s)"
    and st: "\<And>k. k \<noteq> task_key (sc_tasks s ! i) \<Longrightarrow> map_of (sc_states t) k = map_of (sc_states s) k"
      "map_of (sc_states t) (task_key (sc_tasks s ! i)) = Some e"
      "es_state e \<in> life (sq_eviction (sk_request (sc_tasks s ! i))) (Some ph')"
  shows "sched_inv t"
proof -
  let ?ts = "sc_tasks s" and ?r = "sc_running s"
  from inv have w: "workers_ok ?ts ?r" and p: "pending_ok ?ts (sc_pending s)"
    and l: "life_ok ?ts ?r (sc_states s)" by (simp_all add: sched_inv_def)
  note i = running_task [OF inv mem]
  have rr: "distinct (map fst (remove1 (i, ph) ?r)) \<and> fst ` set (remove1 (i, ph) ?r) = fst ` set ?r - {i} \<and>
    map_of (remove1 (i, ph) ?r) = (map_of ?r)(i := None)"
    by (rule remove_run) (use w mem in \<open>auto simp: workers_ok_def\<close>)
  have "workers_ok ?ts (sc_running t)"
    using w rr i unfolding workers_ok_def run by auto
  moreover have "life_ok ?ts (sc_running t) (sc_states t)"
    unfolding life_ok_def
  proof (intro allI impI)
    fix j
    assume j: "j < length ?ts" "\<not> sk_completed (?ts ! j)"
    show "\<exists>e. map_of (sc_states t) (task_key (?ts ! j)) = Some e \<and>
        es_state e \<in> life (sq_eviction (sk_request (?ts ! j))) (map_of (sc_running t) j)"
    proof (cases "j = i")
      case True
      with st show ?thesis by (simp add: run)
    next
      case False
      with same_key_same_task [OF p j i(1,3)] have "task_key (?ts ! j) \<noteq> task_key (?ts ! i)" by blast
      with st(1) l j False rr show ?thesis by (simp add: life_ok_def run)
    qed
  qed
  ultimately show ?thesis using inv frame by (simp add: sched_inv_def)
qed

text \<open>A phase that puts no demand on the expert's state survives any quiet change.\<close>

lemma quiet_phase_inv:
  assumes inv: "sched_inv s" and mem: "(i, ph) \<in> set (sc_running s)" and quiet: "quiet s t"
    and free: "\<And>ev. life ev (Some ph') = UNIV"
  shows "sched_inv (set_phase i ph ph' t)"
proof -
  have inv': "sched_inv t" by (rule quiet_inv [OF quiet inv])
  have mem': "(i, ph) \<in> set (sc_running t)" using mem quiet by (simp add: quiet_def)
  note i = running_task [OF inv' mem']
  from inv' i obtain e where "map_of (sc_states t) (task_key (sc_tasks t ! i)) = Some e"
    by (auto simp: sched_inv_def life_ok_def)
  then show ?thesis
    by (intro phase_inv [OF inv' mem', where e = e and ph' = ph']) (simp_all add: set_phase_def free)
qed

lemma sched_life:
  assumes "sched_inv s" and "(i, ph) \<in> set (sc_running s)"
  obtains e where "map_of (sc_states s) (task_key (sc_tasks s ! i)) = Some e"
    and "es_state e \<in> life (sq_eviction (sk_request (sc_tasks s ! i))) (Some ph)"
  using assms running_task [OF assms] by (auto simp: sched_inv_def life_ok_def)

text \<open>The distance of a phase from the answer.\<close>

fun phase_weight :: "sched_phase \<Rightarrow> nat" where
  "phase_weight Picked = 5"
| "phase_weight Waiting = 4"
| "phase_weight (Arrived _) = 3"
| "phase_weight (Finishing _) = 2"
| "phase_weight (Answering _) = 1"

definition advances :: "nat \<Rightarrow> sched_phase \<Rightarrow> scheduler \<Rightarrow> scheduler \<Rightarrow> bool" where
  "advances i ph s t \<longleftrightarrow> sc_queue t = sc_queue s \<and> sc_workers t = sc_workers s \<and>
     (\<exists>ph'. phase_weight ph' < phase_weight ph \<and> sc_running t = (i, ph') # remove1 (i, ph) (sc_running s))"

lemma advances_set_phase:
  "phase_weight ph' < phase_weight ph \<Longrightarrow> quiet s t \<Longrightarrow> advances i ph s (set_phase i ph ph' t)"
  by (auto simp: advances_def set_phase_def quiet_def)

lemma begin_inv:
  assumes inv: "sched_inv s" and mem: "(i, Picked) \<in> set (sc_running s)"
  shows "\<exists>s'. sc_begin i s = (Inr (), s') \<and> sched_inv s' \<and> advances i Picked s s'"
proof -
  let ?t = "sc_tasks s ! i"
  from sched_life [OF inv mem] obtain e where
    e: "map_of (sc_states s) (task_key ?t) = Some e" "es_state e = (if sq_eviction (sk_request ?t) then Evicting else Queued)"
    by (auto split: if_splits)
  show ?thesis
  proof (cases "sk_cancelled ?t")
    case True
    then have "sc_begin i s = (Inr (), set_phase i Picked (Finishing (failure True
        (RuntimeError ''schedule request cancelled before transfer''))) s)"
      by (simp add: sc_begin_def)
    moreover have "sched_inv (set_phase i Picked (Finishing r) s)" for r
      by (rule quiet_phase_inv [OF inv mem]) simp_all
    ultimately show ?thesis by (simp add: advances_set_phase)
  next
    case False
    let ?q = "sk_request ?t"
    let ?st = "if sq_eviction ?q then sc_states s
      else AList.update (task_key ?t) (e\<lparr> es_state := Loading \<rparr>) (sc_states s)"
    let ?es = "[sc_event TransferStarted ?q] @ (if sc_cudaBackend s \<and> (sq_source ?q = Vram \<or> sq_destination ?q = Vram)
              then [sc_event CudaTransferStarted ?q] else [])"
    let ?s = "log_effects ?es (set_phase i Picked Waiting (s\<lparr> sc_states := ?st \<rparr>))"
    have "sc_begin i s = (Inr (), ?s)"
      using False e
      by (simp add: sc_begin_def Let_def on_states_def rs_markLoading_def rs_change_run task_key_def o_def guard_runs)
    moreover have "sched_inv ?s"
      by (rule phase_inv [OF inv mem, where ph' = Waiting and e = "if sq_eviction ?q then e else e\<lparr> es_state := Loading \<rparr>"])
         (use e in \<open>simp_all add: log_effects_def set_phase_def\<close>)
    ultimately show ?thesis by (auto simp: advances_def log_effects_def set_phase_def)
  qed
qed

lemma store_quiet_phase:
  assumes "sched_inv s" and "(i, ph) \<in> set (sc_running s)" and "quiet s t"
    and "phase_weight ph' < phase_weight ph" and "\<And>ev. life ev (Some ph') = UNIV"
  shows "sched_inv (set_phase i ph ph' t) \<and> advances i ph s (set_phase i ph ph' t)"
  using quiet_phase_inv [OF assms(1,2,3,5)] advances_set_phase [OF assms(4,3)] by blast

lemma receive_inv:
  assumes inv: "sched_inv s" and mem: "(i, Waiting) \<in> set (sc_running s)"
  shows "sched_inv (sc_receive now i outcome s) \<and> advances i Waiting s (sc_receive now i outcome s)"
proof -
  let ?t = "sc_tasks s ! i" and ?q = "task_request i s"
  have fin: "sched_inv (set_phase i Waiting (Finishing r) s) \<and> advances i Waiting s (set_phase i Waiting (Finishing r) s)" for r
    by (rule store_quiet_phase [OF inv mem]) simp_all
  from sched_life [OF inv mem] obtain e where
    e: "map_of (sc_states s) (task_key ?t) = Some e" "es_state e = (if sq_eviction (sk_request ?t) then Evicting else Loading)"
    by (auto split: if_splits)
  let ?e = "e\<lparr> es_currentLocation := sq_destination ?q, es_targetLocation := sq_destination ?q, es_state := Ready, es_lastUsed := now \<rparr>"
  let ?s = "s\<lparr> sc_states := AList.update (task_key ?t) ?e (sc_states s) \<rparr>"
  have ready: "on_states (rs_markReady now (sq_layerId ?q) (sq_expertId ?q) (sq_destination ?q)) s = (Inr (), ?s)"
    using e by (simp add: on_states_def rs_markReady_def rs_change_run task_key_def task_request_def)
  have "sched_inv (set_phase i Waiting (Arrived res) ?s)" for res
    by (rule phase_inv [OF inv mem, where ph' = "Arrived res" and e = ?e]) (simp_all add: set_phase_def)
  moreover have "advances i Waiting s (set_phase i Waiting (Arrived res) ?s)" for res
    by (auto simp: advances_def set_phase_def)
  ultimately show ?thesis
    using fin ready by (simp add: sc_receive_def Let_def split: sum.split)
qed

lemma store_inv:
  assumes inv: "sched_inv s" and mem: "(i, Arrived res) \<in> set (sc_running s)"
  shows "sched_inv (sc_store i res s) \<and> advances i (Arrived res) s (sc_store i res s)"
proof -
  obtain r t where run: "store_transfer i res s = (r, t)" by fastforce
  have q: "quiet s t" by (rule calmD [OF calm_ops(8) run])
  have fin: "sched_inv (set_phase i (Arrived res) (Finishing x) u) \<and>
      advances i (Arrived res) s (set_phase i (Arrived res) (Finishing x) u)" if "quiet s u" for x u
    by (rule store_quiet_phase [OF inv mem that]) simp_all
  show ?thesis
  proof (cases r)
    case (Inl e)
    with run fin [OF q] show ?thesis by (simp add: sc_store_def)
  next
    case (Inr x)
    let ?q = "task_request i t" and ?u = "log_effects (completion_events (task_request i t) res) t"
    obtain r2 v where snap: "on_states (rs_snapshot (sq_layerId ?q) (sq_expertId ?q)) ?u = (r2, v)" by fastforce
    have "quiet t ?u" by (rule quiet_log) (simp add: completion_events_def)
    moreover have "quiet ?u v" by (rule calmD [OF calm_snapshot snap])
    ultimately have "quiet s v" using q quiet_trans by blast
    from fin [OF this] run Inr snap show ?thesis
      by (simp add: sc_store_def Let_def split: sum.split)
  qed
qed

lemma fail_inv:
  assumes inv: "sched_inv s" and mem: "(i, Finishing r) \<in> set (sc_running s)"
  shows "\<exists>s'. sc_fail i r s = (Inr (), s') \<and> sched_inv s' \<and> advances i (Finishing r) s s'"
proof (cases "sr_success r")
  case True
  have "sched_inv (set_phase i (Finishing r) (Answering r) s) \<and>
      advances i (Finishing r) s (set_phase i (Finishing r) (Answering r) s)"
    by (rule store_quiet_phase [OF inv mem]) simp_all
  with True show ?thesis by (simp add: sc_fail_def)
next
  case False
  let ?t = "sc_tasks s ! i"
  from sched_life [OF inv mem] obtain e where e: "map_of (sc_states s) (task_key ?t) = Some e" .
  let ?e = "e\<lparr> es_state := Failed \<rparr>" and ?r = "r\<lparr> sr_state := Some (e\<lparr> es_state := Failed \<rparr>) \<rparr>"
  let ?s = "set_phase i (Finishing r) (Answering ?r) (s\<lparr> sc_states := AList.update (task_key ?t) ?e (sc_states s) \<rparr>)"
  have "sc_fail i r s = (Inr (), ?s)"
    using False e
    by (simp add: sc_fail_def on_states_def rs_markFailed_run rs_snapshot_def task_key_def task_request_def guard_runs)
  moreover have "sched_inv ?s"
    by (rule phase_inv [OF inv mem, where ph' = "Answering ?r" and e = ?e]) (simp_all add: set_phase_def)
  moreover have "advances i (Finishing r) s ?s" by (auto simp: advances_def set_phase_def)
  ultimately show ?thesis by blast
qed

lemma answer_inv:
  assumes inv: "sched_inv s" and mem: "(i, Answering r) \<in> set (sc_running s)"
  shows "sched_inv (sc_answer i r s)"
proof -
  let ?ts = "sc_tasks s" and ?run = "remove1 (i, Answering r) (sc_running s)"
  let ?us = "?ts[i := (?ts ! i)\<lparr> sk_completed := True \<rparr>]" and ?k = "task_key (?ts ! i)"
  note i = running_task [OF inv mem]
  from inv have w: "workers_ok ?ts (sc_running s)" and a: "answers_ok ?ts (resolved (sc_log s))"
    and p: "pending_ok ?ts (sc_pending s)" and q: "queue_ok ?ts (sc_queue s)"
    and l: "life_ok ?ts (sc_running s) (sc_states s)" by (simp_all add: sched_inv_def)
  have at: "map_of (sc_pending s) ?k = Some i" using p i by (simp add: pending_ok_def)
  have us: "?us ! j = (if j = i then (?ts ! i)\<lparr> sk_completed := True \<rparr> else ?ts ! j)" "length ?us = length ?ts" for j
    using i by simp_all
  have rr: "distinct (map fst ?run) \<and> fst ` set ?run = fst ` set (sc_running s) - {i} \<and>
    map_of ?run = (map_of (sc_running s))(i := None)"
    by (rule remove_run) (use w mem in \<open>auto simp: workers_ok_def\<close>)
  have "workers_ok ?us ?run" unfolding workers_ok_def us(2) using w rr by (auto simp: workers_ok_def us)
  moreover have "answers_ok ?us (resolved (sc_log s) @ [i])"
    unfolding answers_ok_def us(2) using a i by (auto simp: answers_ok_def us)
  moreover have "pending_ok ?us (AList.delete ?k (sc_pending s))"
    unfolding pending_ok_def us(2)
  proof (intro conjI allI)
    show "distinct (map fst (AList.delete ?k (sc_pending s)))"
      using p by (simp add: pending_ok_def distinct_delete)
    fix k j
    show "map_of (AList.delete ?k (sc_pending s)) k = Some j \<longleftrightarrow>
        j < length ?ts \<and> \<not> sk_completed (?us ! j) \<and> task_key (?us ! j) = k"
    proof (cases "j = i")
      case True
      with at show ?thesis using p by (auto simp: us delete_conv' pending_ok_def)
    next
      case False
      have "j < length ?ts \<Longrightarrow> \<not> sk_completed (?ts ! j) \<Longrightarrow> task_key (?ts ! j) \<noteq> ?k"
        using same_key_same_task [OF p _ _ i(1,3)] False by blast
      with False p show ?thesis by (auto simp: us delete_conv' pending_ok_def)
    qed
  qed
  moreover have "queue_ok ?us (sc_queue s)"
    unfolding queue_ok_def us(2) using q i by (auto simp: queue_ok_def us entry_fresh_def)
  moreover have "life_ok ?us ?run (sc_states s)"
    unfolding life_ok_def us(2) using l rr by (auto simp: life_ok_def us)
  ultimately show ?thesis
    using inv i at
    by (simp add: sc_answer_def Let_def sched_inv_def log_effects_def set_task_def task_key_def)
qed

subsection \<open>Every step\<close>

lemma call_inv:
  assumes "sched_run op s = (r, s')" and "sched_inv s"
  shows "sched_inv s'"
proof (cases op)
  case (DoSchedule q cb)
  with assms(1) have "\<exists>x. schedule q cb s = (x, s')" by (auto elim!: bindp_cases)
  with schedule_inv [OF assms(2)] show ?thesis by blast
next
  case (DoCancel i)
  with assms quiet_inv [OF quiet_cancel] show ?thesis by auto
next
  case DoShutdown
  with assms quiet_inv [OF quiet_shutdown] show ?thesis by auto
qed (use assms calm_ops calmD quiet_inv in \<open>metis sched_run.simps\<close>)+

lemma worker_inv:
  assumes "sched_worker_step s s'" and inv: "sched_inv s"
  shows "sched_inv s'"
  using assms(1)
proof cases
  case sw_take
  then show ?thesis using take_inv [OF inv] by simp
next
  case (sw_begin i)
  with begin_inv [OF inv sw_begin(1)] show ?thesis by auto
next
  case (sw_fail i r)
  with fail_inv [OF inv sw_fail(1)] show ?thesis by auto
qed (use receive_inv [OF inv] store_inv [OF inv] answer_inv [OF inv] in auto)

lemma new_inv:
  assumes "sc_new True cuda profiler workers dest maxBytes = Inr s"
  shows "sched_inv s"
  using assms
  by (auto simp: sc_new_def sched_inv_def workers_ok_def answers_ok_def pending_ok_def queue_ok_def life_ok_def
      split: if_splits)

lemma sched_reachable_inv: "sched_reachable s \<Longrightarrow> sched_inv s"
  by (induction rule: sched_reachable.induct) (auto elim!: sched_step.cases intro: new_inv call_inv worker_inv)

end
