(* ===== verification/Scheduler_Props.thy ===== *)
theory Scheduler_Props
  imports Scheduler_Inv
begin

text \<open>
  What the scheduler promises: no request is lost and none is answered twice, its workers never
  let an exception escape, every request is answered, requests for an expert that is on its way
  join the task that fetches it, the most urgent task is served first, and speculative transfers
  stay within their byte budget.
\<close>

section \<open>A run used by the witnesses\<close>

definition sched0 :: scheduler where
  "sched0 = \<lparr> sc_workers = 1, sc_prefetchDestination = Ram, sc_maximumPrefetchBytes = 100, sc_profiler = None,
     sc_cudaBackend = False, sc_states = [], sc_tasks = [], sc_queue = [], sc_pending = [],
     sc_resident = Map.empty, sc_prefetchedReady = [], sc_running = [], sc_nextSequence = 0,
     sc_stopping = False, sc_log = [] \<rparr>"

abbreviation "request_ram q \<equiv> schedule_request_default\<lparr> sq_layerId := 2, sq_expertId := 5, sq_destination := Ram, sq_priority := q \<rparr>"

definition sched1 :: scheduler where
  "sched1 = snd (sched_run (DoRegister 0 2 5 Nvme) sched0)"

definition sched2 :: scheduler where
  "sched2 = snd (sched_run (DoSchedule (request_ram PredictedNextLayer) None) sched1)"

lemma sched0_reachable: "sched_reachable sched0"
  by (rule sr_start [of False None 1 Ram 100]) (simp add: sc_new_def sched0_def)

lemma sched_run_reachable: "sched_reachable s \<Longrightarrow> sched_reachable (snd (sched_run op s))"
  using sr_next st_call [OF prod.collapse [symmetric]] by blast

lemma sched2_reachable: "sched_reachable sched1" "sched_reachable sched2"
  unfolding sched2_def sched1_def by (intro sched_run_reachable sched0_reachable)+

lemma sched1_eq:
  "sched1 = sched0\<lparr> sc_states := [(key 2 5, \<lparr> es_layerId = 2, es_id = 5, es_currentLocation = Nvme,
     es_targetLocation = Nvme, es_state = Ready, es_lastUsed = 0, es_usageCount = 0 \<rparr>)] \<rparr>"
  by (simp add: sched1_def sc_registerExpert_def on_states_def rs_registerExpert_def sched0_def)

lemma sched2_eq:
  "sched2 = sched1\<lparr>
     sc_states := [(key 2 5, \<lparr> es_layerId = 2, es_id = 5, es_currentLocation = Nvme,
       es_targetLocation = Ram, es_state = Queued, es_lastUsed = 0, es_usageCount = 0 \<rparr>)],
     sc_tasks := [new_task (request_ram PredictedNextLayer) None],
     sc_queue := [\<lparr> qe_task = 0, qe_priority = PredictedNextLayer, qe_sequence = 0, qe_generation = 0, qe_priorityScore = 0 \<rparr>],
     sc_pending := [(key 2 5, 0)], sc_nextSequence := 1,
     sc_log := [sc_event ExpertRequested (request_ram PredictedNextLayer)] \<rparr>"
  by (simp add: sched2_def sched1_eq sched0_def schedule_def guard_runs bindp_def on_states_def log_effects_def
      rs_snapshot_def account_request_def is_immediate_def rs_ops rs_change_run thenp_def enqueue_task_def
      push_entry_def Let_def schedule_request_default_def new_task_def)

section \<open>No request is lost\<close>

lemma count_list_distinct: "distinct xs \<Longrightarrow> x \<in> set xs \<Longrightarrow> count_list xs x = 1"
  by (induction xs) (auto simp: count_list_0_iff)

text \<open>C2: In every reachable state a task is either answered, exactly once and by no worker any more, or
  unanswered and the one pending task of its expert: held by exactly one worker if it is started,
  in the queue with a live entry if not.\<close>

theorem no_request_lost:
  assumes "sched_reachable s" and "i < length (sc_tasks s)"
  shows "if sk_completed (sc_tasks s ! i)
    then count_list (resolved (sc_log s)) i = 1 \<and> i \<notin> fst ` set (sc_running s)
    else i \<notin> set (resolved (sc_log s)) \<and> map_of (sc_pending s) (task_key (sc_tasks s ! i)) = Some i \<and>
      (if sk_started (sc_tasks s ! i) then \<exists>!ph. (i, ph) \<in> set (sc_running s)
       else i \<notin> fst ` set (sc_running s) \<and> (\<exists>e \<in> set (sc_queue s). qe_task e = i \<and> entry_live (sc_tasks s) e))"
proof -
  from sched_reachable_inv [OF assms(1)]
  have w: "workers_ok (sc_tasks s) (sc_running s)" and a: "answers_ok (sc_tasks s) (resolved (sc_log s))"
    and p: "pending_ok (sc_tasks s) (sc_pending s)" and q: "queue_ok (sc_tasks s) (sc_queue s)"
    by (simp_all add: sched_inv_def)
  have once: "count_list (resolved (sc_log s)) i = 1" if "i \<in> set (resolved (sc_log s))"
    using a that by (auto simp: answers_ok_def count_list_distinct)
  have idle: "i \<in> fst ` set (sc_running s) \<longleftrightarrow> sk_started (sc_tasks s ! i) \<and> \<not> sk_completed (sc_tasks s ! i)"
    using w assms(2) by (simp add: workers_ok_def)
  have one: "\<exists>!ph. (i, ph) \<in> set (sc_running s)" if "i \<in> fst ` set (sc_running s)"
  proof -
    from that obtain ph where "(i, ph) \<in> set (sc_running s)" by force
    with w show ?thesis by (auto simp: workers_ok_def intro: eq_key_imp_eq_value)
  qed
  have live: "\<exists>e \<in> set (sc_queue s). qe_task e = i \<and> entry_live (sc_tasks s) e" if "\<not> sk_started (sc_tasks s ! i)"
    using q assms(2) that by (auto simp: queue_ok_def entry_live_def Let_def)
  show ?thesis
    using once idle one live a p assms(2) by (auto simp: answers_ok_def pending_ok_def)
qed

theorem no_request_lost_witness:
  "\<not> sk_completed (sc_tasks sched2 ! 0) \<and> map_of (sc_pending sched2) (key 2 5) = Some 0"
  using no_request_lost [OF sched2_reachable(2), of 0]
  by (simp add: sched2_eq new_task_def task_key_def schedule_request_default_def split: if_splits)

section \<open>Workers never throw\<close>

text \<open>C11: In every reachable state the calls a worker makes outside its exception handler succeed: marking
  a picked task's expert as loading, and reporting a failure. A completed transfer always marks
  its expert ready. So no exception ever leaves a worker's thread function.\<close>

theorem workers_never_throw:
  assumes "sched_reachable s"
  shows "(\<forall>i. (i, Picked) \<in> set (sc_running s) \<longrightarrow> fst (sc_begin i s) = Inr ()) \<and>
    (\<forall>i r. (i, Finishing r) \<in> set (sc_running s) \<longrightarrow> fst (sc_fail i r s) = Inr ()) \<and>
    (\<forall>i now res. (i, Waiting) \<in> set (sc_running s) \<and> ts_status res = Completed \<longrightarrow>
       (i, Arrived res) \<in> set (sc_running (sc_receive now i (Inr res) s)))"
proof (intro conjI allI impI)
  note inv = sched_reachable_inv [OF assms]
  show "fst (sc_begin i s) = Inr ()" if "(i, Picked) \<in> set (sc_running s)" for i
    using begin_inv [OF inv that] by auto
  show "fst (sc_fail i r s) = Inr ()" if "(i, Finishing r) \<in> set (sc_running s)" for i r
    using fail_inv [OF inv that] by auto
  show "(i, Arrived res) \<in> set (sc_running (sc_receive now i (Inr res) s))"
    if w: "(i, Waiting) \<in> set (sc_running s) \<and> ts_status res = Completed" for i now res
  proof -
    obtain e where e: "map_of (sc_states s) (task_key (sc_tasks s ! i)) = Some e"
      "es_state e \<in> life (sq_eviction (sk_request (sc_tasks s ! i))) (Some Waiting)"
      by (rule sched_life [OF inv conjunct1 [OF w]])
    from e(2) have "es_state e = Evicting \<or> es_state e = Loading" by (simp split: if_splits)
    note e = e(1) this
    from conjunct2 [OF w] have "ts_status res \<noteq> Cancelled" by simp
    moreover from e have "\<exists>t. on_states (rs_markReady now (sq_layerId (task_request i s))
        (sq_expertId (task_request i s)) (sq_destination (task_request i s))) s = (Inr (), t)"
      by (auto simp: on_states_def rs_markReady_def rs_change_run task_key_def task_request_def)
    ultimately show ?thesis by (auto simp: sc_receive_def Let_def set_phase_def)
  qed
qed

definition sched3 :: scheduler where
  "sched3 = sc_take sched2"

lemma sched3_reachable: "sched_reachable sched3"
  unfolding sched3_def
  by (rule sr_next [OF sched2_reachable(2) st_worker [OF sw_take]]) (simp_all add: sched2_eq sched1_eq sched0_def)

lemma sched3_running: "sc_running sched3 = [(0, Picked)]"
  by (simp add: sched3_def sc_take_def sched2_eq sched1_eq sched0_def entry_live_def new_task_def)

theorem workers_never_throw_witness: "fst (sc_begin 0 sched3) = Inr ()"
  using workers_never_throw [OF sched3_reachable] by (simp add: sched3_running)

section \<open>Every request is answered\<close>

definition work_left :: "scheduler \<Rightarrow> nat" where
  "work_left s = 6 * length (sc_queue s) + sum_list (map (phase_weight \<circ> snd) (sc_running s))"

lemma advances_work:
  assumes "advances i ph s t" and "(i, ph) \<in> set (sc_running s)"
  shows "work_left t < work_left s"
  using assms sum_list_map_remove1 [of "(i, ph)" "sc_running s" "phase_weight \<circ> snd"]
  by (auto simp: advances_def work_left_def)

lemma take_work:
  assumes "sc_queue s \<noteq> []"
  shows "work_left (sc_take s) < work_left s"
proof -
  obtain rest found where pop: "pop_live (sc_tasks s) (sc_queue s) = (rest, found)" by fastforce
  then show ?thesis
  proof (cases rule: pop_live_cases)
    case 1
    with pop assms show ?thesis by (simp add: sc_take_def work_left_def)
  next
    case (2 e)
    with pop show ?thesis by (simp add: sc_take_def work_left_def)
  qed
qed

lemma answer_work:
  assumes "(i, Answering r) \<in> set (sc_running s)"
  shows "work_left (sc_answer i r s) < work_left s"
  using sum_list_map_remove1 [OF assms, of "phase_weight \<circ> snd"]
  by (simp add: sc_answer_def Let_def work_left_def log_effects_def)

lemma worker_step_work:
  assumes "sched_worker_step s s'" and inv: "sched_inv s"
  shows "work_left s' < work_left s"
  using assms(1)
proof cases
  case (sw_begin i)
  with begin_inv [OF inv sw_begin(1)] advances_work show ?thesis by fastforce
next
  case (sw_receive i now outcome)
  with receive_inv [OF inv sw_receive(2)] advances_work show ?thesis by blast
next
  case (sw_store i res)
  with store_inv [OF inv sw_store(2)] advances_work show ?thesis by blast
next
  case (sw_fail i r)
  with fail_inv [OF inv sw_fail(1)] advances_work show ?thesis by fastforce
qed (use take_work answer_work in simp_all)

lemma quiescent:
  assumes inv: "sched_inv s" and rest: "\<nexists>u. sched_worker_step s u"
  shows "sc_queue s = []" and "sc_running s = []"
proof -
  show r: "sc_running s = []"
  proof (rule ccontr)
    assume "sc_running s \<noteq> []"
    then obtain i ph where m: "(i, ph) \<in> set (sc_running s)" by (cases "sc_running s") auto
    have "\<exists>u. sched_worker_step s u"
    proof (cases ph)
      case Picked
      with m begin_inv [OF inv] sw_begin show ?thesis by blast
    next
      case (Finishing r)
      with m fail_inv [OF inv] sw_fail show ?thesis by blast
    qed (use m sw_receive sw_store sw_answer in blast)+
    with rest show False by simp
  qed
  from inv have "0 < sc_workers s" by (simp add: sched_inv_def)
  with sw_take [of s] r rest show "sc_queue s = []" by auto
qed

lemma worker_step_tasks:
  assumes "sched_worker_step s s'" and inv: "sched_inv s"
  shows "length (sc_tasks s') = length (sc_tasks s)"
  using assms(1)
proof cases
  case sw_take
  then show ?thesis by (simp add: sc_take_def split: prod.split option.split)
next
  case (sw_begin i)
  then show ?thesis
    by (auto simp: sc_begin_def guard_runs Let_def set_phase_def log_effects_def on_states_def o_def
        elim!: thenp_cases split: if_splits)
next
  case (sw_receive i now outcome)
  then show ?thesis
    by (auto simp: sc_receive_def Let_def on_states_def set_phase_def split: sum.split prod.split)
next
  case (sw_store i res)
  obtain r t where run: "store_transfer i res s = (r, t)" by fastforce
  have "quiet s t" by (rule calmD [OF calm_ops(8) run])
  then have "map strip (sc_tasks t) = map strip (sc_tasks s)" by (simp add: quiet_def)
  from strip_eqD(1) [OF this] run show ?thesis
    unfolding sw_store
    by (auto simp: sc_store_def Let_def set_phase_def on_states_def log_effects_def split: sum.split prod.split)
next
  case (sw_fail i r)
  then show ?thesis
    by (auto simp: sc_fail_def guard_runs set_phase_def on_states_def
        elim!: thenp_cases bindp_cases split: if_splits)
next
  case (sw_answer i r)
  then show ?thesis by (simp add: sc_answer_def Let_def log_effects_def)
qed

lemma worker_steps_inv:
  "sched_worker_step\<^sup>*\<^sup>* s s' \<Longrightarrow> sched_inv s \<Longrightarrow> sched_inv s' \<and> length (sc_tasks s') = length (sc_tasks s)"
  by (induction rule: rtranclp_induct) (auto intro: worker_inv simp: worker_step_tasks)

text \<open>C3: From every reachable state the workers cannot run for ever, and when none can make a step the
  queue is empty, no worker holds a task, and every request scheduled so far has its answer, once.
  The outcome of each transfer a worker waits for is arbitrary.\<close>

theorem every_request_answered:
  assumes "sched_reachable s"
  shows "(\<nexists>f. f 0 = s \<and> (\<forall>i. sched_worker_step (f i) (f (Suc i)))) \<and>
    (\<forall>s'. sched_worker_step\<^sup>*\<^sup>* s s' \<and> (\<nexists>u. sched_worker_step s' u) \<longrightarrow>
       sc_queue s' = [] \<and> sc_running s' = [] \<and> sc_pending s' = [] \<and>
       (\<forall>i < length (sc_tasks s). count_list (resolved (sc_log s')) i = 1))"
proof (intro conjI allI impI)
  note inv = sched_reachable_inv [OF assms]
  show "\<nexists>f. f 0 = s \<and> (\<forall>i. sched_worker_step (f i) (f (Suc i)))"
  proof
    assume "\<exists>f. f 0 = s \<and> (\<forall>i. sched_worker_step (f i) (f (Suc i)))"
    then obtain f where f: "f 0 = s" "\<And>i. sched_worker_step (f i) (f (Suc i))" by blast
    have "sched_inv (f i) \<and> work_left (f i) + i \<le> work_left (f 0)" for i
    proof (induction i)
      case (Suc i)
      with worker_inv [OF f(2)] worker_step_work [OF f(2), of i] show ?case by fastforce
    qed (simp add: f inv)
    from this [of "Suc (work_left (f 0))"] show False by simp
  qed
  fix s'
  assume a: "sched_worker_step\<^sup>*\<^sup>* s s' \<and> (\<nexists>u. sched_worker_step s' u)"
  from worker_steps_inv a inv have inv': "sched_inv s'" and len: "length (sc_tasks s') = length (sc_tasks s)" by blast+
  from quiescent [OF inv'] a show q: "sc_queue s' = []" "sc_running s' = []" by blast+
  from inv' have w: "workers_ok (sc_tasks s') []" and an: "answers_ok (sc_tasks s') (resolved (sc_log s'))"
    and p: "pending_ok (sc_tasks s') (sc_pending s')" and k: "queue_ok (sc_tasks s') []"
    using q by (simp_all add: sched_inv_def)
  have c: "sk_completed (sc_tasks s' ! i)" if "i < length (sc_tasks s')" for i
    using w k that by (auto simp: workers_ok_def queue_ok_def)
  show "sc_pending s' = []"
  proof (cases "sc_pending s'")
    case (Cons x xs)
    then have "map_of (sc_pending s') (fst x) = Some (snd x)" by simp
    with p c show ?thesis by (auto simp: pending_ok_def)
  qed
  show "count_list (resolved (sc_log s')) i = 1" if "i < length (sc_tasks s)" for i
    using an c len that by (auto simp: answers_ok_def count_list_distinct)
qed

theorem every_request_answered_witness:
  "(\<nexists>f. f 0 = sched2 \<and> (\<forall>i. sched_worker_step (f i) (f (Suc i)))) \<and> length (sc_tasks sched2) = 1"
  using every_request_answered [OF sched2_reachable(2)] by (simp add: sched2_eq)

section \<open>The most urgent task first\<close>

text \<open>An idle worker that finds a task not yet started takes one, and no other such task is more
  urgent: none has a higher priority, and none of the same priority a higher score.\<close>

theorem take_most_urgent:
  assumes "sched_reachable s" and "j < length (sc_tasks s)" and "\<not> sk_started (sc_tasks s ! j)"
  shows "\<exists>i < length (sc_tasks s). sc_running (sc_take s) = (i, Picked) # sc_running s \<and> \<not> sk_started (sc_tasks s ! i) \<and>
    sk_started (sc_tasks (sc_take s) ! i) \<and>
    (let p = task_request i s; q = task_request j s
     in priority_code (sq_priority q) < priority_code (sq_priority p) \<or>
        (sq_priority q = sq_priority p \<and> sq_priorityScore q \<le> sq_priorityScore p))"
proof -
  from sched_reachable_inv [OF assms(1)] have qk: "queue_ok (sc_tasks s) (sc_queue s)" by (simp add: sched_inv_def)
  from qk assms(2,3) obtain x where x: "x \<in> set (sc_queue s)" "qe_task x = j"
      "qe_generation x = sk_generation (sc_tasks s ! j)" "\<not> sk_completed (sc_tasks s ! j)"
    by (auto simp: queue_ok_def)
  with assms(3) have live: "entry_live (sc_tasks s) x" by (simp add: entry_live_def)
  obtain rest found where pop: "pop_live (sc_tasks s) (sc_queue s) = (rest, found)" by fastforce
  then show ?thesis
  proof (cases rule: pop_live_cases)
    case 1
    with x live show ?thesis by blast
  next
    case (2 e)
    let ?i = "qe_task e"
    have i: "?i < length (sc_tasks s)" "\<not> sk_started (sc_tasks s ! ?i)"
      and fe: "qe_priority e = sq_priority (task_request ?i s)" "qe_priorityScore e = sq_priorityScore (task_request ?i s)"
      using 2(2,3) qk by (auto simp: queue_ok_def entry_live_def entry_fresh_def Let_def task_request_def)
    have fx: "qe_priority x = sq_priority (task_request j s)" "qe_priorityScore x = sq_priorityScore (task_request j s)"
      using x qk by (auto simp: queue_ok_def entry_fresh_def task_request_def)
    have "\<not> sc_higherPriority e x" using 2(7) x(1) live by blast
    with fe fx have "priority_code (sq_priority (task_request j s)) < priority_code (sq_priority (task_request ?i s)) \<or>
        (sq_priority (task_request j s) = sq_priority (task_request ?i s) \<and>
         sq_priorityScore (task_request j s) \<le> sq_priorityScore (task_request ?i s))"
      unfolding sc_higherPriority_iff
      by (cases "priority_code (sq_priority (task_request j s))" "priority_code (sq_priority (task_request ?i s))"
          rule: linorder_cases) auto
    with i pop 2(1) show ?thesis
      by (intro exI [of _ ?i]) (simp add: sc_take_def Let_def set_task_def)
  qed
qed

section \<open>Joining\<close>

lemma account_callbacks:
  "sk_callbacks (sc_tasks (account_request q init ex s) ! i) = sk_callbacks (sc_tasks s ! i)"
  "length (sc_tasks (account_request q init ex s)) = length (sc_tasks s)"
proof -
  have upd: "sk_callbacks (ts[n := (ts ! n)\<lparr> sk_activeConsumer := True \<rparr>] ! i) = sk_callbacks (ts ! i)" for ts n
    by (cases "n < length ts"; cases "n = i") (simp_all add: list_update_beyond)
  show "sk_callbacks (sc_tasks (account_request q init ex s) ! i) = sk_callbacks (sc_tasks s ! i)"
    "length (sc_tasks (account_request q init ex s)) = length (sc_tasks s)"
    by (auto simp: account_request_def Let_def count_prefetch_def set_task_def upd split: option.split)
qed

text \<open>A request for an expert that a pending task is already bringing to the same tier gets that
  task's ticket: no task is added, its callback is called with the others, and the task is then at
  least as urgent as the request, unless a worker has already started it, and never less urgent than it was.\<close>

theorem schedule_joins_pending:
  assumes "sched_reachable s" and "\<not> sc_stopping s" and "map_of (sc_pending s) (request_key q) = Some i"
    and "sq_destination (task_request i s) = sq_destination q"
  shows "\<exists>s'. schedule q (Some c) s = (Inr (Ticket i), s') \<and> length (sc_tasks s') = length (sc_tasks s) \<and>
    sc_pending s' = sc_pending s \<and> sk_callbacks (sc_tasks s' ! i) = sk_callbacks (sc_tasks s ! i) @ [c] \<and>
    (let old = sq_priority (task_request i s); new = sq_priority (task_request i s')
     in priority_code new = (if sk_started (sc_tasks s ! i) then priority_code old
                             else max (priority_code old) (priority_code (sq_priority q))))"
proof -
  let ?k = "request_key q" and ?ts = "sc_tasks s"
  from sched_reachable_inv [OF assms(1)] have p: "pending_ok ?ts (sc_pending s)"
    and l: "life_ok ?ts (sc_running s) (sc_states s)" by (simp_all add: sched_inv_def)
  from p assms(3) have i: "i < length ?ts" "\<not> sk_completed (?ts ! i)" "task_key (?ts ! i) = ?k"
    by (simp_all add: pending_ok_def)
  from l i obtain init where init: "map_of (sc_states s) ?k = Some init" by (auto simp: life_ok_def)
  let ?s1 = "log_effects [sc_event ExpertRequested q] s"
  let ?u = "account_request q init (Some i) ?s1"
  have qu: "quiet s ?u" by (rule quiet_trans [OF quiet_log quiet_account]) simp
  then have m: "map strip (sc_tasks ?u) = map strip ?ts" by (simp add: quiet_def)
  note eq = strip_eqD [OF m]
  have same: "sk_request (sc_tasks ?u ! i) = sk_request (?ts ! i)" "sk_started (sc_tasks ?u ! i) = sk_started (?ts ! i)"
    using eq(2) [OF i(1)] by simp_all
  have cb: "sk_callbacks (sc_tasks ?u ! i) = sk_callbacks (?ts ! i)"
    by (simp add: account_callbacks log_effects_def)
  have run: "schedule q (Some c) s = (Inr (Ticket i), join_task i q (Some c) ?u)"
    using assms init same
    by (simp add: schedule_def guard_runs bindp_def on_states_def rs_snapshot_def log_effects_def is_immediate_def
        task_request_def)
  have iu: "i < length (sc_tasks ?u)" using eq(1) i by simp
  let ?t = "join_task i q (Some c) ?u"
  have "length (sc_tasks ?t) = length ?ts" using eq(1) by (simp add: join_task_def Let_def)
  moreover have "sc_pending ?t = sc_pending s" using qu by (simp add: join_task_def Let_def quiet_def)
  moreover have "sk_callbacks (sc_tasks ?t ! i) = sk_callbacks (?ts ! i) @ [c]"
    using iu cb by (simp add: join_task_def Let_def)
  moreover have "priority_code (sq_priority (task_request i ?t)) =
      (if sk_started (?ts ! i) then priority_code (sq_priority (task_request i s))
       else max (priority_code (sq_priority (task_request i s))) (priority_code (sq_priority q)))"
    using iu same by (auto simp: join_task_def Let_def task_request_def)
  ultimately show ?thesis unfolding run by (simp add: Let_def)
qed

section \<open>The budget of speculative transfers\<close>

definition cached_bytes :: "scheduler \<Rightarrow> expert_key \<Rightarrow> nat" where
  "cached_bytes s k = (case sc_resident s k of None \<Rightarrow> 0 | Some r \<Rightarrow> unat (er_size (ts_record r)))"

lemma on_states_frame:
  assumes "on_states m s = (r, t)"
  shows "sc_resident t = sc_resident s" "sc_prefetchedReady t = sc_prefetchedReady s"
    "sc_maximumPrefetchBytes t = sc_maximumPrefetchBytes s"
  using assms by (auto simp: on_states_def)

lemma trim_loop_budget:
  assumes "trim_loop own cs cached s = (Inr (), t)" and "cached \<le> sc_maximumPrefetchBytes s"
  shows "(\<Sum>k \<in> set cs. cached_bytes t k) + unat cached \<le> unat (sc_maximumPrefetchBytes s) \<and>
    (\<forall>k. cached_bytes t k \<le> cached_bytes s k) \<and> set (sc_prefetchedReady t) \<subseteq> set (sc_prefetchedReady s) \<and>
    sc_maximumPrefetchBytes t = sc_maximumPrefetchBytes s"
  using assms
proof (induction cs arbitrary: cached s)
  case Nil
  then show ?case by (simp add: word_le_nat_alt)
next
  case (Cons c cs)
  let ?max = "sc_maximumPrefetchBytes s"
  have insert: "(\<Sum>k \<in> set (c # cs). cached_bytes t k) \<le> cached_bytes t c + (\<Sum>k \<in> set cs. cached_bytes t k)"
    by (cases "c \<in> set cs") (simp_all add: insert_absorb)
  show ?case
  proof (cases "sc_resident s c")
    case None
    with Cons.prems have run: "trim_loop own cs cached s = (Inr (), t)" by (simp add: guard_runs)
    from Cons.IH [OF run Cons.prems(2)] None insert show ?thesis
      by (auto simp: cached_bytes_def [of s] dest!: spec [of _ c])
  next
    case (Some res)
    let ?b = "er_size (ts_record res)"
    show ?thesis
    proof (cases "?b > ?max - cached")
      case True
      let ?s = "s\<lparr> sc_resident := (sc_resident s)(c := None), sc_prefetchedReady := removeAll c (sc_prefetchedReady s) \<rparr>"
      from Cons.prems(1) Some True have "thenp (if c \<noteq> own then on_states (rs_reconcile (key_layer c) (key_expert c) Nvme) else ret ())
          (thenp (modify (count_prefetch (\<lambda>p. p\<lparr> pf_wasted := pf_wasted p + 1 \<rparr>))) (trim_loop own cs cached)) ?s = (Inr (), t)"
        by (simp add: guard_runs)
      then obtain x u where u: "(if c \<noteq> own then on_states (rs_reconcile (key_layer c) (key_expert c) Nvme) else ret ()) ?s = (Inr x, u)"
          "trim_loop own cs cached (count_prefetch (\<lambda>p. p\<lparr> pf_wasted := pf_wasted p + 1 \<rparr>) u) = (Inr (), t)"
        by (auto elim!: thenp_cases simp: guard_runs)
      from u(1) have f: "sc_resident u = sc_resident ?s" "sc_prefetchedReady u = sc_prefetchedReady ?s"
          "sc_maximumPrefetchBytes u = ?max"
        by (auto dest: on_states_frame split: if_splits)
      let ?u = "count_prefetch (\<lambda>p. p\<lparr> pf_wasted := pf_wasted p + 1 \<rparr>) u"
      have b: "cached_bytes ?u k = (if k = c then 0 else cached_bytes s k)"
        "sc_maximumPrefetchBytes ?u = ?max" "set (sc_prefetchedReady ?u) \<subseteq> set (sc_prefetchedReady s)" for k
        using f by (auto simp: cached_bytes_def count_prefetch_def)
      from Cons.IH [OF u(2)] Cons.prems(2) b have ih: "(\<Sum>k \<in> set cs. cached_bytes t k) + unat cached \<le> unat ?max"
        "\<forall>k. cached_bytes t k \<le> (if k = c then 0 else cached_bytes s k)"
        "set (sc_prefetchedReady t) \<subseteq> set (sc_prefetchedReady s)" "sc_maximumPrefetchBytes t = ?max" by auto
      from spec [OF ih(2), of c] have "cached_bytes t c = 0" by simp
      moreover have "cached_bytes t k \<le> cached_bytes s k" for k
        using spec [OF ih(2), of k] by (cases "k = c") simp_all
      ultimately show ?thesis using ih(1,3,4) insert by simp
    next
      case False
      with Cons.prems(1) Some have run: "trim_loop own cs (cached + ?b) s = (Inr (), t)" by (simp add: guard_runs)
      have sum: "unat (cached + ?b) = unat cached + unat ?b" "cached + ?b \<le> ?max"
        using unat_add_within [OF Cons.prems(2)] False by (simp_all add: not_less)
      from Cons.IH [OF run sum(2)] have "cached_bytes t c \<le> unat ?b" using Some by (auto simp: cached_bytes_def [of s] dest: spec [of _ c])
      with Cons.IH [OF run sum(2)] insert sum(1) show ?thesis by (simp del: set_simps)
    qed
  qed
qed

text \<open>C25: After a speculative transfer has been stored without an exception, all cached transfers of
  unused prefetches together fit the scheduler's byte budget.\<close>

theorem prefetch_budget_kept:
  assumes "store_transfer i res s = (Inr (), s')" and "sk_prefetchRequest (sc_tasks s ! i)"
    and "\<not> sk_activeConsumer (sc_tasks s ! i)"
  shows "(\<Sum>k \<in> set (sc_prefetchedReady s'). cached_bytes s' k) \<le> unat (sc_maximumPrefetchBytes s)"
proof -
  let ?t = "sc_tasks s ! i" let ?k = "request_key (sk_request ?t)"
  let ?u = "insert_ready ?k (s\<lparr> sc_resident := (if sq_destination (sk_request ?t) = Nvme then (sc_resident s)(?k := None)
                                             else (sc_resident s)(?k \<mapsto> res)) \<rparr>)"
  from assms have run: "trim_loop ?k (sort (sc_prefetchedReady ?u)) 0 ?u = (Inr (), s')"
    by (simp add: store_transfer_def Let_def guard_runs)
  have m: "sc_maximumPrefetchBytes ?u = sc_maximumPrefetchBytes s" by (simp add: insert_ready_def)
  from trim_loop_budget [OF run] m have "(\<Sum>k \<in> set (sc_prefetchedReady ?u). cached_bytes s' k) \<le> unat (sc_maximumPrefetchBytes s)"
    and "set (sc_prefetchedReady s') \<subseteq> set (sc_prefetchedReady ?u)" by simp_all
  moreover from this(2) have "(\<Sum>k \<in> set (sc_prefetchedReady s'). cached_bytes s' k) \<le> (\<Sum>k \<in> set (sc_prefetchedReady ?u). cached_bytes s' k)"
    by (intro sum_mono2) auto
  ultimately show ?thesis by simp
qed

definition big_result :: transfer_result where
  "big_result = transfer_result_default\<lparr> ts_record := expert_record_default\<lparr> er_size := 300 \<rparr> \<rparr>"

theorem prefetch_budget_kept_witness:
  "sc_resident (snd (store_transfer 0 big_result sched2)) (key 2 5) = None \<and>
   (\<Sum>k \<in> set (sc_prefetchedReady (snd (store_transfer 0 big_result sched2))).
      cached_bytes (snd (store_transfer 0 big_result sched2)) k) \<le> 100"
proof -
  have run: "store_transfer 0 big_result sched2 = (Inr (), sched2\<lparr> sc_resident := (sc_resident sched2)(key 2 5 := None) \<rparr>)"
    by (simp add: store_transfer_def Let_def guard_runs sched2_eq sched1_eq sched0_def new_task_def insert_ready_def
        schedule_request_default_def big_result_def count_prefetch_def)
  from prefetch_budget_kept [OF run] show ?thesis
    unfolding run by (simp add: sched2_eq sched1_eq sched0_def new_task_def schedule_request_default_def)
qed

end
