(* ===== verification/Model_Types.thy ===== *)
theory Model_Types
  imports Tensor_Shape
begin

text \<open>
  What describes a model: \<^verbatim>\<open>models/ModelConfig.hpp\<close>, \<^verbatim>\<open>models/runtime/ModelArchitecture.cpp\<close>, \<^verbatim>\<open>router/RouterConfig.cpp\<close>, and
  the parameters of \<^verbatim>\<open>tensor/quantization/Quantization.cpp\<close>, with their validation. Enumerations whose validation
  rejects values outside the enumerators are their codes. Floats are the values of \<open>fp\<close>.
\<close>

section \<open>Sequences of checks\<close>

definition throw_if :: "bool \<Rightarrow> exn \<Rightarrow> exn + unit" where
  "throw_if b e = (if b then Inl e else Inr ())"

definition andthen :: "exn + unit \<Rightarrow> exn + 'a \<Rightarrow> exn + 'a" where
  "andthen c k = bindr c (\<lambda>_. k)"

fun each :: "('a \<Rightarrow> exn + unit) \<Rightarrow> 'a list \<Rightarrow> exn + unit" where
  "each f [] = Inr ()"
| "each f (x # xs) = andthen (f x) (each f xs)"

fun mapr :: "('a \<Rightarrow> exn + 'b) \<Rightarrow> 'a list \<Rightarrow> exn + 'b list" where
  "mapr f [] = Inr []"
| "mapr f (x # xs) = bindr (f x) (\<lambda>y. bindr (mapr f xs) (\<lambda>ys. Inr (y # ys)))"

lemma throw_if_Inr [simp]: "throw_if b e = Inr u \<longleftrightarrow> \<not> b"
  by (simp add: throw_if_def)

lemma andthen_Inr [simp]: "andthen c k = Inr x \<longleftrightarrow> c = Inr () \<and> k = Inr x"
  by (cases c) (simp_all add: andthen_def)

lemma each_Inr: "each f xs = Inr u \<longleftrightarrow> (\<forall>x \<in> set xs. f x = Inr ())"
  by (induction xs) auto

lemma mapr_map: "(\<And>x. x \<in> set xs \<Longrightarrow> f (g x) = Inr x) \<Longrightarrow> mapr f (map g xs) = Inr xs"
  by (induction xs) simp_all

section \<open>Quantization parameters\<close>

record quantization_parameters =
  qp_scale :: fp
  qp_zeroPoint :: int

abbreviation quantized_INT8 :: u32 where "quantized_INT8 \<equiv> 1"
abbreviation quantized_Q4 :: u32 where "quantized_Q4 \<equiv> 2"
abbreviation quantized_Q8 :: u32 where "quantized_Q8 \<equiv> 3"

definition fp_positive :: "fp \<Rightarrow> bool" where
  "fp_positive x = (case x of Fin r \<Rightarrow> 0 < r | PosInf \<Rightarrow> True | _ \<Rightarrow> False)"

text \<open>\<open>x \<le> 0\<close> is false for a NaN.\<close>

definition fp_not_positive :: "fp \<Rightarrow> bool" where
  "fp_not_positive x = (case x of Fin r \<Rightarrow> r \<le> 0 | NegInf \<Rightarrow> True | _ \<Rightarrow> False)"

definition validateParameters :: "u32 \<Rightarrow> quantization_parameters \<Rightarrow> exn + unit" where
  "validateParameters d q =
     andthen (throw_if (\<not> isfinite (qp_scale q) \<or> fp_not_positive (qp_scale q))
       (InvalidArgument ''quantization scale must be finite and positive''))
    (if d = quantized_INT8 \<or> d = quantized_Q8
     then throw_if (qp_zeroPoint q < -128 \<or> qp_zeroPoint q > 127) (InvalidArgument ''8-bit zero point is outside [-128, 127]'')
     else if d = quantized_Q4
     then throw_if (qp_zeroPoint q < -8 \<or> qp_zeroPoint q > 7) (InvalidArgument ''Q4 zero point is outside [-8, 7]'')
     else Inl (InvalidArgument ''unsupported quantized dtype''))"

section \<open>Router configuration\<close>

abbreviation normalization_None :: u32 where "normalization_None \<equiv> 0"
abbreviation normalization_Softmax :: u32 where "normalization_Softmax \<equiv> 1"

record router_config =
  rc_expertCount :: u64
  rc_topK :: u64
  rc_normalization :: u32
  rc_renormalizeSelected :: bool

definition normalization_toString :: "u32 \<Rightarrow> string" where
  "normalization_toString n = (if n = normalization_None then ''NONE'' else if n = normalization_Softmax then ''SOFTMAX'' else ''UNKNOWN'')"

definition router_config_validate :: "router_config \<Rightarrow> exn + unit" where
  "router_config_validate c =
     andthen (throw_if (rc_expertCount c = 0) (InvalidArgument ''router requires experts''))
    (andthen (throw_if (rc_expertCount c > 0xFFFFFFFF) (InvalidArgument ''router expert count exceeds runtime IDs''))
    (andthen (throw_if (rc_topK c = 0 \<or> rc_topK c > rc_expertCount c)
       (InvalidArgument ''router top-k must be within expert count''))
    (throw_if (\<not> (rc_normalization c = normalization_None \<or> rc_normalization c = normalization_Softmax))
       (InvalidArgument ''router normalization is unsupported''))))"

section \<open>Model configuration\<close>

datatype model_architecture = QWEN_MOE | DEEPSEEK_MOE | GLM_MOE | KIMI_MOE | MIXTRAL_MOE | UNKNOWN_MOE

fun architecture_toString :: "model_architecture \<Rightarrow> string" where
  "architecture_toString QWEN_MOE = ''QWEN_MOE''"
| "architecture_toString DEEPSEEK_MOE = ''DEEPSEEK_MOE''"
| "architecture_toString GLM_MOE = ''GLM_MOE''"
| "architecture_toString KIMI_MOE = ''KIMI_MOE''"
| "architecture_toString MIXTRAL_MOE = ''MIXTRAL_MOE''"
| "architecture_toString UNKNOWN_MOE = ''UNKNOWN''"

record model_capabilities =
  cap_routedExperts :: bool
  cap_configurableTopK :: bool
  cap_normalizedRouting :: bool
  cap_gatedExpertMlp :: bool
  cap_sharedExperts :: bool
  cap_quantizedExpertWeights :: bool

record model_config =
  mc_modelName :: string
  mc_layerCount :: u64
  mc_expertCount :: u64
  mc_hiddenSize :: u64
  mc_intermediateSize :: u64
  mc_capabilities :: model_capabilities

section \<open>Runtime architecture\<close>

abbreviation norm_RMSNorm :: u8 where "norm_RMSNorm \<equiv> 0"

record normalization_config =
  nc_kind :: u8
  nc_epsilon :: fp

definition normalization_validate :: "normalization_config \<Rightarrow> exn + unit" where
  "normalization_validate c =
     throw_if (nc_kind c \<noteq> norm_RMSNorm \<or> \<not> isfinite (nc_epsilon c) \<or> fp_not_positive (nc_epsilon c))
       (InvalidArgument ''normalization kind or epsilon is invalid'')"

record runtime_architecture =
  ra_layerCount :: u64
  ra_hiddenDimension :: u64
  ra_attentionHeads :: u64
  ra_keyValueHeads :: u64
  ra_headDimension :: u64
  ra_projectionHeadDimension :: u64
  ra_expertCount :: u64
  ra_topK :: u64
  ra_vocabularySize :: u64
  ra_tiedEmbeddings :: bool
  ra_ropeTheta :: fp
  ra_inputNormalization :: normalization_config
  ra_postAttentionNormalization :: normalization_config
  ra_finalNormalization :: normalization_config

text \<open>The default members; \<open>e\<close> is the float nearest to \<open>1.0e-6\<close>.\<close>

definition normalization_default :: "fp \<Rightarrow> normalization_config" where
  "normalization_default e = \<lparr> nc_kind = norm_RMSNorm, nc_epsilon = e \<rparr>"

definition architecture_default :: "fp \<Rightarrow> runtime_architecture" where
  "architecture_default e = \<lparr> ra_layerCount = 0, ra_hiddenDimension = 0, ra_attentionHeads = 1, ra_keyValueHeads = 1,
     ra_headDimension = 0, ra_projectionHeadDimension = 0, ra_expertCount = 0, ra_topK = 1, ra_vocabularySize = 0,
     ra_tiedEmbeddings = False, ra_ropeTheta = Fin 10000, ra_inputNormalization = normalization_default e,
     ra_postAttentionNormalization = normalization_default e, ra_finalNormalization = normalization_default e \<rparr>"

definition architecture_validate :: "runtime_architecture \<Rightarrow> exn + unit" where
  "architecture_validate a =
     andthen (throw_if (ra_layerCount a = 0 \<or> ra_hiddenDimension a = 0 \<or> ra_attentionHeads a = 0 \<or>
         ra_keyValueHeads a = 0 \<or> ra_headDimension a = 0 \<or> ra_headDimension a mod 2 \<noteq> 0 \<or> ra_expertCount a = 0 \<or>
         ra_topK a = 0 \<or> ra_topK a > ra_expertCount a \<or> ra_attentionHeads a mod ra_keyValueHeads a \<noteq> 0 \<or>
         ra_attentionHeads a > u64_max div ra_headDimension a \<or>
         \<not> isfinite (ra_ropeTheta a) \<or> fp_not_positive (ra_ropeTheta a))
       (InvalidArgument ''model architecture dimensions are invalid''))
    (andthen (normalization_validate (ra_inputNormalization a))
    (andthen (normalization_validate (ra_postAttentionNormalization a))
     (normalization_validate (ra_finalNormalization a))))"

end
