(* ===== verification/Model_Manifest.thy ===== *)
theory Model_Manifest
  imports Model_Types
begin

text \<open>
  \<^verbatim>\<open>src/models/ModelManifest.cpp\<close>, the manifest of a model: which tensor is where in the files of the
  model and which tensors are the experts, routers and layers. Here are its data, its validation and its
  lookups; \<open>Manifest_Json\<close> has the text. The lemmas show what a validated manifest guarantees to the code
  that reads experts by it.
\<close>

section \<open>The manifest\<close>

abbreviation layout_InputOutput :: u32 where "layout_InputOutput \<equiv> 0"
abbreviation layout_OutputInput :: u32 where "layout_OutputInput \<equiv> 1"

definition layout_isValid :: "u32 \<Rightarrow> bool" where
  "layout_isValid l \<longleftrightarrow> l = layout_InputOutput \<or> l = layout_OutputInput"

definition layout_toString :: "u32 \<Rightarrow> string" where
  "layout_toString l = (if l = layout_InputOutput then ''INPUT_OUTPUT''
     else if l = layout_OutputInput then ''OUTPUT_INPUT'' else ''UNKNOWN'')"

record manifest_tensor =
  mt_name :: string
  mt_sourceFile :: string
  mt_offset :: u64
  mt_size :: u64
  mt_dtype :: u32
  mt_shape :: shape
  mt_quantization :: "quantization_parameters option"

record projection_location =
  pl_tensorName :: string
  pl_offset :: u64
  pl_size :: u64
  pl_shape :: shape
  pl_layout :: u32

record manifest_expert =
  mx_layerId :: u32
  mx_expertId :: u32
  mx_gate :: projection_location
  mx_up :: projection_location
  mx_down :: projection_location

record manifest_router_tensor =
  mrt_layerId :: u32
  mrt_tensorName :: string

record manifest_router =
  mr_config :: router_config
  mr_tensors :: "manifest_router_tensor list"
  mr_layout :: u32

record tensor_binding =
  tb_tensorName :: string
  tb_layout :: u32

record manifest_layer =
  ml_layerId :: u32
  ml_queryProjection :: tensor_binding
  ml_keyProjection :: tensor_binding
  ml_valueProjection :: tensor_binding
  ml_outputProjection :: tensor_binding
  ml_inputNormTensor :: string
  ml_postAttentionNormTensor :: string
  ml_routerTensor :: string
  ml_queryNormTensor :: string
  ml_keyNormTensor :: string

record manifest_io =
  io_tokenEmbeddingTensor :: string
  io_finalNormTensor :: string
  io_lmHead :: tensor_binding
  io_tiedEmbeddings :: bool

record model_manifest =
  mf_schema :: string
  mf_modelName :: string
  mf_architecture :: model_architecture
  mf_sourceArchitecture :: string
  mf_parameterCount :: u64
  mf_config :: model_config
  mf_runtimeArchitecture :: "runtime_architecture option"
  mf_router :: manifest_router
  mf_tensors :: "manifest_tensor list"
  mf_experts :: "manifest_expert list"
  mf_layers :: "manifest_layer list"
  mf_modelIO :: "manifest_io option"

definition schemaVersion :: string where
  "schemaVersion = ''hypermoe.model-manifest.v3''"

definition legacySchemaVersion :: string where
  "legacySchemaVersion = ''hypermoe.model-manifest.v2''"

section \<open>Validation\<close>

text \<open>A POSIX path: its components between slashes; \<open>..\<close> leads out of the root.\<close>

fun split_path :: "string \<Rightarrow> string list" where
  "split_path [] = [[]]"
| "split_path (c # s) = (if c = CHR ''/'' then [] # split_path s
     else (case split_path s of [] \<Rightarrow> [[c]] | w # ws \<Rightarrow> (c # w) # ws))"

definition validatePath :: "string \<Rightarrow> exn + unit" where
  "validatePath path =
     andthen (throw_if (path = [] \<or> hd path = CHR ''/'')
       (InvalidArgument ''manifest tensor source path must be relative''))
    (throw_if (''..'' \<in> set (split_path path))
       (InvalidArgument ''manifest tensor source path escapes artifact root''))"

definition manifest_requiredBytes :: "shape \<Rightarrow> u32 \<Rightarrow> exn + u64" where
  "manifest_requiredBytes sh t =
     (let elements = sh_storageElementCount sh; width = sizeOf t in
      andthen (throw_if (width = 0) (InvalidArgument ''manifest tensor dtype is invalid''))
     (andthen (throw_if (elements > u64_max div width) (OverflowError ''manifest tensor size overflow''))
      (Inr (elements * width))))"

definition check_header :: "model_manifest \<Rightarrow> exn + unit" where
  "check_header m = (let c = mf_config m; rc = mr_config (mf_router m) in
     andthen (throw_if (mf_schema m \<noteq> schemaVersion \<and> mf_schema m \<noteq> legacySchemaVersion)
       (InvalidArgument ''unsupported manifest schema''))
    (andthen (throw_if (mf_modelName m = [] \<or> mf_sourceArchitecture m = [])
       (InvalidArgument ''manifest model identity is incomplete''))
    (andthen (throw_if (mc_layerCount c = 0 \<or> mc_expertCount c = 0 \<or> mc_hiddenSize c = 0 \<or> mc_intermediateSize c = 0)
       (InvalidArgument ''manifest model dimensions must be nonzero''))
    (andthen (router_config_validate rc)
    (andthen (throw_if (\<not> layout_isValid (mr_layout (mf_router m)))
       (InvalidArgument ''manifest router tensor layout is invalid''))
    (andthen (throw_if (rc_expertCount rc \<noteq> mc_expertCount c)
       (InvalidArgument ''manifest router expert count disagrees with model''))
    (andthen (case mf_runtimeArchitecture m of
        None \<Rightarrow> Inr ()
      | Some a \<Rightarrow> andthen (architecture_validate a)
          (throw_if (ra_layerCount a \<noteq> mc_layerCount c \<or> ra_hiddenDimension a \<noteq> mc_hiddenSize c \<or>
             ra_expertCount a \<noteq> mc_expertCount c \<or> ra_topK a \<noteq> rc_topK rc)
             (InvalidArgument ''manifest runtime architecture disagrees with model configuration'')))
    (throw_if (mf_tensors m = [] \<or> mf_experts m = [] \<or> mr_tensors (mf_router m) = [])
       (InvalidArgument ''manifest must contain router and expert tensors'')))))))))"

text \<open>\<open>byName\<close> maps the names seen so far to their tensors.\<close>

definition check_tensor :: "manifest_tensor \<Rightarrow> exn + unit" where
  "check_tensor v =
     andthen (throw_if (mt_name v = [] \<or> mt_size v = 0)
       (InvalidArgument ''manifest tensor identity or size is invalid''))
    (andthen (validatePath (mt_sourceFile v))
    (andthen (throw_if (mt_offset v > u64_max - mt_size v) (OverflowError ''manifest tensor byte range overflows''))
    (andthen (bindr (manifest_requiredBytes (mt_shape v) (mt_dtype v)) (\<lambda>n.
        throw_if (n \<noteq> mt_size v) (InvalidArgument ''manifest tensor shape does not match byte size'')))
    (if mt_dtype v = dtype_code INT8
     then (case mt_quantization v of
        None \<Rightarrow> Inl (InvalidArgument ''INT8 manifest tensor is missing quantization metadata'')
      | Some q \<Rightarrow> validateParameters quantized_INT8 q)
     else throw_if (mt_quantization v \<noteq> None)
        (InvalidArgument ''non-INT8 manifest tensor has quantization metadata'')))))"

fun check_tensors :: "(string \<rightharpoonup> manifest_tensor) \<Rightarrow> manifest_tensor list \<Rightarrow> exn + (string \<rightharpoonup> manifest_tensor)" where
  "check_tensors byName [] = Inr byName"
| "check_tensors byName (v # vs) =
     andthen (check_tensor v)
    (andthen (throw_if (byName (mt_name v) \<noteq> None) (InvalidArgument ''duplicate manifest tensor name''))
     (check_tensors (byName(mt_name v \<mapsto> v)) vs))"

text \<open>The constructor of a shape from an initializer list, compared with a shape.\<close>

definition shape_is :: "u64 list \<Rightarrow> shape \<Rightarrow> string \<Rightarrow> exn + unit" where
  "shape_is ds sh message = bindr (shape_make ds) (\<lambda>expected. throw_if (sh \<noteq> expected) (InvalidArgument message))"

fun check_routers ::
  "model_manifest \<Rightarrow> (string \<rightharpoonup> manifest_tensor) \<Rightarrow> u32 list \<Rightarrow> manifest_router_tensor list \<Rightarrow> exn + u32 list" where
  "check_routers m byName seen [] = Inr seen"
| "check_routers m byName seen (r # rs) = (let c = mf_config m in
     andthen (throw_if (unat (mrt_layerId r) \<ge> unat (mc_layerCount c) \<or> mrt_layerId r \<in> set seen)
       (InvalidArgument ''manifest router layer is invalid or duplicated''))
    (case byName (mrt_tensorName r) of
       None \<Rightarrow> Inl (InvalidArgument ''manifest router references an unknown tensor'')
     | Some v \<Rightarrow> andthen (shape_is (if mr_layout (mf_router m) = layout_OutputInput
            then [mc_expertCount c, mc_hiddenSize c] else [mc_hiddenSize c, mc_expertCount c])
            (mt_shape v) ''manifest router tensor shape is incompatible'')
         (check_routers m byName (mrt_layerId r # seen) rs)))"

definition check_projection :: "model_config \<Rightarrow> (string \<rightharpoonup> manifest_tensor) \<Rightarrow> projection_location \<Rightarrow> bool \<Rightarrow> exn + unit" where
  "check_projection c byName p down =
     andthen (throw_if (\<not> layout_isValid (pl_layout p)) (InvalidArgument ''expert projection layout is invalid''))
    (case byName (pl_tensorName p) of
       None \<Rightarrow> Inl (InvalidArgument ''expert projection references an unknown tensor'')
     | Some src \<Rightarrow>
         andthen (throw_if (pl_size p = 0 \<or> pl_offset p < mt_offset src \<or> pl_offset p > u64_max - pl_size p \<or>
             pl_offset p + pl_size p > mt_offset src + mt_size src)
           (InvalidArgument ''expert projection range escapes source tensor''))
        (andthen (bindr (manifest_requiredBytes (pl_shape p) (mt_dtype src)) (\<lambda>n.
            throw_if (n \<noteq> pl_size p) (InvalidArgument ''expert projection shape does not match its bytes'')))
        (shape_is (if (pl_layout p = layout_OutputInput) = down
             then [mc_hiddenSize c, mc_intermediateSize c] else [mc_intermediateSize c, mc_hiddenSize c])
           (pl_shape p) ''expert projection shape and layout are incompatible'')))"

text \<open>The identities seen, the experts counted for each layer, and whether one is quantized.\<close>

record expert_tally =
  et_identities :: "(u32 \<times> u32) list"
  et_perLayer :: "(u32 \<times> nat) list"
  et_quantized :: bool

definition tally_expert :: "expert_tally \<Rightarrow> manifest_expert \<Rightarrow> bool \<Rightarrow> expert_tally" where
  "tally_expert t x quantized = \<lparr> et_identities = (mx_layerId x, mx_expertId x) # et_identities t,
     et_perLayer = AList.update (mx_layerId x)
       (Suc (case map_of (et_perLayer t) (mx_layerId x) of None \<Rightarrow> 0 | Some n \<Rightarrow> n)) (et_perLayer t),
     et_quantized = (et_quantized t \<or> quantized) \<rparr>"

definition check_expert :: "model_config \<Rightarrow> (string \<rightharpoonup> manifest_tensor) \<Rightarrow> expert_tally \<Rightarrow> manifest_expert \<Rightarrow> exn + expert_tally" where
  "check_expert c byName t x =
     andthen (throw_if (unat (mx_layerId x) \<ge> unat (mc_layerCount c) \<or> unat (mx_expertId x) \<ge> unat (mc_expertCount c))
       (InvalidArgument ''manifest expert identity is outside model bounds''))
    (andthen (throw_if ((mx_layerId x, mx_expertId x) \<in> set (et_identities t))
       (InvalidArgument ''duplicate manifest expert mapping''))
    (case (byName (pl_tensorName (mx_gate x)), byName (pl_tensorName (mx_up x)), byName (pl_tensorName (mx_down x))) of
       (Some g, Some u, Some d) \<Rightarrow>
         andthen (throw_if (mt_dtype g \<noteq> mt_dtype u \<or> mt_dtype g \<noteq> mt_dtype d)
           (InvalidArgument ''expert projections must use one storage dtype''))
        (andthen (check_projection c byName (mx_gate x) False)
        (andthen (check_projection c byName (mx_up x) False)
        (andthen (check_projection c byName (mx_down x) True)
         (Inr (tally_expert t x (mt_dtype g = dtype_code INT8))))))
     | _ \<Rightarrow> Inl (InvalidArgument ''expert projections must use one storage dtype'')))"

fun check_experts :: "model_config \<Rightarrow> (string \<rightharpoonup> manifest_tensor) \<Rightarrow> expert_tally \<Rightarrow> manifest_expert list \<Rightarrow> exn + expert_tally" where
  "check_experts c byName t [] = Inr t"
| "check_experts c byName t (x # xs) = bindr (check_expert c byName t x) (\<lambda>t'. check_experts c byName t' xs)"

definition check_coverage :: "model_config \<Rightarrow> u32 list \<Rightarrow> expert_tally \<Rightarrow> exn + unit" where
  "check_coverage c routerLayers t =
     andthen (each (\<lambda>(layer, count).
         andthen (throw_if (count \<noteq> unat (mc_expertCount c))
           (InvalidArgument ''manifest MoE layer does not contain the declared expert count''))
        (throw_if (layer \<notin> set routerLayers) (InvalidArgument ''manifest MoE layer has no router tensor'')))
       (et_perLayer t))
    (andthen (each (\<lambda>layer. throw_if (map_of (et_perLayer t) layer = None)
         (InvalidArgument ''manifest router layer has no expert mappings'')) (sort routerLayers))
    (throw_if (cap_quantizedExpertWeights (mc_capabilities c) \<noteq> et_quantized t)
       (InvalidArgument ''manifest quantized expert capability disagrees with expert tensors'')))"

text \<open>\<open>ds\<close> is the shape with inputs first; it is built before the check starts.\<close>

definition check_binding :: "(string \<rightharpoonup> manifest_tensor) \<Rightarrow> tensor_binding \<Rightarrow> u64 list \<Rightarrow> exn + unit" where
  "check_binding byName b ds = bindr (shape_make ds) (\<lambda>sh.
     andthen (throw_if (\<not> layout_isValid (tb_layout b)) (InvalidArgument ''transformer projection layout is invalid''))
    (case byName (tb_tensorName b) of
       None \<Rightarrow> Inl (InvalidArgument ''transformer layer references an unknown projection tensor'')
     | Some v \<Rightarrow> shape_is (if tb_layout b = layout_InputOutput then ds else [ds ! 1, ds ! 0])
         (mt_shape v) ''transformer projection shape and layout are incompatible''))"

text \<open>A pair of tensors that must both have one shape. The shape is built only when both exist, and for the second only when the first fits.\<close>

definition check_norms :: "(string \<rightharpoonup> manifest_tensor) \<Rightarrow> string \<Rightarrow> string \<Rightarrow> u64 \<Rightarrow> string \<Rightarrow> exn + unit" where
  "check_norms byName first second n message = (case (byName first, byName second) of
     (Some a, Some b) \<Rightarrow> andthen (shape_is [n] (mt_shape a) message) (shape_is [n] (mt_shape b) message)
   | _ \<Rightarrow> Inl (InvalidArgument message))"

definition check_layer ::
  "model_manifest \<Rightarrow> runtime_architecture \<Rightarrow> (string \<rightharpoonup> manifest_tensor) \<Rightarrow> manifest_layer \<Rightarrow> exn + unit" where
  "check_layer m a byName l =
    (let queryWidth = ra_attentionHeads a * ra_projectionHeadDimension a;
         keyValueWidth = ra_keyValueHeads a * ra_projectionHeadDimension a in
     andthen (check_binding byName (ml_queryProjection l) [ra_hiddenDimension a, queryWidth])
    (andthen (check_binding byName (ml_keyProjection l) [ra_hiddenDimension a, keyValueWidth])
    (andthen (check_binding byName (ml_valueProjection l) [ra_hiddenDimension a, keyValueWidth])
    (andthen (check_binding byName (ml_outputProjection l) [queryWidth, ra_hiddenDimension a])
    (andthen (throw_if ((ml_queryNormTensor l = []) \<noteq> (ml_keyNormTensor l = []))
       (InvalidArgument ''transformer Q/K normalization mappings must form a pair''))
    (andthen (if ml_queryNormTensor l \<noteq> []
        then check_norms byName (ml_queryNormTensor l) (ml_keyNormTensor l) (ra_projectionHeadDimension a)
          ''transformer Q/K normalization mapping is incompatible''
        else Inr ())
    (andthen (check_norms byName (ml_inputNormTensor l) (ml_postAttentionNormTensor l) (ra_hiddenDimension a)
        ''transformer normalization mapping is incompatible'')
    (throw_if (find (\<lambda>v. mrt_layerId v = ml_layerId l \<and> mrt_tensorName v = ml_routerTensor l) (mr_tensors (mf_router m)) = None)
       (InvalidArgument ''transformer layer router mapping disagrees with router manifest'')))))))))"

fun check_layer_list ::
  "model_manifest \<Rightarrow> runtime_architecture \<Rightarrow> (string \<rightharpoonup> manifest_tensor) \<Rightarrow> u32 list \<Rightarrow> manifest_layer list \<Rightarrow> exn + unit" where
  "check_layer_list m a byName seen [] = Inr ()"
| "check_layer_list m a byName seen (l # ls) =
     andthen (throw_if (unat (ml_layerId l) \<ge> unat (ra_layerCount a) \<or> ml_layerId l \<in> set seen)
       (InvalidArgument ''transformer layer mapping is invalid or duplicated''))
    (andthen (check_layer m a byName l) (check_layer_list m a byName (ml_layerId l # seen) ls))"

definition check_layers :: "model_manifest \<Rightarrow> (string \<rightharpoonup> manifest_tensor) \<Rightarrow> exn + unit" where
  "check_layers m byName =
     (if mf_layers m = [] then Inr ()
      else (case mf_runtimeArchitecture m of
        None \<Rightarrow> Inl (InvalidArgument ''manifest runtime architecture must map every transformer layer'')
      | Some a \<Rightarrow>
          andthen (throw_if (length (mf_layers m) \<noteq> unat (ra_layerCount a))
            (InvalidArgument ''manifest runtime architecture must map every transformer layer''))
          (check_layer_list m a byName [] (mf_layers m))))"

definition check_io :: "model_manifest \<Rightarrow> (string \<rightharpoonup> manifest_tensor) \<Rightarrow> exn + unit" where
  "check_io m byName = (case mf_modelIO m of
     None \<Rightarrow> Inr ()
   | Some o' \<Rightarrow> (case mf_runtimeArchitecture m of
       None \<Rightarrow> Inl (InvalidArgument ''manifest model I/O configuration is incomplete'')
     | Some a \<Rightarrow>
         andthen (throw_if (ra_vocabularySize a = 0 \<or> io_tokenEmbeddingTensor o' = [] \<or> io_finalNormTensor o' = [] \<or>
             tb_tensorName (io_lmHead o') = [] \<or> io_tiedEmbeddings o' \<noteq> ra_tiedEmbeddings a)
           (InvalidArgument ''manifest model I/O configuration is incomplete''))
        (andthen (throw_if (\<not> layout_isValid (tb_layout (io_lmHead o'))) (InvalidArgument ''manifest LM head layout is invalid''))
        (bindr (shape_make [ra_vocabularySize a, ra_hiddenDimension a]) (\<lambda>embeddingShape.
         bindr (if tb_layout (io_lmHead o') = layout_InputOutput
                then shape_make [ra_hiddenDimension a, ra_vocabularySize a] else Inr embeddingShape) (\<lambda>lmHeadShape.
         andthen (case (byName (io_tokenEmbeddingTensor o'), byName (io_finalNormTensor o'), byName (tb_tensorName (io_lmHead o'))) of
             (Some e, Some f, Some h) \<Rightarrow>
               andthen (throw_if (mt_shape e \<noteq> embeddingShape) (InvalidArgument ''manifest model I/O tensor shape is incompatible''))
              (andthen (shape_is [ra_hiddenDimension a] (mt_shape f) ''manifest model I/O tensor shape is incompatible'')
              (throw_if (mt_shape h \<noteq> lmHeadShape) (InvalidArgument ''manifest model I/O tensor shape is incompatible'')))
           | _ \<Rightarrow> Inl (InvalidArgument ''manifest model I/O tensor shape is incompatible''))
        (throw_if (io_tiedEmbeddings o' \<and> (io_tokenEmbeddingTensor o' \<noteq> tb_tensorName (io_lmHead o') \<or>
             tb_layout (io_lmHead o') \<noteq> layout_OutputInput))
           (InvalidArgument ''tied embeddings must share one vocabulary-by-hidden tensor''))))))))"

definition manifest_validate :: "model_manifest \<Rightarrow> exn + unit" where
  "manifest_validate m =
     andthen (check_header m)
    (bindr (check_tensors Map.empty (mf_tensors m)) (\<lambda>byName.
     bindr (check_routers m byName [] (mr_tensors (mf_router m))) (\<lambda>routerLayers.
     bindr (check_experts (mf_config m) byName \<lparr> et_identities = [], et_perLayer = [], et_quantized = False \<rparr> (mf_experts m)) (\<lambda>t.
     andthen (check_coverage (mf_config m) routerLayers t)
    (andthen (check_layers m byName)
     (check_io m byName))))))"

section \<open>Lookups\<close>

definition findTensor :: "model_manifest \<Rightarrow> string \<Rightarrow> manifest_tensor option" where
  "findTensor m name = find (\<lambda>v. mt_name v = name) (mf_tensors m)"

definition findExpert :: "model_manifest \<Rightarrow> u32 \<Rightarrow> u32 \<Rightarrow> manifest_expert option" where
  "findExpert m layerId expertId = find (\<lambda>v. mx_layerId v = layerId \<and> mx_expertId v = expertId) (mf_experts m)"

definition findLayer :: "model_manifest \<Rightarrow> u32 \<Rightarrow> manifest_layer option" where
  "findLayer m layerId = find (\<lambda>v. ml_layerId v = layerId) (mf_layers m)"

section \<open>The architecture of a manifest\<close>

definition architecture_fromManifest :: "fp \<Rightarrow> model_manifest \<Rightarrow> exn + runtime_architecture" where
  "architecture_fromManifest e m =
     andthen (manifest_validate m)
    (let c = mf_config m; k = rc_topK (mr_config (mf_router m));
         a = (case mf_runtimeArchitecture m of Some a \<Rightarrow> a
           | None \<Rightarrow> (architecture_default e)\<lparr> ra_layerCount := mc_layerCount c, ra_hiddenDimension := mc_hiddenSize c,
               ra_attentionHeads := 1, ra_keyValueHeads := 1, ra_headDimension := mc_hiddenSize c,
               ra_expertCount := mc_expertCount c, ra_topK := k \<rparr>)
     in andthen (architecture_validate a)
       (andthen (throw_if (ra_layerCount a \<noteq> mc_layerCount c \<or> ra_hiddenDimension a \<noteq> mc_hiddenSize c \<or>
            ra_expertCount a \<noteq> mc_expertCount c \<or> ra_topK a \<noteq> k)
           (InvalidArgument ''runtime architecture disagrees with manifest model dimensions''))
        (Inr a)))"

section \<open>What validation establishes\<close>

lemma manifest_requiredBytes_Inr:
  "manifest_requiredBytes sh d = Inr n \<Longrightarrow> dtype_isValid d \<and> unat n = unat (sh_storageElementCount sh) * unat (sizeOf d)"
  by (auto simp: manifest_requiredBytes_def Let_def not_less unat_mult_within)

lemma shape_is_Inr: "shape_is ds sh msg = Inr u \<longleftrightarrow> shape_make ds = Inr sh"
  by (auto simp: shape_is_def bindr_eq_Inr)

subsection \<open>Tensors by name\<close>

lemma check_tensors_Inr:
  "check_tensors B vs = Inr B' \<Longrightarrow> (\<forall>v \<in> set vs. check_tensor v = Inr () \<and> B (mt_name v) = None) \<and> distinct (map mt_name vs) \<and>
     (\<forall>n. B' n = (case B n of Some v \<Rightarrow> Some v | None \<Rightarrow> find (\<lambda>v. mt_name v = n) vs))"
proof (induction vs arbitrary: B)
  case Nil
  then show ?case by (simp split: option.split)
next
  case (Cons v vs)
  from Cons.prems have "check_tensor v = Inr ()" "B (mt_name v) = None"
    and rest: "check_tensors (B(mt_name v \<mapsto> v)) vs = Inr B'" by simp_all
  with Cons.IH [OF rest] show ?case by (auto split: option.splits if_splits)
qed

subsection \<open>Experts\<close>

definition expert_count_of :: "manifest_expert list \<Rightarrow> u32 \<Rightarrow> nat" where
  "expert_count_of xs l = length (filter (\<lambda>x. mx_layerId x = l) xs)"

definition expert_ok :: "model_config \<Rightarrow> (string \<rightharpoonup> manifest_tensor) \<Rightarrow> manifest_expert \<Rightarrow> bool" where
  "expert_ok c B x \<longleftrightarrow> unat (mx_layerId x) < unat (mc_layerCount c) \<and> unat (mx_expertId x) < unat (mc_expertCount c) \<and>
     check_projection c B (mx_gate x) False = Inr () \<and> check_projection c B (mx_up x) False = Inr () \<and>
     check_projection c B (mx_down x) True = Inr () \<and>
     (\<exists>g u d. B (pl_tensorName (mx_gate x)) = Some g \<and> B (pl_tensorName (mx_up x)) = Some u \<and>
        B (pl_tensorName (mx_down x)) = Some d \<and> mt_dtype u = mt_dtype g \<and> mt_dtype d = mt_dtype g)"

lemma check_expert_Inr:
  "check_expert c B t x = Inr t' \<Longrightarrow> expert_ok c B x \<and> (mx_layerId x, mx_expertId x) \<notin> set (et_identities t) \<and>
     (\<exists>q. t' = tally_expert t x q)"
  by (auto simp: check_expert_def expert_ok_def not_le split: option.splits)

definition tally_of :: "expert_tally \<Rightarrow> manifest_expert list \<Rightarrow> bool" where
  "tally_of t xs \<longleftrightarrow> set (et_identities t) = (\<lambda>x. (mx_layerId x, mx_expertId x)) ` set xs \<and>
     (\<forall>l. map_of (et_perLayer t) l = (if expert_count_of xs l = 0 then None else Some (expert_count_of xs l))) \<and>
     distinct (map fst (et_perLayer t))"

lemma tally_expert_of: "tally_of t xs \<Longrightarrow> tally_of (tally_expert t x q) (xs @ [x])"
  by (auto simp: tally_of_def tally_expert_def expert_count_of_def update_conv' distinct_update split: option.splits)

lemma check_experts_Inr:
  "check_experts c B t xs = Inr t' \<Longrightarrow> tally_of t ys \<Longrightarrow> distinct (map (\<lambda>x. (mx_layerId x, mx_expertId x)) ys) \<Longrightarrow>
     tally_of t' (ys @ xs) \<and> distinct (map (\<lambda>x. (mx_layerId x, mx_expertId x)) (ys @ xs)) \<and> (\<forall>x \<in> set xs. expert_ok c B x)"
proof (induction xs arbitrary: t ys)
  case (Cons x xs)
  from Cons.prems(1) obtain u where u: "check_expert c B t x = Inr u" "check_experts c B u xs = Inr t'"
    by (auto simp: bindr_eq_Inr)
  from check_expert_Inr [OF u(1)] obtain q where q: "expert_ok c B x" "(mx_layerId x, mx_expertId x) \<notin> set (et_identities t)"
    "u = tally_expert t x q" by blast
  have tally: "tally_of u (ys @ [x])" using tally_expert_of [OF Cons.prems(2)] q(3) by simp
  have "distinct (map (\<lambda>x. (mx_layerId x, mx_expertId x)) (ys @ [x]))"
    using Cons.prems(2,3) q(2) by (auto simp: tally_of_def)
  from Cons.IH [OF u(2) tally this] q(1) show ?case by simp
qed simp

lemma check_routers_Inr:
  "check_routers m B seen rs = Inr ls \<Longrightarrow> set ls = mrt_layerId ` set rs \<union> set seen \<and>
     (\<forall>r \<in> set rs. unat (mrt_layerId r) < unat (mc_layerCount (mf_config m)) \<and> B (mrt_tensorName r) \<noteq> None)"
  by (induction m B seen rs rule: check_routers.induct) (auto simp: Let_def not_le split: option.splits)

lemma validate_parts:
  assumes "manifest_validate m = Inr ()"
  obtains B ls t where "check_header m = Inr ()" and "check_tensors Map.empty (mf_tensors m) = Inr B"
    and "check_routers m B [] (mr_tensors (mf_router m)) = Inr ls"
    and "check_experts (mf_config m) B \<lparr> et_identities = [], et_perLayer = [], et_quantized = False \<rparr> (mf_experts m) = Inr t"
    and "check_coverage (mf_config m) ls t = Inr ()" and "check_layers m B = Inr ()" and "check_io m B = Inr ()"
  using assms unfolding manifest_validate_def by (auto simp: bindr_eq_Inr)

lemma validate_names:
  assumes "check_tensors Map.empty (mf_tensors m) = Inr B"
  shows "B = findTensor m"
  using check_tensors_Inr [OF assms] by (auto simp: findTensor_def)

lemma validate_experts:
  assumes "manifest_validate m = Inr ()"
  shows "distinct (map (\<lambda>x. (mx_layerId x, mx_expertId x)) (mf_experts m))"
    and "\<And>x. x \<in> set (mf_experts m) \<Longrightarrow> expert_ok (mf_config m) (findTensor m) x"
    and "\<And>l. l \<in> mrt_layerId ` set (mr_tensors (mf_router m)) \<longleftrightarrow> l \<in> mx_layerId ` set (mf_experts m)"
    and "\<And>l. l \<in> mx_layerId ` set (mf_experts m) \<Longrightarrow> expert_count_of (mf_experts m) l = unat (mc_expertCount (mf_config m))"
proof -
  from assms obtain B ls t where B: "check_tensors Map.empty (mf_tensors m) = Inr B"
    and ls: "check_routers m B [] (mr_tensors (mf_router m)) = Inr ls"
    and ex: "check_experts (mf_config m) B \<lparr> et_identities = [], et_perLayer = [], et_quantized = False \<rparr> (mf_experts m) = Inr t"
    and cov: "check_coverage (mf_config m) ls t = Inr ()" by (rule validate_parts)
  have "tally_of \<lparr> et_identities = [], et_perLayer = [], et_quantized = False \<rparr> []"
    by (simp add: tally_of_def expert_count_of_def)
  from check_experts_Inr [OF ex this] validate_names [OF B]
  have t: "tally_of t (mf_experts m)" and dist: "distinct (map (\<lambda>x. (mx_layerId x, mx_expertId x)) (mf_experts m))"
    and ok: "\<forall>x \<in> set (mf_experts m). expert_ok (mf_config m) (findTensor m) x" by simp_all
  show "distinct (map (\<lambda>x. (mx_layerId x, mx_expertId x)) (mf_experts m))" by (rule dist)
  show "\<And>x. x \<in> set (mf_experts m) \<Longrightarrow> expert_ok (mf_config m) (findTensor m) x" using ok by blast
  have pos: "expert_count_of (mf_experts m) l \<noteq> 0 \<longleftrightarrow> l \<in> mx_layerId ` set (mf_experts m)" for l
    by (auto simp: expert_count_of_def filter_empty_conv)
  have look: "map_of (et_perLayer t) l = (if l \<in> mx_layerId ` set (mf_experts m) then Some (expert_count_of (mf_experts m) l) else None)" for l
    using t pos [of l] by (auto simp: tally_of_def)
  from cov have count: "\<And>l n. (l, n) \<in> set (et_perLayer t) \<Longrightarrow> n = unat (mc_expertCount (mf_config m)) \<and> l \<in> set ls"
    and back_: "\<And>l. l \<in> set ls \<Longrightarrow> map_of (et_perLayer t) l \<noteq> None"
    by (auto simp: check_coverage_def each_Inr)
  have lset: "set ls = mrt_layerId ` set (mr_tensors (mf_router m))" using check_routers_Inr [OF ls] by simp
  show "l \<in> mrt_layerId ` set (mr_tensors (mf_router m)) \<longleftrightarrow> l \<in> mx_layerId ` set (mf_experts m)" for l
    using back_ [of l] look [of l] count map_of_SomeD [of "et_perLayer t" l] lset by (metis option.distinct(1))
  show "expert_count_of (mf_experts m) l = unat (mc_expertCount (mf_config m))" if "l \<in> mx_layerId ` set (mf_experts m)" for l
    using look [of l] that count map_of_SomeD [of "et_perLayer t" l] by auto
qed



lemma findExpert_Some:
  "findExpert m l e = Some x \<Longrightarrow> x \<in> set (mf_experts m) \<and> mx_layerId x = l \<and> mx_expertId x = e"
  by (auto simp: findExpert_def find_Some_iff in_set_conv_nth)


subsection \<open>Projections\<close>

lemma range_fits:
  fixes u n :: "'a::len word"
  assumes "\<not> u > - 1 - n"
  shows "unat (u + n) = unat u + unat n"
proof -
  have "unat n \<le> unat (- 1 :: 'a word)" by (simp add: word_le_nat_alt [symmetric])
  then have "unat (- 1 - n) = unat (- 1 :: 'a word) - unat n" by (rule unat_sub_within)
  with assms \<open>unat n \<le> unat (- 1 :: 'a word)\<close> have "unat u + unat n \<le> unat (- 1 :: 'a word)"
    by (simp add: word_le_nat_alt not_less)
  also have "\<dots> < 2 ^ LENGTH('a)" by (rule unsigned_less)
  finally show ?thesis by (rule unat_add_lem [THEN iffD1])
qed

lemma check_tensor_range: "check_tensor v = Inr () \<Longrightarrow> unat (mt_offset v + mt_size v) = unat (mt_offset v) + unat (mt_size v)"
  by (intro range_fits) (simp add: check_tensor_def)

lemma find_in: "find P xs = Some x \<Longrightarrow> x \<in> set xs \<and> P x"
  by (induction xs) (auto split: if_splits)

lemma validate_tensor:
  assumes "manifest_validate m = Inr ()" and "findTensor m n = Some v"
  shows "check_tensor v = Inr ()" and "mt_name v = n"
proof -
  from assms(1) obtain B where "check_tensors Map.empty (mf_tensors m) = Inr B" by (rule validate_parts)
  from check_tensors_Inr [OF this] have all: "\<forall>v \<in> set (mf_tensors m). check_tensor v = Inr ()" by blast
  have "v \<in> set (mf_tensors m) \<and> mt_name v = n" by (rule find_in) (rule assms(2) [unfolded findTensor_def])
  with all show "check_tensor v = Inr ()" and "mt_name v = n" by simp_all
qed

definition projection_dimensions :: "model_config \<Rightarrow> bool \<Rightarrow> u32 \<Rightarrow> u64 list" where
  "projection_dimensions c down layout = (if (layout = layout_OutputInput) = down
     then [mc_hiddenSize c, mc_intermediateSize c] else [mc_intermediateSize c, mc_hiddenSize c])"

definition projection_inside :: "model_config \<Rightarrow> bool \<Rightarrow> projection_location \<Rightarrow> manifest_tensor \<Rightarrow> bool" where
  "projection_inside c down p src \<longleftrightarrow>
     pl_size p \<noteq> 0 \<and> unat (mt_offset src) \<le> unat (pl_offset p) \<and>
     unat (pl_offset p) + unat (pl_size p) \<le> unat (mt_offset src) + unat (mt_size src) \<and>
     unat (mt_offset src) + unat (mt_size src) < 2 ^ 64 \<and>
     sh_dimensions (pl_shape p) = projection_dimensions c down (pl_layout p) \<and>
     unat (pl_size p) = unat (mc_hiddenSize c) * unat (mc_intermediateSize c) * unat (sizeOf (mt_dtype src))"

lemma check_projection_inside:
  assumes "check_projection c B p down = Inr ()" and "B (pl_tensorName p) = Some src" and "check_tensor src = Inr ()"
  shows "projection_inside c down p src"
proof -
  note sum = check_tensor_range [OF assms(3)]
  from assms(1,2) have nz: "pl_size p \<noteq> 0" and lo: "\<not> pl_offset p < mt_offset src" and wrap: "\<not> pl_offset p > u64_max - pl_size p"
    and hi: "\<not> pl_offset p + pl_size p > mt_offset src + mt_size src"
    and bytes: "manifest_requiredBytes (pl_shape p) (mt_dtype src) = Inr (pl_size p)"
    and shape: "shape_make (projection_dimensions c down (pl_layout p)) = Inr (pl_shape p)"
    by (auto simp: check_projection_def bindr_eq_Inr shape_is_Inr projection_dimensions_def)
  from shape obtain n where n: "validateAndCount (projection_dimensions c down (pl_layout p)) = Inr n"
    "sh_dimensions (pl_shape p) = projection_dimensions c down (pl_layout p)" "sh_storageElementCount (pl_shape p) = n"
    unfolding shape_make_def bindr_eq_Inr by (auto dest: sym)
  from validateAndCount_Inr(2) [OF n(1)] have "unat n = unat (mc_hiddenSize c) * unat (mc_intermediateSize c)"
    by (simp add: projection_dimensions_def split: if_splits)
  with manifest_requiredBytes_Inr [OF bytes] n(3)
  have size': "unat (pl_size p) = unat (mc_hiddenSize c) * unat (mc_intermediateSize c) * unat (sizeOf (mt_dtype src))" by simp
  have end': "unat (mt_offset src) + unat (mt_size src) < 2 ^ 64"
    using unsigned_less [of "mt_offset src + mt_size src", where ?'a = nat] sum by simp
  from hi have "unat (pl_offset p) + unat (pl_size p) \<le> unat (mt_offset src) + unat (mt_size src)"
    using range_fits [OF wrap] sum by (simp add: word_le_nat_alt not_less)
  with nz lo n(2) size' end' show ?thesis
    by (simp add: projection_inside_def word_le_nat_alt not_less)
qed

section \<open>The properties\<close>


text \<open>C17: what a validated manifest says of an expert can be read: each of its three projections lies
  in the bytes of a tensor the manifest lists, no end of a range wraps around, the projection has the
  dimensions its layout asks for, and exactly the bytes they take in the element type that the tensors of
  all three projections share.\<close>

theorem manifest_projection_in_source:
  assumes "manifest_validate m = Inr ()" and "findExpert m l e = Some x"
  shows "\<exists>g u d. findTensor m (pl_tensorName (mx_gate x)) = Some g \<and> projection_inside (mf_config m) False (mx_gate x) g \<and>
    findTensor m (pl_tensorName (mx_up x)) = Some u \<and> projection_inside (mf_config m) False (mx_up x) u \<and>
    findTensor m (pl_tensorName (mx_down x)) = Some d \<and> projection_inside (mf_config m) True (mx_down x) d \<and>
    mt_dtype u = mt_dtype g \<and> mt_dtype d = mt_dtype g"
proof -
  from findExpert_Some [OF assms(2)] validate_experts(2) [OF assms(1)]
  have ok: "expert_ok (mf_config m) (findTensor m) x" by blast
  then obtain g u d where t: "findTensor m (pl_tensorName (mx_gate x)) = Some g" "findTensor m (pl_tensorName (mx_up x)) = Some u"
    "findTensor m (pl_tensorName (mx_down x)) = Some d" and same: "mt_dtype u = mt_dtype g" "mt_dtype d = mt_dtype g"
    by (auto simp: expert_ok_def)
  note v = validate_tensor(1) [OF assms(1)]
  from ok have c: "check_projection (mf_config m) (findTensor m) (mx_gate x) False = Inr ()"
    "check_projection (mf_config m) (findTensor m) (mx_up x) False = Inr ()"
    "check_projection (mf_config m) (findTensor m) (mx_down x) True = Inr ()" by (simp_all add: expert_ok_def)
  have "projection_inside (mf_config m) False (mx_gate x) g" by (rule check_projection_inside, rule c, rule t, rule v, rule t)
  moreover have "projection_inside (mf_config m) False (mx_up x) u" by (rule check_projection_inside, rule c, rule t, rule v, rule t)
  moreover have "projection_inside (mf_config m) True (mx_down x) d" by (rule check_projection_inside, rule c, rule t, rule v, rule t)
  ultimately show ?thesis using t same by blast
qed

section \<open>A manifest\<close>

definition unit_shape :: shape where
  "unit_shape = \<lparr> sh_dimensions = [1, 1], sh_strides = [1, 1], sh_elementCount = 1, sh_storageElementCount = 1 \<rparr>"

definition unit_projection :: "u64 \<Rightarrow> projection_location" where
  "unit_projection n = \<lparr> pl_tensorName = ''experts'', pl_offset = 4 * n, pl_size = 4, pl_shape = unit_shape,
     pl_layout = layout_OutputInput \<rparr>"

definition unit_manifest :: model_manifest where
  "unit_manifest = \<lparr> mf_schema = schemaVersion, mf_modelName = ''unit'', mf_architecture = QWEN_MOE,
     mf_sourceArchitecture = ''qwen'', mf_parameterCount = 4,
     mf_config = \<lparr> mc_modelName = ''unit'', mc_layerCount = 1, mc_expertCount = 1, mc_hiddenSize = 1, mc_intermediateSize = 1,
       mc_capabilities = \<lparr> cap_routedExperts = True, cap_configurableTopK = True, cap_normalizedRouting = True,
         cap_gatedExpertMlp = True, cap_sharedExperts = False, cap_quantizedExpertWeights = False \<rparr> \<rparr>,
     mf_runtimeArchitecture = None,
     mf_router = \<lparr> mr_config = \<lparr> rc_expertCount = 1, rc_topK = 1, rc_normalization = normalization_Softmax,
         rc_renormalizeSelected = False \<rparr>,
       mr_tensors = [\<lparr> mrt_layerId = 0, mrt_tensorName = ''router'' \<rparr>], mr_layout = layout_OutputInput \<rparr>,
     mf_tensors = [
       \<lparr> mt_name = ''router'', mt_sourceFile = ''model/a.bin'', mt_offset = 16, mt_size = 4, mt_dtype = dtype_code FP32,
         mt_shape = unit_shape, mt_quantization = None \<rparr>,
       \<lparr> mt_name = ''experts'', mt_sourceFile = ''model/a.bin'', mt_offset = 0, mt_size = 12, mt_dtype = dtype_code FP32,
         mt_shape = \<lparr> sh_dimensions = [3], sh_strides = [1], sh_elementCount = 3, sh_storageElementCount = 3 \<rparr>,
         mt_quantization = None \<rparr>],
     mf_experts = [\<lparr> mx_layerId = 0, mx_expertId = 0, mx_gate = unit_projection 0, mx_up = unit_projection 1,
       mx_down = unit_projection 2 \<rparr>],
     mf_layers = [], mf_modelIO = None \<rparr>"

lemma unit_manifest_valid: "manifest_validate unit_manifest = Inr ()"
  by code_simp


theorem manifest_projection_in_source_witness:
  "\<exists>d. findTensor unit_manifest ''experts'' = Some d \<and> projection_inside (mf_config unit_manifest) True (unit_projection 2) d"
proof -
  have f: "findExpert unit_manifest 0 0 = Some \<lparr> mx_layerId = 0, mx_expertId = 0, mx_gate = unit_projection 0,
      mx_up = unit_projection 1, mx_down = unit_projection 2 \<rparr>"
    by (simp add: findExpert_def unit_manifest_def)
  from manifest_projection_in_source [OF unit_manifest_valid f] show ?thesis by (auto simp: unit_projection_def)
qed

end
