(* ===== verification/Json_Value.thy ===== *)
theory Json_Value
  imports Prelude "HOL-Library.List_Lexorder" "HOL-Library.Char_ord"
begin

unbundle bit_operations_syntax

text \<open>
  \<^verbatim>\<open>src/models/metadata/JsonValue.cpp\<close>: the JSON parser and the accessors of its values. Text is a
  list of bytes; the parser's state is what is left of it, so \<open>position_\<close> is the difference of
  two lengths, and \<open>parseJson\<close> puts it into the message of the error. \<open>parseValue\<close> counts the levels of
  nesting still allowed, so depth 0 is level 129. The loops over elements and members carry fuel; each
  round consumes a byte, so the length of the input is enough. An object lists its members
  in the order of the text; \<open>object_entries\<close> is the order of the \<open>std::map\<close>.
\<close>

datatype json = JNull | JBool bool | JNumber string | JString string | JArray "json list"
  | JObject "(string \<times> json) list"

type_synonym 'a parser = "(string, 'a) prog"

abbreviation quote :: char where "quote \<equiv> CHR 0x22"
abbreviation backslash :: char where "backslash \<equiv> CHR 0x5C"

definition code :: "char \<Rightarrow> nat" where
  "code c = of_char c"

definition fail :: "string \<Rightarrow> 'a parser" where
  [prog_defs]: "fail message = raise (MetadataError message)"

section \<open>Tokens\<close>

definition is_space :: "char \<Rightarrow> bool" where
  "is_space c \<longleftrightarrow> code c = 32 \<or> (9 \<le> code c \<and> code c \<le> 13)"

definition is_digit :: "char \<Rightarrow> bool" where
  "is_digit c \<longleftrightarrow> 48 \<le> code c \<and> code c \<le> 57"

definition skipWhitespace :: "unit parser" where
  "skipWhitespace = modify (dropWhile is_space)"

definition consume :: "char \<Rightarrow> bool parser" where
  "consume expected = thenp skipWhitespace (\<lambda>s. case s of
     [] \<Rightarrow> (Inr False, s)
   | c # t \<Rightarrow> if c = expected then (Inr True, t) else (Inr False, s))"

definition parseLiteral :: "string \<Rightarrow> unit parser" where
  "parseLiteral literal = (\<lambda>s.
     if take (length literal) s \<noteq> literal then fail ''invalid JSON literal'' s
     else (Inr (), drop (length literal) s))"

section \<open>Strings\<close>

definition byte_char :: "u32 \<Rightarrow> char" where
  "byte_char w = char_of (unat w)"

definition appendUtf8 :: "u32 \<Rightarrow> string" where
  "appendUtf8 p =
     (if p \<le> 0x7F then [byte_char p]
      else if p \<le> 0x7FF then [byte_char (0xC0 OR drop_bit 6 p), byte_char (0x80 OR (p AND 0x3F))]
      else if p \<le> 0xFFFF
      then [byte_char (0xE0 OR drop_bit 12 p), byte_char (0x80 OR (drop_bit 6 p AND 0x3F)), byte_char (0x80 OR (p AND 0x3F))]
      else [byte_char (0xF0 OR drop_bit 18 p), byte_char (0x80 OR (drop_bit 12 p AND 0x3F)),
            byte_char (0x80 OR (drop_bit 6 p AND 0x3F)), byte_char (0x80 OR (p AND 0x3F))])"

definition hexDigit :: "char \<Rightarrow> u32 option" where
  "hexDigit c =
     (if 48 \<le> code c \<and> code c \<le> 57 then Some (of_nat (code c - 48))
      else if 97 \<le> code c \<and> code c \<le> 102 then Some (of_nat (code c - 97 + 10))
      else if 65 \<le> code c \<and> code c \<le> 70 then Some (of_nat (code c - 65 + 10))
      else None)"

text \<open>The position moves past a character before it is looked at.\<close>

fun hexDigits :: "nat \<Rightarrow> u32 \<Rightarrow> u32 parser" where
  "hexDigits 0 v s = (Inr v, s)"
| "hexDigits (Suc n) v [] = fail ''truncated Unicode escape'' []"
| "hexDigits (Suc n) v (c # s) =
     (case hexDigit c of
        None \<Rightarrow> fail ''invalid Unicode escape'' s
      | Some d \<Rightarrow> hexDigits n (push_bit 4 v OR d) s)"

definition parseHexQuad :: "u32 parser" where
  "parseHexQuad = (\<lambda>s. if length s < 4 then fail ''truncated Unicode escape'' s else hexDigits 4 0 s)"

text \<open>The two characters \<open>\u\<close> of a second escape.\<close>

definition surrogateMark :: "unit parser" where
  "surrogateMark = (\<lambda>s. case s of
     c # d # t \<Rightarrow> if c = backslash \<and> d = CHR ''u'' then (Inr (), t) else fail ''missing low Unicode surrogate'' s
   | _ \<Rightarrow> fail ''missing low Unicode surrogate'' s)"

definition unicodeEscape :: "u32 parser" where
  "unicodeEscape = bindp parseHexQuad (\<lambda>cp.
     if 0xD800 \<le> cp \<and> cp \<le> 0xDBFF
     then thenp surrogateMark (bindp parseHexQuad (\<lambda>low.
            if low < 0xDC00 \<or> low > 0xDFFF then fail ''invalid low Unicode surrogate''
            else ret (0x10000 + push_bit 10 (cp - 0xD800) + (low - 0xDC00))))
     else if 0xDC00 \<le> cp \<and> cp \<le> 0xDFFF then fail ''unexpected low Unicode surrogate''
     else ret cp)"

definition simpleEscape :: "char \<Rightarrow> char option" where
  "simpleEscape c =
     (if c = quote \<or> c = backslash \<or> c = CHR ''/'' then Some c
      else if c = CHR ''b'' then Some (CHR 0x08)
      else if c = CHR ''f'' then Some (CHR 0x0C)
      else if c = CHR ''n'' then Some (CHR 0x0A)
      else if c = CHR ''r'' then Some (CHR 0x0D)
      else if c = CHR ''t'' then Some (CHR 0x09)
      else None)"

lemma hexDigits_length: "hexDigits n v s = (Inr x, t) \<Longrightarrow> length s = n + length t"
  by (induction n v s rule: hexDigits.induct) (auto simp: fail_def split: option.splits)

lemma parseHexQuad_length: "parseHexQuad s = (Inr x, t) \<Longrightarrow> length s = 4 + length t"
  by (auto simp: parseHexQuad_def fail_def split: if_splits dest: hexDigits_length)

lemma surrogateMark_length: "surrogateMark s = (Inr x, t) \<Longrightarrow> length s = 2 + length t"
  by (auto simp: surrogateMark_def fail_def split: list.splits if_splits)

lemma unicodeEscape_length: "unicodeEscape s = (Inr x, t) \<Longrightarrow> length t < length s"
  by (auto simp: unicodeEscape_def fail_def elim!: bindp_cases thenp_cases split: if_splits
      dest!: parseHexQuad_length surrogateMark_length)

function (sequential) stringBody :: "string \<Rightarrow> string parser" where
  "stringBody out [] = fail ''unterminated string'' []"
| "stringBody out (c # s) =
     (if c = quote then (Inr out, s)
      else if code c < 0x20 then fail ''control character in string'' s
      else if c \<noteq> backslash then stringBody (out @ [c]) s
      else (case s of
        [] \<Rightarrow> fail ''truncated string escape'' []
      | e # t \<Rightarrow> (case simpleEscape e of
          Some x \<Rightarrow> stringBody (out @ [x]) t
        | None \<Rightarrow>
            if e \<noteq> CHR ''u'' then fail ''invalid string escape'' t
            else (case unicodeEscape t of
              (Inl x, r) \<Rightarrow> (Inl x, r)
            | (Inr cp, r) \<Rightarrow> stringBody (out @ appendUtf8 cp) r))))"
  by pat_completeness auto
termination
  by (relation "measure (length \<circ> snd)") (auto dest!: unicodeEscape_length [OF sym])

definition parseString :: "string parser" where
  "parseString = bindp (consume quote) (\<lambda>ok.
     thenp (require ok (MetadataError ''expected string'')) (stringBody []))"

section \<open>Numbers\<close>

definition numberSign :: "unit parser" where
  "numberSign = modify (\<lambda>s. case s of [] \<Rightarrow> [] | c # t \<Rightarrow> if c = CHR ''-'' then t else s)"

definition numberInteger :: "unit parser" where
  "numberInteger = (\<lambda>s. case s of
     [] \<Rightarrow> fail ''truncated number'' s
   | c # t \<Rightarrow> if c = CHR ''0'' then (Inr (), t)
       else if \<not> is_digit c then fail ''invalid number'' s
       else (Inr (), dropWhile is_digit s))"

definition someDigits :: "string \<Rightarrow> unit parser" where
  "someDigits message = (\<lambda>s.
     if dropWhile is_digit s = s then fail message s else (Inr (), dropWhile is_digit s))"

definition numberFraction :: "unit parser" where
  "numberFraction = (\<lambda>s. case s of
     [] \<Rightarrow> (Inr (), s)
   | c # t \<Rightarrow> if c = CHR ''.'' then someDigits ''invalid number fraction'' t else (Inr (), s))"

definition numberExponent :: "unit parser" where
  "numberExponent = (\<lambda>s. case s of
     [] \<Rightarrow> (Inr (), s)
   | c # t \<Rightarrow>
       if c = CHR ''e'' \<or> c = CHR ''E''
       then someDigits ''invalid number exponent''
              (case t of [] \<Rightarrow> [] | d # u \<Rightarrow> if d = CHR ''+'' \<or> d = CHR ''-'' then u else t)
       else (Inr (), s))"

definition parseNumber :: "string parser" where
  "parseNumber = (\<lambda>s. case thenp numberSign (thenp numberInteger (thenp numberFraction numberExponent)) s of
     (Inl e, r) \<Rightarrow> (Inl e, r)
   | (Inr _, r) \<Rightarrow> (Inr (take (length s - length r) s), r))"

section \<open>Values\<close>

fun arrayLoop :: "nat \<Rightarrow> json parser \<Rightarrow> json list \<Rightarrow> json list parser" where
  "arrayLoop 0 value acc = raise Diverged"
| "arrayLoop (Suc n) value acc =
     bindp value (\<lambda>v.
     bindp (consume CHR '']'') (\<lambda>closed.
     if closed then ret (acc @ [v])
     else bindp (consume CHR '','') (\<lambda>comma.
       thenp (require comma (MetadataError ''expected comma in array'')) (arrayLoop n value (acc @ [v])))))"

definition parseArray :: "json parser \<Rightarrow> json list parser" where
  "parseArray value =
     bindp (consume CHR ''['') (\<lambda>opened.
     thenp (require opened (MetadataError ''expected array''))
    (bindp (consume CHR '']'') (\<lambda>closed.
     if closed then ret [] else (\<lambda>s. arrayLoop (Suc (length s)) value [] s))))"

fun objectLoop :: "nat \<Rightarrow> json parser \<Rightarrow> (string \<times> json) list \<Rightarrow> (string \<times> json) list parser" where
  "objectLoop 0 value acc = raise Diverged"
| "objectLoop (Suc n) value acc =
     thenp skipWhitespace
    (bindp (gets (\<lambda>s. s \<noteq> [] \<and> hd s = quote)) (\<lambda>ok.
     thenp (require ok (MetadataError ''expected object key''))
    (bindp parseString (\<lambda>k.
     bindp (consume CHR '':'') (\<lambda>colon.
     thenp (require colon (MetadataError ''expected colon after object key''))
    (bindp value (\<lambda>v.
     thenp (require (map_of acc k = None) (MetadataError ''duplicate object key''))
    (bindp (consume CHR ''}'') (\<lambda>closed.
     if closed then ret (acc @ [(k, v)])
     else bindp (consume CHR '','') (\<lambda>comma.
       thenp (require comma (MetadataError ''expected comma in object'')) (objectLoop n value (acc @ [(k, v)]))))))))))))"

definition parseObject :: "json parser \<Rightarrow> (string \<times> json) list parser" where
  "parseObject value =
     bindp (consume CHR ''{'') (\<lambda>opened.
     thenp (require opened (MetadataError ''expected object''))
    (bindp (consume CHR ''}'') (\<lambda>closed.
     if closed then ret [] else (\<lambda>s. objectLoop (Suc (length s)) value [] s))))"

fun parseValue :: "nat \<Rightarrow> json parser" where
  "parseValue 0 = fail ''JSON nesting limit exceeded''"
| "parseValue (Suc d) = thenp skipWhitespace (\<lambda>s. case s of
     [] \<Rightarrow> fail ''unexpected end of input'' s
   | c # _ \<Rightarrow>
       if c = CHR ''n'' then thenp (parseLiteral ''null'') (ret JNull) s
       else if c = CHR ''t'' then thenp (parseLiteral ''true'') (ret (JBool True)) s
       else if c = CHR ''f'' then thenp (parseLiteral ''false'') (ret (JBool False)) s
       else if c = quote then bindp parseString (\<lambda>x. ret (JString x)) s
       else if c = CHR ''['' then bindp (parseArray (parseValue d)) (\<lambda>x. ret (JArray x)) s
       else if c = CHR ''{'' then bindp (parseObject (parseValue d)) (\<lambda>x. ret (JObject x)) s
       else if c = CHR ''-'' \<or> is_digit c then bindp parseNumber (\<lambda>x. ret (JNumber x)) s
       else fail ''unexpected JSON token'' s)"

definition jsonDepth :: nat where
  "jsonDepth = 129"

definition parseDocument :: "json parser" where
  "parseDocument = bindp (parseValue jsonDepth) (\<lambda>v.
     thenp skipWhitespace
    (bindp (gets (\<lambda>s. s = [])) (\<lambda>done.
     thenp (require done (MetadataError ''unexpected trailing input'')) (ret v))))"

definition parseJson :: "string \<Rightarrow> exn + json" where
  "parseJson text = (case parseDocument text of
     (Inr v, _) \<Rightarrow> Inr v
   | (Inl (MetadataError message), rest) \<Rightarrow>
       Inl (MetadataError (message @ '' at byte '' @ to_string (length text - length rest)))
   | (Inl e, _) \<Rightarrow> Inl e)"

text \<open>\<open>parseJsonFile\<close>: the size the file system reports, if it does, and the contents, if the
  file opens and reads.\<close>

definition parseJsonFile :: "nat option \<Rightarrow> string option \<Rightarrow> nat \<Rightarrow> exn + json" where
  "parseJsonFile fileSize contents maximumBytes = (case fileSize of
     None \<Rightarrow> Inl (MetadataError ''cannot stat model manifest'')
   | Some n \<Rightarrow>
       if n > maximumBytes then Inl (MetadataError ''model manifest exceeds size limit'')
       else (case contents of
         None \<Rightarrow> Inl (MetadataError ''cannot open model manifest'')
       | Some text \<Rightarrow>
           if length text > maximumBytes
           then Inl (MetadataError ''model manifest exceeded size limit while reading'')
           else parseJson text))"

section \<open>Accessors\<close>

definition decimal :: "string \<Rightarrow> nat" where
  "decimal s = foldl (\<lambda>n c. 10 * n + (code c - 48)) 0 s"

text \<open>\<open>std::from_chars\<close> for \<open>std::uint64_t\<close>: the value and what is left.\<close>

definition from_chars_u64 :: "string \<Rightarrow> (u64 \<times> string) option" where
  "from_chars_u64 s =
     (let digits = takeWhile is_digit s
      in if digits = [] \<or> decimal digits \<ge> 2 ^ 64 then None
         else Some (of_nat (decimal digits), dropWhile is_digit s))"

definition parseUnsigned :: "string \<Rightarrow> exn + u64" where
  "parseUnsigned text = (case from_chars_u64 text of
     Some (n, []) \<Rightarrow> Inr n
   | _ \<Rightarrow> Inl (MetadataError ''JSON value is not an unsigned 64-bit integer''))"

fun asUInt64 :: "json \<Rightarrow> exn + u64" where
  "asUInt64 (JString text) = parseUnsigned text"
| "asUInt64 (JNumber text) = parseUnsigned text"
| "asUInt64 _ = Inl (MetadataError ''JSON value is not an unsigned integer'')"

fun asBool :: "json \<Rightarrow> exn + bool" where
  "asBool (JString text) = (if text = ''true'' then Inr True else if text = ''false'' then Inr False
     else Inl (MetadataError ''JSON value is not a boolean''))"
| "asBool (JBool b) = Inr b"
| "asBool _ = Inl (MetadataError ''JSON value is not a boolean'')"

fun asString :: "json \<Rightarrow> exn + string" where
  "asString (JString text) = Inr text"
| "asString _ = Inl (MetadataError ''JSON value is not a string'')"

fun asArray :: "json \<Rightarrow> exn + json list" where
  "asArray (JArray vs) = Inr vs"
| "asArray _ = Inl (MetadataError ''JSON value is not an array'')"

fun asObject :: "json \<Rightarrow> exn + (string \<times> json) list" where
  "asObject (JObject ms) = Inr ms"
| "asObject _ = Inl (MetadataError ''JSON value is not an object'')"

definition object_entries :: "(string \<times> json) list \<Rightarrow> (string \<times> json) list" where
  "object_entries ms = sort_key fst ms"

fun js_find :: "json \<Rightarrow> string \<Rightarrow> json option" where
  "js_find (JObject ms) k = map_of ms k"
| "js_find _ k = None"

definition js_require :: "json \<Rightarrow> string \<Rightarrow> exn + json" where
  "js_require v k = bindr (asObject v) (\<lambda>ms. case map_of ms k of
     None \<Rightarrow> Inl (MetadataError (''missing JSON field: '' @ k))
   | Some x \<Rightarrow> Inr x)"

end
