(* ===== verification/Json_Text.thy ===== *)
theory Json_Text
  imports Json_Value
begin

text \<open>
  What a JSON text is, independently of the parser: the byte sequences of strings, numbers and
  white space as the code accepts them, with RFC 8259's rules for escapes and RFC 3629's for UTF-8
  written in arithmetic, and the agreement of the parser's tokens with them. Two points differ
  from the RFC, and the definitions follow the code: white space is \<open>std::isspace\<close>, which adds the vertical tab
  and the form feed, and the bytes of a string need not be well-formed UTF-8.
\<close>

section \<open>Bytes\<close>

text \<open>RFC 3629, by value.\<close>

definition utf8 :: "nat \<Rightarrow> string" where
  "utf8 n = map char_of
     (if n < 0x80 then [n]
      else if n < 0x800 then [0xC0 + n div 64, 0x80 + n mod 64]
      else if n < 0x10000 then [0xE0 + n div 4096, 0x80 + n div 64 mod 64, 0x80 + n mod 64]
      else [0xF0 + n div 262144, 0x80 + n div 4096 mod 64, 0x80 + n div 64 mod 64, 0x80 + n mod 64])"

lemma or_eq_add:
  fixes c w :: "'a::len word"
  assumes "take_bit n c = 0" and "unat w < 2 ^ n"
  shows "c OR w = c + w"
proof -
  have "unat (take_bit n w) = unat w" using assms(2) by (simp add: unsigned_take_bit_eq take_bit_nat_eq_self)
  then have w: "take_bit n w = w" by (rule unsigned_word_eqI)
  have "c AND w = 0"
  proof (rule bit_word_eqI)
    fix m
    have "bit (take_bit n c) m = False" "bit (take_bit n w) m = bit w m" using assms(1) w by simp_all
    then show "bit (c AND w) m = bit 0 m" by (auto simp: bit_simps)
  qed
  then show ?thesis by (simp add: disjunctive_add_eq_or)
qed

lemma byte_char_or:
  fixes c w :: u32
  assumes "take_bit n c = 0" and "unat w < 2 ^ n" and "unat c + unat w < 2 ^ 32"
  shows "byte_char (c OR w) = char_of (unat c + unat w)"
  using assms by (simp add: byte_char_def or_eq_add unat_add_lem [THEN iffD1])

lemma unat_and_3F: "unat ((w :: u32) AND 0x3F) = unat w mod 64"
proof -
  have "(0x3F :: u32) = mask 6" by (simp add: mask_eq_exp_minus_1)
  then have "unat (w AND 0x3F) = take_bit 6 (unat w)"
    by (simp only: flip: take_bit_eq_mask) (simp add: unsigned_take_bit_eq)
  then show ?thesis by (simp add: take_bit_eq_mod)
qed

lemma unat_drop: "unat (drop_bit k (w :: u32)) = unat w div 2 ^ k"
proof -
  have "unat (drop_bit k w) = drop_bit k (unat w)"
    using take_bit_nat_eq_self [OF unsigned_less [of w]] by (simp add: unsigned_drop_bit_eq)
  then show ?thesis by (simp only: drop_bit_eq_div)
qed

lemma byte_char_tail: "byte_char (0x80 OR ((w :: u32) AND 0x3F)) = char_of (0x80 + unat w mod 64)"
  using byte_char_or [of 6 "0x80" "w AND 0x3F"] by (simp add: unat_and_3F)

lemma appendUtf8_utf8:
  assumes "unat p < 0x110000"
  shows "appendUtf8 p = utf8 (unat p)"
proof -
  have le: "p \<le> 0x7F \<longleftrightarrow> unat p < 0x80" "p \<le> 0x7FF \<longleftrightarrow> unat p < 0x800" "p \<le> 0xFFFF \<longleftrightarrow> unat p < 0x10000"
    by (auto simp: word_le_nat_alt)
  have one: "byte_char p = char_of (unat p)" by (simp add: byte_char_def)
  have two: "byte_char (0xC0 OR drop_bit 6 p) = char_of (0xC0 + unat p div 64)" if "unat p < 0x800"
    using byte_char_or [of 5 "0xC0" "drop_bit 6 p"] that by (simp add: unat_drop less_mult_imp_div_less)
  have three: "byte_char (0xE0 OR drop_bit 12 p) = char_of (0xE0 + unat p div 4096)" if "unat p < 0x10000"
    using byte_char_or [of 4 "0xE0" "drop_bit 12 p"] that by (simp add: unat_drop less_mult_imp_div_less)
  have four: "byte_char (0xF0 OR drop_bit 18 p) = char_of (0xF0 + unat p div 262144)"
    using byte_char_or [of 3 "0xF0" "drop_bit 18 p"] assms by (simp add: unat_drop less_mult_imp_div_less)
  have d: "unat (drop_bit 6 p) mod 64 = unat p div 64 mod 64" "unat (drop_bit 12 p) mod 64 = unat p div 4096 mod 64"
    by (simp_all add: unat_drop)
  show ?thesis
    unfolding appendUtf8_def utf8_def by (simp add: le one two three four byte_char_tail d)
qed

section \<open>Strings\<close>

text \<open>Four hexadecimal digits and their value.\<close>

definition hex_value :: "char \<Rightarrow> nat option" where
  "hex_value c =
     (if c \<in> set ''0123456789'' then Some (code c - 48)
      else if c \<in> set ''abcdef'' then Some (code c - 87)
      else if c \<in> set ''ABCDEF'' then Some (code c - 55)
      else None)"

definition hex4 :: "string \<Rightarrow> nat \<Rightarrow> bool" where
  "hex4 ds n \<longleftrightarrow> length ds = 4 \<and> (\<forall>d \<in> set ds. hex_value d \<noteq> None) \<and>
     n = foldl (\<lambda>n d. 16 * n + the (hex_value d)) 0 ds"

definition escapes :: "(char \<times> char) list" where
  "escapes = [(quote, quote), (backslash, backslash), (CHR ''/'', CHR ''/''), (CHR ''b'', CHR 0x08),
     (CHR ''f'', CHR 0x0C), (CHR ''n'', CHR 0x0A), (CHR ''r'', CHR 0x0D), (CHR ''t'', CHR 0x09)]"

text \<open>\<open>json_chars t v\<close>: between its quotation marks the text \<open>t\<close> stands for the string \<open>v\<close>.\<close>

inductive json_chars :: "string \<Rightarrow> string \<Rightarrow> bool" where
  chars_end: "json_chars [] []"
| chars_plain: "c \<noteq> quote \<Longrightarrow> c \<noteq> backslash \<Longrightarrow> 32 \<le> code c \<Longrightarrow> json_chars t v \<Longrightarrow> json_chars (c # t) (c # v)"
| chars_escape: "(e, x) \<in> set escapes \<Longrightarrow> json_chars t v \<Longrightarrow> json_chars (backslash # e # t) (x # v)"
| chars_unicode: "hex4 ds n \<Longrightarrow> n < 0xD800 \<or> 0xDFFF < n \<Longrightarrow> json_chars t v \<Longrightarrow>
    json_chars (backslash # CHR ''u'' # ds @ t) (utf8 n @ v)"
| chars_pair: "hex4 ds hi \<Longrightarrow> 0xD800 \<le> hi \<Longrightarrow> hi \<le> 0xDBFF \<Longrightarrow> hex4 es lo \<Longrightarrow> 0xDC00 \<le> lo \<Longrightarrow> lo \<le> 0xDFFF \<Longrightarrow>
    json_chars t v \<Longrightarrow>
    json_chars (backslash # CHR ''u'' # ds @ backslash # CHR ''u'' # es @ t)
      (utf8 (0x10000 + 1024 * (hi - 0xD800) + (lo - 0xDC00)) @ v)"

lemma char_range: "b < 256 \<Longrightarrow> a \<le> code c \<and> code c \<le> b \<longleftrightarrow> c \<in> set (map char_of [a..<Suc b])"
proof
  assume "b < 256" "a \<le> code c \<and> code c \<le> b"
  then have "code c \<in> set [a..<Suc b]" by auto
  moreover have "c = char_of (code c)" by (simp add: code_def)
  ultimately show "c \<in> set (map char_of [a..<Suc b])" by (metis imageI list.set_map)
qed (auto simp: code_def)

lemma hex_ranges:
  "48 \<le> code c \<and> code c \<le> 57 \<longleftrightarrow> c \<in> set ''0123456789''"
  "97 \<le> code c \<and> code c \<le> 102 \<longleftrightarrow> c \<in> set ''abcdef''"
  "65 \<le> code c \<and> code c \<le> 70 \<longleftrightarrow> c \<in> set ''ABCDEF''"
proof -
  have "map char_of [48..<Suc 57] = ''0123456789''" "map char_of [97..<Suc 102] = ''abcdef''"
    "map char_of [65..<Suc 70] = ''ABCDEF''" by code_simp+
  then show "48 \<le> code c \<and> code c \<le> 57 \<longleftrightarrow> c \<in> set ''0123456789''"
    "97 \<le> code c \<and> code c \<le> 102 \<longleftrightarrow> c \<in> set ''abcdef''"
    "65 \<le> code c \<and> code c \<le> 70 \<longleftrightarrow> c \<in> set ''ABCDEF''"
    using char_range [of 57 48 c] char_range [of 102 97 c] char_range [of 70 65 c] by simp_all
qed

lemma hexDigit_hex_value: "hexDigit c = map_option of_nat (hex_value c)"
proof -
  have "97 \<le> n \<Longrightarrow> n - 97 + 10 = n - 87" "65 \<le> n \<Longrightarrow> n - 65 + 10 = n - 55" for n :: nat by arith+
  then show ?thesis
    unfolding hexDigit_def hex_value_def hex_ranges [symmetric] by (simp only: option.map if_distrib) simp
qed

lemma hex_value_less: "hex_value c = Some d \<Longrightarrow> d < 16"
  unfolding hex_value_def hex_ranges [symmetric] by (auto split: if_splits)

lemma shift_or:
  fixes v :: u32
  assumes "unat v < 2 ^ 28" and "d < 16"
  shows "unat (push_bit 4 v OR of_nat d) = 16 * unat v + d"
proof -
  have d: "unat (of_nat d :: u32) = d" using assms(2) by (simp add: unat_of_nat take_bit_nat_eq_self)
  have p: "unat (push_bit 4 v) = 16 * unat v"
    using assms(1) by (simp add: push_bit_eq_mult unat_word_ariths)
  have "push_bit 4 v OR of_nat d = push_bit 4 v + of_nat d"
    by (rule or_eq_add [of 4]) (use assms(2) d in \<open>simp_all add: take_bit_push_bit\<close>)
  moreover have "unat (push_bit 4 v + of_nat d) = unat (push_bit 4 v) + unat (of_nat d :: u32)"
    by (rule unat_add_lem [THEN iffD1]) (use assms p d in simp)
  ultimately show ?thesis by (simp add: p d)
qed

lemma hexDigits_run:
  "length ds = n \<Longrightarrow> unat v < 16 ^ k \<Longrightarrow> k + n \<le> 7 \<Longrightarrow> \<forall>d \<in> set ds. hex_value d \<noteq> None \<Longrightarrow>
   \<exists>w. hexDigits n v (ds @ r) = (Inr w, r) \<and> unat w = foldl (\<lambda>n d. 16 * n + the (hex_value d)) (unat v) ds"
proof (induction ds arbitrary: n v k)
  case (Cons c ds)
  then obtain m d where n: "n = Suc m" "length ds = m" and d: "hex_value c = Some d" by auto
  let ?v = "push_bit 4 v OR of_nat d :: u32"
  have "(16 :: nat) ^ k \<le> 16 ^ 7" by (rule power_increasing) (use Cons.prems(3) in simp_all)
  then have v: "unat ?v = 16 * unat v + d"
    using hex_value_less [OF d] Cons.prems(2) by (intro shift_or) simp_all
  have "unat v + 1 \<le> 16 ^ k" using Cons.prems(2) by simp
  then have "16 * (unat v + 1) \<le> 16 * 16 ^ k" by (rule mult_le_mono2)
  then have lt: "unat ?v < 16 ^ Suc k" unfolding v using hex_value_less [OF d] by simp
  have "\<exists>w. hexDigits m ?v (ds @ r) = (Inr w, r) \<and> unat w = foldl (\<lambda>n d. 16 * n + the (hex_value d)) (unat ?v) ds"
    by (rule Cons.IH [OF n(2) lt]) (use Cons.prems n in simp_all)
  with n d show ?case by (simp add: hexDigit_hex_value v)
qed simp

lemma hexDigits_taken:
  "hexDigits n v s = (Inr w, r) \<Longrightarrow> \<exists>ds. s = ds @ r \<and> length ds = n \<and> (\<forall>d \<in> set ds. hex_value d \<noteq> None)"
proof (induction n v s rule: hexDigits.induct)
  case (3 n v c s)
  then obtain d where d: "hexDigit c = Some d" by (auto simp: fail_def split: option.splits)
  with 3 obtain ds where "s = ds @ r" "length ds = n" "\<forall>d \<in> set ds. hex_value d \<noteq> None" by auto
  moreover have "hex_value c \<noteq> None" using d by (auto simp: hexDigit_hex_value)
  ultimately show ?case by (intro exI [of _ "c # ds"]) simp
qed (auto simp: fail_def)

lemma hex4_run: "hex4 ds n \<Longrightarrow> \<exists>w. parseHexQuad (ds @ r) = (Inr w, r) \<and> unat w = n"
  using hexDigits_run [of ds 4 0 0 r] by (auto simp: hex4_def parseHexQuad_def)

lemma hex4_taken:
  assumes "parseHexQuad s = (Inr w, r)"
  shows "\<exists>ds. s = ds @ r \<and> hex4 ds (unat w)"
proof -
  from assms have run: "hexDigits 4 0 s = (Inr w, r)" by (auto simp: parseHexQuad_def fail_def split: if_splits)
  from hexDigits_taken [OF run] obtain ds where ds: "s = ds @ r" "length ds = 4" "\<forall>d \<in> set ds. hex_value d \<noteq> None"
    by blast
  then have h: "hex4 ds (foldl (\<lambda>n d. 16 * n + the (hex_value d)) 0 ds)" by (simp add: hex4_def)
  from hex4_run [OF this, of r] assms ds(1) have "unat w = foldl (\<lambda>n d. 16 * n + the (hex_value d)) 0 ds" by auto
  with h ds(1) show ?thesis by auto
qed

lemma foldl_hex_bound:
  "\<forall>d \<in> set ds. hex_value d \<noteq> None \<Longrightarrow>
   foldl (\<lambda>n d. 16 * n + the (hex_value d)) n ds < (n + 1) * 16 ^ length ds"
proof (induction ds arbitrary: n)
  case (Cons c ds)
  then obtain d where d: "hex_value c = Some d" by auto
  have "foldl (\<lambda>n d. 16 * n + the (hex_value d)) (16 * n + d) ds < (16 * n + d + 1) * 16 ^ length ds"
    by (rule Cons.IH) (use Cons.prems in simp)
  also have "\<dots> \<le> (16 * (n + 1)) * 16 ^ length ds"
    by (rule mult_le_mono1) (use hex_value_less [OF d] in simp)
  finally show ?case using d by (simp add: algebra_simps)
qed simp

lemma hex4_less: "hex4 ds n \<Longrightarrow> n < 0x10000"
  using foldl_hex_bound [of ds 0] by (auto simp: hex4_def)

subsection \<open>Escapes\<close>

definition pair_value :: "nat \<Rightarrow> nat \<Rightarrow> nat" where
  "pair_value hi lo = 0x10000 + 1024 * (hi - 0xD800) + (lo - 0xDC00)"

lemma pair_word:
  fixes hi lo :: u32
  assumes "0xD800 \<le> unat hi" "unat hi \<le> 0xDBFF" "0xDC00 \<le> unat lo" "unat lo \<le> 0xDFFF"
  shows "unat (0x10000 + push_bit 10 (hi - 0xD800) + (lo - 0xDC00)) = pair_value (unat hi) (unat lo)"
    and "pair_value (unat hi) (unat lo) < 0x110000"
proof -
  have h: "unat (hi - 0xD800) = unat hi - 0xD800" and l: "unat (lo - 0xDC00) = unat lo - 0xDC00"
    using assms by (simp_all add: unat_sub word_le_nat_alt)
  have "unat (push_bit 10 x) = 1024 * unat x" if "unat x < 1024" for x :: u32
    using that by (simp add: push_bit_eq_mult unat_word_ariths)
  from this [of "hi - 0xD800"] have p: "unat (push_bit 10 (hi - 0xD800)) = 1024 * (unat hi - 0xD800)"
    using assms h by simp
  show "unat (0x10000 + push_bit 10 (hi - 0xD800) + (lo - 0xDC00)) = pair_value (unat hi) (unat lo)"
    using assms p l by (simp add: unat_word_ariths pair_value_def)
  show "pair_value (unat hi) (unat lo) < 0x110000" using assms by (simp add: pair_value_def)
qed

lemma surrogate_bounds:
  "0xD800 \<le> (w :: u32) \<longleftrightarrow> 0xD800 \<le> unat w" "w \<le> 0xDBFF \<longleftrightarrow> unat w \<le> 0xDBFF"
  "0xDC00 \<le> w \<longleftrightarrow> 0xDC00 \<le> unat w" "w \<le> 0xDFFF \<longleftrightarrow> unat w \<le> 0xDFFF"
  "w < 0xDC00 \<longleftrightarrow> unat w < 0xDC00" "0xDFFF < w \<longleftrightarrow> 0xDFFF < unat w"
  by (simp_all add: word_le_nat_alt word_less_nat_alt)

lemma unicodeEscape_single:
  assumes "hex4 ds n" and "n < 0xD800 \<or> 0xDFFF < n"
  shows "\<exists>w. unicodeEscape (ds @ r) = (Inr w, r) \<and> unat w = n"
proof -
  from hex4_run [OF assms(1), of r] obtain w where "parseHexQuad (ds @ r) = (Inr w, r)" "unat w = n" by blast
  with assms(2) show ?thesis by (auto simp: unicodeEscape_def surrogate_bounds)
qed

lemma unicodeEscape_pair:
  assumes "hex4 ds hi" "0xD800 \<le> hi" "hi \<le> 0xDBFF" and "hex4 es lo" "0xDC00 \<le> lo" "lo \<le> 0xDFFF"
  shows "\<exists>w. unicodeEscape (ds @ backslash # CHR ''u'' # es @ r) = (Inr w, r) \<and> unat w = pair_value hi lo"
proof -
  from hex4_run [OF assms(1)] obtain h where
    h: "parseHexQuad (ds @ backslash # CHR ''u'' # es @ r) = (Inr h, backslash # CHR ''u'' # es @ r)" "unat h = hi" by blast
  from hex4_run [OF assms(4), of r] obtain l where l: "parseHexQuad (es @ r) = (Inr l, r)" "unat l = lo" by blast
  let ?w = "0x10000 + push_bit 10 (h - 0xD800) + (l - 0xDC00)"
  have "unicodeEscape (ds @ backslash # CHR ''u'' # es @ r) = (Inr ?w, r)"
    using h l assms by (simp add: unicodeEscape_def surrogateMark_def surrogate_bounds)
  moreover have "unat ?w = pair_value hi lo" using pair_word [of h l] h(2) l(2) assms by simp
  ultimately show ?thesis by blast
qed

lemma unicodeEscape_taken:
  assumes "unicodeEscape s = (Inr w, r)"
  shows "(\<exists>ds. s = ds @ r \<and> hex4 ds (unat w) \<and> (unat w < 0xD800 \<or> 0xDFFF < unat w)) \<or>
    (\<exists>ds es hi lo. s = ds @ backslash # CHR ''u'' # es @ r \<and> hex4 ds hi \<and> 0xD800 \<le> hi \<and> hi \<le> 0xDBFF \<and>
       hex4 es lo \<and> 0xDC00 \<le> lo \<and> lo \<le> 0xDFFF \<and> unat w = pair_value hi lo)"
proof -
  from assms obtain h t where h: "parseHexQuad s = (Inr h, t)"
    and rest: "(if 0xD800 \<le> h \<and> h \<le> 0xDBFF
     then thenp surrogateMark (bindp parseHexQuad (\<lambda>low.
            if low < 0xDC00 \<or> low > 0xDFFF then fail ''invalid low Unicode surrogate''
            else ret (0x10000 + push_bit 10 (h - 0xD800) + (low - 0xDC00))))
     else if 0xDC00 \<le> h \<and> h \<le> 0xDFFF then fail ''unexpected low Unicode surrogate''
     else ret h) t = (Inr w, r)"
    unfolding unicodeEscape_def by (auto elim: bindp_cases)
  from hex4_taken [OF h] obtain ds where ds: "s = ds @ t" "hex4 ds (unat h)" by blast
  show ?thesis
  proof (cases "0xD800 \<le> h \<and> h \<le> 0xDBFF")
    case True
    with rest have "thenp surrogateMark (bindp parseHexQuad (\<lambda>low.
            if low < 0xDC00 \<or> low > 0xDFFF then fail ''invalid low Unicode surrogate''
            else ret (0x10000 + push_bit 10 (h - 0xD800) + (low - 0xDC00)))) t = (Inr w, r)" by simp
    then obtain u v l where u: "surrogateMark t = (Inr (), u)" and v: "parseHexQuad u = (Inr l, v)"
      and w: "(if l < 0xDC00 \<or> l > 0xDFFF then fail ''invalid low Unicode surrogate''
            else ret (0x10000 + push_bit 10 (h - 0xD800) + (l - 0xDC00))) v = (Inr w, r)"
      by (auto elim!: thenp_cases bindp_cases)
    from u have t: "t = backslash # CHR ''u'' # u"
      by (auto simp: surrogateMark_def fail_def split: list.splits if_splits)
    from hex4_taken [OF v] obtain es where es: "u = es @ v" "hex4 es (unat l)" by blast
    from w have l: "0xDC00 \<le> unat l" "unat l \<le> 0xDFFF" "v = r"
      "w = 0x10000 + push_bit 10 (h - 0xD800) + (l - 0xDC00)"
      by (auto simp: fail_def surrogate_bounds split: if_splits)
    with True pair_word [of h l] have "unat w = pair_value (unat h) (unat l)" by (simp add: surrogate_bounds)
    with ds t es l True show ?thesis
      by (intro disjI2 exI [of _ ds] exI [of _ es] exI [of _ "unat h"] exI [of _ "unat l"]) (simp add: surrogate_bounds)
  next
    case False
    with rest ds show ?thesis by (auto simp: fail_def surrogate_bounds split: if_splits)
  qed
qed

lemma simpleEscape_iff: "simpleEscape e = Some x \<longleftrightarrow> (e, x) \<in> set escapes"
  by (auto simp: simpleEscape_def escapes_def)

lemma appendUtf8_below: "unat w < 0x10000 \<Longrightarrow> appendUtf8 w = utf8 (unat w)"
  by (rule appendUtf8_utf8) simp

subsection \<open>The parser reads exactly the strings\<close>

lemma stringBody_complete:
  "json_chars t v \<Longrightarrow> stringBody out (t @ quote # r) = (Inr (out @ v), r)"
proof (induction arbitrary: out rule: json_chars.induct)
  case (chars_plain c t v)
  then show ?case by simp
next
  case (chars_escape e x t v)
  then show ?case by (simp add: code_def flip: simpleEscape_iff)
next
  case (chars_unicode ds n t v)
  from unicodeEscape_single [OF chars_unicode(1,2), of "t @ quote # r"] obtain w where
    "unicodeEscape (ds @ t @ quote # r) = (Inr w, t @ quote # r)" "unat w = n" by blast
  moreover from this(2) have "appendUtf8 w = utf8 n"
    using appendUtf8_below hex4_less [OF chars_unicode(1)] by simp
  moreover have "simpleEscape CHR ''u'' = None" by (simp add: simpleEscape_def)
  ultimately show ?case using chars_unicode.IH by (simp add: code_def)
next
  case (chars_pair ds hi es lo t v)
  from unicodeEscape_pair [OF chars_pair(1-6), of "t @ quote # r"] obtain w where
    w: "unicodeEscape (ds @ backslash # CHR ''u'' # es @ t @ quote # r) = (Inr w, t @ quote # r)"
    "unat w = pair_value hi lo" by blast
  have "pair_value hi lo < 0x110000" using chars_pair(2,3,5,6) by (simp add: pair_value_def)
  with w(2) have "appendUtf8 w = utf8 (pair_value hi lo)" using appendUtf8_utf8 by simp
  moreover have "simpleEscape CHR ''u'' = None" by (simp add: simpleEscape_def)
  ultimately show ?case using chars_pair.IH w(1) by (simp add: code_def pair_value_def)
qed simp

lemma stringBody_sound:
  "stringBody out s = (Inr v, r) \<Longrightarrow> \<exists>t u. s = t @ quote # r \<and> v = out @ u \<and> json_chars t u"
proof (induction out s rule: stringBody.induct)
  case (1 out)
  then show ?case by (simp add: fail_def)
next
  case (2 out c s)
  consider (close) "c = quote" | (control) "c \<noteq> quote" "code c < 0x20"
    | (plain) "c \<noteq> quote" "\<not> code c < 0x20" "c \<noteq> backslash" | (escape) "c = backslash" by blast
  then show ?case
  proof cases
    case close
    with 2(4) show ?thesis by (auto intro: chars_end)
  next
    case control
    with 2(4) show ?thesis by (simp add: fail_def)
  next
    case plain
    with 2(1,4) obtain t u where "s = t @ quote # r" "v = (out @ [c]) @ u" "json_chars t u" by auto
    with plain show ?thesis
      by (intro exI [of _ "c # t"] exI [of _ "c # u"]) (simp add: chars_plain)
  next
    case escape
    have bq: "backslash \<noteq> quote" "\<not> code backslash < 0x20" by (simp_all add: code_def)
    with escape 2(4) obtain e t where s: "s = e # t" by (cases s) (auto simp: fail_def)
    show ?thesis
    proof (cases "simpleEscape e")
      case (Some x)
      with 2(3) [OF _ _ _ s Some] 2(4) escape bq s obtain t' u where
        "t = t' @ quote # r" "v = (out @ [x]) @ u" "json_chars t' u" by auto
      with Some escape s show ?thesis
        by (intro exI [of _ "backslash # e # t'"] exI [of _ "x # u"]) (simp add: chars_escape simpleEscape_iff)
    next
      case None
      with 2(4) escape bq s have e: "e = CHR ''u''" by (auto simp: fail_def split: if_splits)
      with None 2(4) escape bq s obtain cp q where cp: "unicodeEscape t = (Inr cp, q)"
        and run: "stringBody (out @ appendUtf8 cp) q = (Inr v, r)"
        by (auto split: prod.splits sum.splits)
      from 2(2) [OF _ _ _ s None _ cp [symmetric] refl run] escape bq e obtain t' u where
        tu: "q = t' @ quote # r" "v = (out @ appendUtf8 cp) @ u" "json_chars t' u" by auto
      from unicodeEscape_taken [OF cp] consider
        (single) ds where "t = ds @ q" "hex4 ds (unat cp)" "unat cp < 0xD800 \<or> 0xDFFF < unat cp"
        | (pair) ds es hi lo where "t = ds @ backslash # CHR ''u'' # es @ q" "hex4 ds hi" "0xD800 \<le> hi"
          "hi \<le> 0xDBFF" "hex4 es lo" "0xDC00 \<le> lo" "lo \<le> 0xDFFF" "unat cp = pair_value hi lo"
        by blast
      then show ?thesis
      proof cases
        case (single ds)
        note ds = single(1,2) and ns = single(3)
        have "appendUtf8 cp = utf8 (unat cp)" using appendUtf8_below hex4_less [OF ds(2)] by simp
        with ds tu escape s e chars_unicode [OF ds(2) ns tu(3)] show ?thesis
          by (intro exI [of _ "backslash # CHR ''u'' # ds @ t'"] exI [of _ "utf8 (unat cp) @ u"]) simp
      next
        case (pair ds es hi lo)
        note a = this
        have "pair_value hi lo < 0x110000" using a by (simp add: pair_value_def)
        with a(8) have "appendUtf8 cp = utf8 (pair_value hi lo)" using appendUtf8_utf8 by simp
        with a tu escape s e chars_pair [OF a(2-7) tu(3)] show ?thesis
          by (intro exI [of _ "backslash # CHR ''u'' # ds @ backslash # CHR ''u'' # es @ t'"]
              exI [of _ "utf8 (pair_value hi lo) @ u"]) (simp add: pair_value_def)
      qed
    qed
  qed
qed

end
