(* ===== verification/Json_Grammar.thy ===== *)
theory Json_Grammar
  imports Json_Text
begin

text \<open>
  The grammar of JSON documents as mutually inductive predicates on texts, and the theorem that
  the parser accepts exactly the texts of the grammar and returns the value they denote. The
  number \<open>d\<close> of a value bounds the nesting of arrays and objects in it.
\<close>

section \<open>Numbers\<close>

definition num_integer :: "string \<Rightarrow> bool" where
  "num_integer t \<longleftrightarrow> t = ''0'' \<or> (\<exists>c ds. t = c # ds \<and> is_digit c \<and> c \<noteq> CHR ''0'' \<and> list_all is_digit ds)"

definition num_fraction :: "string \<Rightarrow> bool" where
  "num_fraction t \<longleftrightarrow> t = [] \<or> (\<exists>ds. t = CHR ''.'' # ds \<and> ds \<noteq> [] \<and> list_all is_digit ds)"

definition num_exponent :: "string \<Rightarrow> bool" where
  "num_exponent t \<longleftrightarrow> t = [] \<or> (\<exists>e s ds. t = e # s @ ds \<and> (e = CHR ''e'' \<or> e = CHR ''E'') \<and>
     (s = [] \<or> s = ''+'' \<or> s = ''-'') \<and> ds \<noteq> [] \<and> list_all is_digit ds)"

definition json_number :: "string \<Rightarrow> bool" where
  "json_number t \<longleftrightarrow> (\<exists>s i f e. t = s @ i @ f @ e \<and> (s = [] \<or> s = ''-'') \<and>
     num_integer i \<and> num_fraction f \<and> num_exponent e)"

text \<open>What may follow a number for the parser to end it there.\<close>

definition stops :: "string \<Rightarrow> bool" where
  "stops r \<longleftrightarrow> (case r of [] \<Rightarrow> True
     | c # _ \<Rightarrow> \<not> is_digit c \<and> c \<noteq> CHR ''.'' \<and> c \<noteq> CHR ''e'' \<and> c \<noteq> CHR ''E'')"

lemma digit_chars [simp]:
  "\<not> is_digit CHR ''.''" "\<not> is_digit CHR ''e''" "\<not> is_digit CHR ''E''" "\<not> is_digit CHR ''-''"
  "\<not> is_digit CHR ''+''" "is_digit CHR ''0''"
  by (simp_all add: is_digit_def code_def)

lemma drop_digits:
  assumes "list_all is_digit ds" and "case r of [] \<Rightarrow> True | c # _ \<Rightarrow> \<not> is_digit c"
  shows "dropWhile is_digit (ds @ r) = r"
proof -
  have "dropWhile is_digit (ds @ r) = dropWhile is_digit r"
    using assms(1) by (simp add: dropWhile_append2 list_all_iff)
  also have "\<dots> = r" using assms(2) by (cases r) simp_all
  finally show ?thesis .
qed

lemma take_digits: "\<exists>ds. s = ds @ dropWhile is_digit s \<and> list_all is_digit ds"
  using set_takeWhileD by (metis takeWhile_dropWhile_id list_all_iff)

lemma someDigits_iff:
  "someDigits m s = (Inr (), r) \<longleftrightarrow> dropWhile is_digit s \<noteq> s \<and> r = dropWhile is_digit s"
  by (auto simp: someDigits_def fail_def)

lemma someDigits_complete:
  assumes "ds \<noteq> []" "list_all is_digit ds" "case r of [] \<Rightarrow> True | c # _ \<Rightarrow> \<not> is_digit c"
  shows "someDigits m (ds @ r) = (Inr (), r)"
proof -
  have d: "dropWhile is_digit (ds @ r) = r" by (rule drop_digits [OF assms(2,3)])
  have "length r \<noteq> length (ds @ r)" using assms(1) by simp
  then have "r \<noteq> ds @ r" by metis
  with d show ?thesis by (simp add: someDigits_iff)
qed

lemma someDigits_sound:
  assumes "someDigits m s = (Inr (), r)"
  shows "\<exists>ds. s = ds @ r \<and> ds \<noteq> [] \<and> list_all is_digit ds"
proof -
  from take_digits obtain ds where "s = ds @ dropWhile is_digit s" "list_all is_digit ds" by blast
  with assms show ?thesis by (intro exI [of _ ds]) (auto simp: someDigits_iff)
qed

lemma exponent_complete:
  assumes "num_exponent e" and "stops r"
  shows "numberExponent (e @ r) = (Inr (), r)"
proof (cases e)
  case Nil
  with assms(2) show ?thesis by (auto simp: numberExponent_def stops_def split: list.splits)
next
  case (Cons x t)
  with assms(1) obtain s ds where t: "t = s @ ds" "x = CHR ''e'' \<or> x = CHR ''E''" "s = [] \<or> s = ''+'' \<or> s = ''-''"
    "ds \<noteq> []" "list_all is_digit ds" by (auto simp: num_exponent_def)
  have nd: "case r of [] \<Rightarrow> True | c # _ \<Rightarrow> \<not> is_digit c" using assms(2) by (auto simp: stops_def split: list.splits)
  obtain d ds' where ds: "ds = d # ds'" using t(4) by (cases ds) auto
  with t(5) have "d \<noteq> CHR ''+''" "d \<noteq> CHR ''-''" by auto
  with t ds Cons someDigits_complete [OF t(4,5) nd] show ?thesis by (auto simp: numberExponent_def)
qed

lemma exponent_sound: "numberExponent s = (Inr (), r) \<Longrightarrow> \<exists>e. s = e @ r \<and> num_exponent e"
proof (cases s)
  case (Cons x t)
  assume run: "numberExponent s = (Inr (), r)"
  show ?thesis
  proof (cases "x = CHR ''e'' \<or> x = CHR ''E''")
    case True
    have "\<exists>sg u. t = sg @ u \<and> (sg = [] \<or> sg = ''+'' \<or> sg = ''-'') \<and>
      (case t of [] \<Rightarrow> [] | d # u \<Rightarrow> if d = CHR ''+'' \<or> d = CHR ''-'' then u else t) = u"
    proof (cases t)
      case Nil
      then show ?thesis by (intro exI [of _ "[]"]) simp
    next
      case (Cons d v)
      show ?thesis
      proof (cases "d = CHR ''+'' \<or> d = CHR ''-''")
        case True
        with Cons show ?thesis by (intro exI [of _ "[d]"] exI [of _ v]) auto
      next
        case False
        with Cons show ?thesis by (intro exI [of _ "[]"] exI [of _ t]) simp
      qed
    qed
    then obtain sg u where t: "t = sg @ u" "sg = [] \<or> sg = ''+'' \<or> sg = ''-''"
      "(case t of [] \<Rightarrow> [] | d # u \<Rightarrow> if d = CHR ''+'' \<or> d = CHR ''-'' then u else t) = u"
      by (elim exE conjE) (rule that)
    from run True Cons t(3) have "someDigits ''invalid number exponent'' u = (Inr (), r)"
      by (simp add: numberExponent_def)
    from someDigits_sound [OF this] obtain ds where "u = ds @ r" "ds \<noteq> []" "list_all is_digit ds" by blast
    with True Cons t show ?thesis by (intro exI [of _ "x # sg @ ds"]) (auto simp: num_exponent_def)
  next
    case False
    with run Cons show ?thesis by (auto simp: numberExponent_def num_exponent_def)
  qed
qed (simp add: numberExponent_def num_exponent_def)

lemma fraction_complete:
  assumes "num_fraction f" and "case r of [] \<Rightarrow> True | c # _ \<Rightarrow> \<not> is_digit c \<and> c \<noteq> CHR ''.''"
  shows "numberFraction (f @ r) = (Inr (), r)"
proof (cases f)
  case Nil
  with assms(2) show ?thesis by (auto simp: numberFraction_def split: list.splits)
next
  case (Cons x ds)
  with assms(1) have f: "x = CHR ''.''" "ds \<noteq> []" "list_all is_digit ds" by (auto simp: num_fraction_def)
  have nd: "case r of [] \<Rightarrow> True | c # _ \<Rightarrow> \<not> is_digit c" using assms(2) by (auto split: list.splits)
  from f Cons someDigits_complete [OF f(2,3) nd] show ?thesis by (simp add: numberFraction_def)
qed

lemma fraction_sound: "numberFraction s = (Inr (), r) \<Longrightarrow> \<exists>f. s = f @ r \<and> num_fraction f"
  by (cases s) (auto simp: numberFraction_def num_fraction_def dest: someDigits_sound split: if_splits)

lemma integer_complete:
  assumes "num_integer i" and "case r of [] \<Rightarrow> True | c # _ \<Rightarrow> \<not> is_digit c"
  shows "numberInteger (i @ r) = (Inr (), r)"
proof (cases "i = ''0''")
  case False
  with assms(1) obtain c ds where i: "i = c # ds" "is_digit c" "c \<noteq> CHR ''0''" "list_all is_digit ds"
    by (auto simp: num_integer_def)
  then have "list_all is_digit i" by simp
  from drop_digits [OF this assms(2)] i show ?thesis by (simp add: numberInteger_def)
qed (simp add: numberInteger_def)

lemma integer_sound:
  assumes "numberInteger s = (Inr (), r)"
  shows "\<exists>i. s = i @ r \<and> num_integer i"
proof (cases s)
  case (Cons c t)
  show ?thesis
  proof (cases "c = CHR ''0''")
    case True
    with assms Cons show ?thesis by (intro exI [of _ "''0''"]) (simp add: numberInteger_def num_integer_def)
  next
    case False
    with assms Cons have d: "is_digit c" "r = dropWhile is_digit t"
      by (auto simp: numberInteger_def fail_def split: if_splits)
    from take_digits obtain ds where "t = ds @ r" "list_all is_digit ds" using d(2) by blast
    with False d Cons show ?thesis by (intro exI [of _ "c # ds"]) (auto simp: num_integer_def)
  qed
qed (use assms in \<open>simp add: numberInteger_def fail_def\<close>)

lemma sign_run: "num_integer i \<Longrightarrow> s = [] \<or> s = ''-'' \<Longrightarrow> numberSign (s @ i @ r) = (Inr (), i @ r)"
  by (auto simp: numberSign_def num_integer_def)

lemma sign_sound: "numberSign s = (Inr (), r) \<Longrightarrow> \<exists>g. s = g @ r \<and> (g = [] \<or> g = ''-'')"
  by (cases s) (auto simp: numberSign_def split: if_splits)

lemma parseNumber_complete:
  assumes "json_number t" and "stops r"
  shows "parseNumber (t @ r) = (Inr t, r)"
proof -
  from assms(1) obtain s i f e where t: "t = s @ i @ f @ e" "s = [] \<or> s = ''-''"
    and p: "num_integer i" "num_fraction f" "num_exponent e" by (auto simp: json_number_def)
  have he: "case e @ r of [] \<Rightarrow> True | c # _ \<Rightarrow> \<not> is_digit c \<and> c \<noteq> CHR ''.''"
    using p(3) assms(2) by (auto simp: num_exponent_def stops_def split: list.splits)
  have hf: "case f @ e @ r of [] \<Rightarrow> True | c # _ \<Rightarrow> \<not> is_digit c"
    using p(2) he by (auto simp: num_fraction_def split: list.splits)
  have "thenp numberSign (thenp numberInteger (thenp numberFraction numberExponent)) (t @ r) = (Inr (), r)"
    using sign_run [OF p(1) t(2), of "f @ e @ r"] integer_complete [OF p(1) hf] fraction_complete [OF p(2) he]
      exponent_complete [OF p(3) assms(2)]
    by (simp add: t)
  then show ?thesis by (simp add: parseNumber_def)
qed

lemma parseNumber_sound:
  assumes "parseNumber s = (Inr t, r)"
  shows "s = t @ r \<and> json_number t"
proof -
  from assms have run: "thenp numberSign (thenp numberInteger (thenp numberFraction numberExponent)) s = (Inr (), r)"
    and t: "t = take (length s - length r) s" by (auto simp: parseNumber_def split: prod.splits sum.splits)
  from run obtain a b c where r: "numberSign s = (Inr (), a)" "numberInteger a = (Inr (), b)"
    "numberFraction b = (Inr (), c)" "numberExponent c = (Inr (), r)"
    by (auto elim!: thenp_cases)
  from sign_sound [OF r(1)] integer_sound [OF r(2)] fraction_sound [OF r(3)] exponent_sound [OF r(4)]
  obtain g i f e where "s = g @ a" "g = [] \<or> g = ''-''" "a = i @ b" "num_integer i" "b = f @ c" "num_fraction f"
    "c = e @ r" "num_exponent e" by blast
  then have "s = (g @ i @ f @ e) @ r" "json_number (g @ i @ f @ e)" by (auto simp: json_number_def)
  moreover from this(1) have "t = g @ i @ f @ e" using t by simp
  ultimately show ?thesis by simp
qed

lemma number_start:
  assumes "json_number t"
  obtains c u where "t = c # u" and "c = CHR ''-'' \<or> is_digit c"
  using assms by (auto simp: json_number_def num_integer_def)

section \<open>Values\<close>

abbreviation ws :: "string \<Rightarrow> bool" where
  "ws w \<equiv> list_all is_space w"

inductive json_value :: "nat \<Rightarrow> string \<Rightarrow> json \<Rightarrow> bool"
  and json_elements :: "nat \<Rightarrow> string \<Rightarrow> json list \<Rightarrow> bool"
  and json_members :: "nat \<Rightarrow> string \<Rightarrow> (string \<times> json) list \<Rightarrow> bool" where
  jv_null: "ws w \<Longrightarrow> json_value (Suc d) (w @ ''null'') JNull"
| jv_true: "ws w \<Longrightarrow> json_value (Suc d) (w @ ''true'') (JBool True)"
| jv_false: "ws w \<Longrightarrow> json_value (Suc d) (w @ ''false'') (JBool False)"
| jv_string: "ws w \<Longrightarrow> json_chars t v \<Longrightarrow> json_value (Suc d) (w @ quote # t @ [quote]) (JString v)"
| jv_number: "ws w \<Longrightarrow> json_number t \<Longrightarrow> json_value (Suc d) (w @ t) (JNumber t)"
| jv_array0: "ws w \<Longrightarrow> ws x \<Longrightarrow> json_value (Suc d) (w @ CHR ''['' # x @ '']'') (JArray [])"
| jv_array: "ws w \<Longrightarrow> json_elements d t vs \<Longrightarrow> json_value (Suc d) (w @ CHR ''['' # t) (JArray vs)"
| jv_object0: "ws w \<Longrightarrow> ws x \<Longrightarrow> json_value (Suc d) (w @ CHR ''{'' # x @ ''}'') (JObject [])"
| jv_object: "ws w \<Longrightarrow> json_members d t ms \<Longrightarrow> distinct (map fst ms) \<Longrightarrow>
    json_value (Suc d) (w @ CHR ''{'' # t) (JObject ms)"
| je_last: "json_value d t v \<Longrightarrow> ws w \<Longrightarrow> json_elements d (t @ w @ '']'') [v]"
| je_more: "json_value d t v \<Longrightarrow> ws w \<Longrightarrow> json_elements d u vs \<Longrightarrow> json_elements d (t @ w @ CHR '','' # u) (v # vs)"
| jm_last: "ws w \<Longrightarrow> json_chars kt k \<Longrightarrow> ws x \<Longrightarrow> json_value d t v \<Longrightarrow> ws y \<Longrightarrow>
    json_members d (w @ quote # kt @ quote # x @ CHR '':'' # t @ y @ ''}'') [(k, v)]"
| jm_more: "ws w \<Longrightarrow> json_chars kt k \<Longrightarrow> ws x \<Longrightarrow> json_value d t v \<Longrightarrow> ws y \<Longrightarrow> json_members d u ms \<Longrightarrow>
    json_members d (w @ quote # kt @ quote # x @ CHR '':'' # t @ y @ CHR '','' # u) ((k, v) # ms)"

subsection \<open>White space and punctuation\<close>

lemma space_chars [simp]:
  "\<not> is_space CHR ''n''" "\<not> is_space CHR ''t''" "\<not> is_space CHR ''f''" "\<not> is_space quote"
  "\<not> is_space CHR ''[''" "\<not> is_space CHR '']''" "\<not> is_space CHR ''{''" "\<not> is_space CHR ''}''"
  "\<not> is_space CHR '',''" "\<not> is_space CHR '':''" "\<not> is_space CHR ''-''" "\<not> is_space CHR ''.''"
  "\<not> is_space CHR ''e''" "\<not> is_space CHR ''E''" "is_digit c \<Longrightarrow> \<not> is_space c"
  by (simp_all add: is_space_def is_digit_def code_def)

lemma digit_chars2 [simp]:
  "\<not> is_digit CHR ''n''" "\<not> is_digit CHR ''t''" "\<not> is_digit CHR ''f''" "\<not> is_digit quote"
  "\<not> is_digit CHR ''[''" "\<not> is_digit CHR '']''" "\<not> is_digit CHR ''{''" "\<not> is_digit CHR ''}''"
  "\<not> is_digit CHR '',''" "is_space c \<Longrightarrow> \<not> is_digit c"
  by (auto simp: is_space_def is_digit_def code_def)

lemma skip_ws [simp]: "ws w \<Longrightarrow> dropWhile is_space (w @ s) = dropWhile is_space s"
  by (simp add: dropWhile_append2 list_all_iff)

lemma skipWhitespace_run [simp]: "skipWhitespace s = (Inr (), dropWhile is_space s)"
  by (simp add: skipWhitespace_def)

lemma take_ws: "\<exists>w. s = w @ dropWhile is_space s \<and> ws w"
  using set_takeWhileD by (metis takeWhile_dropWhile_id list_all_iff)

lemma consume_True: "ws w \<Longrightarrow> \<not> is_space c \<Longrightarrow> consume c (w @ c # s) = (Inr True, s)"
  by (simp add: consume_def guard_runs)

lemma consume_False:
  "ws w \<Longrightarrow> \<not> is_space b \<Longrightarrow> b \<noteq> c \<Longrightarrow> consume c (w @ b # s) = (Inr False, b # s)"
  by (simp add: consume_def guard_runs)

lemma consume_taken:
  assumes "consume c s = (Inr b, r)"
  shows "\<exists>w. ws w \<and> s = (if b then w @ c # r else w @ r)"
proof -
  from take_ws obtain w where w: "s = w @ dropWhile is_space s" "ws w" by blast
  from assms have "if b then dropWhile is_space s = c # r else dropWhile is_space s = r"
    by (auto simp: consume_def thenp_def bindp_def split: list.splits if_splits)
  with w show ?thesis by (cases b) metis+
qed

lemma bindp_bool [simp]:
  "m s = (Inr False, t) \<Longrightarrow> bindp m f s = f False t" "m s = (Inr True, t) \<Longrightarrow> bindp m f s = f True t"
  by simp_all

lemma consume_no_error: "fst (consume c s) \<noteq> Inl e"
  by (auto simp: consume_def thenp_def bindp_def split: list.splits)

lemma literal_sound: "parseLiteral l s = (Inr (), r) \<Longrightarrow> s = l @ r"
  unfolding parseLiteral_def fail_def by (metis append_take_drop_id prod.inject raise_apply Inl_Inr_False)

lemma literal_complete: "parseLiteral l (l @ r) = (Inr (), r)"
  by (simp add: parseLiteral_def)

lemma stops_ws: "ws w \<Longrightarrow> stops r \<Longrightarrow> stops (w @ r)"
  by (cases w) (auto simp: stops_def)

lemma stops_punctuation [simp]: "stops (CHR '']'' # r)" "stops (CHR ''}'' # r)" "stops (CHR '','' # r)" "stops []"
  by (simp_all add: stops_def)

subsection \<open>Every text of the grammar is accepted\<close>

lemma value_start:
  assumes "json_value d t v"
  shows "\<exists>w c u. t = w @ c # u \<and> ws w \<and> \<not> is_space c \<and> c \<noteq> CHR '']''"
  using assms
proof cases
  case (jv_number w n d')
  from jv_number(5) obtain c u where "n = c # u" "c = CHR ''-'' \<or> is_digit c" by (rule number_start)
  with jv_number show ?thesis by (intro exI [of _ w] exI [of _ c] exI [of _ u]) auto
qed (force simp: append_eq_append_conv2)+

lemma parseString_complete: "json_chars t v \<Longrightarrow> parseString (quote # t @ quote # r) = (Inr v, r)"
  using consume_True [of "[]" quote "t @ quote # r"] stringBody_complete [of t v "[]" r]
  by (simp add: parseString_def guard_runs)

subsection \<open>Every accepted text is in the grammar\<close>

lemma consume_sound:
  "consume c s = (Inr True, r) \<Longrightarrow> \<exists>w. ws w \<and> s = w @ c # r"
  "consume c s = (Inr False, r) \<Longrightarrow> \<exists>w. ws w \<and> s = w @ r"
  using consume_taken [of c s True r] consume_taken [of c s False r] by simp_all

lemma parseString_sound:
  assumes "parseString s = (Inr v, r)"
  shows "\<exists>w t. ws w \<and> s = w @ quote # t @ quote # r \<and> json_chars t v"
proof -
  from assms obtain b a where c: "consume quote s = (Inr b, a)" "b" "stringBody [] a = (Inr v, r)"
    unfolding parseString_def by (elim bindp_cases) (auto simp: guard_runs split: if_splits)
  then obtain w where "ws w" "s = w @ quote # a" using consume_sound(1) [of quote s a] by auto
  with stringBody_sound [OF c(3)] show ?thesis by auto
qed

text \<open>White space before a value, the elements or the members belongs to them.\<close>

lemma json_value_ws:
  assumes "json_value d t v" and "ws x"
  shows "json_value d (x @ t) v"
proof -
  have "ws w \<Longrightarrow> ws (x @ w)" for w using assms(2) by simp
  from assms(1) this show ?thesis
    by cases (simp_all only: append_assoc [symmetric] json_value_json_elements_json_members.intros)
qed

lemma json_elements_ws:
  assumes "json_elements d t vs" and "ws x"
  shows "json_elements d (x @ t) vs"
  using assms(1)
proof cases
  case (je_last t v w)
  from json_value_json_elements_json_members.je_last [OF json_value_ws [OF je_last(3) assms(2)] je_last(4)] je_last show ?thesis by simp
next
  case (je_more t v w u vs)
  from json_value_json_elements_json_members.je_more [OF json_value_ws [OF je_more(3) assms(2)] je_more(4,5)] je_more show ?thesis by simp
qed

lemma json_members_ws:
  assumes "json_members d t ms" and "ws x"
  shows "json_members d (x @ t) ms"
  using assms(1)
proof cases
  case (jm_last w kt k z t v y)
  with assms(2) json_value_json_elements_json_members.jm_last [of "x @ w" kt k z d t v y] show ?thesis by simp
next
  case (jm_more w kt k z t v y u us)
  with assms(2) json_value_json_elements_json_members.jm_more [of "x @ w" kt k z d t v y u us] show ?thesis by simp
qed

definition reads :: "(string \<Rightarrow> 'a \<Rightarrow> bool) \<Rightarrow> 'a parser \<Rightarrow> bool" where
  "reads P m \<longleftrightarrow> (\<forall>s v r. m s = (Inr v, r) \<longrightarrow> (\<exists>t. s = t @ r \<and> P t v))"

lemma reads_run: "reads P m \<Longrightarrow> m s = (Inr v, r) \<Longrightarrow> \<exists>t. s = t @ r \<and> P t v"
  by (simp add: reads_def)

lemma arrayLoop_sound:
  assumes element: "reads (json_value d) m"
  shows "arrayLoop n m acc s = (Inr vs, r) \<Longrightarrow> \<exists>t us. s = t @ r \<and> vs = acc @ us \<and> json_elements d t us"
proof (induction n arbitrary: acc s)
  case (Suc n)
  from Suc.prems obtain v a b c where v: "m s = (Inr v, a)" and b: "consume CHR '']'' a = (Inr b, c)"
    and rest: "if b then vs = acc @ [v] \<and> r = c
      else \<exists>comma e. consume CHR '','' c = (Inr comma, e) \<and> comma \<and> arrayLoop n m (acc @ [v]) e = (Inr vs, r)"
    unfolding arrayLoop.simps
    by (elim bindp_cases) (auto elim!: bindp_cases simp: guard_runs split: if_splits)
  from reads_run [OF element v] obtain t where t: "s = t @ a" "json_value d t v" by blast
  show ?case
  proof (cases b)
    case True
    with b consume_sound(1) [of "CHR '']''" a c] obtain w where "ws w" "a = w @ CHR '']'' # c" by auto
    with True rest t je_last [OF t(2), of w] show ?thesis by (intro exI [of _ "t @ w @ '']''"]) auto
  next
    case False
    with b consume_sound(2) [of "CHR '']''" a c] obtain w where w: "ws w" "a = w @ c" by auto
    from False rest obtain e where e: "consume CHR '','' c = (Inr True, e)"
      "arrayLoop n m (acc @ [v]) e = (Inr vs, r)" by auto
    from consume_sound(1) [OF e(1)] obtain x where x: "ws x" "c = x @ CHR '','' # e" by blast
    from Suc.IH [OF e(2)] obtain u us where u: "e = u @ r" "vs = (acc @ [v]) @ us" "json_elements d u us" by blast
    from w x have "ws (w @ x)" by simp
    from je_more [OF t(2) this u(3)] w x t u show ?thesis
      by (intro exI [of _ "t @ (w @ x) @ CHR '','' # u"] exI [of _ "v # us"]) simp
  qed
qed simp

lemma objectLoop_step:
  assumes "objectLoop (Suc n) m acc s = (Inr ms, r)"
  shows "\<exists>k a b v c closed e. parseString (dropWhile is_space s) = (Inr k, a) \<and>
    consume CHR '':'' a = (Inr True, b) \<and> m b = (Inr v, c) \<and> map_of acc k = None \<and>
    consume CHR ''}'' c = (Inr closed, e) \<and>
    (if closed then ms = acc @ [(k, v)] \<and> r = e
     else \<exists>f. consume CHR '','' e = (Inr True, f) \<and> objectLoop n m (acc @ [(k, v)]) f = (Inr ms, r))"
  using assms unfolding objectLoop.simps
  by (simp add: guard_runs skipWhitespace_def split: if_splits)
    (elim bindp_cases, auto elim!: bindp_cases simp: guard_runs split: if_splits, blast+)

lemma objectLoop_sound:
  assumes member: "reads (json_value d) m"
  shows "objectLoop n m acc s = (Inr ms, r) \<Longrightarrow> distinct (map fst acc) \<Longrightarrow>
    \<exists>t us. s = t @ r \<and> ms = acc @ us \<and> distinct (map fst ms) \<and> json_members d t us"
proof (induction n arbitrary: acc s)
  case (Suc n)
  from objectLoop_step [OF Suc.prems(1)] obtain k a b v c closed e where
    k: "parseString (dropWhile is_space s) = (Inr k, a)" "consume CHR '':'' a = (Inr True, b)"
      "m b = (Inr v, c)" "map_of acc k = None" "consume CHR ''}'' c = (Inr closed, e)"
    and rest: "if closed then ms = acc @ [(k, v)] \<and> r = e
      else \<exists>f. consume CHR '','' e = (Inr True, f) \<and> objectLoop n m (acc @ [(k, v)]) f = (Inr ms, r)"
    by blast
  have dist: "distinct (map fst (acc @ [(k, v)]))"
    using Suc.prems(2) k(4) by (simp add: map_of_eq_None_iff)
  from take_ws obtain w0 where w0: "s = w0 @ dropWhile is_space s" "ws w0" by blast
  from parseString_sound [OF k(1)] obtain w1 kt where
    w1: "ws w1" "dropWhile is_space s = w1 @ quote # kt @ quote # a" "json_chars kt k" by blast
  from consume_sound(1) [OF k(2)] obtain x where x: "ws x" "a = x @ CHR '':'' # b" by blast
  from reads_run [OF member k(3)] obtain t where t: "b = t @ c" "json_value d t v" by blast
  have w: "ws (w0 @ w1)" using w0(2) w1(1) by simp
  have s: "s = (w0 @ w1) @ quote # kt @ quote # x @ CHR '':'' # t @ c" using w0(1) w1(2) x t by simp
  show ?case
  proof (cases closed)
    case True
    with k(5) consume_sound(1) [of "CHR ''}''" c e] obtain y where "ws y" "c = y @ CHR ''}'' # e" by auto
    with True rest s dist jm_last [OF w w1(3) x(1) t(2), of y] show ?thesis
      by (intro exI [of _ "(w0 @ w1) @ quote # kt @ quote # x @ CHR '':'' # t @ y @ ''}''"]) auto
  next
    case False
    with k(5) consume_sound(2) [of "CHR ''}''" c e] obtain y where y: "ws y" "c = y @ e" by auto
    from False rest obtain f where f: "consume CHR '','' e = (Inr True, f)"
      "objectLoop n m (acc @ [(k, v)]) f = (Inr ms, r)" by auto
    from consume_sound(1) [OF f(1)] obtain z where z: "ws z" "e = z @ CHR '','' # f" by blast
    from Suc.IH [OF f(2) dist] obtain u us where
      u: "f = u @ r" "ms = (acc @ [(k, v)]) @ us" "distinct (map fst ms)" "json_members d u us" by blast
    from y z have yz: "ws (y @ z)" by simp
    from jm_more [OF w w1(3) x(1) t(2) yz u(4)] s y z u show ?thesis
      by (intro exI [of _ "(w0 @ w1) @ quote # kt @ quote # x @ CHR '':'' # t @ (y @ z) @ CHR '','' # u"]
          exI [of _ "(k, v) # us"]) simp
  qed
qed simp

lemma parseArray_sound:
  assumes "reads (json_value d) m" and "parseArray m s = (Inr vs, r)" and "ws w"
  shows "\<exists>t. w @ s = t @ r \<and> json_value (Suc d) t (JArray vs)"
proof -
  from assms(2) obtain a b closed where k: "consume CHR ''['' s = (Inr True, a)" "consume CHR '']'' a = (Inr closed, b)"
    and rest: "if closed then vs = [] \<and> r = b else arrayLoop (Suc (length b)) m [] b = (Inr vs, r)"
    unfolding parseArray_def
    by (elim bindp_cases) (auto elim!: bindp_cases simp: guard_runs simp del: arrayLoop.simps split: if_splits)
  from consume_sound(1) [OF k(1)] obtain x where x: "ws x" "s = x @ CHR ''['' # a" by blast
  from assms(3) x(1) have w: "ws (w @ x)" by simp
  show ?thesis
  proof (cases closed)
    case True
    with k(2) consume_sound(1) [of "CHR '']''" a b] obtain y where "ws y" "a = y @ CHR '']'' # b" by auto
    with True rest x jv_array0 [OF w, of y d] show ?thesis
      by (intro exI [of _ "(w @ x) @ CHR ''['' # y @ '']''"]) simp
  next
    case False
    with k(2) consume_sound(2) [of "CHR '']''" a b] obtain y where y: "ws y" "a = y @ b" by auto
    from False rest have "arrayLoop (Suc (length b)) m [] b = (Inr vs, r)" by simp
    from arrayLoop_sound [OF assms(1) this] obtain u where
      u: "b = u @ r" "json_elements d u vs" by auto
    have "json_elements d (y @ u) vs" by (rule json_elements_ws [OF u(2) y(1)])
    from jv_array [OF w this] x y u(1) show ?thesis
      by (intro exI [of _ "(w @ x) @ CHR ''['' # y @ u"]) simp
  qed
qed

lemma parseObject_sound:
  assumes "reads (json_value d) m" and "parseObject m s = (Inr ms, r)" and "ws w"
  shows "\<exists>t. w @ s = t @ r \<and> json_value (Suc d) t (JObject ms)"
proof -
  from assms(2) obtain a b closed where k: "consume CHR ''{'' s = (Inr True, a)" "consume CHR ''}'' a = (Inr closed, b)"
    and rest: "if closed then ms = [] \<and> r = b else objectLoop (Suc (length b)) m [] b = (Inr ms, r)"
    unfolding parseObject_def
    by (elim bindp_cases) (auto elim!: bindp_cases simp: guard_runs simp del: objectLoop.simps split: if_splits)
  from consume_sound(1) [OF k(1)] obtain x where x: "ws x" "s = x @ CHR ''{'' # a" by blast
  from assms(3) x(1) have w: "ws (w @ x)" by simp
  show ?thesis
  proof (cases closed)
    case True
    with k(2) consume_sound(1) [of "CHR ''}''" a b] obtain y where "ws y" "a = y @ CHR ''}'' # b" by auto
    with True rest x jv_object0 [OF w, of y d] show ?thesis
      by (intro exI [of _ "(w @ x) @ CHR ''{'' # y @ ''}''"]) simp
  next
    case False
    with k(2) consume_sound(2) [of "CHR ''}''" a b] obtain y where y: "ws y" "a = y @ b" by auto
    from False rest have "objectLoop (Suc (length b)) m [] b = (Inr ms, r)" by simp
    from objectLoop_sound [OF assms(1) this] obtain u where
      u: "b = u @ r" "json_members d u ms" "distinct (map fst ms)" by auto
    have "json_members d (y @ u) ms" by (rule json_members_ws [OF u(2) y(1)])
    from jv_object [OF w this u(3)] x y u(1) show ?thesis
      by (intro exI [of _ "(w @ x) @ CHR ''{'' # y @ u"]) simp
  qed
qed

lemma if_run:
  assumes "(if b then x else y) = z"
  obtains "b" "x = z" | "\<not> b" "y = z"
  using assms by (simp split: if_splits)

lemma parseValue_sound: "reads (json_value d) (parseValue d)"
proof (induction d)
  case 0
  then show ?case by (simp add: reads_def fail_def)
next
  case (Suc d)
  show ?case unfolding reads_def
  proof (intro allI impI)
    fix s v r
    assume run: "parseValue (Suc d) s = (Inr v, r)"
    from take_ws obtain w where w: "s = w @ dropWhile is_space s" "ws w" by blast
    define u where "u = dropWhile is_space s"
    have s: "s = w @ u" using w(1) by (simp add: u_def)
    note here = run [unfolded parseValue.simps thenp_modify skipWhitespace_def u_def [symmetric]]
    then obtain c x where u: "u = c # x" by (cases u) (simp_all add: fail_def)
    consider (lit) l where "parseLiteral l u = (Inr (), r)"
        "(l, v) \<in> {(''null'', JNull), (''true'', JBool True), (''false'', JBool False)}"
      | (str) y where "parseString u = (Inr y, r)" "v = JString y"
      | (arr) y where "parseArray (parseValue d) u = (Inr y, r)" "v = JArray y"
      | (obj) y where "parseObject (parseValue d) u = (Inr y, r)" "v = JObject y"
      | (num) y where "parseNumber u = (Inr y, r)" "v = JNumber y"
      using here unfolding u list.case
    proof (elim if_run)
      assume "thenp (parseLiteral ''null'') (ret JNull) (c # x) = (Inr v, r)"
      then show ?thesis using lit [of "''null''"] unfolding u by (elim thenp_cases) simp_all
    next
      assume "thenp (parseLiteral ''true'') (ret (JBool True)) (c # x) = (Inr v, r)"
      then show ?thesis using lit [of "''true''"] unfolding u by (elim thenp_cases) simp_all
    next
      assume "thenp (parseLiteral ''false'') (ret (JBool False)) (c # x) = (Inr v, r)"
      then show ?thesis using lit [of "''false''"] unfolding u by (elim thenp_cases) simp_all
    next
      assume "bindp parseString (\<lambda>y. ret (JString y)) (c # x) = (Inr v, r)"
      then show ?thesis using str unfolding u by (elim bindp_cases) simp_all
    next
      assume "bindp (parseArray (parseValue d)) (\<lambda>y. ret (JArray y)) (c # x) = (Inr v, r)"
      then show ?thesis using arr unfolding u by (elim bindp_cases) simp_all
    next
      assume "bindp (parseObject (parseValue d)) (\<lambda>y. ret (JObject y)) (c # x) = (Inr v, r)"
      then show ?thesis using obj unfolding u by (elim bindp_cases) simp_all
    next
      assume "bindp parseNumber (\<lambda>y. ret (JNumber y)) (c # x) = (Inr v, r)"
      then show ?thesis using num unfolding u by (elim bindp_cases) simp_all
    qed (simp add: fail_def)
    then show "\<exists>t. s = t @ r \<and> json_value (Suc d) t v"
    proof cases
      case lit
      from literal_sound [OF lit(1)] lit(2) s w(2) show ?thesis
        by (intro exI [of _ "w @ l"]) (auto intro: json_value_json_elements_json_members.intros)
    next
      case str
      from parseString_sound [OF str(1)] obtain z t where
        "ws z" "u = z @ quote # t @ quote # r" "json_chars t y" by blast
      with s w(2) str(2) jv_string [of "w @ z" t y d] show ?thesis
        by (intro exI [of _ "(w @ z) @ quote # t @ [quote]"]) simp
    next
      case arr
      with parseArray_sound [OF Suc arr(1) w(2)] s show ?thesis by simp
    next
      case obj
      with parseObject_sound [OF Suc obj(1) w(2)] s show ?thesis by simp
    next
      case num
      from parseNumber_sound [OF num(1)] s w(2) num(2) show ?thesis
        by (intro exI [of _ "w @ y"]) (simp add: jv_number)
    qed
  qed
qed

subsection \<open>Every text of the grammar is accepted\<close>

lemma parseValue_skips: "\<exists>f. \<forall>s. parseValue (Suc d) s = f (dropWhile is_space s)"
  unfolding parseValue.simps thenp_modify skipWhitespace_def by (rule exI, rule allI, rule refl)

lemma parseValue_ws: "ws w \<Longrightarrow> parseValue (Suc d) (w @ s) = parseValue (Suc d) s"
  using parseValue_skips [of d] by (metis skip_ws)

lemma parseValue_trim: "parseValue (Suc d) (dropWhile is_space s) = parseValue (Suc d) s"
  using parseValue_skips [of d] by (metis dropWhile_idem)

lemma arrayLoop_skips:
  "arrayLoop (Suc n) (parseValue (Suc d)) acc (dropWhile is_space s) = arrayLoop (Suc n) (parseValue (Suc d)) acc s"
  by (simp only: arrayLoop.simps bindp_def parseValue_trim)

lemma objectLoop_skips: "objectLoop (Suc n) m acc (dropWhile is_space s) = objectLoop (Suc n) m acc s"
  by (simp only: objectLoop.simps thenp_modify skipWhitespace_def dropWhile_idem)

lemma json_value_depth: "json_value d t v \<Longrightarrow> \<exists>e. d = Suc e"
  by (cases rule: json_value.cases) auto

lemma json_elements_depth: "json_elements d t vs \<Longrightarrow> \<exists>e. d = Suc e"
  by (cases rule: json_elements.cases) (auto dest: json_value_depth)

text \<open>Each element and each member takes a byte that is not white space.\<close>

lemma elements_start:
  "json_elements d t vs \<Longrightarrow> \<exists>w c u. t = w @ c # u \<and> ws w \<and> \<not> is_space c \<and> c \<noteq> CHR '']''"
  by (erule json_elements.cases) (force dest!: value_start)+

lemma members_start: "json_members d t ms \<Longrightarrow> \<exists>w u. t = w @ quote # u \<and> ws w"
  by (erule json_members.cases) auto

lemma elements_count: "json_elements d t vs \<Longrightarrow> length vs \<le> length (dropWhile is_space t)"
proof (induction "length vs" arbitrary: t vs rule: less_induct)
  case less
  from less.prems show ?case
  proof cases
    case (je_last t v w)
    from elements_start [OF less.prems] je_last show ?thesis by auto
  next
    case (je_more t' v w u us)
    from value_start [OF je_more(3)] obtain x c y where "t' = x @ c # y" "ws x" "\<not> is_space c" by blast
    moreover have "length us \<le> length u"
      using less.hyps [OF _ je_more(5)] je_more(2) length_dropWhile_le [of is_space u] by simp
    ultimately show ?thesis using je_more(1,2) by simp
  qed
qed

lemma members_count: "json_members d t ms \<Longrightarrow> length ms \<le> length (dropWhile is_space t)"
proof (induction "length ms" arbitrary: t ms rule: less_induct)
  case less
  from less.prems show ?case
  proof cases
    case (jm_more w kt k x t' v y u us)
    have "length us \<le> length u"
      using less.hyps [OF _ jm_more(8)] jm_more(2) length_dropWhile_le [of is_space u] by simp
    then show ?thesis using jm_more(1,2,3) by simp
  qed simp
qed

lemma elements_trim:
  assumes "json_elements d t vs" and "length vs \<le> Suc n"
  shows "consume CHR '']'' (t @ r) = (Inr False, dropWhile is_space (t @ r))"
    and "arrayLoop (Suc n) (parseValue d) [] (dropWhile is_space (t @ r)) = arrayLoop (Suc n) (parseValue d) [] (t @ r)"
proof -
  from elements_start [OF assms(1)] obtain w c u where t: "t = w @ c # u" "ws w" "\<not> is_space c" "c \<noteq> CHR '']''"
    by blast
  then show "consume CHR '']'' (t @ r) = (Inr False, dropWhile is_space (t @ r))" by (simp add: consume_False)
  from json_elements_depth [OF assms(1)] obtain e where "d = Suc e" by blast
  then show "arrayLoop (Suc n) (parseValue d) [] (dropWhile is_space (t @ r)) = arrayLoop (Suc n) (parseValue d) [] (t @ r)"
    by (simp only: arrayLoop_skips)
qed

lemma parseArray_complete:
  assumes els: "json_elements d t vs"
    and loop: "\<And>n. length vs \<le> n \<Longrightarrow> arrayLoop n (parseValue d) [] (t @ r) = (Inr vs, r)"
  shows "parseArray (parseValue d) (CHR ''['' # t @ r) = (Inr vs, r)"
proof -
  have "length vs \<le> length (dropWhile is_space t)" by (rule elements_count [OF els])
  also have "\<dots> \<le> length (dropWhile is_space (t @ r))"
    by (cases "\<forall>x\<in>set t. is_space x") (auto simp: dropWhile_append dropWhile_eq_Nil_conv [THEN iffD2])
  finally have n: "length vs \<le> Suc (length (dropWhile is_space (t @ r)))" by simp
  note trim = elements_trim [OF els n, of r]
  have "consume CHR ''['' (CHR ''['' # t @ r) = (Inr True, t @ r)" using consume_True [of "[]" "CHR ''[''"] by simp
  with trim loop [OF n] show ?thesis
    by (simp add: parseArray_def guard_runs del: arrayLoop.simps)
qed

lemma parseObject_complete:
  assumes ms: "json_members d t ms"
    and loop: "\<And>n. length ms \<le> n \<Longrightarrow> objectLoop n (parseValue d) [] (t @ r) = (Inr ms, r)"
  shows "parseObject (parseValue d) (CHR ''{'' # t @ r) = (Inr ms, r)"
proof -
  from members_start [OF ms] obtain w u where t: "t = w @ quote # u" "ws w" by blast
  then have close: "consume CHR ''}'' (t @ r) = (Inr False, dropWhile is_space (t @ r))" by (simp add: consume_False)
  have "length ms \<le> length (dropWhile is_space t)" by (rule members_count [OF ms])
  then have n: "length ms \<le> Suc (length (dropWhile is_space (t @ r)))" using t by simp
  have "consume CHR ''{'' (CHR ''{'' # t @ r) = (Inr True, t @ r)"
    using consume_True [of "[]" "CHR ''{''"] by simp
  with close show ?thesis
    by (simp add: parseObject_def guard_runs objectLoop_skips loop [OF n] del: objectLoop.simps)
qed

lemmas value_runs = parseValue_ws parseValue.simps thenp_modify skipWhitespace_def literal_complete

theorem grammar_complete:
  "json_value d t v \<Longrightarrow> (\<forall>r. stops r \<longrightarrow> parseValue d (t @ r) = (Inr v, r))"
  "json_elements d t vs \<Longrightarrow> (\<forall>n acc r. length vs \<le> n \<longrightarrow>
     arrayLoop n (parseValue d) acc (t @ r) = (Inr (acc @ vs), r))"
  "json_members d t ms \<Longrightarrow> (\<forall>n acc r. length ms \<le> n \<longrightarrow> distinct (map fst (acc @ ms)) \<longrightarrow>
     objectLoop n (parseValue d) acc (t @ r) = (Inr (acc @ ms), r))"
proof (induction rule: json_value_json_elements_json_members.inducts)
  case (jv_null w d)
  then show ?case using literal_complete [of "''null''"] by (simp add: value_runs)
next
  case (jv_true w d)
  then show ?case using literal_complete [of "''true''"] by (simp add: value_runs)
next
  case (jv_false w d)
  then show ?case using literal_complete [of "''false''"] by (simp add: value_runs)
next
  case (jv_string w t v d)
  then show ?case by (simp add: value_runs parseString_complete)
next
  case (jv_number w t d)
  from jv_number(2) obtain c u where c: "t = c # u" "c = CHR ''-'' \<or> is_digit c" by (rule number_start)
  then have ne: "c \<noteq> CHR ''n''" "c \<noteq> CHR ''t''" "c \<noteq> CHR ''f''" "c \<noteq> quote" "c \<noteq> CHR ''[''"
    "c \<noteq> CHR ''{''" "\<not> is_space c" by auto
  have "parseNumber (c # u @ r) = (Inr t, r)" if "stops r" for r
    using parseNumber_complete [OF jv_number(2) that] c(1) by simp
  with jv_number(1) c ne show ?case by (simp add: value_runs)
next
  case (jv_array0 w x d)
  have "parseArray (parseValue d) (CHR ''['' # x @ CHR '']'' # r) = (Inr [], r)" for r
    using consume_True [of "[]" "CHR ''[''" "x @ CHR '']'' # r"] consume_True [OF jv_array0(2), of "CHR '']''" r]
    by (simp add: parseArray_def guard_runs)
  with jv_array0(1) show ?case by (simp add: value_runs)
next
  case (jv_array w d t vs)
  from jv_array(3) have "parseArray (parseValue d) (CHR ''['' # t @ r) = (Inr vs, r)" for r
    by (intro parseArray_complete [OF jv_array(2)]) simp
  with jv_array(1) show ?case by (simp add: value_runs)
next
  case (jv_object0 w x d)
  have "parseObject (parseValue d) (CHR ''{'' # x @ CHR ''}'' # r) = (Inr [], r)" for r
    using consume_True [of "[]" "CHR ''{''" "x @ CHR ''}'' # r"] consume_True [OF jv_object0(2), of "CHR ''}''" r]
    by (simp add: parseObject_def guard_runs)
  with jv_object0(1) show ?case by (simp add: value_runs)
next
  case (jv_object w d t ms)
  from jv_object(3,4) have "parseObject (parseValue d) (CHR ''{'' # t @ r) = (Inr ms, r)" for r
    by (intro parseObject_complete [OF jv_object(2)]) simp
  with jv_object(1) show ?case by (simp add: value_runs)
next
  case (je_last d t v w)
  show ?case
  proof (intro allI impI)
    fix n acc r
    assume "length [v] \<le> n"
    then obtain m where n: "n = Suc m" by (cases n) auto
    have "parseValue d (t @ w @ CHR '']'' # r) = (Inr v, w @ CHR '']'' # r)"
      using je_last by (simp add: stops_ws)
    with n je_last(2) show "arrayLoop n (parseValue d) acc ((t @ w @ '']'') @ r) = (Inr (acc @ [v]), r)"
      by (simp add: consume_True)
  qed
next
  case (je_more d t v w u vs)
  show ?case
  proof (intro allI impI)
    fix n acc r
    assume "length (v # vs) \<le> n"
    then obtain m where n: "n = Suc m" "length vs \<le> m" by (cases n) auto
    have "parseValue d (t @ w @ CHR '','' # u @ r) = (Inr v, w @ CHR '','' # u @ r)"
      using je_more by (simp add: stops_ws)
    moreover have "consume CHR '','' (CHR '','' # u @ r) = (Inr True, u @ r)"
      using consume_True [of "[]" "CHR '',''"] by simp
    ultimately show "arrayLoop n (parseValue d) acc ((t @ w @ CHR '','' # u) @ r) = (Inr (acc @ v # vs), r)"
      using n je_more.IH(2) je_more(2) by (simp add: consume_False guard_runs)
  qed
next
  case (jm_last w kt k x d t v y)
  show ?case
  proof (intro allI impI)
    fix n acc r
    assume "length [(k, v)] \<le> n" and dist: "distinct (map fst (acc @ [(k, v)]))"
    then obtain m where n: "n = Suc m" by (cases n) auto
    have "parseValue d (t @ y @ CHR ''}'' # r) = (Inr v, y @ CHR ''}'' # r)"
      using jm_last by (simp add: stops_ws)
    moreover have "map_of acc k = None" using dist by (simp add: map_of_eq_None_iff)
    ultimately show "objectLoop n (parseValue d) acc
        ((w @ quote # kt @ quote # x @ CHR '':'' # t @ y @ ''}'') @ r) = (Inr (acc @ [(k, v)]), r)"
      using n jm_last by (simp add: guard_runs skipWhitespace_def parseString_complete consume_True)
  qed
next
  case (jm_more w kt k x d t v y u ms)
  show ?case
  proof (intro allI impI)
    fix n acc r
    assume "length ((k, v) # ms) \<le> n" and dist: "distinct (map fst (acc @ (k, v) # ms))"
    then obtain m where n: "n = Suc m" "length ms \<le> m" by (cases n) auto
    have "parseValue d (t @ y @ CHR '','' # u @ r) = (Inr v, y @ CHR '','' # u @ r)"
      using jm_more by (simp add: stops_ws)
    moreover have "map_of acc k = None" using dist by (simp add: map_of_eq_None_iff)
    moreover have "consume CHR '','' (CHR '','' # u @ r) = (Inr True, u @ r)"
      using consume_True [of "[]" "CHR '',''"] by simp
    moreover have "objectLoop m (parseValue d) (acc @ [(k, v)]) (u @ r) = (Inr ((acc @ [(k, v)]) @ ms), r)"
      using jm_more.IH(2) n(2) dist by simp
    ultimately show "objectLoop n (parseValue d) acc
        ((w @ quote # kt @ quote # x @ CHR '':'' # t @ y @ CHR '','' # u) @ r) = (Inr (acc @ (k, v) # ms), r)"
      using n jm_more(1-3,5)
      by (simp add: guard_runs skipWhitespace_def parseString_complete consume_True consume_False)
  qed
qed

section \<open>The parser always answers\<close>

text \<open>A parser reports: it returns a value or throws a \<open>ModelMetadataError\<close>.\<close>

definition reports :: "'a parser \<Rightarrow> string \<Rightarrow> bool" where
  "reports m s \<longleftrightarrow> (\<forall>e. fst (m s) = Inl e \<longrightarrow> (\<exists>message. e = MetadataError message))"

lemma reports_bindp [intro!]:
  "reports m s \<Longrightarrow> (\<And>v r. m s = (Inr v, r) \<Longrightarrow> reports (f v) r) \<Longrightarrow> reports (bindp m f) s"
  by (auto simp: reports_def bindp_def split: prod.splits sum.splits)

lemma reports_thenp [intro!]:
  "reports m s \<Longrightarrow> (\<And>r. m s = (Inr (), r) \<Longrightarrow> reports k r) \<Longrightarrow> reports (thenp m k) s"
  unfolding thenp_def by (rule reports_bindp) simp_all

lemma reports_basic [simp]:
  "reports (ret v) s" "reports (fail message) s" "reports (modify f) s" "reports (gets g) s"
  "reports (require b (MetadataError message)) s" "reports skipWhitespace s" "reports (consume c) s" "reports (parseLiteral l) s"
  by (auto simp: reports_def fail_def parseLiteral_def consume_def guard_runs skipWhitespace_def split: list.splits)

lemma reports_if [simp]: "reports (if b then m else k) s \<longleftrightarrow> (if b then reports m s else reports k s)"
  by simp

lemma reports_branch:
  "(b \<Longrightarrow> reports m s) \<Longrightarrow> (\<not> b \<Longrightarrow> reports k s) \<Longrightarrow> reports (\<lambda>t. if b then m t else k t) s"
  by (simp add: reports_def)

lemma hexDigits_reports: "reports (hexDigits n v) s"
  by (induction n v s rule: hexDigits.induct) (auto simp: reports_def fail_def split: option.splits)

lemma parseHexQuad_reports [simp]: "reports parseHexQuad s"
  using hexDigits_reports [of 4 0 s] by (auto simp: reports_def parseHexQuad_def fail_def)

lemma surrogateMark_reports [simp]: "reports surrogateMark s"
  by (auto simp: reports_def surrogateMark_def fail_def split: list.splits)

lemma unicodeEscape_reports: "reports unicodeEscape s"
  unfolding unicodeEscape_def by (auto split: if_splits)

lemma stringBody_reports: "reports (stringBody out) s"
proof (induction out s rule: stringBody.induct)
  case (2 out c s)
  have u: "\<exists>message. e = MetadataError message" if "unicodeEscape t = (Inl e, r)" for t e r
    using unicodeEscape_reports [of t] that by (simp add: reports_def)
  from 2 show ?case
    by (auto simp: reports_def fail_def split: list.splits option.splits prod.splits sum.splits dest: u)
qed (simp add: reports_def fail_def)

lemma parseString_reports [simp]: "reports parseString s"
  unfolding parseString_def by (auto simp: stringBody_reports)

lemma parseNumber_reports [simp]: "reports parseNumber s"
proof -
  have r: "reports numberSign s" "reports numberInteger s" "reports numberFraction s" "reports numberExponent s" for s
    by (auto simp: reports_def numberSign_def numberInteger_def numberFraction_def numberExponent_def
        someDigits_def fail_def split: list.splits if_splits)
  have "reports (thenp numberSign (thenp numberInteger (thenp numberFraction numberExponent))) s"
    by (intro reports_thenp r)
  then show ?thesis by (auto simp: reports_def parseNumber_def split: prod.splits sum.splits)
qed

lemma consume_length: "consume c s = (Inr b, r) \<Longrightarrow> length r + (if b then 1 else 0) \<le> length s"
  using consume_taken [of c s b r] by (auto split: if_splits)

lemma parseString_length: "parseString s = (Inr v, r) \<Longrightarrow> length r < length s"
  using parseString_sound [of s v r] by auto

lemma parseValue_length: "parseValue d s = (Inr v, r) \<Longrightarrow> length r < length s"
  using parseValue_sound [of d] value_start by (fastforce simp: reads_def)

lemma arrayLoop_reports:
  assumes m: "\<And>s. reports m s" and shorter: "\<And>s v r. m s = (Inr v, r) \<Longrightarrow> length r < length s"
  shows "length s < n \<Longrightarrow> reports (arrayLoop n m acc) s"
proof (induction n arbitrary: acc s)
  case (Suc n)
  have "reports (arrayLoop n m (acc @ [v])) e"
    if "m s = (Inr v, a)" "consume CHR '']'' a = (Inr b, c)" "consume CHR '','' c = (Inr b', e)" for v a b b' c e
    using Suc.prems shorter [OF that(1)] consume_length [OF that(2)] consume_length [OF that(3)]
    by (intro Suc.IH) (simp split: if_splits)
  then show ?case unfolding arrayLoop.simps by (auto simp: m split: if_splits)
qed simp

lemma objectLoop_reports:
  assumes m: "\<And>s. reports m s" and shorter: "\<And>s v r. m s = (Inr v, r) \<Longrightarrow> length r < length s"
  shows "length s < n \<Longrightarrow> reports (objectLoop n m acc) s"
proof (induction n arbitrary: acc s)
  case (Suc n)
  have "reports (objectLoop n m acc') g"
    if "parseString (dropWhile is_space s) = (Inr k, a)" "consume CHR '':'' a = (Inr b, c)" "m c = (Inr v, d)"
      "consume CHR ''}'' d = (Inr b', e)" "consume CHR '','' e = (Inr b'', g)" for acc' k a b c v d b' e b'' g
    using Suc.prems parseString_length [OF that(1)] consume_length [OF that(2)] shorter [OF that(3)]
      consume_length [OF that(4)] consume_length [OF that(5)] length_dropWhile_le [of is_space s]
    by (intro Suc.IH) (simp split: if_splits)
  then show ?case
    unfolding objectLoop.simps
    by (intro reports_bindp reports_thenp m parseString_reports reports_basic) (auto simp: m split: if_splits)
qed simp

lemma loop_reports [simp]:
  "reports (\<lambda>s. arrayLoop (Suc (length s)) m [] s) s \<longleftrightarrow> reports (arrayLoop (Suc (length s)) m []) s"
  "reports (\<lambda>s. objectLoop (Suc (length s)) m [] s) s \<longleftrightarrow> reports (objectLoop (Suc (length s)) m []) s"
  by (simp_all add: reports_def)

lemma parseValue_reports: "reports (parseValue d) s"
proof (induction d arbitrary: s)
  case (Suc d)
  note loops = arrayLoop_reports [OF Suc parseValue_length] objectLoop_reports [OF Suc parseValue_length]
  have a: "reports (parseArray (parseValue d)) s" for s
    unfolding parseArray_def by (auto simp: loops simp del: arrayLoop.simps split: if_splits)
  have o: "reports (parseObject (parseValue d)) s" for s
    unfolding parseObject_def by (auto simp: loops simp del: objectLoop.simps split: if_splits)
  have body: "reports (\<lambda>s. case s of [] \<Rightarrow> fail e s | c # x \<Rightarrow> G c x s) r"
    if "\<And>c x. reports (G c x) (c # x)" for e G r
    using that by (cases r) (simp_all add: reports_def fail_def)
  show ?case
    unfolding parseValue.simps
    by (intro reports_thenp body reports_branch reports_bindp reports_basic a o parseString_reports parseNumber_reports)
qed simp

section \<open>Documents\<close>

lemma parseDocument_reports: "reports parseDocument s"
  unfolding parseDocument_def by (intro reports_bindp reports_thenp parseValue_reports reports_basic)

lemma parseDocument_iff:
  "parseDocument s = (Inr v, r) \<longleftrightarrow> r = [] \<and> (\<exists>t. parseValue jsonDepth s = (Inr v, t) \<and> ws t)"
proof -
  have "dropWhile is_space t = [] \<longleftrightarrow> ws t" for t by (simp add: dropWhile_eq_Nil_conv list_all_iff)
  then show ?thesis
    unfolding parseDocument_def
    by (auto simp: bindp_def guard_runs skipWhitespace_def split: prod.splits sum.splits if_splits)
qed

lemma stops_white: "ws w \<Longrightarrow> stops w"
  using stops_ws [of w "[]"] by simp

text \<open>C20: \<open>parseJson\<close> accepts exactly the documents of the grammar, a value of at most 129 levels
  followed by white space, and returns the value the text denotes: nothing is accepted with trailing
  bytes, a repeated key, a bad escape, a lone surrogate, a leading zero or a missing comma, and every
  well-formed document is accepted.
\<close>

theorem parseJson_exact:
  "parseJson text = Inr v \<longleftrightarrow> (\<exists>t w. text = t @ w \<and> json_value jsonDepth t v \<and> ws w)"
proof
  assume "parseJson text = Inr v"
  then obtain r where "parseDocument text = (Inr v, r)"
    by (auto simp: parseJson_def split: prod.splits sum.splits exn.splits)
  then obtain w where w: "parseValue jsonDepth text = (Inr v, w)" "ws w" by (auto simp: parseDocument_iff)
  from reads_run [OF parseValue_sound w(1)] w(2)
  show "\<exists>t w. text = t @ w \<and> json_value jsonDepth t v \<and> ws w" by blast
next
  assume "\<exists>t w. text = t @ w \<and> json_value jsonDepth t v \<and> ws w"
  then obtain t w where t: "text = t @ w" "json_value jsonDepth t v" "ws w" by blast
  from grammar_complete(1) [OF t(2)] stops_white [OF t(3)] have "parseValue jsonDepth (t @ w) = (Inr v, w)" by blast
  with t(1,3) have "parseDocument text = (Inr v, [])" by (auto simp: parseDocument_iff)
  then show "parseJson text = Inr v" by (simp add: parseJson_def)
qed

text \<open>Whatever the input, \<open>parseJson\<close> ends with a value or with a \<open>ModelMetadataError\<close> that names the byte:
  the loops over elements and members and the recursion into nested values always make progress.
\<close>

theorem parseJson_answers:
  "(\<exists>v. parseJson text = Inr v) \<or>
   (\<exists>message p. p \<le> length text \<and> parseJson text = Inl (MetadataError (message @ '' at byte '' @ to_string p)))"
proof (cases "parseDocument text")
  case (Pair x r)
  show ?thesis
  proof (cases x)
    case (Inl e)
    with Pair parseDocument_reports [of "text"] obtain message where "e = MetadataError message"
      by (auto simp: reports_def)
    with Inl Pair show ?thesis
      by (intro disjI2 exI [of _ message] exI [of _ "length text - length r"]) (simp add: parseJson_def)
  next
    case (Inr v)
    with Pair show ?thesis by (simp add: parseJson_def)
  qed
qed

section \<open>Unsigned integers\<close>

lemma decimal_digits: "list_all is_digit ds \<Longrightarrow> ds \<noteq> [] \<Longrightarrow>
  from_chars_u64 ds = (if decimal ds < 2 ^ 64 then Some (of_nat (decimal ds), []) else None)"
  by (simp add: from_chars_u64_def Let_def takeWhile_eq_all_conv [THEN iffD2] dropWhile_eq_Nil_conv [THEN iffD2]
      list_all_iff)

lemma from_chars_u64_all: "from_chars_u64 s = Some (n, []) \<longleftrightarrow>
  s \<noteq> [] \<and> list_all is_digit s \<and> decimal s < 2 ^ 64 \<and> n = of_nat (decimal s)"
proof (cases "list_all is_digit s")
  case True
  then show ?thesis using decimal_digits [OF True] by (cases "s = []") (auto simp: from_chars_u64_def)
next
  case False
  then have "dropWhile is_digit s \<noteq> []" by (simp add: dropWhile_eq_Nil_conv list_all_iff)
  with False show ?thesis by (auto simp: from_chars_u64_def Let_def split: if_splits)
qed

text \<open>A number or a string is read as an unsigned 64-bit integer exactly when it is a non-empty
  run of decimal digits whose value is below \<open>2 ^ 64\<close>, and then the result is that value: there is no
  wrap-around, no sign, no fraction and no trailing byte.
\<close>

theorem asUInt64_exact:
  "asUInt64 j = Inr n \<longleftrightarrow> (\<exists>s. (j = JNumber s \<or> j = JString s) \<and> s \<noteq> [] \<and> list_all is_digit s \<and>
     decimal s < 2 ^ 64 \<and> unat n = decimal s)"
proof -
  have u: "parseUnsigned s = Inr n \<longleftrightarrow> s \<noteq> [] \<and> list_all is_digit s \<and> decimal s < 2 ^ 64 \<and> n = of_nat (decimal s)"
    for s using from_chars_u64_all [of s n]
    by (auto simp: parseUnsigned_def split: option.splits prod.splits list.splits)
  have w: "n = of_nat k \<longleftrightarrow> unat n = k" if "k < 2 ^ 64" for k
    using that unat_of_nat_u64 [of k] by (auto simp: word_unat_eq_iff)
  show ?thesis by (cases j) (use u w in auto)
qed

end
