(* ===== verification/Manifest_Json.thy ===== *)
theory Manifest_Json
  imports Model_Manifest Json_Grammar
begin

text \<open>
  The text of a manifest: \<^verbatim>\<open>ModelManifest::toJson\<close>, \<open>save\<close> and \<open>load\<close>. Text is built from the
  members of objects and the elements of arrays, which the code streams one after the other. How the C++
  library reads and prints floating-point numbers is a parameter, a \<open>float_io\<close>. The round trip
  goes through the JSON value that the text denotes, by the grammar of \<open>Json_Grammar\<close>.
\<close>

text \<open>\<open>fl_double\<close> is \<open>std::from_chars\<close> on a text that it reads to the end, \<open>fl_narrow\<close> the conversion from
  \<open>double\<close> to \<open>float\<close>, \<open>fl_print\<close> the stream output with a precision, and \<open>fl_epsilon\<close> the float nearest to
  \<open>1.0e-6\<close>.\<close>

record float_io =
  fl_double :: "string \<Rightarrow> fp option"
  fl_narrow :: "fp \<Rightarrow> fp"
  fl_print :: "nat \<Rightarrow> fp \<Rightarrow> string"
  fl_epsilon :: fp

section \<open>Writing\<close>

definition hex_char :: "nat \<Rightarrow> char" where
  "hex_char n = ''0123456789abcdef'' ! n"

definition escape_char :: "char \<Rightarrow> string" where
  "escape_char c =
     (if c = quote then [backslash, quote]
      else if c = backslash then [backslash, backslash]
      else if c = CHR 0x08 then [backslash, CHR ''b'']
      else if c = CHR 0x0C then [backslash, CHR ''f'']
      else if c = CHR 0x0A then [backslash, CHR ''n'']
      else if c = CHR 0x0D then [backslash, CHR ''r'']
      else if c = CHR 0x09 then [backslash, CHR ''t'']
      else if code c < 0x20
      then backslash # ''u00'' @ [hex_char (code c div 16), hex_char (code c mod 16)]
      else [c])"

definition escapeJson :: "string \<Rightarrow> string" where
  "escapeJson s = concat (map escape_char s)"

definition quoted :: "string \<Rightarrow> string" where
  "quoted t = quote # t @ [quote]"

text \<open>The members after an opening brace: white space, the key, white space after the colon, the
  text of the value. The elements after an opening bracket.\<close>

fun members_text :: "string \<Rightarrow> string \<Rightarrow> string \<Rightarrow> (string \<times> string) list \<Rightarrow> string" where
  "members_text w x e [] = e @ ''}''"
| "members_text w x e [(k, t)] = w @ quoted k @ '':'' @ x @ t @ e @ ''}''"
| "members_text w x e ((k, t) # m # ms) = w @ quoted k @ '':'' @ x @ t @ '','' @ members_text w x e (m # ms)"

fun elements_text :: "string \<Rightarrow> string \<Rightarrow> string list \<Rightarrow> string" where
  "elements_text w e [] = e @ '']''"
| "elements_text w e [t] = w @ t @ e @ '']''"
| "elements_text w e (t # u # ts) = w @ t @ '','' @ elements_text w e (u # ts)"

definition object_text :: "(string \<times> string) list \<Rightarrow> string" where
  "object_text ms = CHR ''{'' # members_text [] [] [] ms"

definition array_text :: "string list \<Rightarrow> string" where
  "array_text ts = CHR ''['' # elements_text [] [] ts"

abbreviation newline :: char where "newline \<equiv> CHR 0x0A"

definition lines_text :: "string list \<Rightarrow> string" where
  "lines_text ts = CHR ''['' # elements_text (newline # ''    '') (newline # ''  '') ts"

definition root_text :: "(string \<times> string) list \<Rightarrow> string" where
  "root_text ms = CHR ''{'' # members_text (newline # ''  '') '' '' [newline] ms @ [newline]"

definition bool_text :: "bool \<Rightarrow> string" where
  "bool_text b = (if b then ''true'' else ''false'')"

definition word_text :: "'a::len word \<Rightarrow> string" where
  "word_text w = to_string (unat w)"

definition int_text :: "int \<Rightarrow> string" where
  "int_text i = (if i < 0 then CHR ''-'' # to_string (nat (- i)) else to_string (nat i))"

definition writeShape :: "shape \<Rightarrow> string" where
  "writeShape sh = array_text (map word_text (sh_dimensions sh))"

definition writeProjection :: "projection_location \<Rightarrow> string" where
  "writeProjection p = object_text
     [(''tensor'', quoted (escapeJson (pl_tensorName p))), (''offset'', word_text (pl_offset p)),
      (''size'', word_text (pl_size p)), (''shape'', writeShape (pl_shape p)),
      (''layout'', quoted (layout_toString (pl_layout p)))]"

definition writeBinding :: "tensor_binding \<Rightarrow> string" where
  "writeBinding b = object_text
     [(''tensor'', quoted (escapeJson (tb_tensorName b))), (''layout'', quoted (layout_toString (tb_layout b)))]"

definition writeCapabilities :: "model_capabilities \<Rightarrow> string" where
  "writeCapabilities c = object_text
     [(''routed_experts'', bool_text (cap_routedExperts c)), (''configurable_top_k'', bool_text (cap_configurableTopK c)),
      (''normalized_routing'', bool_text (cap_normalizedRouting c)), (''gated_expert_mlp'', bool_text (cap_gatedExpertMlp c)),
      (''shared_experts'', bool_text (cap_sharedExperts c)),
      (''quantized_expert_weights'', bool_text (cap_quantizedExpertWeights c))]"

text \<open>All members but the first are quoted. The precision of the stream is still the default 6.\<close>

definition writeArchitecture :: "float_io \<Rightarrow> runtime_architecture \<Rightarrow> string" where
  "writeArchitecture f a = object_text
     [(''attention_heads'', word_text (ra_attentionHeads a)), (''key_value_heads'', quoted (word_text (ra_keyValueHeads a))),
      (''head_dimension'', quoted (word_text (ra_headDimension a))),
      (''projection_head_dimension'', quoted (word_text (ra_projectionHeadDimension a))),
      (''vocabulary_size'', quoted (word_text (ra_vocabularySize a))),
      (''tied_embeddings'', quoted (bool_text (ra_tiedEmbeddings a))),
      (''rope_theta'', quoted (fl_print f 6 (ra_ropeTheta a))),
      (''input_norm_epsilon'', quoted (fl_print f 6 (nc_epsilon (ra_inputNormalization a)))),
      (''post_attention_norm_epsilon'', quoted (fl_print f 6 (nc_epsilon (ra_postAttentionNormalization a)))),
      (''final_norm_epsilon'', quoted (fl_print f 6 (nc_epsilon (ra_finalNormalization a))))]"

definition writeIO :: "manifest_io \<Rightarrow> string" where
  "writeIO i = object_text
     [(''token_embedding'', quoted (escapeJson (io_tokenEmbeddingTensor i))),
      (''final_norm'', quoted (escapeJson (io_finalNormTensor i))),
      (''lm_head'', writeBinding (io_lmHead i)), (''tied_embeddings'', bool_text (io_tiedEmbeddings i))]"

definition writeRouterTensor :: "manifest_router_tensor \<Rightarrow> string" where
  "writeRouterTensor r = object_text
     [(''layer_id'', word_text (mrt_layerId r)), (''tensor'', quoted (escapeJson (mrt_tensorName r)))]"

definition writeRouter :: "manifest_router \<Rightarrow> string" where
  "writeRouter r = object_text
     [(''expert_count'', word_text (rc_expertCount (mr_config r))), (''top_k'', word_text (rc_topK (mr_config r))),
      (''normalization'', quoted (normalization_toString (rc_normalization (mr_config r)))),
      (''renormalize_selected'', bool_text (rc_renormalizeSelected (mr_config r))),
      (''layout'', quoted (layout_toString (mr_layout r))), (''tensors'', array_text (map writeRouterTensor (mr_tensors r)))]"

definition writeQuantization :: "float_io \<Rightarrow> quantization_parameters \<Rightarrow> string" where
  "writeQuantization f q = object_text
     [(''scheme'', quoted ''PER_TENSOR_AFFINE_INT8''), (''scale'', fl_print f 9 (qp_scale q)),
      (''zero_point'', int_text (qp_zeroPoint q))]"

definition writeTensor :: "float_io \<Rightarrow> manifest_tensor \<Rightarrow> string" where
  "writeTensor f v = object_text
     ([(''name'', quoted (escapeJson (mt_name v))), (''source_file'', quoted (escapeJson (mt_sourceFile v))),
       (''offset'', word_text (mt_offset v)), (''size'', word_text (mt_size v)),
       (''dtype'', quoted (dtype_toString (mt_dtype v))), (''shape'', writeShape (mt_shape v))] @
      (case mt_quantization v of None \<Rightarrow> [] | Some q \<Rightarrow> [(''quantization'', writeQuantization f q)]))"

definition writeExpert :: "manifest_expert \<Rightarrow> string" where
  "writeExpert x = object_text
     [(''layer_id'', word_text (mx_layerId x)), (''expert_id'', word_text (mx_expertId x)),
      (''gate'', writeProjection (mx_gate x)), (''up'', writeProjection (mx_up x)), (''down'', writeProjection (mx_down x))]"

definition writeLayer :: "manifest_layer \<Rightarrow> string" where
  "writeLayer l = object_text
     [(''layer_id'', word_text (ml_layerId l)), (''q_proj'', writeBinding (ml_queryProjection l)),
      (''k_proj'', writeBinding (ml_keyProjection l)), (''v_proj'', writeBinding (ml_valueProjection l)),
      (''o_proj'', writeBinding (ml_outputProjection l)), (''q_norm'', quoted (escapeJson (ml_queryNormTensor l))),
      (''k_norm'', quoted (escapeJson (ml_keyNormTensor l))), (''input_norm'', quoted (escapeJson (ml_inputNormTensor l))),
      (''post_attention_norm'', quoted (escapeJson (ml_postAttentionNormTensor l))),
      (''router'', quoted (escapeJson (ml_routerTensor l)))]"

definition manifest_members :: "float_io \<Rightarrow> model_manifest \<Rightarrow> (string \<times> string) list" where
  "manifest_members f m =
      [(''schema'', quoted (mf_schema m)), (''model_name'', quoted (escapeJson (mf_modelName m))),
       (''architecture'', quoted (architecture_toString (mf_architecture m))),
       (''source_architecture'', quoted (escapeJson (mf_sourceArchitecture m))),
       (''layer_count'', word_text (mc_layerCount (mf_config m))), (''parameter_count'', word_text (mf_parameterCount m)),
       (''expert_count'', word_text (mc_expertCount (mf_config m))), (''hidden_size'', word_text (mc_hiddenSize (mf_config m))),
       (''intermediate_size'', word_text (mc_intermediateSize (mf_config m))),
       (''capabilities'', writeCapabilities (mc_capabilities (mf_config m)))] @
      (case mf_runtimeArchitecture m of None \<Rightarrow> [] | Some a \<Rightarrow> [(''runtime_architecture'', writeArchitecture f a)]) @
      (case mf_modelIO m of None \<Rightarrow> [] | Some i \<Rightarrow> [(''model_io'', writeIO i)]) @
      [(''router'', writeRouter (mf_router m)), (''tensors'', lines_text (map (writeTensor f) (mf_tensors m))),
       (''experts'', lines_text (map writeExpert (mf_experts m))),
       (''layers'', lines_text (map writeLayer (mf_layers m)))]"

definition toJson :: "float_io \<Rightarrow> model_manifest \<Rightarrow> exn + string" where
  "toJson f m = andthen (manifest_validate m) (Inr (root_text (manifest_members f m)))"

text \<open>\<open>save\<close>. The file system decides whether the directories can be made (\<open>directories\<close>), whether the file
  opens, how many bytes arrive, and whether the stream has noticed a failure when it is asked. The
  file is truncated before the manifest is turned into text.\<close>

definition manifest_save ::
  "float_io \<Rightarrow> exn + unit \<Rightarrow> bool \<Rightarrow> nat \<Rightarrow> bool \<Rightarrow> string \<Rightarrow> model_manifest \<Rightarrow> (string \<rightharpoonup> string, unit) prog" where
  "manifest_save f directories opens arrived failed path m =
     thenp (require (path \<noteq> []) (InvalidArgument ''manifest output path is empty''))
    (case (if CHR ''/'' \<in> set path then directories else Inr ()) of
       Inl e \<Rightarrow> raise e
     | Inr _ \<Rightarrow>
         thenp (require opens (RuntimeError ''cannot create HyperMoE manifest''))
        (thenp (modify (\<lambda>d. d(path \<mapsto> [])))
        (case toJson f m of
           Inl e \<Rightarrow> raise e
         | Inr contents \<Rightarrow>
             thenp (modify (\<lambda>d. d(path \<mapsto> take arrived contents)))
             (require (\<not> failed) (RuntimeError ''failed writing HyperMoE manifest'')))))"

section \<open>Reading\<close>

definition asSize :: "json \<Rightarrow> string \<Rightarrow> exn + u64" where
  "asSize v field = (case v of
     JString t \<Rightarrow> (case from_chars_u64 t of
         Some (n, []) \<Rightarrow> Inr n
       | _ \<Rightarrow> Inl (MetadataError (field @ '' is not an unsigned integer'')))
   | _ \<Rightarrow> asUInt64 v)"

definition asId :: "json \<Rightarrow> string \<Rightarrow> exn + u32" where
  "asId v field = bindr (asUInt64 v) (\<lambda>n.
     if n > 0xFFFFFFFF then Inl (MetadataError (field @ '' exceeds uint32_t'')) else Inr (ucast n))"

definition asDouble :: "float_io \<Rightarrow> json \<Rightarrow> exn + fp" where
  "asDouble f v = (case v of
     JString t \<Rightarrow> (case fl_double f t of Some x \<Rightarrow> Inr x | None \<Rightarrow> Inl (MetadataError ''JSON value is not a double''))
   | JNumber t \<Rightarrow> (case fl_double f t of Some x \<Rightarrow> Inr x | None \<Rightarrow> Inl (MetadataError ''JSON value is not a double''))
   | _ \<Rightarrow> Inl (MetadataError ''JSON value is not a number''))"

definition asFloat :: "float_io \<Rightarrow> json \<Rightarrow> exn + fp" where
  "asFloat f v = bindr (asDouble f v) (\<lambda>x. Inr (fl_narrow f x))"

definition asInt32 :: "float_io \<Rightarrow> json \<Rightarrow> string \<Rightarrow> exn + int" where
  "asInt32 f v field = bindr (asDouble f v) (\<lambda>x.
     let r = fp_value x in
     if \<not> isfinite x \<or> of_int \<lfloor>r\<rfloor> \<noteq> r \<or> r < -2147483648 \<or> r > 2147483647
     then Inl (MetadataError (field @ '' is not a signed 32-bit integer'')) else Inr \<lfloor>r\<rfloor>)"

text \<open>\<open>require\<close> followed by a conversion.\<close>

definition field :: "json \<Rightarrow> string \<Rightarrow> (json \<Rightarrow> exn + 'a) \<Rightarrow> exn + 'a" where
  "field v k conv = bindr (js_require v k) conv"

definition field_or :: "json \<Rightarrow> string \<Rightarrow> 'a \<Rightarrow> (json \<Rightarrow> exn + 'a) \<Rightarrow> exn + 'a" where
  "field_or v k missing conv = (case js_find v k of None \<Rightarrow> Inr missing | Some x \<Rightarrow> conv x)"

definition parseQuantization :: "float_io \<Rightarrow> json \<Rightarrow> exn + quantization_parameters" where
  "parseQuantization f v =
     bindr (field v ''scheme'' asString) (\<lambda>scheme.
     andthen (throw_if (scheme \<noteq> ''PER_TENSOR_AFFINE_INT8'') (MetadataError ''unsupported manifest quantization scheme''))
    (bindr (field v ''scale'' (asFloat f)) (\<lambda>scale.
     bindr (field v ''zero_point'' (\<lambda>z. asInt32 f z ''zero_point'')) (\<lambda>zero.
     let q = \<lparr> qp_scale = scale, qp_zeroPoint = zero \<rparr> in
     andthen (validateParameters quantized_INT8 q) (Inr q)))))"

definition parseShape :: "json \<Rightarrow> exn + shape" where
  "parseShape v =
     bindr (asArray v) (\<lambda>vs. bindr (mapr (\<lambda>d. asSize d ''shape dimension'') vs) (\<lambda>ds.
     if ds = [] then Inl (MetadataError ''tensor shape cannot be empty'') else shape_make ds))"

definition parseDType :: "string \<Rightarrow> exn + u32" where
  "parseDType s = (if s = ''FP32'' then Inr (dtype_code FP32) else if s = ''FP16'' then Inr (dtype_code FP16)
     else if s = ''BF16'' then Inr (dtype_code BF16) else if s = ''INT8'' then Inr (dtype_code INT8)
     else Inl (MetadataError (''unsupported manifest dtype: '' @ s)))"

definition parseLayout :: "string \<Rightarrow> exn + u32" where
  "parseLayout s = (if s = ''INPUT_OUTPUT'' then Inr layout_InputOutput
     else if s = ''OUTPUT_INPUT'' then Inr layout_OutputInput
     else Inl (MetadataError (''unsupported tensor layout: '' @ s)))"

definition parseArchitecture :: "string \<Rightarrow> exn + model_architecture" where
  "parseArchitecture s = (if s = ''QWEN_MOE'' then Inr QWEN_MOE else if s = ''DEEPSEEK_MOE'' then Inr DEEPSEEK_MOE
     else if s = ''GLM_MOE'' then Inr GLM_MOE else if s = ''KIMI_MOE'' then Inr KIMI_MOE
     else if s = ''MIXTRAL_MOE'' then Inr MIXTRAL_MOE else if s = ''UNKNOWN'' then Inr UNKNOWN_MOE
     else Inl (MetadataError ''unsupported manifest architecture enum''))"

definition asLayout :: "json \<Rightarrow> exn + u32" where
  "asLayout v = bindr (asString v) parseLayout"

definition parseProjection :: "json \<Rightarrow> exn + projection_location" where
  "parseProjection v =
     bindr (field v ''tensor'' asString) (\<lambda>name.
     bindr (field v ''offset'' asUInt64) (\<lambda>off.
     bindr (field v ''size'' asUInt64) (\<lambda>n.
     bindr (field v ''shape'' parseShape) (\<lambda>sh.
     bindr (field v ''layout'' asLayout) (\<lambda>l.
     Inr \<lparr> pl_tensorName = name, pl_offset = off, pl_size = n, pl_shape = sh, pl_layout = l \<rparr>)))))"

definition parseBinding :: "json \<Rightarrow> exn + tensor_binding" where
  "parseBinding v =
     bindr (field v ''tensor'' asString) (\<lambda>name.
     bindr (field v ''layout'' asLayout) (\<lambda>l.
     Inr \<lparr> tb_tensorName = name, tb_layout = l \<rparr>))"

definition parseCapabilities :: "json \<Rightarrow> exn + model_capabilities" where
  "parseCapabilities v =
     bindr (field v ''routed_experts'' asBool) (\<lambda>a.
     bindr (field v ''configurable_top_k'' asBool) (\<lambda>b.
     bindr (field v ''normalized_routing'' asBool) (\<lambda>c.
     bindr (field v ''gated_expert_mlp'' asBool) (\<lambda>d.
     bindr (field v ''shared_experts'' asBool) (\<lambda>e.
     bindr (field v ''quantized_expert_weights'' asBool) (\<lambda>q.
     Inr \<lparr> cap_routedExperts = a, cap_configurableTopK = b, cap_normalizedRouting = c, cap_gatedExpertMlp = d,
       cap_sharedExperts = e, cap_quantizedExpertWeights = q \<rparr>))))))"

definition asNormalization :: "json \<Rightarrow> exn + u32" where
  "asNormalization v = bindr (asString v) (\<lambda>s.
     if s = ''SOFTMAX'' then Inr normalization_Softmax else if s = ''NONE'' then Inr normalization_None
     else Inl (MetadataError ''unsupported router normalization''))"

text \<open>The router up to its layout; its tensors are read later.\<close>

definition parseRouter :: "json \<Rightarrow> exn + router_config \<times> u32" where
  "parseRouter v =
     bindr (field v ''expert_count'' (\<lambda>x. asSize x ''router expert_count'')) (\<lambda>n.
     bindr (field v ''top_k'' (\<lambda>x. asSize x ''router top_k'')) (\<lambda>k.
     bindr (field v ''normalization'' asNormalization) (\<lambda>z.
     bindr (field v ''renormalize_selected'' asBool) (\<lambda>r.
     bindr (field v ''layout'' asLayout) (\<lambda>l.
     Inr (\<lparr> rc_expertCount = n, rc_topK = k, rc_normalization = z, rc_renormalizeSelected = r \<rparr>, l))))))"

definition parseRuntime :: "float_io \<Rightarrow> model_config \<Rightarrow> router_config \<Rightarrow> json \<Rightarrow> exn + runtime_architecture" where
  "parseRuntime f c rc v =
     bindr (field v ''attention_heads'' (\<lambda>x. asSize x ''attention_heads'')) (\<lambda>heads.
     bindr (field v ''key_value_heads'' (\<lambda>x. asSize x ''key_value_heads'')) (\<lambda>kv.
     bindr (field v ''head_dimension'' (\<lambda>x. asSize x ''head_dimension'')) (\<lambda>dim.
     bindr (field_or v ''projection_head_dimension'' dim (\<lambda>x. asSize x ''projection_head_dimension'')) (\<lambda>projection.
     bindr (field_or v ''vocabulary_size'' 0 (\<lambda>x. asSize x ''vocabulary_size'')) (\<lambda>vocabulary.
     bindr (field_or v ''tied_embeddings'' False asBool) (\<lambda>tied.
     bindr (field v ''rope_theta'' (asFloat f)) (\<lambda>theta.
     bindr (field v ''input_norm_epsilon'' (asFloat f)) (\<lambda>input.
     bindr (field v ''post_attention_norm_epsilon'' (asFloat f)) (\<lambda>post.
     bindr (field_or v ''final_norm_epsilon'' (fl_epsilon f) (asFloat f)) (\<lambda>final.
     Inr \<lparr> ra_layerCount = mc_layerCount c, ra_hiddenDimension = mc_hiddenSize c, ra_attentionHeads = heads,
       ra_keyValueHeads = kv, ra_headDimension = dim, ra_projectionHeadDimension = projection,
       ra_expertCount = mc_expertCount c, ra_topK = rc_topK rc, ra_vocabularySize = vocabulary,
       ra_tiedEmbeddings = tied, ra_ropeTheta = theta, ra_inputNormalization = normalization_default input,
       ra_postAttentionNormalization = normalization_default post,
       ra_finalNormalization = normalization_default final \<rparr>))))))))))"

definition parseIO :: "json \<Rightarrow> exn + manifest_io" where
  "parseIO v =
     bindr (field v ''token_embedding'' asString) (\<lambda>e.
     bindr (field v ''final_norm'' asString) (\<lambda>n.
     bindr (field v ''lm_head'' parseBinding) (\<lambda>h.
     bindr (field v ''tied_embeddings'' asBool) (\<lambda>t.
     Inr \<lparr> io_tokenEmbeddingTensor = e, io_finalNormTensor = n, io_lmHead = h, io_tiedEmbeddings = t \<rparr>))))"

definition parseRouterTensor :: "json \<Rightarrow> exn + manifest_router_tensor" where
  "parseRouterTensor v =
     bindr (field v ''layer_id'' (\<lambda>x. asId x ''router layer_id'')) (\<lambda>l.
     bindr (field v ''tensor'' asString) (\<lambda>t.
     Inr \<lparr> mrt_layerId = l, mrt_tensorName = t \<rparr>))"

definition parseTensor :: "float_io \<Rightarrow> json \<Rightarrow> exn + manifest_tensor" where
  "parseTensor f v =
     bindr (field v ''name'' asString) (\<lambda>name.
     bindr (field v ''source_file'' asString) (\<lambda>path.
     bindr (field v ''offset'' asUInt64) (\<lambda>off.
     bindr (field v ''size'' asUInt64) (\<lambda>n.
     bindr (field v ''dtype'' (\<lambda>x. bindr (asString x) parseDType)) (\<lambda>d.
     bindr (field v ''shape'' parseShape) (\<lambda>sh.
     bindr (field_or v ''quantization'' None (\<lambda>x. bindr (parseQuantization f x) (\<lambda>q. Inr (Some q)))) (\<lambda>q.
     Inr \<lparr> mt_name = name, mt_sourceFile = path, mt_offset = off, mt_size = n, mt_dtype = d, mt_shape = sh,
       mt_quantization = q \<rparr>)))))))"

definition parseExpert :: "json \<Rightarrow> exn + manifest_expert" where
  "parseExpert v =
     bindr (field v ''layer_id'' (\<lambda>x. asId x ''layer_id'')) (\<lambda>l.
     bindr (field v ''expert_id'' (\<lambda>x. asId x ''expert_id'')) (\<lambda>e.
     bindr (field v ''gate'' parseProjection) (\<lambda>g.
     bindr (field v ''up'' parseProjection) (\<lambda>u.
     bindr (field v ''down'' parseProjection) (\<lambda>d.
     Inr \<lparr> mx_layerId = l, mx_expertId = e, mx_gate = g, mx_up = u, mx_down = d \<rparr>)))))"

definition parseLayer :: "json \<Rightarrow> exn + manifest_layer" where
  "parseLayer v =
     bindr (field v ''layer_id'' (\<lambda>x. asId x ''layer_id'')) (\<lambda>l.
     bindr (field v ''q_proj'' parseBinding) (\<lambda>q.
     bindr (field v ''k_proj'' parseBinding) (\<lambda>k.
     bindr (field v ''v_proj'' parseBinding) (\<lambda>w.
     bindr (field v ''o_proj'' parseBinding) (\<lambda>out.
     bindr (field_or v ''q_norm'' [] asString) (\<lambda>qn.
     bindr (field_or v ''k_norm'' [] asString) (\<lambda>kn.
     bindr (field v ''input_norm'' asString) (\<lambda>i.
     bindr (field v ''post_attention_norm'' asString) (\<lambda>p.
     bindr (field v ''router'' asString) (\<lambda>r.
     Inr \<lparr> ml_layerId = l, ml_queryProjection = q, ml_keyProjection = k, ml_valueProjection = w,
       ml_outputProjection = out, ml_inputNormTensor = i, ml_postAttentionNormTensor = p, ml_routerTensor = r,
       ml_queryNormTensor = qn, ml_keyNormTensor = kn \<rparr>))))))))))"

definition each_of :: "(json \<Rightarrow> exn + 'a) \<Rightarrow> json \<Rightarrow> exn + 'a list" where
  "each_of conv v = bindr (asArray v) (mapr conv)"

definition load_config :: "json \<Rightarrow> string \<Rightarrow> exn + model_config" where
  "load_config doc name =
     bindr (field doc ''layer_count'' (\<lambda>x. asSize x ''layer_count'')) (\<lambda>layers.
     bindr (field doc ''expert_count'' (\<lambda>x. asSize x ''expert_count'')) (\<lambda>experts.
     bindr (field doc ''hidden_size'' (\<lambda>x. asSize x ''hidden_size'')) (\<lambda>hidden.
     bindr (field doc ''intermediate_size'' (\<lambda>x. asSize x ''intermediate_size'')) (\<lambda>intermediate.
     bindr (field doc ''capabilities'' parseCapabilities) (\<lambda>caps.
     Inr \<lparr> mc_modelName = name, mc_layerCount = layers, mc_expertCount = experts, mc_hiddenSize = hidden,
       mc_intermediateSize = intermediate, mc_capabilities = caps \<rparr>)))))"

definition manifest_of_json :: "float_io \<Rightarrow> json \<Rightarrow> exn + model_manifest" where
  "manifest_of_json f doc =
     bindr (field doc ''schema'' asString) (\<lambda>schema.
     bindr (field doc ''model_name'' asString) (\<lambda>name.
     bindr (field doc ''architecture'' (\<lambda>x. bindr (asString x) parseArchitecture)) (\<lambda>arch.
     bindr (field doc ''source_architecture'' asString) (\<lambda>src.
     bindr (field_or doc ''parameter_count'' 0 asUInt64) (\<lambda>parameters.
     bindr (load_config doc name) (\<lambda>c.
     bindr (js_require doc ''router'') (\<lambda>routerValue.
     bindr (parseRouter routerValue) (\<lambda>(rc, layout).
     bindr (field_or doc ''runtime_architecture'' None
         (\<lambda>x. bindr (parseRuntime f c rc x) (\<lambda>a. Inr (Some a)))) (\<lambda>runtime.
     bindr (field_or doc ''model_io'' None (\<lambda>x. bindr (parseIO x) (\<lambda>i. Inr (Some i)))) (\<lambda>io'.
     bindr (field routerValue ''tensors'' (each_of parseRouterTensor)) (\<lambda>routerTensors.
     bindr (field doc ''tensors'' (each_of (parseTensor f))) (\<lambda>tensors.
     bindr (field doc ''experts'' (each_of parseExpert)) (\<lambda>experts.
     bindr (field_or doc ''layers'' [] (each_of parseLayer)) (\<lambda>layers.
     let m = \<lparr> mf_schema = schema, mf_modelName = name, mf_architecture = arch, mf_sourceArchitecture = src,
         mf_parameterCount = parameters, mf_config = c, mf_runtimeArchitecture = runtime,
         mf_router = \<lparr> mr_config = rc, mr_tensors = routerTensors, mr_layout = layout \<rparr>,
         mf_tensors = tensors, mf_experts = experts, mf_layers = layers, mf_modelIO = io' \<rparr> in
     andthen (manifest_validate m) (Inr m)))))))))))))))"

definition manifest_size_limit :: nat where
  "manifest_size_limit = 64 * 1024 * 1024"

definition manifest_load :: "float_io \<Rightarrow> string \<Rightarrow> (string \<rightharpoonup> string) \<Rightarrow> exn + model_manifest" where
  "manifest_load f path files =
     bindr (parseJsonFile (map_option length (files path)) (files path) manifest_size_limit) (manifest_of_json f)"

section \<open>The tokens of the text\<close>

lemma hex_digits_value: "n < 32 \<Longrightarrow> hex4 (''00'' @ [hex_char (n div 16), hex_char (n mod 16)]) n"
proof -
  assume "n < 32"
  moreover have "list_all (\<lambda>n. hex4 (''00'' @ [hex_char (n div 16), hex_char (n mod 16)]) n) [0..<32]" by code_simp
  ultimately show ?thesis by (simp add: list_all_iff)
qed

lemma char_code [simp]: "char_of (code c) = c"
  by (simp add: code_def)

definition short_escape :: "char \<Rightarrow> char option" where
  "short_escape c = (if c = quote then Some quote else if c = backslash then Some backslash
     else if c = CHR 0x08 then Some (CHR ''b'') else if c = CHR 0x0C then Some (CHR ''f'')
     else if c = CHR 0x0A then Some (CHR ''n'') else if c = CHR 0x0D then Some (CHR ''r'')
     else if c = CHR 0x09 then Some (CHR ''t'') else None)"

lemma short_escape_Some: "short_escape c = Some e \<Longrightarrow> (e, c) \<in> set escapes"
  by (simp add: short_escape_def escapes_def split: if_splits)

lemma short_escape_None: "short_escape c = None \<Longrightarrow> c \<noteq> quote \<and> c \<noteq> backslash"
  by (simp add: short_escape_def split: if_splits)

lemma escape_char_cases:
  "escape_char c = (case short_escape c of Some e \<Rightarrow> [backslash, e]
   | None \<Rightarrow> if code c < 0x20 then backslash # ''u00'' @ [hex_char (code c div 16), hex_char (code c mod 16)] else [c])"
  unfolding escape_char_def short_escape_def by (simp only: if_distrib [where f = "case_option _ _"] option.case)

lemma escape_char_value:
  assumes "json_chars t v"
  shows "json_chars (escape_char c @ t) (c # v)"
proof (cases "short_escape c")
  case (Some e)
  from chars_escape [OF short_escape_Some [OF Some] assms] Some show ?thesis by (simp add: escape_char_cases)
next
  case None
  show ?thesis
  proof (cases "code c < 32")
    case True
    have "utf8 (code c) = [c]" using True by (simp add: utf8_def)
    moreover have "json_chars (backslash # CHR ''u'' # (''00'' @ [hex_char (code c div 16), hex_char (code c mod 16)]) @ t) (utf8 (code c) @ v)"
      by (rule chars_unicode [OF hex_digits_value [OF True] _ assms]) (use True in simp)
    ultimately show ?thesis using None True by (simp add: escape_char_cases)
  next
    case False
    with None chars_plain [of c t v] assms short_escape_None [OF None] show ?thesis by (simp add: escape_char_cases not_less)
  qed
qed

lemma escapeJson_value: "json_chars (escapeJson s) s"
  by (induction s) (simp_all add: escapeJson_def chars_end escape_char_value)

definition plain :: "string \<Rightarrow> bool" where
  "plain s \<longleftrightarrow> list_all (\<lambda>c. c \<noteq> quote \<and> c \<noteq> backslash \<and> 32 \<le> code c) s"

lemma plain_step: "plain []" "plain (c # s) \<longleftrightarrow> c \<noteq> quote \<and> c \<noteq> backslash \<and> 32 \<le> code c \<and> plain s"
  by (simp_all add: plain_def)

lemma plain_chars: "plain s \<Longrightarrow> json_chars s s"
  by (induction s) (auto simp: plain_def intro: chars_end chars_plain)

lemma code_digit: "n < 10 \<Longrightarrow> code (char_of (48 + n)) = 48 + n"
  by (simp add: code_def)

lemma digit_char: "(n :: nat) < 10 \<Longrightarrow> is_digit (char_of (48 + n)) \<and> (char_of (48 + n) = CHR ''0'' \<longleftrightarrow> n = 0)"
proof
  assume n: "(n :: nat) < 10"
  show "is_digit (char_of (48 + n))" using code_digit [OF n] n by (simp add: is_digit_def)
  have z: "code CHR ''0'' = 48" by (simp add: code_def)
  show "char_of (48 + n) = CHR ''0'' \<longleftrightarrow> n = 0"
  proof
    assume "char_of (48 + n) = CHR ''0''"
    with code_digit [OF n] z show "n = 0" by simp
  next
    assume "n = 0"
    with char_code [of "CHR ''0''"] z show "char_of (48 + n) = CHR ''0''" by simp
  qed
qed

lemma to_string_decimal: "list_all is_digit (to_string n) \<and> decimal (to_string n) = n"
proof (induction n rule: to_string.induct)
  case (1 n)
  show ?case
  proof (cases "n < 10")
    case True
    then show ?thesis using code_digit [OF True] digit_char [OF True]
      by (subst (1 2) to_string.simps) (simp add: decimal_def)
  next
    case False
    have d: "n mod 10 < 10" by simp
    from 1 [OF False] False show ?thesis using code_digit [OF d] digit_char [OF d]
      by (subst (1 2) to_string.simps) (simp add: decimal_def)
  qed
qed

lemma to_string_integer: "num_integer (to_string n) \<and> (0 < n \<longrightarrow> hd (to_string n) \<noteq> CHR ''0'')"
proof (induction n rule: to_string.induct)
  case (1 n)
  show ?case
  proof (cases "n < 10")
    case True
    with digit_char [OF True] show ?thesis
      by (subst (1 2) to_string.simps) (auto simp: num_integer_def)
  next
    case False
    obtain c t where t: "to_string (n div 10) = c # t" using to_string_nonempty by (cases "to_string (n div 10)") auto
    from 1 [OF False] False t have "c \<noteq> CHR ''0''" by simp
    moreover from to_string_decimal [of n] have "list_all is_digit (to_string n)" by simp
    moreover from False have "to_string n = c # t @ [char_of (48 + n mod 10)]" by (subst to_string.simps) (simp add: t)
    ultimately show ?thesis by (simp add: num_integer_def)
  qed
qed

lemma to_string_number: "json_number (to_string n)" "json_number (CHR ''-'' # to_string n)"
proof -
  have "to_string n = [] @ to_string n @ [] @ []" "CHR ''-'' # to_string n = ''-'' @ to_string n @ [] @ []" by simp_all
  then show "json_number (to_string n)" "json_number (CHR ''-'' # to_string n)"
    unfolding json_number_def num_fraction_def num_exponent_def using to_string_integer [of n] by blast+
qed

lemma word_text_number: "json_number (word_text w)"
  by (simp add: word_text_def to_string_number)

lemma int_text_number: "json_number (int_text i)"
  by (simp add: int_text_def to_string_number)

lemma digits_plain: "list_all is_digit s \<Longrightarrow> plain s"
  by (auto simp: plain_def list_all_iff is_digit_def code_def)

lemma word_text_plain: "plain (word_text w)"
  by (simp add: word_text_def digits_plain to_string_decimal)

lemma word_text_reads [simp]: "from_chars_u64 (word_text (w :: 'a::len word)) = (if unat w < 2 ^ 64 then Some (of_nat (unat w), []) else None)"
  using to_string_decimal [of "unat w"] to_string_nonempty [of "unat w"] by (simp add: word_text_def decimal_digits)

section \<open>Values of the text\<close>

lemma quoted_value: "json_chars t v \<Longrightarrow> json_value (Suc d) (quoted t) (JString v)"
  using jv_string [of "[]" t v d] by (simp add: quoted_def)

lemma number_value: "json_number t \<Longrightarrow> json_value (Suc d) t (JNumber t)"
  using jv_number [of "[]" t d] by simp

lemma bool_value: "json_value (Suc d) (bool_text b) (JBool b)"
  using jv_true [of "[]" d] jv_false [of "[]" d] by (simp add: bool_text_def)

definition member_means :: "nat \<Rightarrow> string \<times> string \<Rightarrow> string \<times> json \<Rightarrow> bool" where
  "member_means d kt kv \<longleftrightarrow> fst kv = fst kt \<and> plain (fst kt) \<and> json_value d (snd kt) (snd kv)"

lemma members_value:
  "list_all2 (member_means d) ms vs \<Longrightarrow> ms \<noteq> [] \<Longrightarrow> ws w \<Longrightarrow> ws x \<Longrightarrow> ws e \<Longrightarrow> json_members d (members_text w x e ms) vs"
proof (induction w x e ms arbitrary: vs rule: members_text.induct)
  case (2 w x e k t)
  then obtain v where v: "vs = [(k, v)]" "plain k" "json_value d t v"
    by (auto simp: list_all2_Cons1 member_means_def)
  from jm_last [where x = "[]", OF 2(3) plain_chars [OF v(2)] _ json_value_ws [OF v(3) 2(4)] 2(5)] v(1)
  show ?case by (simp add: quoted_def)
next
  case (3 w x e k t m ms)
  then obtain kv us where "vs = kv # us" "member_means d (k, t) kv" "list_all2 (member_means d) (m # ms) us"
    by (auto simp: list_all2_Cons1 [of _ "(k, t)"])
  then obtain v where v: "vs = (k, v) # us" "plain k" "json_value d t v" "list_all2 (member_means d) (m # ms) us"
    by (cases kv) (simp add: member_means_def)
  from 3(1) [OF v(4)] 3(4,5,6) have "json_members d (members_text w x e (m # ms)) us" by simp
  from jm_more [where x = "[]" and y = "[]", OF 3(4) plain_chars [OF v(2)] _ json_value_ws [OF v(3) 3(5)] _ this] v(1)
  show ?case by (simp add: quoted_def)
qed simp

lemma elements_value:
  "list_all2 (json_value d) ts vs \<Longrightarrow> ts \<noteq> [] \<Longrightarrow> ws w \<Longrightarrow> ws e \<Longrightarrow> json_elements d (elements_text w e ts) vs"
proof (induction w e ts arbitrary: vs rule: elements_text.induct)
  case (2 w e t)
  then obtain v where v: "vs = [v]" "json_value d t v" by (auto simp: list_all2_Cons1)
  from je_last [OF json_value_ws [OF v(2) 2(3)] 2(4)] v(1) show ?case by simp
next
  case (3 w e t u ts)
  then obtain v us where v: "vs = v # us" "json_value d t v" "list_all2 (json_value d) (u # ts) us"
    by (auto simp: list_all2_Cons1 [of _ t])
  from 3(1) [OF v(3)] 3(4,5) have "json_elements d (elements_text w e (u # ts)) us" by simp
  from je_more [where w = "[]", OF json_value_ws [OF v(2) 3(4)] _ this] v(1) show ?case by simp
qed simp

lemma object_value:
  assumes "list_all2 (member_means d) ms vs" and "ms \<noteq> []" and "distinct (map fst vs)"
  shows "json_value (Suc d) (object_text ms) (JObject vs)"
  using jv_object [of "[]" d "members_text [] [] [] ms" vs] members_value [OF assms(1,2), of "[]" "[]" "[]"] assms(3)
  by (simp add: object_text_def)

lemma elements_text_value:
  assumes "list_all2 (json_value d) ts vs" and "ws w" and "ws e"
  shows "json_value (Suc d) (CHR ''['' # elements_text w e ts) (JArray vs)"
proof (cases "ts = []")
  case True
  with assms jv_array0 [of "[]" e d] show ?thesis by simp
next
  case False
  from jv_array [OF _ elements_value [OF assms(1) False assms(2,3)], of "[]"] show ?thesis by simp
qed

lemma array_value: "list_all2 (json_value d) ts vs \<Longrightarrow> json_value (Suc d) (array_text ts) (JArray vs)"
  using elements_text_value [of d ts vs "[]" "[]"] by (simp add: array_text_def)

lemma newline_space: "is_space newline" "is_space CHR '' ''"
  by (simp_all add: is_space_def code_def)

lemma lines_value: "list_all2 (json_value d) ts vs \<Longrightarrow> json_value (Suc d) (lines_text ts) (JArray vs)"
  by (simp add: lines_text_def elements_text_value newline_space)

definition word_json :: "'a::len word \<Rightarrow> json" where
  "word_json w = JNumber (word_text w)"

definition shape_json :: "shape \<Rightarrow> json" where
  "shape_json sh = JArray (map word_json (sh_dimensions sh))"

definition projection_json :: "projection_location \<Rightarrow> json" where
  "projection_json p = JObject
     [(''tensor'', JString (pl_tensorName p)), (''offset'', word_json (pl_offset p)), (''size'', word_json (pl_size p)),
      (''shape'', shape_json (pl_shape p)), (''layout'', JString (layout_toString (pl_layout p)))]"

definition binding_json :: "tensor_binding \<Rightarrow> json" where
  "binding_json b = JObject [(''tensor'', JString (tb_tensorName b)), (''layout'', JString (layout_toString (tb_layout b)))]"

definition capabilities_json :: "model_capabilities \<Rightarrow> json" where
  "capabilities_json c = JObject
     [(''routed_experts'', JBool (cap_routedExperts c)), (''configurable_top_k'', JBool (cap_configurableTopK c)),
      (''normalized_routing'', JBool (cap_normalizedRouting c)), (''gated_expert_mlp'', JBool (cap_gatedExpertMlp c)),
      (''shared_experts'', JBool (cap_sharedExperts c)), (''quantized_expert_weights'', JBool (cap_quantizedExpertWeights c))]"

definition architecture_json :: "float_io \<Rightarrow> runtime_architecture \<Rightarrow> json" where
  "architecture_json f a = JObject
     [(''attention_heads'', word_json (ra_attentionHeads a)), (''key_value_heads'', JString (word_text (ra_keyValueHeads a))),
      (''head_dimension'', JString (word_text (ra_headDimension a))),
      (''projection_head_dimension'', JString (word_text (ra_projectionHeadDimension a))),
      (''vocabulary_size'', JString (word_text (ra_vocabularySize a))),
      (''tied_embeddings'', JString (bool_text (ra_tiedEmbeddings a))),
      (''rope_theta'', JString (fl_print f 6 (ra_ropeTheta a))),
      (''input_norm_epsilon'', JString (fl_print f 6 (nc_epsilon (ra_inputNormalization a)))),
      (''post_attention_norm_epsilon'', JString (fl_print f 6 (nc_epsilon (ra_postAttentionNormalization a)))),
      (''final_norm_epsilon'', JString (fl_print f 6 (nc_epsilon (ra_finalNormalization a))))]"

definition io_json :: "manifest_io \<Rightarrow> json" where
  "io_json i = JObject
     [(''token_embedding'', JString (io_tokenEmbeddingTensor i)), (''final_norm'', JString (io_finalNormTensor i)),
      (''lm_head'', binding_json (io_lmHead i)), (''tied_embeddings'', JBool (io_tiedEmbeddings i))]"

definition router_tensor_json :: "manifest_router_tensor \<Rightarrow> json" where
  "router_tensor_json r = JObject [(''layer_id'', word_json (mrt_layerId r)), (''tensor'', JString (mrt_tensorName r))]"

definition router_json :: "manifest_router \<Rightarrow> json" where
  "router_json r = JObject
     [(''expert_count'', word_json (rc_expertCount (mr_config r))), (''top_k'', word_json (rc_topK (mr_config r))),
      (''normalization'', JString (normalization_toString (rc_normalization (mr_config r)))),
      (''renormalize_selected'', JBool (rc_renormalizeSelected (mr_config r))),
      (''layout'', JString (layout_toString (mr_layout r))), (''tensors'', JArray (map router_tensor_json (mr_tensors r)))]"

definition quantization_json :: "float_io \<Rightarrow> quantization_parameters \<Rightarrow> json" where
  "quantization_json f q = JObject
     [(''scheme'', JString ''PER_TENSOR_AFFINE_INT8''), (''scale'', JNumber (fl_print f 9 (qp_scale q))),
      (''zero_point'', JNumber (int_text (qp_zeroPoint q)))]"

definition tensor_json :: "float_io \<Rightarrow> manifest_tensor \<Rightarrow> json" where
  "tensor_json f v = JObject
     ([(''name'', JString (mt_name v)), (''source_file'', JString (mt_sourceFile v)), (''offset'', word_json (mt_offset v)),
       (''size'', word_json (mt_size v)), (''dtype'', JString (dtype_toString (mt_dtype v))), (''shape'', shape_json (mt_shape v))] @
      (case mt_quantization v of None \<Rightarrow> [] | Some q \<Rightarrow> [(''quantization'', quantization_json f q)]))"

definition expert_json :: "manifest_expert \<Rightarrow> json" where
  "expert_json x = JObject
     [(''layer_id'', word_json (mx_layerId x)), (''expert_id'', word_json (mx_expertId x)),
      (''gate'', projection_json (mx_gate x)), (''up'', projection_json (mx_up x)), (''down'', projection_json (mx_down x))]"

definition layer_json :: "manifest_layer \<Rightarrow> json" where
  "layer_json l = JObject
     [(''layer_id'', word_json (ml_layerId l)), (''q_proj'', binding_json (ml_queryProjection l)),
      (''k_proj'', binding_json (ml_keyProjection l)), (''v_proj'', binding_json (ml_valueProjection l)),
      (''o_proj'', binding_json (ml_outputProjection l)), (''q_norm'', JString (ml_queryNormTensor l)),
      (''k_norm'', JString (ml_keyNormTensor l)), (''input_norm'', JString (ml_inputNormTensor l)),
      (''post_attention_norm'', JString (ml_postAttentionNormTensor l)), (''router'', JString (ml_routerTensor l))]"

definition manifest_json :: "float_io \<Rightarrow> model_manifest \<Rightarrow> json" where
  "manifest_json f m = JObject
     ([(''schema'', JString (mf_schema m)), (''model_name'', JString (mf_modelName m)),
       (''architecture'', JString (architecture_toString (mf_architecture m))),
       (''source_architecture'', JString (mf_sourceArchitecture m)),
       (''layer_count'', word_json (mc_layerCount (mf_config m))), (''parameter_count'', word_json (mf_parameterCount m)),
       (''expert_count'', word_json (mc_expertCount (mf_config m))), (''hidden_size'', word_json (mc_hiddenSize (mf_config m))),
       (''intermediate_size'', word_json (mc_intermediateSize (mf_config m))),
       (''capabilities'', capabilities_json (mc_capabilities (mf_config m)))] @
      (case mf_runtimeArchitecture m of None \<Rightarrow> [] | Some a \<Rightarrow> [(''runtime_architecture'', architecture_json f a)]) @
      (case mf_modelIO m of None \<Rightarrow> [] | Some i \<Rightarrow> [(''model_io'', io_json i)]) @
      [(''router'', router_json (mf_router m)), (''tensors'', JArray (map (tensor_json f) (mf_tensors m))),
       (''experts'', JArray (map expert_json (mf_experts m))), (''layers'', JArray (map layer_json (mf_layers m)))])"

subsection \<open>Each text denotes its value\<close>

lemma member_value: "plain k \<Longrightarrow> json_value d t v \<Longrightarrow> member_means d (k, t) (k, v)"
  by (simp add: member_means_def)

lemma name_value: "json_value (Suc d) (quoted (escapeJson s)) (JString s)"
  by (rule quoted_value) (rule escapeJson_value)

lemma plain_value: "plain s \<Longrightarrow> json_value (Suc d) (quoted s) (JString s)"
  by (rule quoted_value) (rule plain_chars)

lemma word_value: "json_value (Suc d) (word_text w) (word_json w)"
  unfolding word_json_def by (rule number_value) (rule word_text_number)

lemma int_value: "json_value (Suc d) (int_text i) (JNumber (int_text i))"
  by (rule number_value) (rule int_text_number)

lemma list_value: "(\<And>x. x \<in> set xs \<Longrightarrow> json_value d (w x) (j x)) \<Longrightarrow> list_all2 (json_value d) (map w xs) (map j xs)"
  by (simp add: list_all2_conv_all_nth)

lemma plain_words:
  "plain (layout_toString l)" "plain (normalization_toString n)" "plain (architecture_toString a)" "plain (dtype_toString t)"
  "plain (bool_text b)" "plain ''PER_TENSOR_AFFINE_INT8''" "plain schemaVersion" "plain legacySchemaVersion"
  by (auto simp: layout_toString_def normalization_toString_def dtype_toString_def bool_text_def schemaVersion_def
      legacySchemaVersion_def plain_def code_def split: option.splits dtype.splits) (cases a; simp add: code_def)

lemmas text_values = name_value plain_value word_value int_value bool_value plain_words word_text_plain

lemma shape_value: "json_value (Suc (Suc d)) (writeShape sh) (shape_json sh)"
  unfolding writeShape_def shape_json_def by (rule array_value) (rule list_value, rule word_value)

lemma projection_value: "json_value (Suc (Suc (Suc d))) (writeProjection p) (projection_json p)"
  unfolding writeProjection_def projection_json_def
  by (rule object_value) (simp_all add: text_values shape_value member_means_def plain_step code_def)

lemma binding_value: "json_value (Suc (Suc d)) (writeBinding b) (binding_json b)"
  unfolding writeBinding_def binding_json_def
  by (rule object_value) (simp_all add: text_values member_means_def plain_step code_def)

lemmas object_text_values = text_values shape_value projection_value binding_value member_means_def plain_step code_def

lemma capabilities_value: "json_value (Suc (Suc d)) (writeCapabilities c) (capabilities_json c)"
  unfolding writeCapabilities_def capabilities_json_def by (rule object_value) (simp_all add: object_text_values)

lemma io_value: "json_value (Suc (Suc (Suc d))) (writeIO i) (io_json i)"
  unfolding writeIO_def io_json_def by (rule object_value) (simp_all add: object_text_values)

lemma router_tensor_value: "json_value (Suc (Suc d)) (writeRouterTensor r) (router_tensor_json r)"
  unfolding writeRouterTensor_def router_tensor_json_def by (rule object_value) (simp_all add: object_text_values)

lemma router_value: "json_value (Suc (Suc (Suc (Suc d)))) (writeRouter r) (router_json r)"
proof -
  have "json_value (Suc (Suc (Suc d))) (array_text (map writeRouterTensor (mr_tensors r)))
      (JArray (map router_tensor_json (mr_tensors r)))"
    by (rule array_value) (rule list_value, rule router_tensor_value)
  then show ?thesis unfolding writeRouter_def router_json_def by (intro object_value) (simp_all add: object_text_values)
qed

lemma expert_value: "json_value (Suc (Suc (Suc (Suc d)))) (writeExpert x) (expert_json x)"
  unfolding writeExpert_def expert_json_def by (rule object_value) (simp_all add: object_text_values)

lemma layer_value: "json_value (Suc (Suc (Suc d))) (writeLayer l) (layer_json l)"
  unfolding writeLayer_def layer_json_def by (rule object_value) (simp_all add: object_text_values)

text \<open>What a printed number must be: the text of a number that reads back as the value.\<close>

definition prints :: "float_io \<Rightarrow> nat \<Rightarrow> fp \<Rightarrow> bool" where
  "prints f precision x \<longleftrightarrow> json_number (fl_print f precision x) \<and> plain (fl_print f precision x) \<and>
     (\<exists>y. fl_double f (fl_print f precision x) = Some y \<and> fl_narrow f y = x)"

definition architecture_prints :: "float_io \<Rightarrow> runtime_architecture \<Rightarrow> bool" where
  "architecture_prints f a \<longleftrightarrow> prints f 6 (ra_ropeTheta a) \<and> prints f 6 (nc_epsilon (ra_inputNormalization a)) \<and>
     prints f 6 (nc_epsilon (ra_postAttentionNormalization a)) \<and> prints f 6 (nc_epsilon (ra_finalNormalization a))"

definition quantization_prints :: "float_io \<Rightarrow> quantization_parameters \<Rightarrow> bool" where
  "quantization_prints f q \<longleftrightarrow> prints f 9 (qp_scale q) \<and>
     fl_double f (int_text (qp_zeroPoint q)) = Some (Fin (of_int (qp_zeroPoint q)))"

definition manifest_prints :: "float_io \<Rightarrow> model_manifest \<Rightarrow> bool" where
  "manifest_prints f m \<longleftrightarrow> pred_option (architecture_prints f) (mf_runtimeArchitecture m) \<and>
     list_all (\<lambda>v. pred_option (quantization_prints f) (mt_quantization v)) (mf_tensors m)"

lemma architecture_value:
  "architecture_prints f a \<Longrightarrow> json_value (Suc (Suc d)) (writeArchitecture f a) (architecture_json f a)"
  unfolding writeArchitecture_def architecture_json_def
  by (rule object_value) (simp_all add: object_text_values architecture_prints_def prints_def)

lemma quantization_value:
  "quantization_prints f q \<Longrightarrow> json_value (Suc (Suc d)) (writeQuantization f q) (quantization_json f q)"
  unfolding writeQuantization_def quantization_json_def
  by (rule object_value) (simp_all add: object_text_values quantization_prints_def prints_def number_value)

lemma tensor_value:
  assumes "pred_option (quantization_prints f) (mt_quantization v)"
  shows "json_value (Suc (Suc (Suc d))) (writeTensor f v) (tensor_json f v)"
  unfolding writeTensor_def tensor_json_def
  by (rule object_value; cases "mt_quantization v") (use assms in \<open>simp_all add: object_text_values quantization_value\<close>)

lemma toJson_value:
  assumes "manifest_prints f m" and "toJson f m = Inr t"
  shows "\<exists>u. t = u @ [newline] \<and> json_value (Suc (Suc (Suc (Suc (Suc (Suc d)))))) u (manifest_json f m)"
proof -
  from assms(2) have valid: "manifest_validate m = Inr ()" by (simp add: toJson_def)
  then have "check_header m = Inr ()" by (rule validate_parts)
  then have "mf_schema m = schemaVersion \<or> mf_schema m = legacySchemaVersion" by (auto simp: check_header_def Let_def)
  then have schema: "plain (mf_schema m)" using plain_words by metis
  have "json_value (Suc (Suc (Suc (Suc (Suc d))))) (lines_text (map (writeTensor f) (mf_tensors m)))
      (JArray (map (tensor_json f) (mf_tensors m)))"
    by (intro lines_value list_value tensor_value) (use assms(1) in \<open>simp add: manifest_prints_def list_all_iff\<close>)
  moreover have "json_value (Suc (Suc (Suc (Suc (Suc d))))) (lines_text (map writeExpert (mf_experts m)))
      (JArray (map expert_json (mf_experts m)))" by (intro lines_value list_value expert_value)
  moreover have "json_value (Suc (Suc (Suc (Suc (Suc d))))) (lines_text (map writeLayer (mf_layers m)))
      (JArray (map layer_json (mf_layers m)))" by (intro lines_value list_value layer_value)
  moreover note schema assms(1)
  ultimately have all: "list_all2 (member_means (Suc (Suc (Suc (Suc (Suc d)))))) (manifest_members f m) ms"
    if "manifest_json f m = JObject ms" for ms
    using that unfolding manifest_members_def manifest_json_def
    by (cases "mf_runtimeArchitecture m"; cases "mf_modelIO m")
      (auto simp: object_text_values capabilities_value io_value router_value architecture_value manifest_prints_def)
  obtain ms where ms: "manifest_json f m = JObject ms" "distinct (map fst ms)"
    unfolding manifest_json_def by (cases "mf_runtimeArchitecture m"; cases "mf_modelIO m") simp_all
  let ?u = "CHR ''{'' # members_text (newline # ''  '') '' '' [newline] (manifest_members f m)"
  have "manifest_members f m \<noteq> []" by (simp add: manifest_members_def)
  from jv_object [OF _ members_value [OF all [OF ms(1)] this], of "[]" "newline # ''  ''" "'' ''" "[newline]"] ms
  have "json_value (Suc (Suc (Suc (Suc (Suc (Suc d)))))) ?u (manifest_json f m)" by (simp add: newline_space)
  moreover from assms(2) have "t = ?u @ [newline]" by (simp add: toJson_def root_text_def)
  ultimately show ?thesis by blast
qed

section \<open>Reading the value back\<close>

lemma field_object: "field (JObject ms) k conv = (case map_of ms k of
    None \<Rightarrow> Inl (MetadataError (''missing JSON field: '' @ k)) | Some v \<Rightarrow> conv v)"
  by (simp add: field_def js_require_def split: option.split)

lemma field_or_object: "field_or (JObject ms) k missing conv = (case map_of ms k of None \<Rightarrow> Inr missing | Some v \<Rightarrow> conv v)"
  by (simp add: field_or_def)

lemma word_reads:
  "asUInt64 (word_json (w :: u64)) = Inr w" "asSize (word_json (w :: u64)) fld = Inr w" "asSize (JString (word_text (w :: u64))) fld = Inr w"
  using unsigned_less [of w, where ?'a = nat] by (simp_all add: word_json_def asSize_def parseUnsigned_def)

lemma id_reads: "asId (word_json (w :: u32)) fld = Inr w"
proof -
  have less: "unat w < 2 ^ 32" using unsigned_less [of w, where ?'a = nat] by simp
  then have "unat w < 2 ^ 64" by simp
  then have read: "asUInt64 (word_json w) = Inr (of_nat (unat w))" by (simp add: word_json_def parseUnsigned_def)
  have "unat (of_nat (unat w) :: u64) = unat w" by (rule unat_of_nat_u64) (rule \<open>unat w < 2 ^ 64\<close>)
  then have "\<not> (of_nat (unat w) :: u64) > 0xFFFFFFFF" using less by (simp add: word_less_nat_alt)
  moreover have "(ucast (of_nat (unat w) :: u64) :: u32) = w" by simp (rule bit_word_eqI, simp add: bit_simps)
  ultimately show ?thesis by (simp add: asId_def read)
qed

lemma float_reads: "prints f n x \<Longrightarrow> asFloat f (JString (fl_print f n x)) = Inr x" "prints f n x \<Longrightarrow> asFloat f (JNumber (fl_print f n x)) = Inr x"
  by (auto simp: prints_def asFloat_def asDouble_def)

lemma bool_reads: "asBool (JString (bool_text b)) = Inr b"
  by (simp add: bool_text_def)

lemma layout_reads: "layout_isValid l \<Longrightarrow> parseLayout (layout_toString l) = Inr l"
  by (auto simp: layout_isValid_def layout_toString_def parseLayout_def)

lemma dtype_reads: "dtype_isValid d \<Longrightarrow> parseDType (dtype_toString d) = Inr d"
  by (auto simp: dtype_isValid_def dtype_toString_def parseDType_def dest!: dtype_of_Some split: option.splits dtype.splits)

lemma normalization_reads:
  "n = normalization_None \<or> n = normalization_Softmax \<Longrightarrow> asNormalization (JString (normalization_toString n)) = Inr n"
  by (auto simp: asNormalization_def normalization_toString_def)

lemma architecture_reads: "parseArchitecture (architecture_toString a) = Inr a"
  by (cases a) (simp_all add: parseArchitecture_def)

definition shape_plain :: "shape \<Rightarrow> bool" where
  "shape_plain sh \<longleftrightarrow> sh_dimensions sh \<noteq> [] \<and> shape_make (sh_dimensions sh) = Inr sh"

lemma shape_make_plain: "shape_make ds = Inr sh \<Longrightarrow> ds \<noteq> [] \<Longrightarrow> shape_plain sh"
  by (auto simp: shape_plain_def shape_make_def bindr_eq_Inr)

lemma shape_reads: "shape_plain sh \<Longrightarrow> parseShape (shape_json sh) = Inr sh"
  by (simp add: shape_plain_def parseShape_def shape_json_def mapr_map word_reads)

lemmas reads_back = field_object field_or_object word_reads id_reads bool_reads layout_reads asLayout_def

lemma projection_reads:
  assumes "layout_isValid (pl_layout p)" and "shape_plain (pl_shape p)"
  shows "parseProjection (projection_json p) = Inr p"
  using assms by (simp add: parseProjection_def projection_json_def reads_back shape_reads)

lemma binding_reads: "layout_isValid (tb_layout b) \<Longrightarrow> parseBinding (binding_json b) = Inr b"
  by (simp add: parseBinding_def binding_json_def reads_back)

lemma capabilities_reads: "parseCapabilities (capabilities_json c) = Inr c"
  by (simp add: parseCapabilities_def capabilities_json_def reads_back)

lemma io_reads: "layout_isValid (tb_layout (io_lmHead i)) \<Longrightarrow> parseIO (io_json i) = Inr i"
  by (simp add: parseIO_def io_json_def reads_back binding_reads)

lemma router_tensor_reads: "parseRouterTensor (router_tensor_json r) = Inr r"
  by (simp add: parseRouterTensor_def router_tensor_json_def reads_back)

lemma expert_reads:
  assumes "list_all (\<lambda>p. layout_isValid (pl_layout p) \<and> shape_plain (pl_shape p)) [mx_gate x, mx_up x, mx_down x]"
  shows "parseExpert (expert_json x) = Inr x"
  using assms by (simp add: parseExpert_def expert_json_def reads_back projection_reads)

lemma layer_reads:
  assumes "list_all (\<lambda>b. layout_isValid (tb_layout b)) [ml_queryProjection l, ml_keyProjection l, ml_valueProjection l, ml_outputProjection l]"
  shows "parseLayer (layer_json l) = Inr l"
  using assms by (simp add: parseLayer_def layer_json_def reads_back binding_reads)

lemma router_reads:
  assumes "layout_isValid (mr_layout r)" and "router_config_validate (mr_config r) = Inr ()"
  shows "parseRouter (router_json r) = Inr (mr_config r, mr_layout r)"
  using assms by (simp add: parseRouter_def router_json_def reads_back normalization_reads router_config_validate_def)

lemma zero_point_reads:
  assumes "-128 \<le> i" and "i \<le> 127" and "fl_double f (int_text i) = Some (Fin (of_int i))"
  shows "asInt32 f (JNumber (int_text i)) fld = Inr i"
  using assms by (simp add: asInt32_def asDouble_def Let_def)

lemma quantization_reads:
  assumes "validateParameters quantized_INT8 q = Inr ()" and "quantization_prints f q"
  shows "parseQuantization f (quantization_json f q) = Inr q"
  using assms zero_point_reads [of "qp_zeroPoint q" f]
  by (simp add: parseQuantization_def quantization_json_def reads_back float_reads quantization_prints_def validateParameters_def not_less)

section \<open>What validation gives the reader\<close>

lemma projection_valid:
  assumes "check_projection c B p down = Inr ()"
  shows "layout_isValid (pl_layout p) \<and> shape_plain (pl_shape p)"
proof -
  from assms have "layout_isValid (pl_layout p)" by (simp add: check_projection_def)
  moreover from assms obtain ds where "shape_make ds = Inr (pl_shape p)" "ds \<noteq> []"
    by (auto simp: check_projection_def shape_is_Inr split: option.splits if_splits)
  ultimately show ?thesis by (simp add: shape_make_plain)
qed

lemma binding_valid: "check_binding B b ds = Inr () \<Longrightarrow> layout_isValid (tb_layout b)"
  by (auto simp: check_binding_def bindr_eq_Inr)

lemma layer_valid:
  "check_layer m a B l = Inr () \<Longrightarrow>
    list_all (\<lambda>b. layout_isValid (tb_layout b)) [ml_queryProjection l, ml_keyProjection l, ml_valueProjection l, ml_outputProjection l]"
  by (auto simp: check_layer_def Let_def dest: binding_valid)

lemma layer_list_valid: "check_layer_list m a B seen ls = Inr () \<Longrightarrow> l \<in> set ls \<Longrightarrow> check_layer m a B l = Inr ()"
  by (induction m a B seen ls rule: check_layer_list.induct) auto

lemma layers_valid: "check_layers m B = Inr () \<Longrightarrow> l \<in> set (mf_layers m) \<Longrightarrow> parseLayer (layer_json l) = Inr l"
  by (auto simp: check_layers_def split: if_splits option.splits intro!: layer_reads layer_valid dest: layer_list_valid)

lemma io_valid: "check_io m B = Inr () \<Longrightarrow> mf_modelIO m = Some i \<Longrightarrow> layout_isValid (tb_layout (io_lmHead i))"
  by (auto simp: check_io_def split: option.splits)

lemma tensor_reads:
  assumes "check_tensor v = Inr ()" and "shape_plain (mt_shape v)" and "pred_option (quantization_prints f) (mt_quantization v)"
  shows "parseTensor f (tensor_json f v) = Inr v"
proof -
  from assms(1) have "dtype_isValid (mt_dtype v)"
    by (auto simp: check_tensor_def bindr_eq_Inr dest: manifest_requiredBytes_Inr)
  with assms(2) have "parseTensor f (tensor_json f v) = Inr v" if "mt_quantization v = None"
    using that by (simp add: parseTensor_def tensor_json_def reads_back shape_reads dtype_reads)
  moreover have "parseTensor f (tensor_json f v) = Inr v" if q: "mt_quantization v = Some q" for q
  proof -
    from assms(1) q have "validateParameters quantized_INT8 q = Inr ()" by (simp add: check_tensor_def split: if_splits)
    from quantization_reads [OF this] assms(3) q have "parseQuantization f (quantization_json f q) = Inr q" by simp
    with q assms(2) \<open>dtype_isValid (mt_dtype v)\<close> show ?thesis
      by (simp add: parseTensor_def tensor_json_def reads_back shape_reads dtype_reads)
  qed
  ultimately show ?thesis by (cases "mt_quantization v") simp_all
qed

lemma runtime_reads:
  assumes "architecture_validate a = Inr ()" and "architecture_prints f a"
    and "ra_layerCount a = mc_layerCount c" and "ra_hiddenDimension a = mc_hiddenSize c"
    and "ra_expertCount a = mc_expertCount c" and "ra_topK a = rc_topK rc"
  shows "parseRuntime f c rc (architecture_json f a) = Inr a"
proof -
  have n: "normalization_default (nc_epsilon n) = n" if "normalization_validate n = Inr ()" for n
    using that by (cases n) (simp add: normalization_default_def normalization_validate_def)
  from assms(1) have "normalization_validate (ra_inputNormalization a) = Inr ()"
    "normalization_validate (ra_postAttentionNormalization a) = Inr ()" "normalization_validate (ra_finalNormalization a) = Inr ()"
    by (simp_all add: architecture_validate_def)
  with assms(2-) show ?thesis
    by (cases a) (simp add: parseRuntime_def architecture_json_def reads_back float_reads architecture_prints_def bool_text_def n)
qed

lemma header_valid:
  assumes "check_header m = Inr ()"
  shows "router_config_validate (mr_config (mf_router m)) = Inr ()" and "layout_isValid (mr_layout (mf_router m))"
    and "\<And>a. mf_runtimeArchitecture m = Some a \<Longrightarrow> architecture_validate a = Inr () \<and>
      ra_layerCount a = mc_layerCount (mf_config m) \<and> ra_hiddenDimension a = mc_hiddenSize (mf_config m) \<and>
      ra_expertCount a = mc_expertCount (mf_config m) \<and> ra_topK a = rc_topK (mr_config (mf_router m))"
  using assms by (auto simp: check_header_def Let_def)

lemma list_reads: "(\<And>x. x \<in> set xs \<Longrightarrow> conv (j x) = Inr x) \<Longrightarrow> each_of conv (JArray (map j xs)) = Inr xs"
  by (simp add: each_of_def mapr_map)

lemma config_reads:
  assumes "manifest_json f m = JObject ms" and "mc_modelName (mf_config m) = mf_modelName m"
  shows "load_config (JObject ms) (mf_modelName m) = Inr (mf_config m)"
  using assms(2) assms(1) [symmetric] unfolding manifest_json_def
  by (cases "mf_config m") (simp add: load_config_def reads_back capabilities_reads)

lemma manifest_lookups:
  assumes "manifest_json f m = JObject ms"
  shows "map_of ms ''schema'' = Some (JString (mf_schema m))" "map_of ms ''model_name'' = Some (JString (mf_modelName m))"
    "map_of ms ''architecture'' = Some (JString (architecture_toString (mf_architecture m)))"
    "map_of ms ''source_architecture'' = Some (JString (mf_sourceArchitecture m))"
    "map_of ms ''parameter_count'' = Some (word_json (mf_parameterCount m))"
    "map_of ms ''runtime_architecture'' = map_option (architecture_json f) (mf_runtimeArchitecture m)"
    "map_of ms ''model_io'' = map_option io_json (mf_modelIO m)" "map_of ms ''router'' = Some (router_json (mf_router m))"
    "map_of ms ''tensors'' = Some (JArray (map (tensor_json f) (mf_tensors m)))"
    "map_of ms ''experts'' = Some (JArray (map expert_json (mf_experts m)))"
    "map_of ms ''layers'' = Some (JArray (map layer_json (mf_layers m)))"
  using assms [symmetric] unfolding manifest_json_def
  by (cases "mf_runtimeArchitecture m"; cases "mf_modelIO m"; simp)+

lemma manifest_reads:
  assumes "manifest_validate m = Inr ()" and "mc_modelName (mf_config m) = mf_modelName m"
    and "list_all (\<lambda>v. shape_plain (mt_shape v)) (mf_tensors m)" and "manifest_prints f m"
  shows "manifest_of_json f (manifest_json f m) = Inr m"
proof -
  from assms(1) obtain B where head: "check_header m = Inr ()" and B: "check_tensors Map.empty (mf_tensors m) = Inr B"
    and layers: "check_layers m B = Inr ()" and io: "check_io m B = Inr ()" by (rule validate_parts)
  obtain ms where ms: "manifest_json f m = JObject ms" by (simp add: manifest_json_def)
  have router: "parseRouter (router_json (mf_router m)) = Inr (mr_config (mf_router m), mr_layout (mf_router m))"
    using header_valid(1,2) [OF head] by (simp add: router_reads)
  have runtime: "parseRuntime f (mf_config m) (mr_config (mf_router m)) (architecture_json f a) = Inr a"
    if "mf_runtimeArchitecture m = Some a" for a
    using header_valid(3) [OF head that] assms(4) that by (intro runtime_reads) (simp_all add: manifest_prints_def)
  have io': "parseIO (io_json i) = Inr i" if "mf_modelIO m = Some i" for i
    using io_valid [OF io that] by (rule io_reads)
  have routers: "field (router_json (mf_router m)) ''tensors'' (each_of parseRouterTensor) = Inr (mr_tensors (mf_router m))"
    by (simp add: router_json_def reads_back list_reads router_tensor_reads)
  have tensors: "each_of (parseTensor f) (JArray (map (tensor_json f) (mf_tensors m))) = Inr (mf_tensors m)"
    using check_tensors_Inr [OF B] assms(3,4) by (intro list_reads tensor_reads) (auto simp: list_all_iff manifest_prints_def)
  have experts: "each_of parseExpert (JArray (map expert_json (mf_experts m))) = Inr (mf_experts m)"
    using validate_experts(2) [OF assms(1)] by (intro list_reads expert_reads) (auto simp: expert_ok_def dest: projection_valid)
  have layers': "each_of parseLayer (JArray (map layer_json (mf_layers m))) = Inr (mf_layers m)"
    using layers_valid [OF layers] by (intro list_reads)
  note config = config_reads [OF ms assms(2)]
  have router_value': "js_require (JObject ms) ''router'' = Inr (router_json (mf_router m))"
    by (simp add: js_require_def manifest_lookups [OF ms])
  have same: "\<lparr>mf_schema = mf_schema m, mf_modelName = mf_modelName m, mf_architecture = mf_architecture m,
      mf_sourceArchitecture = mf_sourceArchitecture m, mf_parameterCount = mf_parameterCount m, mf_config = mf_config m,
      mf_runtimeArchitecture = ra, mf_router = \<lparr>mr_config = mr_config (mf_router m), mr_tensors = mr_tensors (mf_router m),
      mr_layout = mr_layout (mf_router m)\<rparr>, mf_tensors = mf_tensors m, mf_experts = mf_experts m, mf_layers = mf_layers m,
      mf_modelIO = mio\<rparr> = m" if "mf_runtimeArchitecture m = ra" and "mf_modelIO m = mio" for ra mio
    using that by (cases m) simp
  show ?thesis
    using assms(1) unfolding manifest_of_json_def ms
    by (cases "mf_runtimeArchitecture m"; cases "mf_modelIO m")
      (simp_all add: field_object field_or_object manifest_lookups [OF ms] architecture_reads word_reads config router_value'
        router runtime io' routers tensors experts layers' same Let_def)
qed

section \<open>The properties\<close>

lemma depth_levels: "jsonDepth = Suc (Suc (Suc (Suc (Suc (Suc 123)))))"
  by (simp add: jsonDepth_def)

lemma toJson_parses:
  assumes "manifest_prints f m" and "toJson f m = Inr t"
  shows "parseJson t = Inr (manifest_json f m)"
proof -
  from toJson_value [OF assms, of 123] obtain u where "t = u @ [newline]" "json_value jsonDepth u (manifest_json f m)"
    by (auto simp: depth_levels)
  moreover have "ws [newline]" by (simp add: newline_space)
  ultimately show ?thesis using parseJson_exact by blast
qed

text \<open>C15: what \<open>save\<close> writes to a path that is not empty, \<open>load\<close> reads back unchanged: for every manifest that validates, whose tensors are
  contiguous with at least one dimension, whose configuration has the model's name, whose floats print
  as numbers that read back, and whose text fits the limit of 64 MiB, all of identity, dimensions,
  capabilities, runtime architecture, input and output tensors, router, tensors, experts and layers survive, with
  any bytes in the names.\<close>

theorem manifest_save_load:
  assumes "toJson f m = Inr t" and "length t \<le> manifest_size_limit" and "path \<noteq> []"
    and "mc_modelName (mf_config m) = mf_modelName m" and "list_all (\<lambda>v. shape_plain (mt_shape v)) (mf_tensors m)"
    and "manifest_prints f m"
  shows "manifest_save f (Inr ()) True (length t) False path m files = (Inr (), files(path \<mapsto> t)) \<and>
    manifest_load f path (files(path \<mapsto> t)) = Inr m"
proof
  show "manifest_save f (Inr ()) True (length t) False path m files = (Inr (), files(path \<mapsto> t))"
    using assms(1,3) by (simp add: manifest_save_def guard_runs)
  have "manifest_validate m = Inr ()" using assms(1) by (simp add: toJson_def)
  from manifest_reads [OF this assms(4,5,6)] toJson_parses [OF assms(6,1)] assms(2)
  show "manifest_load f path (files(path \<mapsto> t)) = Inr m" by (simp add: manifest_load_def parseJsonFile_def)
qed

text \<open>C32: \<open>save\<close> opens, and so empties, the file before it validates the manifest: saving an invalid
  manifest over a good one reports the error and leaves a file that no longer loads.\<close>

theorem manifest_save_invalid_destroys:
  assumes "manifest_validate m = Inl e" and "path \<noteq> []"
  shows "manifest_save f (Inr ()) True n failed path m files = (Inl e, files(path \<mapsto> [])) \<and>
    (\<exists>message. manifest_load f path (files(path \<mapsto> [])) = Inl (MetadataError message))"
proof
  show "manifest_save f (Inr ()) True n failed path m files = (Inl e, files(path \<mapsto> []))"
    using assms by (simp add: manifest_save_def toJson_def andthen_def guard_runs)
  have "parseJson [] \<noteq> Inr v" for v using parseJson_exact [of "[]" v] value_start [of jsonDepth "[]" v] by auto
  with parseJson_answers [of "[]"] obtain message where "parseJson [] = Inl (MetadataError message)" by blast
  then show "\<exists>message. manifest_load f path (files(path \<mapsto> [])) = Inl (MetadataError message)"
    by (simp add: manifest_load_def parseJsonFile_def)
qed

section \<open>A manifest with floats\<close>

text \<open>Numbers printed and read as whole numbers, and a quantized manifest with an architecture whose
  floats are whole.\<close>

definition whole_io :: float_io where
  "whole_io = \<lparr> fl_double = (\<lambda>t. if t \<noteq> [] \<and> list_all is_digit t then Some (Fin (of_nat (decimal t))) else None),
     fl_narrow = (\<lambda>x. x), fl_print = (\<lambda>_ x. to_string (nat \<lfloor>fp_value x\<rfloor>)), fl_epsilon = Fin 0 \<rparr>"

lemma whole_prints: "prints whole_io n (Fin (of_nat k))"
  using to_string_decimal [of k] to_string_nonempty [of k]
  by (simp add: prints_def whole_io_def to_string_number digits_plain)

definition quantized_tensor :: manifest_tensor where
  "quantized_tensor = \<lparr> mt_name = ''experts'', mt_sourceFile = [quote, newline], mt_offset = 0, mt_size = 3, mt_dtype = dtype_code INT8,
     mt_shape = \<lparr> sh_dimensions = [3], sh_strides = [1], sh_elementCount = 3, sh_storageElementCount = 3 \<rparr>,
     mt_quantization = Some \<lparr> qp_scale = Fin 1, qp_zeroPoint = 0 \<rparr> \<rparr>"

definition whole_architecture :: runtime_architecture where
  "whole_architecture = (let unit_norm = \<lparr> nc_kind = norm_RMSNorm, nc_epsilon = Fin 1 \<rparr> in
     \<lparr> ra_layerCount = 1, ra_hiddenDimension = 1, ra_attentionHeads = 2, ra_keyValueHeads = 1,
       ra_headDimension = 2, ra_projectionHeadDimension = 2, ra_expertCount = 1, ra_topK = 1, ra_vocabularySize = 7,
       ra_tiedEmbeddings = True, ra_ropeTheta = Fin 10000, ra_inputNormalization = unit_norm,
       ra_postAttentionNormalization = unit_norm, ra_finalNormalization = unit_norm \<rparr>)"

definition byte_projection :: "u64 \<Rightarrow> projection_location" where
  "byte_projection n = \<lparr> pl_tensorName = ''experts'', pl_offset = n, pl_size = 1, pl_shape = unit_shape, pl_layout = layout_OutputInput \<rparr>"

definition quantized_manifest :: model_manifest where
  "quantized_manifest = unit_manifest\<lparr>
     mf_config := (mf_config unit_manifest)\<lparr> mc_capabilities := (mc_capabilities (mf_config unit_manifest))\<lparr> cap_quantizedExpertWeights := True \<rparr> \<rparr>,
     mf_runtimeArchitecture := Some whole_architecture,
     mf_tensors := [hd (mf_tensors unit_manifest), quantized_tensor],
     mf_experts := [\<lparr> mx_layerId = 0, mx_expertId = 0, mx_gate = byte_projection 0, mx_up = byte_projection 1,
       mx_down = byte_projection 2 \<rparr>] \<rparr>"

lemma quantized_manifest_valid: "manifest_validate quantized_manifest = Inr ()"
  by code_simp

lemma whole_architecture_text: "length (writeArchitecture whole_io whole_architecture) \<le> 400"
  by (simp add: writeArchitecture_def whole_architecture_def whole_io_def object_text_def quoted_def bool_text_def
      word_text_def to_string.simps Let_def)

lemma quantized_tensor_text: "length (writeTensor whole_io quantized_tensor) \<le> 400"
  by (simp add: writeTensor_def quantized_tensor_def writeQuantization_def writeShape_def whole_io_def object_text_def array_text_def
      quoted_def word_text_def int_text_def escapeJson_def escape_char_def code_def dtype_toString_def dtype_of_def to_string.simps)

lemma quantized_manifest_parts:
  "mf_runtimeArchitecture quantized_manifest = Some whole_architecture" "mf_modelIO quantized_manifest = None"
  "mf_layers quantized_manifest = []"
  "map (writeTensor whole_io) (mf_tensors quantized_manifest) =
     [writeTensor whole_io (hd (mf_tensors unit_manifest)), writeTensor whole_io quantized_tensor]"
  by (simp_all add: quantized_manifest_def unit_manifest_def)

lemma quantized_manifest_lengths:
  "length (writeTensor whole_io (hd (mf_tensors unit_manifest))) \<le> 400 \<and>
   length (writeCapabilities (mc_capabilities (mf_config quantized_manifest))) \<le> 400 \<and>
   length (writeRouter (mf_router quantized_manifest)) \<le> 400 \<and>
   length (lines_text (map writeExpert (mf_experts quantized_manifest))) \<le> 800 \<and>
   length (word_text (mc_layerCount (mf_config quantized_manifest))) \<le> 20 \<and>
   length (word_text (mc_expertCount (mf_config quantized_manifest))) \<le> 20 \<and>
   length (word_text (mc_hiddenSize (mf_config quantized_manifest))) \<le> 20 \<and>
   length (word_text (mc_intermediateSize (mf_config quantized_manifest))) \<le> 20 \<and>
   length (word_text (mf_parameterCount quantized_manifest)) \<le> 20 \<and>
   length (mf_schema quantized_manifest) \<le> 40 \<and>
   length (escapeJson (mf_modelName quantized_manifest)) \<le> 40 \<and>
   length (escapeJson (mf_sourceArchitecture quantized_manifest)) \<le> 40 \<and>
   length (architecture_toString (mf_architecture quantized_manifest)) \<le> 40"
  by code_simp

lemma quantized_manifest_text: "length (root_text (manifest_members whole_io quantized_manifest)) \<le> manifest_size_limit"
  using whole_architecture_text quantized_tensor_text quantized_manifest_lengths
  by (simp add: manifest_members_def root_text_def quantized_manifest_parts quoted_def lines_text_def manifest_size_limit_def)

text \<open>The quantized manifest, with a quotation mark and a line break in a path, comes back unchanged.\<close>

theorem manifest_save_load_witness:
  "manifest_load whole_io ''m'' [''m'' \<mapsto> root_text (manifest_members whole_io quantized_manifest)] = Inr quantized_manifest"
proof -
  have t: "toJson whole_io quantized_manifest = Inr (root_text (manifest_members whole_io quantized_manifest))"
    by (simp add: toJson_def quantized_manifest_valid andthen_def)
  have whole: "prints whole_io n (Fin 1)" "prints whole_io n (Fin 10000)" for n
    using whole_prints [of n 1] whole_prints [of n 10000] by simp_all
  have "fl_double whole_io (int_text 0) = Some (Fin 0)"
    by (simp add: whole_io_def int_text_def to_string.simps decimal_def code_def is_digit_def)
  with whole have "manifest_prints whole_io quantized_manifest"
    by (simp add: manifest_prints_def quantized_manifest_def unit_manifest_def Let_def architecture_prints_def quantization_prints_def
        whole_architecture_def quantized_tensor_def)
  moreover have "list_all (\<lambda>v. shape_plain (mt_shape v)) (mf_tensors quantized_manifest)" by code_simp
  moreover have "mc_modelName (mf_config quantized_manifest) = mf_modelName quantized_manifest" by code_simp
  ultimately show ?thesis using manifest_save_load [OF t quantized_manifest_text, of "''m''" Map.empty] by simp
qed

theorem manifest_save_invalid_destroys_witness:
  "manifest_save whole_io (Inr ()) True 9 False ''m'' (unit_manifest\<lparr> mf_experts := [] \<rparr>) [''m'' \<mapsto> ''good''] =
     (Inl (InvalidArgument ''manifest must contain router and expert tensors''), [''m'' \<mapsto> []])"
proof -
  have "manifest_validate (unit_manifest\<lparr> mf_experts := [] \<rparr>) =
      Inl (InvalidArgument ''manifest must contain router and expert tensors'')" by code_simp
  from manifest_save_invalid_destroys [OF this, of "''m''" whole_io 9 False "[''m'' \<mapsto> ''good'']"] show ?thesis by simp
qed

end
