(* ===== verification/KV_Cache.thy ===== *)
theory KV_Cache
  imports Tensor
begin

text \<open>
  \<^verbatim>\<open>src/runtime/cache/KVCache.cpp\<close>: the keys and values of the tokens of one session, per layer. A
  vector of floats is the list of its bytes, four for each float; \<open>mem\<close> is the memory the
  views point into. The specification is a log: for each layer the list of the rows of its tokens. The
  lemmas show that the cache refines the log and that its memory stays within
  the bound the constructor computes without wrap-around.
\<close>

section \<open>Sizes\<close>

text \<open>The result is \<open>None\<close> where the code divides by zero.\<close>

definition checkedCacheBytes :: "u64 \<Rightarrow> u64 \<Rightarrow> u64 \<Rightarrow> u64 \<Rightarrow> (exn + u64) option" where
  "checkedCacheBytes l s h d =
     (if l = 0 \<or> s = 0 \<or> h = 0 \<or> d = 0 \<or> h > u64_max div d
      then Some (Inl (InvalidArgument ''KV cache dimensions must be nonzero''))
      else let values = h * d in
        if values > u64_max div 8
        then Some (Inl (OverflowError ''KV cache per-token storage overflows''))
        else let perToken = 8 + 2 * values * 4 in
          if perToken = 0 then None
          else if s > u64_max div perToken \<or> l > u64_max div (s * perToken)
          then Some (Inl (OverflowError ''KV cache maximum storage overflows''))
          else Some (Inr (l * s * perToken)))"

section \<open>The cache\<close>

record kv_layer =
  ly_positions :: "u64 list"
  ly_keys :: "u8 list"
  ly_values :: "u8 list"

record kv_cache =
  kc_layers :: "kv_layer list"
  kc_maximum :: u64
  kc_heads :: u64
  kc_dimension :: u64

record kv_snapshot =
  sn_positions :: "u64 list"
  sn_keys :: "u8 list"
  sn_values :: "u8 list"
  sn_heads :: u64
  sn_dimension :: u64

definition layer_empty :: kv_layer where
  "layer_empty = \<lparr> ly_positions = [], ly_keys = [], ly_values = [] \<rparr>"

definition kv_make :: "u64 \<Rightarrow> u64 \<Rightarrow> u64 \<Rightarrow> u64 \<Rightarrow> (exn + kv_cache) option" where
  "kv_make l s h d = map_option (\<lambda>r. bindr r (\<lambda>_. Inr
     \<lparr> kc_layers = replicate (unat l) layer_empty, kc_maximum = s, kc_heads = h, kc_dimension = d \<rparr>))
     (checkedCacheBytes l s h d)"

text \<open>\<open>memcpy\<close> of what the memory holds at a pointer over the bytes of a vector from an offset.\<close>

definition mem_read :: "(u64 \<Rightarrow> u8) \<Rightarrow> u64 \<Rightarrow> u64 \<Rightarrow> u8 list" where
  "mem_read mem p n = map (\<lambda>i. mem (p + of_nat i)) [0..<unat n]"

definition overwrite :: "nat \<Rightarrow> 'a list \<Rightarrow> 'a list \<Rightarrow> 'a list" where
  "overwrite off src buf = take off buf @ src @ drop (off + length src) buf"

definition float_resize :: "u64 \<Rightarrow> u8 list \<Rightarrow> u8 list" where
  "float_resize n buf = take (4 * unat n) buf @ replicate (4 * unat n - length buf) 0"

definition float_count :: "u8 list \<Rightarrow> u64" where
  "float_count buf = of_nat (length buf div 4)"

definition kv_views_ok :: "nat set \<Rightarrow> kv_cache \<Rightarrow> u64 \<Rightarrow> tensor_view \<Rightarrow> tensor_view \<Rightarrow> bool" where
  "kv_views_ok alive c layer k v \<longleftrightarrow> \<not> (view_lockOwner alive k = None \<or> view_lockOwner alive v = None \<or>
     unat layer \<ge> length (kc_layers c) \<or> \<not> view_valid alive k \<or> \<not> view_valid alive v \<or>
     tv_device k \<noteq> device_cpu \<or> tv_device v \<noteq> device_cpu \<or>
     tv_dtype k \<noteq> dtype_code FP32 \<or> tv_dtype v \<noteq> dtype_code FP32 \<or>
     \<not> isContiguous (tv_shape k) \<or> \<not> isContiguous (tv_shape v) \<or> tv_shape k \<noteq> tv_shape v \<or>
     sh_rank (tv_shape k) \<noteq> 3)"

definition kv_append ::
  "(u64 \<Rightarrow> u8) \<Rightarrow> nat set \<Rightarrow> u64 \<Rightarrow> u64 \<Rightarrow> tensor_view \<Rightarrow> tensor_view \<Rightarrow> (kv_cache, unit) prog" where
  "kv_append mem alive layer firstPosition k v =
     bindp (gets (\<lambda>c. kv_views_ok alive c layer k v)) (\<lambda>ok.
     thenp (require ok (InvalidArgument ''KV cache append requires matching CPU FP32 tensors''))
    (let dimensions = sh_dimensions (tv_shape k) in
     bindp (gets (\<lambda>c. \<not> (dimensions ! 0 = 0 \<or> dimensions ! 1 \<noteq> kc_heads c \<or> dimensions ! 2 \<noteq> kc_dimension c))) (\<lambda>ok.
     thenp (require ok (InvalidArgument ''KV cache tensor shape is incompatible''))
    (bindp (gets (\<lambda>c. kc_layers c ! unat layer)) (\<lambda>ly.
     bindp (gets kc_maximum) (\<lambda>maximum.
     let positionCount = of_nat (length (ly_positions ly)); oldSize = float_count (ly_keys ly);
         appended = sh_elementCount (tv_shape k); newSize = oldSize + appended in
     thenp (require (\<not> (firstPosition \<noteq> positionCount \<or> dimensions ! 0 > maximum - positionCount))
       (InvalidArgument ''KV cache append must be contiguous and within sequence capacity''))
    (thenp (require (\<not> oldSize > u64_max - appended) (OverflowError ''KV cache element count overflows''))
    (modify (\<lambda>c. c\<lparr> kc_layers := (kc_layers c)[unat layer := \<lparr>
       ly_positions = ly_positions ly @ map (\<lambda>t. firstPosition + of_nat t) [0..<unat (dimensions ! 0)],
       ly_keys = overwrite (4 * unat oldSize) (mem_read mem (view_data alive k) (tv_bytes k))
                   (float_resize newSize (ly_keys ly)),
       ly_values = overwrite (4 * unat oldSize) (mem_read mem (view_data alive v) (tv_bytes v))
                   (float_resize newSize (ly_values ly)) \<rparr>] \<rparr>)))))))))"

definition kv_in_range :: "u64 \<Rightarrow> (kv_cache, unit) prog" where
  "kv_in_range layer = bindp (gets (\<lambda>c. unat layer < length (kc_layers c))) (\<lambda>ok.
     require ok (OutOfRange ''KV cache layer is invalid''))"

definition kv_snapshot_of :: "u64 \<Rightarrow> (kv_cache, kv_snapshot) prog" where
  "kv_snapshot_of layer = thenp (kv_in_range layer) (gets (\<lambda>c.
     let ly = kc_layers c ! unat layer in
     \<lparr> sn_positions = ly_positions ly, sn_keys = ly_keys ly, sn_values = ly_values ly,
       sn_heads = kc_heads c, sn_dimension = kc_dimension c \<rparr>))"

definition sn_tokenCount :: "kv_snapshot \<Rightarrow> u64" where
  "sn_tokenCount n = of_nat (length (sn_positions n))"

definition kv_tokenCount :: "u64 \<Rightarrow> (kv_cache, u64) prog" where
  "kv_tokenCount layer = thenp (kv_in_range layer) (gets (\<lambda>c. of_nat (length (ly_positions (kc_layers c ! unat layer)))))"

definition kv_memoryUsageBytes :: "kv_cache \<Rightarrow> u64" where
  "kv_memoryUsageBytes c = foldl (\<lambda>result ly.
     result + of_nat (length (ly_positions ly)) * 8 + (float_count (ly_keys ly) + float_count (ly_values ly)) * 4)
     0 (kc_layers c)"

definition kv_maximumMemoryUsageBytes :: "kv_cache \<Rightarrow> (exn + u64) option" where
  "kv_maximumMemoryUsageBytes c =
     checkedCacheBytes (of_nat (length (kc_layers c))) (kc_maximum c) (kc_heads c) (kc_dimension c)"

definition kv_clear :: "u64 \<Rightarrow> (kv_cache, unit) prog" where
  "kv_clear layer = thenp (kv_in_range layer)
     (modify (\<lambda>c. c\<lparr> kc_layers := (kc_layers c)[unat layer := layer_empty] \<rparr>))"

definition kv_reset :: "(kv_cache, unit) prog" where
  "kv_reset = modify (\<lambda>c. c\<lparr> kc_layers := map (\<lambda>_. layer_empty) (kc_layers c) \<rparr>)"

section \<open>Sizes without wrap-around\<close>

lemma unat_u64_less: "unat (x :: u64) < 2 ^ 64"
  by (rule order_less_le_trans [OF unsigned_less]) simp

lemma word_fits:
  fixes a b :: u64
  assumes "b \<noteq> 0"
  shows "a \<le> u64_max div b \<longleftrightarrow> unat a * unat b < 2 ^ 64"
proof -
  have "0 < unat b" using assms by (simp add: unat_gt_0)
  then have "a \<le> u64_max div b \<longleftrightarrow> unat a * unat b \<le> 2 ^ 64 - 1"
    by (simp only: word_le_nat_alt unat_div unat_u64_max less_eq_div_iff_mult_less_eq)
  moreover have "n \<le> 2 ^ 64 - 1 \<longleftrightarrow> n < 2 ^ 64" for n :: nat by (simp, arith)
  ultimately show ?thesis by blast
qed

lemma unat_mult_fits: "unat a * unat b < 2 ^ 64 \<Longrightarrow> unat (a * b :: u64) = unat a * unat b"
  using unat_mult_lem [of a b] by simp

text \<open>The bytes of a token, their exact number, and the one product that wraps them to 0.\<close>

lemma perToken_mod: "unat (8 + 2 * v * 4 :: u64) = (8 + 8 * unat v) mod 2 ^ 64"
proof -
  have "8 + 2 * v * 4 = of_nat (8 + 8 * unat v)" by (simp add: algebra_simps)
  also have "unat (of_nat (8 + 8 * unat v) :: u64) = (8 + 8 * unat v) mod 2 ^ 64"
    by (simp only: unat_of_nat take_bit_eq_mod) simp
  finally show ?thesis .
qed

lemma token_bytes: "m < 2 ^ 61 \<Longrightarrow> m \<noteq> 2 ^ 61 - 1 \<Longrightarrow> 8 + 8 * m < (2 :: nat) ^ 64"
  by simp

lemma token_bytes_over: "2 ^ 61 \<le> m \<Longrightarrow> 8 + 8 * m \<le> n \<Longrightarrow> \<not> n < (2 :: nat) ^ 64"
  by simp

lemma checkedCacheBytes_run:
  assumes "l \<noteq> 0" "s \<noteq> 0" "h \<noteq> 0" "d \<noteq> 0" and hd: "unat h * unat d < 2 ^ 61"
  shows "checkedCacheBytes l s h d =
    (if unat h * unat d = 2 ^ 61 - 1 then None
     else if unat l * (unat s * (8 + 8 * (unat h * unat d))) < 2 ^ 64 then Some (Inr (l * s * (8 + 2 * (h * d) * 4)))
     else Some (Inl (OverflowError ''KV cache maximum storage overflows'')))"
proof -
  let ?v = "h * d"
  define p :: u64 where "p = 8 + 2 * ?v * 4"
  have v: "unat ?v = unat h * unat d" using hd by (intro unat_mult_fits) simp
  have g: "h \<le> u64_max div d" using word_fits [OF assms(4)] hd by simp
  have g8: "?v \<le> u64_max div 8" using word_fits [of 8 ?v] hd v by (simp add: mult.commute)
  have p: "unat p = (8 + 8 * (unat h * unat d)) mod 2 ^ 64" using perToken_mod [of ?v] v by (simp only: p_def)
  show ?thesis
  proof (cases "unat h * unat d = 2 ^ 61 - 1")
    case True
    then have "unat p = 0" by (simp add: p)
    then have "p = 0" by (simp only: unat_eq_zero)
    with True assms g g8 show ?thesis unfolding checkedCacheBytes_def Let_def p_def [symmetric] by (simp add: not_less)
  next
    case False
    with hd have "8 + 8 * (unat h * unat d) < 2 ^ 64" by (intro token_bytes)
    then have up: "unat p = 8 + 8 * (unat h * unat d)" unfolding p by (rule mod_less)
    then have p0: "p \<noteq> 0" by (metis unat_0 add_is_0 zero_neq_numeral)
    have sp: "s * p \<noteq> 0" "unat (s * p) = unat s * unat p" if "s \<le> u64_max div p"
    proof -
      from that word_fits [OF p0] show "unat (s * p) = unat s * unat p" by (intro unat_mult_fits) simp
      with p0 assms(2) show "s * p \<noteq> 0" by (metis mult_eq_0_iff unat_eq_zero)
    qed
    have fits: "(s \<le> u64_max div p \<and> l \<le> u64_max div (s * p)) \<longleftrightarrow> unat l * (unat s * unat p) < 2 ^ 64"
    proof (cases "s \<le> u64_max div p")
      case True
      with sp [OF True] word_fits [OF sp(1) [OF True]] show ?thesis by simp
    next
      case f: False
      with word_fits [OF p0] have "2 ^ 64 \<le> unat s * unat p" by simp
      moreover have "0 < unat l" using assms(1) by (simp add: unat_gt_0)
      ultimately have "2 ^ 64 \<le> unat l * (unat s * unat p)" by (metis le_trans mult_le_mono1 nat_mult_1 Suc_leI One_nat_def)
      with f show ?thesis by simp
    qed
    have "(s > u64_max div p \<or> l > u64_max div (s * p)) \<longleftrightarrow> \<not> unat l * (unat s * unat p) < 2 ^ 64"
      unfolding fits [symmetric] by (auto simp: not_le)
    with False assms leD [OF g] leD [OF g8] p0 show ?thesis
      unfolding checkedCacheBytes_def Let_def p_def [symmetric] up [symmetric] by (simp add: mult.assoc)
  qed
qed

text \<open>C31: The size of a cache is computed exactly. The constructor's check accepts dimensions exactly when
  none is zero and the true byte count fits in 64 bits, and then returns that count; it divides by zero
  exactly when a token has \<open>2 ^ 61 - 1\<close> values, for which the bytes of a token wrap to 0.
\<close>

theorem cache_bytes_exact:
  "(checkedCacheBytes l s h d = Some (Inr n) \<longleftrightarrow> l \<noteq> 0 \<and> s \<noteq> 0 \<and> h \<noteq> 0 \<and> d \<noteq> 0 \<and>
      unat n = unat l * (unat s * (8 + 8 * (unat h * unat d)))) \<and>
   (checkedCacheBytes l s h d = None \<longleftrightarrow> l \<noteq> 0 \<and> s \<noteq> 0 \<and> unat h * unat d = 2 ^ 61 - 1)"
proof (cases "l \<noteq> 0 \<and> s \<noteq> 0 \<and> h \<noteq> 0 \<and> d \<noteq> 0")
  case False
  then have "\<not> (l \<noteq> 0 \<and> s \<noteq> 0 \<and> unat h * unat d = 2 ^ 61 - 1)" by auto
  with False show ?thesis by (auto simp: checkedCacheBytes_def)
next
  case nz: True
  let ?n = "unat l * (unat s * (8 + 8 * (unat h * unat d)))"
  have le: "1 \<le> a \<Longrightarrow> b \<le> a * b" for a b :: nat by (cases a) simp_all
  have "1 \<le> unat l" "1 \<le> unat s" using nz by (simp_all add: unat_gt_0 Suc_le_eq)
  then have ge: "8 + 8 * (unat h * unat d) \<le> ?n" by (meson le le_trans)
  have lt: "unat n < 2 ^ 64" using unsigned_less [of n] by simp
  show ?thesis
  proof (cases "unat h * unat d < 2 ^ 61")
    case True
    note run = checkedCacheBytes_run [of l s h d, OF _ _ _ _ True]
    show ?thesis
    proof (cases "unat h * unat d = 2 ^ 61 - 1")
      case True
      then have "2 ^ 64 \<le> ?n" using ge unfolding True by simp
      with lt have "unat n \<noteq> ?n" by linarith
      with nz True run show ?thesis by simp
    next
      case False
      have exact: "unat (l * s * (8 + 2 * (h * d) * 4)) = ?n" if "?n < 2 ^ 64"
      proof -
        have "l * s * (8 + 2 * (h * d) * 4) = of_nat ?n" by (simp add: algebra_simps)
        with unat_of_nat_u64 [OF that] show ?thesis by (simp add: mult.assoc)
      qed
      with nz False run lt show ?thesis by (auto simp: word_unat_eq_iff)
    qed
  next
    case False
    then have "\<not> ?n < 2 ^ 64" by (intro token_bytes_over [OF _ ge]) simp
    with lt have "unat n \<noteq> ?n" by metis
    moreover have "h \<le> u64_max div d \<Longrightarrow> \<not> h * d \<le> u64_max div 8"
      using word_fits [of d h] word_fits [of 8 "h * d"] unat_mult_fits [of h d] False nz by (simp add: mult.commute)
    ultimately show ?thesis using nz False by (auto simp: checkedCacheBytes_def Let_def not_less not_le)
  qed
qed

section \<open>The log the cache stands for\<close>

text \<open>A token's row is the bytes of its keys and of its values; the log lists the rows of each layer.\<close>

type_synonym kv_row = "u8 list \<times> u8 list"

definition log_append :: "nat \<Rightarrow> nat \<Rightarrow> nat \<Rightarrow> kv_row list \<Rightarrow> kv_row list list \<Rightarrow> kv_row list list option" where
  "log_append maximum layer first rows L =
     (if layer < length L \<and> first = length (L ! layer) \<and> length (L ! layer) + length rows \<le> maximum
      then Some (L[layer := L ! layer @ rows]) else None)"

definition chunks :: "nat \<Rightarrow> nat \<Rightarrow> 'a list \<Rightarrow> 'a list list" where
  "chunks w n xs = map (\<lambda>i. take w (drop (i * w) xs)) [0..<n]"

lemma length_chunks [simp]: "length (chunks w n xs) = n"
  by (simp add: chunks_def)

lemma chunks_append:
  assumes "length xs = n * w"
  shows "chunks w (n + m) (xs @ ys) = chunks w n xs @ chunks w m ys"
proof (rule nth_equalityI)
  fix i
  assume "i < length (chunks w (n + m) (xs @ ys))"
  then have i: "i < n + m" by simp
  show "chunks w (n + m) (xs @ ys) ! i = (chunks w n xs @ chunks w m ys) ! i"
  proof (cases "i < n")
    case True
    then have "i * w + w \<le> n * w" using mult_le_mono1 [of "Suc i" n w] by simp
    with True i assms show ?thesis by (simp add: chunks_def nth_append)
  next
    case False
    then have "i * w = n * w + (i - n) * w" by (simp add: add_mult_distrib [symmetric])
    moreover have "i - n < m" using False i by arith
    ultimately show ?thesis using False i assms by (simp add: chunks_def nth_append)
  qed
qed simp

text \<open>The rows are the layer: the bytes are the concatenation of the rows.\<close>

lemma concat_chunks: "length xs = n * w \<Longrightarrow> concat (chunks w n xs) = xs"
proof (induction n arbitrary: xs)
  case (Suc n)
  define ys where "ys = take (n * w) xs"
  define zs where "zs = drop (n * w) xs"
  have xs: "xs = ys @ zs" by (simp add: ys_def zs_def)
  have ys: "length ys = n * w" and zs: "length zs = w" using Suc.prems by (simp_all add: ys_def zs_def)
  have "chunks w (Suc n) xs = chunks w n ys @ [zs]"
    using chunks_append [OF ys, of 1 zs] zs by (simp add: xs chunks_def)
  with Suc.IH [OF ys] show ?case by (simp add: xs)
qed (simp add: chunks_def)

definition row_bytes :: "kv_cache \<Rightarrow> nat" where
  "row_bytes c = 4 * (unat (kc_heads c) * unat (kc_dimension c))"

definition layer_rows :: "nat \<Rightarrow> kv_layer \<Rightarrow> kv_row list" where
  "layer_rows w ly = zip (chunks w (length (ly_positions ly)) (ly_keys ly))
                         (chunks w (length (ly_positions ly)) (ly_values ly))"

definition kv_log :: "kv_cache \<Rightarrow> kv_row list list" where
  "kv_log c = map (layer_rows (row_bytes c)) (kc_layers c)"

definition layer_ok :: "nat \<Rightarrow> nat \<Rightarrow> kv_layer \<Rightarrow> bool" where
  "layer_ok w maximum ly \<longleftrightarrow> (let n = length (ly_positions ly) in n \<le> maximum \<and>
     ly_positions ly = map of_nat [0..<n] \<and> length (ly_keys ly) = n * w \<and> length (ly_values ly) = n * w)"

definition kv_ok :: "kv_cache \<Rightarrow> bool" where
  "kv_ok c \<longleftrightarrow> length (kc_layers c) < 2 ^ 64 \<and> (\<exists>n. kv_maximumMemoryUsageBytes c = Some (Inr n)) \<and>
     list_all (layer_ok (row_bytes c) (unat (kc_maximum c))) (kc_layers c)"

definition kv_compatible :: "nat set \<Rightarrow> kv_cache \<Rightarrow> tensor_view \<Rightarrow> tensor_view \<Rightarrow> bool" where
  "kv_compatible alive c k v \<longleftrightarrow> kv_views_ok alive c 0 k v \<and>
     (\<exists>n. n \<noteq> 0 \<and> sh_dimensions (tv_shape k) = [n, kc_heads c, kc_dimension c])"

definition view_rows :: "(u64 \<Rightarrow> u8) \<Rightarrow> nat set \<Rightarrow> kv_cache \<Rightarrow> tensor_view \<Rightarrow> tensor_view \<Rightarrow> kv_row list" where
  "view_rows mem alive c k v = (let n = unat (sh_dimensions (tv_shape k) ! 0); w = row_bytes c in
     zip (chunks w n (mem_read mem (view_data alive k) (tv_bytes k)))
         (chunks w n (mem_read mem (view_data alive v) (tv_bytes v))))"

subsection \<open>What the invariant says of the numbers\<close>

lemma length_mem_read [simp]: "length (mem_read mem p n) = unat n"
  by (simp add: mem_read_def)

lemma kv_ok_bound:
  assumes "kv_ok c" and "ly \<in> set (kc_layers c)"
  shows "layer_ok (row_bytes c) (unat (kc_maximum c)) ly"
    and "unat (kc_maximum c) * (8 + 2 * row_bytes c) < 2 ^ 64"
    and "length (kc_layers c) * (unat (kc_maximum c) * (8 + 2 * row_bytes c)) < 2 ^ 64"
proof -
  from assms show "layer_ok (row_bytes c) (unat (kc_maximum c)) ly" by (auto simp: kv_ok_def list_all_iff)
  from assms(1) obtain n where
    n: "checkedCacheBytes (of_nat (length (kc_layers c))) (kc_maximum c) (kc_heads c) (kc_dimension c) = Some (Inr n)"
    by (auto simp: kv_ok_def kv_maximumMemoryUsageBytes_def)
  have l: "unat (of_nat (length (kc_layers c)) :: u64) = length (kc_layers c)"
    using assms(1) by (intro unat_of_nat_u64) (simp add: kv_ok_def)
  from n cache_bytes_exact [of "of_nat (length (kc_layers c))" "kc_maximum c" "kc_heads c" "kc_dimension c" n] l
  have e: "unat n = length (kc_layers c) * (unat (kc_maximum c) * (8 + 2 * row_bytes c))"
    by (simp add: row_bytes_def)
  moreover have "unat n < 2 ^ 64" using unsigned_less [of n] by simp
  ultimately show all: "length (kc_layers c) * (unat (kc_maximum c) * (8 + 2 * row_bytes c)) < 2 ^ 64" by metis
  have "1 \<le> length (kc_layers c)" using assms(2) by (cases "kc_layers c") auto
  then have "1 * (unat (kc_maximum c) * (8 + 2 * row_bytes c)) \<le>
      length (kc_layers c) * (unat (kc_maximum c) * (8 + 2 * row_bytes c))" by (rule mult_le_mono1)
  with all show "unat (kc_maximum c) * (8 + 2 * row_bytes c) < 2 ^ 64" by linarith
qed

lemma row_bytes_4: "row_bytes c = 4 * m \<Longrightarrow> n * row_bytes c div 4 = n * m"
  by simp

lemma layer_counts:
  assumes "kv_ok c" and "ly \<in> set (kc_layers c)"
  shows "unat (of_nat (length (ly_positions ly)) :: u64) = length (ly_positions ly)"
    and "4 * unat (float_count (ly_keys ly)) = length (ly_keys ly)"
    and "4 * unat (float_count (ly_values ly)) = length (ly_values ly)"
proof -
  let ?n = "length (ly_positions ly)" let ?w = "row_bytes c"
  from kv_ok_bound(1) [OF assms] have n: "?n \<le> unat (kc_maximum c)" "length (ly_keys ly) = ?n * ?w"
    "length (ly_values ly) = ?n * ?w" by (auto simp: layer_ok_def Let_def)
  have "?n < 2 ^ 64" using n(1) unat_u64_less [of "kc_maximum c"] by linarith
  then show "unat (of_nat ?n :: u64) = ?n" by (rule unat_of_nat_u64)
  have "?n * ?w \<le> unat (kc_maximum c) * (8 + 2 * ?w)" using n(1) by (intro mult_le_mono) simp_all
  with kv_ok_bound(2) [OF assms] have lt: "?n * ?w < 2 ^ 64" by linarith
  have four: "4 * unat (of_nat (?n * ?w div 4) :: u64) = ?n * ?w"
  proof -
    have "?n * ?w div 4 < 2 ^ 64" using lt by simp
    moreover have "4 * (?n * ?w div 4) = ?n * ?w" by (simp add: row_bytes_def)
    ultimately show ?thesis by (simp add: unat_of_nat_u64)
  qed
  show "4 * unat (float_count (ly_keys ly)) = length (ly_keys ly)"
    using four unfolding float_count_def n(2) .
  show "4 * unat (float_count (ly_values ly)) = length (ly_values ly)"
    using four unfolding float_count_def n(3) .
qed

subsection \<open>Appending\<close>

lemma compatible_sizes:
  assumes "view_ok k" and "tv_dtype k = dtype_code FP32"
    and "sh_dimensions (tv_shape k) = [n, kc_heads c, kc_dimension c]"
  shows "4 * unat (sh_elementCount (tv_shape k)) = unat n * row_bytes c"
    and "unat (tv_bytes k) = unat n * row_bytes c"
proof -
  have four: "unat (sizeOf (dtype_code FP32)) = 4" by (simp add: sizeOf_def dtype_of_def)
  from assms show "4 * unat (sh_elementCount (tv_shape k)) = unat n * row_bytes c"
    by (simp add: view_ok_def shape_ok_def row_bytes_def)
  with assms(1,2) four show "unat (tv_bytes k) = unat n * row_bytes c"
    by (simp add: view_ok_def)
qed

lemma overwrite_tail:
  "length buf = m \<Longrightarrow> length src = n \<Longrightarrow> m + n = 4 * unat s \<Longrightarrow> overwrite m src (float_resize s buf) = buf @ src"
  by (simp add: overwrite_def float_resize_def)

text \<open>A layer the append accepts, and what it becomes.\<close>

definition layer_extend :: "kv_layer \<Rightarrow> nat \<Rightarrow> u8 list \<Rightarrow> u8 list \<Rightarrow> kv_layer" where
  "layer_extend ly n ks vs = \<lparr> ly_positions = ly_positions ly @ map (\<lambda>t. of_nat (length (ly_positions ly) + t)) [0..<n],
     ly_keys = ly_keys ly @ ks, ly_values = ly_values ly @ vs \<rparr>"

lemma layer_extend_ok:
  assumes "layer_ok w m ly" and "length (ly_positions ly) + n \<le> m" and "length ks = n * w" "length vs = n * w"
  shows "layer_ok w m (layer_extend ly n ks vs)"
    and "layer_rows w (layer_extend ly n ks vs) = layer_rows w ly @ zip (chunks w n ks) (chunks w n vs)"
proof -
  have "map (\<lambda>i. a + i) [0..<n] = [a..<a + n]" for a by (induction n) simp_all
  with upt_add_eq_append [of 0] have upt: "[0..<a + n] = [0..<a] @ map (\<lambda>i. a + i) [0..<n]" for a by simp
  from assms(1) have k: "length (ly_keys ly) = length (ly_positions ly) * w"
    "length (ly_values ly) = length (ly_positions ly) * w"
    and p: "ly_positions ly = map of_nat [0..<length (ly_positions ly)]" by (simp_all add: layer_ok_def Let_def)
  from p have "ly_positions ly @ map (\<lambda>t. of_nat (length (ly_positions ly) + t)) [0..<n] =
      map of_nat [0..<length (ly_positions ly) + n]"
    unfolding upt map_append by (simp add: comp_def)
  with k assms(2-4) show "layer_ok w m (layer_extend ly n ks vs)"
    unfolding layer_ok_def Let_def layer_extend_def by (simp add: add_mult_distrib)
  show "layer_rows w (layer_extend ly n ks vs) = layer_rows w ly @ zip (chunks w n ks) (chunks w n vs)"
    by (simp add: layer_rows_def layer_extend_def chunks_append [OF k(1)] chunks_append [OF k(2)])
qed

lemma kv_append_rejects:
  assumes "\<not> kv_compatible alive c k v \<or> \<not> unat layer < length (kc_layers c)" and "kc_layers c \<noteq> []"
  shows "\<exists>m. kv_append mem alive layer firstPosition k v c = (Inl (InvalidArgument m), c)"
proof (cases "kv_views_ok alive c layer k v")
  case False
  then show ?thesis by (simp add: kv_append_def guard_runs Let_def)
next
  case True
  then have rank: "length (sh_dimensions (tv_shape k)) = 3" by (simp add: kv_views_ok_def sh_rank_def)
  then obtain a b d where ds: "sh_dimensions (tv_shape k) = [a, b, d]"
    by (auto simp: numeral_3_eq_3 length_Suc_conv)
  have "kv_views_ok alive c 0 k v" "unat layer < length (kc_layers c)"
    using True assms(2) by (simp_all add: kv_views_ok_def)
  with assms(1) ds have "a = 0 \<or> b \<noteq> kc_heads c \<or> d \<noteq> kc_dimension c" by (auto simp: kv_compatible_def)
  with True ds show ?thesis by (auto simp: kv_append_def guard_runs Let_def)
qed

lemma kv_append_runs:
  assumes ok: "kv_ok c" and lay: "unat layer < length (kc_layers c)" and comp: "kv_compatible alive c k v"
    and vk: "view_ok k" and vv: "view_ok v" and ly: "ly = kc_layers c ! unat layer"
    and n: "n = unat (sh_dimensions (tv_shape k) ! 0)"
  shows "kv_append mem alive layer firstPosition k v c =
    (if unat firstPosition = length (ly_positions ly) \<and> length (ly_positions ly) + n \<le> unat (kc_maximum c)
     then (Inr (), c\<lparr> kc_layers := (kc_layers c)[unat layer := layer_extend ly n
            (mem_read mem (view_data alive k) (tv_bytes k)) (mem_read mem (view_data alive v) (tv_bytes v))] \<rparr>)
     else (Inl (InvalidArgument ''KV cache append must be contiguous and within sequence capacity''), c))"
proof -
  let ?len = "length (ly_positions ly)" let ?w = "row_bytes c" let ?max = "kc_maximum c"
  from comp obtain d where d: "d \<noteq> 0" "sh_dimensions (tv_shape k) = [d, kc_heads c, kc_dimension c]"
    and views: "kv_views_ok alive c 0 k v" by (auto simp: kv_compatible_def)
  from views have sh: "tv_shape v = tv_shape k" "tv_dtype k = dtype_code FP32" "tv_dtype v = dtype_code FP32"
    by (auto simp: kv_views_ok_def)
  have nd: "n = unat d" using n d(2) by simp
  have views': "kv_views_ok alive c layer k v" using views lay by (auto simp: kv_views_ok_def)
  have mem: "ly \<in> set (kc_layers c)" using ly lay by simp
  note bound = kv_ok_bound [OF ok mem] and counts = layer_counts [OF ok mem]
  from bound(1) have lk: "?len \<le> unat ?max" "length (ly_keys ly) = ?len * ?w" "length (ly_values ly) = ?len * ?w"
    by (simp_all add: layer_ok_def Let_def)
  note sk = compatible_sizes [OF vk sh(2) d(2)] and sv = compatible_sizes [OF vv sh(3), of d c, unfolded sh(1), OF d(2)]
  have first: "firstPosition = of_nat ?len \<longleftrightarrow> unat firstPosition = ?len"
    using counts(1) by (auto simp: word_unat_eq_iff)
  have room: "d > ?max - of_nat ?len \<longleftrightarrow> \<not> ?len + n \<le> unat ?max"
  proof -
    have "unat (?max - of_nat ?len) = unat ?max - ?len" using lk(1) counts(1) by (simp add: unat_sub_within)
    then show ?thesis using lk(1) nd by (simp add: word_less_nat_alt) arith
  qed
  show ?thesis
  proof (cases "unat firstPosition = ?len \<and> ?len + n \<le> unat ?max")
    case False
    then show ?thesis using views' d ly first room
      by (auto simp: kv_append_def guard_runs Let_def)
  next
    case True
    let ?old = "float_count (ly_keys ly)" let ?app = "sh_elementCount (tv_shape k)"
    have sum: "4 * (unat ?old + unat ?app) = (?len + n) * ?w"
      using counts(2) lk(2) sk(1) nd by (simp add: add_mult_distrib)
    have "(?len + n) * ?w \<le> unat ?max * (8 + 2 * ?w)" using True by (intro mult_le_mono) simp_all
    with bound(2) have lt: "(?len + n) * ?w < 2 ^ 64" by linarith
    then have fit: "unat ?old + unat ?app < 2 ^ 64" unfolding sum [symmetric] by simp
    then have new: "unat (?old + ?app) = unat ?old + unat ?app" by (simp add: unat_add_lem [THEN iffD1])
    have over: "\<not> ?old > u64_max - ?app"
      using fit by (simp only: word_less_nat_alt unat_u64_max_minus)
    have keys: "overwrite (4 * unat ?old) (mem_read mem (view_data alive k) (tv_bytes k)) (float_resize (?old + ?app) (ly_keys ly)) =
        ly_keys ly @ mem_read mem (view_data alive k) (tv_bytes k)"
      by (rule overwrite_tail [where n = "n * ?w"]) (use counts lk sk nd new sum in \<open>simp_all add: add_mult_distrib\<close>)
    have vals: "overwrite (4 * unat ?old) (mem_read mem (view_data alive v) (tv_bytes v)) (float_resize (?old + ?app) (ly_values ly)) =
        ly_values ly @ mem_read mem (view_data alive v) (tv_bytes v)"
      by (rule overwrite_tail [where n = "n * ?w"]) (use counts lk sv nd new sum in \<open>simp_all add: add_mult_distrib\<close>)
    have pos: "map (\<lambda>t. firstPosition + of_nat t) [0..<n] = map (\<lambda>t. of_nat (?len + t)) [0..<n]"
      using True first by simp
    show ?thesis
      using True views' d ly first room over keys vals pos nd
      by (simp add: kv_append_def guard_runs Let_def layer_extend_def del: upt_Suc)
  qed
qed

lemma kv_log_update:
  assumes "i < length (kc_layers c)"
  shows "kv_log (c\<lparr> kc_layers := (kc_layers c)[i := ly] \<rparr>) = (kv_log c)[i := layer_rows (row_bytes c) ly]"
  using assms by (simp add: kv_log_def map_update row_bytes_def)

lemma kv_ok_update:
  assumes "kv_ok c" and "layer_ok (row_bytes c) (unat (kc_maximum c)) ly"
  shows "kv_ok (c\<lparr> kc_layers := (kc_layers c)[i := ly] \<rparr>)"
  using assms set_update_subset_insert [of "kc_layers c" i ly]
  by (auto simp: kv_ok_def list_all_iff kv_maximumMemoryUsageBytes_def row_bytes_def)

lemma kv_append_simulates:
  assumes "kv_ok c" and "view_ok k" and "view_ok v"
  shows "case kv_append mem alive layer firstPosition k v c of
     (Inr _, c') \<Rightarrow> kv_ok c' \<and> kc_maximum c' = kc_maximum c \<and> kv_compatible alive c k v \<and>
        log_append (unat (kc_maximum c)) (unat layer) (unat firstPosition) (view_rows mem alive c k v) (kv_log c) = Some (kv_log c')
   | (Inl e, c') \<Rightarrow> c' = c \<and> (\<exists>m. e = InvalidArgument m) \<and> (kv_compatible alive c k v \<longrightarrow>
        log_append (unat (kc_maximum c)) (unat layer) (unat firstPosition) (view_rows mem alive c k v) (kv_log c) = None)"
proof (cases "kv_compatible alive c k v \<and> unat layer < length (kc_layers c)")
  case False
  have "kc_layers c \<noteq> []"
    using assms(1) cache_bytes_exact by (auto simp: kv_ok_def kv_maximumMemoryUsageBytes_def)
  with kv_append_rejects [of alive c k v layer mem firstPosition] False obtain m where
    "kv_append mem alive layer firstPosition k v c = (Inl (InvalidArgument m), c)" by auto
  with False show ?thesis by (auto simp: log_append_def kv_log_def)
next
  case True
  define ly where "ly = kc_layers c ! unat layer"
  define n where "n = unat (sh_dimensions (tv_shape k) ! 0)"
  note run = kv_append_runs [OF assms(1) conjunct2 [OF True] conjunct1 [OF True] assms(2,3) ly_def n_def,
      of mem firstPosition]
  from conjunct1 [OF True] obtain d where d: "sh_dimensions (tv_shape k) = [d, kc_heads c, kc_dimension c]"
    and views: "kv_views_ok alive c 0 k v" by (auto simp: kv_compatible_def)
  from views have sh: "tv_shape v = tv_shape k" "tv_dtype k = dtype_code FP32" "tv_dtype v = dtype_code FP32"
    by (auto simp: kv_views_ok_def)
  have nd: "n = unat d" by (simp add: n_def d)
  have mem: "ly \<in> set (kc_layers c)" using True by (simp add: ly_def)
  note lok = kv_ok_bound(1) [OF assms(1) mem]
  from lok have rows: "length (layer_rows (row_bytes c) ly) = length (ly_positions ly)" by (simp add: layer_rows_def)
  have at_layer: "kv_log c ! unat layer = layer_rows (row_bytes c) ly" using True by (simp add: kv_log_def ly_def)
  have vr: "view_rows mem alive c k v = zip (chunks (row_bytes c) n (mem_read mem (view_data alive k) (tv_bytes k)))
      (chunks (row_bytes c) n (mem_read mem (view_data alive v) (tv_bytes v)))"
    by (simp add: view_rows_def n_def Let_def)
  have bytes: "length (mem_read mem (view_data alive k) (tv_bytes k)) = n * row_bytes c"
    "length (mem_read mem (view_data alive v) (tv_bytes v)) = n * row_bytes c"
    using compatible_sizes(2) [OF assms(2) sh(2) d] compatible_sizes(2) [OF assms(3) sh(3), of d c] sh(1) d nd by simp_all
  show ?thesis
  proof (cases "unat firstPosition = length (ly_positions ly) \<and> length (ly_positions ly) + n \<le> unat (kc_maximum c)")
    case fits: True
    note ext = layer_extend_ok [OF lok conjunct2 [OF fits] bytes]
    from fits True rows have "log_append (unat (kc_maximum c)) (unat layer) (unat firstPosition) (view_rows mem alive c k v) (kv_log c) =
        Some ((kv_log c)[unat layer := layer_rows (row_bytes c) ly @ view_rows mem alive c k v])"
      by (simp add: log_append_def at_layer vr) (simp add: kv_log_def)
    with fits True run ext kv_ok_update [OF assms(1) ext(1)] show ?thesis
      by (simp add: kv_log_update vr)
  next
    case False
    with True run rows show ?thesis by (auto simp: log_append_def at_layer vr)
  qed
qed

section \<open>Every cache the code can make\<close>

inductive kv_reach :: "kv_cache \<Rightarrow> bool" where
  kv_start: "kv_make l s h d = Some (Inr c) \<Longrightarrow> kv_reach c"
| kv_appended: "kv_reach c \<Longrightarrow> view_ok k \<Longrightarrow> view_ok v \<Longrightarrow>
    kv_append mem alive layer firstPosition k v c = (r, c') \<Longrightarrow> kv_reach c'"
| kv_cleared: "kv_reach c \<Longrightarrow> kv_clear layer c = (r, c') \<Longrightarrow> kv_reach c'"
| kv_resetted: "kv_reach c \<Longrightarrow> kv_reset c = (r, c') \<Longrightarrow> kv_reach c'"

lemma layer_ok_empty [simp]: "layer_ok w m layer_empty"
  by (simp add: layer_ok_def layer_empty_def)

lemma layer_rows_empty [simp]: "layer_rows w layer_empty = []"
  by (simp add: layer_rows_def layer_empty_def chunks_def)

lemma kv_clear_run:
  "kv_clear layer c = (if unat layer < length (kc_layers c)
     then (Inr (), c\<lparr> kc_layers := (kc_layers c)[unat layer := layer_empty] \<rparr>)
     else (Inl (OutOfRange ''KV cache layer is invalid''), c))"
  by (simp add: kv_clear_def kv_in_range_def guard_runs thenp_def bindp_def)

lemma kv_make_ok:
  assumes "kv_make l s h d = Some (Inr c)"
  shows "kv_ok c"
proof -
  from assms obtain n where n: "checkedCacheBytes l s h d = Some (Inr n)"
    and c: "c = \<lparr> kc_layers = replicate (unat l) layer_empty, kc_maximum = s, kc_heads = h, kc_dimension = d \<rparr>"
    by (auto simp: kv_make_def bindr_eq_Inr)
  with unat_u64_less [of l] show ?thesis
    by (simp add: kv_ok_def kv_maximumMemoryUsageBytes_def list_all_iff)
qed

lemma kv_reach_ok: "kv_reach c \<Longrightarrow> kv_ok c"
proof (induction rule: kv_reach.induct)
  case (kv_start l s h d c)
  then show ?case by (rule kv_make_ok)
next
  case (kv_appended c k v mem alive layer firstPosition r c')
  with kv_append_simulates [of c k v, where mem = mem and alive = alive and layer = layer and firstPosition = firstPosition] show ?case by (auto split: sum.splits)
next
  case (kv_cleared c layer r c')
  then show ?case by (auto simp: kv_clear_run kv_ok_update split: if_splits)
next
  case (kv_resetted c r c')
  then show ?case
    by (auto simp: kv_reset_def kv_ok_def list_all_iff kv_maximumMemoryUsageBytes_def row_bytes_def)
qed

text \<open>C21: A cache is a log of token rows per layer. An append with views of the cache's kind succeeds
  exactly when the log accepts the rows (the layer exists, the first position is the length of its
  log and the rows fit the maximum length), and then the log grows by exactly the bytes the views
  address; every other append throws and leaves the cache as it was.
\<close>

theorem kv_append_refines:
  assumes "kv_reach c" and "view_ok k" and "view_ok v"
  shows "case kv_append mem alive layer firstPosition k v c of
     (Inr _, c') \<Rightarrow> kv_compatible alive c k v \<and>
        log_append (unat (kc_maximum c)) (unat layer) (unat firstPosition) (view_rows mem alive c k v) (kv_log c) = Some (kv_log c')
   | (Inl e, c') \<Rightarrow> c' = c \<and> (\<exists>m. e = InvalidArgument m) \<and> \<not> (kv_compatible alive c k v \<and>
        log_append (unat (kc_maximum c)) (unat layer) (unat firstPosition) (view_rows mem alive c k v) (kv_log c) \<noteq> None)"
  using kv_append_simulates [OF kv_reach_ok [OF assms(1)] assms(2,3), where mem = mem and alive = alive and layer = layer
      and firstPosition = firstPosition]
  by (auto split: sum.splits prod.splits)

text \<open>An example: a cache of one layer, two tokens, one head of one float, and four bytes at address 16.\<close>

definition example_cache :: kv_cache where
  "example_cache = \<lparr> kc_layers = [layer_empty], kc_maximum = 2, kc_heads = 1, kc_dimension = 1 \<rparr>"

definition example_view :: tensor_view where
  "example_view = \<lparr> tv_shape = \<lparr> sh_dimensions = [1, 1, 1], sh_strides = [1, 1, 1], sh_elementCount = 1,
     sh_storageElementCount = 1 \<rparr>, tv_dtype = 0, tv_device = device_cpu, tv_data = 16, tv_mutableData = 0,
     tv_bytes = 4, tv_storageBytes = 4, tv_lifetime = Some 7 \<rparr>"

lemma example_reach: "kv_reach example_cache"
  by (rule kv_start [of 1 2 1 1])
    (simp add: kv_make_def checkedCacheBytes_def example_cache_def word_le_nat_alt word_less_nat_alt unat_div unat_u64_max)

lemma example_view_ok: "view_ok example_view"
  by (simp add: view_ok_def example_view_def shape_ok_def sizeOf_def dtype_of_def dtype_isValid_def)

lemma example_compatible: "kv_compatible {7} example_cache example_view example_view"
  by (simp add: kv_compatible_def kv_views_ok_def example_cache_def example_view_def view_lockOwner_def
      view_valid_def expired_def isContiguous_def sh_rank_def)

lemma example_rows:
  "view_rows (\<lambda>a. ucast a) {7} example_cache example_view example_view = [([16, 17, 18, 19], [16, 17, 18, 19])]"
  by (simp add: view_rows_def example_cache_def example_view_def row_bytes_def chunks_def mem_read_def
      view_data_def expired_def upt_conv_Cons)

theorem kv_append_refines_witness:
  "\<exists>c'. kv_append (\<lambda>a. ucast a) {7} 0 0 example_view example_view example_cache = (Inr (), c') \<and>
     kv_log c' = [[([16, 17, 18, 19], [16, 17, 18, 19])]]"
proof -
  have log: "kv_log example_cache = [[]]" by (simp add: kv_log_def example_cache_def)
  have app: "log_append (unat (kc_maximum example_cache)) (unat (0 :: u64)) (unat (0 :: u64))
      (view_rows (\<lambda>a. ucast a) {7} example_cache example_view example_view) (kv_log example_cache) =
      Some [[([16, 17, 18, 19], [16, 17, 18, 19])]]"
    unfolding example_rows log by (simp add: log_append_def example_cache_def)
  from kv_append_refines [OF example_reach example_view_ok example_view_ok, where mem = "\<lambda>a. ucast a"
      and alive = "{7}" and layer = 0 and firstPosition = 0] example_compatible app
  show ?thesis by (auto split: prod.splits sum.splits)
qed

text \<open>A snapshot of a layer is its log: the positions count from zero, and keys and values are the
  bytes of the rows in order; clearing a layer empties its log and no other, and a reset empties all.
\<close>

theorem kv_snapshot_shows_log:
  assumes "kv_reach c" and "unat layer < length (kc_layers c)"
  shows "(\<exists>n. kv_snapshot_of layer c = (Inr n, c) \<and> sn_positions n = map of_nat [0..<length (kv_log c ! unat layer)] \<and>
           sn_keys n = concat (map fst (kv_log c ! unat layer)) \<and> sn_values n = concat (map snd (kv_log c ! unat layer))) \<and>
         kv_log (snd (kv_clear layer c)) = (kv_log c)[unat layer := []] \<and>
         kv_log (snd (kv_reset c)) = map (\<lambda>_. []) (kv_log c)"
proof -
  define ly where "ly = kc_layers c ! unat layer"
  have "ly \<in> set (kc_layers c)" using assms(2) by (simp add: ly_def)
  from kv_ok_bound(1) [OF kv_reach_ok [OF assms(1)] this] have lk:
    "length (ly_keys ly) = length (ly_positions ly) * row_bytes c" "length (ly_values ly) = length (ly_positions ly) * row_bytes c"
    "ly_positions ly = map of_nat [0..<length (ly_positions ly)]" by (simp_all add: layer_ok_def Let_def)
  have log: "kv_log c ! unat layer = layer_rows (row_bytes c) ly" using assms(2) by (simp add: kv_log_def ly_def)
  have "map fst (layer_rows (row_bytes c) ly) = chunks (row_bytes c) (length (ly_positions ly)) (ly_keys ly)"
    "map snd (layer_rows (row_bytes c) ly) = chunks (row_bytes c) (length (ly_positions ly)) (ly_values ly)"
    "length (layer_rows (row_bytes c) ly) = length (ly_positions ly)"
    by (simp_all add: layer_rows_def)
  with lk concat_chunks log have
    "concat (map fst (kv_log c ! unat layer)) = ly_keys ly" "concat (map snd (kv_log c ! unat layer)) = ly_values ly"
    "map of_nat [0..<length (kv_log c ! unat layer)] = ly_positions ly" by simp_all
  moreover have "kv_snapshot_of layer c = (Inr \<lparr> sn_positions = ly_positions ly, sn_keys = ly_keys ly,
      sn_values = ly_values ly, sn_heads = kc_heads c, sn_dimension = kc_dimension c \<rparr>, c)"
    using assms(2) by (simp add: kv_snapshot_of_def kv_in_range_def guard_runs thenp_def bindp_def Let_def ly_def)
  moreover have "kv_log (snd (kv_clear layer c)) = (kv_log c)[unat layer := []]"
    using assms(2) by (simp add: kv_clear_run kv_log_update)
  moreover have "kv_log (snd (kv_reset c)) = map (\<lambda>_. []) (kv_log c)"
    by (simp add: kv_reset_def kv_log_def row_bytes_def)
  ultimately show ?thesis by simp
qed

section \<open>Memory\<close>

definition layer_bytes :: "nat \<Rightarrow> kv_layer \<Rightarrow> nat" where
  "layer_bytes w ly = length (ly_positions ly) * (8 + 2 * w)"

lemma kv_memory_exact:
  assumes "kv_ok c"
  shows "unat (kv_memoryUsageBytes c) = sum_list (map (layer_bytes (row_bytes c)) (kc_layers c))"
    and "kv_maximumMemoryUsageBytes c = Some (Inr m) \<Longrightarrow> kv_memoryUsageBytes c \<le> m"
proof -
  let ?w = "row_bytes c"
  have step: "of_nat (length (ly_positions ly)) * 8 + (float_count (ly_keys ly) * 4 + float_count (ly_values ly) * 4) =
      of_nat (layer_bytes ?w ly)" if "ly \<in> set (kc_layers c)" for ly
  proof -
    from kv_ok_bound(1) [OF assms that] have "length (ly_keys ly) = 4 * (length (ly_positions ly) * (unat (kc_heads c) * unat (kc_dimension c)))"
      "length (ly_values ly) = 4 * (length (ly_positions ly) * (unat (kc_heads c) * unat (kc_dimension c)))"
      by (simp_all add: layer_ok_def Let_def row_bytes_def)
    then show ?thesis by (simp add: float_count_def layer_bytes_def row_bytes_def algebra_simps)
  qed
  have "foldl (\<lambda>r ly. r + of_nat (length (ly_positions ly)) * 8 + (float_count (ly_keys ly) + float_count (ly_values ly)) * 4) r lys =
      r + (of_nat (sum_list (map (layer_bytes ?w) lys)) :: u64)" if "set lys \<subseteq> set (kc_layers c)" for lys r
    using that by (induction lys arbitrary: r) (simp_all add: distrib_right add.assoc step)
  then have word: "kv_memoryUsageBytes c = of_nat (sum_list (map (layer_bytes ?w) (kc_layers c)))"
    by (simp add: kv_memoryUsageBytes_def)
  have "sum_list (map (layer_bytes ?w) lys) \<le> length lys * (unat (kc_maximum c) * (8 + 2 * ?w))"
    if "set lys \<subseteq> set (kc_layers c)" for lys
    using that
  proof (induction lys)
    case (Cons ly lys)
    from Cons.prems kv_ok_bound(1) [OF assms, of ly] have "length (ly_positions ly) \<le> unat (kc_maximum c)"
      by (simp add: layer_ok_def Let_def)
    then have "layer_bytes ?w ly \<le> unat (kc_maximum c) * (8 + 2 * ?w)"
      unfolding layer_bytes_def by (rule mult_le_mono1)
    with Cons show ?case by simp
  qed simp
  then have le: "sum_list (map (layer_bytes ?w) (kc_layers c)) \<le> length (kc_layers c) * (unat (kc_maximum c) * (8 + 2 * ?w))"
    by simp
  obtain n where n: "kv_maximumMemoryUsageBytes c = Some (Inr n)" using assms by (auto simp: kv_ok_def)
  have l: "unat (of_nat (length (kc_layers c)) :: u64) = length (kc_layers c)"
    using assms by (intro unat_of_nat_u64) (simp add: kv_ok_def)
  have un: "unat n = length (kc_layers c) * (unat (kc_maximum c) * (8 + 2 * ?w))"
    using n cache_bytes_exact [of "of_nat (length (kc_layers c))" "kc_maximum c" "kc_heads c" "kc_dimension c" n] l
    by (simp add: kv_maximumMemoryUsageBytes_def row_bytes_def)
  have "sum_list (map (layer_bytes ?w) (kc_layers c)) < 2 ^ 64" using le un unat_u64_less [of n] by linarith
  then show sum: "unat (kv_memoryUsageBytes c) = sum_list (map (layer_bytes ?w) (kc_layers c))"
    unfolding word by (rule unat_of_nat_u64)
  show "kv_memoryUsageBytes c \<le> m" if "kv_maximumMemoryUsageBytes c = Some (Inr m)"
    using that n sum le un by (simp add: word_le_nat_alt)
qed

text \<open>The memory a cache reports is the true number of bytes of its positions, keys and values,
  without wrap-around, and never exceeds the maximum computed when the cache was made.
\<close>

theorem kv_memory_bounded:
  assumes "kv_reach c"
  shows "unat (kv_memoryUsageBytes c) = sum_list (map (\<lambda>rows. length rows * (8 + 2 * row_bytes c)) (kv_log c)) \<and>
         (\<exists>m. kv_maximumMemoryUsageBytes c = Some (Inr m) \<and> kv_memoryUsageBytes c \<le> m)"
proof -
  have "map (layer_bytes (row_bytes c)) (kc_layers c) = map (\<lambda>rows. length rows * (8 + 2 * row_bytes c)) (kv_log c)"
    by (simp add: kv_log_def layer_bytes_def layer_rows_def)
  with kv_reach_ok [OF assms] kv_memory_exact [OF kv_reach_ok [OF assms]] show ?thesis by (auto simp: kv_ok_def)
qed

end
