(* ===== verification/KV_Manager.thy ===== *)
theory KV_Manager
  imports KV_Cache
begin

text \<open>
  \<^verbatim>\<open>src/runtime/cache/KVCacheManager.cpp\<close>: a budget for the caches of sessions. The manager only uses
  what \<open>KVCacheBase\<close> promises of a cache, so it is polymorphic in it: \<open>usage\<close> is its
  \<open>memoryUsageBytes\<close>, and \<open>made\<close> what its constructor answers. The locale \<open>session_cache\<close> states
  what the budget needs of a cache, and is interpreted on the caches of \<open>KV_Cache\<close>. The caches are shared with the clients, who
  change them between the calls of the manager. The lemmas show that reservations are exact and within the limit, and
  that what the caches hold is within the reservations.
\<close>

section \<open>The manager\<close>

record 'c kv_manager =
  km_layerCount :: u64
  km_maximum :: u64
  km_heads :: u64
  km_dimension :: u64
  km_limit :: u64
  km_perSession :: u64
  km_peak :: u64
  km_reserved :: u64
  km_next :: u64
  km_backend :: "device option"
  km_sessions :: "(u64 \<times> 'c) list"

record kv_stats =
  ks_active :: nat
  ks_committed :: u64
  ks_reserved :: u64
  ks_peak :: u64
  ks_limit :: u64

text \<open>The backend, when there is one, is whether it is available and its device.\<close>

definition km_make ::
  "u64 \<Rightarrow> u64 \<Rightarrow> u64 \<Rightarrow> u64 \<Rightarrow> u64 \<Rightarrow> (bool \<times> device) option \<Rightarrow> (exn + 'c kv_manager) option" where
  "km_make l s h d limit backend =
     (if (case backend of None \<Rightarrow> False | Some (available, dev) \<Rightarrow> \<not> available \<or> dv_type dev \<noteq> device_CUDA)
      then Some (Inl (InvalidArgument ''KV cache manager device backend must be available CUDA''))
      else (case kv_make l s h d of
        None \<Rightarrow> None
      | Some (Inl e) \<Rightarrow> Some (Inl e)
      | Some (Inr prototype) \<Rightarrow> (case kv_maximumMemoryUsageBytes prototype of
          None \<Rightarrow> None
        | Some (Inl e) \<Rightarrow> Some (Inl e)
        | Some (Inr per) \<Rightarrow> Some (
            if limit = 0 \<or> per > limit
            then Inl (InvalidArgument ''KV cache memory limit cannot hold one maximum-length session'')
            else Inr \<lparr> km_layerCount = l, km_maximum = s, km_heads = h, km_dimension = d, km_limit = limit,
              km_perSession = per, km_peak = 0, km_reserved = 0, km_next = 1, km_backend = map_option snd backend,
              km_sessions = [] \<rparr>))))"

definition km_allocate :: "exn + 'c \<Rightarrow> ('c kv_manager, u64) prog" where
  "km_allocate made =
     bindp (gets (\<lambda>m. \<not> km_reserved m > km_limit m - km_perSession m)) (\<lambda>room.
     thenp (require room (RuntimeError ''KV cache memory limit is exhausted''))
    (bindp (gets (\<lambda>m. km_next m \<noteq> 0)) (\<lambda>ids.
     thenp (require ids (OverflowError ''KV cache session ID space is exhausted''))
    (bindp (gets km_next) (\<lambda>sessionId.
     thenp (modify (\<lambda>m. m\<lparr> km_next := km_next m + 1 \<rparr>))
    (bindp (case made of Inl e \<Rightarrow> raise e | Inr cache \<Rightarrow> ret cache) (\<lambda>cache.
     bindp (gets (\<lambda>m. map_of (km_sessions m) sessionId = None)) (\<lambda>fresh.
     thenp (require fresh (LogicError ''KV cache session ID collision''))
    (thenp (modify (\<lambda>m. m\<lparr> km_sessions := (sessionId, cache) # km_sessions m,
                            km_reserved := km_reserved m + km_perSession m \<rparr>))
     (ret sessionId))))))))))"

definition km_release :: "u64 \<Rightarrow> ('c kv_manager, unit) prog" where
  "km_release sessionId =
     bindp (gets (\<lambda>m. map_of (km_sessions m) sessionId \<noteq> None)) (\<lambda>active.
     thenp (require active (OutOfRange ''KV cache session is not active''))
    (modify (\<lambda>m. m\<lparr> km_sessions := AList.delete sessionId (km_sessions m),
                      km_reserved := km_reserved m - km_perSession m \<rparr>)))"

fun committed_bytes :: "('c \<Rightarrow> exn + u64) \<Rightarrow> u64 \<Rightarrow> (u64 \<times> 'c) list \<Rightarrow> exn + u64" where
  "committed_bytes usage committed [] = Inr committed"
| "committed_bytes usage committed ((_, cache) # sessions) = bindr (usage cache) (\<lambda>bytes.
     if committed > u64_max - bytes
     then Inl (OverflowError ''KV cache committed-byte accounting overflows'')
     else committed_bytes usage (committed + bytes) sessions)"

definition km_stats :: "('c \<Rightarrow> exn + u64) \<Rightarrow> ('c kv_manager, kv_stats) prog" where
  "km_stats usage = (\<lambda>m. case committed_bytes usage 0 (km_sessions m) of
     Inl e \<Rightarrow> (Inl e, m)
   | Inr committed \<Rightarrow> (let peak = (if committed > km_peak m then committed else km_peak m) in
       (Inr \<lparr> ks_active = length (km_sessions m), ks_committed = committed, ks_reserved = km_reserved m,
              ks_peak = peak, ks_limit = km_limit m \<rparr>, m\<lparr> km_peak := peak \<rparr>)))"

text \<open>A client changes its cache through the pointer it got.\<close>

definition km_use :: "u64 \<Rightarrow> ('c \<Rightarrow> 'c) \<Rightarrow> 'c kv_manager \<Rightarrow> 'c kv_manager" where
  "km_use sessionId f m = m\<lparr> km_sessions := map (\<lambda>(i, c). (i, if i = sessionId then f c else c)) (km_sessions m) \<rparr>"

definition km_device :: "'c kv_manager \<Rightarrow> device" where
  "km_device m = (case km_backend m of None \<Rightarrow> device_cpu | Some dev \<Rightarrow> dev)"

lemma km_allocate_run:
  "km_allocate made m =
     (if km_reserved m > km_limit m - km_perSession m then (Inl (RuntimeError ''KV cache memory limit is exhausted''), m)
      else if km_next m = 0 then (Inl (OverflowError ''KV cache session ID space is exhausted''), m)
      else let m' = m\<lparr> km_next := km_next m + 1 \<rparr> in
        (case made of Inl e \<Rightarrow> (Inl e, m')
         | Inr cache \<Rightarrow>
             if map_of (km_sessions m) (km_next m) \<noteq> None then (Inl (LogicError ''KV cache session ID collision''), m')
             else (Inr (km_next m), m'\<lparr> km_sessions := (km_next m, cache) # km_sessions m,
                     km_reserved := km_reserved m + km_perSession m \<rparr>)))"
  by (cases made; cases "map_of (km_sessions m) (km_next m)") (simp_all add: km_allocate_def guard_runs Let_def)

lemma km_release_run:
  "km_release i m = (if map_of (km_sessions m) i = None then (Inl (OutOfRange ''KV cache session is not active''), m)
     else (Inr (), m\<lparr> km_sessions := AList.delete i (km_sessions m), km_reserved := km_reserved m - km_perSession m \<rparr>))"
  by (simp add: km_release_def guard_runs)

lemma delete_one:
  "distinct (map fst xs) \<Longrightarrow> map_of xs k = Some v \<Longrightarrow> Suc (length (AList.delete k xs)) = length xs"
proof (induction xs)
  case (Cons x xs)
  show ?case
  proof (cases "fst x = k")
    case True
    with Cons.prems(1) have "k \<notin> fst ` set xs" by auto
    with True show ?thesis by (cases x) (simp add: delete_id)
  next
    case False
    with Cons show ?thesis by (cases x) auto
  qed
qed simp

section \<open>What the budget needs of a cache\<close>

locale session_cache =
  fixes usage :: "'c \<Rightarrow> exn + u64"
    and fits :: "u64 \<Rightarrow> 'c \<Rightarrow> bool"
  assumes usage_within: "fits n c \<Longrightarrow> \<exists>b. usage c = Inr b \<and> b \<le> n"
begin

definition budget :: "'c kv_manager \<Rightarrow> bool" where
  "budget m \<longleftrightarrow> distinct (map fst (km_sessions m)) \<and> km_perSession m \<le> km_limit m \<and>
     unat (km_reserved m) = length (km_sessions m) * unat (km_perSession m) \<and> km_reserved m \<le> km_limit m \<and>
     (km_next m = 0 \<or> (\<forall>i \<in> fst ` set (km_sessions m). i < km_next m)) \<and>
     (\<forall>c \<in> snd ` set (km_sessions m). fits (km_perSession m) c) \<and> km_peak m \<le> km_limit m"

lemma allocate_room:
  assumes "budget m"
  shows "km_reserved m > km_limit m - km_perSession m \<longleftrightarrow>
    \<not> Suc (length (km_sessions m)) * unat (km_perSession m) \<le> unat (km_limit m)"
proof -
  from assms have le: "km_perSession m \<le> km_limit m"
    and r: "unat (km_reserved m) = length (km_sessions m) * unat (km_perSession m)" by (simp_all add: budget_def)
  then show ?thesis by (simp add: word_less_nat_alt unat_sub word_le_nat_alt) arith
qed

lemma budget_allocate:
  assumes "budget m" and "\<And>c. made = Inr c \<Longrightarrow> fits (km_perSession m) c"
  shows "budget (snd (km_allocate made m))"
proof (cases "km_reserved m > km_limit m - km_perSession m \<or> km_next m = 0")
  case True
  with assms(1) show ?thesis by (auto simp: km_allocate_run)
next
  case False
  then have room: "km_reserved m \<le> km_limit m - km_perSession m" and nz: "km_next m \<noteq> 0" by (simp_all add: not_less)
  have next_id: "i \<le> km_next m \<Longrightarrow> km_next m + 1 = 0 \<or> i < km_next m + 1" for i
    using unatSuc [of "km_next m"] by (cases "1 + km_next m = 0") (auto simp: word_less_nat_alt word_le_nat_alt add.commute)
  have ids: "\<forall>i \<in> fst ` set (km_sessions m). i < km_next m" using assms(1) nz by (auto simp: budget_def)
  then have fresh: "map_of (km_sessions m) (km_next m) = None" by (auto simp: map_of_eq_None_iff)
  show ?thesis
  proof (cases made)
    case (Inl e)
    with False assms(1) ids next_id [OF order_less_imp_le] show ?thesis by (auto simp: km_allocate_run budget_def Let_def)
  next
    case (Inr c)
    from assms(1) have le: "km_perSession m \<le> km_limit m" by (simp add: budget_def)
    have sum: "unat (km_reserved m + km_perSession m) = unat (km_reserved m) + unat (km_perSession m)"
      "km_reserved m + km_perSession m \<le> km_limit m"
      using unat_add_within [OF le room] by (simp_all add: add.commute)
    from Inr False assms ids next_id [OF order_less_imp_le] next_id [OF order_refl] fresh sum show ?thesis
      by (auto simp: km_allocate_run budget_def Let_def map_of_eq_None_iff)
  qed
qed

lemma budget_release:
  assumes "budget m"
  shows "budget (snd (km_release i m))"
proof (cases "map_of (km_sessions m) i")
  case None
  with assms show ?thesis by (simp add: km_release_run)
next
  case (Some c)
  then have mem: "(i, c) \<in> set (km_sessions m)" by (rule map_of_SomeD)
  from assms have dist: "distinct (map fst (km_sessions m))"
    and r: "unat (km_reserved m) = length (km_sessions m) * unat (km_perSession m)" by (simp_all add: budget_def)
  have len: "Suc (length (AList.delete i (km_sessions m))) = length (km_sessions m)"
    by (rule delete_one [OF dist Some])
  with r have le: "unat (km_perSession m) \<le> unat (km_reserved m)" by (metis le_add1 mult_Suc)
  then have "unat (km_reserved m - km_perSession m) = length (AList.delete i (km_sessions m)) * unat (km_perSession m)"
    using r len by (simp add: unat_sub_within) (metis diff_add_inverse mult_Suc)
  moreover have "set (AList.delete i (km_sessions m)) \<subseteq> set (km_sessions m)" by (auto simp: AList.delete_eq)
  moreover have "km_reserved m - km_perSession m \<le> km_limit m"
  proof -
    have "unat (km_reserved m) \<le> unat (km_limit m)" using assms by (simp add: budget_def word_le_nat_alt)
    then show ?thesis unfolding word_le_nat_alt unat_sub_within [OF le] by linarith
  qed
  ultimately show ?thesis
    using assms Some by (auto simp: km_release_run budget_def distinct_delete)
qed

lemma budget_use:
  assumes "budget m" and "\<And>c. (i, c) \<in> set (km_sessions m) \<Longrightarrow> fits (km_perSession m) (f c)"
  shows "budget (km_use i f m)"
proof -
  have "map fst (km_sessions (km_use i f m)) = map fst (km_sessions m)"
    by (simp add: km_use_def comp_def case_prod_unfold)
  then have keys: "fst ` set (km_sessions (km_use i f m)) = fst ` set (km_sessions m)"
    "distinct (map fst (km_sessions (km_use i f m))) = distinct (map fst (km_sessions m))"
    by (metis list.set_map, metis)
  have "fits (km_perSession m) c" if "c \<in> snd ` set (km_sessions (km_use i f m))" for c
    using that assms by (force simp: km_use_def budget_def)
  with assms(1) keys show ?thesis by (simp add: budget_def km_use_def)
qed

lemma committed_within:
  "\<forall>c \<in> snd ` set xs. fits n c \<Longrightarrow> unat committed + length xs * unat n < 2 ^ 64 \<Longrightarrow>
   \<exists>b. committed_bytes usage committed xs = Inr b \<and> unat b \<le> unat committed + length xs * unat n"
proof (induction xs arbitrary: committed)
  case (Cons x xs)
  obtain i c where x: "x = (i, c)" by (cases x)
  with Cons.prems(1) usage_within [of n c] obtain b where b: "usage c = Inr b" "b \<le> n" by auto
  then have le: "unat b \<le> unat n" by (simp add: word_le_nat_alt)
  with Cons.prems(2) have fit: "unat committed + unat b < 2 ^ 64" by simp
  then have sum: "unat (committed + b) = unat committed + unat b" by (simp add: unat_add_lem [THEN iffD1])
  have over: "\<not> committed > u64_max - b"
    using fit by (simp add: word_less_nat_alt unat_u64_max_minus)
  have "\<exists>r. committed_bytes usage (committed + b) xs = Inr r \<and> unat r \<le> unat (committed + b) + length xs * unat n"
    using Cons.prems le sum by (intro Cons.IH) simp_all
  with x b le sum over show ?case by auto
qed simp

lemma stats_within:
  assumes "budget m"
  shows "\<exists>k. fst (km_stats usage m) = Inr k \<and> ks_committed k \<le> ks_reserved k \<and> ks_reserved k \<le> ks_limit k \<and>
    ks_active k = length (km_sessions m) \<and> unat (ks_reserved k) = ks_active k * unat (km_perSession m) \<and>
    ks_committed k \<le> ks_peak k \<and> ks_peak k \<le> ks_limit k \<and> budget (snd (km_stats usage m))"
proof -
  from assms have fit: "\<forall>c \<in> snd ` set (km_sessions m). fits (km_perSession m) c"
    and r: "unat (km_reserved m) = length (km_sessions m) * unat (km_perSession m)"
    and lim: "km_reserved m \<le> km_limit m" "km_peak m \<le> km_limit m" by (simp_all add: budget_def)
  have "unat (0 :: u64) + length (km_sessions m) * unat (km_perSession m) < 2 ^ 64"
    using r unat_u64_less [of "km_reserved m"] by simp
  from committed_within [OF fit this] obtain b where b: "committed_bytes usage 0 (km_sessions m) = Inr b" "b \<le> km_reserved m"
    by (auto simp: r word_le_nat_alt)
  with r lim assms show ?thesis by (auto simp: km_stats_def Let_def budget_def)
qed

end

section \<open>The budget of CPU caches\<close>

definition kv_fits :: "u64 \<Rightarrow> kv_cache \<Rightarrow> bool" where
  "kv_fits n c \<longleftrightarrow> kv_reach c \<and> kv_maximumMemoryUsageBytes c = Some (Inr n)"

definition kv_usage :: "kv_cache \<Rightarrow> exn + u64" where
  "kv_usage c = Inr (kv_memoryUsageBytes c)"

interpretation cpu_budget: session_cache kv_usage kv_fits
  by unfold_locales (use kv_reach_ok kv_memory_exact(2) in \<open>simp add: kv_fits_def kv_usage_def\<close>)

text \<open>No operation changes the dimensions of a cache.\<close>

lemma kv_append_frame:
  "\<exists>lys. snd (kv_append mem alive layer firstPosition k v c) = c\<lparr> kc_layers := lys \<rparr> \<and> length lys = length (kc_layers c)"
proof (cases "snd (kv_append mem alive layer firstPosition k v c) = c")
  case True
  then show ?thesis by (intro exI [of _ "kc_layers c"]) simp
next
  case False
  then show ?thesis
    by (simp add: kv_append_def guard_runs Let_def split: if_splits) (metis length_list_update)
qed

lemma kv_fits_append: "kv_fits n c \<Longrightarrow> view_ok k \<Longrightarrow> view_ok v \<Longrightarrow> kv_fits n (snd (kv_append mem alive layer firstPosition k v c))"
  using kv_append_frame [of mem alive layer firstPosition k v c] kv_appended [of c k v mem alive layer firstPosition]
  by (auto simp: kv_fits_def kv_maximumMemoryUsageBytes_def prod_eq_iff)

lemma kv_fits_clear: "kv_fits n c \<Longrightarrow> kv_fits n (snd (kv_clear layer c))"
  using kv_cleared [of c layer] by (auto simp: kv_fits_def kv_maximumMemoryUsageBytes_def kv_clear_run)

lemma kv_fits_reset: "kv_fits n c \<Longrightarrow> kv_fits n (snd (kv_reset c))"
  using kv_resetted [of c] by (auto simp: kv_fits_def kv_maximumMemoryUsageBytes_def kv_reset_def)

lemma kv_fits_make: "kv_make l s h d = Some (Inr c) \<Longrightarrow> kv_maximumMemoryUsageBytes c = Some (Inr n) \<longleftrightarrow> checkedCacheBytes l s h d = Some (Inr n)"
  by (auto simp: kv_make_def bindr_eq_Inr kv_maximumMemoryUsageBytes_def)

definition make_session :: "'c kv_manager \<Rightarrow> (exn + kv_cache) option" where
  "make_session m = kv_make (km_layerCount m) (km_maximum m) (km_heads m) (km_dimension m)"

inductive km_reach :: "kv_cache kv_manager \<Rightarrow> bool" where
  km_start: "km_make l s h d limit None = Some (Inr m) \<Longrightarrow> km_reach m"
| km_allocated: "km_reach m \<Longrightarrow> make_session m = Some made \<Longrightarrow> km_reach (snd (km_allocate made m))"
| km_released: "km_reach m \<Longrightarrow> km_reach (snd (km_release i m))"
| km_statted: "km_reach m \<Longrightarrow> km_reach (snd (km_stats kv_usage m))"
| km_append: "km_reach m \<Longrightarrow> view_ok k \<Longrightarrow> view_ok v \<Longrightarrow>
    km_reach (km_use i (\<lambda>c. snd (kv_append mem alive layer firstPosition k v c)) m)"
| km_clear: "km_reach m \<Longrightarrow> km_reach (km_use i (\<lambda>c. snd (kv_clear layer c)) m)"
| km_reset: "km_reach m \<Longrightarrow> km_reach (km_use i (\<lambda>c. snd (kv_reset c)) m)"

lemma km_reach_budget:
  "km_reach m \<Longrightarrow> cpu_budget.budget m \<and>
     checkedCacheBytes (km_layerCount m) (km_maximum m) (km_heads m) (km_dimension m) = Some (Inr (km_perSession m))"
proof (induction rule: km_reach.induct)
  case (km_start l s h d limit m)
  then obtain c per where c: "kv_make l s h d = Some (Inr c)" "kv_maximumMemoryUsageBytes c = Some (Inr per)"
    "\<not> (limit = 0 \<or> per > limit)" "m = \<lparr> km_layerCount = l, km_maximum = s, km_heads = h, km_dimension = d,
       km_limit = limit, km_perSession = per, km_peak = 0, km_reserved = 0, km_next = 1, km_backend = None, km_sessions = [] \<rparr>"
    by (auto simp: km_make_def split: option.splits sum.splits if_splits)
  with kv_fits_make [OF c(1), of per] show ?case by (simp add: cpu_budget.budget_def not_less)
next
  case (km_allocated m made)
  have "kv_fits (km_perSession m) c" if "made = Inr c" for c
    using km_allocated kv_fits_make [of "km_layerCount m" "km_maximum m" "km_heads m" "km_dimension m" c] that kv_start
    by (auto simp: make_session_def kv_fits_def)
  with km_allocated cpu_budget.budget_allocate [of m made] show ?case
    by (auto simp: km_allocate_run Let_def split: sum.splits)
next
  case (km_released m i)
  with cpu_budget.budget_release [of m i] show ?case by (auto simp: km_release_run)
next
  case (km_statted m)
  with cpu_budget.stats_within [of m] show ?case by (auto simp: km_stats_def Let_def split: sum.splits)
next
  case (km_append m k v i mem alive layer firstPosition)
  then have "cpu_budget.budget (km_use i (\<lambda>c. snd (kv_append mem alive layer firstPosition k v c)) m)"
    by (intro cpu_budget.budget_use kv_fits_append) (auto simp: cpu_budget.budget_def)
  with km_append show ?case by (simp add: km_use_def)
next
  case (km_clear m i layer)
  then have "cpu_budget.budget (km_use i (\<lambda>c. snd (kv_clear layer c)) m)"
    by (intro cpu_budget.budget_use kv_fits_clear) (auto simp: cpu_budget.budget_def)
  with km_clear show ?case by (simp add: km_use_def)
next
  case (km_reset m i)
  then have "cpu_budget.budget (km_use i (\<lambda>c. snd (kv_reset c)) m)"
    by (intro cpu_budget.budget_use kv_fits_reset) (auto simp: cpu_budget.budget_def)
  with km_reset show ?case by (simp add: km_use_def)
qed

text \<open>C23: In every reachable state of a manager of CPU caches, \<open>stats\<close> returns: the bytes the caches
  hold are at most the bytes reserved, these are the number of sessions times the bytes of a session and
  at most the limit, and so is the peak. No sum wraps around.
\<close>

theorem session_memory_bounded:
  assumes "km_reach m"
  shows "\<exists>k. fst (km_stats kv_usage m) = Inr k \<and> ks_committed k \<le> ks_reserved k \<and> ks_reserved k \<le> ks_limit k \<and>
    unat (ks_reserved k) = ks_active k * unat (km_perSession m) \<and> ks_committed k \<le> ks_peak k \<and> ks_peak k \<le> ks_limit k"
  using cpu_budget.stats_within [of m] km_reach_budget [OF assms] by blast

text \<open>An example: sessions of 32 bytes and a limit of 100.\<close>

definition example_manager :: "kv_cache kv_manager" where
  "example_manager = \<lparr> km_layerCount = 1, km_maximum = 2, km_heads = 1, km_dimension = 1, km_limit = 100,
     km_perSession = 32, km_peak = 0, km_reserved = 0, km_next = 1, km_backend = None, km_sessions = [] \<rparr>"

lemma example_manager_reach: "km_reach example_manager"
  by (rule km_start [of 1 2 1 1 100])
    (simp add: km_make_def kv_make_def kv_maximumMemoryUsageBytes_def checkedCacheBytes_def example_manager_def
      word_le_nat_alt word_less_nat_alt unat_div unat_u64_max)

theorem session_memory_bounded_witness:
  "\<exists>k. fst (km_stats kv_usage example_manager) = Inr k \<and> ks_reserved k \<le> ks_limit k"
  using session_memory_bounded [OF example_manager_reach] by blast

text \<open>A session is granted exactly when one more session fits the limit and an id is left; the id
  is then new and not zero, the session starts with an empty cache and the other sessions keep theirs.
  A release gives back exactly the bytes of one session.
\<close>

theorem session_granted_when_room:
  assumes "km_reach m" and "make_session m = Some made"
  shows "((\<exists>i. fst (km_allocate made m) = Inr i) \<longleftrightarrow>
            km_next m \<noteq> 0 \<and> Suc (length (km_sessions m)) * unat (km_perSession m) \<le> unat (km_limit m)) \<and>
         (case km_allocate made m of
            (Inr i, m') \<Rightarrow> i \<noteq> 0 \<and> map_of (km_sessions m) i = None \<and>
               (\<exists>c. kv_log c = replicate (unat (km_layerCount m)) [] \<and> km_sessions m' = (i, c) # km_sessions m) \<and>
               km_reserved (snd (km_release i m')) = km_reserved m
          | (Inl e, m') \<Rightarrow> km_sessions m' = km_sessions m \<and> km_reserved m' = km_reserved m)"
proof -
  from km_reach_budget [OF assms(1)] have b: "cpu_budget.budget m"
    and k: "checkedCacheBytes (km_layerCount m) (km_maximum m) (km_heads m) (km_dimension m) = Some (Inr (km_perSession m))"
    by simp_all
  from assms(2) k obtain c where c: "made = Inr c" "kv_log c = replicate (unat (km_layerCount m)) []"
    by (auto simp: make_session_def kv_make_def kv_log_def)
  have fresh: "map_of (km_sessions m) (km_next m) = None" if "km_next m \<noteq> 0"
    using b that by (auto simp: cpu_budget.budget_def map_of_eq_None_iff)
  show ?thesis
  proof (cases "km_reserved m > km_limit m - km_perSession m \<or> km_next m = 0")
    case True
    with cpu_budget.allocate_room [OF b] show ?thesis by (auto simp: km_allocate_run)
  next
    case False
    with cpu_budget.allocate_room [OF b] c fresh show ?thesis
      by (auto simp: km_allocate_run km_release_run Let_def)
  qed
qed

end
