(* ===== verification/Cuda_Pool.thy ===== *)
theory Cuda_Pool
  imports Prelude "HOL-Library.Multiset"
begin

text \<open>
  \<^verbatim>\<open>src/backend/cuda/CudaMemoryPool.cpp\<close>: a pool of device memory. Freed buffers are cached, up to a bound, and
  reused best fit. Pointers are addresses; what the backend answers to an allocation is an argument,
  and the calls of the backend are recorded in order. A function that holds the lock is
  one step; a pointer that a thread has taken out of the pool and not yet given to the backend is in flight. The
  lemmas show that every device block is in exactly one place, whatever the threads interleave, and
  that the statistics are exact.
\<close>

section \<open>The pool\<close>

record pool_statistics =
  ps_allocatedBytes :: u64
  ps_activeBytes :: u64
  ps_freeBytes :: u64
  ps_peakUsageBytes :: u64
  ps_allocationCount :: u64
  ps_reuseCount :: u64

datatype pool_call = CallAllocate u64 u64 | CallFree u64

text \<open>The multimap of free blocks lists capacity and pointer in ascending order of capacity.\<close>

record cuda_pool =
  cp_maximumCachedBytes :: u64
  cp_freeBlocks :: "(u64 \<times> u64) list"
  cp_activeBlocks :: "(u64 \<times> u64) list"
  cp_statistics :: pool_statistics
  cp_accepting :: bool
  cp_calls :: "pool_call list"

definition pool_new :: "bool option \<Rightarrow> u64 \<Rightarrow> exn + cuda_pool" where
  "pool_new backend maximumCachedBytes =
     (if backend \<noteq> Some True then Inl (InvalidArgument ''CudaMemoryPool requires an available backend'')
      else Inr \<lparr> cp_maximumCachedBytes = maximumCachedBytes, cp_freeBlocks = [], cp_activeBlocks = [],
        cp_statistics = \<lparr> ps_allocatedBytes = 0, ps_activeBytes = 0, ps_freeBytes = 0, ps_peakUsageBytes = 0,
          ps_allocationCount = 0, ps_reuseCount = 0 \<rparr>, cp_accepting = True, cp_calls = [] \<rparr>)"

definition kPoolAlignment :: u64 where
  "kPoolAlignment = 256"

definition alignedSize :: "u64 \<Rightarrow> exn + u64" where
  "alignedSize n =
     (if n = 0 then Inl (InvalidArgument ''memory-pool allocation must be nonzero'')
      else if n > u64_max - (kPoolAlignment - 1) then Inl (OverflowError ''memory-pool allocation size overflow'')
      else Inr ((n + kPoolAlignment - 1) div kPoolAlignment * kPoolAlignment))"

definition free_lower_bound :: "u64 \<Rightarrow> (u64 \<times> u64) list \<Rightarrow> (u64 \<times> u64) option" where
  "free_lower_bound capacity blocks = find (\<lambda>(c, p). capacity \<le> c) blocks"

definition free_emplace :: "u64 \<Rightarrow> u64 \<Rightarrow> (u64 \<times> u64) list \<Rightarrow> (u64 \<times> u64) list" where
  "free_emplace capacity pointer blocks =
     takeWhile (\<lambda>(c, p). c \<le> capacity) blocks @ (capacity, pointer) # dropWhile (\<lambda>(c, p). c \<le> capacity) blocks"

abbreviation stats_update :: "(pool_statistics \<Rightarrow> pool_statistics) \<Rightarrow> cuda_pool \<Rightarrow> cuda_pool" where
  "stats_update f s \<equiv> s\<lparr> cp_statistics := f (cp_statistics s) \<rparr>"

text \<open>The pointer, its capacity, and whether it was reused.\<close>

definition take_block :: "u64 \<Rightarrow> exn + u64 \<Rightarrow> (cuda_pool, u64 \<times> u64 \<times> bool) prog" where
  "take_block capacity answer = (\<lambda>s. case free_lower_bound capacity (cp_freeBlocks s) of
     Some (c, p) \<Rightarrow> (Inr (p, c, True),
       stats_update (\<lambda>t. t\<lparr> ps_freeBytes := ps_freeBytes t - c, ps_reuseCount := ps_reuseCount t + 1 \<rparr>)
         (s\<lparr> cp_freeBlocks := remove1 (c, p) (cp_freeBlocks s) \<rparr>))
   | None \<Rightarrow> (case answer of
       Inl e \<Rightarrow> (Inl e, s)
     | Inr p \<Rightarrow> (Inr (p, capacity, False),
         stats_update (\<lambda>t. t\<lparr> ps_allocatedBytes := ps_allocatedBytes t + capacity,
                               ps_allocationCount := ps_allocationCount t + 1 \<rparr>)
           (s\<lparr> cp_calls := cp_calls s @ [CallAllocate p capacity] \<rparr>))))"

text \<open>\<open>failure\<close> is what the emplacement throws, if it does.\<close>

definition activate :: "u64 \<Rightarrow> u64 \<Rightarrow> bool \<Rightarrow> exn option \<Rightarrow> (cuda_pool, u64 \<times> u64) prog" where
  "activate pointer capacity wasReused failure = (\<lambda>s.
     case (if map_of (cp_activeBlocks s) pointer \<noteq> None
           then Some (LogicError ''memory-pool pointer is already active'') else failure) of
       Some e \<Rightarrow> (Inl e,
         stats_update (\<lambda>t. t\<lparr> ps_allocatedBytes := ps_allocatedBytes t - capacity,
             ps_reuseCount := (if wasReused then ps_reuseCount t - 1 else ps_reuseCount t),
             ps_allocationCount := (if wasReused then ps_allocationCount t else ps_allocationCount t - 1) \<rparr>)
           (s\<lparr> cp_calls := cp_calls s @ [CallFree pointer] \<rparr>))
     | None \<Rightarrow> (Inr (pointer, capacity),
         stats_update (\<lambda>t. t\<lparr> ps_activeBytes := ps_activeBytes t + capacity,
             ps_peakUsageBytes := max (ps_peakUsageBytes t) (ps_activeBytes t + capacity) \<rparr>)
           (s\<lparr> cp_activeBlocks := (pointer, capacity) # cp_activeBlocks s \<rparr>)))"

definition pool_acquire :: "u64 \<Rightarrow> exn + u64 \<Rightarrow> exn option \<Rightarrow> (cuda_pool, u64 \<times> u64) prog" where
  "pool_acquire requested answer failure =
     (case alignedSize requested of Inl e \<Rightarrow> raise e | Inr capacity \<Rightarrow>
      bindp (gets cp_accepting) (\<lambda>accepting.
      thenp (require accepting (RuntimeError ''CUDA memory pool is shut down''))
     (bindp (take_block capacity answer) (\<lambda>(pointer, actualCapacity, wasReused).
        activate pointer actualCapacity wasReused failure))))"

text \<open>What a release does under the lock: the pointer and capacity it leaves the lock with, to
  be freed. \<open>cacheable\<close> is false when the insertion into the multimap throws.\<close>

definition pool_release :: "u64 \<Rightarrow> bool \<Rightarrow> cuda_pool \<Rightarrow> (u64 \<times> u64) option \<times> cuda_pool" where
  "pool_release pointer cacheable s =
     (if pointer = 0 then (None, s)
      else case map_of (cp_activeBlocks s) pointer of
        None \<Rightarrow> (None, s)
      | Some capacity \<Rightarrow>
          (let s' = stats_update (\<lambda>t. t\<lparr> ps_activeBytes := ps_activeBytes t - capacity \<rparr>)
                      (s\<lparr> cp_activeBlocks := AList.delete pointer (cp_activeBlocks s) \<rparr>);
               freeBytes = ps_freeBytes (cp_statistics s')
           in if cp_accepting s' \<and> freeBytes \<le> cp_maximumCachedBytes s' \<and>
                 capacity \<le> cp_maximumCachedBytes s' - freeBytes \<and> cacheable
              then (None, stats_update (\<lambda>t. t\<lparr> ps_freeBytes := ps_freeBytes t + capacity \<rparr>)
                            (s'\<lparr> cp_freeBlocks := free_emplace capacity pointer (cp_freeBlocks s') \<rparr>))
              else (Some (pointer, capacity),
                    stats_update (\<lambda>t. t\<lparr> ps_allocatedBytes := ps_allocatedBytes t - capacity \<rparr>) s')))"

text \<open>One round of \<open>drainFreeBlocks\<close> under the lock; the loop ends when there is no block.\<close>

definition drain_block :: "cuda_pool \<Rightarrow> (u64 \<times> u64) option \<times> cuda_pool" where
  "drain_block s = (case cp_freeBlocks s of
     [] \<Rightarrow> (None, s)
   | (c, p) # blocks \<Rightarrow> (Some (p, c),
       stats_update (\<lambda>t. t\<lparr> ps_allocatedBytes := ps_allocatedBytes t - c, ps_freeBytes := ps_freeBytes t - c \<rparr>)
         (s\<lparr> cp_freeBlocks := blocks \<rparr>)))"

definition backend_free :: "u64 \<Rightarrow> cuda_pool \<Rightarrow> cuda_pool" where
  "backend_free pointer s = s\<lparr> cp_calls := cp_calls s @ [CallFree pointer] \<rparr>"

definition stop_accepting :: "cuda_pool \<Rightarrow> cuda_pool" where
  "stop_accepting s = s\<lparr> cp_accepting := False \<rparr>"

text \<open>A thread that drains alone.\<close>

function pool_trim :: "cuda_pool \<Rightarrow> cuda_pool" where
  "pool_trim s = (case drain_block s of (None, t) \<Rightarrow> t | (Some (p, c), t) \<Rightarrow> pool_trim (backend_free p t))"
  by pat_completeness auto
termination
  by (relation "measure (length \<circ> cp_freeBlocks)") (auto simp: drain_block_def backend_free_def split: list.splits)

declare pool_trim.simps [simp del]

definition pool_shutdown :: "cuda_pool \<Rightarrow> cuda_pool" where
  "pool_shutdown s = pool_trim (stop_accepting s)"

section \<open>Buffers\<close>

text \<open>A \<open>CudaBuffer\<close>; without the pool's state it is empty.\<close>

record cuda_buffer =
  cb_attached :: bool
  cb_data :: u64
  cb_size :: u64
  cb_capacity :: u64

definition buffer_empty :: cuda_buffer where
  "buffer_empty = \<lparr> cb_attached = False, cb_data = 0, cb_size = 0, cb_capacity = 0 \<rparr>"

definition pool_allocate :: "u64 \<Rightarrow> exn + u64 \<Rightarrow> exn option \<Rightarrow> (cuda_pool, cuda_buffer) prog" where
  "pool_allocate sizeBytes answer failure = bindp (pool_acquire sizeBytes answer failure) (\<lambda>(pointer, capacity).
     ret \<lparr> cb_attached = True, cb_data = pointer, cb_size = sizeBytes, cb_capacity = capacity \<rparr>)"

text \<open>\<open>reset\<close>: the empty buffer, what is left to free, and the pool.\<close>

definition buffer_reset :: "bool \<Rightarrow> cuda_buffer \<Rightarrow> cuda_pool \<Rightarrow> cuda_buffer \<times> (u64 \<times> u64) option \<times> cuda_pool" where
  "buffer_reset cacheable b s =
     (buffer_empty, if cb_attached b then pool_release (cb_data b) cacheable s else (None, s))"

text \<open>Move construction and assignment to another buffer: the target, the source, and for the assignment the rest.\<close>

definition buffer_move :: "cuda_buffer \<Rightarrow> cuda_buffer \<times> cuda_buffer" where
  "buffer_move other = (other, buffer_empty)"

definition buffer_assign :: "bool \<Rightarrow> cuda_buffer \<Rightarrow> cuda_buffer \<Rightarrow> cuda_pool \<Rightarrow>
    (cuda_buffer \<times> cuda_buffer) \<times> (u64 \<times> u64) option \<times> cuda_pool" where
  "buffer_assign cacheable this other s = (buffer_move other, snd (buffer_reset cacheable this s))"

text \<open>\<open>made\<close> is what the constructor of the device buffer throws, if it does; the pointer goes back then.\<close>

definition pool_allocateDeviceBuffer :: "u64 \<Rightarrow> exn + u64 \<Rightarrow> exn option \<Rightarrow> exn option \<Rightarrow> cuda_pool \<Rightarrow>
    (exn + u64) \<times> (u64 \<times> u64) option \<times> cuda_pool" where
  "pool_allocateDeviceBuffer sizeBytes answer failure made s =
     (case pool_acquire sizeBytes answer failure s of
        (Inl e, t) \<Rightarrow> (Inl e, None, t)
      | (Inr (pointer, capacity), t) \<Rightarrow> (case made of
          None \<Rightarrow> (Inr pointer, None, t)
        | Some e \<Rightarrow> (Inl e, pool_release pointer True t)))"

section \<open>Threads\<close>

text \<open>What the device holds after the calls made: pointers and sizes.\<close>

fun device_after :: "pool_call list \<Rightarrow> (u64 \<times> u64) list \<Rightarrow> (u64 \<times> u64) list" where
  "device_after [] d = d"
| "device_after (CallAllocate p c # calls) d = device_after calls ((p, c) # d)"
| "device_after (CallFree p # calls) d = device_after calls (AList.delete p d)"

definition device_blocks :: "cuda_pool \<Rightarrow> (u64 \<times> u64) list" where
  "device_blocks s = device_after (cp_calls s) []"

definition block_bytes :: "(u64 \<times> u64) list \<Rightarrow> nat" where
  "block_bytes d = sum_list (map (unat \<circ> snd) d)"

text \<open>The backend: an allocation throws, or gives a new block of the device that is not null.\<close>

definition backend_answers :: "cuda_pool \<Rightarrow> u64 \<Rightarrow> exn + u64 \<Rightarrow> bool" where
  "backend_answers s capacity answer \<longleftrightarrow> (case answer of Inl e \<Rightarrow> True
     | Inr p \<Rightarrow> p \<noteq> 0 \<and> map_of (device_blocks s) p = None \<and> block_bytes (device_blocks s) + unat capacity < 2 ^ 64)"

record pool_system =
  sy_pool :: cuda_pool
  sy_held :: "u64 list"
  sy_flight :: "(u64 \<times> u64) list"

inductive pool_step :: "pool_system \<Rightarrow> pool_system \<Rightarrow> bool" where
  step_acquire: "(\<And>capacity. alignedSize requested = Inr capacity \<Longrightarrow> backend_answers (sy_pool s) capacity answer) \<Longrightarrow>
    pool_acquire requested answer failure (sy_pool s) = (r, q) \<Longrightarrow>
    pool_step s (s\<lparr> sy_pool := q, sy_held := (case r of Inl e \<Rightarrow> sy_held s | Inr (p, c) \<Rightarrow> p # sy_held s) \<rparr>)"
| step_release: "p \<in> set (sy_held s) \<Longrightarrow> pool_release p cacheable (sy_pool s) = (r, q) \<Longrightarrow>
    pool_step s (s\<lparr> sy_pool := q, sy_held := remove1 p (sy_held s),
      sy_flight := (case r of None \<Rightarrow> sy_flight s | Some b \<Rightarrow> b # sy_flight s) \<rparr>)"
| step_drain: "drain_block (sy_pool s) = (Some b, q) \<Longrightarrow>
    pool_step s (s\<lparr> sy_pool := q, sy_flight := b # sy_flight s \<rparr>)"
| step_free: "(p, c) \<in> set (sy_flight s) \<Longrightarrow>
    pool_step s (s\<lparr> sy_pool := backend_free p (sy_pool s), sy_flight := remove1 (p, c) (sy_flight s) \<rparr>)"
| step_stop: "pool_step s (s\<lparr> sy_pool := stop_accepting (sy_pool s) \<rparr>)"

inductive pool_reach :: "pool_system \<Rightarrow> bool" where
  pool_start: "pool_new (Some True) maximum = Inr s \<Longrightarrow> pool_reach \<lparr> sy_pool = s, sy_held = [], sy_flight = [] \<rparr>"
| pool_next: "pool_reach s \<Longrightarrow> pool_step s t \<Longrightarrow> pool_reach t"

section \<open>Every block is in one place\<close>

definition free_list :: "cuda_pool \<Rightarrow> (u64 \<times> u64) list" where
  "free_list s = map (\<lambda>(c, p). (p, c)) (cp_freeBlocks s)"

text \<open>The blocks \<open>out\<close> are outside the pool, and \<open>charged\<close> bytes of them are still counted as
  allocated.\<close>

definition pool_ok :: "(u64 \<times> u64) list \<Rightarrow> nat \<Rightarrow> cuda_pool \<Rightarrow> bool" where
  "pool_ok out charged s \<longleftrightarrow> (let d = device_blocks s; t = cp_statistics s in
     mset d = mset (free_list s) + mset (cp_activeBlocks s) + mset out \<and>
     distinct (map fst d) \<and> 0 \<notin> fst ` set d \<and> block_bytes d < 2 ^ 64 \<and>
     unat (ps_allocatedBytes t) = block_bytes (free_list s) + block_bytes (cp_activeBlocks s) + charged \<and>
     unat (ps_activeBytes t) = block_bytes (cp_activeBlocks s) \<and>
     unat (ps_freeBytes t) = block_bytes (free_list s) \<and>
     ps_freeBytes t \<le> cp_maximumCachedBytes s \<and> ps_activeBytes t \<le> ps_peakUsageBytes t \<and>
     sorted (map fst (cp_freeBlocks s)))"

lemma block_bytes_simps [simp]:
  "block_bytes [] = 0" "block_bytes (b # d) = unat (snd b) + block_bytes d"
  "block_bytes (d @ e) = block_bytes d + block_bytes e"
  by (simp_all add: block_bytes_def)

lemma block_bytes_mset: "mset d = mset e \<Longrightarrow> block_bytes d = block_bytes e"
  unfolding block_bytes_def by (metis mset_map sum_mset_sum_list)

lemma block_bytes_remove1: "b \<in> set d \<Longrightarrow> block_bytes d = unat (snd b) + block_bytes (remove1 b d)"
  by (induction d) auto

lemma device_after_append: "device_after (xs @ ys) d = device_after ys (device_after xs d)"
  by (induction xs d rule: device_after.induct) simp_all

lemma device_blocks_call [simp]:
  "device_blocks (s\<lparr> cp_calls := cp_calls s @ [CallAllocate p c] \<rparr>) = (p, c) # device_blocks s"
  "device_blocks (s\<lparr> cp_calls := cp_calls s @ [CallFree p] \<rparr>) = AList.delete p (device_blocks s)"
  by (simp_all add: device_blocks_def device_after_append)

lemma device_blocks_frame [simp]:
  "device_blocks (s\<lparr> cp_freeBlocks := f \<rparr>) = device_blocks s" "device_blocks (s\<lparr> cp_activeBlocks := f \<rparr>) = device_blocks s"
  "device_blocks (s\<lparr> cp_statistics := t \<rparr>) = device_blocks s" "device_blocks (s\<lparr> cp_accepting := b \<rparr>) = device_blocks s"
  by (simp_all add: device_blocks_def)

lemma free_list_frame [simp]:
  "free_list (s\<lparr> cp_statistics := t \<rparr>) = free_list s" "free_list (s\<lparr> cp_activeBlocks := a \<rparr>) = free_list s"
  "free_list (s\<lparr> cp_calls := k \<rparr>) = free_list s" "free_list (s\<lparr> cp_accepting := b \<rparr>) = free_list s"
  by (simp_all add: free_list_def)

lemma mset_delete: "distinct (map fst d) \<Longrightarrow> (p, c) \<in> set d \<Longrightarrow> mset (AList.delete p d) = mset d - {#(p, c)#}"
proof (induction d)
  case (Cons b d)
  show ?case
  proof (cases "fst b = p")
    case True
    with Cons.prems have "p \<notin> fst ` set d" by auto
    with True Cons.prems show ?thesis by (cases b) (auto simp: image_iff)
  next
    case False
    with Cons show ?thesis by (cases b) auto
  qed
qed simp

lemma pool_ok_fields:
  assumes "pool_ok out charged s"
  shows "mset (device_blocks s) = mset (free_list s) + mset (cp_activeBlocks s) + mset out"
    and "distinct (map fst (device_blocks s))" and "0 \<notin> fst ` set (device_blocks s)"
    and "block_bytes (device_blocks s) < 2 ^ 64"
    and "unat (ps_allocatedBytes (cp_statistics s)) = block_bytes (free_list s) + block_bytes (cp_activeBlocks s) + charged"
    and "unat (ps_activeBytes (cp_statistics s)) = block_bytes (cp_activeBlocks s)"
    and "unat (ps_freeBytes (cp_statistics s)) = block_bytes (free_list s)"
    and "ps_freeBytes (cp_statistics s) \<le> cp_maximumCachedBytes s"
    and "ps_activeBytes (cp_statistics s) \<le> ps_peakUsageBytes (cp_statistics s)"
    and "sorted (map fst (cp_freeBlocks s))"
  using assms by (simp_all add: pool_ok_def Let_def)

text \<open>The pointers of the free, active and outside blocks are all different.\<close>

lemma pool_ok_places:
  assumes "pool_ok out charged s"
  shows "distinct (map fst (free_list s @ cp_activeBlocks s @ out))"
    and "set (device_blocks s) = set (free_list s) \<union> set (cp_activeBlocks s) \<union> set out"
    and "block_bytes (free_list s) + block_bytes (cp_activeBlocks s) + block_bytes out = block_bytes (device_blocks s)"
proof -
  have m: "mset (free_list s @ cp_activeBlocks s @ out) = mset (device_blocks s)"
    using pool_ok_fields(1) [OF assms] by simp
  then have "mset (map fst (free_list s @ cp_activeBlocks s @ out)) = mset (map fst (device_blocks s))"
    by (metis mset_map)
  then show "distinct (map fst (free_list s @ cp_activeBlocks s @ out))"
    using pool_ok_fields(2) [OF assms] mset_eq_imp_distinct_iff by blast
  from m show "set (device_blocks s) = set (free_list s) \<union> set (cp_activeBlocks s) \<union> set out"
    by (metis Un_assoc mset_eq_setD set_append)
  from block_bytes_mset [OF m] show
    "block_bytes (free_list s) + block_bytes (cp_activeBlocks s) + block_bytes out = block_bytes (device_blocks s)" by simp
qed

subsection \<open>Acquire\<close>

lemma sorted_map_remove1: "sorted (map f xs) \<Longrightarrow> sorted (map f (remove1 b xs))"
  by (induction xs) (auto dest: set_remove1_subset [THEN subsetD])

lemma lower_bound_Some:
  assumes "free_lower_bound k blocks = Some (c, p)"
  shows "(c, p) \<in> set blocks" and "k \<le> c"
  using assms by (auto simp: free_lower_bound_def find_Some_iff) (metis nth_mem)

lemma free_list_remove1:
  "free_list (s\<lparr> cp_freeBlocks := remove1 (c, p) (cp_freeBlocks s) \<rparr>) = remove1 (p, c) (free_list s)"
proof -
  have "map (\<lambda>(c, p). (p, c)) (remove1 (c, p) xs) = remove1 (p, c) (map (\<lambda>(c, p). (p, c)) xs)" for xs :: "(u64 \<times> u64) list"
    by (induction xs) auto
  then show ?thesis by (simp add: free_list_def)
qed

lemma take_block_ok:
  assumes ok: "pool_ok out 0 s" and ans: "backend_answers s capacity answer"
    and run: "take_block capacity answer s = (Inr (p, c, reused), t)"
  shows "pool_ok ((p, c) # out) (unat c) t" and "capacity \<le> c"
proof -
  note f = pool_ok_fields [OF ok] and places = pool_ok_places [OF ok]
  have "pool_ok ((p, c) # out) (unat c) t \<and> capacity \<le> c"
  proof (cases "free_lower_bound capacity (cp_freeBlocks s)")
    case (Some b)
    with run have b: "b = (c, p)" and t: "t = stats_update (\<lambda>t. t\<lparr> ps_freeBytes := ps_freeBytes t - c,
        ps_reuseCount := ps_reuseCount t + 1 \<rparr>) (s\<lparr> cp_freeBlocks := remove1 (c, p) (cp_freeBlocks s) \<rparr>)"
      by (auto simp: take_block_def split: prod.splits)
    note lb = lower_bound_Some [OF Some [unfolded b]]
    then have mem: "(p, c) \<in> set (free_list s)" by (force simp: free_list_def)
    have bytes: "block_bytes (free_list s) = unat c + block_bytes (remove1 (p, c) (free_list s))"
      using block_bytes_remove1 [OF mem] by simp
    then have "unat (ps_freeBytes (cp_statistics s) - c) = block_bytes (remove1 (p, c) (free_list s))"
      using f(7) by (simp add: unat_sub_within)
    moreover from this bytes f(7,8) have "ps_freeBytes (cp_statistics s) - c \<le> cp_maximumCachedBytes s"
      by (simp add: word_le_nat_alt)
    moreover have "add_mset (p, c) (mset (remove1 (p, c) (free_list s))) = mset (free_list s)" using mem by simp
    ultimately show ?thesis
      using f bytes lb(2) sorted_map_remove1 [of fst "cp_freeBlocks s" "(c, p)"]
      by (simp add: pool_ok_def Let_def t free_list_remove1)
  next
    case None
    with run have ans': "answer = Inr p" "c = capacity" and t: "t = stats_update (\<lambda>t. t\<lparr> ps_allocatedBytes := ps_allocatedBytes t + capacity,
        ps_allocationCount := ps_allocationCount t + 1 \<rparr>) (s\<lparr> cp_calls := cp_calls s @ [CallAllocate p capacity] \<rparr>)"
      by (auto simp: take_block_def split: sum.splits)
    from ans ans'(1) have new: "p \<noteq> 0" "p \<notin> fst ` set (device_blocks s)"
      "block_bytes (device_blocks s) + unat capacity < 2 ^ 64"
      by (auto simp: backend_answers_def map_of_eq_None_iff)
    have "unat (ps_allocatedBytes (cp_statistics s)) + unat capacity < 2 ^ 64"
      using places(3) new(3) f(5) by linarith
    then have "unat (ps_allocatedBytes (cp_statistics s) + capacity) = unat (ps_allocatedBytes (cp_statistics s)) + unat capacity"
      by (simp add: unat_add_lem [THEN iffD1])
    with f new show ?thesis
      by (simp add: pool_ok_def Let_def t ans'(2))
  qed
  then show "pool_ok ((p, c) # out) (unat c) t" "capacity \<le> c" by simp_all
qed

lemma activate_ok:
  assumes ok: "pool_ok ((p, c) # out) (unat c) s"
  shows "case activate p c reused failure s of
     (Inr b, t) \<Rightarrow> b = (p, c) \<and> pool_ok out 0 t \<and> cp_activeBlocks t = (p, c) # cp_activeBlocks s
   | (Inl e, t) \<Rightarrow> failure = Some e \<and> pool_ok out 0 t \<and> cp_activeBlocks t = cp_activeBlocks s"
proof -
  note f = pool_ok_fields [OF ok] and places = pool_ok_places [OF ok]
  from places(1) have "p \<notin> fst ` set (cp_activeBlocks s)" by auto
  then have fresh: "map_of (cp_activeBlocks s) p = None" by (simp add: map_of_eq_None_iff)
  show ?thesis
  proof (cases failure)
    case None
    have "unat (ps_activeBytes (cp_statistics s)) + unat c < 2 ^ 64"
      using places(3) f(4,6) by simp
    then have "unat (ps_activeBytes (cp_statistics s) + c) = unat (ps_activeBytes (cp_statistics s)) + unat c"
      by (simp add: unat_add_lem [THEN iffD1])
    with f fresh None show ?thesis
      by (simp add: activate_def pool_ok_def Let_def)
  next
    case (Some e)
    have mem: "(p, c) \<in> set (device_blocks s)" using places(2) by simp
    have del: "mset (AList.delete p (device_blocks s)) = mset (device_blocks s) - {#(p, c)#}"
      by (rule mset_delete [OF f(2) mem])
    have "block_bytes (AList.delete p (device_blocks s)) \<le> block_bytes (device_blocks s)"
    proof -
      from del mem have "mset (device_blocks s) = mset ((p, c) # AList.delete p (device_blocks s))" by simp
      from block_bytes_mset [OF this] show ?thesis by simp
    qed
    moreover have "unat (ps_allocatedBytes (cp_statistics s) - c) = block_bytes (free_list s) + block_bytes (cp_activeBlocks s)"
      using f(5) by (simp add: unat_sub_within)
    moreover have "0 \<notin> fst ` set (AList.delete p (device_blocks s))"
      using f(3) dom_delete_subset [of p "device_blocks s"] by blast
    ultimately show ?thesis
      using f fresh Some del by (simp add: activate_def pool_ok_def Let_def distinct_delete)
  qed
qed

lemma acquire_ok:
  assumes ok: "pool_ok out 0 s" and ans: "\<And>capacity. alignedSize requested = Inr capacity \<Longrightarrow> backend_answers s capacity answer"
  shows "case pool_acquire requested answer failure s of
     (Inr (p, c), t) \<Rightarrow> pool_ok out 0 t \<and> cp_activeBlocks t = (p, c) # cp_activeBlocks s \<and>
        (\<exists>k. alignedSize requested = Inr k \<and> k \<le> c)
   | (Inl e, t) \<Rightarrow> pool_ok out 0 t \<and> cp_activeBlocks t = cp_activeBlocks s"
proof (cases "alignedSize requested")
  case (Inr k)
  show ?thesis
  proof (cases "cp_accepting s")
    case True
    show ?thesis
    proof (cases "take_block k answer s")
      case (Pair x t)
      show ?thesis
      proof (cases x)
        case (Inl e)
        with Pair True Inr ok show ?thesis
          by (auto simp: pool_acquire_def guard_runs take_block_def split: option.splits sum.splits)
      next
        case right: (Inr b)
        obtain p c reused where b: "b = (p, c, reused)" by (cases b)
        note run = Pair [unfolded right b]
        have act: "cp_activeBlocks t = cp_activeBlocks s"
          using run by (auto simp: take_block_def split: option.splits sum.splits)
        from take_block_ok [OF ok ans [OF Inr] run] have t: "pool_ok ((p, c) # out) (unat c) t" "k \<le> c" by simp_all
        have "pool_acquire requested answer failure s = activate p c reused failure t"
          using Inr True run by (simp add: pool_acquire_def guard_runs)
        with activate_ok [OF t(1), where reused = reused and failure = failure] act t(2) Inr show ?thesis
          by (auto split: sum.splits prod.splits)
      qed
    qed
  next
    case False
    with Inr ok show ?thesis by (simp add: pool_acquire_def guard_runs)
  qed
qed (use ok in \<open>simp add: pool_acquire_def\<close>)

subsection \<open>Release, drain and the backend's free\<close>

lemma free_list_emplace:
  "mset (free_list (s\<lparr> cp_freeBlocks := free_emplace c p (cp_freeBlocks s) \<rparr>)) = add_mset (p, c) (mset (free_list s))"
proof -
  have "mset (takeWhile P xs @ b # dropWhile P xs) = add_mset b (mset (takeWhile P xs @ dropWhile P xs))"
    for P and b :: "u64 \<times> u64" and xs by (simp del: takeWhile_dropWhile_id)
  then have "mset (free_emplace c p xs) = add_mset (c, p) (mset xs)" for xs
    unfolding free_emplace_def takeWhile_dropWhile_id .
  then show ?thesis by (simp add: free_list_def)
qed

lemma free_emplace_simps:
  "free_emplace c p [] = [(c, p)]"
  "free_emplace c p (b # blocks) = (if fst b \<le> c then b # free_emplace c p blocks else (c, p) # b # blocks)"
  by (auto simp: free_emplace_def split: prod.splits)

lemma sorted_emplace: "sorted (map fst blocks) \<Longrightarrow> sorted (map fst (free_emplace c p blocks))"
proof (induction blocks)
  case (Cons b blocks)
  have "set (free_emplace c p blocks) \<subseteq> insert (c, p) (set blocks)"
    by (auto simp: free_emplace_def dest: set_takeWhileD set_dropWhileD)
  with Cons show ?case by (fastforce simp: free_emplace_simps not_le)
qed (simp add: free_emplace_simps)

lemma release_ok:
  assumes ok: "pool_ok out 0 s" and mem: "(p, c) \<in> set (cp_activeBlocks s)"
  shows "case pool_release p cacheable s of
     (None, t) \<Rightarrow> pool_ok out 0 t \<and> cp_activeBlocks t = AList.delete p (cp_activeBlocks s)
   | (Some b, t) \<Rightarrow> b = (p, c) \<and> pool_ok (b # out) 0 t \<and> cp_activeBlocks t = AList.delete p (cp_activeBlocks s)"
proof -
  note f = pool_ok_fields [OF ok] and places = pool_ok_places [OF ok]
  have dist: "distinct (map fst (cp_activeBlocks s))" using places(1) by simp
  then have look: "map_of (cp_activeBlocks s) p = Some c" using mem by simp
  have p0: "p \<noteq> 0" using f(3) mem places(2) by (force simp: image_iff)
  have del: "mset (AList.delete p (cp_activeBlocks s)) = mset (cp_activeBlocks s) - {#(p, c)#}"
    by (rule mset_delete [OF dist mem])
  then have act: "mset (cp_activeBlocks s) = mset ((p, c) # AList.delete p (cp_activeBlocks s))" using mem by simp
  from block_bytes_mset [OF act] have bytes: "block_bytes (cp_activeBlocks s) = unat c + block_bytes (AList.delete p (cp_activeBlocks s))"
    by simp
  have ab: "unat (ps_activeBytes (cp_statistics s) - c) = block_bytes (AList.delete p (cp_activeBlocks s))"
    using f(6) bytes by (simp add: unat_sub_within)
  then have peak: "ps_activeBytes (cp_statistics s) - c \<le> ps_peakUsageBytes (cp_statistics s)"
    using f(6,9) bytes by (simp add: word_le_nat_alt)
  let ?cache = "cp_accepting s \<and> ps_freeBytes (cp_statistics s) \<le> cp_maximumCachedBytes s \<and>
    c \<le> cp_maximumCachedBytes s - ps_freeBytes (cp_statistics s) \<and> cacheable"
  show ?thesis
  proof (cases ?cache)
    case True
    then have room: "unat (ps_freeBytes (cp_statistics s) + c) = unat (ps_freeBytes (cp_statistics s)) + unat c"
      "ps_freeBytes (cp_statistics s) + c \<le> cp_maximumCachedBytes s"
      using unat_add_within by blast+
    have free: "mset (free_list (s\<lparr> cp_freeBlocks := free_emplace c p (cp_freeBlocks s) \<rparr>)) = mset ((p, c) # free_list s)"
      by (simp add: free_list_emplace)
    from block_bytes_mset [OF this] have fb:
      "block_bytes (free_list (s\<lparr> cp_freeBlocks := free_emplace c p (cp_freeBlocks s) \<rparr>)) = unat c + block_bytes (free_list s)" by simp
    from True p0 look f ab peak act bytes room free fb sorted_emplace [OF f(10)] show ?thesis
      by (simp add: pool_release_def Let_def pool_ok_def free_list_def device_blocks_def)
  next
    case False
    have "unat (ps_allocatedBytes (cp_statistics s) - c) = block_bytes (free_list s) + block_bytes (AList.delete p (cp_activeBlocks s))"
      using f(5) bytes by (simp add: unat_sub_within)
    with False p0 look f ab peak act show ?thesis
      by (auto simp: pool_release_def Let_def pool_ok_def)
  qed
qed

lemma drain_ok:
  assumes ok: "pool_ok out 0 s" and run: "drain_block s = (Some b, t)"
  shows "pool_ok (b # out) 0 t" and "cp_activeBlocks t = cp_activeBlocks s"
proof -
  note f = pool_ok_fields [OF ok]
  from run obtain c p blocks where fb: "cp_freeBlocks s = (c, p) # blocks" "b = (p, c)"
    and t: "t = stats_update (\<lambda>t. t\<lparr> ps_allocatedBytes := ps_allocatedBytes t - c, ps_freeBytes := ps_freeBytes t - c \<rparr>)
         (s\<lparr> cp_freeBlocks := blocks \<rparr>)"
    by (auto simp: drain_block_def split: list.splits)
  have fl: "free_list s = (p, c) # free_list (s\<lparr> cp_freeBlocks := blocks \<rparr>)" by (simp add: free_list_def fb)
  have "unat (ps_freeBytes (cp_statistics s) - c) = block_bytes (free_list (s\<lparr> cp_freeBlocks := blocks \<rparr>))"
    using f(7) fl by (simp add: unat_sub_within)
  moreover from this f(7,8) fl have "ps_freeBytes (cp_statistics s) - c \<le> cp_maximumCachedBytes s"
    by (simp add: word_le_nat_alt)
  moreover have "unat (ps_allocatedBytes (cp_statistics s) - c) =
      block_bytes (free_list (s\<lparr> cp_freeBlocks := blocks \<rparr>)) + block_bytes (cp_activeBlocks s)"
    using f(5) fl by (simp add: unat_sub_within)
  ultimately show "pool_ok (b # out) 0 t" using f fl fb by (simp add: pool_ok_def Let_def t)
  show "cp_activeBlocks t = cp_activeBlocks s" by (simp add: t)
qed

lemma backend_free_ok:
  assumes ok: "pool_ok out 0 s" and mem: "(p, c) \<in> set out"
  shows "pool_ok (remove1 (p, c) out) 0 (backend_free p s)" and "cp_activeBlocks (backend_free p s) = cp_activeBlocks s"
proof -
  note f = pool_ok_fields [OF ok] and places = pool_ok_places [OF ok]
  have dm: "(p, c) \<in> set (device_blocks s)" using places(2) mem by simp
  have del: "mset (AList.delete p (device_blocks s)) = mset (device_blocks s) - {#(p, c)#}"
    by (rule mset_delete [OF f(2) dm])
  then have "mset (device_blocks s) = mset ((p, c) # AList.delete p (device_blocks s))" using dm by simp
  from block_bytes_mset [OF this] f(4) have "block_bytes (AList.delete p (device_blocks s)) < 2 ^ 64" by simp
  moreover have "0 \<notin> fst ` set (AList.delete p (device_blocks s))"
    using f(3) dom_delete_subset [of p "device_blocks s"] by blast
  moreover have "mset (AList.delete p (device_blocks s)) = mset (free_list s) + mset (cp_activeBlocks s) + mset (remove1 (p, c) out)"
    unfolding del f(1) mset_remove1 by (rule diff_union_single_conv) (simp add: mem)
  ultimately show "pool_ok (remove1 (p, c) out) 0 (backend_free p s)"
    using f by (simp add: pool_ok_def Let_def backend_free_def distinct_delete)
  show "cp_activeBlocks (backend_free p s) = cp_activeBlocks s" by (simp add: backend_free_def)
qed

section \<open>Every interleaving\<close>

definition sys_ok :: "pool_system \<Rightarrow> bool" where
  "sys_ok s \<longleftrightarrow> pool_ok (sy_flight s) 0 (sy_pool s) \<and> mset (sy_held s) = mset (map fst (cp_activeBlocks (sy_pool s)))"

lemma mset_fst_delete:
  assumes "distinct (map fst xs)" and "p \<in> fst ` set xs"
  shows "mset (map fst (AList.delete p xs)) = mset (map fst xs) - {#p#}"
proof -
  from assms(2) obtain c where "(p, c) \<in> set xs" by auto
  from mset_delete [OF assms(1) this] this show ?thesis
    by (simp add: image_mset_Diff [of "{#(p, c)#}", simplified])
qed

lemma sys_step_ok: "pool_step s t \<Longrightarrow> sys_ok s \<Longrightarrow> sys_ok t"
proof (induction rule: pool_step.induct)
  case (step_acquire requested s answer failure r q)
  from step_acquire.prems acquire_ok [of "sy_flight s" "sy_pool s" requested answer failure] step_acquire.hyps
  show ?case by (cases r) (auto simp: sys_ok_def split: prod.splits)
next
  case (step_release p s cacheable r q)
  note ok = step_release.prems [unfolded sys_ok_def]
  from step_release.hyps(1) ok have "p \<in> fst ` set (cp_activeBlocks (sy_pool s))"
    by (metis list.set_map set_mset_mset)
  then obtain c where mem: "(p, c) \<in> set (cp_activeBlocks (sy_pool s))" by auto
  have dist: "distinct (map fst (cp_activeBlocks (sy_pool s)))" using pool_ok_places(1) [OF conjunct1 [OF ok]] by simp
  have "mset (map fst (AList.delete p (cp_activeBlocks (sy_pool s)))) = mset (remove1 p (sy_held s))"
    using mset_fst_delete [OF dist] \<open>p \<in> fst ` set (cp_activeBlocks (sy_pool s))\<close> ok by simp
  with release_ok [OF conjunct1 [OF ok] mem, of cacheable] step_release.hyps(2) show ?case
    by (cases r) (auto simp: sys_ok_def)
next
  case (step_drain s b q)
  from step_drain.prems drain_ok [OF _ step_drain.hyps, of "sy_flight s"] show ?case by (simp add: sys_ok_def)
next
  case (step_free p c s)
  from step_free.prems backend_free_ok [OF _ step_free.hyps, of "sy_pool s"] show ?case by (simp add: sys_ok_def)
next
  case (step_stop s)
  then show ?case by (simp add: sys_ok_def stop_accepting_def pool_ok_def Let_def)
qed

lemma pool_reach_ok: "pool_reach s \<Longrightarrow> sys_ok s"
proof (induction rule: pool_reach.induct)
  case (pool_start maximum s)
  then show ?case by (auto simp: pool_new_def sys_ok_def pool_ok_def Let_def device_blocks_def free_list_def)
qed (rule sys_step_ok)

text \<open>C22: Whatever the threads interleave, every block of device memory is in exactly one place: cached in
  the pool, in use by exactly one buffer, or on its way back to the backend. So no block is lost, none is
  handed out twice and none is freed twice or while in use. The statistics are exact, and what is cached
  stays within the bound.
\<close>

theorem pool_blocks_accounted:
  assumes "pool_reach s"
  shows "mset (device_blocks (sy_pool s)) = mset (free_list (sy_pool s)) + mset (cp_activeBlocks (sy_pool s)) + mset (sy_flight s) \<and>
    distinct (map fst (free_list (sy_pool s)) @ sy_held s @ map fst (sy_flight s)) \<and>
    set (sy_held s) = fst ` set (cp_activeBlocks (sy_pool s)) \<and>
    unat (ps_allocatedBytes (cp_statistics (sy_pool s))) =
      unat (ps_activeBytes (cp_statistics (sy_pool s))) + unat (ps_freeBytes (cp_statistics (sy_pool s))) \<and>
    unat (ps_activeBytes (cp_statistics (sy_pool s))) = block_bytes (cp_activeBlocks (sy_pool s)) \<and>
    unat (ps_freeBytes (cp_statistics (sy_pool s))) = block_bytes (free_list (sy_pool s)) \<and>
    ps_freeBytes (cp_statistics (sy_pool s)) \<le> cp_maximumCachedBytes (sy_pool s) \<and>
    ps_activeBytes (cp_statistics (sy_pool s)) \<le> ps_peakUsageBytes (cp_statistics (sy_pool s))"
proof -
  from pool_reach_ok [OF assms] have ok: "pool_ok (sy_flight s) 0 (sy_pool s)"
    and held: "mset (sy_held s) = mset (map fst (cp_activeBlocks (sy_pool s)))" by (simp_all add: sys_ok_def)
  note f = pool_ok_fields [OF ok] and places = pool_ok_places [OF ok]
  have hs: "set (sy_held s) = fst ` set (cp_activeBlocks (sy_pool s))"
    using held by (metis list.set_map set_mset_mset)
  have "distinct (sy_held s)" using held places(1) mset_eq_imp_distinct_iff [OF held] by simp
  with places(1) hs have "distinct (map fst (free_list (sy_pool s)) @ sy_held s @ map fst (sy_flight s))"
    by auto
  with f hs show ?thesis by simp
qed

lemma alignedSize_exact:
  assumes "alignedSize n = Inr k"
  shows "unat n \<le> unat k" and "unat k < unat n + 256"
proof -
  from assms have n: "\<not> n > u64_max - 255" and k: "k = (n + 255) div 256 * 256"
    by (auto simp: alignedSize_def kPoolAlignment_def add.commute split: if_splits)
  have fit: "unat n + unat (255 :: u64) < 2 ^ 64"
    using n by (simp add: word_less_nat_alt unat_u64_max_minus not_less)
  then have s: "unat (n + 255) = unat n + 255" by (simp add: unat_add_lem [THEN iffD1])
  have "unat ((n + 255) div 256) * unat (256 :: u64) < 2 ^ 64"
    using s fit by (simp add: unat_div)
  then have "unat k = (unat n + 255) div 256 * 256"
    unfolding k using s by (subst unat_mult_lem [THEN iffD1]) (simp_all add: unat_div)
  then show "unat n \<le> unat k" "unat k < unat n + 256" by simp_all
qed

text \<open>A buffer the pool hands out is at least as large as requested, is no block in use, and is the
  best fit: a cached block is reused exactly when one is large enough for the size rounded up to 256
  bytes, and then no smaller cached block would do; otherwise the block is new and has the rounded size.
\<close>

theorem pool_acquire_best_fit:
  assumes "pool_reach s" and "alignedSize requested = Inr k \<and> backend_answers (sy_pool s) k answer"
    and "pool_acquire requested answer failure (sy_pool s) = (Inr (p, c), q)"
  shows "unat requested \<le> unat k \<and> unat k < unat requested + 256 \<and> k \<le> c \<and> p \<notin> set (sy_held s) \<and>
    (if \<exists>b \<in> set (cp_freeBlocks (sy_pool s)). k \<le> fst b
     then (c, p) \<in> set (cp_freeBlocks (sy_pool s)) \<and> \<not> (\<exists>b \<in> set (cp_freeBlocks (sy_pool s)). k \<le> fst b \<and> fst b < c) \<and>
       cp_calls q = cp_calls (sy_pool s)
     else answer = Inr p \<and> c = k \<and> cp_calls q = cp_calls (sy_pool s) @ [CallAllocate p c])"
proof -
  let ?s = "sy_pool s"
  from assms(2) have k: "alignedSize requested = Inr k" and ans: "backend_answers ?s k answer" by simp_all
  from pool_reach_ok [OF assms(1)] have ok: "pool_ok (sy_flight s) 0 ?s"
    and held: "mset (sy_held s) = mset (map fst (cp_activeBlocks ?s))" by (simp_all add: sys_ok_def)
  from acquire_ok [OF ok, of requested answer failure] ans k assms(3)
  have q: "pool_ok (sy_flight s) 0 q" "cp_activeBlocks q = (p, c) # cp_activeBlocks ?s" "k \<le> c" by auto
  from pool_ok_places(1) [OF q(1)] q(2) have "p \<notin> fst ` set (cp_activeBlocks ?s)" by simp
  with held have new: "p \<notin> set (sy_held s)" by (metis list.set_map set_mset_mset)
  from assms(3) k obtain c' reused t where b: "take_block k answer ?s = (Inr (p, c, reused), t)"
    and calls: "cp_calls q = cp_calls t"
    by (auto simp: pool_acquire_def guard_runs activate_def elim!: bindp_cases split: if_splits option.splits)
  have fit: "if \<exists>b \<in> set (cp_freeBlocks ?s). k \<le> fst b
     then (c, p) \<in> set (cp_freeBlocks ?s) \<and> \<not> (\<exists>b \<in> set (cp_freeBlocks ?s). k \<le> fst b \<and> fst b < c) \<and> cp_calls t = cp_calls ?s
     else answer = Inr p \<and> c = k \<and> cp_calls t = cp_calls ?s @ [CallAllocate p c]"
  proof (cases "free_lower_bound k (cp_freeBlocks ?s)")
    case None
    then have "\<not> (\<exists>b \<in> set (cp_freeBlocks ?s). k \<le> fst b)"
      by (auto simp: free_lower_bound_def find_None_iff)
    with None b show ?thesis by (auto simp: take_block_def split: sum.splits)
  next
    case (Some f)
    with b have "f = (c, p)" and t: "cp_calls t = cp_calls ?s" by (auto simp: take_block_def split: prod.splits)
    note some = Some [unfolded this(1)]
    from some obtain i where i: "i < length (cp_freeBlocks ?s)" "cp_freeBlocks ?s ! i = (c, p)" "k \<le> c"
      "\<forall>j < i. \<not> k \<le> fst (cp_freeBlocks ?s ! j)"
      unfolding free_lower_bound_def case_prod_unfold find_Some_iff by (metis (no_types, lifting) fst_conv)
    have "c \<le> fst b" if "b \<in> set (cp_freeBlocks ?s)" "k \<le> fst b" for b
    proof -
      from that(1) obtain j where j: "j < length (cp_freeBlocks ?s)" "b = cp_freeBlocks ?s ! j"
        by (auto simp: in_set_conv_nth)
      with i(4) that(2) have "i \<le> j" by (metis not_le)
      with sorted_nth_mono [OF pool_ok_fields(10) [OF ok], of i j] i(2) j show ?thesis by simp
    qed
    with lower_bound_Some [OF some] t show ?thesis by (force simp: not_less)
  qed
  from alignedSize_exact [OF k] q(3) new fit calls show ?thesis by simp
qed

text \<open>An example: a pool that caches up to 1024 bytes, before the first allocation.\<close>

definition example_pool :: cuda_pool where
  "example_pool = \<lparr> cp_maximumCachedBytes = 1024, cp_freeBlocks = [], cp_activeBlocks = [],
     cp_statistics = \<lparr> ps_allocatedBytes = 0, ps_activeBytes = 0, ps_freeBytes = 0, ps_peakUsageBytes = 0,
       ps_allocationCount = 0, ps_reuseCount = 0 \<rparr>, cp_accepting = True, cp_calls = [] \<rparr>"

lemma example_pool_reach: "pool_reach \<lparr> sy_pool = example_pool, sy_held = [], sy_flight = [] \<rparr>"
  by (rule pool_start [of 1024]) (simp add: pool_new_def example_pool_def)

theorem pool_blocks_accounted_witness:
  "mset (device_blocks example_pool) = {#} \<and> ps_allocatedBytes (cp_statistics example_pool) = 0"
  using pool_blocks_accounted [OF example_pool_reach] by (simp add: example_pool_def free_list_def unat_eq_zero)

section \<open>Shutdown\<close>

lemma trim_steps: "pool_step\<^sup>*\<^sup>* s (s\<lparr> sy_pool := pool_trim (sy_pool s) \<rparr>) \<and> cp_freeBlocks (pool_trim (sy_pool s)) = []"
proof (induction "length (cp_freeBlocks (sy_pool s))" arbitrary: s)
  case 0
  then have "pool_trim (sy_pool s) = sy_pool s" by (subst pool_trim.simps) (simp add: drain_block_def)
  with 0 show ?case by simp
next
  case (Suc n)
  then obtain p c q where d: "drain_block (sy_pool s) = (Some (p, c), q)" "length (cp_freeBlocks q) = n"
    by (cases "cp_freeBlocks (sy_pool s)") (auto simp: drain_block_def)
  define t where "t = s\<lparr> sy_pool := q, sy_flight := (p, c) # sy_flight s \<rparr>"
  define u where "u = s\<lparr> sy_pool := backend_free p q \<rparr>"
  have "pool_step s t" unfolding t_def by (rule step_drain [OF d(1)])
  moreover have "pool_step t u" using step_free [of p c t] by (simp add: t_def u_def)
  moreover have "n = length (cp_freeBlocks (sy_pool u))" using d(2) by (simp add: u_def backend_free_def)
  note Suc.hyps(1) [OF this]
  moreover have "pool_trim (sy_pool s) = pool_trim (sy_pool u)" by (subst pool_trim.simps) (simp add: d u_def)
  moreover have "u\<lparr> sy_pool := x \<rparr> = s\<lparr> sy_pool := x \<rparr>" for x by (simp add: u_def)
  ultimately show ?case by (metis converse_rtranclp_into_rtranclp)
qed

lemma reach_steps: "pool_step\<^sup>*\<^sup>* s t \<Longrightarrow> pool_reach s \<Longrightarrow> pool_reach t"
  by (induction rule: rtranclp_induct) (auto intro: pool_next)

definition closed_pool :: "pool_system \<Rightarrow> bool" where
  "closed_pool s \<longleftrightarrow> \<not> cp_accepting (sy_pool s) \<and> cp_freeBlocks (sy_pool s) = []"

lemma acquire_closed:
  "\<not> cp_accepting s \<Longrightarrow> \<exists>e. pool_acquire requested answer failure s = (Inl e, s)"
  by (simp add: pool_acquire_def guard_runs split: sum.split)

lemma closed_step: "pool_step s t \<Longrightarrow> closed_pool s \<Longrightarrow> closed_pool t \<and> set (sy_held t) \<subseteq> set (sy_held s)"
proof (induction rule: pool_step.induct)
  case (step_acquire requested s answer failure r q)
  with acquire_closed [of "sy_pool s" requested answer failure] show ?case by (auto simp: closed_pool_def)
next
  case (step_release p s cacheable r q)
  then show ?case
    by (auto simp: closed_pool_def pool_release_def Let_def dest: set_remove1_subset [THEN subsetD]
        split: if_splits option.splits)
next
  case (step_drain s b q)
  then show ?case by (simp add: closed_pool_def drain_block_def)
qed (auto simp: closed_pool_def backend_free_def stop_accepting_def)

lemma closed_steps: "pool_step\<^sup>*\<^sup>* s t \<Longrightarrow> closed_pool s \<Longrightarrow> closed_pool t \<and> set (sy_held t) \<subseteq> set (sy_held s)"
  by (induction rule: rtranclp_induct) (use closed_step in blast)+

text \<open>Once a thread has run \<open>shutdown\<close>, the pool never hands out or caches a block again, whatever
  happens between the other threads; and as soon as the buffers still in use are dropped and no free
  is on its way, the device holds nothing of the pool's.
\<close>

theorem pool_shutdown_leaves_nothing:
  assumes "pool_reach s" and "pool_step\<^sup>*\<^sup>* (s\<lparr> sy_pool := pool_shutdown (sy_pool s) \<rparr>) t"
  shows "set (sy_held t) \<subseteq> set (sy_held s) \<and> cp_freeBlocks (sy_pool t) = [] \<and> \<not> cp_accepting (sy_pool t) \<and>
    set (device_blocks (sy_pool t)) = set (cp_activeBlocks (sy_pool t)) \<union> set (sy_flight t) \<and>
    fst ` set (cp_activeBlocks (sy_pool t)) = set (sy_held t)"
proof -
  define u where "u = s\<lparr> sy_pool := stop_accepting (sy_pool s) \<rparr>"
  have su: "pool_step\<^sup>*\<^sup>* s u" unfolding u_def by (rule r_into_rtranclp, rule step_stop)
  have t: "u\<lparr> sy_pool := pool_trim (sy_pool u) \<rparr> = s\<lparr> sy_pool := pool_shutdown (sy_pool s) \<rparr>"
    by (simp add: u_def pool_shutdown_def)
  have acc: "cp_accepting (pool_trim q) = cp_accepting q" for q
    by (induction q rule: pool_trim.induct)
      (subst pool_trim.simps, auto simp: drain_block_def backend_free_def split: list.splits)
  from trim_steps [of u] t have run: "pool_step\<^sup>*\<^sup>* u (s\<lparr> sy_pool := pool_shutdown (sy_pool s) \<rparr>)"
    and empty: "cp_freeBlocks (pool_shutdown (sy_pool s)) = []" by (simp_all add: pool_shutdown_def u_def)
  have "closed_pool (s\<lparr> sy_pool := pool_shutdown (sy_pool s) \<rparr>)"
    using empty acc by (simp add: closed_pool_def pool_shutdown_def stop_accepting_def)
  with closed_steps [OF assms(2)] have c: "closed_pool t" "set (sy_held t) \<subseteq> set (sy_held s)" by auto
  from su run assms(2) have "pool_step\<^sup>*\<^sup>* s t" by (metis rtranclp_trans)
  from pool_reach_ok [OF reach_steps [OF this assms(1)]] have ok: "pool_ok (sy_flight t) 0 (sy_pool t)"
    and held: "mset (sy_held t) = mset (map fst (cp_activeBlocks (sy_pool t)))" by (simp_all add: sys_ok_def)
  have "free_list (sy_pool t) = []" using c(1) by (simp add: closed_pool_def free_list_def)
  moreover from held have "fst ` set (cp_activeBlocks (sy_pool t)) = set (sy_held t)"
    by (metis list.set_map set_mset_mset)
  ultimately show ?thesis using pool_ok_places(2) [OF ok] c by (simp add: closed_pool_def)
qed

end
