(* ===== verification/Ranking.thy ===== *)
theory Ranking
  imports Complex_Main
begin

text \<open>Indices sorted by falling score, with the smaller index first among equals: what \<open>std::partial_sort\<close> with a
  tie-breaking comparison and \<open>std::stable_sort\<close> on rising indices both produce.\<close>

definition ranked :: "real list \<Rightarrow> nat list" where
  "ranked scores = sort_key (\<lambda>i. - (scores ! i)) [0..<length scores]"

definition better :: "real list \<Rightarrow> nat \<Rightarrow> nat \<Rightarrow> bool" where
  "better scores i j \<longleftrightarrow> scores ! i > scores ! j \<or> (scores ! i = scores ! j \<and> i < j)"

lemma ranked_perm [simp]: "set (ranked scores) = {..<length scores}" "distinct (ranked scores)"
  "length (ranked scores) = length scores"
  by (auto simp: ranked_def)

lemma insort_key_better:
  "sorted_wrt (better scores) xs \<Longrightarrow> \<forall>x \<in> set xs. i < x \<Longrightarrow> sorted_wrt (better scores) (insort_key (\<lambda>k. - (scores ! k)) i xs)"
proof (induction xs)
  case (Cons x xs)
  show ?case
  proof (cases "- (scores ! i) \<le> - (scores ! x)")
    case True
    have "better scores i y" if "y \<in> set (x # xs)" for y
      using that True Cons.prems by (fastforce simp: better_def)
    with True Cons.prems show ?thesis by simp
  next
    case False
    have "better scores x i" using False by (simp add: better_def)
    with False Cons show ?thesis by (auto simp: set_insort_key)
  qed
qed simp

lemma sort_upt_better: "sorted_wrt (better scores) (sort_key (\<lambda>i. - (scores ! i)) [m..<n])"
proof (induction "n - m" arbitrary: m)
  case (Suc k)
  then have "[m..<n] = m # [Suc m..<n]" by (simp add: upt_rec)
  with Suc show ?case by (auto intro!: insort_key_better)
qed simp

lemma ranked_sorted: "sorted_wrt (better scores) (ranked scores)"
  by (simp add: ranked_def sort_upt_better)

lemma sum_list_scaled: "sum_list (map (\<lambda>s. s / (t :: real)) xs) = sum_list xs / t"
  by (induction xs) (simp_all add: add_divide_distrib)

end
