(* ===== verification/Routing.thy ===== *)
theory Routing
  imports Model_Types Tensor Ranking
begin

text \<open>
  \<^verbatim>\<open>src/router/CpuRouterBackend.cpp\<close>, \<^verbatim>\<open>Router.cpp\<close> and \<^verbatim>\<open>RouterDecision.hpp\<close>: which experts a token is sent to, and the
  tokens each expert of a layer gets. \<open>floats\<close> is the memory as floats by address. Scores are reals, with
  the exponential as a parameter \<open>fexp\<close>; the choice of the best experts and the grouping are exact for any scores.
  The lemmas show that a decision holds the best experts once each, and that the groups of a batch are its
  decisions read by expert.
\<close>

section \<open>Decisions\<close>

record router_decision =
  rd_layerId :: u32
  rd_selected :: "u32 list"
  rd_scores :: "real list"

record token_group =
  tg_expertId :: u32
  tg_tokens :: "nat list"
  tg_scores :: "real list"

record batch_decision =
  bd_layerId :: u32
  bd_tokens :: "router_decision list"
  bd_groups :: "token_group list"

definition decision_valid :: "router_decision \<Rightarrow> bool" where
  "decision_valid r \<longleftrightarrow> rd_selected r \<noteq> [] \<and> length (rd_selected r) = length (rd_scores r)"

definition batch_valid :: "batch_decision \<Rightarrow> bool" where
  "batch_valid b \<longleftrightarrow> bd_tokens b \<noteq> [] \<and>
     list_all (\<lambda>r. decision_valid r \<and> rd_layerId r = bd_layerId b) (bd_tokens b) \<and>
     list_all (\<lambda>g. tg_tokens g \<noteq> [] \<and> length (tg_tokens g) = length (tg_scores g)) (bd_groups b)"

section \<open>Inputs\<close>

definition router_inputs :: "nat set \<Rightarrow> tensor_view \<Rightarrow> tensor_view \<Rightarrow> router_config \<Rightarrow> exn + unit" where
  "router_inputs alive h w c =
     andthen (router_config_validate c)
    (andthen (throw_if (\<not> view_valid alive h \<or> \<not> view_valid alive w \<or> tv_device h \<noteq> device_cpu \<or> tv_device w \<noteq> device_cpu \<or>
         tv_dtype h \<noteq> dtype_code FP32 \<or> tv_dtype w \<noteq> dtype_code FP32 \<or>
         \<not> isContiguous (tv_shape h) \<or> \<not> isContiguous (tv_shape w) \<or> sh_rank (tv_shape h) \<noteq> 2 \<or> sh_rank (tv_shape w) \<noteq> 2)
       (InvalidArgument ''CPU router requires contiguous rank-2 CPU FP32 tensors''))
    (throw_if (sh_dimensions (tv_shape h) ! 1 \<noteq> sh_dimensions (tv_shape w) ! 0 \<or>
         sh_dimensions (tv_shape w) ! 1 \<noteq> rc_expertCount c)
       (InvalidArgument ''router tensor dimensions do not match configuration'')))"

section \<open>Scores\<close>

text \<open>Arithmetic with the special values; the sign of a zero factor does not matter to what the code tests.\<close>

definition fp_times :: "fp \<Rightarrow> fp \<Rightarrow> fp" where
  "fp_times x y = (case (x, y) of (Fin a, Fin b) \<Rightarrow> Fin (a * b) | _ \<Rightarrow> NaN)"

definition fp_plus :: "fp \<Rightarrow> fp \<Rightarrow> fp" where
  "fp_plus x y = (case (x, y) of (Fin a, Fin b) \<Rightarrow> Fin (a + b) | _ \<Rightarrow> NaN)"

definition expert_score :: "(nat \<Rightarrow> fp) \<Rightarrow> (nat \<Rightarrow> fp) \<Rightarrow> nat \<Rightarrow> nat \<Rightarrow> nat \<Rightarrow> exn + real" where
  "expert_score hidden weights hiddenSize experts expert =
     (let score = foldl (\<lambda>s i. fp_plus s (fp_times (hidden i) (weights (i * experts + expert)))) (Fin 0) [0..<hiddenSize]
      in if \<not> isfinite score then Inl (RuntimeError ''router produced a non-finite score'') else Inr (fp_value score))"

definition softmax_scores :: "(real \<Rightarrow> real) \<Rightarrow> real list \<Rightarrow> exn + real list" where
  "softmax_scores fexp scores =
     (let maximum = foldl max (hd scores) (tl scores);
          powers = map (\<lambda>s. fexp (s - maximum)) scores;
          denominator = sum_list powers
      in if denominator \<le> 0 then Inl (RuntimeError ''router softmax normalization failed'')
         else Inr (map (\<lambda>p. p / denominator) powers))"

definition token_scores ::
  "(real \<Rightarrow> real) \<Rightarrow> (nat \<Rightarrow> fp) \<Rightarrow> (nat \<Rightarrow> fp) \<Rightarrow> nat \<Rightarrow> router_config \<Rightarrow> exn + real list" where
  "token_scores fexp hidden weights hiddenSize c =
     bindr (mapr (expert_score hidden weights hiddenSize (unat (rc_expertCount c))) [0..<unat (rc_expertCount c)]) (\<lambda>scores.
     if rc_normalization c = normalization_Softmax then softmax_scores fexp scores else Inr scores)"

section \<open>The best experts\<close>

definition renormalize :: "real list \<Rightarrow> exn + real list" where
  "renormalize scores = (let total = sum_list scores in
     if total = 0 then Inl (RuntimeError ''selected router scores cannot be renormalized'')
     else Inr (map (\<lambda>s. s / total) scores))"

definition select_experts :: "u32 \<Rightarrow> router_config \<Rightarrow> real list \<Rightarrow> exn + router_decision" where
  "select_experts layerId c scores =
     (let chosen = take (unat (rc_topK c)) (ranked scores);
          best = map (\<lambda>i. scores ! i) chosen in
      bindr (if rc_renormalizeSelected c then renormalize best else Inr best) (\<lambda>values.
      Inr \<lparr> rd_layerId = layerId, rd_selected = map of_nat chosen, rd_scores = values \<rparr>))"

definition routeToken ::
  "(real \<Rightarrow> real) \<Rightarrow> u32 \<Rightarrow> (nat \<Rightarrow> fp) \<Rightarrow> (nat \<Rightarrow> fp) \<Rightarrow> nat \<Rightarrow> router_config \<Rightarrow> exn + router_decision" where
  "routeToken fexp layerId hidden weights hiddenSize c =
     bindr (token_scores fexp hidden weights hiddenSize c) (select_experts layerId c)"

text \<open>The float at an index of an array.\<close>

definition float_at :: "(u64 \<Rightarrow> fp) \<Rightarrow> u64 \<Rightarrow> nat \<Rightarrow> fp" where
  "float_at floats p i = floats (p + 4 * of_nat i)"

definition cpu_route ::
  "(real \<Rightarrow> real) \<Rightarrow> (u64 \<Rightarrow> fp) \<Rightarrow> nat set \<Rightarrow> u32 \<Rightarrow> tensor_view \<Rightarrow> tensor_view \<Rightarrow> router_config \<Rightarrow> exn + router_decision" where
  "cpu_route fexp floats alive layerId h w c =
     andthen (throw_if (\<not> view_valid alive h \<or> (sh_rank (tv_shape h) \<noteq> 1 \<and> sh_rank (tv_shape h) \<noteq> 2))
       (InvalidArgument ''CPU router hidden state must have rank one or two''))
    (bindr (if sh_rank (tv_shape h) = 1
            then bindr (shape_make [1, sh_dimensions (tv_shape h) ! 0]) (view_reshape alive h) else Inr h) (\<lambda>h'.
     andthen (router_inputs alive h' w c)
    (andthen (throw_if (sh_dimensions (tv_shape h') ! 0 \<noteq> 1) (InvalidArgument ''single-token route received multiple tokens''))
     (routeToken fexp layerId (float_at floats (view_data alive h')) (float_at floats (view_data alive w))
        (unat (sh_dimensions (tv_shape h') ! 1)) c))))"

section \<open>Groups of a batch\<close>

fun add_to_group :: "u32 \<Rightarrow> nat \<Rightarrow> real \<Rightarrow> token_group list \<Rightarrow> token_group list" where
  "add_to_group e t s [] = [\<lparr> tg_expertId = e, tg_tokens = [t], tg_scores = [s] \<rparr>]"
| "add_to_group e t s (g # gs) =
     (if tg_expertId g = e then g\<lparr> tg_tokens := tg_tokens g @ [t], tg_scores := tg_scores g @ [s] \<rparr> # gs
      else g # add_to_group e t s gs)"

definition add_decision :: "nat \<Rightarrow> router_decision \<Rightarrow> token_group list \<Rightarrow> token_group list" where
  "add_decision t r gs = foldl (\<lambda>gs (e, s). add_to_group e t s gs) gs (zip (rd_selected r) (rd_scores r))"

fun batch_loop ::
  "(nat \<Rightarrow> exn + router_decision) \<Rightarrow> nat list \<Rightarrow> router_decision list \<Rightarrow> token_group list \<Rightarrow> exn + router_decision list \<times> token_group list" where
  "batch_loop route [] rs gs = Inr (rs, gs)"
| "batch_loop route (t # ts) rs gs = bindr (route t) (\<lambda>r. batch_loop route ts (rs @ [r]) (add_decision t r gs))"

definition batch_of :: "u32 \<Rightarrow> (nat \<Rightarrow> exn + router_decision) \<Rightarrow> nat \<Rightarrow> exn + batch_decision" where
  "batch_of layerId route tokenCount =
     bindr (batch_loop route [0..<tokenCount] [] []) (\<lambda>(rs, gs).
     Inr \<lparr> bd_layerId = layerId, bd_tokens = rs, bd_groups = sort_key tg_expertId gs \<rparr>)"

definition cpu_routeBatch ::
  "(real \<Rightarrow> real) \<Rightarrow> (u64 \<Rightarrow> fp) \<Rightarrow> nat set \<Rightarrow> u32 \<Rightarrow> tensor_view \<Rightarrow> tensor_view \<Rightarrow> router_config \<Rightarrow> exn + batch_decision" where
  "cpu_routeBatch fexp floats alive layerId h w c =
     andthen (router_inputs alive h w c)
    (let hiddenSize = unat (sh_dimensions (tv_shape h) ! 1) in
     batch_of layerId (\<lambda>t. routeToken fexp layerId (\<lambda>i. float_at floats (view_data alive h) (t * hiddenSize + i))
         (float_at floats (view_data alive w)) hiddenSize c)
       (unat (sh_dimensions (tv_shape h) ! 0)))"

text \<open>The router in front of a back end, which is its device and its two operations.\<close>

record router =
  rt_config :: router_config
  rt_device :: device

definition router_make :: "router_config \<Rightarrow> (bool \<times> device) option \<Rightarrow> exn + router" where
  "router_make c backend = andthen (router_config_validate c)
     (case backend of
        Some (True, d) \<Rightarrow> Inr \<lparr> rt_config = c, rt_device = d \<rparr>
      | _ \<Rightarrow> Inl (InvalidArgument ''router requires an available backend''))"

definition router_call :: "(router_config \<Rightarrow> exn + 'a) \<Rightarrow> router \<Rightarrow> tensor_view \<Rightarrow> tensor_view \<Rightarrow> exn + 'a" where
  "router_call backend r h w =
     andthen (throw_if (tv_device h \<noteq> rt_device r \<or> tv_device w \<noteq> rt_device r)
       (InvalidArgument ''router tensors do not match router backend device''))
     (backend (rt_config r))"

section \<open>A decision holds the best experts\<close>

lemma mapr_length: "mapr f xs = Inr ys \<Longrightarrow> length ys = length xs"
  by (induction xs arbitrary: ys) (auto simp: bindr_eq_Inr)

lemma token_scores_length: "token_scores fexp hidden weights n c = Inr scores \<Longrightarrow> length scores = unat (rc_expertCount c)"
  by (auto simp: token_scores_def bindr_eq_Inr softmax_scores_def Let_def dest: mapr_length split: if_splits)

lemma router_config_valid:
  assumes "router_config_validate c = Inr ()"
  shows "0 < unat (rc_topK c)" and "unat (rc_topK c) \<le> unat (rc_expertCount c)" and "unat (rc_expertCount c) < 2 ^ 32"
proof -
  from assms have k: "rc_topK c \<noteq> 0" "rc_topK c \<le> rc_expertCount c" and n: "rc_expertCount c \<le> 0xFFFFFFFF"
    by (auto simp: router_config_validate_def not_less)
  from k(1) show "0 < unat (rc_topK c)" by (simp add: unat_gt_0)
  from k(2) show "unat (rc_topK c) \<le> unat (rc_expertCount c)" by (simp add: word_le_nat_alt)
  from n show "unat (rc_expertCount c) < 2 ^ 32" by (simp add: word_le_nat_alt)
qed

definition chosen_experts :: "router_config \<Rightarrow> real list \<Rightarrow> nat list" where
  "chosen_experts c scores = take (unat (rc_topK c)) (ranked scores)"

lemma select_experts_chosen:
  assumes "select_experts l c scores = Inr r" and "router_config_validate c = Inr ()"
    and "length scores = unat (rc_expertCount c)"
  shows "rd_layerId r = l" and "map unat (rd_selected r) = chosen_experts c scores" and "length (rd_scores r) = length (rd_selected r)"
    and "rd_scores r = (let best = map (\<lambda>i. scores ! i) (chosen_experts c scores) in
      if rc_renormalizeSelected c then map (\<lambda>s. s / sum_list best) best else best)"
    and "rc_renormalizeSelected c \<Longrightarrow> sum_list (map (\<lambda>i. scores ! i) (chosen_experts c scores)) \<noteq> 0"
proof -
  have "unat (of_nat i :: u32) = i" if "i \<in> set (chosen_experts c scores)" for i
  proof -
    from that have "i \<in> set (ranked scores)" unfolding chosen_experts_def by (rule in_set_takeD)
    then have "i < unat (rc_expertCount c)" by (simp add: ranked_perm assms(3))
    with router_config_valid(3) [OF assms(2)] show ?thesis by (simp add: unat_of_nat)
  qed
  then have "map unat (map of_nat (chosen_experts c scores) :: u32 list) = chosen_experts c scores"
    by (simp add: comp_def map_idI)
  with assms(1) show "map unat (rd_selected r) = chosen_experts c scores"
    by (auto simp: select_experts_def bindr_eq_Inr Let_def chosen_experts_def split: if_splits)
  from assms(1) show "rd_layerId r = l" "length (rd_scores r) = length (rd_selected r)"
    "rd_scores r = (let best = map (\<lambda>i. scores ! i) (chosen_experts c scores) in
      if rc_renormalizeSelected c then map (\<lambda>s. s / sum_list best) best else best)"
    "rc_renormalizeSelected c \<Longrightarrow> sum_list (map (\<lambda>i. scores ! i) (chosen_experts c scores)) \<noteq> 0"
    by (auto simp: select_experts_def bindr_eq_Inr Let_def chosen_experts_def renormalize_def split: if_splits)
qed

text \<open>C9: a routed token goes to exactly top-k experts of the model, each once, in the order of falling score:
  every expert left out scores less than each one chosen, or the same with a higher identifier. Renormalized
  scores add up to 1.\<close>

theorem route_selects_best:
  assumes "routeToken fexp l hidden weights n c = Inr r" and "router_config_validate c = Inr ()"
  shows "\<exists>scores. token_scores fexp hidden weights n c = Inr scores \<and> rd_layerId r = l \<and> decision_valid r \<and>
    length (rd_selected r) = unat (rc_topK c) \<and> distinct (rd_selected r) \<and>
    sorted_wrt (better scores) (map unat (rd_selected r)) \<and>
    (\<forall>e \<in> set (rd_selected r). unat e < unat (rc_expertCount c) \<and>
       (\<forall>j < unat (rc_expertCount c). j \<in> unat ` set (rd_selected r) \<or> better scores (unat e) j)) \<and>
    (rc_renormalizeSelected c \<longrightarrow> sum_list (rd_scores r) = 1)"
proof -
  from assms(1) obtain scores where s: "token_scores fexp hidden weights n c = Inr scores" "select_experts l c scores = Inr r"
    by (auto simp: routeToken_def bindr_eq_Inr)
  note len = token_scores_length [OF s(1)]
  note sel = select_experts_chosen [OF s(2) assms(2) len]
  note cfg = router_config_valid [OF assms(2)]
  let ?k = "unat (rc_topK c)" and ?R = "ranked scores"
  have ids: "map unat (rd_selected r) = take ?k ?R" using sel(2) by (simp add: chosen_experts_def)
  then have count: "length (rd_selected r) = ?k"
    using cfg(2) by (metis length_map length_take len min.absorb2 ranked_perm(3))
  have "distinct (map unat (rd_selected r))" unfolding ids by (simp add: ranked_perm)
  then have dist: "distinct (rd_selected r)" by (simp add: distinct_map)
  have order: "sorted_wrt (better scores) (take ?k ?R @ drop ?k ?R)" using ranked_sorted by simp
  have sorted: "sorted_wrt (better scores) (map unat (rd_selected r))" unfolding ids by (rule sorted_wrt_take [OF ranked_sorted])
  have image: "unat ` set (rd_selected r) = set (take ?k ?R)" using ids by (metis list.set_map)
  have best: "unat e < unat (rc_expertCount c) \<and>
      (\<forall>j < unat (rc_expertCount c). j \<in> unat ` set (rd_selected r) \<or> better scores (unat e) j)" if "e \<in> set (rd_selected r)" for e
  proof -
    from that image have e: "unat e \<in> set (take ?k ?R)" by blast
    from in_set_takeD [OF e] have "unat e < unat (rc_expertCount c)" by (simp add: ranked_perm len)
    moreover have "j \<in> unat ` set (rd_selected r) \<or> better scores (unat e) j" if "j < unat (rc_expertCount c)" for j
    proof -
      from that have "j \<in> set (take ?k ?R @ drop ?k ?R)" by (simp add: ranked_perm len)
      then consider "j \<in> set (take ?k ?R)" | "j \<in> set (drop ?k ?R)" unfolding set_append by blast
      then show ?thesis using order e image by cases (auto simp: sorted_wrt_append simp del: append_take_drop_id)
    qed
    ultimately show ?thesis by blast
  qed
  have "decision_valid r" using count cfg(1) sel(3) by (auto simp: decision_valid_def)
  moreover have "sum_list (rd_scores r) = 1" if "rc_renormalizeSelected c"
  proof -
    define best where "best = map (\<lambda>i. scores ! i) (chosen_experts c scores)"
    have "rd_scores r = map (\<lambda>s. s / sum_list best) best" using sel(4) that by (simp only: Let_def if_True best_def)
    moreover have "sum_list best \<noteq> 0" unfolding best_def by (rule sel(5) [OF that])
    ultimately show ?thesis by (simp add: sum_list_scaled)
  qed
  ultimately show ?thesis using s(1) sel(1) count dist sorted best by blast
qed

definition example_router :: router_config where
  "example_router = \<lparr> rc_expertCount = 3, rc_topK = 2, rc_normalization = normalization_None, rc_renormalizeSelected = True \<rparr>"

definition example_weights :: "nat \<Rightarrow> fp" where
  "example_weights i = (if i = 0 then Fin 1 else Fin 3)"

theorem route_selects_best_witness:
  "\<exists>r. routeToken exp 5 (\<lambda>_. Fin 1) example_weights 1 example_router = Inr r \<and> rd_selected r = [1, 2] \<and> sum_list (rd_scores r) = 1"
proof -
  have up: "[0..<3] = [0, 1, 2]" by code_simp
  have scores: "token_scores exp (\<lambda>_. Fin 1) example_weights 1 example_router = Inr [1, 3, 3]"
    by (simp add: token_scores_def example_router_def up expert_score_def example_weights_def fp_times_def fp_plus_def)
  have "ranked [1, 3, 3] = [1, 2, 0]" by (simp add: ranked_def numeral_eq_Suc)
  then have r: "routeToken exp 5 (\<lambda>_. Fin 1) example_weights 1 example_router =
      Inr \<lparr> rd_layerId = 5, rd_selected = [1, 2], rd_scores = [1 / 2, 1 / 2] \<rparr>"
    unfolding routeToken_def scores by (simp add: select_experts_def renormalize_def Let_def example_router_def)
  have "router_config_validate example_router = Inr ()" by (simp add: router_config_validate_def example_router_def)
  from route_selects_best [OF r this] r show ?thesis by (simp add: example_router_def)
qed

section \<open>The groups are the decisions by expert\<close>

text \<open>The tokens that chose an expert, with their scores, in the order of the tokens.\<close>

definition choices :: "u32 \<Rightarrow> router_decision \<Rightarrow> real list" where
  "choices e r = map snd (filter (\<lambda>c. fst c = e) (zip (rd_selected r) (rd_scores r)))"

definition assignments :: "u32 \<Rightarrow> router_decision list \<Rightarrow> (nat \<times> real) list" where
  "assignments e rs = concat (map (\<lambda>t. map (Pair t) (choices e (rs ! t))) [0..<length rs])"

lemma assignments_snoc: "assignments e (rs @ [r]) = assignments e rs @ map (Pair (length rs)) (choices e r)"
proof -
  have "map (\<lambda>t. map (Pair t) (choices e ((rs @ [r]) ! t))) [0..<length rs] = map (\<lambda>t. map (Pair t) (choices e (rs ! t))) [0..<length rs]"
    by (rule map_cong) (auto simp: nth_append)
  then show ?thesis by (simp add: assignments_def del: map_eq_conv)
qed

definition group_pairs :: "u32 \<Rightarrow> token_group list \<Rightarrow> (nat \<times> real) list" where
  "group_pairs e gs = concat (map (\<lambda>g. if tg_expertId g = e then zip (tg_tokens g) (tg_scores g) else []) gs)"

definition groups_ok :: "token_group list \<Rightarrow> bool" where
  "groups_ok gs \<longleftrightarrow> distinct (map tg_expertId gs) \<and>
     (\<forall>g \<in> set gs. tg_tokens g \<noteq> [] \<and> length (tg_tokens g) = length (tg_scores g))"

lemma add_to_group_ids: "tg_expertId ` set (add_to_group e t s gs) = insert e (tg_expertId ` set gs)"
  by (induction gs) auto

lemma groups_ok_Cons: "groups_ok (g # gs) \<longleftrightarrow> tg_expertId g \<notin> tg_expertId ` set gs \<and> tg_tokens g \<noteq> [] \<and>
     length (tg_tokens g) = length (tg_scores g) \<and> groups_ok gs"
  by (auto simp: groups_ok_def)

lemma group_pairs_simps [simp]:
  "group_pairs e [] = []"
  "group_pairs e (g # gs) = (if tg_expertId g = e then zip (tg_tokens g) (tg_scores g) else []) @ group_pairs e gs"
  by (simp_all add: group_pairs_def)

lemma add_to_group_ok: "groups_ok gs \<Longrightarrow> groups_ok (add_to_group e t s gs)"
proof (induction gs)
  case (Cons g gs)
  then show ?case by (cases "tg_expertId g = e") (simp_all add: groups_ok_Cons add_to_group_ids)
qed (simp add: groups_ok_def)

lemma group_pairs_absent: "e \<notin> tg_expertId ` set gs \<Longrightarrow> group_pairs e gs = []"
  by (induction gs) auto

lemma group_pairs_add:
  "groups_ok gs \<Longrightarrow> group_pairs e' (add_to_group e t s gs) = group_pairs e' gs @ (if e' = e then [(t, s)] else [])"
proof (induction gs)
  case (Cons g gs)
  then have ok: "groups_ok gs" "tg_expertId g \<notin> tg_expertId ` set gs" and len: "length (tg_tokens g) = length (tg_scores g)"
    by (simp_all add: groups_ok_Cons)
  show ?case
  proof (cases "tg_expertId g = e")
    case True
    with ok(2) group_pairs_absent have "group_pairs e gs = []" by blast
    with True len show ?thesis by auto
  next
    case False
    with Cons.IH [OF ok(1)] show ?thesis by simp
  qed
qed simp

lemma add_pairs:
  "groups_ok gs \<Longrightarrow> groups_ok (foldl (\<lambda>gs (e, s). add_to_group e t s gs) gs cs) \<and>
     group_pairs e' (foldl (\<lambda>gs (e, s). add_to_group e t s gs) gs cs) =
       group_pairs e' gs @ map (Pair t) (map snd (filter (\<lambda>c. fst c = e') cs))"
proof (induction cs arbitrary: gs)
  case (Cons c cs)
  obtain e s where c: "c = (e, s)" by fastforce
  from Cons.IH [OF add_to_group_ok [OF Cons.prems, of e t s]] group_pairs_add [OF Cons.prems, of e' e t s]
  show ?case by (simp add: c)
qed simp

lemma add_decision_ok: "groups_ok gs \<Longrightarrow> groups_ok (add_decision t r gs) \<and>
     group_pairs e (add_decision t r gs) = group_pairs e gs @ map (Pair t) (choices e r)"
  using add_pairs by (simp add: add_decision_def choices_def)

lemma batch_loop_ok:
  "batch_loop route [length rs..<n] rs gs = Inr (rs', gs') \<Longrightarrow> groups_ok gs \<Longrightarrow> \<forall>e. group_pairs e gs = assignments e rs \<Longrightarrow>
     length rs \<le> n \<Longrightarrow> groups_ok gs' \<and> (\<forall>e. group_pairs e gs' = assignments e rs') \<and> length rs' = n \<and>
     (\<forall>t < n. length rs \<le> t \<longrightarrow> route t = Inr (rs' ! t)) \<and> take (length rs) rs' = rs"
proof (induction "n - length rs" arbitrary: rs gs)
  case (Suc k)
  then have "length rs < n" by simp
  then have up: "[length rs..<n] = length rs # [Suc (length rs)..<n]" by (rule upt_conv_Cons)
  from Suc.prems(1) obtain r where r: "route (length rs) = Inr r"
    and rest: "batch_loop route [length (rs @ [r])..<n] (rs @ [r]) (add_decision (length rs) r gs) = Inr (rs', gs')"
    unfolding up by (auto simp: bindr_eq_Inr)
  have "k = n - length (rs @ [r])" and "length (rs @ [r]) \<le> n" using Suc.hyps(2) by simp_all
  from Suc.hyps(1) [OF this(1) rest _ _ this(2)] Suc.prems(2,3) add_decision_ok [OF Suc.prems(2)]
  have IH: "groups_ok gs' \<and> (\<forall>e. group_pairs e gs' = assignments e rs') \<and> length rs' = n \<and>
     (\<forall>t < n. Suc (length rs) \<le> t \<longrightarrow> route t = Inr (rs' ! t)) \<and> take (Suc (length rs)) rs' = rs @ [r]"
    by (simp add: assignments_snoc)
  then have pre: "take (Suc (length rs)) rs' = rs @ [r]" by blast
  have here: "rs' ! length rs = r" using arg_cong [OF pre, of "\<lambda>xs. xs ! length rs"] by simp
  have front: "take (length rs) rs' = rs" using arg_cong [OF pre, of "take (length rs)"] by simp
  have "route t = Inr (rs' ! t)" if "t < n" "length rs \<le> t" for t
    using IH here r that by (cases "t = length rs") auto
  with IH front show ?case by blast
next
  case 0
  then have "n = length rs" by simp
  with 0 show ?case by simp
qed

lemma group_pairs_of:
  "groups_ok gs \<Longrightarrow> g \<in> set gs \<Longrightarrow> group_pairs (tg_expertId g) gs = zip (tg_tokens g) (tg_scores g)"
proof (induction gs)
  case (Cons x gs)
  then have ok: "groups_ok gs" "tg_expertId x \<notin> tg_expertId ` set gs" by (simp_all add: groups_ok_Cons)
  show ?case
  proof (cases "g = x")
    case True
    with ok(2) show ?thesis by (simp add: group_pairs_absent)
  next
    case False
    with Cons.prems(2) have "g \<in> set gs" by simp
    moreover from this ok(2) have "tg_expertId x \<noteq> tg_expertId g" by auto
    ultimately show ?thesis using Cons.IH [OF ok(1)] by simp
  qed
qed simp

lemma groups_present: "groups_ok gs \<Longrightarrow> e \<in> tg_expertId ` set gs \<longleftrightarrow> group_pairs e gs \<noteq> []"
proof
  assume ok: "groups_ok gs" and "e \<in> tg_expertId ` set gs"
  then obtain g where g: "g \<in> set gs" "tg_expertId g = e" by blast
  with ok have "tg_tokens g \<noteq> []" "length (tg_tokens g) = length (tg_scores g)" by (auto simp: groups_ok_def)
  then have "zip (tg_tokens g) (tg_scores g) \<noteq> []" by (cases "tg_tokens g"; cases "tg_scores g") simp_all
  with group_pairs_of [OF ok g(1)] g(2) show "group_pairs e gs \<noteq> []" by simp
qed (use group_pairs_absent in blast)

text \<open>C10: a routed batch has the decision of every token, and its groups are these decisions read by
  expert: they are in strictly rising order of the experts, an expert has a group exactly when a token chose it,
  and the group lists the tokens that chose it, in order, with the scores they gave it.\<close>

theorem batch_groups_transpose:
  assumes "cpu_routeBatch fexp floats alive l h w c = Inr b"
  shows "length (bd_tokens b) = unat (sh_dimensions (tv_shape h) ! 0) \<and>
    (let d = unat (sh_dimensions (tv_shape h) ! 1) in \<forall>t < length (bd_tokens b).
       routeToken fexp l (\<lambda>i. float_at floats (view_data alive h) (t * d + i)) (float_at floats (view_data alive w)) d c =
       Inr (bd_tokens b ! t)) \<and>
    sorted_wrt (<) (map tg_expertId (bd_groups b)) \<and>
    (\<forall>e. e \<in> tg_expertId ` set (bd_groups b) \<longleftrightarrow> assignments e (bd_tokens b) \<noteq> []) \<and>
    (\<forall>g \<in> set (bd_groups b). length (tg_tokens g) = length (tg_scores g) \<and>
       zip (tg_tokens g) (tg_scores g) = assignments (tg_expertId g) (bd_tokens b))"
proof -
  let ?n = "unat (sh_dimensions (tv_shape h) ! 0)" and ?d = "unat (sh_dimensions (tv_shape h) ! 1)"
  from assms obtain gs where loop: "batch_loop (\<lambda>t. routeToken fexp l (\<lambda>i. float_at floats (view_data alive h) (t * ?d + i))
      (float_at floats (view_data alive w)) ?d c) [length ([] :: router_decision list)..<?n] [] [] = Inr (bd_tokens b, gs)"
    and groups: "bd_groups b = sort_key tg_expertId gs"
    by (auto simp: cpu_routeBatch_def Let_def batch_of_def bindr_eq_Inr)
  have "groups_ok []" by (simp add: groups_ok_def)
  from batch_loop_ok [OF loop this] have ok: "groups_ok gs" "\<And>e. group_pairs e gs = assignments e (bd_tokens b)"
    and len: "length (bd_tokens b) = ?n" and each: "\<And>t. t < ?n \<Longrightarrow> routeToken fexp l (\<lambda>i. float_at floats (view_data alive h) (t * ?d + i))
      (float_at floats (view_data alive w)) ?d c = Inr (bd_tokens b ! t)" by (simp_all add: assignments_def)
  have set_eq: "set (bd_groups b) = set gs" by (simp add: groups)
  have "distinct (map tg_expertId gs)" using ok(1) by (simp add: groups_ok_def)
  then have "distinct (map tg_expertId (bd_groups b))"
    unfolding groups by (metis distinct_map distinct_sort set_sort)
  then have strict: "sorted_wrt (<) (map tg_expertId (bd_groups b))" unfolding strict_sorted_iff by (simp add: groups)
  have "length (tg_tokens g) = length (tg_scores g) \<and> zip (tg_tokens g) (tg_scores g) = assignments (tg_expertId g) (bd_tokens b)"
    if "g \<in> set gs" for g
    using that ok group_pairs_of [OF ok(1) that] by (auto simp: groups_ok_def)
  moreover have "e \<in> tg_expertId ` set gs \<longleftrightarrow> assignments e (bd_tokens b) \<noteq> []" for e
    using groups_present [OF ok(1)] ok(2) by simp
  ultimately show ?thesis unfolding set_eq using len each strict by (simp add: Let_def)
qed

definition example_floats :: "u64 \<Rightarrow> fp" where
  "example_floats a = (if a = 16 then Fin 1 else if a = 20 then Fin (- 1) else if a = 64 then Fin 1 else Fin 2)"

definition float_matrix :: "u64 \<Rightarrow> u64 \<Rightarrow> u64 \<Rightarrow> tensor_view" where
  "float_matrix p rows columns = \<lparr> tv_shape = \<lparr> sh_dimensions = [rows, columns], sh_strides = [columns, 1],
     sh_elementCount = rows * columns, sh_storageElementCount = rows * columns \<rparr>, tv_dtype = dtype_code FP32,
     tv_device = device_cpu, tv_data = p, tv_mutableData = 0, tv_bytes = 4 * (rows * columns),
     tv_storageBytes = 4 * (rows * columns), tv_lifetime = Some 7 \<rparr>"

definition two_experts :: router_config where
  "two_experts = \<lparr> rc_expertCount = 2, rc_topK = 1, rc_normalization = normalization_None, rc_renormalizeSelected = False \<rparr>"

theorem batch_groups_transpose_witness:
  "\<exists>b. cpu_routeBatch exp example_floats {7} 5 (float_matrix 16 2 1) (float_matrix 64 1 2) two_experts = Inr b \<and>
     map tg_expertId (bd_groups b) = [0, 1] \<and> map tg_tokens (bd_groups b) = [[1], [0]] \<and> length (bd_tokens b) = 2"
proof -
  have up: "[0..<2] = [0, 1]" by code_simp
  have inputs: "router_inputs {7} (float_matrix 16 2 1) (float_matrix 64 1 2) two_experts = Inr ()" by code_simp
  have r: "routeToken exp 5 (\<lambda>i. float_at example_floats 16 (t + i)) (float_at example_floats 64) 1 two_experts =
      Inr \<lparr> rd_layerId = 5, rd_selected = [1 - of_nat t], rd_scores = [if t = 0 then 2 else - 1] \<rparr>" if "t = 0 \<or> t = 1" for t
    using that by (auto simp: routeToken_def token_scores_def two_experts_def up expert_score_def fp_plus_def fp_times_def
        float_at_def example_floats_def select_experts_def ranked_def Let_def)
  from r [of 0] r [of 1] have "batch_of 5 (\<lambda>t. routeToken exp 5 (\<lambda>i. float_at example_floats 16 (t + i)) (float_at example_floats 64) 1 two_experts) 2 =
      Inr \<lparr> bd_layerId = 5, bd_tokens = [\<lparr> rd_layerId = 5, rd_selected = [1], rd_scores = [2] \<rparr>,
        \<lparr> rd_layerId = 5, rd_selected = [0], rd_scores = [- 1] \<rparr>],
        bd_groups = [\<lparr> tg_expertId = 0, tg_tokens = [1], tg_scores = [- 1] \<rparr>, \<lparr> tg_expertId = 1, tg_tokens = [0], tg_scores = [2] \<rparr>] \<rparr>"
    by (simp add: batch_of_def up add_decision_def)
  then have b: "cpu_routeBatch exp example_floats {7} 5 (float_matrix 16 2 1) (float_matrix 64 1 2) two_experts =
      Inr \<lparr> bd_layerId = 5, bd_tokens = [\<lparr> rd_layerId = 5, rd_selected = [1], rd_scores = [2] \<rparr>,
        \<lparr> rd_layerId = 5, rd_selected = [0], rd_scores = [- 1] \<rparr>],
        bd_groups = [\<lparr> tg_expertId = 0, tg_tokens = [1], tg_scores = [- 1] \<rparr>, \<lparr> tg_expertId = 1, tg_tokens = [0], tg_scores = [2] \<rparr>] \<rparr>"
    by (simp add: cpu_routeBatch_def inputs) (simp add: float_matrix_def view_data_def expired_def Let_def)
  from batch_groups_transpose [OF b] b show ?thesis by (simp add: float_matrix_def)
qed

end
