(* ===== verification/Sampling.thy ===== *)
theory Sampling
  imports Model_Types Ranking
begin

text \<open>
  \<^verbatim>\<open>src/generation/LogitsProcessor.cpp\<close> and \<^verbatim>\<open>Sampler.cpp\<close>: the probabilities of the next token and the choice of one.
  Logits arrive as floats; the probabilities are reals, with the exponential as a parameter \<open>fexp\<close> that
  may underflow to 0. The state of the sampler is the sequence of numbers its generator still delivers. The lemmas show that
  the probabilities are those of the nucleus of the best tokens and that a token outside it is never sampled.
\<close>

abbreviation strategy_Greedy :: u8 where "strategy_Greedy \<equiv> 0"
abbreviation strategy_Stochastic :: u8 where "strategy_Stochastic \<equiv> 1"

record sampling_config =
  sc_strategy :: u8
  sc_temperature :: fp
  sc_topK :: u64
  sc_topP :: fp
  sc_seed :: u64

definition sampling_validate :: "sampling_config \<Rightarrow> u64 \<Rightarrow> exn + unit" where
  "sampling_validate c vocabularySize =
     throw_if ((sc_strategy c \<noteq> strategy_Greedy \<and> sc_strategy c \<noteq> strategy_Stochastic) \<or> vocabularySize = 0 \<or>
         \<not> isfinite (sc_temperature c) \<or> fp_not_positive (sc_temperature c) \<or>
         (sc_topK c \<noteq> 0 \<and> sc_topK c > vocabularySize) \<or> \<not> isfinite (sc_topP c) \<or> fp_not_positive (sc_topP c) \<or>
         fp_value (sc_topP c) > 1)
       (InvalidArgument ''sampling configuration is invalid'')"

section \<open>Probabilities\<close>

text \<open>A list with the given values at the given indices and 0 elsewhere.\<close>

definition place :: "nat \<Rightarrow> nat list \<Rightarrow> (nat \<Rightarrow> real) \<Rightarrow> real list" where
  "place n indices f = map (\<lambda>i. if i \<in> set indices then f i else 0) [0..<n]"

text \<open>How many of the ranked tokens the nucleus keeps: up to the first at which the sum reaches \<open>topP\<close>.\<close>

fun nucleus :: "real \<Rightarrow> real \<Rightarrow> real list \<Rightarrow> nat" where
  "nucleus topP cumulative [] = 0"
| "nucleus topP cumulative (p # ps) =
     (if cumulative + p \<ge> topP then 1 else Suc (nucleus topP (cumulative + p) ps))"

definition logit_probabilities :: "(real \<Rightarrow> real) \<Rightarrow> fp list \<Rightarrow> sampling_config \<Rightarrow> exn + real list" where
  "logit_probabilities fexp floats c =
     andthen (sampling_validate c (of_nat (length floats)))
    (andthen (throw_if (\<not> list_all isfinite floats) (InvalidArgument ''sampler requires finite logits''))
    (let logits = map fp_value floats; n = length logits; order = ranked logits;
         retained = (if sc_topK c = 0 then n else unat (sc_topK c));
         scale = (if sc_strategy c = strategy_Stochastic then fp_value (sc_temperature c) else 1);
         maximum = logits ! hd order / scale;
         powers = place n (take retained order) (\<lambda>i. fexp (logits ! i / scale - maximum));
         total = sum_list powers
     in andthen (throw_if (total \<le> 0) (RuntimeError ''logits softmax normalization failed''))
       (let result = map (\<lambda>p. p / total) powers in
        if fp_value (sc_topP c) < 1
        then (let keep = max 1 (nucleus (fp_value (sc_topP c)) 0 (map (\<lambda>i. result ! i) (take retained order)));
                  kept = place n (take keep (take retained order)) (\<lambda>i. result ! i)
              in Inr (map (\<lambda>p. p / sum_list kept) kept))
        else Inr result)))"

section \<open>Sampling\<close>

record sampler =
  sm_config :: sampling_config
  sm_random :: "nat \<Rightarrow> u64"
  sm_drawn :: nat

text \<open>\<open>mt19937_64\<close> is a sequence of numbers for each seed.\<close>

definition sampler_make :: "(u64 \<Rightarrow> nat \<Rightarrow> u64) \<Rightarrow> sampling_config \<Rightarrow> sampler" where
  "sampler_make twister c = \<lparr> sm_config = c, sm_random = twister (sc_seed c), sm_drawn = 0 \<rparr>"

definition first_maximum :: "real list \<Rightarrow> nat" where
  "first_maximum xs = foldl (\<lambda>best i. if xs ! best < xs ! i then i else best) 0 [1..<length xs]"

fun pick :: "real \<Rightarrow> real \<Rightarrow> nat \<Rightarrow> nat \<Rightarrow> real list \<Rightarrow> nat" where
  "pick draw cumulative lst index [] = lst"
| "pick draw cumulative lst index (p # ps) =
     (if draw < cumulative + p then index
      else pick draw (cumulative + p) (if p > 0 then index else lst) (Suc index) ps)"

definition next_draw :: "(sampler, real) prog" where
  "next_draw = bindp (gets (\<lambda>s. sm_random s (sm_drawn s))) (\<lambda>bits.
     thenp (modify (\<lambda>s. s\<lparr> sm_drawn := Suc (sm_drawn s) \<rparr>)) (ret (of_nat (unat (drop_bit 11 bits)) / 9007199254740992)))"

definition sample_token :: "(real \<Rightarrow> real) \<Rightarrow> fp list \<Rightarrow> (sampler, u32) prog" where
  "sample_token fexp logits =
     bindp (gets sm_config) (\<lambda>c.
     case sampling_validate c (of_nat (length logits)) of
       Inl e \<Rightarrow> raise e
     | Inr _ \<Rightarrow>
         thenp (require (length logits \<le> 0xFFFFFFFF) (InvalidArgument ''sampler vocabulary exceeds token ID range''))
        (if sc_strategy c = strategy_Greedy
         then thenp (require (list_all isfinite logits) (InvalidArgument ''sampler requires finite logits''))
             (ret (of_nat (first_maximum (map fp_value logits))))
         else (case logit_probabilities fexp logits c of
             Inl e \<Rightarrow> raise e
           | Inr probabilities \<Rightarrow> bindp next_draw (\<lambda>draw. ret (of_nat (pick draw 0 0 0 probabilities))))))"

section \<open>What is sampled\<close>

lemma first_maximum_prefix:
  "n \<le> length xs \<Longrightarrow> 0 < n \<Longrightarrow> (let b = foldl (\<lambda>best i. if xs ! best < xs ! i then i else best) 0 [1..<n] in
     b < n \<and> (\<forall>i < n. xs ! i \<le> (xs :: real list) ! b) \<and> (\<forall>i < b. xs ! i < xs ! b))"
proof (induction n)
  case (Suc n)
  show ?case
  proof (cases "n = 0")
    case False
    let ?b = "foldl (\<lambda>best i. if xs ! best < xs ! i then i else best) 0 [1..<n]"
    from Suc False have IH: "?b < n" "\<forall>i < n. xs ! i \<le> xs ! ?b" "\<forall>i < ?b. xs ! i < xs ! ?b" by (simp_all add: Let_def)
    from False have up: "[1..<Suc n] = [1..<n] @ [n]" by simp
    show ?thesis
    proof (cases "xs ! ?b < xs ! n")
      case True
      have "xs ! i < xs ! n" if "i < n" for i using IH(2) that True by fastforce
      with True show ?thesis unfolding up by (auto simp: Let_def less_Suc_eq intro: less_imp_le)
    next
      case False
      with IH show ?thesis unfolding up by (auto simp: Let_def less_Suc_eq not_less)
    qed
  qed simp
qed simp

lemma first_maximum_ok:
  assumes "xs \<noteq> []"
  shows "first_maximum xs < length xs" and "i < length xs \<Longrightarrow> xs ! i \<le> xs ! first_maximum xs"
    and "i < first_maximum xs \<Longrightarrow> xs ! i < xs ! first_maximum xs"
  using first_maximum_prefix [of "length xs" xs] assms unfolding first_maximum_def Let_def by auto

lemma pick_positive:
  "cumulative \<le> draw \<Longrightarrow> \<forall>p \<in> set ps. 0 \<le> p \<Longrightarrow> (\<exists>p \<in> set ps. 0 < p) \<or> lst < index \<and> 0 < q lst \<Longrightarrow>
   (\<And>i. i < length ps \<Longrightarrow> q (index + i) = ps ! i) \<Longrightarrow>
   pick draw cumulative lst index ps < index + length ps \<and> 0 < q (pick draw cumulative lst index ps)"
proof (induction ps arbitrary: cumulative lst index)
  case (Cons p ps)
  have here: "q index = p" using Cons.prems(4) [of 0] by simp
  show ?case
  proof (cases "draw < cumulative + p")
    case True
    with Cons.prems(1) have "0 < p" by simp
    with True here show ?thesis by simp
  next
    case False
    have rest: "q (Suc index + i) = ps ! i" if "i < length ps" for i using Cons.prems(4) [of "Suc i"] that by simp
    from False have "cumulative + p \<le> draw" by simp
    moreover have "(\<exists>p \<in> set ps. 0 < p) \<or> (if 0 < p then index else lst) < Suc index \<and> 0 < q (if 0 < p then index else lst)"
      using Cons.prems(3) here by auto
    ultimately have "pick draw (cumulative + p) (if 0 < p then index else lst) (Suc index) ps < Suc index + length ps \<and>
        0 < q (pick draw (cumulative + p) (if 0 < p then index else lst) (Suc index) ps)"
      using Cons.prems(2) rest by (intro Cons.IH) auto
    with False show ?thesis by simp
  qed
qed simp

definition draw_of :: "u64 \<Rightarrow> real" where
  "draw_of bits = of_nat (unat (drop_bit 11 bits)) / 9007199254740992"

lemma next_draw_run: "next_draw s = (Inr (draw_of (sm_random s (sm_drawn s))), s\<lparr> sm_drawn := Suc (sm_drawn s) \<rparr>)"
  by (simp add: next_draw_def guard_runs draw_of_def)

lemma draw_bounds: "0 \<le> draw_of bits"
  unfolding draw_of_def by (intro divide_nonneg_nonneg of_nat_0_le_iff) simp

subsection \<open>The nucleus\<close>

lemma length_place [simp]: "length (place n is' f) = n"
  by (simp add: place_def)

lemma nth_place [simp]: "i < n \<Longrightarrow> place n is' f ! i = (if i \<in> set is' then f i else 0)"
  by (simp add: place_def)

lemma sum_place:
  assumes "distinct is'" and "set is' \<subseteq> {..<n}"
  shows "sum_list (place n is' f) = sum_list (map f is')"
proof -
  have "sum_list (place n is' f) = (\<Sum>i < n. if i \<in> set is' then f i else 0)"
    by (simp add: place_def interv_sum_list_conv_sum_set_nat atLeast0LessThan)
  also have "\<dots> = sum f (set is')" using assms(2) by (simp add: sum.If_cases Int_absorb1)
  also have "\<dots> = sum_list (map f is')" using assms(1) by (simp add: sum_list_distinct_conv_sum_set)
  finally show ?thesis .
qed

lemma nucleus_prefix:
  "r < nucleus P c ps \<Longrightarrow> 0 < r \<Longrightarrow> c + sum_list (take r ps) < P"
proof (induction P c ps arbitrary: r rule: nucleus.induct)
  case (2 P c p ps)
  then have small: "\<not> c + p \<ge> P" by (auto split: if_splits)
  show ?case
  proof (cases "r = 1")
    case True
    with small show ?thesis by simp
  next
    case False
    with 2 small have "(c + p) + sum_list (take (r - 1) ps) < P" by (intro 2) auto
    with 2(3) show ?thesis by (cases r) simp_all
  qed
qed simp

lemma nucleus_le: "nucleus P c ps \<le> length ps"
  by (induction P c ps rule: nucleus.induct) auto

text \<open>The weight of a token and how many of the best are considered.\<close>

definition sampling_scale :: "sampling_config \<Rightarrow> real" where
  "sampling_scale c = (if sc_strategy c = strategy_Stochastic then fp_value (sc_temperature c) else 1)"

definition considered :: "sampling_config \<Rightarrow> real list \<Rightarrow> nat list" where
  "considered c logits = take (if sc_topK c = 0 then length logits else unat (sc_topK c)) (ranked logits)"

definition token_weight :: "(real \<Rightarrow> real) \<Rightarrow> sampling_config \<Rightarrow> real list \<Rightarrow> nat \<Rightarrow> real" where
  "token_weight fexp c logits i = fexp (logits ! i / sampling_scale c - logits ! hd (ranked logits) / sampling_scale c)"

definition total_weight :: "(real \<Rightarrow> real) \<Rightarrow> sampling_config \<Rightarrow> real list \<Rightarrow> nat list \<Rightarrow> real" where
  "total_weight fexp c logits is' = sum_list (map (token_weight fexp c logits) is')"

lemma considered_ok:
  assumes "sampling_validate c (of_nat (length logits)) = Inr ()" and "length logits < 2 ^ 64"
  shows "considered c logits \<noteq> []" and "distinct (considered c logits)" and "set (considered c logits) \<subseteq> {..<length logits}"
    and "hd (considered c logits) = hd (ranked logits)"
proof -
  from assms(1) have "(of_nat (length logits) :: u64) \<noteq> 0" by (simp add: sampling_validate_def)
  then have n: "logits \<noteq> []" by auto
  have k: "0 < (if sc_topK c = 0 then length logits else unat (sc_topK c))" using n by (simp add: unat_gt_0)
  obtain b bs where b: "ranked logits = b # bs" using n ranked_perm(3) [of logits] by (cases "ranked logits") auto
  with k show "considered c logits \<noteq> []" "hd (considered c logits) = hd (ranked logits)"
    by (cases "if sc_topK c = 0 then length logits else unat (sc_topK c)"; simp add: considered_def)+
  show "distinct (considered c logits)" by (simp add: considered_def)
  show "set (considered c logits) \<subseteq> {..<length logits}"
    using set_take_subset [of _ "ranked logits"] by (simp add: considered_def)
qed

lemma probabilities_shape:
  assumes "logit_probabilities fexp floats c = Inr ps" and "\<And>x. 0 \<le> fexp x" and "0 < fexp 0" and "length floats < 2 ^ 64"
  defines "logits \<equiv> map fp_value floats"
  obtains keep total kept where "keep \<le> length (considered c logits)" and "0 < keep" and "0 < total" and "0 < kept"
    and "total = total_weight fexp c logits (considered c logits)"
    and "\<And>r. r < keep \<Longrightarrow> 0 < r \<Longrightarrow> fp_value (sc_topP c) < 1 \<Longrightarrow>
      total_weight fexp c logits (take r (considered c logits)) < fp_value (sc_topP c) * total"
    and "ps = place (length logits) (take keep (considered c logits)) (\<lambda>i. token_weight fexp c logits i / kept)"
    and "kept = total_weight fexp c logits (take keep (considered c logits))"
proof -
  let ?w = "token_weight fexp c logits" and ?K = "considered c logits" and ?P = "fp_value (sc_topP c)" and ?n = "length logits"
  from assms(1) have valid: "sampling_validate c (of_nat (length logits)) = Inr ()"
    by (auto simp: logit_probabilities_def logits_def)
  have short: "length logits < 2 ^ 64" using assms(4) by (simp add: logits_def)
  note K = considered_ok [OF valid short]
  define total where "total = total_weight fexp c logits ?K"
  have powers: "sum_list (place ?n ?K ?w) = total" using sum_place [OF K(2,3)] by (simp add: total_def total_weight_def)
  have w: "0 \<le> ?w i" for i using assms(2) by (simp add: token_weight_def)
  have w0: "0 < ?w (hd ?K)" using assms(3) by (simp add: token_weight_def K(4))
  have pos: "0 < total_weight fexp c logits (take k ?K)" if "0 < k" for k
  proof -
    obtain b bs where b: "?K = b # bs" using K(1) by (cases ?K) auto
    with that obtain m where "k = Suc m" by (cases k) auto
    have "0 \<le> sum_list (map ?w (take m bs))" by (rule sum_list_nonneg) (use w in auto)
    with b w0 \<open>k = Suc m\<close> show ?thesis by (simp add: total_weight_def add_pos_nonneg)
  qed
  have total: "0 < total" using pos [of "length ?K"] K(1) by (simp add: total_def)
  have fold: "(\<lambda>i. fexp (logits ! i / sampling_scale c - logits ! hd (ranked logits) / sampling_scale c)) = ?w"
    by (rule ext) (simp add: token_weight_def)
  show thesis
  proof (cases "?P < 1")
    case False
    have "ps = map (\<lambda>p. p / total) (place ?n ?K ?w)"
      using assms(1) False powers unfolding logit_probabilities_def
      by (simp add: Let_def logits_def [symmetric] considered_def [symmetric] sampling_scale_def [symmetric] fold)
    also have "\<dots> = place ?n ?K (\<lambda>i. ?w i / total)" by (simp add: place_def comp_def if_distrib cong: if_cong)
    finally have "ps = place ?n (take (length ?K) ?K) (\<lambda>i. ?w i / total)" by simp
    with False total K(1) show ?thesis
      by (intro that [of "length ?K" total total]) (simp_all add: total_def)
  next
    case True
    define result where "result = map (\<lambda>p. p / total) (place ?n ?K ?w)"
    define keep where "keep = max 1 (nucleus ?P 0 (map (\<lambda>i. result ! i) ?K))"
    have ps: "ps = map (\<lambda>p. p / sum_list (place ?n (take keep ?K) (\<lambda>i. result ! i))) (place ?n (take keep ?K) (\<lambda>i. result ! i))"
      using assms(1) True powers unfolding logit_probabilities_def
      by (simp add: Let_def logits_def [symmetric] considered_def [symmetric] sampling_scale_def [symmetric] fold
          result_def keep_def del: take_take)
    define kept where "kept = total_weight fexp c logits (take keep ?K)"
    have sub: "set (take keep ?K) \<subseteq> set ?K" by (rule set_take_subset)
    have res: "result ! i = ?w i / total" if "i \<in> set ?K" for i
    proof -
      from that K(3) have "i < ?n" by blast
      with that show ?thesis by (simp add: result_def)
    qed
    have maps: "map (\<lambda>i. result ! i) is' = map (\<lambda>s. s / total) (map ?w is')" if "set is' \<subseteq> set ?K" for is'
      using that res by auto
    have "distinct (take keep ?K)" "set (take keep ?K) \<subseteq> {..<?n}" using K(2,3) sub by auto
    from sum_place [OF this] maps [OF sub]
    have mass: "sum_list (place ?n (take keep ?K) (\<lambda>i. result ! i)) = kept / total"
      by (simp only: sum_list_scaled kept_def total_weight_def)
    have one: "1 \<le> keep" and len: "keep \<le> length ?K"
      using nucleus_le [of ?P 0 "map (\<lambda>i. result ! i) ?K"] K(1) by (simp_all add: keep_def Suc_le_eq)
    have kept: "0 < kept" using pos [of keep] one by (simp add: kept_def)
    have "ps = place ?n (take keep ?K) (\<lambda>i. ?w i / kept)"
      unfolding ps mass using res sub total by (auto simp: place_def)
    moreover have "total_weight fexp c logits (take k ?K) < ?P * total" if "k < keep" "0 < k" for k
    proof -
      have "k < nucleus ?P 0 (map (\<lambda>i. result ! i) ?K)" using that by (simp add: keep_def)
      from nucleus_prefix [OF this that(2)] have "sum_list (map (\<lambda>i. result ! i) (take k ?K)) < ?P" by (simp add: take_map)
      moreover have "set (take k ?K) \<subseteq> set ?K" by (rule set_take_subset)
      ultimately have "total_weight fexp c logits (take k ?K) / total < ?P"
        using maps [of "take k ?K"] by (simp only: sum_list_scaled total_weight_def)
      with total show ?thesis by (simp add: pos_divide_less_eq)
    qed
    ultimately show ?thesis using one len kept total by (intro that [of keep total kept]) (simp_all add: total_def kept_def)
  qed
qed

lemma take_weight_less:
  assumes "r < length K" and "\<And>i. 0 \<le> token_weight fexp c logits i" and "0 < token_weight fexp c logits (K ! r)"
  shows "total_weight fexp c logits (take r K) < total_weight fexp c logits K"
proof -
  have "K = take r K @ K ! r # drop (Suc r) K" using assms(1) by (rule id_take_nth_drop)
  then have "total_weight fexp c logits K = total_weight fexp c logits (take r K) + token_weight fexp c logits (K ! r) +
      total_weight fexp c logits (drop (Suc r) K)"
    unfolding total_weight_def by (metis (no_types, lifting) add.assoc list.simps(9) map_append sum_list.Cons sum_list_append)
  moreover have "0 \<le> total_weight fexp c logits (drop (Suc r) K)"
    unfolding total_weight_def by (rule sum_list_nonneg) (use assms(2) in auto)
  ultimately show ?thesis using assms(3) by simp
qed

lemma sample_token_cases:
  assumes "sample_token fexp floats s = (Inr t, s')"
  obtains "sampling_validate (sm_config s) (of_nat (length floats)) = Inr ()" and "length floats \<le> 0xFFFFFFFF" and "sm_config s' = sm_config s"
    and "sc_strategy (sm_config s) = strategy_Greedy" and "t = of_nat (first_maximum (map fp_value floats))"
  | ps bits where "sampling_validate (sm_config s) (of_nat (length floats)) = Inr ()" and "length floats \<le> 0xFFFFFFFF" and "sm_config s' = sm_config s"
    and "sc_strategy (sm_config s) \<noteq> strategy_Greedy" and "logit_probabilities fexp floats (sm_config s) = Inr ps"
    and "t = of_nat (pick (draw_of bits) 0 0 0 ps)"
  using assms unfolding sample_token_def
  by (auto simp: guard_runs next_draw_run split: sum.splits if_splits)

lemma validate_nonempty: "sampling_validate c (of_nat (length xs)) = Inr () \<Longrightarrow> xs \<noteq> []"
  by (auto simp: sampling_validate_def)

lemma token_id: "k < n \<Longrightarrow> n \<le> 0xFFFFFFFF \<Longrightarrow> unat (of_nat k :: u32) = k"
  by (simp add: unat_of_nat)

text \<open>C8: a greedy sample is the first token with the largest logit. A stochastic sample is a token of the nucleus: one of the
  top-k best with positive weight, such that the tokens ranked before it together have less than the share
  top-p of the weight. Neither depends on the numbers drawn, nor on weights that underflow to zero.\<close>

theorem sampled_token_in_nucleus:
  assumes "sample_token fexp floats s = (Inr t, s')" and "\<And>x. 0 \<le> fexp x" and "0 < fexp 0"
  shows "let c = sm_config s; logits = map fp_value floats; K = considered c logits in
    unat t < length logits \<and>
    (sc_strategy c = strategy_Greedy \<longrightarrow>
       (\<forall>i < length logits. logits ! i \<le> logits ! unat t) \<and> (\<forall>i < unat t. logits ! i < logits ! unat t)) \<and>
    (sc_strategy c \<noteq> strategy_Greedy \<longrightarrow> (\<exists>r < length K. K ! r = unat t \<and> 0 < token_weight fexp c logits (unat t) \<and>
       (r = 0 \<or> total_weight fexp c logits (take r K) < fp_value (sc_topP c) * total_weight fexp c logits K)))"
  using assms(1)
proof (cases rule: sample_token_cases)
  case 1
  let ?l = "map fp_value floats"
  have ne: "?l \<noteq> []" using validate_nonempty [OF 1(1)] by simp
  note m = first_maximum_ok [OF ne]
  have "unat t = first_maximum ?l" using m(1) 1(2) unfolding 1(5) by (intro token_id [of _ "length ?l"]) simp_all
  with m 1(4) show ?thesis by (simp add: Let_def)
next
  case (2 ps bits)
  let ?c = "sm_config s" and ?l = "map fp_value floats"
  let ?K = "considered ?c ?l" and ?w = "token_weight fexp ?c ?l"
  from 2(2) have short: "length floats < 2 ^ 64" by simp
  have w: "0 \<le> ?w i" for i using assms(2) by (simp add: token_weight_def)
  have "sampling_validate ?c (of_nat (length ?l)) = Inr ()" using 2(1) by simp
  moreover have "length ?l < 2 ^ 64" using short by simp
  ultimately have K: "?K \<noteq> []" "set ?K \<subseteq> {..<length ?l}" "hd ?K = hd (ranked ?l)" using considered_ok by blast+
  from probabilities_shape [OF 2(5) assms(2,3) short] obtain keep total kept where keep: "keep \<le> length ?K" "0 < keep" "0 < total" "0 < kept"
    and total: "total = total_weight fexp ?c ?l ?K"
    and mass: "\<And>r. r < keep \<Longrightarrow> 0 < r \<Longrightarrow> fp_value (sc_topP ?c) < 1 \<Longrightarrow> total_weight fexp ?c ?l (take r ?K) < fp_value (sc_topP ?c) * total"
    and ps: "ps = place (length ?l) (take keep ?K) (\<lambda>i. ?w i / kept)"
    and kept: "kept = total_weight fexp ?c ?l (take keep ?K)" by blast
  define j where "j = pick (draw_of bits) 0 0 0 ps"
  have nonneg: "\<forall>p \<in> set ps. 0 \<le> p" using w keep(4) unfolding ps by (auto simp: place_def)
  have "hd ?K \<in> set (take keep ?K)" using keep(2) K(1) by (cases ?K; cases keep) simp_all
  moreover have "hd ?K < length ?l" using K(2) hd_in_set [OF K(1)] by auto
  moreover have "0 < ?w (hd ?K)" using assms(3) by (simp add: token_weight_def K(3))
  ultimately have "0 < ps ! hd ?K" "hd ?K < length ps" using keep(4) by (simp_all add: ps)
  then have "\<exists>p \<in> set ps. 0 < p" by (meson nth_mem)
  with pick_positive [where draw = "draw_of bits" and cumulative = 0 and lst = 0 and index = 0 and ps = ps and q = "\<lambda>i. ps ! i"]
    draw_bounds nonneg have j: "j < length ps" "0 < ps ! j" by (simp_all add: j_def)
  then have jl: "j < length ?l" by (simp add: ps)
  have t: "unat t = j" using jl 2(2) unfolding 2(6) j_def by (intro token_id [of _ "length ?l"]) simp_all
  from j jl have "j \<in> set (take keep ?K)" "0 < ?w j"
    using keep(4) by (simp_all add: ps zero_less_divide_iff split: if_splits)
  then obtain r where r: "r < keep" "?K ! r = j" by (auto simp: in_set_conv_nth)
  have "r = 0 \<or> total_weight fexp ?c ?l (take r ?K) < fp_value (sc_topP ?c) * total"
  proof (cases "fp_value (sc_topP ?c) < 1")
    case True
    with mass r(1) show ?thesis by blast
  next
    case False
    moreover have "\<not> fp_value (sc_topP ?c) > 1" using 2(1) by (simp add: sampling_validate_def)
    ultimately have "fp_value (sc_topP ?c) = 1" by simp
    moreover have "total_weight fexp ?c ?l (take r ?K) < total_weight fexp ?c ?l ?K"
      using r keep(1) w \<open>0 < ?w j\<close> by (intro take_weight_less) auto
    ultimately show ?thesis by (simp add: total)
  qed
  with r keep(1) jl t \<open>0 < ?w j\<close> 2(4) total show ?thesis by (auto simp: Let_def intro!: exI [of _ r])
qed

definition example_sampler :: sampler where
  "example_sampler = sampler_make (\<lambda>seed n. seed) \<lparr> sc_strategy = strategy_Stochastic, sc_temperature = Fin 1, sc_topK = 2,
     sc_topP = Fin (1 / 2), sc_seed = 0 \<rparr>"

theorem sampled_token_in_nucleus_witness:
  "\<exists>s'. sample_token exp [Fin 0, Fin 5, Fin 5] example_sampler = (Inr 1, s') \<and>
     considered (sm_config example_sampler) [0, 5, 5] ! 0 = unat (1 :: u32)"
proof -
  let ?c = "\<lparr> sc_strategy = strategy_Stochastic, sc_temperature = Fin 1, sc_topK = 2, sc_topP = Fin (1 / 2), sc_seed = 0 \<rparr>"
  have c: "sm_config example_sampler = ?c" by (simp add: example_sampler_def sampler_make_def)
  have v: "sampling_validate ?c 3 = Inr ()" by (simp add: sampling_validate_def fp_not_positive_def)
  have rk: "ranked [0, 5, 5] = [1, 2, 0]" by (simp add: ranked_def numeral_eq_Suc)
  have up: "[0..<3] = [0, 1, 2]" by code_simp
  have p: "logit_probabilities exp [Fin 0, Fin 5, Fin 5] ?c = Inr [0, 1, 0]"
    by (simp add: logit_probabilities_def v rk place_def up Let_def)
  have d: "next_draw example_sampler = (Inr 0, example_sampler\<lparr> sm_drawn := 1 \<rparr>)"
    by (simp add: next_draw_run draw_of_def example_sampler_def sampler_make_def)
  have s: "sample_token exp [Fin 0, Fin 5, Fin 5] example_sampler = (Inr 1, example_sampler\<lparr> sm_drawn := 1 \<rparr>)"
    by (simp add: sample_token_def guard_runs c v p d)
  from sampled_token_in_nucleus [OF s] have "\<exists>r < length (considered ?c [0, 5, 5]). considered ?c [0, 5, 5] ! r = 1 \<and>
      (r = 0 \<or> total_weight exp ?c [0, 5, 5] (take r (considered ?c [0, 5, 5])) < 1 / 2 * total_weight exp ?c [0, 5, 5] (considered ?c [0, 5, 5]))"
    by (auto simp: c Let_def)
  with s show ?thesis by (simp add: c considered_def rk)
qed

end
