(* ===== verification/Generation.thy ===== *)
theory Generation
  imports KV_Manager Routing Sampling
begin

text \<open>
  Text generation: \<^verbatim>\<open>src/runtime/generation\<close> (\<open>GenerationState\<close>, \<open>ForwardState\<close>, \<open>Decoder\<close>, \<open>InferenceSession\<close>) and
  \<^verbatim>\<open>src/generation/Generator.cpp\<close>. The tokenizer and the generation model are interfaces of the code and parameters
  here: a model has a state \<open>'w\<close> of its own, and \<open>gm_forward\<close> may change it and the cache it is given, even when it throws. The
  cache of the running session is the one in the KV cache manager. The loop carries fuel, one round more than tokens are
  asked for, each round but the last appends a token. The lemmas show that a session is always given back, what a result is, and that
  generation succeeds with a model that does what the decoder checks.
\<close>

section \<open>Generation state\<close>

datatype stop_reason = NoReason | MaximumTokens | StopToken

record gen_state =
  gs_maximum :: u64
  gs_stop :: "u32 list"
  gs_prompt :: "u32 list"
  gs_generated :: "u32 list"
  gs_position :: u64
  gs_active :: bool
  gs_reason :: stop_reason

definition gs_make :: "u64 \<Rightarrow> u32 list \<Rightarrow> exn + gen_state" where
  "gs_make maximumNewTokens stops =
     andthen (throw_if (maximumNewTokens = 0) (InvalidArgument ''generation requires at least one output token''))
     (Inr \<lparr> gs_maximum = maximumNewTokens, gs_stop = stops, gs_prompt = [], gs_generated = [], gs_position = 0,
        gs_active = False, gs_reason = NoReason \<rparr>)"

definition gs_finished :: "gen_state \<Rightarrow> bool" where
  "gs_finished g \<longleftrightarrow> gs_reason g \<noteq> NoReason"

definition gs_begin :: "u32 list \<Rightarrow> gen_state \<Rightarrow> exn + gen_state" where
  "gs_begin prompt g =
     andthen (throw_if (gs_active g \<or> prompt = []) (LogicError ''generation state requires one nonempty prompt''))
     (Inr (g\<lparr> gs_prompt := prompt, gs_generated := [], gs_position := 0, gs_reason := NoReason, gs_active := True \<rparr>))"

definition gs_advance :: "u64 \<Rightarrow> gen_state \<Rightarrow> exn + gen_state" where
  "gs_advance n g =
     andthen (throw_if (\<not> gs_active g \<or> gs_finished g \<or> n = 0 \<or> n > u64_max - gs_position g)
       (LogicError ''generation token position cannot advance''))
     (Inr (g\<lparr> gs_position := gs_position g + n \<rparr>))"

definition gs_finish :: "stop_reason \<Rightarrow> gen_state \<Rightarrow> exn + gen_state" where
  "gs_finish reason g =
     andthen (throw_if (\<not> gs_active g \<or> gs_finished g \<or> reason = NoReason) (LogicError ''generation stop reason is invalid''))
     (Inr (g\<lparr> gs_reason := reason \<rparr>))"

definition gs_append :: "u32 \<Rightarrow> gen_state \<Rightarrow> exn + gen_state" where
  "gs_append token g =
     andthen (throw_if (\<not> gs_active g \<or> gs_finished g \<or> length (gs_generated g) \<ge> unat (gs_maximum g))
       (LogicError ''generation state cannot accept another token''))
     (let g' = g\<lparr> gs_generated := gs_generated g @ [token] \<rparr> in
      if token \<in> set (gs_stop g) then gs_finish StopToken g'
      else if length (gs_generated g') = unat (gs_maximum g) then gs_finish MaximumTokens g'
      else Inr g')"

section \<open>Forward state\<close>

record forward_pass =
  fw_hidden :: tensor
  fw_logits :: tensor
  fw_finalLayer :: u32
  fw_routing :: "router_decision list"

record forward_state =
  fs_hidden :: tensor
  fs_logits :: tensor
  fs_layer :: u32
  fs_position :: u64
  fs_inputTokens :: u64
  fs_cachedTokens :: u64
  fs_routing :: "router_decision list"

definition fs_default :: forward_state where
  "fs_default = \<lparr> fs_hidden = tensor_default, fs_logits = tensor_default, fs_layer = 0, fs_position = 0, fs_inputTokens = 0,
     fs_cachedTokens = 0, fs_routing = [] \<rparr>"

abbreviation tensor_dims :: "tensor \<Rightarrow> u64 list" where
  "tensor_dims x \<equiv> sh_dimensions (tn_shape x)"

definition fs_update :: "forward_pass \<Rightarrow> u64 \<Rightarrow> u64 \<Rightarrow> exn + forward_state" where
  "fs_update pass position cached =
     andthen (throw_if (\<not> tensor_valid (fw_hidden pass) \<or> \<not> tensor_valid (fw_logits pass) \<or>
         sh_rank (tn_shape (fw_hidden pass)) \<noteq> 2 \<or> sh_rank (tn_shape (fw_logits pass)) \<noteq> 2 \<or>
         tensor_dims (fw_hidden pass) ! 0 \<noteq> tensor_dims (fw_logits pass) ! 0 \<or>
         length (fw_routing pass) \<noteq> unat (tensor_dims (fw_hidden pass) ! 0) \<or>
         tensor_dims (fw_hidden pass) ! 0 > u64_max - position)
       (InvalidArgument ''forward pass state is inconsistent''))
    (andthen (each (\<lambda>r. throw_if (\<not> decision_valid r \<or> rd_layerId r \<noteq> fw_finalLayer pass)
         (InvalidArgument ''forward pass routing metadata is invalid'')) (fw_routing pass))
     (Inr \<lparr> fs_hidden = fw_hidden pass, fs_logits = fw_logits pass, fs_layer = fw_finalLayer pass, fs_position = position,
        fs_inputTokens = tensor_dims (fw_hidden pass) ! 0, fs_cachedTokens = cached, fs_routing = fw_routing pass \<rparr>))"

definition fs_valid :: "forward_state \<Rightarrow> bool" where
  "fs_valid f \<longleftrightarrow> tensor_valid (fs_hidden f) \<and> tensor_valid (fs_logits f)"

section \<open>Interfaces\<close>

text \<open>\<open>InferenceContext\<close>, as the decoder fills it.\<close>

record inference_context =
  ic_batchSize :: u64
  ic_sequencePosition :: u64
  ic_hiddenDimension :: u64

record ('w, 'c) generation_model =
  gm_vocabularySize :: u64
  gm_hiddenDimension :: u64
  gm_layerCount :: u64
  gm_keyValueHeads :: u64
  gm_headDimension :: u64
  gm_device :: device
  gm_forward :: "inference_context \<Rightarrow> u32 list \<Rightarrow> 'c \<Rightarrow> 'w \<Rightarrow> (exn + forward_pass) \<times> 'c \<times> 'w"
  gm_materializeHost :: "'w \<Rightarrow> tensor_view \<Rightarrow> exn + fp list"

record tokenizer =
  tk_encode :: "string \<Rightarrow> exn + u32 list"
  tk_decode :: "u32 list \<Rightarrow> exn + string"
  tk_vocabularySize :: u64

text \<open>What the decoder and the manager call of a \<open>KVCacheBase\<close>.\<close>

record 'c cache_ops =
  co_tokenCount :: "'c \<Rightarrow> u64 \<Rightarrow> exn + u64"
  co_maximum :: "'c \<Rightarrow> u64"
  co_usage :: "'c \<Rightarrow> exn + u64"

section \<open>Sessions\<close>

record ('w, 'c) session =
  se_manager :: "'c kv_manager"
  se_world :: 'w
  se_id :: u64
  se_state :: gen_state
  se_forward :: forward_state

definition se_cache :: "('w, 'c) session \<Rightarrow> 'c" where
  "se_cache s = the (map_of (km_sessions (se_manager s)) (se_id s))"

text \<open>\<open>made\<close> is what the construction of a cache answers.\<close>

definition session_open ::
  "('w, 'c) generation_model \<Rightarrow> exn + 'c \<Rightarrow> u64 \<Rightarrow> u32 list \<Rightarrow> device \<Rightarrow> 'c kv_manager \<Rightarrow> 'w \<Rightarrow> (exn + ('w, 'c) session) \<times> 'c kv_manager" where
  "session_open gm made maximumNewTokens stops dev m w =
     (case gs_make maximumNewTokens stops of
        Inl e \<Rightarrow> (Inl e, m)
      | Inr g \<Rightarrow>
          if gm_layerCount gm \<noteq> km_layerCount m \<or> gm_keyValueHeads gm \<noteq> km_heads m \<or> gm_headDimension gm \<noteq> km_dimension m \<or>
             gm_device gm \<noteq> dev \<or> gm_device gm \<noteq> km_device m \<or> maximumNewTokens > km_maximum m
          then (Inl (InvalidArgument ''inference session model and KV cache manager are incompatible''), m)
          else (case km_allocate made m of
              (Inl e, m') \<Rightarrow> (Inl e, m')
            | (Inr i, m') \<Rightarrow> (Inr \<lparr> se_manager = m', se_world = w, se_id = i, se_state = g, se_forward = fs_default \<rparr>, m')))"

text \<open>The destructor releases the session and swallows what that throws.\<close>

definition session_close :: "('w, 'c) session \<Rightarrow> 'c kv_manager" where
  "session_close s = (if se_id s \<noteq> 0 then snd (km_release (se_id s) (se_manager s)) else se_manager s)"

section \<open>Decoder\<close>

definition layers_advanced :: "'c cache_ops \<Rightarrow> u64 \<Rightarrow> 'c \<Rightarrow> u64 \<Rightarrow> exn + unit" where
  "layers_advanced ops layers c expected =
     each (\<lambda>l. bindr (co_tokenCount ops c (of_nat l)) (\<lambda>n.
       throw_if (n \<noteq> expected) (RuntimeError ''model forward did not advance every KV cache layer''))) [0..<unat layers]"

definition forward_context :: "('w, 'c) generation_model \<Rightarrow> u32 list \<Rightarrow> gen_state \<Rightarrow> inference_context" where
  "forward_context gm tokens g = \<lparr> ic_batchSize = of_nat (length tokens), ic_sequencePosition = gs_position g,
     ic_hiddenDimension = gm_hiddenDimension gm \<rparr>"

definition after_forward ::
  "'c cache_ops \<Rightarrow> ('w, 'c) generation_model \<Rightarrow> u64 \<Rightarrow> forward_pass \<Rightarrow> (('w, 'c) session, unit) prog" where
  "after_forward ops gm n pass = (\<lambda>s. let g = se_state s; expected = gs_position g + n in
     (case andthen (layers_advanced ops (gm_layerCount gm) (se_cache s) expected) (fs_update pass (gs_position g) expected) of
        Inl e \<Rightarrow> (Inl e, s)
      | Inr f \<Rightarrow> (let s' = s\<lparr> se_forward := f \<rparr> in
          (case gs_advance n g of
             Inl e \<Rightarrow> (Inl e, s')
           | Inr g' \<Rightarrow> (Inr (), s'\<lparr> se_state := g' \<rparr>)))))"

definition decoder_execute ::
  "'c cache_ops \<Rightarrow> ('w, 'c) generation_model \<Rightarrow> u32 list \<Rightarrow> (('w, 'c) session, unit) prog" where
  "decoder_execute ops gm tokens = (\<lambda>s. let g = se_state s; n = of_nat (length tokens) in
     if gs_position g > u64_max - n then (Inl (OverflowError ''generation sequence position overflows''), s)
     else (case gm_forward gm (forward_context gm tokens g) tokens (se_cache s) (se_world s) of
       (answer, c, w) \<Rightarrow>
         (let s' = s\<lparr> se_manager := km_use (se_id s) (\<lambda>_. c) (se_manager s), se_world := w \<rparr> in
          (case answer of
             Inl e \<Rightarrow> (Inl e, s')
           | Inr pass \<Rightarrow> after_forward ops gm n pass s'))))"

definition decoder_prefill ::
  "'c cache_ops \<Rightarrow> ('w, 'c) generation_model \<Rightarrow> u32 list \<Rightarrow> (('w, 'c) session, unit) prog" where
  "decoder_prefill ops gm prompt = (\<lambda>s.
     if gs_active (se_state s) then (Inl (LogicError ''inference session is already active''), s)
     else if prompt = [] \<or> length prompt > unat (co_maximum ops (se_cache s))
     then (Inl (InvalidArgument ''prefill prompt exceeds KV cache capacity''), s)
     else (case gs_begin prompt (se_state s) of
        Inl e \<Rightarrow> (Inl e, s)
      | Inr g \<Rightarrow> decoder_execute ops gm prompt (s\<lparr> se_state := g \<rparr>)))"

definition decoder_decode ::
  "'c cache_ops \<Rightarrow> ('w, 'c) generation_model \<Rightarrow> u32 \<Rightarrow> (('w, 'c) session, unit) prog" where
  "decoder_decode ops gm token = (\<lambda>s. let g = se_state s in
     if \<not> gs_active g \<or> gs_finished g \<or> gs_position g \<ge> co_maximum ops (se_cache s)
     then (Inl (LogicError ''inference session cannot decode another token''), s)
     else decoder_execute ops gm [token] s)"

section \<open>Generator\<close>

record generation_config =
  gc_maximumNewTokens :: u64
  gc_sampling :: sampling_config
  gc_stopTokenIds :: "u32 list"
  gc_device :: device

text \<open>The metrics without durations.\<close>

record generation_metrics =
  me_decodeSteps :: nat
  me_peakKVCacheBytes :: u64

record generation_result =
  gr_text :: string
  gr_promptTokens :: "u32 list"
  gr_generatedTokens :: "u32 list"
  gr_stopReason :: stop_reason
  gr_metrics :: generation_metrics

definition lastTokenLogits :: "('w, 'c) generation_model \<Rightarrow> 'w \<Rightarrow> forward_state \<Rightarrow> exn + fp list" where
  "lastTokenLogits gm w f = (let logits = fs_logits f; v = gm_vocabularySize gm in
     andthen (throw_if (\<not> fs_valid f \<or> tn_dtype logits \<noteq> dtype_code FP32 \<or> \<not> isContiguous (tn_shape logits) \<or>
         sh_rank (tn_shape logits) \<noteq> 2 \<or> tensor_dims logits ! 1 \<noteq> v)
       (RuntimeError ''generation model returned incompatible logits''))
    (bindr (gm_materializeHost gm w (view_of_tensor logits)) (\<lambda>host.
     Inr (take (unat v) (drop ((unat (tensor_dims logits ! 0) - 1) * unat v) host)))))"

definition session_stats :: "'c cache_ops \<Rightarrow> (('w, 'c) session, kv_stats) prog" where
  "session_stats ops = (\<lambda>s. case km_stats (co_usage ops) (se_manager s) of (r, m) \<Rightarrow> (r, s\<lparr> se_manager := m \<rparr>))"

fun generation_loop ::
  "(real \<Rightarrow> real) \<Rightarrow> 'c cache_ops \<Rightarrow> ('w, 'c) generation_model \<Rightarrow> nat \<Rightarrow> sampler \<Rightarrow> generation_metrics \<Rightarrow>
    (('w, 'c) session, generation_metrics) prog" where
  "generation_loop fexp ops gm 0 sampler metrics = raise Diverged"
| "generation_loop fexp ops gm (Suc k) sampler metrics = (\<lambda>s.
     if gs_finished (se_state s) then (Inr metrics, s)
     else (case lastTokenLogits gm (se_world s) (se_forward s) of
        Inl e \<Rightarrow> (Inl e, s)
      | Inr logits \<Rightarrow> (case sample_token fexp logits sampler of
          (Inl e, _) \<Rightarrow> (Inl e, s)
        | (Inr token, sampler') \<Rightarrow> (case gs_append token (se_state s) of
            Inl e \<Rightarrow> (Inl e, s)
          | Inr g \<Rightarrow> (let s1 = s\<lparr> se_state := g \<rparr> in
              if gs_finished g then (Inr metrics, s1)
              else thenp (decoder_decode ops gm token) (bindp (session_stats ops) (\<lambda>st.
                generation_loop fexp ops gm k sampler' \<lparr> me_decodeSteps = Suc (me_decodeSteps metrics),
                  me_peakKVCacheBytes = max (me_peakKVCacheBytes metrics) (ks_committed st) \<rparr>)) s1)))))"

definition session_result :: "tokenizer \<Rightarrow> u32 list \<Rightarrow> generation_metrics \<Rightarrow> (('w, 'c) session, generation_result) prog" where
  "session_result tk prompt metrics = (\<lambda>s. let g = se_state s in
     (case tk_decode tk (gs_generated g) of
        Inl e \<Rightarrow> (Inl e, s)
      | Inr t \<Rightarrow> (Inr \<lparr> gr_text = t, gr_promptTokens = prompt, gr_generatedTokens = gs_generated g,
          gr_stopReason = gs_reason g, gr_metrics = metrics \<rparr>, s)))"

definition session_run ::
  "(real \<Rightarrow> real) \<Rightarrow> (u64 \<Rightarrow> nat \<Rightarrow> u64) \<Rightarrow> 'c cache_ops \<Rightarrow> ('w, 'c) generation_model \<Rightarrow> tokenizer \<Rightarrow> generation_config \<Rightarrow> u32 list \<Rightarrow>
    (('w, 'c) session, generation_result) prog" where
  "session_run fexp twister ops gm tk cfg prompt =
     thenp (decoder_prefill ops gm prompt)
    (bindp (session_stats ops) (\<lambda>st.
     bindp (generation_loop fexp ops gm (Suc (unat (gc_maximumNewTokens cfg))) (sampler_make twister (gc_sampling cfg))
         \<lparr> me_decodeSteps = 0, me_peakKVCacheBytes = ks_committed st \<rparr>)
       (session_result tk prompt)))"

text \<open>What \<open>generate\<close> checks before it opens a session; the answer is the prompt's tokens.\<close>

definition generate_checks ::
  "('w, 'c) generation_model \<Rightarrow> tokenizer \<Rightarrow> generation_config \<Rightarrow> 'c kv_manager \<Rightarrow> string \<Rightarrow> exn + u32 list" where
  "generate_checks gm tk cfg m prompt =
     andthen (sampling_validate (gc_sampling cfg) (gm_vocabularySize gm))
    (andthen (throw_if (gc_maximumNewTokens cfg = 0) (InvalidArgument ''generation requires at least one new token''))
    (andthen (each (\<lambda>t. throw_if (unat t \<ge> unat (gm_vocabularySize gm)) (InvalidArgument ''generation stop token exceeds vocabulary''))
       (gc_stopTokenIds cfg))
    (bindr (tk_encode tk prompt) (\<lambda>tokens.
     andthen (throw_if (tokens = [] \<or> length tokens > unat (km_maximum m) \<or>
         gc_maximumNewTokens cfg - 1 > km_maximum m - of_nat (length tokens))
       (InvalidArgument ''prompt and requested output exceed the bounded KV cache sequence''))
     (Inr tokens)))))"

definition generate ::
  "(real \<Rightarrow> real) \<Rightarrow> (u64 \<Rightarrow> nat \<Rightarrow> u64) \<Rightarrow> 'c cache_ops \<Rightarrow> ('w, 'c) generation_model \<Rightarrow> tokenizer \<Rightarrow> exn + 'c \<Rightarrow>
    generation_config \<Rightarrow> string \<Rightarrow> 'c kv_manager \<times> 'w \<Rightarrow> (exn + generation_result) \<times> 'c kv_manager \<times> 'w" where
  "generate fexp twister ops gm tk made cfg prompt = (\<lambda>(m, w).
     (case generate_checks gm tk cfg m prompt of
        Inl e \<Rightarrow> (Inl e, m, w)
      | Inr tokens \<Rightarrow>
          (case session_open gm made (gc_maximumNewTokens cfg) (gc_stopTokenIds cfg) (gc_device cfg) m w of
             (Inl e, m') \<Rightarrow> (Inl e, m', w)
           | (Inr s, _) \<Rightarrow> (case session_run fexp twister ops gm tk cfg tokens s of
               (r, s') \<Rightarrow> (r, session_close s', se_world s')))))"

definition generator_make :: "tokenizer option \<Rightarrow> ('w, 'c) generation_model option \<Rightarrow> 'c kv_manager option \<Rightarrow> exn + unit" where
  "generator_make tk gm m = throw_if (case (tk, gm, m) of
       (Some t, Some g, Some _) \<Rightarrow> tk_vocabularySize t \<noteq> gm_vocabularySize g | _ \<Rightarrow> True)
     (InvalidArgument ''generator tokenizer, model, and cache manager are incompatible'')"

end
