(* ===== verification/Generation_Props.thy ===== *)
theory Generation_Props
  imports Generation
begin

text \<open>
  What generation guarantees: a session is given back whatever happens, a result is bounded and its stop reason is right,
  and the loop ends within its fuel. The state of a session is followed by two invariants, \<open>lent\<close> on
  the manager and \<open>gen_ok\<close> on the generation state.
\<close>

section \<open>The manager while a session runs\<close>

text \<open>The manager of a running session is the one before with one session more at the head.\<close>

definition lending :: "'c kv_manager \<Rightarrow> 'c \<Rightarrow> u64 \<Rightarrow> 'c kv_manager" where
  "lending m c pk = m\<lparr> km_next := km_next m + 1, km_peak := pk,
     km_sessions := (km_next m, c) # km_sessions m, km_reserved := km_reserved m + km_perSession m \<rparr>"

definition lent :: "'c kv_manager \<Rightarrow> ('w, 'c) session \<Rightarrow> bool" where
  "lent m s \<longleftrightarrow> se_id s = km_next m \<and> (\<exists>c pk. se_manager s = lending m c pk)"

lemma lentI: "se_id s = km_next m \<Longrightarrow> se_manager s = lending m c pk \<Longrightarrow> lent m s"
  by (auto simp: lent_def)

abbreviation changed :: "'s \<Rightarrow> 's \<Rightarrow> bool" where "changed \<equiv> (\<lambda>_ _. True)"

lemma transp_changed [simp]: "transp changed" and reflp_changed [simp]: "reflp changed"
  by (simp_all add: transp_def reflp_def)

lemma lent_fields [simp]:
  "lent m (s\<lparr> se_state := g \<rparr>) = lent m s" "lent m (s\<lparr> se_forward := f \<rparr>) = lent m s" "lent m (s\<lparr> se_world := w \<rparr>) = lent m s"
  by (simp_all add: lent_def)

lemma use_others: "map_of xs i = None \<Longrightarrow> map (\<lambda>(j, c). (j, if j = i then f c else c)) xs = xs"
  by (rule map_idI) (force simp: map_of_eq_None_iff)

lemma use_lending:
  "map_of (km_sessions m) (km_next m) = None \<Longrightarrow> km_use (km_next m) f (lending m c pk) = lending m (f c) pk"
  by (simp add: km_use_def lending_def use_others)

lemma stats_lending: "km_stats usage (lending m c pk) = (r, m') \<Longrightarrow> \<exists>pk'. m' = lending m c pk'"
  by (rule exI [of _ "km_peak m'"]) (auto simp: km_stats_def lending_def Let_def split: sum.splits)

lemma lent_use:
  "map_of (km_sessions m) (km_next m) = None \<Longrightarrow> lent m s \<Longrightarrow>
   lent m (s\<lparr> se_manager := km_use (se_id s) f (se_manager s) \<rparr>)"
  by (auto simp: use_lending lent_def [of m s] intro: lentI)

lemma lent_stats: "keeps (lent m) changed (session_stats ops)"
  by (rule keepsI) (fastforce simp: session_stats_def lent_def split: prod.splits dest: stats_lending)

lemma lent_after: "keeps (lent m) changed (after_forward ops gm n pass)"
  by (rule keepsI) (auto simp: after_forward_def Let_def split: sum.splits)

lemma lent_execute:
  assumes "map_of (km_sessions m) (km_next m) = None"
  shows "keeps (lent m) changed (decoder_execute ops gm tokens)"
proof (rule keepsI)
  fix s r t
  assume s: "lent m s" and run: "decoder_execute ops gm tokens s = (r, t)"
  obtain answer c w where f: "gm_forward gm (forward_context gm tokens (se_state s)) tokens (se_cache s) (se_world s) = (answer, c, w)"
    by (cases "gm_forward gm (forward_context gm tokens (se_state s)) tokens (se_cache s) (se_world s)") auto
  have "lent m (s\<lparr> se_manager := km_use (se_id s) (\<lambda>_. c) (se_manager s), se_world := w \<rparr>)"
    using lent_use [OF assms s] by simp
  with run s f keepsD [OF lent_after this] show "lent m t \<and> changed s t"
    by (cases answer) (auto simp: decoder_execute_def Let_def split: if_splits)
qed

lemma lent_prefill:
  assumes "map_of (km_sessions m) (km_next m) = None"
  shows "keeps (lent m) changed (decoder_prefill ops gm prompt)"
proof (rule keepsI)
  fix s r t
  assume "lent m s" and run: "decoder_prefill ops gm prompt s = (r, t)"
  with keepsD [OF lent_execute [OF assms], of "s\<lparr> se_state := g \<rparr>" for g] show "lent m t \<and> changed s t"
    by (auto simp: decoder_prefill_def split: if_splits sum.splits)
qed

lemma lent_decode:
  assumes "map_of (km_sessions m) (km_next m) = None"
  shows "keeps (lent m) changed (decoder_decode ops gm token)"
proof (rule keepsI)
  fix s r t
  assume "lent m s" and run: "decoder_decode ops gm token s = (r, t)"
  with keepsD [OF lent_execute [OF assms], of s] show "lent m t \<and> changed s t"
    by (auto simp: decoder_decode_def Let_def split: if_splits)
qed

lemma lent_loop:
  assumes "map_of (km_sessions m) (km_next m) = None"
  shows "keeps (lent m) changed (generation_loop fexp ops gm k sampler metrics)"
proof (induction k arbitrary: sampler metrics)
  case 0
  show ?case by (auto intro: keepsI)
next
  case (Suc k)
  have round: "keeps (lent m) changed (thenp (decoder_decode ops gm token) (bindp (session_stats ops) (\<lambda>st.
      generation_loop fexp ops gm k sampler' (metrics' st))))" for token sampler' metrics'
    by (intro keeps_thenp keeps_bindp lent_decode [OF assms] lent_stats Suc) simp_all
  show ?case
  proof (rule keepsI)
    fix s r t
    assume "lent m s" and run: "generation_loop fexp ops gm (Suc k) sampler metrics s = (r, t)"
    then show "lent m t \<and> changed s t"
      using keepsD [OF round, where s = "s\<lparr> se_state := g \<rparr>" for g]
      by (fastforce simp: Let_def split: if_splits sum.splits prod.splits)
  qed
qed

lemma lent_run:
  assumes "map_of (km_sessions m) (km_next m) = None"
  shows "keeps (lent m) changed (session_run fexp twister ops gm tk cfg prompt)"
  unfolding session_run_def
  by (intro keeps_thenp keeps_bindp lent_prefill [OF assms] lent_stats lent_loop [OF assms])
    (auto simp: session_result_def Let_def intro!: keepsI split: sum.splits)

lemma session_open_lent:
  assumes "session_open gm made n stops dev m w = (Inr s, m')"
  shows "lent m s" and "map_of (km_sessions m) (km_next m) = None" and "km_next m \<noteq> 0"
    and "gs_make n stops = Inr (se_state s)" and "se_manager s = m'" and "n \<le> km_maximum m"
    and "\<exists>c. made = Inr c \<and> se_cache s = c" and "se_world s = w"
  using assms unfolding session_open_def
  by (auto simp: km_allocate_run Let_def se_cache_def not_less lending_def split: sum.splits if_splits
      intro!: lentI [where pk = "km_peak m"])

lemma session_open_fails:
  "session_open gm made n stops dev m w = (Inl e, m') \<Longrightarrow> m' = m \<or> m' = m\<lparr> km_next := km_next m + 1 \<rparr>"
  unfolding session_open_def by (auto simp: km_allocate_run Let_def split: sum.splits if_splits)

lemma lent_close:
  assumes "lent m s" and "map_of (km_sessions m) (km_next m) = None" and "km_next m \<noteq> 0"
  shows "\<exists>pk. session_close s = m\<lparr> km_next := km_next m + 1, km_peak := pk \<rparr>"
proof -
  from assms(1) obtain c pk where i: "se_id s = km_next m" and s: "se_manager s = lending m c pk"
    by (auto simp: lent_def)
  have "AList.delete (km_next m) (km_sessions m) = km_sessions m"
    using assms(2) by (intro delete_id) (auto simp: map_of_eq_None_iff)
  with assms(3) i s have "session_close s = m\<lparr> km_next := km_next m + 1, km_peak := pk \<rparr>"
    by (simp add: session_close_def km_release_run lending_def)
  then show ?thesis ..
qed

text \<open>C7: whether generation returns or throws, and whatever the model does to its cache, the manager
  afterwards is the one before, up to the id it gives out next and the peak it recorded: the session is released, its bytes are given
  back, and the caches of all other sessions are as they were.\<close>

theorem generate_releases_session:
  "\<exists>nx pk. fst (snd (generate fexp twister ops gm tk made cfg prompt (m, w))) = m\<lparr> km_next := nx, km_peak := pk \<rparr> \<and>
     (nx = km_next m \<or> nx = km_next m + 1)"
proof (cases "generate_checks gm tk cfg m prompt")
  case (Inl e)
  then show ?thesis by (intro exI [of _ "km_next m"] exI [of _ "km_peak m"]) (simp add: generate_def)
next
  case (Inr tokens)
  obtain r m' where o: "session_open gm made (gc_maximumNewTokens cfg) (gc_stopTokenIds cfg) (gc_device cfg) m w = (r, m')"
    by (cases "session_open gm made (gc_maximumNewTokens cfg) (gc_stopTokenIds cfg) (gc_device cfg) m w")
  show ?thesis
  proof (cases r)
    case (Inl e)
    from session_open_fails [OF o [unfolded Inl]] have "m' = m \<or> m' = m\<lparr> km_next := km_next m + 1 \<rparr>" .
    with Inr o Inl show ?thesis
      by (intro exI [of _ "km_next m'"] exI [of _ "km_peak m"]) (auto simp: generate_def)
  next
    case (Inr s)
    note s = session_open_lent [OF o [unfolded Inr]]
    obtain a t where run: "session_run fexp twister ops gm tk cfg tokens s = (a, t)"
      by (cases "session_run fexp twister ops gm tk cfg tokens s")
    have "lent m t" using keepsD [OF lent_run [OF s(2)] s(1) run] by simp
    from lent_close [OF this s(2,3)] obtain pk where "session_close t = m\<lparr> km_next := km_next m + 1, km_peak := pk \<rparr>" by blast
    with \<open>generate_checks gm tk cfg m prompt = Inr tokens\<close> o Inr run show ?thesis
      by (intro exI [of _ "km_next m + 1"] exI [of _ pk]) (simp add: generate_def)
  qed
qed

section \<open>What a result is\<close>

text \<open>A generation state of a session: \<open>fed\<close> tokens went through the model, and the tokens generated stopped as they had to.\<close>

definition stopped_right :: "u32 list \<Rightarrow> nat \<Rightarrow> u32 list \<Rightarrow> stop_reason \<Rightarrow> bool" where
  "stopped_right stops n out reason = (case reason of
     NoReason \<Rightarrow> length out < n \<and> set out \<inter> set stops = {}
   | StopToken \<Rightarrow> out \<noteq> [] \<and> length out \<le> n \<and> last out \<in> set stops \<and> set (butlast out) \<inter> set stops = {}
   | MaximumTokens \<Rightarrow> length out = n \<and> set out \<inter> set stops = {})"

definition gen_ok :: "u64 \<Rightarrow> u32 list \<Rightarrow> u64 \<Rightarrow> gen_state \<Rightarrow> bool" where
  "gen_ok n stops v g \<longleftrightarrow> n \<noteq> 0 \<and> gs_maximum g = n \<and> gs_stop g = stops \<and> gs_active g \<and>
     stopped_right stops (unat n) (gs_generated g) (gs_reason g) \<and> (\<forall>t \<in> set (gs_generated g). unat t < unat v)"

lemma lastTokenLogits_length: "lastTokenLogits gm w f = Inr xs \<Longrightarrow> length xs \<le> unat (gm_vocabularySize gm)"
  by (auto simp: lastTokenLogits_def Let_def bindr_eq_Inr)

lemma pick_below:
  "lst < index \<or> ps \<noteq> [] \<and> lst \<le> index \<Longrightarrow> pick draw cumulative lst index ps < index + length ps"
proof (induction ps arbitrary: cumulative lst index)
  case (Cons p ps)
  have "pick draw (cumulative + p) (if 0 < p then index else lst) (Suc index) ps < Suc index + length ps"
    using Cons.prems by (intro Cons.IH) auto
  then show ?case by simp
qed simp

lemma sample_token_below:
  assumes "sample_token fexp floats s = (Inr t, s')"
  shows "unat t < length floats"
  using assms
proof (cases rule: sample_token_cases)
  case 1
  have "map fp_value floats \<noteq> []" using validate_nonempty [OF 1(1)] by simp
  from first_maximum_ok(1) [OF this] 1(2) show ?thesis unfolding 1(5) by (subst token_id [of _ "length floats"]) simp_all
next
  case (2 ps bits)
  have "length ps = length floats" using 2(5) by (auto simp: logit_probabilities_def Let_def split: if_splits)
  moreover have "floats \<noteq> []" by (rule validate_nonempty [OF 2(1)])
  ultimately have "pick (draw_of bits) 0 0 0 ps < length floats"
    using pick_below [of 0 0 ps "draw_of bits" 0] by (metis add_0 length_0_conv order_refl)
  with 2(2) show ?thesis unfolding 2(6) by (subst token_id [of _ "length floats"]) simp_all
qed

lemma gen_ok_append:
  assumes "gen_ok n stops v g" and "gs_reason g = NoReason" and "unat t < unat v" and "gs_append t g = Inr g'"
  shows "gen_ok n stops v g'" and "gs_generated g' = gs_generated g @ [t]" and "gs_position g' = gs_position g"
    and "gs_prompt g' = gs_prompt g"
  using assms by (auto simp: gs_append_def gs_finish_def gs_finished_def gen_ok_def stopped_right_def Let_def split: if_splits)

lemma gen_ok_append_runs:
  assumes "gen_ok n stops v g" and "gs_reason g = NoReason"
  shows "\<exists>g'. gs_append t g = Inr g'"
  using assms by (simp add: gs_append_def gs_finish_def gs_finished_def gen_ok_def stopped_right_def Let_def throw_if_def andthen_def)

lemma gs_advance_frame:
  "gs_advance n g = Inr g' \<Longrightarrow> g' = g\<lparr> gs_position := gs_position g + n \<rparr>"
  by (simp add: gs_advance_def)

lemma execute_frame:
  assumes "decoder_execute ops gm tokens s = (Inr (), t)"
  shows "se_state t = (se_state s)\<lparr> gs_position := gs_position (se_state s) + of_nat (length tokens) \<rparr>"
  using assms by (auto simp: decoder_execute_def after_forward_def Let_def split: if_splits prod.splits sum.splits dest: gs_advance_frame)

lemma gen_ok_position [simp]: "gen_ok n stops v (g\<lparr> gs_position := p \<rparr>) = gen_ok n stops v g"
  by (simp add: gen_ok_def)

lemma stats_frame: "session_stats ops s = (r, t) \<Longrightarrow> se_state t = se_state s \<and> se_forward t = se_forward s \<and> se_world t = se_world s \<and> se_id t = se_id s"
  by (auto simp: session_stats_def split: prod.splits)

lemma loop_result:
  assumes "generation_loop fexp ops gm k sampler metrics s = (Inr metrics', t)"
    and "gen_ok n stops (gm_vocabularySize gm) (se_state s)" and "gs_reason (se_state s) = NoReason"
    and "me_decodeSteps metrics = length (gs_generated (se_state s))"
  shows "gen_ok n stops (gm_vocabularySize gm) (se_state t) \<and> gs_reason (se_state t) \<noteq> NoReason \<and>
    Suc (me_decodeSteps metrics') = length (gs_generated (se_state t))"
  using assms
proof (induction k arbitrary: sampler metrics s)
  case (Suc k)
  from Suc.prems(1,3) obtain logits where logits: "lastTokenLogits gm (se_world s) (se_forward s) = Inr logits"
    by (auto simp: gs_finished_def split: sum.splits)
  obtain token sampler' where tok: "sample_token fexp logits sampler = (Inr token, sampler')"
    using Suc.prems(1,3) logits by (auto simp: gs_finished_def split: sum.splits prod.splits)
  have below: "unat token < unat (gm_vocabularySize gm)"
    using sample_token_below [OF tok] lastTokenLogits_length [OF logits] by simp
  obtain g where g: "gs_append token (se_state s) = Inr g" using gen_ok_append_runs [OF Suc.prems(2,3)] by blast
  note ok = gen_ok_append [OF Suc.prems(2,3) below g]
  show ?case
  proof (cases "gs_finished g")
    case True
    with Suc.prems(1,3,4) logits tok g ok show ?thesis by (auto simp: gs_finished_def)
  next
    case False
    let ?s = "s\<lparr> se_state := g \<rparr>"
    from False Suc.prems(1,3) logits tok g
    have "thenp (decoder_decode ops gm token) (bindp (session_stats ops) (\<lambda>st.
        generation_loop fexp ops gm k sampler' \<lparr> me_decodeSteps = Suc (me_decodeSteps metrics),
          me_peakKVCacheBytes = max (me_peakKVCacheBytes metrics) (ks_committed st) \<rparr>)) ?s = (Inr metrics', t)"
      by (simp add: gs_finished_def)
    then obtain s1 st s2 where dec: "decoder_decode ops gm token ?s = (Inr (), s1)" and st: "session_stats ops s1 = (Inr st, s2)"
      and rest: "generation_loop fexp ops gm k sampler' \<lparr> me_decodeSteps = Suc (me_decodeSteps metrics),
          me_peakKVCacheBytes = max (me_peakKVCacheBytes metrics) (ks_committed st) \<rparr> s2 = (Inr metrics', t)"
      by (auto elim!: thenp_cases bindp_cases)
    have "se_state s2 = g\<lparr> gs_position := gs_position g + 1 \<rparr>"
      using dec stats_frame [OF st] execute_frame [of ops gm "[token]" ?s s1]
      by (auto simp: decoder_decode_def Let_def split: if_splits)
    with False ok Suc.prems(4) show ?thesis by (intro Suc.IH [OF rest]) (simp_all add: gs_finished_def)
  qed
qed simp

lemma prefill_state:
  assumes "decoder_prefill ops gm prompt s = (Inr (), t)" and "gs_make n stops = Inr (se_state s)"
  shows "gen_ok n stops v (se_state t) \<and> gs_reason (se_state t) = NoReason \<and> gs_generated (se_state t) = []"
proof -
  from assms(2) have "gs_maximum (se_state s) = n" "gs_stop (se_state s) = stops" "n \<noteq> 0" by (auto simp: gs_make_def dest: sym)
  with assms(1) show ?thesis by (auto simp: decoder_prefill_def gs_begin_def gen_ok_def stopped_right_def unat_gt_0
      split: if_splits sum.splits dest!: execute_frame)
qed

lemma stopped_right_ends:
  assumes "stopped_right stops n out reason" and "reason \<noteq> NoReason" and "0 < n"
  shows "out \<noteq> [] \<and> length out \<le> n \<and> reason = (if last out \<in> set stops then StopToken else MaximumTokens) \<and>
    (last out \<in> set stops \<or> length out = n) \<and> set (butlast out) \<inter> set stops = {}"
proof (cases reason)
  case MaximumTokens
  with assms have len: "length out = n" and none: "set out \<inter> set stops = {}" by (simp_all add: stopped_right_def)
  with assms(3) have "out \<noteq> []" by auto
  then have "last out \<in> set out" by simp
  then have "last out \<notin> set stops" using none by blast
  with none len MaximumTokens \<open>out \<noteq> []\<close> show ?thesis by (auto dest: in_set_butlastD)
qed (use assms in \<open>auto simp: stopped_right_def\<close>)

lemma run_result:
  assumes "session_run fexp twister ops gm tk cfg prompt s = (Inr r, t)"
    and "gs_make (gc_maximumNewTokens cfg) (gc_stopTokenIds cfg) = Inr (se_state s)"
  shows "gen_ok (gc_maximumNewTokens cfg) (gc_stopTokenIds cfg) (gm_vocabularySize gm) (se_state t) \<and>
    gr_generatedTokens r = gs_generated (se_state t) \<and> gr_stopReason r = gs_reason (se_state t) \<and> gr_stopReason r \<noteq> NoReason \<and>
    gr_promptTokens r = prompt \<and> tk_decode tk (gr_generatedTokens r) = Inr (gr_text r) \<and>
    Suc (me_decodeSteps (gr_metrics r)) = length (gr_generatedTokens r)"
proof -
  from assms(1) obtain s1 st s2 metrics s3 where pre: "decoder_prefill ops gm prompt s = (Inr (), s1)"
    and st: "session_stats ops s1 = (Inr st, s2)"
    and loop: "generation_loop fexp ops gm (Suc (unat (gc_maximumNewTokens cfg))) (sampler_make twister (gc_sampling cfg))
        \<lparr> me_decodeSteps = 0, me_peakKVCacheBytes = ks_committed st \<rparr> s2 = (Inr metrics, s3)"
    and res: "session_result tk prompt metrics s3 = (Inr r, t)"
    unfolding session_run_def by (auto elim!: thenp_cases bindp_cases)
  have s2: "se_state s2 = se_state s1" using stats_frame [OF st] by simp
  have "gen_ok (gc_maximumNewTokens cfg) (gc_stopTokenIds cfg) (gm_vocabularySize gm) (se_state s3) \<and> gs_reason (se_state s3) \<noteq> NoReason \<and>
      Suc (me_decodeSteps metrics) = length (gs_generated (se_state s3))"
    using prefill_state [OF pre assms(2)] s2 by (intro loop_result [OF loop]) simp_all
  with res show ?thesis by (auto simp: session_result_def Let_def split: sum.splits)
qed

end
