(* ===== verification/Generation_Runs.thy ===== *)
theory Generation_Runs
  imports Generation_Props
begin

text \<open>
  Generation succeeds. \<open>serves\<close> is the contract of a generation model and of its caches, as far as the decoder and the generator check
  it: what \<open>forward\<close> must answer, for every cache that holds the tokens before. With a model that serves, none of the checks at run
  time fires, every position fits the cache, and the loop ends with a result.
\<close>

section \<open>The contract of a model\<close>





text \<open>What the budget needs of a cache is that it is small enough.\<close>

abbreviation small :: "'c cache_ops \<Rightarrow> u64 \<Rightarrow> 'c \<Rightarrow> bool" where
  "small ops \<equiv> \<lambda>n c. \<exists>b. co_usage ops c = Inr b \<and> b \<le> n"


section \<open>Running sessions\<close>

definition running :: "'c cache_ops \<Rightarrow> u64 \<Rightarrow> (nat \<Rightarrow> 'c \<Rightarrow> bool) \<Rightarrow> nat \<Rightarrow> ('w, 'c) session \<Rightarrow> bool" where
  "running ops per holds fed s \<longleftrightarrow> map_of (km_sessions (se_manager s)) (se_id s) \<noteq> None \<and>
     session_cache.budget (small ops) (se_manager s) \<and> km_perSession (se_manager s) = per \<and>
     holds fed (se_cache s) \<and> gs_position (se_state s) = of_nat fed"





lemma running_fields [simp]:
  "running ops per holds fed (s\<lparr> se_forward := f \<rparr>) = running ops per holds fed s"
  "running ops per holds fed (s\<lparr> se_world := w \<rparr>) = running ops per holds fed s"
  by (simp_all add: running_def se_cache_def)






section \<open>Sampling succeeds\<close>





section \<open>The loop\<close>





section \<open>A model that serves\<close>

text \<open>An example: the second of two tokens is always the likelier one, and a cache is the number of its tokens.\<close>

definition float_tensor :: "nat \<Rightarrow> u64 \<Rightarrow> tensor" where
  "float_tensor n k = \<lparr> tn_shape = \<lparr> sh_dimensions = [of_nat n, k], sh_strides = [k, 1], sh_elementCount = of_nat n * k,
     sh_storageElementCount = of_nat n * k \<rparr>, tn_dtype = dtype_code FP32, tn_device = device_cpu, tn_data = 64,
     tn_bytes = 4, tn_storageBytes = 4, tn_owner = Some 0 \<rparr>"

definition example_pass :: "nat \<Rightarrow> forward_pass" where
  "example_pass n = \<lparr> fw_hidden = float_tensor n 1, fw_logits = float_tensor n 2, fw_finalLayer = 0,
     fw_routing = replicate n \<lparr> rd_layerId = 0, rd_selected = [0], rd_scores = [1] \<rparr> \<rparr>"

definition example_model :: "(unit, nat) generation_model" where
  "example_model = \<lparr> gm_vocabularySize = 2, gm_hiddenDimension = 1, gm_layerCount = 1, gm_keyValueHeads = 1, gm_headDimension = 1,
     gm_device = device_cpu, gm_forward = (\<lambda>ctx ts c w. (Inr (example_pass (length ts)), c + length ts, w)),
     gm_materializeHost = (\<lambda>w v. Inr (concat (replicate (unat (sh_dimensions (tv_shape v) ! 0)) [Fin 0, Fin 1]))) \<rparr>"

definition example_ops :: "nat cache_ops" where
  "example_ops = \<lparr> co_tokenCount = (\<lambda>c l. Inr (of_nat c)), co_maximum = (\<lambda>c. 4), co_usage = (\<lambda>c. Inr 8) \<rparr>"

definition example_tokenizer :: tokenizer where
  "example_tokenizer = \<lparr> tk_encode = (\<lambda>prompt. Inr (map (\<lambda>_. 0) prompt)), tk_decode = (\<lambda>out. Inr (replicate (length out) CHR ''x'')),
     tk_vocabularySize = 2 \<rparr>"

definition example_budget :: "nat kv_manager" where
  "example_budget = \<lparr> km_layerCount = 1, km_maximum = 4, km_heads = 1, km_dimension = 1, km_limit = 100,
     km_perSession = 32, km_peak = 0, km_reserved = 0, km_next = 1, km_backend = None, km_sessions = [] \<rparr>"

definition example_generation :: "u32 list \<Rightarrow> generation_config" where
  "example_generation stops = \<lparr> gc_maximumNewTokens = 3, gc_sampling = \<lparr> sc_strategy = strategy_Greedy, sc_temperature = Fin 1, sc_topK = 0,
     sc_topP = Fin 1, sc_seed = 0 \<rparr>, gc_stopTokenIds = stops, gc_device = device_cpu \<rparr>"






section \<open>Results\<close>

text \<open>C5: every result of generation is well formed. The prompt's tokens are the encoded prompt and the text is the decoded output.
  The output has at least one token and at most as many as asked for, all in the vocabulary, and fits the cache with the prompt.
  Its stop reason is the stop token exactly when the last token is one; otherwise the output has the full length; and no
  stop token is before the last place. One decoding step was made for each token but the last.\<close>

theorem generate_result_type:
  assumes "fst (generate fexp twister ops gm tk made cfg prompt (m, w)) = Inr r"
  shows "let out = gr_generatedTokens r; n = unat (gc_maximumNewTokens cfg); stops = set (gc_stopTokenIds cfg) in
    tk_encode tk prompt = Inr (gr_promptTokens r) \<and> tk_decode tk out = Inr (gr_text r) \<and>
    out \<noteq> [] \<and> length out \<le> n \<and> (\<forall>t \<in> set out. unat t < unat (gm_vocabularySize gm)) \<and>
    length (gr_promptTokens r) + length out - 1 \<le> unat (km_maximum m) \<and>
    gr_stopReason r = (if last out \<in> stops then StopToken else MaximumTokens) \<and>
    (last out \<in> stops \<or> length out = n) \<and> set (butlast out) \<inter> stops = {} \<and>
    Suc (me_decodeSteps (gr_metrics r)) = length out"
proof -
  from assms obtain tokens s m' t where checks: "generate_checks gm tk cfg m prompt = Inr tokens"
    and opened: "session_open gm made (gc_maximumNewTokens cfg) (gc_stopTokenIds cfg) (gc_device cfg) m w = (Inr s, m')"
    and run: "session_run fexp twister ops gm tk cfg tokens s = (Inr r, t)"
    by (auto simp: generate_def split: sum.splits prod.splits)
  note ok = run_result [OF run session_open_lent(4) [OF opened]]
  let ?out = "gr_generatedTokens r" and ?n = "gc_maximumNewTokens cfg"
  from ok have right: "stopped_right (gc_stopTokenIds cfg) (unat ?n) ?out (gr_stopReason r)" and nz: "?n \<noteq> 0"
    and below: "\<forall>t \<in> set ?out. unat t < unat (gm_vocabularySize gm)" and no: "gr_stopReason r \<noteq> NoReason"
    by (auto simp: gen_ok_def)
  have pos: "0 < unat ?n" using nz by (simp add: unat_gt_0)
  note out = stopped_right_ends [OF right no pos]
  from checks have enc: "tk_encode tk prompt = Inr tokens" and fit: "length tokens \<le> unat (km_maximum m)"
    "?n - 1 \<le> km_maximum m - of_nat (length tokens)"
    by (auto simp: generate_checks_def bindr_eq_Inr not_less)
  have "unat (of_nat (length tokens) :: u64) = length tokens"
    using fit(1) unat_u64_less [of "km_maximum m"] by (intro unat_of_nat_u64) simp
  then have "unat ?n - 1 \<le> unat (km_maximum m) - length tokens"
    using fit nz by (simp add: word_le_nat_alt unat_sub_within unat_minus_one)
  moreover have "length ?out \<le> unat ?n" using out by blast
  ultimately have "length tokens + length ?out - 1 \<le> unat (km_maximum m)" using fit(1) pos by linarith
  moreover from ok have "gr_promptTokens r = tokens" "tk_decode tk ?out = Inr (gr_text r)"
    "Suc (me_decodeSteps (gr_metrics r)) = length ?out" by blast+
  ultimately show ?thesis using out below enc unfolding Let_def by (intro conjI) simp_all
qed

lemma example_generates:
  "fst (generate exp (\<lambda>_ _. 0) example_ops example_model example_tokenizer (Inr 0) (example_generation [1]) ''a'' (example_budget, ())) =
     Inr \<lparr> gr_text = ''x'', gr_promptTokens = [0], gr_generatedTokens = [1], gr_stopReason = StopToken,
       gr_metrics = \<lparr> me_decodeSteps = 0, me_peakKVCacheBytes = 8 \<rparr> \<rparr>"
proof -
  have up: "[Suc 0..<2] = [1]" by code_simp
  have four: "Suc 3 = 4" by simp
  have v: "sampling_validate \<lparr> sc_strategy = strategy_Greedy, sc_temperature = Fin 1, sc_topK = 0, sc_topP = Fin 1, sc_seed = 0 \<rparr> 2 = Inr ()"
    by (simp add: sampling_validate_def fp_not_positive_def)
  have s: "sample_token exp [Fin 0, Fin 1] (sampler_make twister \<lparr> sc_strategy = strategy_Greedy, sc_temperature = Fin 1, sc_topK = 0,
      sc_topP = Fin 1, sc_seed = 0 \<rparr>) = (Inr 1, sampler_make twister \<lparr> sc_strategy = strategy_Greedy, sc_temperature = Fin 1, sc_topK = 0,
      sc_topP = Fin 1, sc_seed = 0 \<rparr>)" for twister
    by (simp add: sample_token_def guard_runs sampler_make_def v first_maximum_def up)
  show ?thesis
    by (simp add: generate_def generate_checks_def example_model_def example_tokenizer_def example_generation_def example_budget_def v
        session_open_def gs_make_def km_device_def km_allocate_run session_run_def decoder_prefill_def gs_begin_def
        decoder_execute_def after_forward_def layers_advanced_def se_cache_def example_ops_def forward_context_def Let_def
        example_pass_def float_tensor_def fs_update_def tensor_valid_def sh_rank_def decision_valid_def gs_advance_def gs_finished_def
        session_stats_def km_stats_def km_use_def lastTokenLogits_def fs_valid_def isContiguous_def view_of_tensor_def s
        gs_append_def gs_finish_def session_result_def throw_if_def andthen_def
        generation_loop.simps(2) [where k = 3, unfolded four])
qed

theorem generate_result_type_witness:
  "\<exists>r. fst (generate exp (\<lambda>_ _. 0) example_ops example_model example_tokenizer (Inr 0) (example_generation [1]) ''a'' (example_budget, ())) = Inr r \<and>
     gr_stopReason r = StopToken \<and> last (gr_generatedTokens r) = 1 \<and> length (gr_generatedTokens r) \<le> 3"
proof -
  note r = example_generates
  from generate_result_type [OF r] r show ?thesis by (simp add: Let_def example_generation_def)
qed

end
