(* ===== verification/Prediction_Counts.thy ===== *)
theory Prediction_Counts
  imports Routing
begin

text \<open>
  \<^verbatim>\<open>src/prediction/TransitionDatabase.cpp\<close> and \<^verbatim>\<open>ExpertHistory.cpp\<close>: what routing decisions were seen. Tables are
  association lists; counters that are absent read as 0. The locale \<open>counter_table\<close> states what a table of counters does, and is
  interpreted on plain counters and on counters that decay. The lemmas show that every counter is the count of its event in
  the log of the decisions recorded, the decaying ones with the weight of the age.
\<close>

section \<open>Tables of counters\<close>

locale counter_table =
  fixes get :: "'t \<Rightarrow> 'k \<Rightarrow> 'n :: comm_semiring_1"
    and inc :: "'k \<Rightarrow> 't \<Rightarrow> 't"
  assumes get_inc: "get (inc k t) j = get t j + (if j = k then 1 else 0)"
begin

lemma get_fold: "get (fold inc ks t) j = get t j + of_nat (count_list ks j)"
  by (induction ks arbitrary: t) (simp_all add: get_inc algebra_simps)

end

definition counted :: "('k \<times> nat) list \<Rightarrow> 'k \<Rightarrow> nat" where
  "counted t k = (case map_of t k of None \<Rightarrow> 0 | Some n \<Rightarrow> n)"

definition bump :: "'k \<Rightarrow> ('k \<times> nat) list \<Rightarrow> ('k \<times> nat) list" where
  "bump k t = AList.update k (Suc (counted t k)) t"

record decayed_counter =
  dc_value :: real
  dc_last :: nat

definition decayed_value :: "real \<Rightarrow> nat \<Rightarrow> decayed_counter \<Rightarrow> real" where
  "decayed_value decay observations c = dc_value c * decay ^ (observations - dc_last c)"

definition decayed :: "real \<Rightarrow> nat \<Rightarrow> ('k \<times> decayed_counter) list \<Rightarrow> 'k \<Rightarrow> real" where
  "decayed decay observations t k = (case map_of t k of None \<Rightarrow> 0 | Some c \<Rightarrow> decayed_value decay observations c)"

definition tally :: "real \<Rightarrow> nat \<Rightarrow> 'k \<Rightarrow> ('k \<times> decayed_counter) list \<Rightarrow> ('k \<times> decayed_counter) list" where
  "tally decay observations k t =
     AList.update k \<lparr> dc_value = decayed decay observations t k + 1, dc_last = observations \<rparr> t"

interpretation plain: counter_table counted bump
  by unfold_locales (simp add: counted_def bump_def update_conv')

interpretation decaying: counter_table "decayed decay observations" "tally decay observations"
  by unfold_locales (simp add: decayed_def tally_def decayed_value_def update_conv')

section \<open>The history of experts\<close>

record expert_selection =
  sl_layerId :: u32
  sl_expertId :: u32

record expert_transition =
  tr_from :: expert_selection
  tr_to :: expert_selection

definition selections :: "router_decision \<Rightarrow> expert_selection list" where
  "selections d = map (\<lambda>e. \<lparr> sl_layerId = rd_layerId d, sl_expertId = e \<rparr>) (rd_selected d)"

definition transitions_of :: "expert_selection list \<Rightarrow> expert_selection list \<Rightarrow> expert_transition list" where
  "transitions_of previous current = concat (map (\<lambda>from. map (\<lambda>to. \<lparr> tr_from = from, tr_to = to \<rparr>) current) previous)"

record expert_history =
  eh_decisions :: nat
  eh_frequencies :: "(expert_selection \<times> nat) list"
  eh_transitions :: "(expert_transition \<times> nat) list"
  eh_previous :: "expert_selection list"

definition history_record :: "router_decision \<Rightarrow> (expert_history, unit) prog" where
  "history_record d =
     thenp (require (decision_valid d) (InvalidArgument ''cannot record invalid routing decision''))
     (modify (\<lambda>h. h\<lparr> eh_frequencies := fold bump (selections d) (eh_frequencies h),
        eh_transitions := fold bump (transitions_of (eh_previous h) (selections d)) (eh_transitions h),
        eh_previous := selections d, eh_decisions := Suc (eh_decisions h) \<rparr>))"

definition history_frequency :: "u32 \<Rightarrow> u32 \<Rightarrow> expert_history \<Rightarrow> nat" where
  "history_frequency layerId expertId h = counted (eh_frequencies h) \<lparr> sl_layerId = layerId, sl_expertId = expertId \<rparr>"

definition history_transitionCount :: "expert_selection \<Rightarrow> expert_selection \<Rightarrow> expert_history \<Rightarrow> nat" where
  "history_transitionCount from to h = counted (eh_transitions h) \<lparr> tr_from = from, tr_to = to \<rparr>"

section \<open>The database of transitions\<close>

record expert_cooccurrence =
  co_first :: expert_selection
  co_second :: expert_selection

record transition_database =
  td_recentWindow :: u64
  td_decayFactor :: real
  td_observations :: nat
  td_frequency :: "(expert_selection \<times> nat) list"
  td_transitions :: "(expert_transition \<times> nat) list"
  td_decayedFrequency :: "(expert_selection \<times> decayed_counter) list"
  td_decayedTransitions :: "(expert_transition \<times> decayed_counter) list"
  td_cooccurrence :: "(expert_cooccurrence \<times> nat) list"
  td_previous :: "u64 \<rightharpoonup> expert_selection list"
  td_recent :: "expert_selection list list"

definition td_make :: "u64 \<Rightarrow> fp \<Rightarrow> exn + transition_database" where
  "td_make recentWindow decayFactor =
     andthen (throw_if (recentWindow = 0 \<or> \<not> isfinite decayFactor \<or> fp_not_positive decayFactor \<or> fp_value decayFactor > 1)
       (InvalidArgument ''invalid transition database configuration''))
     (Inr \<lparr> td_recentWindow = recentWindow, td_decayFactor = fp_value decayFactor, td_observations = 0, td_frequency = [],
        td_transitions = [], td_decayedFrequency = [], td_decayedTransitions = [], td_cooccurrence = [],
        td_previous = Map.empty, td_recent = [] \<rparr>)"

definition selection_less :: "expert_selection \<Rightarrow> expert_selection \<Rightarrow> bool" where
  "selection_less l r \<longleftrightarrow> sl_layerId l < sl_layerId r \<or> (sl_layerId l = sl_layerId r \<and> sl_expertId l < sl_expertId r)"

definition orderedPair :: "expert_selection \<Rightarrow> expert_selection \<Rightarrow> expert_cooccurrence" where
  "orderedPair x y = (if selection_less y x then \<lparr> co_first = y, co_second = x \<rparr> else \<lparr> co_first = x, co_second = y \<rparr>)"

fun pairs_of :: "expert_selection list \<Rightarrow> expert_cooccurrence list" where
  "pairs_of [] = []"
| "pairs_of (x # xs) = map (orderedPair x) xs @ pairs_of xs"

definition last_few :: "u64 \<Rightarrow> 'a list \<Rightarrow> 'a list" where
  "last_few n xs = drop (length xs - unat n) xs"

definition previousSelections :: "u64 \<Rightarrow> transition_database \<Rightarrow> expert_selection list" where
  "previousSelections stream db = (case td_previous db stream of None \<Rightarrow> [] | Some xs \<Rightarrow> xs)"

definition td_note :: "expert_selection list \<Rightarrow> u64 \<Rightarrow> transition_database \<Rightarrow> transition_database" where
  "td_note current stream db =
     (let n = td_observations db; decay = td_decayFactor db; moves = transitions_of (previousSelections stream db) current in
      db\<lparr> td_frequency := fold bump current (td_frequency db),
          td_decayedFrequency := fold (tally decay n) current (td_decayedFrequency db),
          td_transitions := fold bump moves (td_transitions db),
          td_decayedTransitions := fold (tally decay n) moves (td_decayedTransitions db),
          td_cooccurrence := fold bump (pairs_of current) (td_cooccurrence db),
          td_previous := (td_previous db)(stream \<mapsto> current),
          td_recent := last_few (td_recentWindow db) (td_recent db @ [current]),
          td_observations := Suc n \<rparr>)"

definition td_record :: "router_decision \<Rightarrow> u64 \<Rightarrow> (transition_database, unit) prog" where
  "td_record d stream =
     thenp (require (decision_valid d) (InvalidArgument ''cannot record invalid routing decision''))
     (modify (td_note (selections d) stream))"

definition td_endStream :: "u64 \<Rightarrow> transition_database \<Rightarrow> transition_database" where
  "td_endStream stream db = db\<lparr> td_previous := (td_previous db)(stream := None) \<rparr>"

definition td_frequency_of :: "expert_selection \<Rightarrow> transition_database \<Rightarrow> nat" where
  "td_frequency_of e db = counted (td_frequency db) e"

definition td_transitionCount :: "expert_selection \<Rightarrow> expert_selection \<Rightarrow> transition_database \<Rightarrow> nat" where
  "td_transitionCount from to db = counted (td_transitions db) \<lparr> tr_from = from, tr_to = to \<rparr>"

definition td_cooccurrenceCount :: "expert_selection \<Rightarrow> expert_selection \<Rightarrow> transition_database \<Rightarrow> nat" where
  "td_cooccurrenceCount x y db = (if x = y then 0 else counted (td_cooccurrence db) (orderedPair x y))"

definition expertsInLayer :: "u32 \<Rightarrow> transition_database \<Rightarrow> expert_selection list" where
  "expertsInLayer layerId db = sort_key sl_expertId (filter (\<lambda>e. sl_layerId e = layerId) (map fst (td_frequency db)))"

section \<open>Statistics for a prediction\<close>

record candidate_statistics =
  cs_expert :: expert_selection
  cs_frequency :: nat
  cs_incoming :: "nat list"
  cs_cooccurrence :: "(u32 \<times> nat) list"
  cs_decayedFrequency :: real
  cs_windowFrequency :: nat
  cs_decayedIncoming :: "real list"

record prediction_statistics =
  st_layerFrequency :: nat
  st_outgoing :: "nat list"
  st_candidates :: "candidate_statistics list"
  st_decayedLayerFrequency :: real
  st_windowLayerFrequency :: nat

definition window_selections :: "u32 \<Rightarrow> transition_database \<Rightarrow> expert_selection list" where
  "window_selections layer db = filter (\<lambda>s. sl_layerId s = layer) (concat (td_recent db))"

definition candidate_of :: "transition_database \<Rightarrow> expert_selection list \<Rightarrow> expert_selection list \<Rightarrow> expert_selection \<Rightarrow> candidate_statistics" where
  "candidate_of db sources layer_experts e = \<lparr>
     cs_expert = e,
     cs_frequency = counted (td_frequency db) e,
     cs_incoming = map (\<lambda>s. counted (td_transitions db) \<lparr> tr_from = s, tr_to = e \<rparr>) sources,
     cs_cooccurrence = map (\<lambda>p. (sl_expertId p, the (map_of (td_cooccurrence db) (orderedPair e p))))
       (filter (\<lambda>p. p \<noteq> e \<and> map_of (td_cooccurrence db) (orderedPair e p) \<noteq> None) layer_experts),
     cs_decayedFrequency = decayed (td_decayFactor db) (td_observations db) (td_decayedFrequency db) e,
     cs_windowFrequency = count_list (window_selections (sl_layerId e) db) e,
     cs_decayedIncoming = map (\<lambda>s. decayed (td_decayFactor db) (td_observations db) (td_decayedTransitions db) \<lparr> tr_from = s, tr_to = e \<rparr>) sources \<rparr>"

definition predictionStatistics :: "u32 \<Rightarrow> expert_selection list \<Rightarrow> transition_database \<Rightarrow> prediction_statistics" where
  "predictionStatistics targetLayer sources db =
     (let experts = expertsInLayer targetLayer db; candidates = map (candidate_of db sources experts) experts in
      \<lparr> st_layerFrequency = sum_list (map cs_frequency candidates),
        st_outgoing = map (\<lambda>i. sum_list (map (\<lambda>c. cs_incoming c ! i) candidates)) [0..<length sources],
        st_candidates = candidates,
        st_decayedLayerFrequency = sum_list (map cs_decayedFrequency candidates),
        st_windowLayerFrequency = length (window_selections targetLayer db) \<rparr>)"

section \<open>The log of decisions\<close>

text \<open>The log has the latest call first.\<close>

datatype observation = Recorded u64 router_decision | Ended u64

text \<open>A call of the database; a call that throws changes nothing.\<close>

definition observe_call :: "observation \<Rightarrow> transition_database \<Rightarrow> transition_database" where
  "observe_call ob db = (case ob of Recorded stream d \<Rightarrow> snd (td_record d stream db) | Ended stream \<Rightarrow> td_endStream stream db)"

definition accepted :: "observation \<Rightarrow> bool" where
  "accepted ob = (case ob of Recorded stream d \<Rightarrow> decision_valid d | Ended stream \<Rightarrow> True)"

fun recorded :: "observation list \<Rightarrow> expert_selection list list" where
  "recorded [] = []"
| "recorded (Recorded stream d # before) = selections d # recorded before"
| "recorded (Ended stream # before) = recorded before"

fun latest :: "observation list \<Rightarrow> u64 \<Rightarrow> expert_selection list" where
  "latest [] stream = []"
| "latest (Recorded s d # before) stream = (if s = stream then selections d else latest before stream)"
| "latest (Ended s # before) stream = (if s = stream then [] else latest before stream)"

text \<open>The transitions of each decision, from the decision before it in its stream.\<close>

fun moved :: "observation list \<Rightarrow> expert_transition list list" where
  "moved [] = []"
| "moved (Recorded stream d # before) = transitions_of (latest before stream) (selections d) # moved before"
| "moved (Ended stream # before) = moved before"

text \<open>The latest entry has weight \<open>decay\<close>, each one before it \<open>decay\<close> times the weight of the next.\<close>

fun weighted :: "real \<Rightarrow> 'k list list \<Rightarrow> 'k \<Rightarrow> real" where
  "weighted decay [] k = 0"
| "weighted decay (ks # before) k = decay * (real (count_list ks k) + weighted decay before k)"

section \<open>The counters are the counts of the log\<close>

definition aged :: "nat \<Rightarrow> ('k \<times> decayed_counter) list \<Rightarrow> bool" where
  "aged n t \<longleftrightarrow> (\<forall>k c. map_of t k = Some c \<longrightarrow> dc_last c \<le> n)"

lemma aged_tally: "aged n t \<Longrightarrow> aged n (fold (tally decay n) ks t)"
proof (induction ks arbitrary: t)
  case (Cons k ks)
  have "aged n (tally decay n k t)" using Cons.prems by (auto simp: aged_def tally_def update_conv')
  from Cons.IH [OF this] show ?case by simp
qed simp

lemma decayed_Suc: "aged n t \<Longrightarrow> decayed decay (Suc n) t k = decay * decayed decay n t k"
  by (auto simp: aged_def decayed_def decayed_value_def Suc_diff_le split: option.split)

lemma last_few_rev: "last_few n (rev xs) = rev (take (unat n) xs)"
  by (simp add: last_few_def rev_take)

text \<open>What the database holds when the log is \<open>obs\<close>.\<close>

definition holds_log :: "u64 \<Rightarrow> real \<Rightarrow> observation list \<Rightarrow> transition_database \<Rightarrow> bool" where
  "holds_log w decay obs db \<longleftrightarrow>
     td_recentWindow db = w \<and> td_decayFactor db = decay \<and> td_observations db = length (recorded obs) \<and>
     (\<forall>e. counted (td_frequency db) e = count_list (concat (recorded obs)) e) \<and>
     (\<forall>t. counted (td_transitions db) t = count_list (concat (moved obs)) t) \<and>
     (\<forall>p. counted (td_cooccurrence db) p = count_list (concat (map pairs_of (recorded obs))) p) \<and>
     (\<forall>e. decayed decay (length (recorded obs)) (td_decayedFrequency db) e = weighted decay (recorded obs) e) \<and>
     (\<forall>t. decayed decay (length (recorded obs)) (td_decayedTransitions db) t = weighted decay (moved obs) t) \<and>
     aged (length (recorded obs)) (td_decayedFrequency db) \<and> aged (length (recorded obs)) (td_decayedTransitions db) \<and>
     (\<forall>s. previousSelections s db = latest obs s) \<and> td_recent db = rev (take (unat w) (recorded obs))"

lemma holds_log_start: "td_make w f = Inr db \<Longrightarrow> holds_log w (fp_value f) [] db"
  by (auto simp: td_make_def holds_log_def counted_def decayed_def aged_def previousSelections_def)

lemma holds_log_note:
  assumes "holds_log w decay obs db"
  shows "holds_log w decay (Recorded stream d # obs) (td_note (selections d) stream db)"
proof -
  let ?n = "td_observations db"
  have prev: "previousSelections stream db = latest obs stream" and decay: "td_decayFactor db = decay"
    and n: "?n = length (recorded obs)" and w: "td_recentWindow db = w"
    and recent: "td_recent db @ [selections d] = rev (selections d # take (unat w) (recorded obs))"
    using assms by (simp_all add: holds_log_def)
  have dec: "decayed decay (length (recorded obs)) (td_decayedFrequency db) e = weighted decay (recorded obs) e"
    "decayed decay (length (recorded obs)) (td_decayedTransitions db) t = weighted decay (moved obs) t" for e t
    using assms by (simp_all add: holds_log_def)
  have a: "aged ?n (fold (tally decay ?n) (selections d) (td_decayedFrequency db))"
    "aged ?n (fold (tally decay ?n) (transitions_of (latest obs stream) (selections d)) (td_decayedTransitions db))"
    using assms aged_tally by (auto simp: holds_log_def)
  then have "aged (Suc ?n) (fold (tally decay ?n) (selections d) (td_decayedFrequency db))"
    "aged (Suc ?n) (fold (tally decay ?n) (transitions_of (latest obs stream) (selections d)) (td_decayedTransitions db))"
    by (fastforce simp: aged_def)+
  moreover have "last_few w (rev (selections d # take (unat w) (recorded obs))) = rev (take (unat w) (selections d # recorded obs))"
    unfolding last_few_rev by (cases "unat w") (simp_all add: take_Cons' min_def)
  moreover have "previousSelections s (td_note (selections d) stream db) = (if s = stream then selections d else latest obs s)" for s
    using assms by (simp add: td_note_def previousSelections_def holds_log_def Let_def)
  ultimately show ?thesis
    using assms decayed_Suc [OF a(1)] decayed_Suc [OF a(2)]
    unfolding holds_log_def
    by (simp add: td_note_def Let_def prev decay w recent plain.get_fold decaying.get_fold dec algebra_simps)
qed

lemma holds_log_end: "holds_log w decay obs db \<Longrightarrow> holds_log w decay (Ended stream # obs) (td_endStream stream db)"
  by (auto simp: holds_log_def td_endStream_def previousSelections_def)

lemma holds_log_run: "td_make w f = Inr db \<Longrightarrow> holds_log w (fp_value f) (filter accepted obs) (foldr observe_call obs db)"
proof (induction obs)
  case (Cons ob obs)
  then show ?case
    by (cases ob) (auto simp: accepted_def observe_call_def td_record_def guard_runs intro: holds_log_note holds_log_end)
qed (simp add: holds_log_start)

text \<open>C33: after any calls of the database, the latest first, every counter is the count of its event among the decisions
  that were accepted: of an expert, of a transition from the decision before in the same stream, of two
  experts in one decision. The decaying counters are the sums of these counts with the weight of their age, the
  window holds the last decisions, and the previous selection of each stream is known.\<close>

theorem database_counts_log:
  assumes "td_make w f = Inr start"
  defines "db \<equiv> \<lambda>obs. foldr observe_call obs start" and "seen \<equiv> filter accepted"
  shows "td_frequency_of e (db obs) = count_list (concat (recorded (seen obs))) e \<and>
    td_transitionCount x y (db obs) = count_list (concat (moved (seen obs))) \<lparr> tr_from = x, tr_to = y \<rparr> \<and>
    td_cooccurrenceCount x y (db obs) =
      (if x = y then 0 else count_list (concat (map pairs_of (recorded (seen obs)))) (orderedPair x y)) \<and>
    decayed (fp_value f) (td_observations (db obs)) (td_decayedFrequency (db obs)) e = weighted (fp_value f) (recorded (seen obs)) e \<and>
    decayed (fp_value f) (td_observations (db obs)) (td_decayedTransitions (db obs)) t = weighted (fp_value f) (moved (seen obs)) t \<and>
    td_recent (db obs) = rev (take (unat w) (recorded (seen obs))) \<and>
    previousSelections s (db obs) = latest (seen obs) s"
  using holds_log_run [OF assms(1), of obs]
  by (simp add: holds_log_def db_def seen_def td_frequency_of_def td_transitionCount_def td_cooccurrenceCount_def)

definition example_decision :: "u32 \<Rightarrow> u32 list \<Rightarrow> router_decision" where
  "example_decision layer es = \<lparr> rd_layerId = layer, rd_selected = es, rd_scores = map (\<lambda>_. 1) es \<rparr>"

theorem database_counts_log_witness:
  "\<exists>start. td_make 2 (Fin 1) = Inr start \<and>
     td_transitionCount \<lparr> sl_layerId = 0, sl_expertId = 4 \<rparr> \<lparr> sl_layerId = 1, sl_expertId = 5 \<rparr>
       (foldr observe_call [Recorded 0 (example_decision 1 [5, 6]), Recorded 0 (example_decision 0 [4])] start) = 1"
proof -
  obtain start where start: "td_make 2 (Fin 1) = Inr start" by (simp add: td_make_def fp_not_positive_def)
  from database_counts_log [OF start, of _ "[Recorded 0 (example_decision 1 [5, 6]), Recorded 0 (example_decision 0 [4])]"
      "\<lparr> sl_layerId = 0, sl_expertId = 4 \<rparr>" "\<lparr> sl_layerId = 1, sl_expertId = 5 \<rparr>"]
  have "td_transitionCount \<lparr> sl_layerId = 0, sl_expertId = 4 \<rparr> \<lparr> sl_layerId = 1, sl_expertId = 5 \<rparr>
       (foldr observe_call [Recorded 0 (example_decision 1 [5, 6]), Recorded 0 (example_decision 0 [4])] start) = 1"
    by (simp add: accepted_def decision_valid_def example_decision_def selections_def transitions_of_def)
  with start show ?thesis by blast
qed

section \<open>The history is the database of one stream\<close>

definition history_empty :: expert_history where
  "history_empty = \<lparr> eh_decisions = 0, eh_frequencies = [], eh_transitions = [], eh_previous = [] \<rparr>"

lemma history_is_one_stream:
  assumes "td_make w f = Inr start"
  shows "let h = foldr (\<lambda>d h. snd (history_record d h)) ds history_empty; db = foldr observe_call (map (Recorded 0) ds) start in
    history_frequency layer e h = td_frequency_of \<lparr> sl_layerId = layer, sl_expertId = e \<rparr> db \<and>
    history_transitionCount x y h = td_transitionCount x y db \<and> eh_previous h = previousSelections 0 db \<and>
    eh_decisions h = td_observations db"
proof -
  let ?h = "\<lambda>ds. foldr (\<lambda>d h. snd (history_record d h)) ds history_empty" and ?db = "\<lambda>ds. foldr observe_call (map (Recorded 0) ds) start"
  have "eh_frequencies (?h ds) = td_frequency (?db ds) \<and> eh_transitions (?h ds) = td_transitions (?db ds) \<and>
      eh_previous (?h ds) = previousSelections 0 (?db ds) \<and> eh_decisions (?h ds) = td_observations (?db ds)"
  proof (induction ds)
    case Nil
    show ?case using assms by (auto simp: td_make_def history_empty_def previousSelections_def)
  next
    case (Cons d ds)
    then show ?case
      by (simp add: history_record_def observe_call_def td_record_def guard_runs td_note_def Let_def previousSelections_def)
  qed
  then show ?thesis
    by (simp add: Let_def history_frequency_def history_transitionCount_def td_frequency_of_def td_transitionCount_def)
qed

section \<open>The candidates\<close>

lemma counted_bump_keys: "fst ` set (bump k t) = insert k (fst ` set t)" "distinct (map fst t) \<Longrightarrow> distinct (map fst (bump k t))"
  by (simp_all add: bump_def dom_update distinct_update)

lemma fold_bump_keys: "fst ` set (fold bump ks t) = set ks \<union> fst ` set t" "distinct (map fst t) \<Longrightarrow> distinct (map fst (fold bump ks t))"
  by (induction ks arbitrary: t) (auto simp: counted_bump_keys)

lemma database_keys:
  assumes "td_make w f = Inr start"
  shows "distinct (map fst (td_frequency (foldr observe_call obs start))) \<and>
    fst ` set (td_frequency (foldr observe_call obs start)) = set (concat (recorded (filter accepted obs)))"
proof (induction obs)
  case Nil
  show ?case using assms by (auto simp: td_make_def)
next
  case (Cons ob obs)
  then show ?case
    by (cases ob) (auto simp: observe_call_def td_record_def guard_runs accepted_def td_note_def td_endStream_def Let_def fold_bump_keys)
qed

lemma selections_of_layer: "inj_on sl_expertId {e :: expert_selection. sl_layerId e = layer}"
proof (rule inj_onI)
  fix x y :: expert_selection
  assume "x \<in> {e. sl_layerId e = layer}" "y \<in> {e. sl_layerId e = layer}" "sl_expertId x = sl_expertId y"
  then show "x = y" by (cases x; cases y) simp
qed

lemma expertsInLayer_ok:
  assumes "distinct (map fst (td_frequency db))"
  shows "distinct (map sl_expertId (expertsInLayer layer db))"
    and "set (expertsInLayer layer db) = {e \<in> fst ` set (td_frequency db). sl_layerId e = layer}"
proof -
  show set: "set (expertsInLayer layer db) = {e \<in> fst ` set (td_frequency db). sl_layerId e = layer}"
    by (auto simp: expertsInLayer_def)
  have "distinct (expertsInLayer layer db)" using assms by (simp add: expertsInLayer_def)
  moreover have "inj_on sl_expertId (set (expertsInLayer layer db))"
    by (rule inj_on_subset [OF selections_of_layer [of layer]]) (auto simp: set)
  ultimately show "distinct (map sl_expertId (expertsInLayer layer db))" by (simp add: distinct_map)
qed

end
