(* ===== verification/Expert_Predictor.thy ===== *)
theory Expert_Predictor
  imports Prediction_Counts Prefetcher
begin

text \<open>
  \<^verbatim>\<open>src/prediction/ExpertPredictor.cpp\<close>: predictions of the experts of the next layer from the transition database, and the
  measurement of their quality. Scores are reals. The scheduler's \<open>prefetch\<close> and the observer of predictions are parameters:
  programs on a state of their own. The lemmas show what a prediction is, and that the quality counters are consistent.
\<close>

section \<open>Predictions\<close>

record expert_prediction =
  ep_expertId :: u32
  ep_probability :: real
  ep_confidence :: real
  ep_expectedLayer :: u32

record predictor_config =
  pc_maximumPredictions :: u64
  pc_minimumConfidence :: fp
  pc_minimumPrefetchConfidence :: fp

definition unit_fp :: "fp \<Rightarrow> bool" where
  "unit_fp x \<longleftrightarrow> isfinite x \<and> 0 \<le> fp_value x \<and> fp_value x \<le> 1"

definition predictor_validate :: "predictor_config \<Rightarrow> exn + unit" where
  "predictor_validate c = throw_if (pc_maximumPredictions c = 0 \<or> \<not> unit_fp (pc_minimumConfidence c) \<or>
      \<not> unit_fp (pc_minimumPrefetchConfidence c)) (InvalidArgument ''invalid expert predictor configuration'')"

definition ratio :: "real \<Rightarrow> real \<Rightarrow> real" where
  "ratio numerator denominator = (if denominator \<le> 0 then 0 else numerator / denominator)"

definition outgoing :: "candidate_statistics list \<Rightarrow> nat \<Rightarrow> real" where
  "outgoing candidates i = sum_list (map (\<lambda>peer. cs_decayedIncoming peer ! i) candidates)"

definition transition_probability :: "nat \<Rightarrow> candidate_statistics list \<Rightarrow> candidate_statistics \<Rightarrow> real" where
  "transition_probability sources candidates c =
     sum_list (map (\<lambda>i. if outgoing candidates i > 0 then cs_decayedIncoming c ! i / outgoing candidates i else 0) [0..<sources]) / sources"

definition supported_sources :: "nat \<Rightarrow> candidate_statistics list \<Rightarrow> candidate_statistics \<Rightarrow> nat" where
  "supported_sources sources candidates c =
     length (filter (\<lambda>i. outgoing candidates i > 0 \<and> cs_decayedIncoming c ! i > 0) [0..<sources])"

definition raw_score :: "nat \<Rightarrow> u32 list \<Rightarrow> prediction_statistics \<Rightarrow> candidate_statistics \<Rightarrow> real" where
  "raw_score sources recentExperts st c =
     (let popularity = ratio (cs_decayedFrequency c) (st_decayedLayerFrequency st);
          windowPopularity = ratio (cs_windowFrequency c) (st_windowLayerFrequency st);
          locality = (if sl_expertId (cs_expert c) \<in> set recentExperts then 1 else 0);
          cooccurrence = foldl (\<lambda>best (peer, count). max best (ratio (real count) (cs_frequency c))) 0 (cs_cooccurrence c)
      in max 0 (0.50 * transition_probability sources (st_candidates st) c + 0.20 * windowPopularity + 0.15 * popularity +
           0.05 * locality + 0.10 * cooccurrence))"

definition candidate_confidence :: "nat \<Rightarrow> prediction_statistics \<Rightarrow> candidate_statistics \<Rightarrow> real" where
  "candidate_confidence sources st c =
     (let evidence = min 1 (ln (1 + real (cs_frequency c)) / ln 9);
          agreement = real (supported_sources sources (st_candidates st) c) / sources
      in clamp (0.65 * evidence + 0.35 * agreement) 0 1)"

definition prediction_rank :: "expert_prediction \<Rightarrow> real \<times> real \<times> u32" where
  "prediction_rank p = (- ep_probability p, - ep_confidence p, ep_expertId p)"

definition scored_predictions :: "predictor_config \<Rightarrow> nat \<Rightarrow> u32 list \<Rightarrow> u32 \<Rightarrow> prediction_statistics \<Rightarrow> expert_prediction list" where
  "scored_predictions cfg sources recentExperts targetLayer st =
     (let raw = raw_score sources recentExperts st; candidates = st_candidates st;
          totalRaw = sum_list (map raw candidates)
      in filter (\<lambda>p. ep_confidence p \<ge> fp_value (pc_minimumConfidence cfg))
           (map (\<lambda>c. \<lparr> ep_expertId = sl_expertId (cs_expert c),
               ep_probability = (if totalRaw > 0 then raw c / totalRaw else 1 / length candidates),
               ep_confidence = candidate_confidence sources st c, ep_expectedLayer = targetLayer \<rparr>) candidates))"

definition predictDetailed :: "predictor_config \<Rightarrow> transition_database \<Rightarrow> prediction_input \<Rightarrow> expert_prediction list" where
  "predictDetailed cfg db input =
     (if pi_currentLayer input = - 1 then []
      else let given = map (\<lambda>e. \<lparr> sl_layerId = pi_currentLayer input, sl_expertId = e \<rparr>) (pi_recentExperts input);
               sources = (if given = [] then previousSelections 0 db else given)
      in if sources = [] then []
      else let st = predictionStatistics (pi_currentLayer input + 1) sources db
      in if st_candidates st = [] then []
      else take (unat (pc_maximumPredictions cfg))
        (sort_key prediction_rank (scored_predictions cfg (length sources) (pi_recentExperts input) (pi_currentLayer input + 1) st)))"

definition request_of :: "expert_prediction \<Rightarrow> predicted_request" where
  "request_of p = \<lparr> pr_layerId = ep_expectedLayer p, pr_expertId = ep_expertId p, pr_confidence = ep_confidence p,
     pr_probability = ep_probability p \<rparr>"

definition predictor_predict :: "predictor_config \<Rightarrow> transition_database \<Rightarrow> prediction_input \<Rightarrow> predicted_request list" where
  "predictor_predict cfg db input = map request_of (predictDetailed cfg db input)"

definition shouldPrefetch :: "predictor_config \<Rightarrow> expert_prediction \<Rightarrow> bool" where
  "shouldPrefetch cfg p \<longleftrightarrow> ep_confidence p \<ge> fp_value (pc_minimumPrefetchConfidence cfg) \<and> ep_probability p > 0"

section \<open>Quality\<close>

record prediction_quality =
  pq_opportunities :: nat
  pq_predictions :: nat
  pq_top1Correct :: nat
  pq_topKCovered :: nat
  pq_useful :: nat
  pq_wasted :: nat
  pq_suppressed :: nat

definition accuracy :: "nat \<Rightarrow> nat \<Rightarrow> real" where
  "accuracy hits tries = (if tries = 0 then 0 else real hits / real tries)"

definition top1Accuracy :: "prediction_quality \<Rightarrow> real" where
  "top1Accuracy q = accuracy (pq_top1Correct q) (pq_opportunities q)"

definition topKCoverage :: "prediction_quality \<Rightarrow> real" where
  "topKCoverage q = accuracy (pq_topKCovered q) (pq_opportunities q)"

definition prefetchUsefulness :: "prediction_quality \<Rightarrow> real" where
  "prefetchUsefulness q = accuracy (pq_useful q) (pq_predictions q)"

text \<open>What \<open>observeAndPrefetch\<close> works on: the predictor, its database, the history, and the scheduler with the observer.\<close>

record 'w predictor_state =
  ps_config :: predictor_config
  ps_database :: transition_database
  ps_quality :: prediction_quality
  ps_pending :: "(u64 \<times> expert_prediction list) list"
  ps_history :: expert_history
  ps_scheduler :: 'w

definition measure_predictions :: "u32 list \<Rightarrow> expert_prediction list \<Rightarrow> prediction_quality \<Rightarrow> prediction_quality" where
  "measure_predictions selected predicted q =
     (let hits = length (filter (\<lambda>p. ep_expertId p \<in> set selected) predicted) in
      q\<lparr> pq_opportunities := Suc (pq_opportunities q),
         pq_top1Correct := pq_top1Correct q + (if ep_expertId (hd predicted) \<in> set selected then 1 else 0),
         pq_useful := pq_useful q + hits,
         pq_wasted := pq_wasted q + (length predicted - hits),
         pq_topKCovered := pq_topKCovered q + (if hits > 0 then 1 else 0) \<rparr>)"

definition measure_pending :: "router_decision \<Rightarrow> u64 \<Rightarrow> 'w predictor_state \<Rightarrow> 'w predictor_state" where
  "measure_pending d stream s =
     (case map_of (ps_pending s) stream of
        Some (p # ps) \<Rightarrow>
          if ep_expectedLayer p = rd_layerId d
          then s\<lparr> ps_quality := measure_predictions (rd_selected d) (p # ps) (ps_quality s),
                  ps_pending := AList.delete stream (ps_pending s) \<rparr>
          else s
      | _ \<Rightarrow> s)"

fun is_out_of_range :: "exn \<Rightarrow> bool" where
  "is_out_of_range (OutOfRange m) = True"
| "is_out_of_range _ = False"

abbreviation on_scheduler :: "('w, 'a) prog \<Rightarrow> ('w predictor_state, 'a) prog" where
  "on_scheduler m \<equiv> zoom ps_scheduler (\<lambda>w s. s\<lparr> ps_scheduler := w \<rparr>) m"

fun prefetch_each ::
  "(expert_prediction \<Rightarrow> ('w, unit) prog) \<Rightarrow> (predicted_request \<Rightarrow> ('w, 'h) prog) \<Rightarrow> expert_prediction list \<Rightarrow>
    ('w predictor_state, 'h list) prog" where
  "prefetch_each observer prefetch [] = ret []"
| "prefetch_each observer prefetch (p # ps) =
     thenp (on_scheduler (observer p))
    (bindp (gets (\<lambda>s. shouldPrefetch (ps_config s) p)) (\<lambda>wanted.
     bindp (if wanted
            then catchp (bindp (on_scheduler (prefetch (request_of p))) (\<lambda>h. ret [h])) is_out_of_range (\<lambda>_. ret [])
            else thenp (modify (\<lambda>s. s\<lparr> ps_quality := (ps_quality s)\<lparr> pq_suppressed := Suc (pq_suppressed (ps_quality s)) \<rparr> \<rparr>)) (ret []))
       (\<lambda>handles. bindp (prefetch_each observer prefetch ps) (\<lambda>rest. ret (handles @ rest)))))"

definition observeAndPrefetch ::
  "(expert_prediction \<Rightarrow> ('w, unit) prog) \<Rightarrow> (predicted_request \<Rightarrow> ('w, 'h) prog) \<Rightarrow> router_decision \<Rightarrow> u64 \<Rightarrow>
    ('w predictor_state, 'h list) prog" where
  "observeAndPrefetch observer prefetch d stream =
     thenp (require (decision_valid d) (InvalidArgument ''cannot observe invalid decision''))
    (thenp (modify (measure_pending d stream))
    (thenp (zoom ps_history (\<lambda>h s. s\<lparr> ps_history := h \<rparr>) (history_record d))
    (thenp (zoom ps_database (\<lambda>db s. s\<lparr> ps_database := db \<rparr>) (td_record d stream))
    (bindp (gets (\<lambda>s. predictDetailed (ps_config s) (ps_database s)
        \<lparr> pi_currentLayer = rd_layerId d, pi_recentExperts = rd_selected d, pi_workloadPattern = Map.empty \<rparr>)) (\<lambda>predictions.
     thenp (modify (\<lambda>s. s\<lparr> ps_quality := (ps_quality s)\<lparr> pq_predictions := pq_predictions (ps_quality s) + length predictions \<rparr>,
        ps_pending := AList.update stream predictions (ps_pending s) \<rparr>))
     (prefetch_each observer prefetch predictions))))))"

section \<open>What a prediction is\<close>

lemma raw_score_nonneg: "0 \<le> raw_score n es st c"
  by (simp add: raw_score_def Let_def)

lemma raw_total: "0 \<le> sum_list (map (raw_score n es st) cs)"
  by (rule sum_list_nonneg) (auto simp: raw_score_nonneg)

lemma candidates_of: "st_candidates (predictionStatistics layer sources db) =
    map (candidate_of db sources (expertsInLayer layer db)) (expertsInLayer layer db)"
  by (simp add: predictionStatistics_def Let_def)

lemma scored_ids:
  "map ep_expertId (scored_predictions cfg n es layer st) =
     map (sl_expertId \<circ> cs_expert) (filter (\<lambda>c. candidate_confidence n st c \<ge> fp_value (pc_minimumConfidence cfg)) (st_candidates st))"
  by (simp add: scored_predictions_def Let_def filter_map comp_def)

lemma scored_distinct:
  assumes "distinct (map (sl_expertId \<circ> cs_expert) (st_candidates st))"
  shows "distinct (map ep_expertId (scored_predictions cfg n es layer st))"
  using assms unfolding scored_ids by (auto simp: distinct_map intro: inj_on_subset)

lemma scored_total:
  assumes "distinct (map (sl_expertId \<circ> cs_expert) (st_candidates st))"
    and "set ps \<subseteq> set (scored_predictions cfg n es layer st)" and "distinct ps"
  shows "sum_list (map ep_probability ps) \<le> 1"
proof -
  let ?cs = "st_candidates st"
  let ?total = "sum_list (map (raw_score n es st) ?cs)"
  define prob where "prob c = (if ?total > 0 then raw_score n es st c / ?total else 1 / real (length ?cs))" for c
  define pred where "pred c = \<lparr> ep_expertId = sl_expertId (cs_expert c), ep_probability = prob c,
      ep_confidence = candidate_confidence n st c, ep_expectedLayer = layer \<rparr>" for c
  have sub: "set ps \<subseteq> pred ` set ?cs" using assms(2) by (auto simp: scored_predictions_def Let_def pred_def prob_def)
  have inj: "inj_on pred (set ?cs)" and dist: "distinct ?cs"
    using assms(1) by (auto simp: distinct_map inj_on_def pred_def)
  have nonneg: "0 \<le> prob c" for c by (simp add: prob_def raw_score_nonneg)
  have "sum_list (map ep_probability ps) = sum ep_probability (set ps)" using assms(3) by (simp add: sum_list_distinct_conv_sum_set)
  also have "\<dots> \<le> sum ep_probability (pred ` set ?cs)" using sub by (rule sum_mono2 [rotated]) (auto simp: pred_def nonneg)
  also have "\<dots> = sum prob (set ?cs)" by (simp add: sum.reindex [OF inj] comp_def) (simp add: pred_def)
  also have "\<dots> = sum_list (map prob ?cs)" using dist by (simp add: sum_list_distinct_conv_sum_set)
  also have "\<dots> \<le> 1"
  proof (cases "?total > 0")
    case True
    then have "prob = (\<lambda>c. raw_score n es st c / ?total)" by (simp add: prob_def fun_eq_iff)
    then have "sum_list (map prob ?cs) = sum_list (map (\<lambda>s. s / ?total) (map (raw_score n es st) ?cs))"
      by (simp add: comp_def)
    also have "\<dots> = 1" unfolding sum_list_scaled using True by simp
    finally show ?thesis by simp
  next
    case False
    then have "prob = (\<lambda>c. 1 / real (length ?cs))" by (simp add: prob_def fun_eq_iff)
    then show ?thesis by (simp add: sum_list_triv)
  qed
  finally show ?thesis .
qed

lemma candidate_confidence_bounds: "0 \<le> candidate_confidence n st c \<and> candidate_confidence n st c \<le> 1"
  unfolding candidate_confidence_def Let_def by (rule clamp_bounds) simp

lemma scored_member:
  assumes "p \<in> set (scored_predictions cfg n es layer st)"
  shows "\<exists>c \<in> set (st_candidates st). ep_expertId p = sl_expertId (cs_expert c)" and "0 \<le> ep_probability p"
    and "fp_value (pc_minimumConfidence cfg) \<le> ep_confidence p" and "ep_confidence p \<le> 1" and "ep_expectedLayer p = layer"
  using assms raw_total [of n es st "st_candidates st"] candidate_confidence_bounds
  by (auto simp: scored_predictions_def Let_def raw_score_nonneg)

definition ranked_before :: "expert_prediction \<Rightarrow> expert_prediction \<Rightarrow> bool" where
  "ranked_before p q \<longleftrightarrow> ep_probability p > ep_probability q \<or> (ep_probability p = ep_probability q \<and>
     (ep_confidence p > ep_confidence q \<or> (ep_confidence p = ep_confidence q \<and> ep_expertId p < ep_expertId q)))"

lemma sorted_predictions:
  assumes "distinct (map ep_expertId ps)"
  shows "sorted_wrt ranked_before (sort_key prediction_rank ps)"
proof -
  have "sorted (map prediction_rank (sort_key prediction_rank ps))" by simp
  moreover have "distinct (map prediction_rank (sort_key prediction_rank ps))"
    using assms by (auto simp: distinct_map inj_on_def prediction_rank_def)
  ultimately have "sorted_wrt (<) (map prediction_rank (sort_key prediction_rank ps))" by (simp add: strict_sorted_iff)
  then have "sorted_wrt (\<lambda>p q. prediction_rank p < prediction_rank q) (sort_key prediction_rank ps)" by (simp add: sorted_wrt_map)
  then show ?thesis by (rule sorted_wrt_mono_rel [rotated]) (auto simp: prediction_rank_def ranked_before_def less_prod_def)
qed

lemma predictDetailed_cases:
  obtains "predictDetailed cfg db input = []"
  | sources where "predictDetailed cfg db input = take (unat (pc_maximumPredictions cfg)) (sort_key prediction_rank
      (scored_predictions cfg (length sources) (pi_recentExperts input) (pi_currentLayer input + 1)
        (predictionStatistics (pi_currentLayer input + 1) sources db)))"
  unfolding predictDetailed_def Let_def by (metis (no_types))

text \<open>C34: with the database as its calls leave it, the predictions are at most the permitted number, for distinct experts of the
  layer after the current one that were recorded before; the probabilities are at least 0 and together at most 1, the
  confidences between the configured minimum and 1; and they are listed by falling probability, then by
  falling confidence, then by expert.\<close>

theorem detailed_predictions_sound:
  assumes "td_make w f = Inr start" and "db = foldr observe_call obs start"
  shows "let ps = predictDetailed cfg db input in
    length ps \<le> unat (pc_maximumPredictions cfg) \<and> distinct (map ep_expertId ps) \<and> sorted_wrt ranked_before ps \<and>
    sum_list (map ep_probability ps) \<le> 1 \<and>
    (\<forall>p \<in> set ps. ep_expectedLayer p = pi_currentLayer input + 1 \<and> 0 \<le> ep_probability p \<and>
       fp_value (pc_minimumConfidence cfg) \<le> ep_confidence p \<and> ep_confidence p \<le> 1 \<and>
       \<lparr> sl_layerId = pi_currentLayer input + 1, sl_expertId = ep_expertId p \<rparr> \<in> set (concat (recorded (filter accepted obs))))"
proof (cases rule: predictDetailed_cases [of cfg db input])
  case 1
  then show ?thesis by simp
next
  case (2 sources)
  let ?layer = "pi_currentLayer input + 1"
  let ?st = "predictionStatistics ?layer sources db"
  let ?all = "scored_predictions cfg (length sources) (pi_recentExperts input) ?layer ?st"
  have keys: "distinct (map fst (td_frequency db))" "fst ` set (td_frequency db) = set (concat (recorded (filter accepted obs)))"
    using database_keys [OF assms(1), of obs] unfolding assms(2) by blast+
  note in_layer = expertsInLayer_ok [OF keys(1), of ?layer]
  have ids: "map (sl_expertId \<circ> cs_expert) (st_candidates ?st) = map sl_expertId (expertsInLayer ?layer db)"
    by (simp add: candidates_of candidate_of_def comp_def)
  have dist: "distinct (map ep_expertId ?all)" by (rule scored_distinct) (simp add: ids in_layer(1))
  then have sorted_dist: "distinct (map ep_expertId (sort_key prediction_rank ?all))" by (simp add: distinct_map)
  let ?ps = "predictDetailed cfg db input"
  have sub: "set ?ps \<subseteq> set ?all" using set_take_subset [of _ "sort_key prediction_rank ?all"] by (simp add: 2)
  have ps_dist: "distinct (map ep_expertId ?ps)" using sorted_dist unfolding 2 take_map [symmetric] by (rule distinct_take)
  have ranks: "sorted_wrt ranked_before ?ps" unfolding 2 by (rule sorted_wrt_take [OF sorted_predictions [OF dist]])
  have total: "sum_list (map ep_probability ?ps) \<le> 1"
    by (rule scored_total [OF _ sub]) (use ids in_layer(1) ps_dist in \<open>simp_all add: distinct_map\<close>)
  have member: "ep_expectedLayer p = ?layer \<and> 0 \<le> ep_probability p \<and> fp_value (pc_minimumConfidence cfg) \<le> ep_confidence p \<and>
      ep_confidence p \<le> 1 \<and> \<lparr> sl_layerId = ?layer, sl_expertId = ep_expertId p \<rparr> \<in> set (concat (recorded (filter accepted obs)))"
    if "p \<in> set ?ps" for p
  proof -
    from that sub have "p \<in> set ?all" by blast
    note m = scored_member [OF this]
    from m(1) have "ep_expertId p \<in> set (map (sl_expertId \<circ> cs_expert) (st_candidates ?st))" by force
    then obtain e where e: "e \<in> set (expertsInLayer ?layer db)" "ep_expertId p = sl_expertId e" unfolding ids by auto
    then have "e = \<lparr> sl_layerId = ?layer, sl_expertId = ep_expertId p \<rparr>" "e \<in> fst ` set (td_frequency db)"
      using in_layer(2) by (cases e; auto)+
    with m(2-5) keys(2) show ?thesis by simp
  qed
  show ?thesis unfolding Let_def using ps_dist ranks total member by (simp add: 2)
qed

definition example_predictor :: predictor_config where
  "example_predictor = \<lparr> pc_maximumPredictions = 2, pc_minimumConfidence = Fin 0, pc_minimumPrefetchConfidence = Fin 0 \<rparr>"

theorem detailed_predictions_sound_witness:
  "\<exists>start. td_make 2 (Fin 1) = Inr start \<and>
     sum_list (map ep_probability (predictDetailed example_predictor
       (foldr observe_call [Recorded 0 (example_decision 1 [5, 6]), Recorded 0 (example_decision 0 [4])] start)
       \<lparr> pi_currentLayer = 0, pi_recentExperts = [4], pi_workloadPattern = Map.empty \<rparr>)) \<le> 1"
proof -
  obtain start where start: "td_make 2 (Fin 1) = Inr start" by (simp add: td_make_def fp_not_positive_def)
  from detailed_predictions_sound [OF start refl, where obs = "[Recorded 0 (example_decision 1 [5, 6]), Recorded 0 (example_decision 0 [4])]"
      and cfg = example_predictor and input = "\<lparr> pi_currentLayer = 0, pi_recentExperts = [4], pi_workloadPattern = Map.empty \<rparr>"] start
  show ?thesis unfolding Let_def by blast
qed

section \<open>The quality counters\<close>

definition pending_count :: "'w predictor_state \<Rightarrow> nat" where
  "pending_count s = sum_list (map (length \<circ> snd) (ps_pending s))"

definition quality_ok :: "'w predictor_state \<Rightarrow> bool" where
  "quality_ok s \<longleftrightarrow> (let q = ps_quality s in
     distinct (map fst (ps_pending s)) \<and> pq_useful q + pq_wasted q + pending_count s \<le> pq_predictions q \<and>
     pq_top1Correct q \<le> pq_topKCovered q \<and> pq_topKCovered q \<le> pq_opportunities q \<and> pq_topKCovered q \<le> pq_useful q \<and>
     pq_suppressed q \<le> pq_predictions q)"

lemma pending_delete:
  assumes "distinct (map fst xs)" and "map_of xs k = Some v"
  shows "sum_list (map (length \<circ> snd) (AList.delete k xs)) + length v = sum_list (map (length \<circ> snd) xs)"
  using assms
proof (induction xs)
  case (Cons x xs)
  then show ?case by (cases x) (auto simp: delete_id rev_image_eqI)
qed simp

lemma pending_update:
  "distinct (map fst xs) \<Longrightarrow> sum_list (map (length \<circ> snd) (AList.update k v xs)) \<le> sum_list (map (length \<circ> snd) xs) + length v"
  by (induction xs) auto

lemma measure_ok:
  assumes "quality_ok s"
  shows "quality_ok (measure_pending d stream s)"
proof -
  have "quality_ok (s\<lparr> ps_quality := measure_predictions (rd_selected d) (p # ps) (ps_quality s),
      ps_pending := AList.delete stream (ps_pending s) \<rparr>)" if "map_of (ps_pending s) stream = Some (p # ps)" for p ps
  proof -
    let ?hits = "length (filter (\<lambda>p. ep_expertId p \<in> set (rd_selected d)) (p # ps))"
    have "?hits \<le> length (p # ps)" by (rule length_filter_le)
    moreover have "pending_count (s\<lparr> ps_pending := AList.delete stream (ps_pending s) \<rparr>) + length (p # ps) = pending_count s"
      using pending_delete [OF _ that] assms by (simp add: pending_count_def quality_ok_def Let_def)
    moreover have "(if ep_expertId p \<in> set (rd_selected d) then 1 else 0) \<le> (if ?hits > 0 then 1 else (0 :: nat))" by simp
    ultimately show ?thesis using assms
      by (simp add: quality_ok_def Let_def measure_predictions_def pending_count_def distinct_delete split: if_splits)
        (cases "filter (\<lambda>p. ep_expertId p \<in> set (rd_selected d)) ps"; simp)
  qed
  with assms show ?thesis by (auto simp: measure_pending_def split: option.splits list.splits)
qed

text \<open>Prefetching changes the quality only in the suppressed predictions, of which there are at most as many as predictions.\<close>

definition suppresses :: "nat \<Rightarrow> 'w predictor_state \<Rightarrow> 'w predictor_state \<Rightarrow> bool" where
  "suppresses n s t \<longleftrightarrow> ps_pending t = ps_pending s \<and> (\<exists>k \<le> n. ps_quality t = (ps_quality s)\<lparr> pq_suppressed := pq_suppressed (ps_quality s) + k \<rparr>)"

lemma suppresses_0: "ps_pending t = ps_pending s \<Longrightarrow> ps_quality t = ps_quality s \<Longrightarrow> suppresses n s t"
  by (auto simp: suppresses_def intro!: exI [of _ 0])

lemma suppresses_trans: "suppresses n s t \<Longrightarrow> suppresses m t u \<Longrightarrow> suppresses (n + m) s u"
  unfolding suppresses_def by (auto simp: add.assoc intro: add_mono)

lemma suppresses_weaken: "suppresses n s t \<Longrightarrow> n \<le> m \<Longrightarrow> suppresses m s t"
  unfolding suppresses_def by (meson order_trans)

lemma on_scheduler_frame: "on_scheduler m s = (r, t) \<Longrightarrow> suppresses n s t"
  by (auto intro: suppresses_0)

lemma prefetch_each_suppresses:
  "prefetch_each observer prefetch ps s = (r, t) \<Longrightarrow> suppresses (length ps) s t"
proof (induction ps arbitrary: s r t)
  case Nil
  then show ?case by (simp add: suppresses_0)
next
  case (Cons p ps)
  show ?case using Cons.prems unfolding prefetch_each.simps
  proof (cases rule: thenp_cases)
    case (1 e)
    then show ?thesis using on_scheduler_frame by blast
  next
    case (2 u s1)
    have s1: "suppresses 0 s s1" by (rule on_scheduler_frame [OF 2(1)])
    let ?one = "if shouldPrefetch (ps_config s1) p
      then catchp (bindp (on_scheduler (prefetch (request_of p))) (\<lambda>h. ret [h])) is_out_of_range (\<lambda>_. ret [])
      else thenp (modify (\<lambda>s. s\<lparr> ps_quality := (ps_quality s)\<lparr> pq_suppressed := Suc (pq_suppressed (ps_quality s)) \<rparr> \<rparr>)) (ret [])"
    from 2(2) have rest: "bindp ?one (\<lambda>handles. bindp (prefetch_each observer prefetch ps) (\<lambda>rest. ret (handles @ rest))) s1 = (r, t)"
      by simp
    have one: "suppresses 1 s1 s2" if "?one s1 = (a, s2)" for a s2
    proof (cases "shouldPrefetch (ps_config s1) p")
      case True
      obtain a' w where w: "prefetch (request_of p) (ps_scheduler s1) = (a', w)" by (cases "prefetch (request_of p) (ps_scheduler s1)")
      have "s2 = s1\<lparr> ps_scheduler := w \<rparr>"
        using that True w by (cases a') (auto simp: catchp_def bindp_def zoom_def split: if_splits)
      then show ?thesis by (simp add: suppresses_0)
    next
      case False
      with that have "s2 = s1\<lparr> ps_quality := (ps_quality s1)\<lparr> pq_suppressed := Suc (pq_suppressed (ps_quality s1)) \<rparr> \<rparr>"
        by (simp add: guard_runs)
      then show ?thesis by (auto simp: suppresses_def intro!: exI [of _ 1])
    qed
    from rest show ?thesis
    proof (cases rule: bindp_cases)
      case (1 e)
      from suppresses_trans [OF s1 one [OF 1(1)]] show ?thesis by (rule suppresses_weaken) simp
    next
      case (2 handles s2)
      from 2(2) obtain a where "prefetch_each observer prefetch ps s2 = (a, t)" by (auto elim!: bindp_cases)
      from suppresses_trans [OF suppresses_trans [OF s1 one [OF 2(1)]] Cons.IH [OF this]] show ?thesis
        by (rule suppresses_weaken) simp
    qed
  qed
qed

lemma predicted_ok:
  assumes "quality_ok s" and "k \<le> length ps"
  shows "quality_ok (s\<lparr> ps_quality := (ps_quality s)\<lparr> pq_predictions := pq_predictions (ps_quality s) + length ps, pq_suppressed := pq_suppressed (ps_quality s) + k \<rparr>,
     ps_pending := AList.update stream ps (ps_pending s) \<rparr>)"
  using assms pending_update [of "ps_pending s" stream ps]
  by (simp add: quality_ok_def Let_def pending_count_def distinct_update)

lemma quality_ok_cong: "ps_quality t = ps_quality s \<Longrightarrow> ps_pending t = ps_pending s \<Longrightarrow> quality_ok t = quality_ok s"
  by (simp add: quality_ok_def pending_count_def)

lemma observe_ok:
  assumes "quality_ok s"
  shows "quality_ok (snd (observeAndPrefetch observer prefetch d stream s))"
proof (cases "decision_valid d")
  case False
  with assms show ?thesis by (simp add: observeAndPrefetch_def thenp_require)
next
  case True
  define s1 where "s1 = (measure_pending d stream s)"
  define s2 where "s2 = s1\<lparr> ps_history := snd (history_record d (ps_history s1)), ps_database := td_note (selections d) stream (ps_database s1) \<rparr>"
  define ps where "ps = predictDetailed (ps_config s2) (ps_database s2)
      \<lparr> pi_currentLayer = rd_layerId d, pi_recentExperts = rd_selected d, pi_workloadPattern = Map.empty \<rparr>"
  define s3 where "s3 = s2\<lparr> ps_quality := (ps_quality s2)\<lparr> pq_predictions := pq_predictions (ps_quality s2) + length ps \<rparr>,
        ps_pending := AList.update stream ps (ps_pending s2) \<rparr>"
  have run: "observeAndPrefetch observer prefetch d stream s = prefetch_each observer prefetch ps s3"
    using True by (simp add: observeAndPrefetch_def guard_runs history_record_def td_record_def s1_def s2_def s3_def ps_def thenp_def bindp_def zoom_def)
  obtain r t where t: "prefetch_each observer prefetch ps s3 = (r, t)" by (cases "prefetch_each observer prefetch ps s3")
  from prefetch_each_suppresses [OF t] obtain k where k: "k \<le> length ps" "ps_pending t = ps_pending s3"
    "ps_quality t = (ps_quality s3)\<lparr> pq_suppressed := pq_suppressed (ps_quality s3) + k \<rparr>"
    by (auto simp: suppresses_def)
  have "quality_ok s2" using measure_ok [OF assms] quality_ok_cong [of s2 s1] by (simp add: s1_def s2_def)
  from predicted_ok [OF this k(1), of stream] have "quality_ok t"
    using k quality_ok_cong [of t "s2\<lparr> ps_quality := (ps_quality s2)\<lparr> pq_predictions := pq_predictions (ps_quality s2) + length ps,
        pq_suppressed := pq_suppressed (ps_quality s2) + k \<rparr>, ps_pending := AList.update stream ps (ps_pending s2) \<rparr>"]
    by (simp add: s3_def)
  with run t show ?thesis by simp
qed

definition predictor_new :: "predictor_config \<Rightarrow> transition_database \<Rightarrow> expert_history \<Rightarrow> 'w \<Rightarrow> 'w predictor_state" where
  "predictor_new cfg db h w = \<lparr> ps_config = cfg, ps_database = db,
     ps_quality = \<lparr> pq_opportunities = 0, pq_predictions = 0, pq_top1Correct = 0, pq_topKCovered = 0, pq_useful = 0, pq_wasted = 0,
       pq_suppressed = 0 \<rparr>, ps_pending = [], ps_history = h, ps_scheduler = w \<rparr>"

definition predictor_calls ::
  "(expert_prediction \<Rightarrow> ('w, unit) prog) \<Rightarrow> (predicted_request \<Rightarrow> ('w, 'h) prog) \<Rightarrow> (router_decision \<times> u64) list \<Rightarrow>
    'w predictor_state \<Rightarrow> 'w predictor_state" where
  "predictor_calls observer prefetch calls s = foldr (\<lambda>(d, stream) s. snd (observeAndPrefetch observer prefetch d stream s)) calls s"

lemma accuracy_bounds: "hits \<le> tries \<Longrightarrow> 0 \<le> accuracy hits tries \<and> accuracy hits tries \<le> 1"
  by (simp add: accuracy_def)

lemma accuracy_mono: "a \<le> b \<Longrightarrow> accuracy a n \<le> accuracy b n"
  by (simp add: accuracy_def divide_right_mono)

text \<open>C35: after any calls of \<open>observeAndPrefetch\<close>, the latest first, whatever the scheduler and the observer
  answer, the counters are consistent: each prediction is counted as useful or wasted at most once and suppressed at most
  once, the best prediction is right at most as often as any is, and the three rates are between 0 and 1.\<close>

theorem prediction_quality_consistent:
  "let s = predictor_calls observer prefetch calls (predictor_new cfg db h w) in
    pq_useful (ps_quality s) + pq_wasted (ps_quality s) + pending_count s \<le> pq_predictions (ps_quality s) \<and>
    pq_suppressed (ps_quality s) \<le> pq_predictions (ps_quality s) \<and>
    0 \<le> top1Accuracy (ps_quality s) \<and> top1Accuracy (ps_quality s) \<le> topKCoverage (ps_quality s) \<and> topKCoverage (ps_quality s) \<le> 1 \<and>
    0 \<le> prefetchUsefulness (ps_quality s) \<and> prefetchUsefulness (ps_quality s) \<le> 1"
proof -
  define s where "s = predictor_calls observer prefetch calls (predictor_new cfg db h w)"
  have "quality_ok (predictor_calls observer prefetch calls (predictor_new cfg db h w))"
  proof (induction calls)
    case Nil
    show ?case by (simp add: predictor_calls_def predictor_new_def quality_ok_def pending_count_def)
  next
    case (Cons c calls)
    then show ?case by (cases c) (simp add: predictor_calls_def observe_ok)
  qed
  then have "quality_ok s" by (simp add: s_def)
  then show ?thesis
    using accuracy_bounds [of "pq_top1Correct (ps_quality s)" "pq_opportunities (ps_quality s)"]
      accuracy_bounds [of "pq_topKCovered (ps_quality s)" "pq_opportunities (ps_quality s)"]
      accuracy_bounds [of "pq_useful (ps_quality s)" "pq_predictions (ps_quality s)"]
      accuracy_mono [of "pq_top1Correct (ps_quality s)" "pq_topKCovered (ps_quality s)" "pq_opportunities (ps_quality s)"]
    by (simp add: quality_ok_def Let_def top1Accuracy_def topKCoverage_def prefetchUsefulness_def s_def [symmetric])
qed

end
