(* ===== verification/Safe_Tensors.thy ===== *)
theory Safe_Tensors
  imports Manifest_Json Byte_Codec
begin

text \<open>
  \<^verbatim>\<open>src/importer/SafeTensors.cpp\<close> and \<^verbatim>\<open>SafeTensorShardManager.cpp\<close>: reading checkpoints. An artifact is a map
  from the paths of its files, relative to its root and without links, to their contents. The lemmas show that every tensor
  listed lies in the data of its file, that the tensors of a file do not overlap, and that what the manager lists can be read.
\<close>

type_synonym artifact_files = "string \<rightharpoonup> string"

definition maximumHeaderBytes :: u64 where "maximumHeaderBytes = 104857600"

definition parseSafeTensorDType :: "string \<Rightarrow> exn + u32" where
  "parseSafeTensorDType s = (if s = ''F32'' then Inr (dtype_code FP32) else if s = ''F16'' then Inr (dtype_code FP16)
     else if s = ''BF16'' then Inr (dtype_code BF16) else if s = ''I8'' then Inr (dtype_code INT8)
     else Inl (MetadataError (''SafeTensors dtype is not yet supported by HyperMoE: '' @ s)))"

definition littleEndian64 :: "string \<Rightarrow> u64" where
  "littleEndian64 bytes = combine_bytes 0 (map of_char bytes) 0"

definition safeRelative :: "string \<Rightarrow> bool" where
  "safeRelative path \<longleftrightarrow> path \<noteq> [] \<and> hd path \<noteq> CHR ''/'' \<and> ''..'' \<notin> set (split_path path)"

section \<open>One file\<close>

definition safe_shape :: "json \<Rightarrow> exn + u64 list" where
  "safe_shape value =
     bindr (field value ''shape'' asArray) (\<lambda>ds.
     bindr (mapr (\<lambda>d. bindr (asUInt64 d) (\<lambda>n. if n = 0 then Inl (MetadataError ''invalid SafeTensors shape'') else Inr n)) ds) (\<lambda>dims.
     if dims = [] then Inl (MetadataError ''scalar SafeTensors are not supported'') else Inr dims))"

definition safe_range :: "json \<Rightarrow> exn + u64 \<times> u64" where
  "safe_range value =
     bindr (field value ''data_offsets'' asArray) (\<lambda>offsets.
     if length offsets \<noteq> 2 then Inl (MetadataError ''SafeTensors range needs two offsets'')
     else bindr (asUInt64 (offsets ! 0)) (\<lambda>start. bindr (asUInt64 (offsets ! 1)) (\<lambda>end'.
     if end' \<le> start then Inl (MetadataError ''SafeTensors range is empty or reversed'') else Inr (start, end'))))"

definition inspect_tensor :: "string \<Rightarrow> u64 \<Rightarrow> u64 \<Rightarrow> string \<Rightarrow> json \<Rightarrow> exn + manifest_tensor" where
  "inspect_tensor path fileSize headerSize name value =
     bindr (safe_shape value) (\<lambda>dims.
     bindr (safe_range value) (\<lambda>(start, end').
     let dataBase = 8 + headerSize in
     andthen (throw_if (start > u64_max - dataBase \<or> end' > fileSize - dataBase) (MetadataError ''SafeTensors range exceeds file''))
    (bindr (field value ''dtype'' (\<lambda>t. bindr (asString t) parseSafeTensorDType)) (\<lambda>d.
     bindr (shape_make dims) (\<lambda>sh.
     if sh_storageElementCount sh > u64_max div sizeOf d \<or> sh_storageElementCount sh * sizeOf d \<noteq> end' - start
     then Inl (MetadataError ''SafeTensors shape, dtype, and byte range disagree'')
     else Inr \<lparr> mt_name = name, mt_sourceFile = path, mt_offset = dataBase + start, mt_size = end' - start, mt_dtype = d,
       mt_shape = sh, mt_quantization = None \<rparr>)))))"

fun ranges_overlap :: "manifest_tensor list \<Rightarrow> bool" where
  "ranges_overlap (x # y # rest) = (mt_offset x + mt_size x > mt_offset y \<or> ranges_overlap (y # rest))"
| "ranges_overlap _ = False"

definition inspect_header :: "string \<Rightarrow> u64 \<Rightarrow> u64 \<Rightarrow> string \<Rightarrow> exn + manifest_tensor list" where
  "inspect_header path fileSize headerSize header =
     bindr (parseJson header) (\<lambda>root.
     bindr (asObject root) (\<lambda>members.
     bindr (mapr (\<lambda>(name, value). inspect_tensor path fileSize headerSize name value)
         (filter (\<lambda>(name, value). name \<noteq> ''__metadata__'') (object_entries members))) (\<lambda>tensors.
     andthen (throw_if (ranges_overlap (sort_key mt_offset tensors)) (MetadataError ''SafeTensors tensor byte ranges overlap''))
     (Inr tensors))))"

definition inspectFile :: "artifact_files \<Rightarrow> string \<Rightarrow> exn + manifest_tensor list" where
  "inspectFile files path = (case files path of
     None \<Rightarrow> Inl (MetadataError ''cannot resolve SafeTensors file'')
   | Some content \<Rightarrow>
       andthen (throw_if (\<not> safeRelative path) (MetadataError ''SafeTensors file escapes artifact root''))
      (andthen (throw_if (length content < 8) (MetadataError ''invalid SafeTensors file size''))
      (let fileSize = of_nat (length content); headerSize = littleEndian64 (take 8 content) in
       andthen (throw_if (headerSize = 0 \<or> headerSize > maximumHeaderBytes \<or> headerSize > fileSize - 8)
         (MetadataError ''invalid SafeTensors header length''))
       (inspect_header path fileSize headerSize (take (unat headerSize) (drop 8 content))))))"

section \<open>The shards of an artifact\<close>

text \<open>The file name of a path, and its extension with the dot.\<close>

definition path_extension :: "string \<Rightarrow> string" where
  "path_extension path = (let name = last (split_path path); tail = takeWhile (\<lambda>c. c \<noteq> CHR ''.'') (rev name) in
     if name = ''.'' \<or> name = ''..'' \<or> length tail = length name \<or> Suc (length tail) = length name then []
     else CHR ''.'' # rev tail)"

definition lexically_normal :: "string \<Rightarrow> string" where
  "lexically_normal path = concat (case filter (\<lambda>c. c \<noteq> ''.'' \<and> c \<noteq> []) (split_path path) of [] \<Rightarrow> [''.'']
     | w # others \<Rightarrow> w # map (\<lambda>v. CHR ''/'' # v) others)"

record shard =
  sd_path :: string
  sd_fileSize :: u64
  sd_tensorCount :: nat

record shard_manager =
  sx_files :: artifact_files
  sx_shards :: "shard list"
  sx_tensors :: "manifest_tensor list"

datatype artifact = SingleFile string | Directory "string list"

definition index_file :: string where "index_file = ''model.safetensors.index.json''"

definition declare_weight :: "string \<times> json \<Rightarrow> (string \<times> string) list \<Rightarrow> exn + (string \<times> string) list" where
  "declare_weight entry declared = (case entry of (name, value) \<Rightarrow>
     bindr (asString value) (\<lambda>path.
     andthen (throw_if (name = [] \<or> \<not> safeRelative path \<or> path_extension path \<noteq> ''.safetensors'')
       (MetadataError ''SafeTensors shard index mapping is unsafe''))
     (Inr (declared @ [(name, lexically_normal path)]))))"

definition declared_weights :: "artifact_files \<Rightarrow> exn + (string \<times> string) list" where
  "declared_weights files =
     bindr (parseJsonFile (map_option length (files index_file)) (files index_file) manifest_size_limit) (\<lambda>index.
     bindr (field index ''weight_map'' asObject) (\<lambda>members.
     bindr (foldr_until declare_weight (object_entries members) []) (\<lambda>declared.
     andthen (throw_if (declared = []) (MetadataError ''SafeTensors shard index has no tensors'')) (Inr declared))))"

text \<open>The files to inspect, in order, and what the index declares.\<close>

definition artifact_shards :: "artifact_files \<Rightarrow> artifact \<Rightarrow> exn + string list \<times> (string \<times> string) list" where
  "artifact_shards files artifact = (case artifact of
     SingleFile path \<Rightarrow>
       andthen (throw_if (path_extension path \<noteq> ''.safetensors'') (MetadataError ''artifact file is not SafeTensors'')) (Inr ([path], []))
   | Directory entries \<Rightarrow>
       bindr (if files index_file \<noteq> None
              then bindr (declared_weights files) (\<lambda>declared. Inr (remdups (map snd declared), declared))
              else Inr (filter (\<lambda>p. path_extension p = ''.safetensors'') entries, [])) (\<lambda>(paths, declared).
       andthen (throw_if (paths = []) (MetadataError ''no SafeTensors shards found'')) (Inr (sort_key split_path paths, declared))))"

definition add_tensor :: "manifest_tensor \<Rightarrow> manifest_tensor list \<Rightarrow> exn + manifest_tensor list" where
  "add_tensor t tensors =
     (if mt_name t \<in> mt_name ` set tensors then Inl (MetadataError ''duplicate tensor name across SafeTensors shards'')
      else Inr (tensors @ [t]))"

definition add_shard :: "artifact_files \<Rightarrow> string \<Rightarrow> shard list \<times> manifest_tensor list \<Rightarrow> exn + shard list \<times> manifest_tensor list" where
  "add_shard files path = (\<lambda>(shards, tensors).
     bindr (inspectFile files path) (\<lambda>found.
     bindr (foldr_until add_tensor found tensors) (\<lambda>tensors'.
     Inr (shards @ [\<lparr> sd_path = path, sd_fileSize = of_nat (length (the (files path))), sd_tensorCount = length found \<rparr>], tensors'))))"

definition find_shard_tensor :: "manifest_tensor list \<Rightarrow> string \<Rightarrow> manifest_tensor option" where
  "find_shard_tensor tensors name = List.find (\<lambda>t. mt_name t = name) tensors"

definition check_declared :: "(string \<times> string) list \<Rightarrow> manifest_tensor list \<Rightarrow> exn + unit" where
  "check_declared declared tensors =
     (if declared = [] then Inr ()
      else andthen (throw_if (length declared \<noteq> length tensors) (MetadataError ''SafeTensors shard index tensor count mismatch''))
       (each (\<lambda>(name, path). throw_if (case find_shard_tensor tensors name of None \<Rightarrow> True | Some t \<Rightarrow> mt_sourceFile t \<noteq> path)
         (MetadataError ''SafeTensors shard index mapping is inconsistent'')) declared))"

definition shard_manager_make :: "artifact_files \<Rightarrow> artifact \<Rightarrow> exn + shard_manager" where
  "shard_manager_make files artifact =
     bindr (artifact_shards files artifact) (\<lambda>(paths, declared).
     bindr (foldr_until (add_shard files) paths ([], [])) (\<lambda>(shards, tensors).
     andthen (check_declared declared tensors)
     (Inr \<lparr> sx_files = files, sx_shards = shards, sx_tensors = sort_key mt_name tensors \<rparr>)))"

definition shard_find :: "shard_manager \<Rightarrow> string \<Rightarrow> manifest_tensor option" where
  "shard_find m name = find_shard_tensor (sx_tensors m) name"

definition stream_max :: u64 where "stream_max = 0x7FFFFFFFFFFFFFFF"

definition readRange :: "shard_manager \<Rightarrow> string \<Rightarrow> u64 \<Rightarrow> u64 \<Rightarrow> exn + string" where
  "readRange m name relativeOffset n = (case shard_find m name of
     None \<Rightarrow> Inl (MetadataError ''unknown SafeTensors tensor'')
   | Some t \<Rightarrow>
       andthen (throw_if (n = 0 \<or> relativeOffset > mt_size t \<or> n > mt_size t - relativeOffset \<or>
           mt_offset t > u64_max - relativeOffset \<or> n > stream_max) (MetadataError ''SafeTensors range request is invalid''))
      (let absolute = mt_offset t + relativeOffset in
       andthen (throw_if (absolute > stream_max) (MetadataError ''SafeTensors range is not addressable''))
       (case sx_files m (mt_sourceFile t) of
          None \<Rightarrow> Inl (MetadataError ''SafeTensors range read is truncated'')
        | Some content \<Rightarrow>
            andthen (throw_if (length content < unat absolute + unat n) (MetadataError ''SafeTensors range read is truncated''))
            (Inr (take (unat n) (drop (unat absolute) content))))))"

definition readTensor :: "shard_manager \<Rightarrow> string \<Rightarrow> exn + string" where
  "readTensor m name = (case shard_find m name of
     None \<Rightarrow> Inl (MetadataError ''unknown SafeTensors tensor'')
   | Some t \<Rightarrow> readRange m name 0 (mt_size t))"

section \<open>Every tensor lies in its file\<close>

definition tensor_end :: "manifest_tensor \<Rightarrow> nat" where
  "tensor_end t = unat (mt_offset t) + unat (mt_size t)"

text \<open>The number in the first eight bytes of a file, and where the data begin that follow the header of that many bytes.\<close>

fun bytes_number :: "string \<Rightarrow> nat" where
  "bytes_number [] = 0"
| "bytes_number (c # cs) = of_char c + 256 * bytes_number cs"

definition header_length :: "string \<Rightarrow> nat" where
  "header_length content = bytes_number (take 8 content)"

definition data_begin :: "string \<Rightarrow> nat" where
  "data_begin content = 8 + header_length content"

text \<open>A member of the header: the name of a tensor and what is said of it.\<close>

definition header_member :: "string \<Rightarrow> string \<Rightarrow> json \<Rightarrow> bool" where
  "header_member content name value \<longleftrightarrow> (\<exists>root members. parseJson (take (header_length content) (drop 8 content)) = Inr root \<and>
     asObject root = Inr members \<and> (name, value) \<in> set (object_entries members) \<and> name \<noteq> ''__metadata__'')"

definition lies_in :: "string \<Rightarrow> string \<Rightarrow> manifest_tensor \<Rightarrow> bool" where
  "lies_in path content t \<longleftrightarrow> mt_sourceFile t = path \<and> mt_size t \<noteq> 0 \<and> data_begin content \<le> unat (mt_offset t) \<and>
     tensor_end t \<le> length content \<and>
     dtype_isValid (mt_dtype t) \<and> 0 \<notin> set (sh_dimensions (mt_shape t)) \<and>
     unat (mt_size t) = product (sh_dimensions (mt_shape t)) * unat (sizeOf (mt_dtype t))"

lemma combine_number:
  assumes "unat v < 256 ^ i" and "i + length cs \<le> 8"
  shows "unat (combine_bytes i (map of_char cs) v :: u64) = unat v + 256 ^ i * bytes_number cs"
  using assms
proof (induction cs arbitrary: i v)
  case (Cons c cs)
  let ?b = "of_char c :: byte" and ?w = "push_bit (i * 8) (ucast (of_char c :: byte)) :: u64"
  have pow: "(256 :: nat) ^ i = 2 ^ (i * 8)" using power_mult [of "2 :: nat" 8 i] by (simp add: mult.commute)
  have "i < 8" using Cons.prems(2) by simp
  have small: "(of_char c :: nat) < 256" by simp
  have "unat (of_nat (of_char c) :: byte) = of_char c" unfolding unsigned_of_nat using small by (simp add: take_bit_nat_eq_self)
  then have b: "unat ?b = of_char c" by (simp only: of_nat_of_char)
  have "of_char c * 256 ^ i < 256 * (256 :: nat) ^ i" using small by simp
  also have "\<dots> = 256 ^ Suc i" by simp
  also have "\<dots> \<le> 256 ^ 8" using \<open>i < 8\<close> by (intro power_increasing) simp_all
  finally have lt: "of_char c * 256 ^ i < (2 :: nat) ^ LENGTH(64)" by simp
  have u: "unat (ucast ?b :: u64) = of_char c" using take_bit_nat_eq_self [of "of_char c" 64] small b by (simp add: unsigned_ucast_eq)
  have w: "unat ?w = of_char c * 256 ^ i"
    unfolding unsigned_push_bit_eq u unfolding push_bit_eq_mult pow [symmetric] by (rule take_bit_nat_eq_self) (rule lt)
  have "take_bit (i * 8) ?w = 0" by (simp add: take_bit_push_bit)
  from or_eq_add [OF this] have "v OR ?w = v + ?w" using Cons.prems(1) unfolding pow by (simp add: or.commute add.commute)
  moreover have bound: "unat v + of_char c * 256 ^ i < 256 ^ Suc i"
  proof -
    have "unat v + of_char c * 256 ^ i < Suc (of_char c) * 256 ^ i" using Cons.prems(1) by simp
    also have "\<dots> \<le> 256 * 256 ^ i" using small by (intro mult_le_mono1) (simp only: Suc_le_eq)
    finally show ?thesis by simp
  qed
  moreover have "(256 :: nat) ^ Suc i \<le> 256 ^ 8" using \<open>i < 8\<close> by (intro power_increasing) simp_all
  ultimately have or: "unat (v OR ?w) = unat v + of_char c * 256 ^ i"
    using unat_add_lem [of v ?w] by (simp add: w)
  then show ?case using Cons.IH [of "v OR ?w" "Suc i"] bound Cons.prems(2) by (simp add: algebra_simps)
qed simp

lemma littleEndian64_header: "unat (littleEndian64 (take 8 content)) = header_length content"
  unfolding littleEndian64_def header_length_def using combine_number [of 0 0 "take 8 content"] by simp

lemma mapr_member: "mapr f xs = Inr ys \<Longrightarrow> y \<in> set ys \<Longrightarrow> \<exists>x. x \<in> set xs \<and> f x = Inr y"
  by (induction xs arbitrary: ys) (auto simp: bindr_eq_Inr, blast+)

lemma safe_dtype_valid: "parseSafeTensorDType s = Inr d \<Longrightarrow> dtype_isValid d"
  by (auto simp: parseSafeTensorDType_def dtype_isValid_def dtype_of_def split: if_splits)

lemma inspect_tensor_lies:
  assumes "inspect_tensor path (of_nat (length content)) headerSize name value = Inr t" and "length content < 2 ^ 63"
    and "headerSize \<le> of_nat (length content) - 8" and "8 \<le> length content"
    and "headerSize = littleEndian64 (take 8 content)"
  shows "lies_in path content t \<and> mt_name t = name \<and> (\<exists>start end'. safe_range value = Inr (start, end') \<and>
    unat (mt_offset t) = data_begin content + unat start \<and> tensor_end t = data_begin content + unat end')"
proof -
  let ?n = "of_nat (length content) :: u64" and ?base = "8 + headerSize"
  have n: "unat ?n = length content" using assms(2) by (intro unat_of_nat_u64) simp
  from assms(1) obtain dims start end' d sh where dims: "safe_shape value = Inr dims" and range: "safe_range value = Inr (start, end')"
    and fits: "\<not> start > u64_max - ?base" "\<not> end' > ?n - ?base" and d: "dtype_isValid d"
    and sh: "shape_make dims = Inr sh" and size: "\<not> sh_storageElementCount sh > u64_max div sizeOf d"
      "sh_storageElementCount sh * sizeOf d = end' - start"
    and t: "t = \<lparr> mt_name = name, mt_sourceFile = path, mt_offset = ?base + start, mt_size = end' - start, mt_dtype = d,
       mt_shape = sh, mt_quantization = None \<rparr>"
    by (auto simp: inspect_tensor_def bindr_eq_Inr Let_def field_def split: if_splits dest!: safe_dtype_valid)
  have "unat ?base = 8 + unat headerSize" and within: "?base \<le> ?n"
    using unat_add_within [of 8 ?n headerSize] assms(3,4) n by (simp_all add: word_le_nat_alt)
  then have base: "unat ?base = data_begin content" "?base \<le> ?n"
    by (simp_all add: assms(5) littleEndian64_header data_begin_def)
  have less: "start < end'" using range by (auto simp: safe_range_def bindr_eq_Inr split: if_splits)
  have "unat end' \<le> length content - unat ?base"
    using fits(2) base(2) n by (simp add: word_less_nat_alt word_le_nat_alt unat_sub not_less)
  moreover have "unat start < unat end'" using less by (simp add: word_less_nat_alt)
  moreover have "unat ?base \<le> length content" using base(2) n by (simp add: word_le_nat_alt)
  ultimately have ends: "unat ?base + unat end' \<le> length content" by linarith
  have off: "unat (?base + start) = unat ?base + unat start"
    using ends \<open>unat start < unat end'\<close> assms(2) by (intro unat_add_lem [THEN iffD1]) simp
  have len: "unat (end' - start) = unat end' - unat start" using less by (intro unat_sub) simp
  have w: "sizeOf d \<noteq> 0" using d by (auto simp: dtype_isValid_def sizeOf_def split: option.splits dtype.splits)
  have count: "unat (sh_storageElementCount sh) = product dims" "0 \<notin> set dims" "sh_dimensions sh = dims"
    using sh by (auto simp: shape_make_def bindr_eq_Inr dest: validateAndCount_Inr)
  have "unat (end' - start) = product dims * unat (sizeOf d)"
    using unat_mult_within [OF w] size count(1) by (metis not_less)
  moreover have "end' - start \<noteq> 0" using less by auto
  moreover have "tensor_end t = data_begin content + unat end'"
    using off len base(1) \<open>unat start < unat end'\<close> by (simp add: t tensor_end_def)
  ultimately show ?thesis
    using ends off len base(1) d count range by (auto simp: t lies_in_def)
qed

definition apart :: "manifest_tensor \<Rightarrow> manifest_tensor \<Rightarrow> bool" where
  "apart t u \<longleftrightarrow> tensor_end t \<le> unat (mt_offset u) \<or> tensor_end u \<le> unat (mt_offset t)"

lemma no_overlap_sorted:
  "\<not> ranges_overlap xs \<Longrightarrow> \<forall>t \<in> set xs. tensor_end t < 2 ^ 64 \<Longrightarrow>
   sorted_wrt (\<lambda>t u. tensor_end t \<le> unat (mt_offset u)) xs"
proof (induction xs rule: ranges_overlap.induct)
  case (1 x y rest)
  then have IH: "sorted_wrt (\<lambda>t u. tensor_end t \<le> unat (mt_offset u)) (y # rest)" by simp
  have "unat (mt_offset x + mt_size x) = tensor_end x"
    using 1(3) unfolding tensor_end_def by (intro unat_add_lem [THEN iffD1]) simp
  then have xy: "tensor_end x \<le> unat (mt_offset y)" using 1(2) by (simp add: word_le_nat_alt not_less)
  have "tensor_end x \<le> unat (mt_offset z)" if "z \<in> set rest" for z
  proof -
    have "tensor_end y \<le> unat (mt_offset z)" using IH that by simp
    with xy show ?thesis by (simp add: tensor_end_def)
  qed
  with xy IH show ?case by simp
qed simp_all

lemma sorted_apart: "sorted_wrt (\<lambda>t u. tensor_end t \<le> unat (mt_offset u)) xs \<Longrightarrow> t \<in> set xs \<Longrightarrow> u \<in> set xs \<Longrightarrow> t \<noteq> u \<Longrightarrow> apart t u"
  by (induction xs) (auto simp: apart_def)

lemma inspectFile_ok:
  assumes "inspectFile files path = Inr ts" and "files path = Some content" and "length content < 2 ^ 63"
  shows "t \<in> set ts \<Longrightarrow> lies_in path content t"
    and "t \<in> set ts \<Longrightarrow> \<exists>value start end'. header_member content (mt_name t) value \<and> safe_range value = Inr (start, end') \<and>
      unat (mt_offset t) = data_begin content + unat start \<and> tensor_end t = data_begin content + unat end'"
    and "t \<in> set ts \<Longrightarrow> u \<in> set ts \<Longrightarrow> t \<noteq> u \<Longrightarrow> apart t u"
proof -
  let ?n = "of_nat (length content) :: u64" and ?h = "littleEndian64 (take 8 content)"
  from assms obtain root members where json: "parseJson (take (unat ?h) (drop 8 content)) = Inr root" "asObject root = Inr members"
    and len: "8 \<le> length content" and h: "?h \<le> ?n - 8"
    and ts: "mapr (\<lambda>(name, value). inspect_tensor path ?n ?h name value)
         (filter (\<lambda>(name, value). name \<noteq> ''__metadata__'') (object_entries members)) = Inr ts"
    and over: "\<not> ranges_overlap (sort_key mt_offset ts)"
    by (auto simp: inspectFile_def inspect_header_def bindr_eq_Inr Let_def not_less)
  have lies: "lies_in path content t" if "t \<in> set ts" for t
    using mapr_member [OF ts that] inspect_tensor_lies [OF _ assms(3) h len refl] by auto
  then show "t \<in> set ts \<Longrightarrow> lies_in path content t" .
  show "\<exists>value start end'. header_member content (mt_name t) value \<and> safe_range value = Inr (start, end') \<and>
      unat (mt_offset t) = data_begin content + unat start \<and> tensor_end t = data_begin content + unat end'" if "t \<in> set ts"
  proof -
    from mapr_member [OF ts that] obtain name v where entry: "(name, v) \<in> set (object_entries members)" "name \<noteq> ''__metadata__''"
      and t: "inspect_tensor path ?n ?h name v = Inr t" by auto
    have "header_member content name v" using json entry unfolding header_member_def littleEndian64_header by blast
    with inspect_tensor_lies [OF t assms(3) h len refl] show ?thesis by blast
  qed
  have "\<forall>t \<in> set (sort_key mt_offset ts). tensor_end t < 2 ^ 64"
  proof
    fix t
    assume "t \<in> set (sort_key mt_offset ts)"
    then have "tensor_end t \<le> length content" using lies by (simp add: lies_in_def)
    with assms(3) show "tensor_end t < 2 ^ 64" by simp
  qed
  from no_overlap_sorted [OF over this] show "t \<in> set ts \<Longrightarrow> u \<in> set ts \<Longrightarrow> t \<noteq> u \<Longrightarrow> apart t u"
    by (rule sorted_apart) simp_all
qed

text \<open>C36: a file that is accepted lists only tensors that its header names, each at the byte range the header gives it, counted from the end of
  the header, whose length are the first eight bytes; every listed tensor lies behind the header and inside the file, its size is the number
  of elements times the width of the type, and no two byte ranges overlap.\<close>

theorem inspected_tensors_in_file:
  assumes "inspectFile files path = Inr ts" and "files path = Some content" and "length content < 2 ^ 63"
  shows "(\<forall>t \<in> set ts. mt_sourceFile t = path \<and> data_begin content \<le> unat (mt_offset t) \<and>
      unat (mt_offset t) + unat (mt_size t) \<le> length content \<and>
      mt_size t \<noteq> 0 \<and> unat (mt_size t) = product (sh_dimensions (mt_shape t)) * unat (sizeOf (mt_dtype t)) \<and>
      (\<exists>value start end'. header_member content (mt_name t) value \<and> safe_range value = Inr (start, end') \<and>
        unat (mt_offset t) = data_begin content + unat start \<and> unat (mt_size t) = unat end' - unat start)) \<and>
    (\<forall>t \<in> set ts. \<forall>u \<in> set ts. t \<noteq> u \<longrightarrow> unat (mt_offset t) + unat (mt_size t) \<le> unat (mt_offset u) \<or>
      unat (mt_offset u) + unat (mt_size u) \<le> unat (mt_offset t))"
proof -
  note ok = inspectFile_ok [OF assms, unfolded lies_in_def apart_def tensor_end_def]
  have "\<exists>value start end'. header_member content (mt_name t) value \<and> safe_range value = Inr (start, end') \<and>
        unat (mt_offset t) = data_begin content + unat start \<and> unat (mt_size t) = unat end' - unat start" if t: "t \<in> set ts" for t
  proof -
    from ok(2) [OF t] obtain v start end' where "header_member content (mt_name t) v" "safe_range v = Inr (start, end')"
      "unat (mt_offset t) = data_begin content + unat start" "unat (mt_offset t) + unat (mt_size t) = data_begin content + unat end'" by blast
    moreover from this(3,4) have "unat (mt_size t) = unat end' - unat start" by linarith
    ultimately show ?thesis by blast
  qed
  with ok(1,3) show ?thesis by blast
qed

section \<open>What is listed can be read\<close>

definition listed :: "artifact_files \<Rightarrow> manifest_tensor list \<Rightarrow> bool" where
  "listed files ts \<longleftrightarrow> distinct (map mt_name ts) \<and>
     (\<forall>t \<in> set ts. \<exists>content. files (mt_sourceFile t) = Some content \<and> lies_in (mt_sourceFile t) content t)"

lemma add_tensors_listed:
  "foldr_until add_tensor found ts = Inr us \<Longrightarrow> listed files ts \<Longrightarrow>
   \<forall>t \<in> set found. \<exists>content. files (mt_sourceFile t) = Some content \<and> lies_in (mt_sourceFile t) content t \<Longrightarrow> listed files us"
  by (erule foldr_until_invariant) (auto simp: add_tensor_def listed_def split: if_splits)

lemma add_shard_listed:
  assumes "add_shard files path (shards, ts) = Inr (shards', us)" and "listed files ts" and "\<And>p content. files p = Some content \<Longrightarrow> length content < 2 ^ 63"
  shows "listed files us"
proof -
  from assms(1) obtain found where found: "inspectFile files path = Inr found" and add: "foldr_until add_tensor found ts = Inr us"
    by (auto simp: add_shard_def bindr_eq_Inr)
  from found obtain content where content: "files path = Some content" by (auto simp: inspectFile_def split: option.splits)
  note lies = inspectFile_ok(1) [OF found content assms(3) [OF content]]
  then show ?thesis using content by (intro add_tensors_listed [OF add assms(2)]) (fastforce simp: lies_in_def)
qed

lemma manager_listed:
  assumes "shard_manager_make files artifact = Inr m" and "\<And>p content. files p = Some content \<Longrightarrow> length content < 2 ^ 63"
  shows "listed files (sx_tensors m)" and "sx_files m = files"
proof -
  from assms(1) obtain paths declared shards ts where add: "foldr_until (add_shard files) paths ([], []) = Inr (shards, ts)"
    and m: "m = \<lparr> sx_files = files, sx_shards = shards, sx_tensors = sort_key mt_name ts \<rparr>"
    by (auto simp: shard_manager_make_def bindr_eq_Inr)
  have "listed files (snd (shards, ts))"
    by (rule foldr_until_invariant [OF add, where P = "\<lambda>st. listed files (snd st)"])
      (use add_shard_listed assms(2) in \<open>auto simp: listed_def [of files "[]"]\<close>)
  moreover have "distinct (map mt_name (sort_key mt_name ts)) = distinct (map mt_name ts)"
    by (simp add: distinct_map)
  ultimately show "listed files (sx_tensors m)" "sx_files m = files" by (simp_all add: m listed_def)
qed

lemma find_unique: "distinct (map f xs) \<Longrightarrow> t \<in> set xs \<Longrightarrow> List.find (\<lambda>x. f x = f t) xs = Some t"
  by (induction xs) (auto simp: rev_image_eqI)

text \<open>C37: every tensor a shard manager lists can be read as long as the files are as they were: the name finds that tensor, and the bytes
  read are exactly its bytes in its file.\<close>

theorem listed_tensor_readable:
  assumes "shard_manager_make files artifact = Inr m" and "\<And>p content. files p = Some content \<Longrightarrow> length content < 2 ^ 63"
    and "t \<in> set (sx_tensors m)"
  shows "\<exists>content. files (mt_sourceFile t) = Some content \<and> shard_find m (mt_name t) = Some t \<and>
    readTensor m (mt_name t) = Inr (take (unat (mt_size t)) (drop (unat (mt_offset t)) content)) \<and>
    unat (mt_offset t) + unat (mt_size t) \<le> length content"
proof -
  have listed: "listed files (sx_tensors m)" "sx_files m = files" using manager_listed [OF assms(1)] assms(2) by blast+
  then obtain content where content: "files (mt_sourceFile t) = Some content" and lies: "lies_in (mt_sourceFile t) content t"
    and dist: "distinct (map mt_name (sx_tensors m))" using assms(3) by (auto simp: listed_def)
  have found: "shard_find m (mt_name t) = Some t"
    using find_unique [OF dist assms(3)] by (simp add: shard_find_def find_shard_tensor_def)
  have ends: "unat (mt_offset t) + unat (mt_size t) \<le> length content" "mt_size t \<noteq> 0" using lies by (simp_all add: lies_in_def tensor_end_def)
  then have "unat (mt_offset t) < 2 ^ 63" "unat (mt_size t) < 2 ^ 63" using assms(2) [OF content] by linarith+
  then have "\<not> mt_offset t > stream_max" "\<not> mt_size t > stream_max"
    by (simp_all add: word_less_nat_alt stream_max_def)
  with found content ends listed(2) show ?thesis
    by (simp add: readTensor_def readRange_def throw_if_def andthen_def)
qed

section \<open>An example\<close>

definition example_header :: string where
  "example_header = [CHR ''{''] @ [quote, CHR ''a'', quote] @ '':{'' @ [quote] @ ''dtype'' @ [quote] @ '':'' @ [quote] @ ''I8'' @ [quote] @
     '','' @ [quote] @ ''shape'' @ [quote] @ '':[2],'' @ [quote] @ ''data_offsets'' @ [quote] @ '':[0,2]}}''"

definition example_checkpoint :: string where
  "example_checkpoint = [CHR ''5'', CHR 0x00, CHR 0x00, CHR 0x00, CHR 0x00, CHR 0x00, CHR 0x00, CHR 0x00] @ example_header @ ''xy''"

lemma example_header_parsed:
  "parseJson example_header = Inr (JObject [(''a'', JObject [(''dtype'', JString ''I8''), (''shape'', JArray [JNumber ''2'']),
     (''data_offsets'', JArray [JNumber ''0'', JNumber ''2''])])])"
  by code_simp

definition example_tensor :: manifest_tensor where
  "example_tensor = \<lparr> mt_name = ''a'', mt_sourceFile = ''w.safetensors'', mt_offset = 61, mt_size = 2, mt_dtype = dtype_code INT8,
     mt_shape = \<lparr> sh_dimensions = [2], sh_strides = [1], sh_elementCount = 2, sh_storageElementCount = 2 \<rparr>, mt_quantization = None \<rparr>"

abbreviation example_files :: artifact_files where "example_files \<equiv> [''w.safetensors'' \<mapsto> example_checkpoint]"

lemma example_length: "length example_checkpoint = 63"
  by (simp add: example_checkpoint_def example_header_def)

lemma example_inspected: "inspectFile example_files ''w.safetensors'' = Inr [example_tensor]"
proof -
  have bytes: "take 8 example_checkpoint = [CHR ''5'', CHR 0x00, CHR 0x00, CHR 0x00, CHR 0x00, CHR 0x00, CHR 0x00, CHR 0x00]"
    by (simp add: example_checkpoint_def)
  have size: "littleEndian64 (take 8 example_checkpoint) = 53" unfolding bytes by (simp add: littleEndian64_def)
  have header: "take 53 (drop 8 example_checkpoint) = example_header" by (simp add: example_checkpoint_def example_header_def)
  have path: "safeRelative ''w.safetensors''" by code_simp
  have "inspect_tensor ''w.safetensors'' 63 53 ''a'' (JObject [(''dtype'', JString ''I8''), (''shape'', JArray [JNumber ''2'']),
     (''data_offsets'', JArray [JNumber ''0'', JNumber ''2''])]) = Inr example_tensor"
    by (simp add: inspect_tensor_def safe_shape_def safe_range_def field_def js_require_def parseUnsigned_def from_chars_u64_def
        is_digit_def code_def decimal_def parseSafeTensorDType_def shape_make_def validateAndCount_def count_dimension_def
        makeContiguousStrides_def sizeOf_def dtype_of_def example_tensor_def Let_def throw_if_def andthen_def)
  then have "inspect_header ''w.safetensors'' 63 53 example_header = Inr [example_tensor]"
    by (simp add: inspect_header_def example_header_parsed object_entries_def)
  with size header path example_length show ?thesis by (simp add: inspectFile_def maximumHeaderBytes_def)
qed

theorem inspected_tensors_in_file_witness:
  "inspectFile example_files ''w.safetensors'' = Inr [example_tensor] \<and>
   unat (mt_offset example_tensor) + unat (mt_size example_tensor) \<le> length example_checkpoint \<and>
   8 + 53 \<le> unat (mt_offset example_tensor)"
proof -
  have c: "example_files ''w.safetensors'' = Some example_checkpoint" "length example_checkpoint < 2 ^ 63" by (simp_all add: example_length)
  have "data_begin example_checkpoint = 8 + 53" by (simp add: data_begin_def header_length_def example_checkpoint_def)
  with inspected_tensors_in_file [OF example_inspected c] example_inspected show ?thesis by simp
qed

theorem listed_tensor_readable_witness:
  "\<exists>m. shard_manager_make example_files (SingleFile ''w.safetensors'') = Inr m \<and> shard_find m ''a'' = Some example_tensor \<and>
     readTensor m ''a'' = Inr (take (unat (mt_size example_tensor)) (drop (unat (mt_offset example_tensor)) example_checkpoint))"
proof -
  have e: "path_extension ''w.safetensors'' = ''.safetensors''" by code_simp
  let ?m = "\<lparr> sx_files = example_files, sx_shards = [\<lparr> sd_path = ''w.safetensors'', sd_fileSize = of_nat (length example_checkpoint), sd_tensorCount = 1 \<rparr>],
    sx_tensors = [example_tensor] \<rparr>"
  have m: "shard_manager_make example_files (SingleFile ''w.safetensors'') = Inr ?m"
    by (simp add: shard_manager_make_def artifact_shards_def e add_shard_def example_inspected add_tensor_def check_declared_def throw_if_def andthen_def)
  have l: "length content < 2 ^ 63" if "example_files p = Some content" for p content
    using that example_length by (simp split: if_splits)
  have t: "example_tensor \<in> set (sx_tensors ?m)" by simp
  have n: "mt_name example_tensor = ''a''" "mt_sourceFile example_tensor = ''w.safetensors''" by (simp_all add: example_tensor_def)
  from listed_tensor_readable [OF m l t] n m show ?thesis by (simp del: fun_upd_apply) (simp split: if_splits)
qed

end
