(* ===== verification/Host_Memory.thy ===== *)
theory Host_Memory
  imports Tensor Model_Types Byte_Codec
begin

text \<open>
  The memory the kernels of the host work on. A byte has a 64-bit address; a float in memory is the four bytes of its
  representation, lowest first. Single-precision numbers are their 32-bit patterns, and the arithmetic unit that
  combines patterns is a parameter of every kernel, so what is proved of a kernel holds bit for bit in any
  rounding. The lemmas are about arrays of floats: what a loop of stores leaves in them and in the rest of memory.
\<close>

section \<open>Arithmetic units\<close>

type_synonym f32 = u32
type_synonym f64 = u64

record float_unit =
  fu_add :: "f32 \<Rightarrow> f32 \<Rightarrow> f32"
  fu_mul :: "f32 \<Rightarrow> f32 \<Rightarrow> f32"
  fu_div :: "f32 \<Rightarrow> f32 \<Rightarrow> f32"
  fu_neg :: "f32 \<Rightarrow> f32"
  fu_exp :: "f32 \<Rightarrow> f32"
  fu_erf :: "f32 \<Rightarrow> f32"
  fu_of_int :: "int \<Rightarrow> f32"
  fu_of_fp :: "fp \<Rightarrow> f32"

abbreviation f32_half :: f32 where "f32_half \<equiv> 0x3F000000"
abbreviation f32_one :: f32 where "f32_one \<equiv> 0x3F800000"
abbreviation f32_sqrt_half :: f32 where "f32_sqrt_half \<equiv> 0x3F3504F3"

section \<open>Bytes and floats\<close>

type_synonym memory = "u64 \<Rightarrow> byte"

definition load_f32 :: "memory \<Rightarrow> u64 \<Rightarrow> f32" where
  "load_f32 m a = combine_bytes 0 (map (\<lambda>i. m (a + of_nat i)) [0..<4]) 0"

definition store_f32 :: "u64 \<Rightarrow> f32 \<Rightarrow> memory \<Rightarrow> memory" where
  "store_f32 a v m = (\<lambda>x. if unat (x - a) < 4 then writeLittleEndian v ! unat (x - a) else m x)"

text \<open>The addresses of \<open>n\<close> bytes from \<open>a\<close> on, and the address of an element of an array of floats.\<close>

definition span :: "u64 \<Rightarrow> nat \<Rightarrow> u64 set" where
  "span a n = {x. unat (x - a) < n}"

definition element :: "u64 \<Rightarrow> nat \<Rightarrow> u64" where
  "element p i = p + 4 * of_nat i"

definition floats_at :: "memory \<Rightarrow> u64 \<Rightarrow> nat \<Rightarrow> f32 list" where
  "floats_at m p n = map (\<lambda>i. load_f32 m (element p i)) [0..<n]"

text \<open>Stores of \<open>f m i\<close> into the elements \<open>i\<close> of an array, where \<open>m\<close> is the memory at that moment.\<close>

definition fill :: "u64 \<Rightarrow> (memory \<Rightarrow> nat \<Rightarrow> f32) \<Rightarrow> nat list \<Rightarrow> memory \<Rightarrow> memory" where
  "fill p f is m = fold (\<lambda>i m. store_f32 (element p i) (f m i) m) is m"

lemma length_floats_at [simp]: "length (floats_at m p n) = n"
  by (simp add: floats_at_def)

lemma nth_floats_at [simp]: "i < n \<Longrightarrow> floats_at m p n ! i = load_f32 m (element p i)"
  by (simp add: floats_at_def)

lemma unat_offset: "i < 4 \<Longrightarrow> unat (a + of_nat i - a :: u64) = i"
  by (simp add: unat_of_nat)

lemma load_store [simp]: "load_f32 (store_f32 a v m) a = v"
proof -
  have "map (\<lambda>i. store_f32 a v m (a + of_nat i)) [0..<4] = writeLittleEndian v"
    by (rule nth_equalityI) (auto simp: store_f32_def unat_of_nat)
  then show ?thesis by (simp add: load_f32_def combine_write)
qed

lemma store_outside: "x \<notin> span a 4 \<Longrightarrow> store_f32 a v m x = m x"
  by (simp add: store_f32_def span_def)

lemma load_cong: "(\<And>x. x \<in> span a 4 \<Longrightarrow> m x = m' x) \<Longrightarrow> load_f32 m a = load_f32 m' a"
  unfolding load_f32_def by (rule arg_cong [where f = "\<lambda>bs. combine_bytes 0 bs 0"]) (auto simp: span_def unat_of_nat)

lemma in_element:
  assumes "4 * n \<le> 2 ^ 64" and "i < n"
  shows "x \<in> span (element p i) 4 \<longleftrightarrow> 4 * i \<le> unat (x - p) \<and> unat (x - p) < 4 * i + 4"
proof -
  let ?j = "4 * of_nat i :: u64"
  have j: "unat ?j = 4 * i"
    using assms unat_of_nat_u64 [of "4 * i"] by simp
  have split: "x - p = (x - element p i) + ?j" by (simp add: element_def)
  show ?thesis
  proof
    assume "x \<in> span (element p i) 4"
    then have lt: "unat (x - element p i) < 4" by (simp add: span_def)
    with j assms have "unat (x - element p i) + unat ?j < 2 ^ LENGTH(64)" by simp
    then have "unat (x - p) = unat (x - element p i) + unat ?j" unfolding split by (rule unat_add_lem [THEN iffD1])
    with lt j show "4 * i \<le> unat (x - p) \<and> unat (x - p) < 4 * i + 4" by simp
  next
    assume r: "4 * i \<le> unat (x - p) \<and> unat (x - p) < 4 * i + 4"
    then have "?j \<le> x - p" by (simp add: word_le_nat_alt j)
    then have "unat (x - p - ?j) = unat (x - p) - 4 * i" by (simp add: unat_sub j)
    moreover have "x - p - ?j = x - element p i" by (simp add: element_def)
    ultimately have "unat (x - element p i) = unat (x - p) - 4 * i" by simp
    with r have "unat (x - element p i) < 4" by linarith
    then show "x \<in> span (element p i) 4" by (simp add: span_def)
  qed
qed

lemma element_in_array: "4 * n \<le> 2 ^ 64 \<Longrightarrow> i < n \<Longrightarrow> x \<in> span (element p i) 4 \<Longrightarrow> x \<in> span p (4 * n)"
  by (simp add: in_element) (simp add: span_def)

lemma span_mono: "n \<le> k \<Longrightarrow> span p n \<subseteq> span p k"
  by (auto simp: span_def)

lemma floats_at_cong:
  assumes "4 * n \<le> 2 ^ 64" and "\<And>x. x \<in> span p (4 * n) \<Longrightarrow> m x = m' x"
  shows "floats_at m p n = floats_at m' p n"
  unfolding floats_at_def using assms element_in_array by (auto intro!: load_cong)

section \<open>Loops of stores\<close>

lemma fill_Nil [simp]: "fill p f [] m = m"
  by (simp add: fill_def)

lemma fill_append: "fill p f (is @ js) m = fill p f js (fill p f is m)"
  by (simp add: fill_def)

lemma fill_one: "fill p f [i] m = store_f32 (element p i) (f m i) m"
  by (simp add: fill_def)

text \<open>A loop whose step \<open>i\<close> reads none of the elements that earlier steps have written leaves in every element what its
  step computes from the memory the loop started in, and everything outside the array as it was.\<close>

lemma fill_upt:
  assumes "4 * n \<le> 2 ^ 64"
    and "\<And>i m'. i < n \<Longrightarrow> (\<And>x. x \<notin> span p (4 * i) \<Longrightarrow> m' x = m x) \<Longrightarrow> f m' i = f m i"
  shows "floats_at (fill p f [0..<n] m) p n = map (f m) [0..<n]"
    and "x \<notin> span p (4 * n) \<Longrightarrow> fill p f [0..<n] m x = m x"
proof -
  have main: "floats_at (fill p f [0..<k] m) p k = map (f m) [0..<k] \<and>
      (\<forall>x. x \<notin> span p (4 * k) \<longrightarrow> fill p f [0..<k] m x = m x)" if "k \<le> n" for k
    using that
  proof (induction k)
    case 0
    then show ?case by (simp add: floats_at_def)
  next
    case (Suc k)
    let ?m = "fill p f [0..<k] m"
    have k: "4 * Suc k \<le> 2 ^ 64" "k < n" using Suc.prems assms(1) by simp_all
    from Suc have IH: "floats_at ?m p k = map (f m) [0..<k]" "\<And>x. x \<notin> span p (4 * k) \<Longrightarrow> ?m x = m x" by simp_all
    have v: "f ?m k = f m k" by (rule assms(2) [OF k(2) IH(2)])
    have step: "fill p f [0..<Suc k] m = store_f32 (element p k) (f m k) ?m"
      by (simp add: fill_append fill_one v)
    have out: "x \<notin> span (element p k) 4" if "x \<notin> span p (4 * Suc k)" for x
      using that element_in_array [OF k(1)] by blast
    have "floats_at (store_f32 (element p k) (f m k) ?m) p k = floats_at ?m p k"
    proof (rule floats_at_cong)
      show "4 * k \<le> 2 ^ 64" using k(1) by simp
      fix x assume "x \<in> span p (4 * k)"
      then have "unat (x - p) < 4 * k" by (simp add: span_def)
      then have "x \<notin> span (element p k) 4" using in_element [OF k(1), of k x p] by simp
      then show "store_f32 (element p k) (f m k) ?m x = ?m x" by (rule store_outside)
    qed
    moreover have "floats_at m' p (Suc k) = floats_at m' p k @ [load_f32 m' (element p k)]" for m'
      by (simp add: floats_at_def)
    ultimately have "floats_at (fill p f [0..<Suc k] m) p (Suc k) = map (f m) [0..<Suc k]"
      using IH(1) by (simp only: step load_store) simp
    moreover have "fill p f [0..<Suc k] m x = m x" if "x \<notin> span p (4 * Suc k)" for x
    proof -
      have "x \<notin> span p (4 * k)" using that span_mono [of "4 * k" "4 * Suc k" p] by auto
      then show ?thesis unfolding step using out [OF that] IH(2) by (simp add: store_outside)
    qed
    ultimately show ?case by blast
  qed
  show "floats_at (fill p f [0..<n] m) p n = map (f m) [0..<n]" using main [of n] by simp
  show "x \<notin> span p (4 * n) \<Longrightarrow> fill p f [0..<n] m x = m x" using main [of n] by simp
qed

text \<open>What a step may read: an array apart from the one that is written, or the same array from the step's own element on.\<close>

lemma load_ahead:
  assumes "4 * n \<le> 2 ^ 64" and "4 * k \<le> 2 ^ 64" and "j < k" and "i \<le> n"
    and "span q (4 * k) \<inter> span p (4 * n) = {} \<or> (q = p \<and> i \<le> j)"
    and "\<And>x. x \<notin> span p (4 * i) \<Longrightarrow> m' x = m x"
  shows "load_f32 m' (element q j) = load_f32 m (element q j)"
proof (rule load_cong)
  fix x assume x: "x \<in> span (element q j) 4"
  have "x \<notin> span p (4 * i)"
    using assms(5)
  proof
    assume "span q (4 * k) \<inter> span p (4 * n) = {}"
    moreover have "x \<in> span q (4 * k)" by (rule element_in_array [OF assms(2,3) x])
    moreover have "span p (4 * i) \<subseteq> span p (4 * n)" using assms(4) by (intro span_mono) simp
    ultimately show ?thesis by blast
  next
    assume "q = p \<and> i \<le> j"
    with x in_element [OF assms(2,3), of x q] show ?thesis by (auto simp: span_def)
  qed
  then show "m' x = m x" by (rule assms(6))
qed

section \<open>Blocks\<close>

text \<open>The live blocks: the control block of their owner, their address and their size. The allocator is a parameter; what
  it promises is \<open>allocator_ok\<close>: a block it hands out does not wrap, is aligned, and is apart from the live ones.\<close>

record host =
  ho_memory :: memory
  ho_blocks :: "(nat \<times> u64 \<times> u64) list"
  ho_nextOwner :: nat

definition owners :: "host \<Rightarrow> nat set" where
  "owners h = fst ` set (ho_blocks h)"

type_synonym allocator = "host \<Rightarrow> u64 \<Rightarrow> exn + u64"

definition allocator_ok :: "allocator \<Rightarrow> bool" where
  "allocator_ok new \<longleftrightarrow> (\<forall>h n p. new h n = Inr p \<longrightarrow> n \<noteq> 0 \<longrightarrow>
     p \<noteq> 0 \<and> p mod 64 = 0 \<and> unat p + unat n \<le> 2 ^ 64 \<and>
     (\<forall>(r, q, k) \<in> set (ho_blocks h). span p (unat n) \<inter> span q (unat k) = {}))"

definition cpu_device_backend :: compute_backend where
  "cpu_device_backend = \<lparr> be_ref = 0, be_kind = Cpu, be_ordinal = 0, be_available = True, be_supportsPinned = False \<rparr>"

definition release_block :: "nat \<Rightarrow> host \<Rightarrow> host" where
  "release_block r h = h\<lparr> ho_blocks := filter (\<lambda>(r', _). r' \<noteq> r) (ho_blocks h) \<rparr>"

end
