(* ===== verification/Cpu_Kernels.thy ===== *)
theory Cpu_Kernels
  imports Host_Memory
begin

text \<open>
  \<^verbatim>\<open>src/tensor/backend/CpuTensorBackend.cpp\<close> and the host side of \<^verbatim>\<open>src/tensor/activation/Activation.cpp\<close>. A kernel checks its
  views and then runs loops of loads and stores. The lemmas show that what it leaves in the output is the matrix product,
  or the elementwise result, of what the inputs held, and that it writes nothing else.
\<close>

section \<open>Allocation\<close>

definition tensorStorageBytes :: "shape \<Rightarrow> u32 \<Rightarrow> exn + u64" where
  "tensorStorageBytes sh t =
     (if sizeOf t = 0 \<or> sh_storageElementCount sh > u64_max div sizeOf t then Inl (OverflowError ''tensor allocation byte size overflow'')
      else Inr (sh_storageElementCount sh * sizeOf t))"

definition bytes_at :: "memory \<Rightarrow> u64 \<Rightarrow> nat \<Rightarrow> byte list" where
  "bytes_at m p n = map (\<lambda>i. m (p + of_nat i)) [0..<n]"

definition new_block :: "u64 \<Rightarrow> u64 \<Rightarrow> host \<Rightarrow> host" where
  "new_block p n h = h\<lparr> ho_blocks := (ho_nextOwner h, p, n) # ho_blocks h, ho_nextOwner := Suc (ho_nextOwner h) \<rparr>"

definition allocateTensor :: "allocator \<Rightarrow> shape \<Rightarrow> u32 \<Rightarrow> (host, tensor) prog" where
  "allocateTensor new sh t = (\<lambda>h.
     case bindr (tensorStorageBytes sh t) (\<lambda>n.
       andthen (throw_if (n = 0) (InvalidArgument ''DeviceBuffer size must be nonzero''))
      (bindr (new h n) (\<lambda>p. Inr (n, p)))) of
       Inl e \<Rightarrow> (Inl e, h)
     | Inr (n, p) \<Rightarrow>
         (case tensor_fromDeviceBuffer (\<lambda>_. p) sh t device_cpu (Some \<lparr> db_ref = ho_nextOwner h,
             db_bytes = bytes_at (ho_memory h) p (unat n), db_live = True, db_backend = Some cpu_device_backend \<rparr>) of
            Inl e \<Rightarrow> (Inl e, release_block (ho_nextOwner h) (new_block p n h))
          | Inr x \<Rightarrow> (Inr x, new_block p n h)))"

text \<open>A local tensor: its block is released at the end of its scope, whether the scope returns or throws.\<close>

definition with_tensor :: "allocator \<Rightarrow> shape \<Rightarrow> u32 \<Rightarrow> (tensor \<Rightarrow> (host, 'a) prog) \<Rightarrow> (host, 'a) prog" where
  "with_tensor new sh t body = bindp (allocateTensor new sh t) (\<lambda>x h. apsnd (release_block (the (tn_owner x))) (body x h))"

section \<open>Checks\<close>

definition pin :: "nat set \<Rightarrow> string \<Rightarrow> tensor_view \<Rightarrow> exn + unit" where
  "pin alive operation v = requirer (view_lockOwner alive v \<noteq> None) (InvalidArgument (operation @ '' received expired tensor storage''))"

definition validateCpuContiguous :: "nat set \<Rightarrow> string \<Rightarrow> tensor_view \<Rightarrow> exn + unit" where
  "validateCpuContiguous alive operation v =
     requirer (view_valid alive v \<and> dv_type (tv_device v) = device_CPU \<and> isContiguous (tv_shape v))
       (InvalidArgument (operation @ '' requires a contiguous CPU tensor''))"

definition validateElementwise :: "nat set \<Rightarrow> string \<Rightarrow> tensor_view \<Rightarrow> tensor_view \<Rightarrow> tensor_view \<Rightarrow> exn + unit" where
  "validateElementwise alive operation l r out =
     andthen (validateCpuContiguous alive operation l)
    (andthen (validateCpuContiguous alive operation r)
    (andthen (validateCpuContiguous alive operation out)
     (throw_if (tv_dtype l \<noteq> dtype_code FP32 \<or> tv_dtype r \<noteq> dtype_code FP32 \<or> tv_dtype out \<noteq> dtype_code FP32 \<or>
         tv_shape l \<noteq> tv_shape r \<or> tv_shape l \<noteq> tv_shape out \<or> \<not> view_writable alive out)
       (InvalidArgument (operation @ '' requires equal-shape FP32 tensors'')))))"

text \<open>A kernel: the checks, then its effect on the memory.\<close>

definition kernel :: "(nat set \<Rightarrow> exn + unit) \<Rightarrow> (nat set \<Rightarrow> memory \<Rightarrow> memory) \<Rightarrow> (host, unit) prog" where
  "kernel check act = (\<lambda>h. case check (owners h) of
     Inl e \<Rightarrow> (Inl e, h) | Inr _ \<Rightarrow> (Inr (), h\<lparr> ho_memory := act (owners h) (ho_memory h) \<rparr>))"

section \<open>Copying\<close>

text \<open>\<open>std::memmove\<close>\<close>

definition copy_bytes :: "u64 \<Rightarrow> u64 \<Rightarrow> nat \<Rightarrow> memory \<Rightarrow> memory" where
  "copy_bytes d s n m = (\<lambda>x. if unat (x - d) < n then m (s + (x - d)) else m x)"

definition copyTensor :: "tensor_view \<Rightarrow> tensor_view \<Rightarrow> (host, unit) prog" where
  "copyTensor source destination = kernel
     (\<lambda>alive. andthen (pin alive ''CPU tensor copy'' source)
       (andthen (pin alive ''CPU tensor copy'' destination)
       (andthen (validateCpuContiguous alive ''CPU tensor copy'' source)
       (andthen (validateCpuContiguous alive ''CPU tensor copy'' destination)
        (throw_if (tv_dtype source \<noteq> tv_dtype destination \<or> tv_shape source \<noteq> tv_shape destination \<or> \<not> view_writable alive destination)
          (InvalidArgument ''CPU tensor copy metadata mismatch''))))))
     (\<lambda>alive. copy_bytes (view_mutableData alive destination) (view_data alive source) (unat (tv_bytes source)))"

section \<open>Matrix products\<close>

definition dot :: "float_unit \<Rightarrow> nat \<Rightarrow> (nat \<Rightarrow> f32) \<Rightarrow> (nat \<Rightarrow> f32) \<Rightarrow> f32" where
  "dot fu inner a b = fold (\<lambda>k s. fu_add fu s (fu_mul fu (a k) (b k))) [0..<inner] 0"

definition matmul_loop ::
  "float_unit \<Rightarrow> (memory \<Rightarrow> nat \<Rightarrow> f32) \<Rightarrow> (memory \<Rightarrow> nat \<Rightarrow> f32) \<Rightarrow> u64 \<Rightarrow> nat \<Rightarrow> nat \<Rightarrow> nat \<Rightarrow> memory \<Rightarrow> memory" where
  "matmul_loop fu l r out rows inner columns =
     fold (\<lambda>(row, column) m. store_f32 (element out (row * columns + column))
         (dot fu inner (\<lambda>k. l m (row * inner + k)) (\<lambda>k. r m (k * columns + column))) m)
       (List.product [0..<rows] [0..<columns])"

definition float_operand :: "u64 \<Rightarrow> memory \<Rightarrow> nat \<Rightarrow> f32" where
  "float_operand p m i = load_f32 m (element p i)"

definition int8_operand :: "float_unit \<Rightarrow> quantization_parameters \<Rightarrow> u64 \<Rightarrow> memory \<Rightarrow> nat \<Rightarrow> f32" where
  "int8_operand fu q p m i = fu_mul fu (fu_of_int fu (sint (m (p + of_nat i)) - qp_zeroPoint q)) (fu_of_fp fu (qp_scale q))"

definition dimension :: "tensor_view \<Rightarrow> nat \<Rightarrow> u64" where
  "dimension v i = sh_dimensions (tv_shape v) ! i"

definition matmul_check :: "nat set \<Rightarrow> string \<Rightarrow> (exn + unit) \<Rightarrow> bool \<Rightarrow> string \<Rightarrow> tensor_view \<Rightarrow> tensor_view \<Rightarrow> tensor_view \<Rightarrow> exn + unit" where
  "matmul_check alive operation parameters types message l r out =
     andthen (pin alive operation l) (andthen (pin alive operation r) (andthen (pin alive operation out)
    (andthen (validateCpuContiguous alive operation l)
    (andthen (validateCpuContiguous alive operation r)
    (andthen (validateCpuContiguous alive operation out)
    (andthen parameters
    (andthen (throw_if (\<not> types \<or> sh_rank (tv_shape l) \<noteq> 2 \<or> sh_rank (tv_shape r) \<noteq> 2 \<or> sh_rank (tv_shape out) \<noteq> 2 \<or>
         \<not> view_writable alive out) (InvalidArgument message))
    (andthen (throw_if (dimension r 0 \<noteq> dimension l 1 \<or> dimension out 0 \<noteq> dimension l 0 \<or> dimension out 1 \<noteq> dimension r 1)
       (InvalidArgument (operation @ '' dimensions are incompatible'')))
     (throw_if (view_data alive l = view_data alive out \<or> view_data alive r = view_data alive out)
       (InvalidArgument (operation @ '' output cannot alias an input'')))))))))))"

definition matmul :: "float_unit \<Rightarrow> tensor_view \<Rightarrow> tensor_view \<Rightarrow> tensor_view \<Rightarrow> (host, unit) prog" where
  "matmul fu l r out = kernel
     (\<lambda>alive. matmul_check alive ''CPU matmul'' (Inr ())
        (tv_dtype l = dtype_code FP32 \<and> tv_dtype r = dtype_code FP32 \<and> tv_dtype out = dtype_code FP32)
        ''CPU matmul requires contiguous rank-2 FP32 tensors'' l r out)
     (\<lambda>alive. matmul_loop fu (float_operand (view_data alive l)) (float_operand (view_data alive r)) (view_mutableData alive out)
        (unat (dimension l 0)) (unat (dimension l 1)) (unat (dimension r 1)))"

definition matmulInt8Weights :: "float_unit \<Rightarrow> tensor_view \<Rightarrow> tensor_view \<Rightarrow> quantization_parameters \<Rightarrow> tensor_view \<Rightarrow> (host, unit) prog" where
  "matmulInt8Weights fu l r q out = kernel
     (\<lambda>alive. matmul_check alive ''CPU INT8 weight matmul'' (validateParameters quantized_INT8 q)
        (tv_dtype l = dtype_code FP32 \<and> tv_dtype r = dtype_code INT8 \<and> tv_dtype out = dtype_code FP32)
        ''CPU INT8 weight matmul requires FP32 input/output and rank-2 INT8 weights'' l r out)
     (\<lambda>alive. matmul_loop fu (float_operand (view_data alive l)) (int8_operand fu q (view_data alive r)) (view_mutableData alive out)
        (unat (dimension l 0)) (unat (dimension l 1)) (unat (dimension r 1)))"

section \<open>Elementwise operations\<close>

definition element_count :: "tensor_view \<Rightarrow> nat" where
  "element_count v = unat (sh_elementCount (tv_shape v))"

definition elementwise :: "string \<Rightarrow> (f32 \<Rightarrow> f32 \<Rightarrow> f32) \<Rightarrow> tensor_view \<Rightarrow> tensor_view \<Rightarrow> tensor_view \<Rightarrow> (host, unit) prog" where
  "elementwise operation f l r out = kernel
     (\<lambda>alive. andthen (pin alive operation l) (andthen (pin alive operation r) (andthen (pin alive operation out)
        (validateElementwise alive operation l r out))))
     (\<lambda>alive. fill (view_mutableData alive out)
        (\<lambda>m i. f (float_operand (view_data alive l) m i) (float_operand (view_data alive r) m i)) [0..<element_count l])"

definition cpu_add :: "float_unit \<Rightarrow> tensor_view \<Rightarrow> tensor_view \<Rightarrow> tensor_view \<Rightarrow> (host, unit) prog" where
  "cpu_add fu = elementwise ''CPU add'' (fu_add fu)"

definition cpu_mul :: "float_unit \<Rightarrow> tensor_view \<Rightarrow> tensor_view \<Rightarrow> tensor_view \<Rightarrow> (host, unit) prog" where
  "cpu_mul fu = elementwise ''CPU multiply'' (fu_mul fu)"

section \<open>Activations\<close>

text \<open>\<open>ActivationType\<close> as its code, which \<open>validateType\<close> checks.\<close>

abbreviation activation_SiLU :: u32 where "activation_SiLU \<equiv> 0"
abbreviation activation_GELU :: u32 where "activation_GELU \<equiv> 1"

definition silu :: "float_unit \<Rightarrow> f32 \<Rightarrow> f32" where
  "silu fu x = fu_div fu x (fu_add fu f32_one (fu_exp fu (fu_neg fu x)))"

definition gelu :: "float_unit \<Rightarrow> f32 \<Rightarrow> f32" where
  "gelu fu x = fu_mul fu (fu_mul fu f32_half x) (fu_add fu f32_one (fu_erf fu (fu_mul fu x f32_sqrt_half)))"

definition activation_value :: "float_unit \<Rightarrow> u32 \<Rightarrow> f32 \<Rightarrow> f32" where
  "activation_value fu type x = (if type = activation_SiLU then silu fu x else gelu fu x)"

definition validateType :: "u32 \<Rightarrow> exn + unit" where
  "validateType type = throw_if (type \<noteq> activation_SiLU \<and> type \<noteq> activation_GELU) (InvalidArgument ''unsupported activation type'')"

definition activation_validate :: "nat set \<Rightarrow> tensor_view \<Rightarrow> tensor_view \<Rightarrow> device \<Rightarrow> exn + unit" where
  "activation_validate alive input out expected =
     throw_if (\<not> view_valid alive input \<or> \<not> view_valid alive out \<or> tv_device input \<noteq> expected \<or> tv_device out \<noteq> expected \<or>
         tv_dtype input \<noteq> dtype_code FP32 \<or> tv_dtype out \<noteq> dtype_code FP32 \<or> tv_shape input \<noteq> tv_shape out \<or>
         \<not> isContiguous (tv_shape input) \<or> \<not> isContiguous (tv_shape out) \<or> \<not> view_writable alive out)
       (InvalidArgument ''activation requires equal contiguous writable-output FP32 tensors'')"

definition activation_apply :: "float_unit \<Rightarrow> u32 \<Rightarrow> tensor_view \<Rightarrow> tensor_view \<Rightarrow> (host, unit) prog" where
  "activation_apply fu type input out = kernel
     (\<lambda>alive. andthen (validateType type)
       (andthen (throw_if (view_lockOwner alive input = None \<or> view_lockOwner alive out = None)
          (InvalidArgument ''activation received expired tensor storage''))
        (activation_validate alive input out device_cpu)))
     (\<lambda>alive. fill (view_mutableData alive out) (\<lambda>m i. activation_value fu type (float_operand (view_data alive input) m i))
        [0..<element_count input])"

section \<open>What a view holds\<close>

definition view_span :: "tensor_view \<Rightarrow> u64 set" where
  "view_span v = span (tv_data v) (unat (tv_bytes v))"

definition apart :: "tensor_view \<Rightarrow> tensor_view \<Rightarrow> bool" where
  "apart v w \<longleftrightarrow> view_span v \<inter> view_span w = {}"

definition view_floats :: "memory \<Rightarrow> tensor_view \<Rightarrow> f32 list" where
  "view_floats m v = floats_at m (tv_data v) (element_count v)"

text \<open>A kernel has left \<open>xs\<close> in its output, every byte outside the output as it was, and the blocks alone.\<close>

definition computed :: "host \<Rightarrow> tensor_view \<Rightarrow> f32 list \<Rightarrow> host \<Rightarrow> bool" where
  "computed h out xs h' \<longleftrightarrow> view_floats (ho_memory h') out = xs \<and> (\<forall>x. x \<notin> view_span out \<longrightarrow> ho_memory h' x = ho_memory h x) \<and>
     ho_blocks h' = ho_blocks h \<and> ho_nextOwner h' = ho_nextOwner h"

text \<open>The product of two matrices stored by rows: every row of the first with every column of the second, their products
  added up from the left.\<close>

definition mat_row :: "nat \<Rightarrow> 'a list \<Rightarrow> nat \<Rightarrow> 'a list" where
  "mat_row width xs i = take width (drop (i * width) xs)"

definition mat_column :: "nat \<Rightarrow> nat \<Rightarrow> 'a list \<Rightarrow> nat \<Rightarrow> 'a list" where
  "mat_column height width xs j = map (\<lambda>i. xs ! (i * width + j)) [0..<height]"

definition sum_products :: "float_unit \<Rightarrow> f32 list \<Rightarrow> f32 list \<Rightarrow> f32" where
  "sum_products fu xs ys = foldl (fu_add fu) 0 (map2 (fu_mul fu) xs ys)"

definition mat_product :: "float_unit \<Rightarrow> nat \<Rightarrow> nat \<Rightarrow> nat \<Rightarrow> f32 list \<Rightarrow> f32 list \<Rightarrow> f32 list" where
  "mat_product fu rows inner columns a b =
     concat (map (\<lambda>i. map (\<lambda>j. sum_products fu (mat_row inner a i) (mat_column inner columns b j)) [0..<columns]) [0..<rows])"

lemma view_ok_bytes:
  assumes "view_ok v"
  shows "unat (tv_bytes v) = element_count v * unat (sizeOf (tv_dtype v))" and "unat (tv_bytes v) \<le> 2 ^ 64"
proof -
  show "unat (tv_bytes v) = element_count v * unat (sizeOf (tv_dtype v))"
    using assms by (simp add: view_ok_def element_count_def)
  have "unat (tv_bytes v) < 2 ^ LENGTH(64)" by (rule unsigned_less)
  then show "unat (tv_bytes v) \<le> 2 ^ 64" by simp
qed

lemma float_view_bytes:
  assumes "view_ok v" and "tv_dtype v = dtype_code FP32"
  shows "unat (tv_bytes v) = 4 * element_count v" and "4 * element_count v \<le> 2 ^ 64"
  using view_ok_bytes [OF assms(1)] assms(2) by (simp_all add: sizeOf_def dtype_of_def)

lemma view_elements_2:
  assumes "view_ok v" and "sh_rank (tv_shape v) = 2"
  shows "element_count v = unat (dimension v 0) * unat (dimension v 1)"
proof -
  from assms(2) obtain a b where d: "sh_dimensions (tv_shape v) = [a, b]"
    by (auto simp: sh_rank_def length_Suc_conv numeral_2_eq_2)
  with assms(1) show ?thesis by (simp add: view_ok_def shape_ok_def element_count_def dimension_def product_def)
qed

section \<open>Kernels\<close>

lemma kernel_Inr: "kernel check act h = (Inr u, h') \<longleftrightarrow>
    check (owners h) = Inr () \<and> h' = h\<lparr> ho_memory := act (owners h) (ho_memory h) \<rparr>"
  by (auto simp: kernel_def split: sum.splits)

lemma kernel_Inl: "kernel check act h = (Inl e, h') \<longleftrightarrow> check (owners h) = Inl e \<and> h' = h"
  by (auto simp: kernel_def split: sum.splits)

lemma pin_Inr [simp]: "pin alive operation v = Inr u \<longleftrightarrow> \<not> expired alive (tv_lifetime v)"
  by (auto simp: pin_def view_lockOwner_def expired_def split: option.splits)

lemma live_view [simp]:
  "\<not> expired alive (tv_lifetime v) \<Longrightarrow> view_data alive v = tv_data v"
  "\<not> expired alive (tv_lifetime v) \<Longrightarrow> view_mutableData alive v = tv_mutableData v"
  by (simp_all add: view_data_def view_mutableData_def)

lemma writable_data: "view_writable alive v \<Longrightarrow> view_ok v \<Longrightarrow> tv_mutableData v = tv_data v"
  by (auto simp: view_writable_def view_ok_def)

text \<open>The places of a matrix row by row are its elements in order.\<close>

lemma product_places: "map (\<lambda>(i, j). i * n + j) (List.product [0..<m] [0..<n]) = [0..<m * n]"
proof (induction m)
  case (Suc m)
  have "map (\<lambda>(i, j). i * n + j) (List.product [0..<Suc m] [0..<n]) =
      map (\<lambda>(i, j). i * n + j) (List.product [0..<m] [0..<n]) @ map (\<lambda>j. m * n + j) [0..<n]"
    by (simp add: product_concat_map o_def)
  also have "map (\<lambda>j. m * n + j) [0..<n] = [m * n..<m * n + n]"
    using map_add_upt [of "m * n" n] by (simp add: add.commute)
  also have "map (\<lambda>(i, j). i * n + j) (List.product [0..<m] [0..<n]) @ [m * n..<m * n + n] = [0..<m * n + n]"
    unfolding Suc.IH by (rule upt_add_eq_append [symmetric]) simp
  finally show ?case by (simp add: add.commute)
qed simp

lemma matmul_loop_fill:
  "matmul_loop fu l r out rows inner columns =
     fill out (\<lambda>m i. dot fu inner (\<lambda>k. l m (i div columns * inner + k)) (\<lambda>k. r m (k * columns + i mod columns))) [0..<rows * columns]"
  unfolding matmul_loop_def fill_def product_places [symmetric] fold_map
  by (rule ext, rule fold_cong) (auto simp: fun_eq_iff)

lemma dot_cong: "(\<And>k. k < inner \<Longrightarrow> a k = a' k \<and> b k = b' k) \<Longrightarrow> dot fu inner a b = dot fu inner a' b'"
  unfolding dot_def by (rule fold_cong) auto

lemma row_place: "i < rows * columns \<Longrightarrow> k < inner \<Longrightarrow> i div columns * inner + k < rows * (inner :: nat)"
proof -
  assume i: "i < rows * columns" and k: "k < inner"
  then have "Suc (i div columns) \<le> rows" by (simp add: Suc_le_eq less_mult_imp_div_less)
  then have "Suc (i div columns) * inner \<le> rows * inner" by (rule mult_le_mono1)
  with k show ?thesis by simp
qed

lemma column_place: "i < rows * columns \<Longrightarrow> k < inner \<Longrightarrow> k * columns + i mod columns < inner * (columns :: nat)"
proof -
  assume i: "i < rows * columns" and k: "k < inner"
  then have "i mod columns < columns" by (cases columns) simp_all
  moreover from k have "Suc k * columns \<le> inner * columns" by (intro mult_le_mono1) simp
  ultimately show ?thesis by simp
qed

lemma nth_mat_row: "k < width \<Longrightarrow> Suc i * width \<le> length xs \<Longrightarrow> mat_row width xs i ! k = xs ! (i * width + k)"
  by (simp add: mat_row_def)

lemma sum_products_dot:
  assumes "length xs = n" and "length ys = n"
  shows "sum_products fu xs ys = dot fu n ((!) xs) ((!) ys)"
proof -
  have "map2 (fu_mul fu) xs ys = map (\<lambda>k. fu_mul fu (xs ! k) (ys ! k)) [0..<n]"
    using assms by (intro nth_equalityI) simp_all
  then show ?thesis by (simp add: sum_products_def dot_def foldl_conv_fold fold_map o_def)
qed

lemma mat_product_dots:
  assumes "length a = rows * inner"
  shows "mat_product fu rows inner columns a b =
      map (\<lambda>i. dot fu inner (\<lambda>k. a ! (i div columns * inner + k)) (\<lambda>k. b ! (k * columns + i mod columns))) [0..<rows * columns]"
proof -
  let ?f = "\<lambda>i. dot fu inner (\<lambda>k. a ! (i div columns * inner + k)) (\<lambda>k. b ! (k * columns + i mod columns))"
  have each: "sum_products fu (mat_row inner a i) (mat_column inner columns b j) = ?f (i * columns + j)"
    if i: "i < rows" and j: "j < columns" for i j
  proof -
    have "Suc i * inner \<le> rows * inner" using i by (intro mult_le_mono1) simp
    then have fits: "Suc i * inner \<le> length a" by (simp only: assms)
    then have "sum_products fu (mat_row inner a i) (mat_column inner columns b j) =
        dot fu inner ((!) (mat_row inner a i)) ((!) (mat_column inner columns b j))"
      by (intro sum_products_dot) (simp_all add: mat_row_def mat_column_def)
    also have "\<dots> = ?f (i * columns + j)"
      using fits j by (intro dot_cong) (simp add: nth_mat_row mat_column_def)
    finally show ?thesis .
  qed
  have "map ?f [0..<rows * columns] = map (\<lambda>(i, j). ?f (i * columns + j)) (List.product [0..<rows] [0..<columns])"
    unfolding product_places [symmetric] map_map by (rule map_cong) auto
  also have "\<dots> = concat (map (\<lambda>i. map (\<lambda>j. ?f (i * columns + j)) [0..<columns]) [0..<rows])"
    by (simp only: product_concat_map map_concat map_map o_def prod.case)
  also have "\<dots> = mat_product fu rows inner columns a b"
    unfolding mat_product_def by (intro arg_cong [where f = concat] map_cong refl) (simp only: each set_upt atLeastLessThan_iff)
  finally show ?thesis by (rule sym)
qed

text \<open>A loop over operands that the writes do not reach.\<close>

lemma matmul_loop_result:
  assumes "4 * (rows * columns) \<le> 2 ^ 64"
    and "\<And>i m'. i < rows * inner \<Longrightarrow> (\<And>x. x \<notin> span out (4 * (rows * columns)) \<Longrightarrow> m' x = m x) \<Longrightarrow> l m' i = l m i"
    and "\<And>i m'. i < inner * columns \<Longrightarrow> (\<And>x. x \<notin> span out (4 * (rows * columns)) \<Longrightarrow> m' x = m x) \<Longrightarrow> r m' i = r m i"
  shows "floats_at (matmul_loop fu l r out rows inner columns m) out (rows * columns) =
      mat_product fu rows inner columns (map (l m) [0..<rows * inner]) (map (r m) [0..<inner * columns])"
    and "\<And>x. x \<notin> span out (4 * (rows * columns)) \<Longrightarrow> matmul_loop fu l r out rows inner columns m x = m x"
proof -
  let ?f = "\<lambda>m i. dot fu inner (\<lambda>k. l m (i div columns * inner + k)) (\<lambda>k. r m (k * columns + i mod columns))"
  have step: "?f m' i = ?f m i"
    if "i < rows * columns" and agree: "\<And>x. x \<notin> span out (4 * i) \<Longrightarrow> m' x = m x" for i m'
  proof -
    have "span out (4 * i) \<subseteq> span out (4 * (rows * columns))" using that(1) by (intro span_mono) simp
    then have "\<And>x. x \<notin> span out (4 * (rows * columns)) \<Longrightarrow> m' x = m x" using agree by blast
    note reads = assms(2) [OF row_place [OF that(1)] this] assms(3) [OF column_place [OF that(1)] this]
    show ?thesis by (rule dot_cong) (simp add: reads)
  qed
  have A: "floats_at (fill out ?f [0..<rows * columns] m) out (rows * columns) = map (?f m) [0..<rows * columns]"
    by (rule fill_upt(1) [OF assms(1)]) (rule step)
  have "?f m i = dot fu inner (\<lambda>k. map (l m) [0..<rows * inner] ! (i div columns * inner + k))
      (\<lambda>k. map (r m) [0..<inner * columns] ! (k * columns + i mod columns))" if "i < rows * columns" for i
    by (rule dot_cong) (simp add: row_place [OF that] column_place [OF that])
  then show "floats_at (matmul_loop fu l r out rows inner columns m) out (rows * columns) =
      mat_product fu rows inner columns (map (l m) [0..<rows * inner]) (map (r m) [0..<inner * columns])"
    unfolding matmul_loop_fill A by (subst mat_product_dots) (simp_all cong: map_cong)
  show "matmul_loop fu l r out rows inner columns m x = m x" if "x \<notin> span out (4 * (rows * columns))" for x
    unfolding matmul_loop_fill by (rule fill_upt(2) [OF assms(1) _ that]) (rule step)
qed

lemma float_operand_apart:
  assumes "4 * n \<le> 2 ^ 64" and "span p (4 * n) \<inter> S = {}" and "\<And>x. x \<notin> S \<Longrightarrow> m' x = m x" and "i < n"
  shows "float_operand p m' i = float_operand p m i"
  unfolding float_operand_def using assms element_in_array [OF assms(1,4)] by (intro load_cong) blast

lemma floats_of_view: "map (float_operand (tv_data v) m) [0..<element_count v] = view_floats m v"
  by (simp add: view_floats_def floats_at_def float_operand_def)

text \<open>What an accepted product has checked.\<close>

lemma matmul_checked:
  assumes "matmul_check alive operation parameters types message l r out = Inr u"
  shows "types" and "parameters = Inr ()" and "view_data alive l = tv_data l" and "view_data alive r = tv_data r"
    and "view_mutableData alive out = tv_mutableData out" and "view_writable alive out"
    and "sh_rank (tv_shape l) = 2" "sh_rank (tv_shape r) = 2" "sh_rank (tv_shape out) = 2"
    and "dimension r 0 = dimension l 1" "dimension out 0 = dimension l 0" "dimension out 1 = dimension r 1"
  using assms by (simp_all add: matmul_check_def)

text \<open>A product of floats, or of floats and quantized weights: \<open>weights\<close> are the values of the right operand.\<close>

lemma matmul_loop_of_views:
  fixes fu :: float_unit
  assumes "view_ok l" "view_ok r" "view_ok out" and "tv_dtype l = dtype_code FP32" "tv_dtype out = dtype_code FP32"
    and "sh_rank (tv_shape l) = 2" "sh_rank (tv_shape r) = 2" "sh_rank (tv_shape out) = 2"
    and d: "dimension r 0 = dimension l 1" "dimension out 0 = dimension l 0" "dimension out 1 = dimension r 1"
    and "apart l out"
    and "\<And>i m'. i < element_count r \<Longrightarrow> (\<And>x. x \<notin> view_span out \<Longrightarrow> m' x = m x) \<Longrightarrow> weight m' i = weight m i"
  defines "m1 \<equiv> matmul_loop fu (float_operand (tv_data l)) weight (tv_data out) (unat (dimension l 0)) (unat (dimension l 1)) (unat (dimension r 1)) m"
  shows "view_floats m1 out = mat_product fu (unat (dimension l 0)) (unat (dimension l 1)) (unat (dimension r 1))
      (view_floats m l) (map (weight m) [0..<element_count r])"
    and "\<And>x. x \<notin> view_span out \<Longrightarrow> m1 x = m x"
proof -
  let ?R = "unat (dimension l 0)" and ?I = "unat (dimension l 1)" and ?C = "unat (dimension r 1)"
  have counts: "element_count l = ?R * ?I" "element_count r = ?I * ?C" "element_count out = ?R * ?C"
    using view_elements_2 [OF assms(1) assms(6)] view_elements_2 [OF assms(2) assms(7)] view_elements_2 [OF assms(3) assms(8)]
    unfolding d by simp_all
  note lb = float_view_bytes [OF assms(1,4)] note ob = float_view_bytes [OF assms(3,5)]
  have out: "view_span out = span (tv_data out) (4 * (?R * ?C))" by (simp add: view_span_def ob counts)
  have fits: "4 * (?R * ?C) \<le> 2 ^ 64" using ob(2) by (simp add: counts)
  have "view_span l \<inter> view_span out = {}" using assms(12) by (simp add: apart_def)
  then have dis: "span (tv_data l) (4 * element_count l) \<inter> span (tv_data out) (4 * (?R * ?C)) = {}"
    by (simp only: view_span_def [of l] lb(1) out)
  have reads: "float_operand (tv_data l) m' i = float_operand (tv_data l) m i"
    if "i < ?R * ?I" "\<And>x. x \<notin> span (tv_data out) (4 * (?R * ?C)) \<Longrightarrow> m' x = m x" for i m'
    by (rule float_operand_apart [OF lb(2) dis that(2)], assumption) (simp only: counts that(1))
  have weights: "weight m' i = weight m i"
    if "i < ?I * ?C" "\<And>x. x \<notin> span (tv_data out) (4 * (?R * ?C)) \<Longrightarrow> m' x = m x" for i m'
    by (rule assms(13), simp only: counts that(1), rule that(2), simp only: out not_False_eq_True)
  have "floats_at m1 (tv_data out) (?R * ?C) =
      mat_product fu ?R ?I ?C (map (float_operand (tv_data l) m) [0..<?R * ?I]) (map (weight m) [0..<?I * ?C])"
    unfolding m1_def by (rule matmul_loop_result(1) [OF fits]) (erule reads, assumption, erule weights, assumption)
  then show "view_floats m1 out = mat_product fu ?R ?I ?C (view_floats m l) (map (weight m) [0..<element_count r])"
    by (simp only: view_floats_def [of _ out] counts floats_of_view [of l, symmetric])
  show "m1 x = m x" if "x \<notin> view_span out" for x
    unfolding m1_def by (rule matmul_loop_result(2) [OF fits])
      (erule reads, assumption, erule weights, assumption, use that in \<open>simp only: out not_False_eq_True\<close>)
qed

text \<open>When the product of two matrices returns, and the output overlaps neither input, the output holds the matrix product
  of what the inputs held, each element summed from the left as the loop does, for whatever arithmetic the host has; and
  every byte outside the output is as before. Blocks are neither made nor released.\<close>

lemma matmul_computes:
  assumes "matmul fu l r out h = (Inr (), h')" and "view_ok l" "view_ok r" "view_ok out" and "apart l out" "apart r out"
  shows "computed h out (mat_product fu (unat (dimension l 0)) (unat (dimension l 1)) (unat (dimension r 1))
      (view_floats (ho_memory h) l) (view_floats (ho_memory h) r)) h'"
proof -
  from assms(1) have check: "matmul_check (owners h) ''CPU matmul'' (Inr ())
        (tv_dtype l = dtype_code FP32 \<and> tv_dtype r = dtype_code FP32 \<and> tv_dtype out = dtype_code FP32)
        ''CPU matmul requires contiguous rank-2 FP32 tensors'' l r out = Inr ()"
    and h': "h' = h\<lparr> ho_memory := matmul_loop fu (float_operand (view_data (owners h) l)) (float_operand (view_data (owners h) r))
        (view_mutableData (owners h) out) (unat (dimension l 0)) (unat (dimension l 1)) (unat (dimension r 1)) (ho_memory h) \<rparr>"
    by (simp_all add: matmul_def kernel_Inr)
  note c = matmul_checked [OF check]
  have types: "tv_dtype l = dtype_code FP32" "tv_dtype r = dtype_code FP32" "tv_dtype out = dtype_code FP32" using c(1) by simp_all
  note rb = float_view_bytes [OF assms(3) types(2)]
  have reads: "float_operand (tv_data r) m' i = float_operand (tv_data r) (ho_memory h) i"
    if "i < element_count r" "\<And>x. x \<notin> view_span out \<Longrightarrow> m' x = ho_memory h x" for i m'
    by (rule float_operand_apart [OF rb(2) _ that(2) that(1)]) (use assms(6) in \<open>simp_all add: apart_def view_span_def rb\<close>)
  note result = matmul_loop_of_views [where m = "ho_memory h" and fu = fu and weight = "float_operand (tv_data r)",
      OF assms(2-4) types(1,3) c(7-12) assms(5) reads]
  have mem: "ho_memory h' = matmul_loop fu (float_operand (tv_data l)) (float_operand (tv_data r)) (tv_data out)
      (unat (dimension l 0)) (unat (dimension l 1)) (unat (dimension r 1)) (ho_memory h)"
    unfolding h' c(3-5) writable_data [OF c(6) assms(4)] by simp
  have "view_floats (ho_memory h') out = mat_product fu (unat (dimension l 0)) (unat (dimension l 1)) (unat (dimension r 1))
      (view_floats (ho_memory h) l) (view_floats (ho_memory h) r)" unfolding mem floats_of_view [of r, symmetric] by (rule result(1))
  moreover have "\<forall>x. x \<notin> view_span out \<longrightarrow> ho_memory h' x = ho_memory h x" unfolding mem using result(2) by blast
  moreover have "ho_blocks h' = ho_blocks h" "ho_nextOwner h' = ho_nextOwner h" by (simp_all add: h')
  ultimately show ?thesis by (simp add: computed_def)
qed

text \<open>The same for quantized weights; what they stand for are the products of the scale with the byte less the zero point.\<close>

definition int8_values :: "float_unit \<Rightarrow> quantization_parameters \<Rightarrow> memory \<Rightarrow> tensor_view \<Rightarrow> f32 list" where
  "int8_values fu q m v = map (int8_operand fu q (tv_data v) m) [0..<element_count v]"

lemma int8_operand_apart:
  assumes "n \<le> 2 ^ 64" and "span p n \<inter> S = {}" and "\<And>x. x \<notin> S \<Longrightarrow> m' x = m x" and "i < n"
  shows "int8_operand fu q p m' i = int8_operand fu q p m i"
proof -
  have "p + of_nat i \<in> span p n" using assms(1,4) by (simp add: span_def unat_of_nat)
  with assms(2) have "p + of_nat i \<notin> S" by blast
  then show ?thesis by (simp add: int8_operand_def assms(3))
qed

lemma int8_view_bytes:
  assumes "view_ok v" and "tv_dtype v = dtype_code INT8"
  shows "unat (tv_bytes v) = element_count v" and "element_count v \<le> 2 ^ 64"
  using view_ok_bytes [OF assms(1)] assms(2) by (simp_all add: sizeOf_def dtype_of_def)

lemma matmulInt8_computes:
  assumes "matmulInt8Weights fu l r q out h = (Inr (), h')" and "view_ok l" "view_ok r" "view_ok out" and "apart l out" "apart r out"
  shows "computed h out (mat_product fu (unat (dimension l 0)) (unat (dimension l 1)) (unat (dimension r 1))
      (view_floats (ho_memory h) l) (int8_values fu q (ho_memory h) r)) h'"
proof -
  from assms(1) have check: "matmul_check (owners h) ''CPU INT8 weight matmul'' (validateParameters quantized_INT8 q)
        (tv_dtype l = dtype_code FP32 \<and> tv_dtype r = dtype_code INT8 \<and> tv_dtype out = dtype_code FP32)
        ''CPU INT8 weight matmul requires FP32 input/output and rank-2 INT8 weights'' l r out = Inr ()"
    and h': "h' = h\<lparr> ho_memory := matmul_loop fu (float_operand (view_data (owners h) l)) (int8_operand fu q (view_data (owners h) r))
        (view_mutableData (owners h) out) (unat (dimension l 0)) (unat (dimension l 1)) (unat (dimension r 1)) (ho_memory h) \<rparr>"
    by (simp_all add: matmulInt8Weights_def kernel_Inr)
  note c = matmul_checked [OF check]
  have types: "tv_dtype l = dtype_code FP32" "tv_dtype r = dtype_code INT8" "tv_dtype out = dtype_code FP32" using c(1) by simp_all
  note rb = int8_view_bytes [OF assms(3) types(2)]
  have dis: "span (tv_data r) (element_count r) \<inter> view_span out = {}"
    using assms(6) by (simp add: apart_def view_span_def [of r] rb(1))
  have reads: "int8_operand fu q (tv_data r) m' i = int8_operand fu q (tv_data r) (ho_memory h) i"
    if "i < element_count r" "\<And>x. x \<notin> view_span out \<Longrightarrow> m' x = ho_memory h x" for i m'
    by (rule int8_operand_apart [OF rb(2) dis that(2) that(1)])
  note result = matmul_loop_of_views [where m = "ho_memory h" and fu = fu and weight = "int8_operand fu q (tv_data r)",
      OF assms(2-4) types(1,3) c(7-12) assms(5) reads]
  have mem: "ho_memory h' = matmul_loop fu (float_operand (tv_data l)) (int8_operand fu q (tv_data r)) (tv_data out)
      (unat (dimension l 0)) (unat (dimension l 1)) (unat (dimension r 1)) (ho_memory h)"
    unfolding h' c(3-5) writable_data [OF c(6) assms(4)] by simp
  have "view_floats (ho_memory h') out = mat_product fu (unat (dimension l 0)) (unat (dimension l 1)) (unat (dimension r 1))
      (view_floats (ho_memory h) l) (int8_values fu q (ho_memory h) r)" unfolding mem int8_values_def by (rule result(1))
  moreover have "\<forall>x. x \<notin> view_span out \<longrightarrow> ho_memory h' x = ho_memory h x" unfolding mem using result(2) by blast
  moreover have "ho_blocks h' = ho_blocks h" "ho_nextOwner h' = ho_nextOwner h" by (simp_all add: h')
  ultimately show ?thesis by (simp add: computed_def)
qed

section \<open>Elementwise kernels\<close>

text \<open>An input of an elementwise kernel may be the output itself.\<close>

definition in_place_or_apart :: "tensor_view \<Rightarrow> tensor_view \<Rightarrow> bool" where
  "in_place_or_apart v out \<longleftrightarrow> tv_data v = tv_data out \<or> apart v out"

lemma operand_ahead:
  assumes "view_ok v" "view_ok out" and "tv_dtype v = dtype_code FP32" "tv_dtype out = dtype_code FP32"
    and "tv_shape v = tv_shape out" and "in_place_or_apart v out" and "i < element_count out"
    and "\<And>x. x \<notin> span (tv_data out) (4 * i) \<Longrightarrow> m' x = m x"
  shows "float_operand (tv_data v) m' i = float_operand (tv_data v) m i"
  unfolding float_operand_def
proof (rule load_ahead [OF float_view_bytes(2) [OF assms(2,4)] float_view_bytes(2) [OF assms(1,3)] _ _ _ assms(8)])
  have n: "element_count v = element_count out" by (simp add: element_count_def assms(5))
  show "i < element_count v" "i \<le> element_count out" using assms(7) n by simp_all
  show "span (tv_data v) (4 * element_count v) \<inter> span (tv_data out) (4 * element_count out) = {} \<or> tv_data v = tv_data out \<and> i \<le> i"
    using assms(6) by (auto simp: in_place_or_apart_def apart_def view_span_def float_view_bytes [OF assms(1,3)] float_view_bytes [OF assms(2,4)])
qed

lemma elementwise_computes:
  assumes "elementwise operation f l r out h = (Inr (), h')" and "view_ok l" "view_ok r" "view_ok out"
    and "in_place_or_apart l out" "in_place_or_apart r out"
  shows "computed h out (map2 f (view_floats (ho_memory h) l) (view_floats (ho_memory h) r)) h'"
proof -
  let ?a = "owners h"
  let ?f = "\<lambda>m i. f (float_operand (tv_data l) m i) (float_operand (tv_data r) m i)"
  from assms(1) have live: "\<not> expired ?a (tv_lifetime l)" "\<not> expired ?a (tv_lifetime r)" "\<not> expired ?a (tv_lifetime out)"
    and wr: "view_writable ?a out"
    and types: "tv_dtype l = dtype_code FP32" "tv_dtype r = dtype_code FP32" "tv_dtype out = dtype_code FP32"
    and shapes: "tv_shape l = tv_shape out" "tv_shape r = tv_shape out"
    and h': "h' = h\<lparr> ho_memory := fill (view_mutableData ?a out)
        (\<lambda>m i. f (float_operand (view_data ?a l) m i) (float_operand (view_data ?a r) m i)) [0..<element_count l] (ho_memory h) \<rparr>"
    by (simp_all add: elementwise_def kernel_Inr validateElementwise_def)
  have n: "element_count l = element_count out" "element_count r = element_count out" by (simp_all add: element_count_def shapes)
  have mem: "ho_memory h' = fill (tv_data out) ?f [0..<element_count out] (ho_memory h)"
    unfolding h' live_view(1) [OF live(1)] live_view(1) [OF live(2)] live_view(2) [OF live(3)] writable_data [OF wr assms(4)] n by simp
  note ob = float_view_bytes [OF assms(4) types(3)]
  have step: "?f m' i = ?f (ho_memory h) i"
    if "i < element_count out" "\<And>x. x \<notin> span (tv_data out) (4 * i) \<Longrightarrow> m' x = ho_memory h x" for i m'
    using operand_ahead [OF assms(2,4) types(1,3) shapes(1) assms(5) that] operand_ahead [OF assms(3,4) types(2,3) shapes(2) assms(6) that]
    by simp
  have "floats_at (ho_memory h') (tv_data out) (element_count out) = map (?f (ho_memory h)) [0..<element_count out]"
    unfolding mem by (rule fill_upt(1) [OF ob(2)]) (rule step)
  then have "view_floats (ho_memory h') out = map2 f (view_floats (ho_memory h) l) (view_floats (ho_memory h) r)"
    unfolding floats_of_view [of l, symmetric] floats_of_view [of r, symmetric] n
    by (simp add: view_floats_def [of _ out] zip_map_map zip_same_conv_map)
  moreover have "ho_memory h' x = ho_memory h x" if "x \<notin> view_span out" for x
    unfolding mem by (rule fill_upt(2) [OF ob(2) _ that [unfolded view_span_def ob(1)]]) (rule step)
  moreover have "ho_blocks h' = ho_blocks h" "ho_nextOwner h' = ho_nextOwner h" by (simp_all add: h')
  ultimately show ?thesis by (simp add: computed_def)
qed

lemma activation_computes:
  assumes "activation_apply fu type input out h = (Inr (), h')" and "view_ok input" "view_ok out" and "in_place_or_apart input out"
  shows "computed h out (map (activation_value fu type) (view_floats (ho_memory h) input)) h'"
proof -
  let ?a = "owners h"
  let ?f = "\<lambda>m i. activation_value fu type (float_operand (tv_data input) m i)"
  from assms(1) have live: "\<not> expired ?a (tv_lifetime input)" "\<not> expired ?a (tv_lifetime out)"
    and wr: "view_writable ?a out"
    and types: "tv_dtype input = dtype_code FP32" "tv_dtype out = dtype_code FP32" and shape: "tv_shape input = tv_shape out"
    and h': "h' = h\<lparr> ho_memory := fill (view_mutableData ?a out) (\<lambda>m i. activation_value fu type (float_operand (view_data ?a input) m i))
        [0..<element_count input] (ho_memory h) \<rparr>"
    by (simp_all add: activation_apply_def kernel_Inr activation_validate_def view_valid_def)
  have n: "element_count input = element_count out" by (simp add: element_count_def shape)
  have mem: "ho_memory h' = fill (tv_data out) ?f [0..<element_count out] (ho_memory h)"
    unfolding h' live_view(1) [OF live(1)] live_view(2) [OF live(2)] writable_data [OF wr assms(3)] n by simp
  note ob = float_view_bytes [OF assms(3) types(2)]
  have step: "?f m' i = ?f (ho_memory h) i"
    if "i < element_count out" "\<And>x. x \<notin> span (tv_data out) (4 * i) \<Longrightarrow> m' x = ho_memory h x" for i m'
    using operand_ahead [OF assms(2,3) types shape assms(4) that] by simp
  have "floats_at (ho_memory h') (tv_data out) (element_count out) = map (?f (ho_memory h)) [0..<element_count out]"
    unfolding mem by (rule fill_upt(1) [OF ob(2)]) (rule step)
  then have "view_floats (ho_memory h') out = map (activation_value fu type) (view_floats (ho_memory h) input)"
    unfolding floats_of_view [of input, symmetric] n by (simp add: view_floats_def [of _ out])
  moreover have "ho_memory h' x = ho_memory h x" if "x \<notin> view_span out" for x
    unfolding mem by (rule fill_upt(2) [OF ob(2) _ that [unfolded view_span_def ob(1)]]) (rule step)
  moreover have "ho_blocks h' = ho_blocks h" "ho_nextOwner h' = ho_nextOwner h" by (simp_all add: h')
  ultimately show ?thesis by (simp add: computed_def)
qed

section \<open>Copies\<close>

lemma load_copied:
  assumes "4 * n \<le> 2 ^ 64" and "i < n"
  shows "load_f32 (copy_bytes d s (4 * n) m) (element d i) = load_f32 m (element s i)"
proof -
  have "copy_bytes d s (4 * n) m (element d i + of_nat j) = m (element s i + of_nat j)" if "j < 4" for j
  proof -
    have "element d i + of_nat j \<in> span (element d i) 4" using that by (simp add: span_def unat_of_nat)
    then have "unat (element d i + of_nat j - d) < 4 * n" using in_element [OF assms, of "element d i + of_nat j" d] assms(2) by simp
    then show ?thesis by (simp add: copy_bytes_def element_def add.assoc)
  qed
  then show ?thesis unfolding load_f32_def by (intro arg_cong [where f = "\<lambda>bs. combine_bytes 0 bs 0"]) simp
qed

lemma copyTensor_computes:
  assumes "copyTensor source out h = (Inr (), h')" and "view_ok source" "view_ok out" and "tv_dtype source = dtype_code FP32"
  shows "computed h out (view_floats (ho_memory h) source) h'"
proof -
  let ?a = "owners h"
  from assms(1) have live: "\<not> expired ?a (tv_lifetime source)" "\<not> expired ?a (tv_lifetime out)" and wr: "view_writable ?a out"
    and same: "tv_dtype source = tv_dtype out" "tv_shape source = tv_shape out"
    and h': "h' = h\<lparr> ho_memory := copy_bytes (view_mutableData ?a out) (view_data ?a source) (unat (tv_bytes source)) (ho_memory h) \<rparr>"
    by (simp_all add: copyTensor_def kernel_Inr)
  note sb = float_view_bytes [OF assms(2,4)]
  have n: "element_count source = element_count out" by (simp add: element_count_def same)
  have mem: "ho_memory h' = copy_bytes (tv_data out) (tv_data source) (4 * element_count out) (ho_memory h)"
    unfolding h' live_view(1) [OF live(1)] live_view(2) [OF live(2)] writable_data [OF wr assms(3)] sb(1) n by simp
  have ob: "view_span out = span (tv_data out) (4 * element_count out)"
    using float_view_bytes(1) [OF assms(3)] same assms(4) by (simp add: view_span_def)
  have "view_floats (ho_memory h') out = view_floats (ho_memory h) source"
    unfolding view_floats_def floats_at_def n mem using load_copied [OF sb(2)] by (simp add: n)
  moreover have "ho_memory h' x = ho_memory h x" if "x \<notin> view_span out" for x
    using that unfolding mem ob by (simp add: copy_bytes_def span_def)
  moreover have "ho_blocks h' = ho_blocks h" "ho_nextOwner h' = ho_nextOwner h" by (simp_all add: h')
  ultimately show ?thesis by (simp add: computed_def)
qed

section \<open>Local tensors\<close>

definition host_ok :: "host \<Rightarrow> bool" where
  "host_ok h \<longleftrightarrow> (\<forall>(r, p, n) \<in> set (ho_blocks h). r < ho_nextOwner h)"

text \<open>A view of a live block.\<close>

definition placed_in :: "host \<Rightarrow> tensor_view \<Rightarrow> bool" where
  "placed_in h v \<longleftrightarrow> (\<exists>r p n. (r, p, n) \<in> set (ho_blocks h) \<and> tv_lifetime v = Some r \<and> view_span v \<subseteq> span p (unat n))"

text \<open>What an allocation gives: a tensor in a block of its own, apart from every view of a live block.\<close>

definition fresh_tensor :: "host \<Rightarrow> shape \<Rightarrow> u32 \<Rightarrow> tensor \<Rightarrow> host \<Rightarrow> bool" where
  "fresh_tensor h sh t x h1 \<longleftrightarrow> view_ok (view_of_tensor x) \<and> tn_shape x = sh \<and> tn_dtype x = t \<and>
     tn_owner x = Some (ho_nextOwner h) \<and> placed_in h1 (view_of_tensor x) \<and>
     (\<exists>p n. ho_blocks h1 = (ho_nextOwner h, p, n) # ho_blocks h) \<and> ho_nextOwner h1 = Suc (ho_nextOwner h) \<and>
     ho_memory h1 = ho_memory h \<and>
     (\<forall>v. placed_in h v \<longrightarrow> apart v (view_of_tensor x))"

lemma allocate_fresh:
  assumes "allocateTensor new sh t h = (Inr x, h1)" and "allocator_ok new" and "shape_ok sh" and "isContiguous sh"
  shows "fresh_tensor h sh t x h1"
proof -
  let ?r = "ho_nextOwner h"
  let ?b = "\<lambda>n p. \<lparr> db_ref = ?r, db_bytes = bytes_at (ho_memory h) p (unat n), db_live = True, db_backend = Some cpu_device_backend \<rparr>"
  from assms(1) obtain n p where n: "tensorStorageBytes sh t = Inr n" "n \<noteq> 0" and p: "new h n = Inr p"
    and x: "tensor_fromDeviceBuffer (\<lambda>_. p) sh t device_cpu (Some (?b n p)) = Inr x" and h1: "h1 = new_block p n h"
    by (auto simp: allocateTensor_def bindr_eq_Inr split: sum.splits prod.splits)
  from assms(2) p n(2) have A: "p \<noteq> 0" "unat p + unat n \<le> 2 ^ 64"
    and dis: "\<And>r q k. (r, q, k) \<in> set (ho_blocks h) \<Longrightarrow> span p (unat n) \<inter> span q (unat k) = {}"
    unfolding allocator_ok_def by blast+
  have size: "db_size (?b n p) = n" by (simp add: db_size_def bytes_at_def)
  from x have mk: "tensor_make sh t device_cpu p n (Some ?r) = Inr x"
    by (simp add: tensor_fromDeviceBuffer_def db_data_def bindr_eq_Inr size)
  note m = tensor_make_Inr [OF mk]
  have ok: "view_ok (view_of_tensor x)"
    using m assms(3) A(2) by (simp add: view_ok_def view_of_tensor_def)
  have "sh_storageElementCount sh = sh_elementCount sh" by (rule shape_ok_contiguous_storage [OF assms(3,4)])
  then have "unat (tn_bytes x) \<le> unat n" using m(7,8) by simp
  then have within: "view_span (view_of_tensor x) \<subseteq> span p (unat n)"
    using span_mono by (simp add: view_span_def view_of_tensor_def m)
  then have "placed_in h1 (view_of_tensor x)"
    unfolding placed_in_def by (intro exI [of _ ?r] exI [of _ p] exI [of _ n]) (simp add: h1 new_block_def view_of_tensor_def m)
  moreover have "apart v (view_of_tensor x)" if "placed_in h v" for v
    using that within dis unfolding placed_in_def apart_def by blast
  ultimately show ?thesis using ok m by (simp add: fresh_tensor_def h1 new_block_def)
qed

lemma placed_mono: "placed_in h v \<Longrightarrow> set (ho_blocks h) \<subseteq> set (ho_blocks h1) \<Longrightarrow> placed_in h1 v"
  unfolding placed_in_def by blast

lemma fresh_placed: "fresh_tensor h sh t x h1 \<Longrightarrow> placed_in h v \<Longrightarrow> placed_in h1 v"
  by (erule placed_mono) (auto simp: fresh_tensor_def)

lemma fresh_host_ok: "fresh_tensor h sh t x h1 \<Longrightarrow> host_ok h \<Longrightarrow> host_ok h1"
  by (auto simp: fresh_tensor_def host_ok_def less_Suc_eq)

lemma fresh_released:
  assumes "fresh_tensor h sh t x h1" and "host_ok h" and "ho_blocks h2 = ho_blocks h1"
  shows "ho_blocks (release_block (the (tn_owner x)) h2) = ho_blocks h"
proof -
  have "filter (\<lambda>(r', _). r' \<noteq> ho_nextOwner h) (ho_blocks h) = ho_blocks h"
    using assms(2) by (intro filter_True) (auto simp: host_ok_def)
  with assms(1,3) show ?thesis by (auto simp: fresh_tensor_def release_block_def)
qed

lemma with_tensor_Inr:
  assumes "with_tensor new sh t body h = (Inr y, h')" and "allocator_ok new" and "shape_ok sh" and "isContiguous sh"
  obtains x h1 h2 where "fresh_tensor h sh t x h1" and "body x h1 = (Inr y, h2)" and "h' = release_block (the (tn_owner x)) h2"
proof -
  from assms(1) obtain x h1 where a: "allocateTensor new sh t h = (Inr x, h1)"
    and b: "apsnd (release_block (the (tn_owner x))) (body x h1) = (Inr y, h')"
    by (auto simp: with_tensor_def elim: bindp_cases)
  from b obtain h2 where "body x h1 = (Inr y, h2)" "h' = release_block (the (tn_owner x)) h2"
    by (cases "body x h1") auto
  with that allocate_fresh [OF a assms(2-4)] show ?thesis by blast
qed

end
