(* ===== verification/Weight_Map.thy ===== *)
theory Weight_Map
  imports Model_Types Tensor
begin

text \<open>
  \<^verbatim>\<open>src/models/ExpertWeightMap.cpp\<close> with \<^verbatim>\<open>TensorMetadata.hpp\<close>: where the three projections of each expert are in the checkpoint, and
  their views in the payload of a resident expert. The lemmas show what a lookup finds, and that the views
  lie in the payload at the place the metadata says.
\<close>

record tensor_metadata =
  md_name :: string
  md_shape :: shape
  md_dtype :: u32
  md_quantizedDType :: "u32 option"
  md_offset :: u64
  md_size :: u64
  md_layerId :: u32
  md_expertId :: "u32 option"
  md_quantizationParameters :: "quantization_parameters option"

definition md_isQuantized :: "tensor_metadata \<Rightarrow> bool" where
  "md_isQuantized t \<longleftrightarrow> md_quantizedDType t \<noteq> None \<or> md_quantizationParameters t \<noteq> None"

datatype weight_type = GATE | UP | DOWN

record weight_binding =
  wb_layerId :: u32
  wb_expertId :: u32
  wb_gate :: "tensor_metadata option"
  wb_up :: "tensor_metadata option"
  wb_down :: "tensor_metadata option"

type_synonym weight_map = "(u64 \<times> weight_binding) list"

definition wb_complete :: "weight_binding \<Rightarrow> bool" where
  "wb_complete b \<longleftrightarrow> wb_gate b \<noteq> None \<and> wb_up b \<noteq> None \<and> wb_down b \<noteq> None"

fun projection_of :: "weight_type \<Rightarrow> weight_binding \<Rightarrow> tensor_metadata option" where
  "projection_of GATE b = wb_gate b"
| "projection_of UP b = wb_up b"
| "projection_of DOWN b = wb_down b"

fun set_projection :: "weight_type \<Rightarrow> tensor_metadata \<Rightarrow> weight_binding \<Rightarrow> weight_binding" where
  "set_projection GATE t b = b\<lparr> wb_gate := Some t \<rparr>"
| "set_projection UP t b = b\<lparr> wb_up := Some t \<rparr>"
| "set_projection DOWN t b = b\<lparr> wb_down := Some t \<rparr>"

definition wm_binding :: "u32 \<Rightarrow> u32 \<Rightarrow> weight_map \<Rightarrow> weight_binding" where
  "wm_binding layerId expertId m = (case map_of m (key layerId expertId) of
     Some b \<Rightarrow> b\<lparr> wb_layerId := layerId, wb_expertId := expertId \<rparr>
   | None \<Rightarrow> \<lparr> wb_layerId = layerId, wb_expertId = expertId, wb_gate = None, wb_up = None, wb_down = None \<rparr>)"

text \<open>The binding is in the map before the projection is looked at.\<close>

definition wm_add :: "u32 \<Rightarrow> u32 \<Rightarrow> weight_type \<Rightarrow> tensor_metadata \<Rightarrow> (weight_map, unit) prog" where
  "wm_add layerId expertId type t =
     thenp (require (md_layerId t = layerId \<and> md_expertId t = Some expertId)
       (InvalidArgument ''expert weight identity does not match mapping key''))
    (bindp (gets (wm_binding layerId expertId)) (\<lambda>b.
     thenp (modify (AList.update (key layerId expertId) b))
    (thenp (require (projection_of type b = None) (InvalidArgument ''duplicate expert projection''))
     (modify (AList.update (key layerId expertId) (set_projection type t b))))))"

definition wm_find :: "weight_map \<Rightarrow> u32 \<Rightarrow> u32 \<Rightarrow> weight_binding option" where
  "wm_find m layerId expertId = map_of m (key layerId expertId)"

definition wm_require :: "weight_map \<Rightarrow> u32 \<Rightarrow> u32 \<Rightarrow> exn + weight_binding" where
  "wm_require m layerId expertId = (case wm_find m layerId expertId of
     None \<Rightarrow> Inl (OutOfRange ''expert weight mapping not found'')
   | Some b \<Rightarrow> if \<not> wb_complete b then Inl (LogicError ''expert weight mapping is incomplete'') else Inr b)"

definition wm_entries :: "weight_map \<Rightarrow> weight_binding list" where
  "wm_entries m = sort_key (\<lambda>b. key (wb_layerId b) (wb_expertId b)) (map snd m)"

section \<open>Views of a payload\<close>

record expert_mlp_weights =
  ew_gate :: tensor_view
  ew_up :: tensor_view
  ew_down :: tensor_view
  ew_gateQuantization :: "quantization_parameters option"
  ew_upQuantization :: "quantization_parameters option"
  ew_downQuantization :: "quantization_parameters option"

definition check_quantization :: "tensor_metadata \<Rightarrow> exn + unit" where
  "check_quantization t =
     (if md_dtype t = dtype_code INT8
      then (if md_quantizedDType t \<noteq> Some quantized_INT8 then Inl (InvalidArgument ''INT8 expert projection is missing quantization metadata'')
        else (case md_quantizationParameters t of
            None \<Rightarrow> Inl (InvalidArgument ''INT8 expert projection is missing quantization metadata'')
          | Some q \<Rightarrow> validateParameters quantized_INT8 q))
      else throw_if (md_isQuantized t) (InvalidArgument ''quantization metadata does not match expert projection dtype''))"

definition payload_view :: "nat set \<Rightarrow> tensor_view \<Rightarrow> u64 \<Rightarrow> tensor_metadata \<Rightarrow> exn + tensor_view" where
  "payload_view alive payload payloadFileOffset t =
     andthen (check_quantization t)
    (andthen (throw_if (md_offset t < payloadFileOffset) (InvalidArgument ''tensor offset precedes expert payload''))
    (let elementBytes = sizeOf (md_dtype t) in
     andthen (throw_if (elementBytes = 0 \<or> sh_storageElementCount (md_shape t) > u64_max div elementBytes \<or>
         sh_storageElementCount (md_shape t) * elementBytes \<noteq> md_size t)
       (InvalidArgument ''tensor metadata size does not match shape and dtype''))
     (view_sliceBytes alive payload (md_offset t - payloadFileOffset) (md_shape t) (md_dtype t))))"

definition createViews :: "nat set \<Rightarrow> weight_map \<Rightarrow> u32 \<Rightarrow> u32 \<Rightarrow> tensor_view \<Rightarrow> u64 \<Rightarrow> exn + expert_mlp_weights" where
  "createViews alive m layerId expertId payload payloadFileOffset =
     bindr (wm_require m layerId expertId) (\<lambda>b.
     bindr (payload_view alive payload payloadFileOffset (the (wb_gate b))) (\<lambda>gate.
     bindr (payload_view alive payload payloadFileOffset (the (wb_up b))) (\<lambda>up.
     bindr (payload_view alive payload payloadFileOffset (the (wb_down b))) (\<lambda>down.
     Inr \<lparr> ew_gate = gate, ew_up = up, ew_down = down,
       ew_gateQuantization = md_quantizationParameters (the (wb_gate b)),
       ew_upQuantization = md_quantizationParameters (the (wb_up b)),
       ew_downQuantization = md_quantizationParameters (the (wb_down b)) \<rparr>))))"

section \<open>What a lookup finds\<close>

text \<open>Adding a projection succeeds exactly when it names its expert and the place is free; then the lookup of
  that expert finds it, and every other projection of every expert is as before, also when adding fails.\<close>

theorem weight_add_then_find:
  defines "proj \<equiv> \<lambda>m l e ty. Option.bind (wm_find m l e) (projection_of ty)"
  shows "case wm_add layerId expertId type t m of
      (Inr _, m') \<Rightarrow> md_layerId t = layerId \<and> md_expertId t = Some expertId \<and> proj m layerId expertId type = None \<and>
        proj m' l e ty = (if l = layerId \<and> e = expertId \<and> ty = type then Some t else proj m l e ty)
    | (Inl x, m') \<Rightarrow> \<not> (md_layerId t = layerId \<and> md_expertId t = Some expertId \<and> proj m layerId expertId type = None) \<and>
        proj m' l e ty = proj m l e ty"
  by (cases type; cases ty; cases "map_of m (key layerId expertId)")
    (auto simp: proj_def wm_add_def guard_runs wm_find_def wm_binding_def update_conv' split: if_splits)

section \<open>Where the views are\<close>

fun view_of :: "weight_type \<Rightarrow> expert_mlp_weights \<Rightarrow> tensor_view" where
  "view_of GATE w = ew_gate w"
| "view_of UP w = ew_up w"
| "view_of DOWN w = ew_down w"

definition view_at :: "tensor_view \<Rightarrow> u64 \<Rightarrow> tensor_metadata \<Rightarrow> tensor_view \<Rightarrow> bool" where
  "view_at payload payloadFileOffset t v \<longleftrightarrow> view_ok v \<and> view_within v payload \<and>
     payloadFileOffset \<le> md_offset t \<and>
     unat (tv_data v) = unat (tv_data payload) + (unat (md_offset t) - unat payloadFileOffset) \<and>
     unat (md_size t) = unat (sh_storageElementCount (md_shape t)) * unat (sizeOf (md_dtype t)) \<and>
     unat (tv_storageBytes v) = unat (md_size t) \<and>
     tv_shape v = md_shape t \<and> tv_dtype v = md_dtype t"

lemma payload_view_at:
  assumes "payload_view alive payload off t = Inr v" and "view_ok payload" and "shape_ok (md_shape t)"
  shows "view_at payload off t v"
proof -
  let ?n = "sh_storageElementCount (md_shape t)" and ?z = "sizeOf (md_dtype t)"
  from assms(1) have le: "off \<le> md_offset t" and z: "?z \<noteq> 0"
    and sz: "?n * ?z = md_size t"
    and sl: "view_sliceBytes alive payload (md_offset t - off) (md_shape t) (md_dtype t) = Inr v"
    by (simp_all add: payload_view_def throw_if_Inr andthen_Inr Let_def not_less)
  from sl obtain n where req: "tv_requiredBytes (md_shape t) (md_dtype t) = Inr n"
    and mk: "\<exists>mp. view_make alive (md_shape t) (md_dtype t) (tv_device payload)
      (tv_data payload + (md_offset t - off)) mp n (tv_lifetime payload) = Inr v"
    by (auto simp: view_sliceBytes_def bindr_eq_Inr split: if_splits)
  from mk obtain mp where m: "view_make alive (md_shape t) (md_dtype t) (tv_device payload)
      (tv_data payload + (md_offset t - off)) mp n (tv_lifetime payload) = Inr v" by blast
  have n: "unat n = unat ?n * unat ?z" using view_bytes_Inr [OF req [unfolded tv_requiredBytes_def]] by simp
  have m2: "md_size t = n" using sz req
    by (auto simp: tv_requiredBytes_def view_bytes_def split: if_splits)
  note s = view_sliceBytes_Inr [OF sl assms(2,3)]
  have d: "unat (md_offset t - off) = unat (md_offset t) - unat off" using le by (rule unat_sub)
  show ?thesis unfolding view_at_def
    using s(1,2,4) le n m2 d by (simp add: view_make_fields [OF m])
qed

text \<open>C39: When the views of an expert are made from the payload that holds it, with the shapes its
  metadata names well formed, the view of each projection starts at that projection's place in the
  checkpoint file taken relative to the payload's own offset, spans exactly the bytes the metadata gives,
  which are the storage of its shape, lies inside the payload, and has the shape and element type of
  the metadata.\<close>

theorem expert_views_in_payload:
  assumes "createViews alive m layerId expertId payload off = Inr w" and "view_ok payload"
    and "wm_find m layerId expertId = Some b" and "projection_of ty b = Some t" and "shape_ok (md_shape t)"
  shows "view_at payload off t (view_of ty w)"
proof -
  from assms(1,3) obtain g u d where
    "payload_view alive payload off (the (wb_gate b)) = Inr g" "ew_gate w = g"
    "payload_view alive payload off (the (wb_up b)) = Inr u" "ew_up w = u"
    "payload_view alive payload off (the (wb_down b)) = Inr d" "ew_down w = d"
    by (auto simp: createViews_def wm_require_def bindr_eq_Inr split: if_splits)
  then show ?thesis using payload_view_at [OF _ assms(2,5)] assms(4) by (cases ty) auto
qed

definition mapped_tensor :: "u64 \<Rightarrow> tensor_metadata" where
  "mapped_tensor off = \<lparr> md_name = ''w'', md_shape = shape_example 1, md_dtype = 0, md_quantizedDType = None,
     md_offset = off, md_size = 4, md_layerId = 0, md_expertId = Some 0, md_quantizationParameters = None \<rparr>"

definition mapped_example :: weight_binding where
  "mapped_example = \<lparr> wb_layerId = 0, wb_expertId = 0, wb_gate = Some (mapped_tensor 100),
     wb_up = Some (mapped_tensor 104), wb_down = Some (mapped_tensor 108) \<rparr>"

lemma mapped_example_views:
  "createViews {7} [(0, mapped_example)] 0 0 (view_example 64 3) 100 =
     Inr \<lparr> ew_gate = view_example 64 1, ew_up = view_example 68 1, ew_down = view_example 72 1,
       ew_gateQuantization = None, ew_upQuantization = None, ew_downQuantization = None \<rparr>"
  by (simp add: createViews_def wm_require_def wm_find_def wb_complete_def mapped_example_def mapped_tensor_def
      payload_view_def check_quantization_def md_isQuantized_def throw_if_def andthen_def
      key_def view_eval)

theorem expert_views_in_payload_witness:
  "view_at (view_example 64 3) 100 (mapped_tensor 108) (view_example 72 1)"
proof -
  have ok: "view_ok (view_example 64 3)"
    by (simp add: view_ok_def shape_ok_def view_example_def shape_example_def dtype_isValid_def sizeOf_def dtype_of_def)
  have sh: "shape_ok (md_shape (mapped_tensor 108))"
    by (simp add: shape_ok_def mapped_tensor_def shape_example_def)
  have f: "wm_find [(0, mapped_example)] 0 0 = Some mapped_example"
    "projection_of DOWN mapped_example = Some (mapped_tensor 108)"
    by (simp_all add: wm_find_def key_def mapped_example_def)
  from expert_views_in_payload [OF mapped_example_views ok f sh] show ?thesis by simp
qed

end
