(* ===== verification/Expert_Mlp.thy ===== *)
theory Expert_Mlp
  imports Cpu_Kernels Weight_Map
begin

text \<open>
  \<^verbatim>\<open>src/experts/ExpertExecutor.cpp\<close> on the host: one expert applied to a batch of rows. The lemmas show that it computes
  the gated product of the two projections, projected down, from the weights as floats or as quantized bytes, that its
  temporaries are given back, and that it disturbs no other view.
\<close>

definition valid_activation :: "nat set \<Rightarrow> device \<Rightarrow> tensor_view \<Rightarrow> bool" where
  "valid_activation alive d v \<longleftrightarrow> view_valid alive v \<and> tv_device v = d \<and> isContiguous (tv_shape v) \<and>
     tv_dtype v = dtype_code FP32 \<and> sh_rank (tv_shape v) = 2"

definition valid_weight :: "nat set \<Rightarrow> device \<Rightarrow> tensor_view \<Rightarrow> quantization_parameters option \<Rightarrow> exn + bool" where
  "valid_weight alive d v q =
     (if \<not> view_valid alive v \<or> tv_device v \<noteq> d \<or> \<not> isContiguous (tv_shape v) \<or> sh_rank (tv_shape v) \<noteq> 2 then Inr False
      else if tv_dtype v = dtype_code FP32 then Inr (q = None)
      else (case q of None \<Rightarrow> Inr False
        | Some p \<Rightarrow> if tv_dtype v \<noteq> dtype_code INT8 then Inr False
            else bindr (validateParameters quantized_INT8 p) (\<lambda>_. Inr True)))"

definition both :: "exn + bool \<Rightarrow> exn + bool \<Rightarrow> exn + bool" where
  "both a b = bindr a (\<lambda>x. if x then b else Inr False)"

definition mlp_check :: "nat set \<Rightarrow> device \<Rightarrow> tensor_view \<Rightarrow> expert_mlp_weights \<Rightarrow> tensor_view \<Rightarrow> exn + unit" where
  "mlp_check alive d input w out =
     andthen (throw_if (\<exists>v \<in> {input, ew_gate w, ew_up w, ew_down w, out}. view_lockOwner alive v = None)
       (InvalidArgument ''expert MLP received expired tensor storage''))
    (bindr (both (Inr (valid_activation alive d input))
       (both (valid_weight alive d (ew_gate w) (ew_gateQuantization w))
       (both (valid_weight alive d (ew_up w) (ew_upQuantization w))
       (both (valid_weight alive d (ew_down w) (ew_downQuantization w))
         (Inr (valid_activation alive d out \<and> view_writable alive out)))))) (\<lambda>valid.
     andthen (throw_if (\<not> valid) (InvalidArgument
       ''expert MLP requires FP32 activations and FP32 or metadata-backed INT8 weights on one backend''))
     (throw_if (sh_dimensions (tv_shape (ew_gate w)) \<noteq> sh_dimensions (tv_shape (ew_up w)) \<or>
         dimension input 1 \<noteq> dimension (ew_gate w) 0 \<or> dimension (ew_gate w) 1 \<noteq> dimension (ew_down w) 0 \<or>
         dimension input 0 \<noteq> dimension out 0 \<or> dimension (ew_down w) 1 \<noteq> dimension out 1)
       (InvalidArgument ''expert MLP projection dimensions are incompatible''))))"

text \<open>\<open>*quantization\<close> is only reached with a value: the checks came first.\<close>

definition project ::
  "float_unit \<Rightarrow> tensor_view \<Rightarrow> tensor_view \<Rightarrow> quantization_parameters option \<Rightarrow> tensor_view \<Rightarrow> (host, unit) prog" where
  "project fu source weight quantization destination =
     (if tv_dtype weight = dtype_code INT8 then matmulInt8Weights fu source weight (the quantization) destination
      else matmul fu source weight destination)"

definition outcome :: "exn + 'a \<Rightarrow> ('s, 'a) prog" where
  "outcome r = (\<lambda>s. (r, s))"

text \<open>The five kernels, over the input, the weights, the output and four temporaries.\<close>

definition mlp_kernels ::
  "float_unit \<Rightarrow> u32 \<Rightarrow> tensor_view \<Rightarrow> expert_mlp_weights \<Rightarrow> tensor_view \<Rightarrow> tensor_view \<Rightarrow> tensor_view \<Rightarrow> tensor_view \<Rightarrow> tensor_view \<Rightarrow>
    (host, unit) prog" where
  "mlp_kernels fu activation input w out gate up activated gated =
     thenp (project fu input (ew_gate w) (ew_gateQuantization w) gate)
    (thenp (project fu input (ew_up w) (ew_upQuantization w) up)
    (thenp (activation_apply fu activation gate activated)
    (thenp (cpu_mul fu activated up gated)
     (project fu gated (ew_down w) (ew_downQuantization w) out))))"

definition mlp_execute :: "allocator \<Rightarrow> float_unit \<Rightarrow> u32 \<Rightarrow> tensor_view \<Rightarrow> expert_mlp_weights \<Rightarrow> tensor_view \<Rightarrow> (host, unit) prog" where
  "mlp_execute new fu activation input w out =
     thenp (\<lambda>h. (mlp_check (owners h) device_cpu input w out, h))
    (bindp (outcome (shape_make [dimension input 0, dimension (ew_gate w) 1])) (\<lambda>intermediateShape.
     with_tensor new intermediateShape (dtype_code FP32) (\<lambda>gate.
     with_tensor new intermediateShape (dtype_code FP32) (\<lambda>up.
     with_tensor new intermediateShape (dtype_code FP32) (\<lambda>activated.
     with_tensor new intermediateShape (dtype_code FP32) (\<lambda>gated.
       mlp_kernels fu activation input w out (view_of_tensor gate) (view_of_tensor up) (view_of_tensor activated)
         (view_of_tensor gated)))))))"

definition matmul_execute :: "float_unit \<Rightarrow> tensor_view \<Rightarrow> tensor_view \<Rightarrow> tensor_view \<Rightarrow> (host, unit) prog" where
  "matmul_execute fu input expertWeights out = matmul fu input expertWeights out"

section \<open>What an expert computes\<close>

definition weight_values :: "float_unit \<Rightarrow> memory \<Rightarrow> tensor_view \<Rightarrow> quantization_parameters option \<Rightarrow> f32 list" where
  "weight_values fu m v q = (if tv_dtype v = dtype_code INT8 then int8_values fu (the q) m v else view_floats m v)"

definition expert_mlp :: "float_unit \<Rightarrow> u32 \<Rightarrow> nat \<Rightarrow> nat \<Rightarrow> nat \<Rightarrow> nat \<Rightarrow> f32 list \<Rightarrow> f32 list \<Rightarrow> f32 list \<Rightarrow> f32 list \<Rightarrow> f32 list" where
  "expert_mlp fu activation rows width hidden output x gate up down =
     mat_product fu rows hidden output
       (map2 (fu_mul fu) (map (activation_value fu activation) (mat_product fu rows width hidden x gate))
         (mat_product fu rows width hidden x up)) down"

lemma apart_sym: "apart v w \<longleftrightarrow> apart w v"
  by (auto simp: apart_def)

text \<open>Memory that agrees on a view gives the same floats and the same weights.\<close>

definition agree_on :: "tensor_view \<Rightarrow> host \<Rightarrow> host \<Rightarrow> bool" where
  "agree_on v h h' \<longleftrightarrow> (\<forall>x \<in> view_span v. ho_memory h' x = ho_memory h x)"

lemma agree_refl [simp]: "agree_on v h h"
  by (simp add: agree_on_def)

lemma agree_trans: "agree_on v h h' \<Longrightarrow> agree_on v h' h'' \<Longrightarrow> agree_on v h h''"
  by (simp add: agree_on_def)

lemma agree_same_memory: "ho_memory h' = ho_memory h \<Longrightarrow> agree_on v h h'"
  by (simp add: agree_on_def)

lemma computed_agree: "computed h out xs h' \<Longrightarrow> apart v out \<Longrightarrow> agree_on v h h'"
  unfolding computed_def apart_def agree_on_def by blast

lemma agree_floats:
  assumes "agree_on v h h'" and "view_ok v" and "tv_dtype v = dtype_code FP32"
  shows "view_floats (ho_memory h') v = view_floats (ho_memory h) v"
  unfolding view_floats_def using assms(1) float_view_bytes [OF assms(2,3)]
  by (intro floats_at_cong) (auto simp: agree_on_def view_span_def)

lemma agree_int8:
  assumes "agree_on v h h'" and "view_ok v" and "tv_dtype v = dtype_code INT8"
  shows "int8_values fu q (ho_memory h') v = int8_values fu q (ho_memory h) v"
proof -
  note b = int8_view_bytes [OF assms(2,3)]
  have "tv_data v + of_nat i \<in> view_span v" if "i < element_count v" for i
    using that b by (simp add: view_span_def span_def unat_of_nat)
  with assms(1) show ?thesis by (simp add: int8_values_def int8_operand_def agree_on_def)
qed

lemma agree_weights:
  "agree_on v h h' \<Longrightarrow> view_ok v \<Longrightarrow> tv_dtype v = dtype_code FP32 \<or> tv_dtype v = dtype_code INT8 \<Longrightarrow>
   weight_values fu (ho_memory h') v q = weight_values fu (ho_memory h) v q"
  by (auto simp: weight_values_def agree_floats agree_int8)

lemma project_computes:
  assumes "project fu s w q out h = (Inr (), h')" and "view_ok s" "view_ok w" "view_ok out" and "apart s out" "apart w out"
  shows "computed h out (mat_product fu (unat (dimension s 0)) (unat (dimension s 1)) (unat (dimension w 1))
      (view_floats (ho_memory h) s) (weight_values fu (ho_memory h) w q)) h'"
proof (cases "tv_dtype w = dtype_code INT8")
  case True
  with assms(1) have "matmulInt8Weights fu s w (the q) out h = (Inr (), h')" by (simp add: project_def)
  from matmulInt8_computes [OF this assms(2-6)] True show ?thesis by (simp only: weight_values_def simp_thms if_True)
next
  case False
  with assms(1) have "matmul fu s w out h = (Inr (), h')" by (simp add: project_def)
  from matmul_computes [OF this assms(2-6)] False show ?thesis by (simp only: weight_values_def simp_thms if_False)
qed

section \<open>An execution\<close>

lemma both_True: "both a b = Inr True \<longleftrightarrow> a = Inr True \<and> b = Inr True"
  by (auto simp: both_def bindr_eq_Inr)

lemma valid_weight_type: "valid_weight alive d v q = Inr True \<Longrightarrow> tv_dtype v = dtype_code FP32 \<or> tv_dtype v = dtype_code INT8"
  by (auto simp: valid_weight_def split: if_splits option.splits)

lemma mlp_checked:
  assumes "mlp_check alive d input w out = Inr ()"
  shows "tv_dtype input = dtype_code FP32" "tv_dtype out = dtype_code FP32"
    and "tv_dtype (ew_gate w) = dtype_code FP32 \<or> tv_dtype (ew_gate w) = dtype_code INT8"
    and "tv_dtype (ew_up w) = dtype_code FP32 \<or> tv_dtype (ew_up w) = dtype_code INT8"
    and "tv_dtype (ew_down w) = dtype_code FP32 \<or> tv_dtype (ew_down w) = dtype_code INT8"
    and "dimension (ew_up w) 1 = dimension (ew_gate w) 1"
  using assms unfolding mlp_check_def
  by (auto simp: bindr_eq_Inr both_True valid_activation_def dimension_def dest!: valid_weight_type split: if_splits)

lemma mlp_kernels_compute:
  assumes run: "mlp_kernels fu activation input w out g u a d k0 = (Inr (), k5)"
    and ok: "view_ok input" "view_ok (ew_gate w)" "view_ok (ew_up w)" "view_ok (ew_down w)" "view_ok out"
      "view_ok g" "view_ok u" "view_ok a" "view_ok d"
    and t: "tv_dtype input = dtype_code FP32" "tv_dtype g = dtype_code FP32" "tv_dtype u = dtype_code FP32"
      "tv_dtype a = dtype_code FP32" "tv_dtype d = dtype_code FP32"
    and wt: "tv_dtype (ew_up w) = dtype_code FP32 \<or> tv_dtype (ew_up w) = dtype_code INT8"
      "tv_dtype (ew_down w) = dtype_code FP32 \<or> tv_dtype (ew_down w) = dtype_code INT8"
    and dims: "dimension (ew_up w) 1 = dimension (ew_gate w) 1" "dimension d 0 = dimension input 0" "dimension d 1 = dimension (ew_gate w) 1"
    and all: "\<forall>v \<in> {input, ew_gate w, ew_up w, ew_down w, out}. \<forall>x \<in> {g, u, a, d}. apart v x"
    and pairs: "apart g u" "apart g a" "apart g d" "apart u a" "apart u d" "apart a d"
    and outs: "apart (ew_down w) out"
  shows "view_floats (ho_memory k5) out = expert_mlp fu activation (unat (dimension input 0)) (unat (dimension input 1))
      (unat (dimension (ew_gate w) 1)) (unat (dimension (ew_down w) 1)) (view_floats (ho_memory k0) input)
      (weight_values fu (ho_memory k0) (ew_gate w) (ew_gateQuantization w)) (weight_values fu (ho_memory k0) (ew_up w) (ew_upQuantization w))
      (weight_values fu (ho_memory k0) (ew_down w) (ew_downQuantization w))"
    and "ho_blocks k5 = ho_blocks k0"
    and "\<And>v. \<forall>x \<in> {g, u, a, d, out}. apart v x \<Longrightarrow> agree_on v k0 k5"
proof -
  note temps = bspec [OF bspec [OF all]]
  let ?R = "unat (dimension input 0)" and ?W = "unat (dimension input 1)" and ?F = "unat (dimension (ew_gate w) 1)"
  let ?x = "view_floats (ho_memory k0) input"
  let ?G = "weight_values fu (ho_memory k0) (ew_gate w) (ew_gateQuantization w)"
  let ?U = "weight_values fu (ho_memory k0) (ew_up w) (ew_upQuantization w)"
  let ?D = "weight_values fu (ho_memory k0) (ew_down w) (ew_downQuantization w)"
  from run obtain k1 k2 k3 k4 where run:
    "project fu input (ew_gate w) (ew_gateQuantization w) g k0 = (Inr (), k1)"
    "project fu input (ew_up w) (ew_upQuantization w) u k1 = (Inr (), k2)"
    "activation_apply fu activation g a k2 = (Inr (), k3)" "cpu_mul fu a u d k3 = (Inr (), k4)"
    "project fu d (ew_down w) (ew_downQuantization w) out k4 = (Inr (), k5)"
    unfolding mlp_kernels_def by (auto elim!: thenp_cases)
  have c1: "computed k0 g (mat_product fu ?R ?W ?F ?x ?G) k1"
    by (rule project_computes [OF run(1) ok(1,2,6)]) (rule temps; simp)+
  have g1: "view_floats (ho_memory k1) g = mat_product fu ?R ?W ?F ?x ?G" using c1 by (simp add: computed_def)
  have in1: "agree_on input k0 k1" "agree_on (ew_up w) k0 k1" "agree_on (ew_down w) k0 k1"
    by (rule computed_agree [OF c1], rule temps; simp)+
  have c2: "computed k1 u (mat_product fu ?R ?W ?F ?x ?U) k2"
    using project_computes [OF run(2) ok(1,3,7)] temps agree_floats [OF in1(1) ok(1) t(1)] agree_weights [OF in1(2) ok(3) wt(1)] dims(1)
    by simp
  have g2: "view_floats (ho_memory k2) g = mat_product fu ?R ?W ?F ?x ?G"
    using agree_floats [OF computed_agree [OF c2 pairs(1)] ok(6) t(2)] g1 by simp
  have c3: "computed k2 a (map (activation_value fu activation) (mat_product fu ?R ?W ?F ?x ?G)) k3"
    using activation_computes [OF run(3) ok(6,8)] pairs(2) g2 by (simp add: in_place_or_apart_def)
  have u3: "view_floats (ho_memory k3) u = mat_product fu ?R ?W ?F ?x ?U"
    using agree_floats [OF computed_agree [OF c3 pairs(4)] ok(7) t(3)] c2 by (simp add: computed_def)
  let ?gated = "map2 (fu_mul fu) (map (activation_value fu activation) (mat_product fu ?R ?W ?F ?x ?G)) (mat_product fu ?R ?W ?F ?x ?U)"
  have c4: "computed k3 d ?gated k4"
    using elementwise_computes [OF run(4) [unfolded cpu_mul_def] ok(8,7,9)] pairs(5,6) u3 c3
    by (simp add: in_place_or_apart_def computed_def)
  have down: "agree_on (ew_down w) k0 k4"
    using in1(3) computed_agree [OF c2] computed_agree [OF c3] computed_agree [OF c4] temps agree_trans by (metis insertCI)
  have "apart d out" using temps [of out d] by (simp add: apart_sym)
  from project_computes [OF run(5) ok(9,4,5) this outs]
  have c5: "computed k4 out (mat_product fu ?R ?F (unat (dimension (ew_down w) 1)) ?gated ?D) k5"
    using c4 agree_weights [OF down ok(4) wt(2)] dims(2,3) by (simp add: computed_def)
  then show "view_floats (ho_memory k5) out = expert_mlp fu activation ?R ?W ?F (unat (dimension (ew_down w) 1)) ?x ?G ?U ?D"
    by (simp add: computed_def expert_mlp_def)
  show "ho_blocks k5 = ho_blocks k0" using c1 c2 c3 c4 c5 by (simp add: computed_def)
  show "agree_on v k0 k5" if "\<forall>x \<in> {g, u, a, d, out}. apart v x" for v
    using computed_agree [OF c1] computed_agree [OF c2] computed_agree [OF c3] computed_agree [OF c4] computed_agree [OF c5] that agree_trans
    by (metis insertCI)
qed

lemma fresh_fields:
  assumes "fresh_tensor h sh t x h1"
  shows "view_ok (view_of_tensor x)" "tv_shape (view_of_tensor x) = sh" "tv_dtype (view_of_tensor x) = t"
    "placed_in h1 (view_of_tensor x)" "ho_memory h1 = ho_memory h" "\<And>v. placed_in h v \<Longrightarrow> apart v (view_of_tensor x)"
proof -
  have "tv_shape (view_of_tensor x) = tn_shape x" "tv_dtype (view_of_tensor x) = tn_dtype x" by (simp_all add: view_of_tensor_def)
  with assms show "view_ok (view_of_tensor x)" "tv_shape (view_of_tensor x) = sh" "tv_dtype (view_of_tensor x) = t"
    "placed_in h1 (view_of_tensor x)" "ho_memory h1 = ho_memory h" "\<And>v. placed_in h v \<Longrightarrow> apart v (view_of_tensor x)"
    by (simp_all add: fresh_tensor_def)
qed

lemma release_memory [simp]: "ho_memory (release_block r h) = ho_memory h"
  by (simp add: release_block_def)

text \<open>C40: When an expert has been applied, on a host whose allocator hands out blocks apart from the live ones and with views
  of live blocks, the output holds the gated MLP of the input: the activation of the first projection times the second,
  projected down, with weights read as floats or as quantized bytes. No block is left over, and no byte of a live view apart
  from the output has changed.\<close>

theorem expert_computes_mlp:
  assumes run: "mlp_execute new fu activation input w out h = (Inr (), h')" and "allocator_ok new" and "host_ok h"
    and ok: "\<forall>v \<in> {input, ew_gate w, ew_up w, ew_down w, out}. view_ok v \<and> placed_in h v" and outs: "apart (ew_down w) out"
  defines "m \<equiv> ho_memory h"
  shows "view_floats (ho_memory h') out = expert_mlp fu activation (unat (dimension input 0)) (unat (dimension input 1))
      (unat (dimension (ew_gate w) 1)) (unat (dimension (ew_down w) 1)) (view_floats m input)
      (weight_values fu m (ew_gate w) (ew_gateQuantization w)) (weight_values fu m (ew_up w) (ew_upQuantization w))
      (weight_values fu m (ew_down w) (ew_downQuantization w)) \<and>
    ho_blocks h' = ho_blocks h \<and>
    (\<forall>v x. placed_in h v \<longrightarrow> apart v out \<longrightarrow> x \<in> view_span v \<longrightarrow> ho_memory h' x = m x)"
proof -
  from run obtain sh where check: "mlp_check (owners h) device_cpu input w out = Inr ()"
    and sh: "shape_make [dimension input 0, dimension (ew_gate w) 1] = Inr sh"
    and run: "with_tensor new sh (dtype_code FP32) (\<lambda>gate. with_tensor new sh (dtype_code FP32) (\<lambda>up.
      with_tensor new sh (dtype_code FP32) (\<lambda>activated. with_tensor new sh (dtype_code FP32) (\<lambda>gated.
        mlp_kernels fu activation input w out (view_of_tensor gate) (view_of_tensor up) (view_of_tensor activated)
          (view_of_tensor gated))))) h = (Inr (), h')"
    unfolding mlp_execute_def outcome_def by (auto elim!: thenp_cases bindp_cases)
  note s = shape_make_ok [OF sh] note c = mlp_checked [OF check]
  from with_tensor_Inr [OF run assms(2) s(1,2)] obtain g h1 e1 where g: "fresh_tensor h sh (dtype_code FP32) g h1" and
    run: "with_tensor new sh (dtype_code FP32) (\<lambda>up.
      with_tensor new sh (dtype_code FP32) (\<lambda>activated. with_tensor new sh (dtype_code FP32) (\<lambda>gated.
        mlp_kernels fu activation input w out (view_of_tensor g) (view_of_tensor up) (view_of_tensor activated)
          (view_of_tensor gated)))) h1 = (Inr (), e1)" and e1: "h' = release_block (the (tn_owner g)) e1" by metis
  from with_tensor_Inr [OF run assms(2) s(1,2)] obtain u h2 e2 where u: "fresh_tensor h1 sh (dtype_code FP32) u h2" and
    run: "with_tensor new sh (dtype_code FP32) (\<lambda>activated. with_tensor new sh (dtype_code FP32) (\<lambda>gated.
        mlp_kernels fu activation input w out (view_of_tensor g) (view_of_tensor u) (view_of_tensor activated)
          (view_of_tensor gated))) h2 = (Inr (), e2)" and e2: "e1 = release_block (the (tn_owner u)) e2" by metis
  from with_tensor_Inr [OF run assms(2) s(1,2)] obtain a h3 e3 where a: "fresh_tensor h2 sh (dtype_code FP32) a h3" and
    run: "with_tensor new sh (dtype_code FP32) (\<lambda>gated.
        mlp_kernels fu activation input w out (view_of_tensor g) (view_of_tensor u) (view_of_tensor a)
          (view_of_tensor gated)) h3 = (Inr (), e3)" and e3: "e2 = release_block (the (tn_owner a)) e3" by metis
  from with_tensor_Inr [OF run assms(2) s(1,2)] obtain d h4 e4 where d: "fresh_tensor h3 sh (dtype_code FP32) d h4" and
    run: "mlp_kernels fu activation input w out (view_of_tensor g) (view_of_tensor u) (view_of_tensor a) (view_of_tensor d) h4 = (Inr (), e4)"
    and e4: "e3 = release_block (the (tn_owner d)) e4" by metis
  note G = fresh_fields [OF g] note U = fresh_fields [OF u] note A = fresh_fields [OF a] note D = fresh_fields [OF d]
  have temps: "apart v x"
    if "placed_in h v" "x \<in> {view_of_tensor g, view_of_tensor u, view_of_tensor a, view_of_tensor d}" for v x
    using that G(6) U(6) A(6) D(6) fresh_placed [OF g] fresh_placed [OF u] fresh_placed [OF a] by blast
  have pairs: "apart (view_of_tensor g) (view_of_tensor u)" "apart (view_of_tensor g) (view_of_tensor a)"
    "apart (view_of_tensor g) (view_of_tensor d)" "apart (view_of_tensor u) (view_of_tensor a)"
    "apart (view_of_tensor u) (view_of_tensor d)" "apart (view_of_tensor a) (view_of_tensor d)"
    using G(4) U(4) A(4) U(6) A(6) D(6) fresh_placed [OF u] fresh_placed [OF a] by blast+
  have mem: "ho_memory h4 = m" using G(5) U(5) A(5) D(5) by (simp add: m_def)
  have dims: "dimension (view_of_tensor d) 0 = dimension input 0" "dimension (view_of_tensor d) 1 = dimension (ew_gate w) 1"
    unfolding dimension_def [of "view_of_tensor d"] D(2) s(3) by simp_all
  have oks: "view_ok input" "view_ok (ew_gate w)" "view_ok (ew_up w)" "view_ok (ew_down w)" "view_ok out" using ok by simp_all
  have t: "\<forall>v \<in> {input, ew_gate w, ew_up w, ew_down w, out}.
      \<forall>x \<in> {view_of_tensor g, view_of_tensor u, view_of_tensor a, view_of_tensor d}. apart v x"
    using ok temps by blast
  note K = mlp_kernels_compute [OF run oks G(1) U(1) A(1) D(1) c(1) G(3) U(3) A(3) D(3) c(4,5,6) dims t pairs outs]
  have okh: "host_ok h1" "host_ok h2" "host_ok h3"
    using fresh_host_ok [OF g assms(3)] fresh_host_ok [OF u] fresh_host_ok [OF a] by blast+
  have "ho_blocks h' = ho_blocks h"
    using fresh_released [OF d okh(3) K(2)] fresh_released [OF a okh(2)] fresh_released [OF u okh(1)] fresh_released [OF g assms(3)]
    by (simp add: e1 e2 e3 e4)
  moreover have last: "ho_memory h' = ho_memory e4" by (simp add: e1 e2 e3 e4)
  moreover have "ho_memory h' x = m x" if "placed_in h v" "apart v out" "x \<in> view_span v" for v x
  proof -
    have "\<forall>y \<in> {view_of_tensor g, view_of_tensor u, view_of_tensor a, view_of_tensor d, out}. apart v y"
      using temps [OF that(1)] that(2) by blast
    from K(3) [OF this] have "agree_on v h4 e4" .
    with that(3) show ?thesis by (simp add: agree_on_def last mem)
  qed
  ultimately show ?thesis using K(1) by (simp only: mem) blast
qed

section \<open>An example\<close>

definition example_allocator :: allocator where
  "example_allocator h n = (let p = 4096 + 64 * of_nat (ho_nextOwner h) :: u64 in
     if n \<le> 64 \<and> ho_nextOwner h < 1000 \<and> list_all (\<lambda>(r, q, k). unat q + unat k \<le> unat p) (ho_blocks h) then Inr p
     else Inl (RuntimeError ''out of memory''))"

lemma span_below: "unat q + unat k \<le> unat p \<Longrightarrow> unat p + unat n \<le> 2 ^ 64 \<Longrightarrow> span p (unat n) \<inter> span q (unat (k :: u64)) = {}"
proof (intro equals0I)
  fix x assume le: "unat q + unat k \<le> unat p" "unat p + unat n \<le> 2 ^ 64" and "x \<in> span p (unat n) \<inter> span q (unat k)"
  then have x: "unat (x - p) < unat n" "unat (x - q) < unat k" by (simp_all add: span_def)
  from x(1) le(2) have "unat (x - p) + unat p < 2 ^ LENGTH(64)" by simp
  then have "unat (x - p + p) = unat (x - p) + unat p" by (rule unat_add_lem [THEN iffD1])
  moreover have "unat p < 2 ^ LENGTH(64)" by (rule unsigned_less)
  with x(2) le have "unat (x - q) + unat q < 2 ^ LENGTH(64)" by simp
  then have "unat (x - q + q) = unat (x - q) + unat q" by (rule unat_add_lem [THEN iffD1])
  ultimately show False using x le(1) by simp
qed

lemma example_allocator_ok: "allocator_ok example_allocator"
  unfolding allocator_ok_def
proof (intro allI impI)
  fix h n p assume new: "example_allocator h n = Inr p" and n: "n \<noteq> 0"
  let ?o = "ho_nextOwner h"
  from new have p: "p = 4096 + 64 * of_nat ?o" and small: "unat n \<le> 64" "?o < 1000"
    and below: "list_all (\<lambda>(r, q, k). unat q + unat k \<le> unat p) (ho_blocks h)"
    by (auto simp: example_allocator_def Let_def word_le_nat_alt split: if_splits)
  have "p = of_nat (4096 + 64 * ?o)" by (simp add: p)
  then have up: "unat p = 4096 + 64 * ?o" using small(2) unat_of_nat_u64 [of "4096 + 64 * ?o"] by simp
  have "unat (p mod 64) = 0" using up by (simp add: unat_mod mod_add_right_eq)
  then have "p mod 64 = 0" by (simp add: unat_eq_0)
  moreover have "p \<noteq> 0" using up by auto
  moreover have fit: "unat p + unat n \<le> 2 ^ 64" using up small by simp
  moreover have "\<forall>(r, q, k) \<in> set (ho_blocks h). span p (unat n) \<inter> span q (unat k) = {}"
    using below span_below [OF _ fit] by (fastforce simp: list_all_iff)
  ultimately show "p \<noteq> 0 \<and> p mod 64 = 0 \<and> unat p + unat n \<le> 2 ^ 64 \<and>
      (\<forall>(r, q, k) \<in> set (ho_blocks h). span p (unat n) \<inter> span q (unat k) = {})" by blast
qed

definition example_shape :: shape where
  "example_shape = \<lparr> sh_dimensions = [1, 1], sh_strides = [1, 1], sh_elementCount = 1, sh_storageElementCount = 1 \<rparr>"

definition example_matrix :: "nat \<Rightarrow> u64 \<Rightarrow> tensor_view" where
  "example_matrix r p = \<lparr> tv_shape = example_shape, tv_dtype = 0, tv_device = device_cpu, tv_data = p, tv_mutableData = p,
     tv_bytes = 4, tv_storageBytes = 4, tv_lifetime = Some r \<rparr>"

definition example_expert :: expert_mlp_weights where
  "example_expert = \<lparr> ew_gate = example_matrix 1 128, ew_up = example_matrix 2 192, ew_down = example_matrix 3 256,
     ew_gateQuantization = None, ew_upQuantization = None, ew_downQuantization = None \<rparr>"

definition example_host :: host where
  "example_host = \<lparr> ho_memory = \<lambda>_. 0, ho_blocks = [(0, 64, 4), (1, 128, 4), (2, 192, 4), (3, 256, 4), (4, 320, 4)], ho_nextOwner = 5 \<rparr>"

definition example_unit :: float_unit where
  "example_unit = \<lparr> fu_add = (+), fu_mul = (*), fu_div = (div), fu_neg = uminus, fu_exp = id, fu_erf = id,
     fu_of_int = of_int, fu_of_fp = (\<lambda>_. 0) \<rparr>"

lemma example_kernel: "check (owners h) = Inr () \<Longrightarrow> \<exists>m. kernel check act h = (Inr (), h\<lparr> ho_memory := m \<rparr>)"
  by (auto simp: kernel_def)

lemma example_shape_made: "shape_make [1, 1] = Inr example_shape"
  by (simp add: shape_make_def validateAndCount_def count_dimension_def makeContiguousStrides_def example_shape_def bindr_def)

lemma example_allocates:
  assumes "ho_nextOwner h = n" and "5 \<le> n" "n < 9" and "list_all (\<lambda>(r, q, k). unat q + unat k \<le> 4096 + 64 * n) (ho_blocks h)"
  shows "allocateTensor example_allocator example_shape 0 h =
      (Inr \<lparr> tn_shape = example_shape, tn_dtype = 0, tn_device = device_cpu, tn_data = 4096 + 64 * of_nat n, tn_bytes = 4, tn_storageBytes = 4,
         tn_owner = Some n \<rparr>, new_block (4096 + 64 * of_nat n) 4 h)"
proof -
  have n: "n = 5 \<or> n = 6 \<or> n = 7 \<or> n = 8" using assms(2,3) by arith
  then show ?thesis using assms(1,4)
    by (elim disjE) (simp_all add: allocateTensor_def tensorStorageBytes_def example_shape_def sizeOf_def dtype_of_def throw_if_def andthen_def
        example_allocator_def tensor_fromDeviceBuffer_def db_data_def validateStorageMetadata_def device_cpu_def device_isValid_def
        alignmentOf_def device_mismatch_def cpu_device_backend_def tensor_make_def tn_logicalBytes_def tn_requiredBytes_def tensor_bytes_def
        db_size_def bytes_at_def dtype_isValid_def)
qed

lemmas example_views = example_matrix_def example_expert_def example_shape_def

lemma example_matmul:
  assumes "{r, t, z} \<subseteq> owners h" and "p \<noteq> 0" "q \<noteq> 0" "y \<noteq> 0" "p \<noteq> y" "q \<noteq> y"
  shows "\<exists>m. project fu (example_matrix r p) (example_matrix t q) None (example_matrix z y) h = (Inr (), h\<lparr> ho_memory := m \<rparr>)"
proof -
  have "matmul_check (owners h) ''CPU matmul'' (Inr ()) True ''CPU matmul requires contiguous rank-2 FP32 tensors''
      (example_matrix r p) (example_matrix t q) (example_matrix z y) = Inr ()"
    using assms by (simp add: matmul_check_def pin_def view_lockOwner_def expired_def validateCpuContiguous_def view_valid_def
        view_data_def view_writable_def isContiguous_def sh_rank_def dimension_def device_cpu_def example_views)
  then show ?thesis unfolding project_def matmul_def by (simp add: example_matrix_def) (rule example_kernel, simp)
qed

lemma example_pointwise:
  assumes "{r, t, z} \<subseteq> owners h" and "p \<noteq> 0" "q \<noteq> 0" "y \<noteq> 0"
  shows "\<exists>m. cpu_mul fu (example_matrix r p) (example_matrix t q) (example_matrix z y) h = (Inr (), h\<lparr> ho_memory := m \<rparr>)"
    and "\<exists>m. activation_apply fu 0 (example_matrix r p) (example_matrix z y) h = (Inr (), h\<lparr> ho_memory := m \<rparr>)"
  unfolding cpu_mul_def elementwise_def activation_apply_def using assms
  by (intro example_kernel; simp add: pin_def validateElementwise_def validateType_def activation_validate_def view_lockOwner_def expired_def
      validateCpuContiguous_def view_valid_def view_writable_def isContiguous_def device_cpu_def example_views)+

lemma owners_memory [simp]: "owners (h\<lparr> ho_memory := m \<rparr>) = owners h"
  by (simp add: owners_def)

lemma example_kernels:
  assumes "{0, 1, 2, 3, 4, 5, 6, 7, 8} \<subseteq> owners h"
  shows "\<exists>h'. mlp_kernels fu 0 (example_matrix 0 64) example_expert (example_matrix 4 320) (example_matrix 5 4416)
      (example_matrix 6 4480) (example_matrix 7 4544) (example_matrix 8 4608) h = (Inr (), h')"
proof -
  obtain m1 where 1: "project fu (example_matrix 0 64) (example_matrix 1 128) None (example_matrix 5 4416) h = (Inr (), h\<lparr> ho_memory := m1 \<rparr>)"
    using example_matmul [of 0 1 5 h 64 128 4416] assms by auto
  obtain m2 where 2: "project fu (example_matrix 0 64) (example_matrix 2 192) None (example_matrix 6 4480) (h\<lparr> ho_memory := m1 \<rparr>) =
      (Inr (), h\<lparr> ho_memory := m2 \<rparr>)" using example_matmul [of 0 2 6 "h\<lparr> ho_memory := m1 \<rparr>" 64 192 4480] assms by auto
  obtain m3 where 3: "activation_apply fu 0 (example_matrix 5 4416) (example_matrix 7 4544) (h\<lparr> ho_memory := m2 \<rparr>) =
      (Inr (), h\<lparr> ho_memory := m3 \<rparr>)" using example_pointwise(2) [of 5 5 7 "h\<lparr> ho_memory := m2 \<rparr>" 4416 4416 4544] assms by auto
  obtain m4 where 4: "cpu_mul fu (example_matrix 7 4544) (example_matrix 6 4480) (example_matrix 8 4608) (h\<lparr> ho_memory := m3 \<rparr>) =
      (Inr (), h\<lparr> ho_memory := m4 \<rparr>)" using example_pointwise(1) [of 7 6 8 "h\<lparr> ho_memory := m3 \<rparr>" 4544 4480 4608] assms by auto
  obtain m5 where 5: "project fu (example_matrix 8 4608) (example_matrix 3 256) None (example_matrix 4 320) (h\<lparr> ho_memory := m4 \<rparr>) =
      (Inr (), h\<lparr> ho_memory := m5 \<rparr>)" using example_matmul [of 8 3 4 "h\<lparr> ho_memory := m4 \<rparr>" 4608 256 320] assms by auto
  note runs = 1 [unfolded One_nat_def] 2 3 4 5
  show ?thesis by (simp add: mlp_kernels_def example_expert_def runs)
qed

definition example_temporary :: "nat \<Rightarrow> tensor" where
  "example_temporary n = \<lparr> tn_shape = example_shape, tn_dtype = 0, tn_device = device_cpu, tn_data = 4096 + 64 * of_nat n, tn_bytes = 4,
     tn_storageBytes = 4, tn_owner = Some n \<rparr>"

lemma example_with:
  assumes "ho_nextOwner h = n" and "5 \<le> n" "n < 9" and "list_all (\<lambda>(r, q, k). unat q + unat k \<le> 4096 + 64 * n) (ho_blocks h)"
    and "\<exists>h2. body (example_temporary n) (new_block (4096 + 64 * of_nat n) 4 h) = (Inr (), h2)"
  shows "\<exists>h2. with_tensor example_allocator example_shape 0 body h = (Inr (), h2)"
  using example_allocates [OF assms(1-4)] assms(5) by (auto simp: with_tensor_def example_temporary_def)

lemma example_runs: "\<exists>h'. mlp_execute example_allocator fu 0 (example_matrix 0 64) example_expert (example_matrix 4 320) example_host = (Inr (), h')"
proof -
  have fine: "mlp_check (owners example_host) device_cpu (example_matrix 0 64) example_expert (example_matrix 4 320) = Inr ()"
    by (simp add: mlp_check_def owners_def example_host_def example_views throw_if_def andthen_def view_lockOwner_def expired_def both_def
        valid_activation_def valid_weight_def view_valid_def view_writable_def isContiguous_def sh_rank_def dimension_def device_cpu_def)
  have sh: "shape_make [dimension (example_matrix 0 64) 0, dimension (ew_gate example_expert) 1] = Inr example_shape"
    using example_shape_made by (simp add: dimension_def example_matrix_def example_expert_def) (simp add: example_shape_def)
  have views: "view_of_tensor (example_temporary 5) = example_matrix 5 4416" "view_of_tensor (example_temporary 6) = example_matrix 6 4480"
    "view_of_tensor (example_temporary 7) = example_matrix 7 4544" "view_of_tensor (example_temporary 8) = example_matrix 8 4608"
    by (simp_all add: view_of_tensor_def example_temporary_def example_matrix_def)
  have "\<exists>h'. with_tensor example_allocator example_shape 0 (\<lambda>gate. with_tensor example_allocator example_shape 0 (\<lambda>up.
      with_tensor example_allocator example_shape 0 (\<lambda>activated. with_tensor example_allocator example_shape 0 (\<lambda>gated.
        mlp_kernels fu 0 (example_matrix 0 64) example_expert (example_matrix 4 320) (view_of_tensor gate) (view_of_tensor up)
          (view_of_tensor activated) (view_of_tensor gated))))) example_host = (Inr (), h')"
    by (rule example_with [where n = 5], simp_all add: example_host_def new_block_def,
        rule example_with [where n = 6], simp_all add: new_block_def, rule example_with [where n = 7], simp_all add: new_block_def,
        rule example_with [where n = 8], simp_all add: new_block_def views) (rule example_kernels, simp add: owners_def)
  then show ?thesis by (simp add: mlp_execute_def outcome_def fine sh [unfolded One_nat_def] thenp_def bindp_def)
qed

theorem expert_computes_mlp_witness:
  "\<exists>h'. mlp_execute example_allocator example_unit 0 (example_matrix 0 64) example_expert (example_matrix 4 320) example_host = (Inr (), h') \<and>
     ho_blocks h' = ho_blocks example_host"
proof -
  obtain h' where run: "mlp_execute example_allocator example_unit 0 (example_matrix 0 64) example_expert (example_matrix 4 320) example_host =
    (Inr (), h')" using example_runs by blast
  have ok: "view_ok (example_matrix r p)" if "unat p + 4 \<le> 2 ^ 64" for r p
    using that by (simp add: view_ok_def shape_ok_def example_views dtype_isValid_def dtype_of_def sizeOf_def product_def)
  have placed: "placed_in example_host (example_matrix r p)" if "(r, p, 4) \<in> set (ho_blocks example_host)" for r p
    using that unfolding placed_in_def by (intro exI [of _ r] exI [of _ p] exI [of _ 4]) (simp add: example_matrix_def view_span_def)
  have views: "\<forall>v \<in> {example_matrix 0 64, ew_gate example_expert, ew_up example_expert, ew_down example_expert, example_matrix 4 320}.
      view_ok v \<and> placed_in example_host v"
    using ok placed by (simp add: example_expert_def example_host_def)
  have "span 320 (unat (4 :: u64)) \<inter> span 256 (unat (4 :: u64)) = {}" by (rule span_below) simp_all
  then have "apart (ew_down example_expert) (example_matrix 4 320)"
    by (auto simp: apart_def view_span_def example_expert_def example_matrix_def)
  from expert_computes_mlp [OF run example_allocator_ok _ views this] run show ?thesis
    by (auto simp: host_ok_def example_host_def)
qed

end
