(* ===== verification/Device_Budget.thy ===== *)
theory Device_Budget
  imports Model_Types
begin

text \<open>
  \<^verbatim>\<open>src/models/runtime/ExpertDeviceBudget.cpp\<close>: how many bytes of device memory the experts may use. The lemmas show that the
  plan leaves room for everything reserved, and that it takes as much as it can.
\<close>

record device_reservations =
  dr_kvCacheBytes :: u64
  dr_workspaceBytes :: u64
  dr_stagingPoolBytes :: u64
  dr_safetyBytes :: u64

record memory_info =
  mi_totalBytes :: u64
  mi_freeBytes :: u64

record device_budget =
  bp_automatic :: bool
  bp_configuredBytes :: u64
  bp_effectiveBytes :: u64
  bp_totalDeviceBytes :: u64
  bp_freeAfterStatic :: u64
  bp_staticTensorBytes :: u64
  bp_reservations :: device_reservations
  bp_transferAllowanceBytes :: u64
  bp_reservedBytes :: u64

definition defaultMaximumCachedBytes :: u64 where "defaultMaximumCachedBytes = 536870912"

definition checkedAdd :: "u64 \<Rightarrow> u64 \<Rightarrow> exn + u64" where
  "checkedAdd l r = (if r > u64_max - l then Inl (OverflowError ''expert device reservation accounting overflows'') else Inr (l + r))"

definition reserved_bytes :: "device_reservations \<Rightarrow> u64 \<Rightarrow> exn + u64" where
  "reserved_bytes r transferAllowance =
     bindr (checkedAdd (dr_kvCacheBytes r) (dr_workspaceBytes r)) (\<lambda>a.
     bindr (checkedAdd (dr_stagingPoolBytes r) (dr_safetyBytes r)) (\<lambda>b.
     bindr (checkedAdd b transferAllowance) (\<lambda>c. checkedAdd a c)))"

definition planExpertDeviceBudget ::
  "u64 \<Rightarrow> bool \<Rightarrow> memory_info \<Rightarrow> u64 \<Rightarrow> device_reservations \<Rightarrow> u64 \<Rightarrow> u64 \<Rightarrow> exn + device_budget" where
  "planExpertDeviceBudget configuredBytes automatic mem staticTensorBytes r largestExpertBytes transferAllowance =
     andthen (throw_if (configuredBytes = 0 \<or> largestExpertBytes = 0 \<or> mi_totalBytes mem = 0 \<or>
         mi_freeBytes mem > mi_totalBytes mem \<or> staticTensorBytes > mi_totalBytes mem)
       (InvalidArgument ''invalid GPU memory snapshot or expert device budget''))
    (let available = min (mi_freeBytes mem) (mi_totalBytes mem - staticTensorBytes);
         plan = \<lparr> bp_automatic = automatic, bp_configuredBytes = configuredBytes, bp_effectiveBytes = 0,
           bp_totalDeviceBytes = mi_totalBytes mem, bp_freeAfterStatic = mi_freeBytes mem, bp_staticTensorBytes = staticTensorBytes,
           bp_reservations = r, bp_transferAllowanceBytes = transferAllowance, bp_reservedBytes = 0 \<rparr>
     in bindr (if automatic
         then andthen (throw_if (dr_workspaceBytes r = 0 \<or> dr_safetyBytes r = 0 \<or> dr_stagingPoolBytes r < defaultMaximumCachedBytes)
             (InvalidArgument ''automatic expert budget requires workspace, safety, and the 512MiB transfer pool reservation''))
          (bindr (reserved_bytes r transferAllowance) (\<lambda>reserved.
           andthen (throw_if (reserved \<ge> available) (InvalidArgument ''GPU headroom reservations leave no memory for experts''))
           (Inr (plan\<lparr> bp_reservedBytes := reserved, bp_effectiveBytes := (available - reserved) div 256 * 256 \<rparr>))))
         else andthen (throw_if (configuredBytes > available)
             (InvalidArgument ''expert VRAM budget exceeds free device memory after static tensor loading''))
          (Inr (plan\<lparr> bp_effectiveBytes := configuredBytes \<rparr>)))
       (\<lambda>result. andthen (throw_if (bp_effectiveBytes result < largestExpertBytes)
           (InvalidArgument ''safe expert device budget cannot hold the largest indexed expert''))
         (Inr result)))"

lemma checkedAdd_Inr: "checkedAdd l r = Inr n \<Longrightarrow> unat n = unat l + unat r"
  using unat_add_within [of l u64_max r] by (auto simp: checkedAdd_def not_less add.commute split: if_splits)

lemma reserved_bytes_Inr:
  "reserved_bytes r t = Inr n \<Longrightarrow> unat n = unat (dr_kvCacheBytes r) + unat (dr_workspaceBytes r) + unat (dr_stagingPoolBytes r) +
     unat (dr_safetyBytes r) + unat t"
  by (auto simp: reserved_bytes_def bindr_eq_Inr dest!: checkedAdd_Inr)

lemma round_down:
  fixes x :: u64
  shows "unat (x div 256 * 256) = unat x div 256 * 256"
proof -
  have "unat x < 2 ^ 64" using unsigned_less [of x] by simp
  then have "unat x div 256 * 256 < 2 ^ 64" by (rule order.strict_trans1 [OF div_times_less_eq_dividend])
  then show ?thesis by (simp add: unat_mult_lem [THEN iffD1] unat_div)
qed

text \<open>C38: a plan that is granted holds the largest expert. An automatic plan is what \<^verbatim>\<open>docs/components/adaptive-residency.md\<close> says, the
  available memory less the exact sum of everything reserved, rounded down to a multiple of 256: it fits the available memory together
  with the reservations, and less than 256 bytes are left over. A manual plan is what was configured; it fits the available memory
  too, and takes no account of the reservations.\<close>

theorem device_budget_fits:
  assumes "planExpertDeviceBudget configured automatic mem static r largest allowance = Inr p"
  defines "available \<equiv> min (unat (mi_freeBytes mem)) (unat (mi_totalBytes mem) - unat static)"
    and "reserved \<equiv> unat (dr_kvCacheBytes r) + unat (dr_workspaceBytes r) + unat (dr_stagingPoolBytes r) + unat (dr_safetyBytes r) + unat allowance"
  shows "largest \<le> bp_effectiveBytes p \<and> largest \<noteq> 0 \<and>
    (if automatic
     then unat (bp_reservedBytes p) = reserved \<and> unat (bp_effectiveBytes p) = (available - reserved) div 256 * 256 \<and>
       256 dvd unat (bp_effectiveBytes p) \<and>
       unat (bp_effectiveBytes p) + reserved \<le> available \<and> available < unat (bp_effectiveBytes p) + reserved + 256
     else bp_effectiveBytes p = configured \<and> unat configured \<le> available)"
proof -
  from assms(1) have static: "static \<le> mi_totalBytes mem" and big: "largest \<le> bp_effectiveBytes p" "largest \<noteq> 0"
    by (auto simp: planExpertDeviceBudget_def Let_def bindr_eq_Inr not_less)
  let ?a = "min (mi_freeBytes mem) (mi_totalBytes mem - static)"
  have a: "unat ?a = available" using static by (simp add: available_def min_def word_le_nat_alt unat_sub)
  show ?thesis
  proof (cases automatic)
    case True
    with assms(1) obtain n where n: "reserved_bytes r allowance = Inr n" "\<not> n \<ge> ?a"
      and p: "bp_reservedBytes p = n" "bp_effectiveBytes p = (?a - n) div 256 * 256"
      by (auto simp: planExpertDeviceBudget_def Let_def bindr_eq_Inr)
    have r: "unat n = reserved" using reserved_bytes_Inr [OF n(1)] by (simp add: reserved_def)
    have less: "n < ?a" using n(2) by (simp add: not_le)
    then have "unat (?a - n) = unat ?a - unat n" by (rule unat_sub [OF order_less_imp_le])
    then have "unat (?a - n) = available - reserved" by (simp only: a r)
    moreover have "reserved < available" using less unfolding word_less_nat_alt a r .
    ultimately have "unat (bp_effectiveBytes p) = (available - reserved) div 256 * 256" "reserved < available"
      unfolding p(2) round_down by simp_all
    moreover have "(available - reserved) div 256 * 256 \<le> available - reserved"
      "available - reserved < (available - reserved) div 256 * 256 + 256"
      using mod_less_divisor [of 256 "available - reserved"] div_mult_mod_eq [of "available - reserved" 256] by linarith+
    ultimately show ?thesis using True big r p(1) \<open>reserved < available\<close> by auto
  next
    case False
    with assms(1) big a show ?thesis
      by (auto simp: planExpertDeviceBudget_def Let_def bindr_eq_Inr not_less word_le_nat_alt)
  qed
qed

theorem device_budget_fits_witness:
  "\<exists>p. planExpertDeviceBudget 1 True \<lparr> mi_totalBytes = 4000000000, mi_freeBytes = 3000000000 \<rparr> 500000000
       \<lparr> dr_kvCacheBytes = 268435456, dr_workspaceBytes = 536870912, dr_stagingPoolBytes = 536870912, dr_safetyBytes = 536870912 \<rparr> 1000 0 = Inr p \<and>
     256 dvd unat (bp_effectiveBytes p) \<and> (1000 :: u64) \<le> bp_effectiveBytes p"
proof -
  let ?plan = "planExpertDeviceBudget 1 True \<lparr> mi_totalBytes = 4000000000, mi_freeBytes = 3000000000 \<rparr> 500000000
       \<lparr> dr_kvCacheBytes = 268435456, dr_workspaceBytes = 536870912, dr_stagingPoolBytes = 536870912, dr_safetyBytes = 536870912 \<rparr> 1000 0"
  obtain p where p: "?plan = Inr p"
    by (simp add: planExpertDeviceBudget_def reserved_bytes_def checkedAdd_def Let_def defaultMaximumCachedBytes_def throw_if_def andthen_def)
  from device_budget_fits [OF p] p show ?thesis by auto
qed

end
