(* ===== verification/Precision.thy ===== *)
theory Precision
  imports Cpu_Kernels
begin

text \<open>
  \<^verbatim>\<open>src/tensor/precision/DTypeConverter.cpp\<close> with the host as destination: half-precision weights become floats. The
  conversion works on bit patterns; the lemmas compare the numbers the patterns stand for, and show that nothing is
  rounded: every finite half is a float of the same value, and infinities and NaNs stay what they are.
\<close>

unbundle bit_operations_syntax

type_synonym f16 = "16 word"

section \<open>Patterns and their numbers\<close>

text \<open>The number of a pattern \<open>n\<close> with \<open>eb\<close> exponent and \<open>fb\<close> fraction bits below the sign bit.\<close>

definition pattern_sign :: "nat \<Rightarrow> nat \<Rightarrow> nat \<Rightarrow> bool" where
  "pattern_sign eb fb n \<longleftrightarrow> n div 2 ^ (eb + fb) mod 2 = 1"

definition pattern_exponent :: "nat \<Rightarrow> nat \<Rightarrow> nat \<Rightarrow> nat" where
  "pattern_exponent eb fb n = n div 2 ^ fb mod 2 ^ eb"

definition pattern_magnitude :: "nat \<Rightarrow> nat \<Rightarrow> nat \<Rightarrow> real" where
  "pattern_magnitude eb fb n =
     (if pattern_exponent eb fb n = 0 then 2 * real (n mod 2 ^ fb)
      else real (2 ^ fb + n mod 2 ^ fb) * 2 ^ pattern_exponent eb fb n) / 2 ^ (2 ^ (eb - 1) - 1 + fb)"

definition pattern_fp :: "nat \<Rightarrow> nat \<Rightarrow> nat \<Rightarrow> fp" where
  "pattern_fp eb fb n =
     (if pattern_exponent eb fb n = 2 ^ eb - 1 then
        if n mod 2 ^ fb \<noteq> 0 then NaN else if pattern_sign eb fb n then NegInf else PosInf
      else Fin ((if pattern_sign eb fb n then - 1 else 1) * pattern_magnitude eb fb n))"

definition f32_fp :: "f32 \<Rightarrow> fp" where
  "f32_fp w = pattern_fp 8 23 (unat w)"

definition f16_fp :: "f16 \<Rightarrow> fp" where
  "f16_fp w = pattern_fp 5 10 (unat w)"

definition bf16_fp :: "f16 \<Rightarrow> fp" where
  "bf16_fp w = pattern_fp 8 7 (unat w)"

text \<open>The float \<open>\<plusminus>m * 2 ^ e\<close>, for the numbers the code builds with \<open>std::ldexp\<close>: integers below \<open>2 ^ 24\<close> scaled into
  the range of normal floats, which are floats and need no rounding.\<close>

function normalise :: "nat \<Rightarrow> int \<Rightarrow> nat \<times> int" where
  "normalise m e = (if m = 0 \<or> 2 ^ 23 \<le> m then (m, e) else normalise (2 * m) (e - 1))"
  by pat_completeness auto

termination
  by (relation "measure (\<lambda>(m, _). 2 ^ 23 - m)") auto

declare normalise.simps [simp del]

definition f32_zero :: "bool \<Rightarrow> f32" where
  "f32_zero neg = (if neg then 0x80000000 else 0)"

definition scaled :: "bool \<Rightarrow> nat \<Rightarrow> int \<Rightarrow> f32" where
  "scaled neg m e = (case normalise m e of (m', e') \<Rightarrow>
     of_nat ((if neg then 2 ^ 31 else 0) + nat (e' + 150) * 2 ^ 23 + (m' - 2 ^ 23)))"

section \<open>Conversion\<close>

definition fp16ToFloat :: "f16 \<Rightarrow> f32" where
  "fp16ToFloat v =
     (let negative = v AND 0x8000 \<noteq> 0; exponent = unat (drop_bit 10 v AND 0x1F); fraction = unat (v AND 0x03FF) in
      if exponent = 0 then if fraction = 0 then f32_zero negative else scaled negative fraction (- 24)
      else if exponent = 0x1F then
        if fraction = 0 then if negative then 0xFF800000 else 0x7F800000
        else if negative then 0xFFC00000 else 0x7FC00000
      else scaled negative (1024 + fraction) (int exponent - 15 - 10))"

definition bf16ToFloat :: "f16 \<Rightarrow> f32" where
  "bf16ToFloat v = push_bit 16 (ucast v)"

record execution_plan =
  pl_storageDType :: u32
  pl_executionDType :: u32
  pl_executionDevice :: device
  pl_conversionRequired :: bool
  pl_nativeExecution :: bool

definition selectExecutionPlan :: "u32 \<Rightarrow> device \<Rightarrow> exn + execution_plan" where
  "selectExecutionPlan storageType d =
     (if dv_ordinal d < 0 \<or> (dv_type d = device_CPU \<and> dv_ordinal d \<noteq> 0)
      then Inl (InvalidArgument ''precision plan execution device is invalid'')
      else case dtype_of storageType of
        Some FP32 \<Rightarrow> Inr \<lparr> pl_storageDType = storageType, pl_executionDType = dtype_code FP32, pl_executionDevice = d,
            pl_conversionRequired = False, pl_nativeExecution = True \<rparr>
      | Some INT8 \<Rightarrow> Inl (InvalidArgument ''INT8 execution requires an explicit quantization policy'')
      | Some _ \<Rightarrow> Inr \<lparr> pl_storageDType = storageType, pl_executionDType = dtype_code FP32, pl_executionDevice = d,
            pl_conversionRequired = True, pl_nativeExecution = False \<rparr>
      | None \<Rightarrow> Inl (InvalidArgument ''unsupported storage dtype''))"

definition half_at :: "byte list \<Rightarrow> nat \<Rightarrow> f16" where
  "half_at source index = combine_bytes 0 (take 2 (drop (index * 2) source)) 0"

definition f32_at :: "byte list \<Rightarrow> nat \<Rightarrow> f32" where
  "f32_at source index = combine_bytes 0 (take 4 (drop (index * 4) source)) 0"

definition toFp32 :: "byte list \<Rightarrow> u32 \<Rightarrow> exn + f32 list" where
  "toFp32 source sourceType =
     (let width = unat (sizeOf sourceType) in
      if width = 0 \<or> source = [] \<or> length source mod width \<noteq> 0
      then Inl (InvalidArgument ''dtype conversion source range is invalid'')
      else if sourceType = dtype_code INT8
      then Inl (InvalidArgument ''INT8 conversion requires quantization policy metadata'')
      else Inr (map (\<lambda>index. if sourceType = dtype_code FP32 then f32_at source index
           else if sourceType = dtype_code FP16 then fp16ToFloat (half_at source index) else bf16ToFloat (half_at source index))
         [0..<length source div width]))"

definition toFp32Tensor :: "allocator \<Rightarrow> tensor_view \<Rightarrow> (host, tensor) prog" where
  "toFp32Tensor new source = (\<lambda>h. let alive = owners h in
     case andthen (throw_if (view_lockOwner alive source = None \<or> \<not> view_valid alive source \<or> \<not> isContiguous (tv_shape source))
            (InvalidArgument ''reference dtype conversion requires a live contiguous tensor''))
       (bindr (selectExecutionPlan (tv_dtype source) device_cpu) (\<lambda>plan.
        andthen (throw_if (dv_type (tv_device source) = device_CUDA \<and> tv_device source \<noteq> device_cpu)
            (InvalidArgument ''CUDA dtype conversion requires its source backend as destination backend''))
       (bindr (toFp32 (bytes_at (ho_memory h) (view_data alive source) (unat (tv_bytes source))) (tv_dtype source)) (\<lambda>values.
        andthen (throw_if (length values \<noteq> element_count source)
            (InvalidArgument ''dtype conversion shape does not match storage''))
         (Inr (plan, values)))))) of
       Inl e \<Rightarrow> (Inl e, h)
     | Inr (plan, values) \<Rightarrow> bindp (allocateTensor new (tv_shape source) (pl_executionDType plan)) (\<lambda>output h1.
         (Inr output, h1\<lparr> ho_memory := fill (tn_data output) (\<lambda>_ i. values ! i) [0..<length values] (ho_memory h1) \<rparr>)) h)"

section \<open>Numbers are kept\<close>

text \<open>The numbers that are stored as bytes of a type.\<close>

definition stored_numbers :: "byte list \<Rightarrow> u32 \<Rightarrow> fp list" where
  "stored_numbers source t =
     map (\<lambda>i. if t = dtype_code FP32 then f32_fp (f32_at source i) else if t = dtype_code FP16 then f16_fp (half_at source i)
        else bf16_fp (half_at source i)) [0..<length source div unat (sizeOf t)]"

lemma normalise_scaled:
  assumes "0 < m" and "m < 2 ^ 24" and "normalise m e = (m', e')"
  shows "2 ^ 23 \<le> m'" and "m' < 2 ^ 24" and "e' \<le> e" and "real m' * 2 powi e' = real m * 2 powi e"
    and "2 ^ k \<le> m \<Longrightarrow> k \<le> 23 \<Longrightarrow> e - (23 - int k) \<le> e'"
  using assms
proof (induction m e arbitrary: k rule: normalise.induct)
  case (1 m e)
  have step: "2 powi e = 2 * (2 :: real) powi (e - 1)" by (simp add: power_int_diff)
  {
    case 1 then show ?case using "1.IH" by (cases "2 ^ 23 \<le> m") (simp_all add: normalise.simps [of m e])
  next
    case 2 then show ?case using "1.IH" by (cases "2 ^ 23 \<le> m") (simp_all add: normalise.simps [of m e])
  next
    case 3 then show ?case using "1.IH"(3) by (cases "2 ^ 23 \<le> m") (force simp: normalise.simps [of m e])+
  next
    case 4 then show ?case using "1.IH"(4) by (cases "2 ^ 23 \<le> m") (force simp: normalise.simps [of m e] step)+
  next
    case 5
    show ?case
    proof (cases "2 ^ 23 \<le> m")
      case True
      with 5 show ?thesis by (simp add: normalise.simps [of m e])
    next
      case False
      then have "k < 23" using 5(1) 5(2) by (cases "k = 23") auto
      then have "2 ^ Suc k \<le> 2 * m" "Suc k \<le> 23" using 5(1) by simp_all
      from "1.IH"(5) [OF _ this] False 5 show ?thesis by (force simp: normalise.simps [of m e])
    qed
  }
qed

lemma scaled_fp:
  assumes m: "0 < m" "m < 2 ^ 24" and k: "2 ^ k \<le> m" "k \<le> 23" and e: "- 126 \<le> e + int k" "e \<le> 104"
  shows "f32_fp (scaled neg m e) = Fin ((if neg then - 1 else 1) * (real m * 2 powi e))"
    and "pattern_sign 8 23 (unat (scaled neg m e)) = neg"
proof -
  obtain m' e' where n: "normalise m e = (m', e')" by (cases "normalise m e")
  note N = normalise_scaled [OF m n] normalise_scaled(5) [OF m n k]
  define E where "E = nat (e' + 150)"
  define F where "F = m' - 2 ^ 23"
  have bounds: "0 < E" "E < 255" "F < 2 ^ 23" and m': "m' = 2 ^ 23 + F" and e': "e' = int E - 150"
    using N e by (simp_all add: E_def F_def)
  let ?n = "(if neg then 2 ^ 31 else 0) + E * 2 ^ 23 + F"
  have "?n < 2 ^ LENGTH(32)" using bounds by (cases neg) simp_all
  moreover have "scaled neg m e = of_nat ?n" by (simp only: scaled_def n prod.case E_def F_def)
  ultimately have u: "unat (scaled neg m e) = ?n" by (simp only: unsigned_of_nat take_bit_nat_eq_self of_nat_id)
  have "(if neg then 2 ^ 31 else 0) + E * 2 ^ 23 + F = F + 2 ^ 23 * (E + (if neg then 2 ^ 8 else 0))" by simp
  then have d: "?n div 2 ^ 23 = E + (if neg then 2 ^ 8 else 0)" and f: "?n mod 2 ^ 23 = F" using bounds(3) by (simp_all del: power_numeral)
  have "?n div 2 ^ (8 + 23) = ?n div 2 ^ 23 div 2 ^ 8" by (simp add: div_mult2_eq)
  also have "\<dots> = (if neg then 1 else 0)" unfolding d using bounds by simp
  finally have "pattern_sign 8 23 ?n = neg" by (simp add: pattern_sign_def)
  moreover have x: "pattern_exponent 8 23 ?n = E" unfolding pattern_exponent_def d using bounds by simp
  moreover have "pattern_magnitude 8 23 ?n = real m' * 2 powi e'"
    unfolding pattern_magnitude_def x f using bounds(1) by (simp add: m' e' power_int_diff)
  ultimately show "f32_fp (scaled neg m e) = Fin ((if neg then - 1 else 1) * (real m * 2 powi e))"
    using bounds(2) N(4) by (simp add: f32_fp_def u pattern_fp_def)
  show "pattern_sign 8 23 (unat (scaled neg m e)) = neg" unfolding u by fact
qed

lemma half_fields:
  fixes v :: f16
  shows "(v AND 0x8000 \<noteq> 0) = pattern_sign 5 10 (unat v)"
    and "unat (drop_bit 10 v AND 0x1F) = pattern_exponent 5 10 (unat v)" and "unat (v AND 0x03FF) = unat v mod 2 ^ 10"
proof -
  have masks: "0x03FF = (mask 10 :: f16)" "0x1F = (mask 5 :: f16)" by (simp_all add: mask_eq_exp_minus_1)
  have low: "unat (w AND mask n) = unat w mod 2 ^ n" for w :: f16 and n
    by (simp only: unsigned_take_bit_eq flip: take_bit_eq_mask) (simp only: take_bit_eq_mod)
  show "unat (v AND 0x03FF) = unat v mod 2 ^ 10" unfolding masks low ..
  have "unat (drop_bit 10 v) = drop_bit 10 (unat v)"
    using take_bit_nat_eq_self [OF unsigned_less [of v]] by (simp add: unsigned_drop_bit_eq)
  then show "unat (drop_bit 10 v AND 0x1F) = pattern_exponent 5 10 (unat v)"
    unfolding masks low pattern_exponent_def by (simp only: drop_bit_eq_div)
  have "v AND 2 ^ 15 \<noteq> 0 \<longleftrightarrow> bit v 15" by (simp only: and_exp_eq_0_iff_not_bit not_not)
  also have "\<dots> \<longleftrightarrow> bit (unat v) 15" by (simp add: bit_unsigned_iff)
  finally show "(v AND 0x8000 \<noteq> 0) = pattern_sign 5 10 (unat v)"
    by (simp add: pattern_sign_def bit_iff_odd odd_iff_mod_2_eq_one)
qed

lemma fp16_exact: "f32_fp (fp16ToFloat v) = f16_fp v" and fp16_sign: "pattern_sign 8 23 (unat (fp16ToFloat v)) = pattern_sign 5 10 (unat v)"
proof -
  let ?s = "pattern_sign 5 10 (unat v)" and ?e = "pattern_exponent 5 10 (unat v)" and ?f = "unat v mod 2 ^ 10"
  have e: "?e < 2 ^ 5" by (simp add: pattern_exponent_def)
  have "f32_fp (fp16ToFloat v) = f16_fp v \<and> pattern_sign 8 23 (unat (fp16ToFloat v)) = ?s"
  proof (cases "?e = 0")
    case True
    show ?thesis
    proof (cases "?f = 0")
      case True
      with \<open>?e = 0\<close> show ?thesis
        by (simp add: fp16ToFloat_def half_fields f32_zero_def f32_fp_def f16_fp_def pattern_fp_def pattern_magnitude_def)
          (simp add: pattern_exponent_def pattern_sign_def)
    next
      case False
      have "?f < 2 ^ 10" by simp
      with False have "0 < ?f" "?f < 2 ^ 24" "2 ^ 0 \<le> ?f" by simp_all
      note S = scaled_fp [OF this(1-3), where e = "- 24" and neg = ?s, simplified]
      with \<open>?e = 0\<close> False show ?thesis
        by (simp add: fp16ToFloat_def half_fields f16_fp_def pattern_fp_def pattern_magnitude_def)
    qed
  next
    case False
    show ?thesis
    proof (cases "?e = 2 ^ 5 - 1")
      case True
      then show ?thesis
        by (simp add: fp16ToFloat_def half_fields f32_fp_def f16_fp_def pattern_fp_def) (simp add: pattern_exponent_def pattern_sign_def)
    next
      case False
      have "?f < 2 ^ 10" by simp
      then have "0 < 1024 + ?f" "1024 + ?f < 2 ^ 24" "2 ^ 10 \<le> 1024 + ?f" by simp_all
      note S = scaled_fp [OF this, where e = "int ?e - 15 - 10" and neg = ?s, simplified]
      moreover have "(2 :: real) powi (int ?e - 25) = 2 ^ ?e / 2 ^ 25" by (simp add: power_int_diff)
      ultimately show ?thesis using \<open>?e \<noteq> 0\<close> False e
        by (simp add: fp16ToFloat_def half_fields f16_fp_def pattern_fp_def pattern_magnitude_def)
    qed
  qed
  then show "f32_fp (fp16ToFloat v) = f16_fp v" "pattern_sign 8 23 (unat (fp16ToFloat v)) = ?s" by simp_all
qed

lemma bf16_exact: "f32_fp (bf16ToFloat v) = bf16_fp v"
proof -
  let ?n = "unat v"
  have lt: "?n < 2 ^ 16" using unsigned_less [of v] by simp
  have u: "unat (bf16ToFloat v) = ?n * 2 ^ 16"
  proof -
    have c: "unat (ucast v :: u32) = ?n" using lt by (simp add: unsigned_ucast_eq take_bit_nat_eq_self)
    have "?n * 2 ^ 16 < 2 ^ LENGTH(32)" using lt by simp
    then show ?thesis unfolding bf16ToFloat_def unsigned_push_bit_eq c unfolding push_bit_eq_mult by (rule take_bit_nat_eq_self)
  qed
  have d: "?n * 2 ^ 16 div 2 ^ 23 = ?n div 2 ^ 7" "?n * 2 ^ 16 div 2 ^ 31 = ?n div 2 ^ 15"
    using div_mult_mult2 [of "2 ^ 16" ?n "2 ^ 7"] div_mult_mult2 [of "2 ^ 16" ?n "2 ^ 15"] by simp_all
  have f: "?n * 2 ^ 16 mod 2 ^ 23 = (?n mod 2 ^ 7) * 2 ^ 16" using mult_mod_left [of ?n "2 ^ 7" "2 ^ 16"] by simp
  have "pattern_exponent 8 23 (?n * 2 ^ 16) = pattern_exponent 8 7 ?n" unfolding pattern_exponent_def d ..
  moreover have "pattern_sign 8 23 (?n * 2 ^ 16) = pattern_sign 8 7 ?n" using d(2) by (simp add: pattern_sign_def)
  moreover have "pattern_magnitude 8 23 (?n * 2 ^ 16) = pattern_magnitude 8 7 ?n"
    unfolding pattern_magnitude_def f using calculation(1) by simp
  ultimately show ?thesis unfolding f32_fp_def bf16_fp_def u pattern_fp_def f by simp
qed

text \<open>A conversion to floats that is accepted gives one float for every element of its source, and each has exactly the
  number that is stored: finite halves of either format keep their value, and infinities and NaNs stay what they are.\<close>

theorem conversion_exact:
  assumes "toFp32 source t = Inr values"
  shows "map f32_fp values = stored_numbers source t \<and> length values * unat (sizeOf t) = length source \<and> values \<noteq> []"
proof -
  from assms have w: "unat (sizeOf t) \<noteq> 0" "source \<noteq> []" "length source mod unat (sizeOf t) = 0"
    and v: "values = map (\<lambda>index. if t = dtype_code FP32 then f32_at source index
           else if t = dtype_code FP16 then fp16ToFloat (half_at source index) else bf16ToFloat (half_at source index))
         [0..<length source div unat (sizeOf t)]"
    by (auto simp: toFp32_def Let_def split: if_splits)
  have n: "length source div unat (sizeOf t) * unat (sizeOf t) = length source" using w(3) by auto
  have "0 < length source div unat (sizeOf t)" using n w(2) by (cases "length source div unat (sizeOf t)") simp_all
  then have "values \<noteq> []" by (simp add: v)
  moreover have "map f32_fp values = stored_numbers source t"
    unfolding v stored_numbers_def map_map by (rule map_cong) (simp_all add: fp16_exact bf16_exact)
  ultimately show ?thesis using n by (simp add: v)
qed

theorem conversion_exact_witness:
  "\<exists>xs. toFp32 [0, 0x3E, 1, 0x80] (dtype_code FP16) = Inr xs \<and> map f32_fp xs = [Fin (3 / 2), Fin (- 1 / 2 ^ 24)]"
proof -
  obtain xs where v: "toFp32 [0, 0x3E, 1, 0x80] (dtype_code FP16) = Inr xs"
    by (simp add: toFp32_def sizeOf_def dtype_of_def)
  have "stored_numbers [0, 0x3E, 1, 0x80] (dtype_code FP16) = [Fin (3 / 2), Fin (- 1 / 2 ^ 24)]"
    by (simp add: stored_numbers_def sizeOf_def dtype_of_def half_at_def f16_fp_def pattern_fp_def pattern_exponent_def
        pattern_magnitude_def pattern_sign_def)
  with conversion_exact [OF v] v show ?thesis by simp
qed

section \<open>Converted tensors\<close>

lemma lockOwner_gone: "view_lockOwner alive v = None \<longleftrightarrow> expired alive (tv_lifetime v)"
  by (auto simp: view_lockOwner_def expired_def split: option.splits)

text \<open>A converted tensor is a new one that holds the floats of its source, which is left as it was.\<close>

lemma toFp32Tensor_computes:
  assumes "toFp32Tensor new v h = (Inr x, h')" and "allocator_ok new" and "view_ok v"
  obtains h1 xs where "toFp32 (bytes_at (ho_memory h) (tv_data v) (unat (tv_bytes v))) (tv_dtype v) = Inr xs"
    and "fresh_tensor h (tv_shape v) (dtype_code FP32) x h1" and "computed h1 (view_of_tensor x) xs h'"
proof -
  from assms(1) obtain plan xs h1 where live: "\<not> expired (owners h) (tv_lifetime v)" and flat: "isContiguous (tv_shape v)"
    and plan: "selectExecutionPlan (tv_dtype v) device_cpu = Inr plan"
    and xs: "toFp32 (bytes_at (ho_memory h) (view_data (owners h) v) (unat (tv_bytes v))) (tv_dtype v) = Inr xs"
    and n: "length xs = element_count v"
    and new: "allocateTensor new (tv_shape v) (pl_executionDType plan) h = (Inr x, h1)"
    and h': "h' = h1\<lparr> ho_memory := fill (tn_data x) (\<lambda>_ i. xs ! i) [0..<length xs] (ho_memory h1) \<rparr>"
    by (auto simp: toFp32Tensor_def Let_def bindr_eq_Inr lockOwner_gone split: sum.splits prod.splits elim!: bindp_cases)
  have fp32: "pl_executionDType plan = dtype_code FP32"
    using plan by (auto simp: selectExecutionPlan_def split: if_splits option.splits dtype.splits)
  have fresh: "fresh_tensor h (tv_shape v) (dtype_code FP32) x h1"
    using allocate_fresh [OF new assms(2) _ flat] assms(3) by (simp add: fp32 view_ok_def)
  let ?out = "view_of_tensor x"
  have fields: "tv_shape ?out = tn_shape x" "tv_dtype ?out = tn_dtype x" "tv_data ?out = tn_data x" by (simp_all add: view_of_tensor_def)
  have out: "view_ok ?out" "tv_dtype ?out = dtype_code FP32" "tv_data ?out = tn_data x" "element_count ?out = length xs"
    using fresh n fields by (simp_all add: fresh_tensor_def element_count_def)
  note ob = float_view_bytes [OF out(1,2)]
  have "floats_at (ho_memory h') (tn_data x) (length xs) = map ((!) xs) [0..<length xs]"
    unfolding h' using fill_upt(1) [of "length xs" "tn_data x" "ho_memory h1" "\<lambda>_ i. xs ! i"] ob(2) out(4) by simp
  then have "view_floats (ho_memory h') ?out = xs" by (simp add: view_floats_def out map_nth)
  moreover have "ho_memory h' y = ho_memory h1 y" if "y \<notin> view_span ?out" for y
    unfolding h' using that fill_upt(2) [of "length xs" "tn_data x" "ho_memory h1" "\<lambda>_ i. xs ! i" y] ob out
    by (simp add: view_span_def)
  ultimately have "computed h1 ?out xs h'" by (simp add: computed_def h')
  then show ?thesis using that [of xs h1] xs fresh by (simp add: live_view(1) [OF live])
qed

end
