(* ===== verification/Spec2Isabelle.thy ===== *)
theory Spec2Isabelle
  imports Expert_Manager_Props Memory_Pressure Residency_State Runtime_Event Prefetcher Tensor
    Expert_Store Transfer_Props Scheduler_Props Manifest_Json KV_Manager Cuda_Pool Generation_Runs
    Expert_Predictor Safe_Tensors Expert_Mlp Device_Budget Precision
begin

text \<open>
  A model of HyperMoE, a runtime that serves mixture-of-experts models whose experts do not fit
  in device memory. Experts live in four tiers (NVMe, RAM, pinned RAM, VRAM); the program decides
  which expert is where, moves the bytes, and hands out views of them.

  \<^bold>\<open>How the parts interact.\<close> The expert manager owns the table of experts and their reservations in
  the memory manager; a cache policy names the victims when a tier is full, and the memory
  pressure controller asks the manager to evict. The scheduler takes requests and predictions of
  the prefetcher, follows the residency state machine of each expert, queues transfers by
  urgency and publishes events; its workers submit to the transfer manager, whose own workers
  read from the expert store or copy between buffers. The expert store keeps all experts in one
  file, addressed by a binary index. Tensors and views describe the bytes.

  \<^bold>\<open>The theories and the code they model.\<close>
  \<^item> \<open>Prelude\<close>: exceptions, programs with state and exceptions, their rules, and facts on 64-bit words
    and association lists. \<open>Priority_Queue\<close>: the contract of \<open>std::priority_queue\<close> as a locale,
    interpreted on the comparison objects of the transfer manager and of the scheduler.
  \<^item> \<open>Expert_Types\<close>: \<^verbatim>\<open>memory_tier.hpp\<close>, \<^verbatim>\<open>expert.hpp\<close>. \<open>Buffers\<close>: the buffers and the transfer structs.
  \<^item> \<open>Memory_Manager\<close>: \<^verbatim>\<open>memory_manager.cpp\<close>, the ledger of reservations. Its used bytes are the live
    reservations and never exceed the limit.
  \<^item> \<open>Cache_Policy\<close>: \<^verbatim>\<open>cache_policy.hpp\<close>, LRU, LFU and hybrid policies: what each evicts, and the locale
    of what the manager needs of a policy, interpreted on all three.
  \<^item> \<open>Expert_Manager\<close>: \<^verbatim>\<open>expert_manager.cpp\<close>. \<open>_Inv\<close> holds the invariant that ties experts,
    reservations, policy ids and leases together, \<open>_Fuel\<close> shows that the fuel of the mutually recursive
    \<open>moveExpertLocked\<close> and \<open>makeRoomLocked\<close> is enough, \<open>_Ops\<close> carries both through every operation,
    \<open>_Props\<close> has the properties. The fuel is derived from the number of experts: each recursive call
    pins one expert more or demotes one tier further, and \<open>manager_operations_end\<close> states that \<open>Diverged\<close> is never the result.
  \<^item> \<open>Memory_Pressure\<close>: \<^verbatim>\<open>MemoryPressureController.cpp\<close>.
  \<^item> \<open>Residency_State\<close>: \<^verbatim>\<open>ExpertState.cpp\<close>, the life cycle of an expert: while it is active, only the operation
    that ends the activity changes it. \<open>Runtime_Event\<close>: \<^verbatim>\<open>RuntimeEvent.cpp\<close>. \<open>Prefetcher\<close>: \<^verbatim>\<open>Prefetcher.cpp\<close>.
  \<^item> \<open>Tensor_Shape\<close>, \<open>Tensor\<close>: \<^verbatim>\<open>DType.hpp\<close>, \<^verbatim>\<open>Shape.cpp\<close>, \<^verbatim>\<open>Tensor.cpp\<close>, \<^verbatim>\<open>TensorView.cpp\<close>: every element a
    derived view addresses lies in the buffer it came from.
  \<^item> \<open>Byte_Codec\<close>, \<open>Expert_Index\<close>, \<open>Expert_Store\<close>: \<^verbatim>\<open>ExpertIndex.cpp\<close>, \<^verbatim>\<open>ExpertStore.cpp\<close>, \<^verbatim>\<open>MappedFile.cpp\<close>,
    \<^verbatim>\<open>DiskLoader.cpp\<close>: the locale of a fixed-width codec, the index format and its validation, creation
    and checksummed reads. A directory is a map from file names to contents.
  \<^item> \<open>Transfer_Manager\<close>, \<open>Transfer_Props\<close>: \<^verbatim>\<open>TransferManager.cpp\<close> with the constructors of
    \<^verbatim>\<open>PinnedBuffer.cpp\<close> and \<^verbatim>\<open>Backend.cpp\<close>.
  \<^item> \<open>Scheduler\<close>, \<open>Scheduler_Inv\<close>, \<open>Scheduler_Props\<close>: \<^verbatim>\<open>Scheduler.cpp\<close>.
  \<^item> \<open>Json_Value\<close>, \<open>Json_Text\<close>, \<open>Json_Grammar\<close>: \<^verbatim>\<open>JsonValue.cpp\<close>. The grammar of strings, numbers and documents as
    inductive predicates; the parser accepts exactly the documents of the grammar. The fuel of the
    loops over elements and members is the length of the input, of which each round takes a byte.
  \<^item> \<open>KV_Cache\<close>, \<open>KV_Manager\<close>: \<^verbatim>\<open>KVCache.cpp\<close>, \<^verbatim>\<open>KVCacheManager.cpp\<close>. The cache refines a log of token rows; what
    the budget needs of a cache is a locale, interpreted on it.
  \<^item> \<open>Cuda_Pool\<close>: \<^verbatim>\<open>CudaMemoryPool.cpp\<close>, the pool of device blocks under every interleaving of its threads.
  \<^item> \<open>Model_Types\<close>, \<open>Model_Manifest\<close>, \<open>Manifest_Json\<close>: \<^verbatim>\<open>ModelConfig.hpp\<close>, \<^verbatim>\<open>RouterConfig.cpp\<close>, \<^verbatim>\<open>ModelArchitecture.cpp\<close>,
    \<^verbatim>\<open>ModelManifest.cpp\<close>: what a validated manifest guarantees to the readers of experts, and the round trip of its JSON text.
    How floats are read and printed is a parameter.
  \<^item> \<open>Ranking\<close>, \<open>Routing\<close>: \<^verbatim>\<open>CpuRouterBackend.cpp\<close>, \<^verbatim>\<open>Router.cpp\<close>: the experts of a token are the best by score, and the
    groups of a batch are the decisions of its tokens read by expert.
  \<^item> \<open>Sampling\<close>: \<^verbatim>\<open>LogitsProcessor.cpp\<close>, \<^verbatim>\<open>Sampler.cpp\<close>: a sampled token is in the nucleus of the best.
  \<^item> \<open>Generation\<close>, \<open>Generation_Props\<close>, \<open>Generation_Runs\<close>: \<^verbatim>\<open>GenerationState.cpp\<close>, \<^verbatim>\<open>ForwardState.cpp\<close>, \<^verbatim>\<open>InferenceSession.cpp\<close>,
    \<^verbatim>\<open>Decoder.cpp\<close>, \<^verbatim>\<open>Generator.cpp\<close>. The generation model, the tokenizer and the cache are parameters; \<open>serves\<close> is the contract of
    the first and the last, under which generation succeeds. The fuel of the loop is one round more than tokens are asked for:
    each round but the last appends one. The lemmas also show that a session is always given back and what a result looks like.
  \<^item> \<open>Prediction_Counts\<close>, \<open>Expert_Predictor\<close>: \<^verbatim>\<open>TransitionDatabase.cpp\<close>, \<^verbatim>\<open>ExpertHistory.cpp\<close>, \<^verbatim>\<open>ExpertPredictor.cpp\<close>: the
    counters hold what the log of decisions says (a locale of counters, interpreted on the plain and on the decaying ones), the
    predictions are sound, and the measures of their quality agree with each other.
  \<^item> \<open>Safe_Tensors\<close>, \<open>Weight_Map\<close>, \<open>Device_Budget\<close>: \<^verbatim>\<open>SafeTensors.cpp\<close>, \<^verbatim>\<open>SafeTensorShardManager.cpp\<close>, \<^verbatim>\<open>ExpertWeightMap.cpp\<close>,
    \<^verbatim>\<open>ExpertDeviceBudget.cpp\<close>: listed tensors lie in their file apart from each other and are read back; the views of an expert lie
    where its metadata says; a plan for the device fits.
  \<^item> \<open>Host_Memory\<close>, \<open>Cpu_Kernels\<close>, \<open>Expert_Mlp\<close>: \<^verbatim>\<open>CpuTensorBackend.cpp\<close>, \<^verbatim>\<open>Activation.cpp\<close>, \<^verbatim>\<open>ExpertExecutor.cpp\<close> on the host. The
    memory is a map from 64-bit addresses to bytes, a kernel a loop of loads and stores in it, the arithmetic of floats a
    parameter (\<open>float_unit\<close>, operations on 32-bit patterns, each rounded on its own). The lemmas show what a kernel leaves in
    its output, which bytes it leaves alone, and that an applied expert is the gated MLP of its input.
  \<^item> \<open>Precision\<close>: \<^verbatim>\<open>DTypeConverter.cpp\<close> with the host as destination: converting half-precision weights rounds nothing.

  \<^bold>\<open>How state and concurrency are modelled.\<close> An object is a record of its members; a member function
  that may throw is a \<open>prog\<close>, which returns the exception or the value and the state left behind.
  A function that holds the object's lock is one step. Worker threads are step relations: the run
  of a worker is cut where it takes or releases the lock or reads an atomic flag, and every
  interleaving of these steps with the calls of clients is a path. Liveness is stated as: no
  infinite run of worker steps, and at rest every promise is fulfilled. What the operating system,
  a back end or the other end of an asynchronous call does is a parameter or an arbitrary argument
  of the step.

  \<^bold>\<open>Numbers.\<close> Sizes and byte counts are \<open>64 word\<close>, identifiers \<open>32 word\<close>; counters that grow by one from
  zero are \<open>nat\<close>. Doubles are reals where the code has checked them or computed them from
  integers, and so are scores and probabilities, with the exponential as a parameter that may underflow to 0.

  \<^bold>\<open>Not modelled.\<close> The kernels of the device and calls of the CUDA driver; attention and the other layers of a
  transformer; accuracy of floating point, which the parameter of the kernels leaves open; profiling, reports
  and command-line tools; the importer and the validator of one family of checkpoints. Durations and bandwidths are left out of the results
  that carry them.
\<close>

end
